(* ===== verification/Prelude.thy ===== *)
theory Prelude
  imports Main "HOL-Library.Word"
begin

text \<open>
  Shared vocabulary of the development: pointers, status codes and machine integers as the
  headers \<open>include/types/vmxTypes.h\<close> name them, the collections of facts that the component
  theories extend, and generic lemmas on lists and words that several components use.

  Pointers are natural numbers, and the null pointer is address \<open>0\<close>. The C type \<open>unsigned\<close>
  of the i386 target is \<open>32 word\<close>, \<open>unsigned short\<close> is \<open>16 word\<close> and \<open>unsigned char\<close> is
  \<open>8 word\<close>. A function whose C behaviour may be undefined (an access outside an array, a loop
  that may not end) returns an option, and \<open>None\<close> is that outcome.
\<close>

unbundle bit_operations_syntax

subsection \<open>Names of the C headers\<close>

type_synonym ptr = nat

abbreviation NULL :: ptr where "NULL \<equiv> 0"

type_synonym STATUS = int

abbreviation OK :: STATUS where "OK \<equiv> 0"

abbreviation ERROR :: STATUS where "ERROR \<equiv> - 1"

type_synonym u8 = "8 word"

type_synonym u16 = "16 word"

type_synonym u32 = "32 word"

type_synonym u64 = "64 word"

abbreviation WAIT_NONE :: u32 where "WAIT_NONE \<equiv> 0"

abbreviation WAIT_FOREVER :: u32 where "WAIT_FOREVER \<equiv> 0xffffffff"

subsection \<open>Collections of facts\<close>

named_theorems heap_simps \<open>reads after writes of the pointer structures\<close>

named_theorems rep_intros \<open>abstraction relations kept by the operations\<close>

named_theorems kernel_simps \<open>projections of the kernel state after a kernel operation\<close>

subsection \<open>Lists\<close>

lemma hd_append_last: "hd (xs @ [q]) = (if xs = [] then q else hd xs)"
  by (cases xs) auto

lemma last_Cons_if: "last (p # xs) = (if xs = [] then p else last xs)"
  by simp

lemma split_at_member:
  assumes "x \<in> set xs"
  obtains as bs where "xs = as @ x # bs" "x \<notin> set as"
  using assms by (meson split_list_first)

lemma distinct_split_unique:
  assumes "distinct (as @ x # bs)" and "as @ x # bs = cs @ x # ds"
  shows "as = cs \<and> bs = ds"
  using assms by (metis append_Cons_eq_iff distinct_append not_distinct_conv_prefix distinct.simps(2))

lemma remove1_split: "x \<notin> set as \<Longrightarrow> remove1 x (as @ x # bs) = as @ bs"
  by (simp add: remove1_append)

lemma filter_map_snd_remove1:
  "distinct (map snd q) \<Longrightarrow> map snd (filter (\<lambda>e. snd e \<noteq> n) q) = remove1 n (map snd q)"
  by (induction q) (auto simp: filter_id_conv image_iff remove1_idem)

text \<open>Loops that look for the first index with a property.\<close>

lemma find_upt: "find P [0..<n] = Some i \<longleftrightarrow> i < n \<and> P i \<and> (\<forall>j < i. \<not> P j)"
  by (auto simp: find_Some_iff)

lemma find_first: "k < n \<Longrightarrow> P k \<Longrightarrow> (\<And>j. j < k \<Longrightarrow> \<not> P j) \<Longrightarrow> find P [0..<n] = Some k"
  by (simp add: find_upt)

lemma find_none: "(\<And>j. j < n \<Longrightarrow> \<not> P j) \<Longrightarrow> find P [0..<n] = None"
  by (auto simp: find_None_iff)

end
