(* ===== verification/NodeList.thy ===== *)
theory NodeList
  imports Prelude
begin

text \<open>
  The contract that the three intrusive list libraries of the source share (\<open>dllLib\<close>, \<open>sllLib\<close>
  and \<open>listLib\<close>): a list head in a store holds a list of nodes, and the operations add a node at
  either end or take the first one. What the clients need (a list filled from one end is emptied
  in the same order, whatever library provides it) is proved once here.
\<close>

text \<open>\<open>drain get k m\<close> calls \<open>get\<close> \<open>k\<close> times and collects what it returns.\<close>

primrec drain :: "('m \<Rightarrow> 'n \<times> 'm) \<Rightarrow> nat \<Rightarrow> 'm \<Rightarrow> 'n list \<times> 'm" where
  "drain get 0 m = ([], m)"
| "drain get (Suc k) m =
     (let (n, m1) = get m; (ns, m2) = drain get k m1 in (n # ns, m2))"

locale node_list =
  fixes rep :: "'m \<Rightarrow> ptr \<Rightarrow> ptr list \<Rightarrow> bool"
    and add :: "ptr \<Rightarrow> ptr \<Rightarrow> 'm \<Rightarrow> 'm"
    and push :: "ptr \<Rightarrow> ptr \<Rightarrow> 'm \<Rightarrow> 'm"
    and get :: "ptr \<Rightarrow> 'm \<Rightarrow> ptr \<times> 'm"
  assumes rep_nodes: "rep m l xs \<Longrightarrow> distinct xs \<and> NULL \<notin> set xs"
    and add_law: "rep m l xs \<Longrightarrow> n \<noteq> NULL \<Longrightarrow> n \<notin> set xs \<Longrightarrow> rep (add l n m) l (xs @ [n])"
    and push_law: "rep m l xs \<Longrightarrow> n \<noteq> NULL \<Longrightarrow> n \<notin> set xs \<Longrightarrow> rep (push l n m) l (n # xs)"
    and get_law: "rep m l (x # xs) \<Longrightarrow> fst (get l m) = x \<and> rep (snd (get l m)) l xs"
    and get_empty_law: "rep m l [] \<Longrightarrow> get l m = (NULL, m)"
begin

lemma fill_rep:
  assumes "rep m l xs" and "distinct (xs @ ns)" and "NULL \<notin> set ns"
  shows "rep (fold (add l) ns m) l (xs @ ns)"
  using assms
proof (induction ns arbitrary: m xs)
  case Nil
  then show ?case by simp
next
  case (Cons n ns)
  then have "rep (add l n m) l (xs @ [n])" by (intro add_law) auto
  with Cons.IH [of "add l n m" "xs @ [n]"] Cons.prems show ?case by simp
qed

lemma stack_rep:
  assumes "rep m l xs" and "distinct (ns @ xs)" and "NULL \<notin> set ns"
  shows "rep (fold (push l) ns m) l (rev ns @ xs)"
  using assms
proof (induction ns arbitrary: m xs)
  case Nil
  then show ?case by simp
next
  case (Cons n ns)
  then have "rep (push l n m) l (n # xs)" by (intro push_law) auto
  with Cons.IH [of "push l n m" "n # xs"] Cons.prems show ?case by simp
qed

lemma drain_rep:
  assumes "rep m l xs" and "k \<le> length xs"
  shows "fst (drain (get l) k m) = take k xs \<and> rep (snd (drain (get l) k m)) l (drop k xs)"
  using assms
proof (induction k arbitrary: m xs)
  case 0
  then show ?case by simp
next
  case (Suc k)
  then obtain x ys where xs: "xs = x # ys" by (cases xs) auto
  with Suc.prems have "fst (get l m) = x" and "rep (snd (get l m)) l ys"
    using get_law by blast+
  with Suc.IH [of "snd (get l m)" ys] Suc.prems xs show ?case
    by (simp add: Let_def split_beta)
qed

lemma fill_drain:
  assumes "rep m l []" and "distinct ns" and "NULL \<notin> set ns"
  shows "fst (drain (get l) (length ns) (fold (add l) ns m)) = ns"
proof -
  have "rep (fold (add l) ns m) l ns" using fill_rep [of m l "[]" ns] assms by simp
  then show ?thesis using drain_rep [of _ l ns "length ns"] by simp
qed

lemma drain_more:
  assumes "rep m l xs"
  shows "fst (get l (snd (drain (get l) (length xs) m))) = NULL"
  using drain_rep [OF assms, of "length xs"] get_empty_law by simp

end

text \<open>A library that can also unlink a node from the middle of a list.\<close>

locale node_list_remove = node_list +
  fixes remove :: "ptr \<Rightarrow> ptr \<Rightarrow> 'm \<Rightarrow> 'm"
  assumes remove_law: "rep m l (as @ n # bs) \<Longrightarrow> rep (remove l n m) l (as @ bs)"
begin

lemma remove_rep:
  assumes "rep m l xs" and "n \<in> set xs"
  shows "rep (remove l n m) l (remove1 n xs)"
proof -
  obtain as bs where xs: "xs = as @ n # bs" and "n \<notin> set as"
    using assms(2) by (rule split_at_member)
  with assms(1) show ?thesis by (simp add: remove1_split remove_law)
qed

lemma add_remove_rep:
  assumes "rep m l xs" and "n \<noteq> NULL" and "n \<notin> set xs"
  shows "rep (remove l n (add l n m)) l xs"
  using remove_law [of "add l n m" l xs n "[]"] add_law [OF assms] by simp

end

end
