(* ===== verification/DllLib.thy ===== *)
theory DllLib
  imports NodeList
begin

text \<open>
  The doubly linked list library \<open>src/util/dllLib.c\<close>: intrusive nodes and list heads in a store
  addressed by pointers, every operation as the sequence of pointer writes of the code. The
  relation \<open>dll_rep\<close> says that a list head in the store holds a HOL list of nodes, and each
  operation is shown to implement the list operation it names. The contract is the locale
  \<open>node_list\<close>, interpreted on the code's model at the end.
\<close>

subsection \<open>The store\<close>

record DL_NODE =
  dl_prev :: ptr
  dl_next :: ptr

record DL_LIST =
  dl_head :: ptr
  dl_tail :: ptr

record dmem =
  dnodes :: "ptr \<Rightarrow> DL_NODE"
  dlists :: "ptr \<Rightarrow> DL_LIST"

definition DLL_NEXT :: "'a dmem_scheme \<Rightarrow> ptr \<Rightarrow> ptr" where
  "DLL_NEXT m node = dl_next (dnodes m node)"

definition DLL_PREV :: "'a dmem_scheme \<Rightarrow> ptr \<Rightarrow> ptr" where
  "DLL_PREV m node = dl_prev (dnodes m node)"

definition DLL_HEAD :: "'a dmem_scheme \<Rightarrow> ptr \<Rightarrow> ptr" where
  "DLL_HEAD m list = dl_head (dlists m list)"

definition DLL_TAIL :: "'a dmem_scheme \<Rightarrow> ptr \<Rightarrow> ptr" where
  "DLL_TAIL m list = dl_tail (dlists m list)"

definition DLL_EMPTY :: "'a dmem_scheme \<Rightarrow> ptr \<Rightarrow> bool" where
  "DLL_EMPTY m list = (dl_head (dlists m list) = NULL)"

definition set_next :: "ptr \<Rightarrow> ptr \<Rightarrow> 'a dmem_scheme \<Rightarrow> 'a dmem_scheme" where
  "set_next n v m = m\<lparr>dnodes := (dnodes m)(n := (dnodes m n)\<lparr>dl_next := v\<rparr>)\<rparr>"

definition set_prev :: "ptr \<Rightarrow> ptr \<Rightarrow> 'a dmem_scheme \<Rightarrow> 'a dmem_scheme" where
  "set_prev n v m = m\<lparr>dnodes := (dnodes m)(n := (dnodes m n)\<lparr>dl_prev := v\<rparr>)\<rparr>"

definition set_head :: "ptr \<Rightarrow> ptr \<Rightarrow> 'a dmem_scheme \<Rightarrow> 'a dmem_scheme" where
  "set_head l v m = m\<lparr>dlists := (dlists m)(l := (dlists m l)\<lparr>dl_head := v\<rparr>)\<rparr>"

definition set_tail :: "ptr \<Rightarrow> ptr \<Rightarrow> 'a dmem_scheme \<Rightarrow> 'a dmem_scheme" where
  "set_tail l v m = m\<lparr>dlists := (dlists m)(l := (dlists m l)\<lparr>dl_tail := v\<rparr>)\<rparr>"

lemmas store_defs = set_next_def set_prev_def set_head_def set_tail_def
  DLL_NEXT_def DLL_PREV_def DLL_HEAD_def DLL_TAIL_def DLL_EMPTY_def

subsection \<open>The operations\<close>

definition dllInit :: "ptr \<Rightarrow> 'a dmem_scheme \<Rightarrow> STATUS \<times> 'a dmem_scheme" where
  "dllInit pList m =
     (if pList = NULL then (ERROR, m)
      else (OK, set_tail pList NULL (set_head pList NULL m)))"

definition dllAdd :: "ptr \<Rightarrow> ptr \<Rightarrow> 'a dmem_scheme \<Rightarrow> STATUS \<times> 'a dmem_scheme" where
  "dllAdd pList pNode m =
     (if pList = NULL \<or> pNode = NULL then (ERROR, m)
      else
        let m1 = (if DLL_HEAD m pList = NULL then set_head pList pNode m else m);
            pTail = DLL_TAIL m1 pList;
            m2 = (if pTail \<noteq> NULL then set_next pTail pNode m1 else m1);
            m3 = set_prev pNode pTail m2;
            m4 = set_next pNode NULL m3;
            m5 = set_tail pList pNode m4
        in (OK, m5))"

definition dllRemove :: "ptr \<Rightarrow> ptr \<Rightarrow> 'a dmem_scheme \<Rightarrow> STATUS \<times> 'a dmem_scheme" where
  "dllRemove pList pNode m =
     (if pList = NULL \<or> pNode = NULL then (ERROR, m)
      else
        let pPrev = DLL_PREV m pNode;
            pNext = DLL_NEXT m pNode;
            m1 = (if pPrev = NULL then set_head pList pNext m else set_next pPrev pNext m);
            m2 = (if pNext = NULL then set_tail pList pPrev m1 else set_prev pNext pPrev m1)
        in (OK, m2))"

definition dllInsert :: "ptr \<Rightarrow> ptr \<Rightarrow> ptr \<Rightarrow> 'a dmem_scheme \<Rightarrow> STATUS \<times> 'a dmem_scheme" where
  "dllInsert pList pPrev pNode m =
     (if pList = NULL \<or> pNode = NULL then (ERROR, m)
      else
        let pNext = (if pPrev = NULL then DLL_HEAD m pList else DLL_NEXT m pPrev);
            m1 = (if pPrev = NULL then set_head pList pNode m else set_next pPrev pNode m);
            m2 = (if pNext = NULL
                  then set_tail pList pNode (set_prev pNode (DLL_TAIL m1 pList) m1)
                  else set_prev pNext pNode m1);
            m3 = set_next pNode pNext m2;
            m4 = set_prev pNode pPrev m3
        in (OK, m4))"

definition dllGet :: "ptr \<Rightarrow> 'a dmem_scheme \<Rightarrow> ptr \<times> 'a dmem_scheme" where
  "dllGet pList m =
     (if pList = NULL then (NULL, m)
      else
        let pNode = DLL_HEAD m pList
        in if pNode \<noteq> NULL
           then let m1 = set_head pList (DLL_NEXT m pNode) m;
                    m2 = (if DLL_NEXT m1 pNode = NULL then set_tail pList NULL m1
                          else set_prev (DLL_NEXT m1 pNode) NULL m1)
                in (pNode, m2)
           else (pNode, m))"

text \<open>
  The counting loop of \<open>dllCount\<close> follows \<open>next\<close> pointers until \<open>NULL\<close>; on a cyclic structure
  it does not return, which is the value \<open>None\<close>.
\<close>

partial_function (option) dllCount_loop :: "'a dmem_scheme \<Rightarrow> ptr \<Rightarrow> int \<Rightarrow> int option" where
  "dllCount_loop m pNode count =
     (if pNode \<noteq> NULL then dllCount_loop m (DLL_NEXT m pNode) (count + 1) else Some count)"

definition dllCount :: "ptr \<Rightarrow> 'a dmem_scheme \<Rightarrow> int option" where
  "dllCount pList m =
     (if pList = NULL then Some 0 else dllCount_loop m (DLL_HEAD m pList) 0)"

subsection \<open>Reads after writes\<close>

lemma set_next_reads [heap_simps]:
  "dnodes (set_next n v m) x = (if x = n then (dnodes m n)\<lparr>dl_next := v\<rparr> else dnodes m x)"
  "dlists (set_next n v m) = dlists m"
  by (auto simp: set_next_def)

lemma set_prev_reads [heap_simps]:
  "dnodes (set_prev n v m) x = (if x = n then (dnodes m n)\<lparr>dl_prev := v\<rparr> else dnodes m x)"
  "dlists (set_prev n v m) = dlists m"
  by (auto simp: set_prev_def)

lemma set_head_reads [heap_simps]:
  "dlists (set_head l v m) x = (if x = l then (dlists m l)\<lparr>dl_head := v\<rparr> else dlists m x)"
  "dnodes (set_head l v m) = dnodes m"
  by (auto simp: set_head_def)

lemma set_tail_reads [heap_simps]:
  "dlists (set_tail l v m) x = (if x = l then (dlists m l)\<lparr>dl_tail := v\<rparr> else dlists m x)"
  "dnodes (set_tail l v m) = dnodes m"
  by (auto simp: set_tail_def)

lemma dll_macros [heap_simps]:
  "DLL_NEXT m node = dl_next (dnodes m node)"
  "DLL_PREV m node = dl_prev (dnodes m node)"
  "DLL_HEAD m list = dl_head (dlists m list)"
  "DLL_TAIL m list = dl_tail (dlists m list)"
  by (simp_all add: store_defs)

subsection \<open>The list a head holds\<close>

text \<open>
  \<open>dseg m p xs q\<close>: the nodes \<open>xs\<close> are linked one after the other, the first has \<open>p\<close> as its
  predecessor and the last has \<open>q\<close> as its successor.
\<close>

fun dseg :: "'a dmem_scheme \<Rightarrow> ptr \<Rightarrow> ptr list \<Rightarrow> ptr \<Rightarrow> bool" where
  "dseg m p [] q = True"
| "dseg m p (x # xs) q =
     (x \<noteq> NULL \<and> dl_prev (dnodes m x) = p \<and> dl_next (dnodes m x) = hd (xs @ [q]) \<and>
      dseg m x xs q)"

definition dll_rep :: "'a dmem_scheme \<Rightarrow> ptr \<Rightarrow> ptr list \<Rightarrow> bool" where
  "dll_rep m l xs \<longleftrightarrow> l \<noteq> NULL \<and> distinct xs \<and> dseg m NULL xs NULL \<and>
     dl_head (dlists m l) = hd (xs @ [NULL]) \<and> dl_tail (dlists m l) = last (NULL # xs)"

lemma dseg_append:
  "dseg m p (xs @ ys) q \<longleftrightarrow> dseg m p xs (hd (ys @ [q])) \<and> dseg m (last (p # xs)) ys q"
  by (induction xs arbitrary: p) (auto simp: hd_append)

lemma dseg_not_NULL: "dseg m p xs q \<Longrightarrow> NULL \<notin> set xs"
  by (induction xs arbitrary: p) auto

lemma dseg_cong:
  "(\<And>x. x \<in> set xs \<Longrightarrow> dnodes m' x = dnodes m x) \<Longrightarrow> dseg m' p xs q = dseg m p xs q"
  by (induction xs arbitrary: p) auto

lemma dll_rep_frame:
  assumes "\<And>x. x \<in> set xs \<Longrightarrow> dnodes m' x = dnodes m x" and "dlists m' l = dlists m l"
  shows "dll_rep m' l xs = dll_rep m l xs"
  using assms by (simp add: dll_rep_def dseg_cong [of xs m' m])

lemma dll_rep_NULL: "dll_rep m l xs \<Longrightarrow> NULL \<notin> set xs"
  by (auto simp: dll_rep_def dseg_not_NULL)

lemma dll_rep_head: "dll_rep m l xs \<Longrightarrow> DLL_HEAD m l = (if xs = [] then NULL else hd xs)"
  by (simp add: dll_rep_def heap_simps hd_append_last)

lemma dll_rep_tail: "dll_rep m l xs \<Longrightarrow> DLL_TAIL m l = (if xs = [] then NULL else last xs)"
  by (simp add: dll_rep_def heap_simps)

lemma dll_rep_empty: "dll_rep m l xs \<Longrightarrow> DLL_EMPTY m l = (xs = [])"
  by (cases xs) (auto simp: dll_rep_def DLL_EMPTY_def)

text \<open>
  The one lemma behind all the link updates: a segment survives when only the outer links of its
  first and last node change.
\<close>

lemma dseg_relink:
  assumes "dseg m p xs q" and "distinct xs"
    and "\<And>x. x \<in> set xs \<Longrightarrow> x \<noteq> hd xs \<Longrightarrow> dl_prev (dnodes m' x) = dl_prev (dnodes m x)"
    and "\<And>x. x \<in> set xs \<Longrightarrow> x \<noteq> last xs \<Longrightarrow> dl_next (dnodes m' x) = dl_next (dnodes m x)"
    and "xs \<noteq> [] \<Longrightarrow> dl_prev (dnodes m' (hd xs)) = p'"
    and "xs \<noteq> [] \<Longrightarrow> dl_next (dnodes m' (last xs)) = q'"
  shows "dseg m' p' xs q'"
  using assms
proof (induction xs arbitrary: p p')
  case Nil
  then show ?case by simp
next
  case (Cons x xs)
  show ?case
  proof (cases "xs = []")
    case True
    with Cons.prems show ?thesis by simp
  next
    case False
    have "dseg m' x xs q'"
    proof (rule Cons.IH [of x])
      show "dseg m x xs q" and "distinct xs" using Cons.prems(1,2) by auto
      fix y assume y: "y \<in> set xs"
      then have "y \<noteq> x" using Cons.prems(2) by auto
      then show "dl_prev (dnodes m' y) = dl_prev (dnodes m y)" using Cons.prems(3) [of y] y by simp
      show "y \<noteq> last xs \<Longrightarrow> dl_next (dnodes m' y) = dl_next (dnodes m y)"
        using Cons.prems(4) [of y] y False by simp
    next
      have "hd xs \<in> set xs" and "hd xs \<noteq> x" using False Cons.prems(2) by (auto simp: hd_in_set)
      then have "dl_prev (dnodes m' (hd xs)) = dl_prev (dnodes m (hd xs))"
        using Cons.prems(3) [of "hd xs"] by simp
      also have "\<dots> = x" using Cons.prems(1) False by (cases xs) auto
      finally show "dl_prev (dnodes m' (hd xs)) = x" .
      show "dl_next (dnodes m' (last xs)) = q'" using Cons.prems(6) False by simp
    qed
    moreover have "x \<noteq> last (x # xs)" using False Cons.prems(2) by (auto simp: last_in_set)
    then have "dl_next (dnodes m' x) = hd (xs @ [q'])"
      using Cons.prems(1) Cons.prems(4) [of x] False by (simp add: hd_append_last)
    ultimately show ?thesis using Cons.prems(1,5) by simp
  qed
qed

lemma dll_rep_join:
  assumes l: "l \<noteq> NULL" and d: "distinct (as @ bs)"
    and a: "dseg m NULL as (hd (bs @ [NULL]))" and b: "dseg m (last (NULL # as)) bs NULL"
    and h: "dl_head (dlists m l) = hd (as @ bs @ [NULL])"
    and t: "dl_tail (dlists m l) = last (NULL # as @ bs)"
  shows "dll_rep m l (as @ bs)"
  using assms by (simp add: dll_rep_def dseg_append)

subsection \<open>Every operation implements its list operation\<close>

lemma dllInit_rep [rep_intros]: "l \<noteq> NULL \<Longrightarrow> fst (dllInit l m) = OK \<and> dll_rep (snd (dllInit l m)) l []"
  by (simp add: dllInit_def dll_rep_def heap_simps)

lemma dllInit_reads [heap_simps]:
  "dnodes (snd (dllInit l m)) = dnodes m"
  "l' \<noteq> l \<Longrightarrow> dlists (snd (dllInit l m)) l' = dlists m l'"
  by (simp_all add: dllInit_def heap_simps)

lemma dllInsert_reads [heap_simps]:
  "y \<noteq> n \<Longrightarrow> y \<noteq> p \<Longrightarrow> y \<noteq> (if p = NULL then DLL_HEAD m l else DLL_NEXT m p) \<Longrightarrow>
     dnodes (snd (dllInsert l p n m)) y = dnodes m y"
  "l' \<noteq> l \<Longrightarrow> dlists (snd (dllInsert l p n m)) l' = dlists m l'"
  by (auto simp: dllInsert_def heap_simps Let_def split: if_splits)

lemma dllInsert_fields:
  assumes "l \<noteq> NULL" and "n \<noteq> NULL" and "n \<noteq> p"
    and nx: "nx = (if p = NULL then DLL_HEAD m l else DLL_NEXT m p)"
  shows "dl_prev (dnodes (snd (dllInsert l p n m)) y) =
           (if y = n then p else if y = nx \<and> nx \<noteq> NULL then n else dl_prev (dnodes m y))"
    and "dl_next (dnodes (snd (dllInsert l p n m)) y) =
           (if y = n then nx else if y = p \<and> p \<noteq> NULL then n else dl_next (dnodes m y))"
    and "dl_head (dlists (snd (dllInsert l p n m)) l) =
           (if p = NULL then n else dl_head (dlists m l))"
    and "dl_tail (dlists (snd (dllInsert l p n m)) l) =
           (if nx = NULL then n else dl_tail (dlists m l))"
  using assms by (simp_all add: dllInsert_def heap_simps Let_def)

lemma dllInsert_rep:
  assumes rep: "dll_rep m l (as @ bs)" and n: "n \<noteq> NULL" "n \<notin> set (as @ bs)"
  shows "dll_rep (snd (dllInsert l (last (NULL # as)) n m)) l (as @ n # bs)"
proof -
  define p where "p = last (NULL # as)"
  define nx where "nx = hd (bs @ [NULL])"
  let ?m = "snd (dllInsert l p n m)"
  have l: "l \<noteq> NULL" and d: "distinct (as @ bs)" and sa: "dseg m NULL as nx"
    and sb: "dseg m p bs NULL" and h: "dl_head (dlists m l) = hd (as @ bs @ [NULL])"
    and t: "dl_tail (dlists m l) = last (NULL # as @ bs)"
    using rep by (auto simp: dll_rep_def dseg_append p_def nx_def)
  have z: "NULL \<notin> set as" "NULL \<notin> set bs" using dll_rep_NULL [OF rep] by auto
  have p0: "p = NULL \<longleftrightarrow> as = []" using z(1) last_in_set [of as] unfolding p_def by (metis last_Cons_if)
  have n0: "nx = NULL \<longleftrightarrow> bs = []" using z(2) unfolding nx_def by (cases bs) auto
  have nxt: "nx = (if p = NULL then DLL_HEAD m l else DLL_NEXT m p)"
  proof (cases as rule: rev_cases)
    case Nil
    then show ?thesis using h by (simp add: heap_simps p_def nx_def)
  next
    case (snoc as' x)
    then show ?thesis using sa p0 by (simp add: heap_simps dseg_append p_def)
  qed
  have np: "n \<noteq> p" using n last_in_set [of as] unfolding p_def by (cases "as = []") auto
  note F = dllInsert_fields [OF l n(1) np nxt]
  have pa: "as \<noteq> [] \<Longrightarrow> p \<in> set as" and nb: "bs \<noteq> [] \<Longrightarrow> nx \<in> set bs"
    by (simp_all add: p_def nx_def hd_append_last hd_in_set)
  have sa': "dseg ?m NULL as n"
  proof (rule dseg_relink [OF sa])
    fix x assume x: "x \<in> set as"
    then show "dl_prev (dnodes ?m x) = dl_prev (dnodes m x)"
      using nb n d n0 by (auto simp: F(1))
    show "dl_next (dnodes ?m x) = dl_next (dnodes m x)" if "x \<noteq> last as"
    proof -
      have "x \<noteq> p" and "x \<noteq> n" using that x n by (auto simp: p_def split: if_splits)
      then show ?thesis by (simp add: F(2))
    qed
  next
    assume ne: "as \<noteq> []"
    then show "dl_prev (dnodes ?m (hd as)) = NULL"
      using sa nb n d n0 hd_in_set [OF ne] by (cases as) (auto simp: F(1))
    have "last as = p" using ne by (simp add: p_def)
    then show "dl_next (dnodes ?m (last as)) = n" using ne p0 np by (simp add: F(2))
  qed (use d in simp)
  have sb': "dseg ?m n bs NULL"
  proof (rule dseg_relink [OF sb])
    fix x assume x: "x \<in> set bs"
    show "dl_prev (dnodes ?m x) = dl_prev (dnodes m x)" if "x \<noteq> hd bs"
    proof -
      have "x \<noteq> nx" and "x \<noteq> n" using that x n by (auto simp: nx_def hd_append_last)
      then show ?thesis by (simp add: F(1))
    qed
    show "dl_next (dnodes ?m x) = dl_next (dnodes m x)"
      using x pa n d p0 by (auto simp: F(2))
  next
    assume ne: "bs \<noteq> []"
    then have "hd bs = nx" and "hd bs \<noteq> n" using n hd_in_set [OF ne]
      by (auto simp: nx_def hd_append_last)
    then show "dl_prev (dnodes ?m (hd bs)) = n" using n0 ne by (simp add: F(1))
    show "dl_next (dnodes ?m (last bs)) = NULL"
      using ne sb pa n d p0 last_in_set [OF ne]
      by (cases bs rule: rev_cases) (auto simp: F(2) dseg_append)
  qed (use d in simp)
  show ?thesis
    unfolding p_def [symmetric]
  proof (rule dll_rep_join [OF l])
    show "dseg ?m NULL as (hd ((n # bs) @ [NULL]))" using sa' by simp
    show "dseg ?m (last (NULL # as)) (n # bs) NULL"
      using sb' n np by (simp add: F(1,2) nx_def [symmetric]) (simp add: p_def)
    show "dl_head (dlists ?m l) = hd (as @ (n # bs) @ [NULL])"
      using h p0 unfolding F(3) by (cases as) simp_all
    show "dl_tail (dlists ?m l) = last (NULL # as @ n # bs)"
      using t n0 unfolding F(4) by (cases bs) simp_all
  qed (use d n in auto)
qed

lemma dllRemove_fields:
  assumes "l \<noteq> NULL" and "n \<noteq> NULL" and "p = DLL_PREV m n" and "q = DLL_NEXT m n"
  shows "dl_next (dnodes (snd (dllRemove l n m)) y) =
           (if y = p \<and> p \<noteq> NULL then q else dl_next (dnodes m y))"
    and "dl_prev (dnodes (snd (dllRemove l n m)) y) =
           (if y = q \<and> q \<noteq> NULL then p else dl_prev (dnodes m y))"
    and "dl_head (dlists (snd (dllRemove l n m)) l) =
           (if p = NULL then q else dl_head (dlists m l))"
    and "dl_tail (dlists (snd (dllRemove l n m)) l) =
           (if q = NULL then p else dl_tail (dlists m l))"
  using assms by (simp_all add: dllRemove_def heap_simps Let_def)

lemma dllRemove_reads [heap_simps]:
  "y \<noteq> DLL_PREV m n \<Longrightarrow> y \<noteq> DLL_NEXT m n \<Longrightarrow> dnodes (snd (dllRemove l n m)) y = dnodes m y"
  "l' \<noteq> l \<Longrightarrow> dlists (snd (dllRemove l n m)) l' = dlists m l'"
  by (auto simp: dllRemove_def heap_simps Let_def split: if_splits)

lemma dllRemove_rep:
  assumes rep: "dll_rep m l (as @ n # bs)"
  shows "dll_rep (snd (dllRemove l n m)) l (as @ bs)"
proof -
  define p where "p = last (NULL # as)"
  define q where "q = hd (bs @ [NULL])"
  let ?m = "snd (dllRemove l n m)"
  have l: "l \<noteq> NULL" and d: "distinct (as @ n # bs)" and sa: "dseg m NULL as n"
    and sb: "dseg m n bs NULL" and n: "n \<noteq> NULL" "dl_prev (dnodes m n) = p" "dl_next (dnodes m n) = q"
    and h: "dl_head (dlists m l) = hd (as @ (n # bs) @ [NULL])"
    and t: "dl_tail (dlists m l) = last (NULL # as @ n # bs)"
    using rep by (auto simp: dll_rep_def dseg_append p_def q_def)
  have z: "NULL \<notin> set as" "NULL \<notin> set bs" using dll_rep_NULL [OF rep] by auto
  have p0: "p = NULL \<longleftrightarrow> as = []" using z(1) last_in_set [of as] unfolding p_def by (metis last_Cons_if)
  have q0: "q = NULL \<longleftrightarrow> bs = []" using z(2) unfolding q_def by (cases bs) auto
  have np: "p = DLL_PREV m n" and nq: "q = DLL_NEXT m n" using n by (simp_all add: heap_simps)
  note F = dllRemove_fields [OF l n(1) np nq]
  have pa: "as \<noteq> [] \<Longrightarrow> p \<in> set as" and qb: "bs \<noteq> [] \<Longrightarrow> q \<in> set bs"
    by (simp_all add: p_def q_def hd_append_last hd_in_set)
  have sa': "dseg ?m NULL as q"
  proof (rule dseg_relink [OF sa])
    fix x assume x: "x \<in> set as"
    then show "dl_prev (dnodes ?m x) = dl_prev (dnodes m x)"
      using qb d q0 by (auto simp: F(2))
    show "dl_next (dnodes ?m x) = dl_next (dnodes m x)" if "x \<noteq> last as"
    proof -
      have "x \<noteq> p" using that x by (auto simp: p_def split: if_splits)
      then show ?thesis by (simp add: F(1))
    qed
  next
    assume ne: "as \<noteq> []"
    then show "dl_prev (dnodes ?m (hd as)) = NULL"
      using sa qb d q0 hd_in_set [OF ne] by (cases as) (auto simp: F(2))
    have "last as = p" using ne by (simp add: p_def)
    then show "dl_next (dnodes ?m (last as)) = q" using ne p0 by (simp add: F(1))
  qed (use d in simp)
  have sb': "dseg ?m p bs NULL"
  proof (rule dseg_relink [OF sb])
    fix x assume x: "x \<in> set bs"
    show "dl_prev (dnodes ?m x) = dl_prev (dnodes m x)" if "x \<noteq> hd bs"
    proof -
      have "x \<noteq> q" using that x by (auto simp: q_def hd_append_last)
      then show ?thesis by (simp add: F(2))
    qed
    show "dl_next (dnodes ?m x) = dl_next (dnodes m x)"
      using x pa d p0 by (auto simp: F(1))
  next
    assume ne: "bs \<noteq> []"
    then have "hd bs = q" by (simp add: q_def hd_append_last)
    then show "dl_prev (dnodes ?m (hd bs)) = p" using q0 ne by (simp add: F(2))
    show "dl_next (dnodes ?m (last bs)) = NULL"
      using ne sb pa d p0 last_in_set [OF ne]
      by (cases bs rule: rev_cases) (auto simp: F(1) dseg_append)
  qed (use d in simp)
  show ?thesis
  proof (rule dll_rep_join [OF l])
    show "dseg ?m NULL as (hd (bs @ [NULL]))" using sa' by (simp add: q_def)
    show "dseg ?m (last (NULL # as)) bs NULL" using sb' by (simp only: p_def)
    show "dl_head (dlists ?m l) = hd (as @ bs @ [NULL])"
      using h p0 unfolding F(3) by (cases as) (simp_all add: q_def)
    show "dl_tail (dlists ?m l) = last (NULL # as @ bs)"
      using t q0 unfolding F(4) by (cases bs) (simp_all add: p_def)
  qed (use d in auto)
qed

lemma dllAdd_eq_insert:
  assumes "dll_rep m l xs"
  shows "snd (dllAdd l n m) = snd (dllInsert l (DLL_TAIL m l) n m)"
proof (cases xs rule: rev_cases)
  case Nil
  with assms show ?thesis
    by (auto simp: dllAdd_def dllInsert_def Let_def store_defs dll_rep_def
        intro!: dmem.equality DL_NODE.equality DL_LIST.equality)
next
  case (snoc as x)
  with assms have "dl_next (dnodes m x) = NULL" "dl_tail (dlists m l) = x" "x \<noteq> NULL"
    by (auto simp: dll_rep_def dseg_append)
  moreover have "dl_head (dlists m l) = hd xs"
    using dll_rep_head [OF assms] snoc by (simp add: heap_simps)
  moreover have "hd xs \<in> set xs" using snoc by (intro hd_in_set) simp
  ultimately have "dl_head (dlists m l) \<noteq> NULL" "dl_next (dnodes m x) = NULL"
    "dl_tail (dlists m l) = x" "x \<noteq> NULL" using dll_rep_NULL [OF assms] by metis+
  then show ?thesis
    by (auto simp: dllAdd_def dllInsert_def Let_def store_defs
        intro!: dmem.equality DL_NODE.equality DL_LIST.equality)
qed

lemma dllAdd_rep:
  assumes rep: "dll_rep m l xs" and n: "n \<noteq> NULL" "n \<notin> set xs"
  shows "dll_rep (snd (dllAdd l n m)) l (xs @ [n])"
proof -
  have "DLL_TAIL m l = last (NULL # xs)" using dll_rep_tail [OF rep] by simp
  then show ?thesis
    using dllInsert_rep [of m l xs "[]" n] rep n by (simp add: dllAdd_eq_insert [OF rep])
qed

lemma dllAdd_reads [heap_simps]:
  "y \<noteq> n \<Longrightarrow> y \<noteq> DLL_TAIL m l \<Longrightarrow> dnodes (snd (dllAdd l n m)) y = dnodes m y"
  "l' \<noteq> l \<Longrightarrow> dlists (snd (dllAdd l n m)) l' = dlists m l'"
  by (auto simp: dllAdd_def heap_simps Let_def split: if_splits)

lemma dllGet_eq_remove:
  assumes "dll_rep m l (x # xs)"
  shows "dllGet l m = (x, snd (dllRemove l x m))"
  using assms by (auto simp: dllGet_def dllRemove_def Let_def store_defs dll_rep_def)

lemma dllGet_empty: "dll_rep m l [] \<Longrightarrow> dllGet l m = (NULL, m)"
  by (simp add: dllGet_def dll_rep_def heap_simps)

lemma dllGet_rep:
  assumes "dll_rep m l (x # xs)"
  shows "fst (dllGet l m) = x" and "dll_rep (snd (dllGet l m)) l xs"
  using assms dllRemove_rep [of m l "[]" x xs] by (simp_all add: dllGet_eq_remove)

lemma dllCount_loop_dseg:
  "dseg m p xs NULL \<Longrightarrow> dllCount_loop m (hd (xs @ [NULL])) c = Some (c + int (length xs))"
proof (induction xs arbitrary: p c)
  case Nil
  then show ?case by (simp add: dllCount_loop.simps)
next
  case (Cons x xs)
  then show ?case
    using Cons.IH [of x "c + 1"] by (simp add: dllCount_loop.simps [of m x] heap_simps)
qed

lemma dllCount_rep: "dll_rep m l xs \<Longrightarrow> dllCount l m = Some (int (length xs))"
  using dllCount_loop_dseg [of m NULL xs 0] by (simp add: dllCount_def dll_rep_def heap_simps)

lemma dll_status:
  "l \<noteq> NULL \<Longrightarrow> n \<noteq> NULL \<Longrightarrow> fst (dllAdd l n m) = OK"
  "l \<noteq> NULL \<Longrightarrow> n \<noteq> NULL \<Longrightarrow> fst (dllRemove l n m) = OK"
  "l \<noteq> NULL \<Longrightarrow> n \<noteq> NULL \<Longrightarrow> fst (dllInsert l p n m) = OK"
  by (simp_all add: dllAdd_def dllRemove_def dllInsert_def Let_def)

lemma dll_errors:
  "l = NULL \<or> n = NULL \<Longrightarrow> dllAdd l n m = (ERROR, m)"
  "l = NULL \<or> n = NULL \<Longrightarrow> dllRemove l n m = (ERROR, m)"
  "l = NULL \<or> n = NULL \<Longrightarrow> dllInsert l p n m = (ERROR, m)"
  by (auto simp: dllAdd_def dllRemove_def dllInsert_def)

subsection \<open>Other lists are not touched\<close>

lemma dll_rep_other:
  assumes "dll_rep m l' ys" and "l' \<noteq> l"
    and "\<And>y. y \<in> set ys \<Longrightarrow> dnodes m' y = dnodes m y" and "dlists m' l' = dlists m l'"
  shows "dll_rep m' l' ys"
  using assms dll_rep_frame [of ys m' m l'] by simp

lemma dllInsert_frame [rep_intros]:
  assumes r: "dll_rep m l (as @ bs)" "dll_rep m l' ys" and "l' \<noteq> l"
    and dis: "set (as @ bs) \<inter> set ys = {}" "n \<notin> set ys"
  shows "dll_rep (snd (dllInsert l (last (NULL # as)) n m)) l' ys"
proof (rule dll_rep_other [OF r(2) \<open>l' \<noteq> l\<close>])
  let ?p = "last (NULL # as)"
  have z: "NULL \<notin> set ys" "NULL \<notin> set as" using dll_rep_NULL [OF r(1)] dll_rep_NULL [OF r(2)] by auto
  fix y assume y: "y \<in> set ys"
  have "?p = NULL \<or> ?p \<in> set as" by simp
  then have "y \<noteq> ?p" using y dis z by auto
  moreover have "(if ?p = NULL then DLL_HEAD m l else DLL_NEXT m ?p) = hd (bs @ [NULL])"
  proof (cases as rule: rev_cases)
    case Nil
    then show ?thesis using r(1) by (simp add: dll_rep_def heap_simps)
  next
    case (snoc as' x)
    then have "x \<noteq> NULL" and "dl_next (dnodes m x) = hd (bs @ [NULL])"
      using z r(1) by (auto simp: dll_rep_def dseg_append)
    then show ?thesis using snoc by (simp add: heap_simps)
  qed
  moreover have "hd (bs @ [NULL]) = NULL \<or> hd (bs @ [NULL]) \<in> set bs" by (cases bs) auto
  ultimately show "dnodes (snd (dllInsert l ?p n m)) y = dnodes m y"
    using y dis z by (intro dllInsert_reads(1)) auto
qed (simp add: heap_simps \<open>l' \<noteq> l\<close>)

lemma dllAdd_frame [rep_intros]:
  assumes "dll_rep m l xs" "dll_rep m l' ys" and "l' \<noteq> l"
    and "set xs \<inter> set ys = {}" "n \<notin> set ys"
  shows "dll_rep (snd (dllAdd l n m)) l' ys"
  using dllInsert_frame [of m l xs "[]" l' ys n] assms dll_rep_tail [OF assms(1)]
  by (simp add: dllAdd_eq_insert [OF assms(1)])

lemma dllRemove_frame [rep_intros]:
  assumes r: "dll_rep m l (as @ n # bs)" "dll_rep m l' ys" and "l' \<noteq> l"
    and dis: "set (as @ n # bs) \<inter> set ys = {}"
  shows "dll_rep (snd (dllRemove l n m)) l' ys"
proof (rule dll_rep_other [OF r(2) \<open>l' \<noteq> l\<close>])
  have z: "NULL \<notin> set ys" using dll_rep_NULL [OF r(2)] .
  have "DLL_PREV m n = last (NULL # as)" and "DLL_NEXT m n = hd (bs @ [NULL])"
    using r(1) by (auto simp: dll_rep_def dseg_append heap_simps)
  moreover have "last (NULL # as) = NULL \<or> last (NULL # as) \<in> set as"
    and "hd (bs @ [NULL]) = NULL \<or> hd (bs @ [NULL]) \<in> set bs"
    by simp (cases bs, auto)
  moreover fix y assume "y \<in> set ys"
  ultimately show "dnodes (snd (dllRemove l n m)) y = dnodes m y"
    using dis z by (intro dllRemove_reads(1)) auto
qed (simp add: heap_simps \<open>l' \<noteq> l\<close>)

subsection \<open>The list contract\<close>

interpretation dll: node_list_remove dll_rep
  "\<lambda>l n m. snd (dllAdd l n m)" "\<lambda>l n m. snd (dllInsert l NULL n m)" dllGet
  "\<lambda>l n m. snd (dllRemove l n m)"
proof unfold_locales
  fix m :: "'a dmem_scheme" and l n x xs as bs
  show "dll_rep m l xs \<Longrightarrow> distinct xs \<and> NULL \<notin> set xs"
    using dll_rep_NULL [of m l xs] by (auto simp: dll_rep_def)
  show "dll_rep m l xs \<Longrightarrow> n \<noteq> NULL \<Longrightarrow> n \<notin> set xs \<Longrightarrow>
      dll_rep (snd (dllAdd l n m)) l (xs @ [n])"
    by (rule dllAdd_rep)
  show "dll_rep m l xs \<Longrightarrow> n \<noteq> NULL \<Longrightarrow> n \<notin> set xs \<Longrightarrow>
      dll_rep (snd (dllInsert l NULL n m)) l (n # xs)"
    using dllInsert_rep [of m l "[]" xs n] by simp
  show "dll_rep m l (x # xs) \<Longrightarrow> fst (dllGet l m) = x \<and> dll_rep (snd (dllGet l m)) l xs"
    by (simp add: dllGet_rep)
  show "dll_rep m l [] \<Longrightarrow> dllGet l m = (NULL, m)" by (rule dllGet_empty)
  show "dll_rep m l (as @ n # bs) \<Longrightarrow> dll_rep (snd (dllRemove l n m)) l (as @ bs)"
    by (rule dllRemove_rep)
qed

subsection \<open>Properties\<close>

text \<open>Linking a node in behind any node of a list (or at its head) and unlinking it again: both calls
  return \<open>OK\<close>, the node is where it was asked for in between and counted, at the end the list is what
  it was, and another list of the store is unchanged throughout.\<close>

theorem dll_insert_remove:
  assumes "dll_rep m l (as @ bs)" and "dll_rep m l' ys" and "l' \<noteq> l"
    and "set (as @ bs) \<inter> set ys = {}" and "n \<noteq> NULL" and "n \<notin> set (as @ bs) \<union> set ys"
  shows "case dllInsert l (last (NULL # as)) n m of (st1, m1) \<Rightarrow>
    case dllRemove l n m1 of (st2, m2) \<Rightarrow>
      st1 = OK \<and> dll_rep m1 l (as @ n # bs) \<and>
      dllCount l m1 = Some (int (length as + length bs) + 1) \<and> dll_rep m1 l' ys \<and>
      st2 = OK \<and> dll_rep m2 l (as @ bs) \<and> dll_rep m2 l' ys"
proof -
  let ?m1 = "snd (dllInsert l (last (NULL # as)) n m)"
  have l: "l \<noteq> NULL" using assms(1) by (simp add: dll_rep_def)
  have m1: "dll_rep ?m1 l (as @ n # bs)" "dll_rep ?m1 l' ys"
    using dllInsert_rep [of m l as bs n] dllInsert_frame [of m l as bs l' ys n] assms by simp_all
  have "dll_rep (snd (dllRemove l n ?m1)) l (as @ bs)" "dll_rep (snd (dllRemove l n ?m1)) l' ys"
    using dllRemove_rep [OF m1(1)] dllRemove_frame [OF m1 assms(3)] assms(4,6) by auto
  moreover note m1 dllCount_rep [OF m1(1)] dll_status(2) [OF l assms(5), of ?m1]
    dll_status(3) [OF l assms(5), of "last (NULL # as)" m]
  ultimately show ?thesis by (simp add: case_prod_beta del: last.simps)
qed

definition two_lists :: dmem where
  "two_lists =
     \<lparr>dnodes = (\<lambda>n. if n = 10 then \<lparr>dl_prev = 0, dl_next = 11\<rparr>
        else if n = 11 then \<lparr>dl_prev = 10, dl_next = 0\<rparr> else \<lparr>dl_prev = 0, dl_next = 0\<rparr>),
      dlists = (\<lambda>l. if l = 1 then \<lparr>dl_head = 10, dl_tail = 11\<rparr>
        else if l = 2 then \<lparr>dl_head = 20, dl_tail = 20\<rparr> else \<lparr>dl_head = 0, dl_tail = 0\<rparr>)\<rparr>"

lemma two_lists_rep: "dll_rep two_lists 1 [10, 11]" "dll_rep two_lists 2 [20]"
  by (simp_all add: dll_rep_def two_lists_def)

theorem dll_insert_remove_witness:
  "dll_rep (snd (dllInsert 1 10 30 two_lists)) 1 [10, 30, 11] \<and>
   dll_rep (snd (dllRemove 1 30 (snd (dllInsert 1 10 30 two_lists)))) 2 [20]"
  using dll_insert_remove [of two_lists 1 "[10]" "[11]" 2 "[20]" 30] two_lists_rep
  by (simp add: case_prod_beta)

end
