(* ===== verification/QFifoLib.thy ===== *)
theory QFifoLib
  imports DllLib
begin

text \<open>
  The first-in first-out queue class: \<open>src/util/qFifoLib.c\<close>. Head and node overlay a list head and a
  list node of \<open>dllLib\<close>, so a queue in the store is a list in the store. A node put with the key
  \<open>FIFO_KEY_HEAD\<close> goes to the front, every other key puts it at the back.
\<close>

definition FIFO_KEY_HEAD :: u32 where
  "FIFO_KEY_HEAD = - 1"

definition FIFO_KEY_TAIL :: u32 where
  "FIFO_KEY_TAIL = 0"

definition qFifoInit :: "ptr \<Rightarrow> 'a dmem_scheme \<Rightarrow> STATUS \<times> 'a dmem_scheme" where
  "qFifoInit pQFifoHead m = (OK, snd (dllInit pQFifoHead m))"

definition qFifoPut :: "ptr \<Rightarrow> ptr \<Rightarrow> u32 \<Rightarrow> 'a dmem_scheme \<Rightarrow> 'a dmem_scheme" where
  "qFifoPut pQFifoHead pQFifoNode key m =
     (if key = FIFO_KEY_HEAD then snd (dllInsert pQFifoHead NULL pQFifoNode m)
      else snd (dllAdd pQFifoHead pQFifoNode m))"

definition qFifoGet :: "ptr \<Rightarrow> 'a dmem_scheme \<Rightarrow> ptr \<times> 'a dmem_scheme" where
  "qFifoGet pQFifoHead m =
     (if DLL_EMPTY m pQFifoHead then (NULL, m) else dllGet pQFifoHead m)"

definition qFifoRemove :: "ptr \<Rightarrow> ptr \<Rightarrow> 'a dmem_scheme \<Rightarrow> STATUS \<times> 'a dmem_scheme" where
  "qFifoRemove pQFifoHead pQFifoNode m = (OK, snd (dllRemove pQFifoHead pQFifoNode m))"

text \<open>
  \<open>malloc\<close> gives the address of the new head, \<open>NULL\<close> when there is no memory.
\<close>

definition qFifoCreate :: "ptr \<Rightarrow> 'a dmem_scheme \<Rightarrow> ptr \<times> 'a dmem_scheme" where
  "qFifoCreate malloc m =
     (if malloc \<noteq> NULL
      then (case qFifoInit malloc m of (st, m') \<Rightarrow> if st \<noteq> OK then (NULL, m') else (malloc, m'))
      else (NULL, m))"

text \<open>The second value of a destroy method is the memory it gives to \<open>free\<close>.\<close>

definition qFifoDestroy :: "ptr \<Rightarrow> STATUS \<times> ptr" where
  "qFifoDestroy pQFifoHead = (OK, pQFifoHead)"

text \<open>The loop of the info methods: at most \<open>maxNodes\<close> nodes are stored in the array.\<close>

fun q_info_loop :: "'a dmem_scheme \<Rightarrow> ptr \<Rightarrow> int \<Rightarrow> ptr list" where
  "q_info_loop m pNode maxNodes =
     (if pNode \<noteq> NULL \<and> maxNodes - 1 \<ge> 0
      then pNode # q_info_loop m (DLL_NEXT m pNode) (maxNodes - 1) else [])"

declare q_info_loop.simps [simp del]

text \<open>
  The result is the count and what was stored in the array; without an array (\<open>have_array\<close> false)
  the count is that of \<open>dllCount\<close>, \<open>None\<close> when it does not return.
\<close>

definition qFifoInfo :: "ptr \<Rightarrow> bool \<Rightarrow> int \<Rightarrow> 'a dmem_scheme \<Rightarrow> (int \<times> ptr list) option" where
  "qFifoInfo pQFifoHead have_array maxNodes m =
     (if \<not> have_array
      then (case dllCount pQFifoHead m of None \<Rightarrow> None | Some count \<Rightarrow> Some (count, []))
      else (let nodeArray = q_info_loop m (DLL_HEAD m pQFifoHead) maxNodes
            in Some (int (length nodeArray), nodeArray)))"

text \<open>
  The loop of the each methods; the function returns whether to go on, and may change the store.
\<close>

partial_function (option) q_each_loop ::
  "(ptr \<Rightarrow> 'a dmem_scheme \<Rightarrow> bool \<times> 'a dmem_scheme) \<Rightarrow> ptr \<Rightarrow> 'a dmem_scheme
    \<Rightarrow> (ptr \<times> 'a dmem_scheme) option" where
  "q_each_loop func pNode m =
     (if pNode = NULL then Some (pNode, m)
      else let r = func pNode m
           in if fst r then q_each_loop func (DLL_NEXT (snd r) pNode) (snd r) else Some (pNode, snd r))"

definition qFifoEach ::
  "ptr \<Rightarrow> (ptr \<Rightarrow> 'a dmem_scheme \<Rightarrow> bool \<times> 'a dmem_scheme) \<Rightarrow> 'a dmem_scheme
    \<Rightarrow> (ptr \<times> 'a dmem_scheme) option" where
  "qFifoEach pQFifoHead func m = q_each_loop func (DLL_HEAD m pQFifoHead) m"

subsection \<open>The queue a head holds\<close>

lemma qFifoPut_rep:
  assumes "dll_rep m h xs" and "n \<noteq> NULL" and "n \<notin> set xs"
  shows "dll_rep (qFifoPut h n key m) h (if key = FIFO_KEY_HEAD then n # xs else xs @ [n])"
  using dll.add_law [OF assms] dll.push_law [OF assms] by (simp add: qFifoPut_def)

lemma qFifoGet_rep:
  "dll_rep m h (x # xs) \<Longrightarrow> fst (qFifoGet h m) = x \<and> dll_rep (snd (qFifoGet h m)) h xs"
  using dll.get_law by (simp add: qFifoGet_def dll_rep_empty)

lemma qFifoGet_empty: "dll_rep m h [] \<Longrightarrow> qFifoGet h m = (NULL, m)"
  by (simp add: qFifoGet_def dll_rep_empty)

lemma qFifoRemove_rep:
  "dll_rep m h xs \<Longrightarrow> n \<in> set xs \<Longrightarrow> dll_rep (snd (qFifoRemove h n m)) h (remove1 n xs)"
  by (simp add: qFifoRemove_def dll.remove_rep)

lemma qFifoCreate_rep:
  "h \<noteq> NULL \<Longrightarrow> fst (qFifoCreate h m) = h \<and> dll_rep (snd (qFifoCreate h m)) h []"
  using dllInit_rep [of h m] by (simp add: qFifoCreate_def qFifoInit_def)

lemma q_info_loop_seg:
  "dseg m p xs NULL \<Longrightarrow> q_info_loop m (hd (xs @ [NULL])) k = take (nat k) xs"
proof (induction xs arbitrary: p k)
  case Nil then show ?case by (subst q_info_loop.simps) simp
next
  case (Cons x xs)
  have "nat k = Suc (nat (k - 1))" if "1 \<le> k" using that by simp
  then show ?case using Cons.IH [of x "k - 1"] Cons.prems
    by (subst q_info_loop.simps) (simp add: heap_simps)
qed

lemma qFifoInfo_rep:
  assumes "dll_rep m h xs"
  shows "qFifoInfo h True k m = Some (int (length (take (nat k) xs)), take (nat k) xs)"
    and "qFifoInfo h False k m = Some (int (length xs), [])"
  using assms q_info_loop_seg [of m NULL xs k] dllCount_rep [OF assms]
  by (simp_all add: qFifoInfo_def Let_def dll_rep_def heap_simps)

lemma q_each_loop_find:
  "dseg m p xs NULL \<Longrightarrow>
   q_each_loop (\<lambda>n m. (P n, m)) (hd (xs @ [NULL])) m = Some (hd (dropWhile P xs @ [NULL]), m)"
proof (induction xs arbitrary: p)
  case Nil then show ?case by (simp add: q_each_loop.simps [of _ NULL])
next
  case (Cons x xs)
  then show ?case using Cons.IH [of x] Cons.prems
    by (simp add: q_each_loop.simps [of _ x] heap_simps Let_def)
qed

lemma qFifoEach_rep:
  "dll_rep m h xs \<Longrightarrow>
   qFifoEach h (\<lambda>n m. (P n, m)) m = Some (hd (dropWhile P xs @ [NULL]), m)"
  using q_each_loop_find [of m NULL xs P] by (simp add: qFifoEach_def dll_rep_def heap_simps)

end
