(* ===== verification/PrioQ.thy ===== *)
theory PrioQ
  imports Prelude "HOL-Library.Multiset"
begin

text \<open>
  The contract of the queue classes that \<open>qLib\<close> dispatches to. A queue is a list of keyed nodes:
  \<open>pq_put\<close> inserts after every node whose key is not greater, so equal keys are served in arrival
  order. The locale \<open>prio_class\<close> states the put, get and remove methods of a class over a store; that
  draining a queue sorts its nodes stably by key is proved once here, for every class.
\<close>

subsection \<open>Stable insertion by key\<close>

fun pq_put :: "'k::linorder \<Rightarrow> 'n \<Rightarrow> ('k \<times> 'n) list \<Rightarrow> ('k \<times> 'n) list" where
  "pq_put k n [] = [(k, n)]"
| "pq_put k n ((k', n') # q) = (if k < k' then (k, n) # (k', n') # q else (k', n') # pq_put k n q)"

lemma pq_put_Cons:
  "pq_put k n (e # q) = (if k < fst e then (k, n) # e # q else e # pq_put k n q)"
  by (cases e) simp

definition pq_remove :: "'n \<Rightarrow> ('k \<times> 'n) list \<Rightarrow> ('k \<times> 'n) list" where
  "pq_remove n q = filter (\<lambda>e. snd e \<noteq> n) q"

definition pq_sorted :: "('k::linorder \<times> 'n) list \<Rightarrow> bool" where
  "pq_sorted q \<longleftrightarrow> sorted (map fst q)"

definition pq_nodes :: "('k \<times> 'n) list \<Rightarrow> 'n set" where
  "pq_nodes q = snd ` set q"

lemma pq_put_split:
  assumes "pq_sorted q"
  obtains as bs where "q = as @ bs" "pq_put k n q = as @ (k, n) # bs"
    "\<And>e. e \<in> set as \<Longrightarrow> fst e \<le> k" "\<And>e. e \<in> set bs \<Longrightarrow> k < fst e"
proof -
  have "\<exists>as bs. q = as @ bs \<and> pq_put k n q = as @ (k, n) # bs \<and>
      (\<forall>e\<in>set as. fst e \<le> k) \<and> (\<forall>e\<in>set bs. k < fst e)"
    using assms
  proof (induction k n q rule: pq_put.induct)
    case (2 k n k' n' q)
    show ?case
    proof (cases "k < k'")
      case True
      then have "\<forall>e\<in>set ((k', n') # q). k < fst e" using 2(2) by (fastforce simp: pq_sorted_def)
      then show ?thesis using True by (intro exI [of _ "[]"] exI [of _ "(k', n') # q"]) simp
    next
      case False
      then obtain as bs where "q = as @ bs" "pq_put k n q = as @ (k, n) # bs"
          "\<forall>e\<in>set as. fst e \<le> k" "\<forall>e\<in>set bs. k < fst e"
        using 2 by (auto simp: pq_sorted_def)
      then show ?thesis using False
        by (intro exI [of _ "(k', n') # as"] exI [of _ bs]) auto
    qed
  qed simp
  then show thesis using that by blast
qed

lemma mset_pq_put [simp]: "mset (pq_put k n q) = add_mset (k, n) (mset q)"
  by (induction k n q rule: pq_put.induct) auto

lemma set_pq_put [simp]: "set (pq_put k n q) = insert (k, n) (set q)"
  by (induction k n q rule: pq_put.induct) auto

lemma set_pq_remove [simp]: "set (pq_remove n q) = {e \<in> set q. snd e \<noteq> n}"
  by (simp add: pq_remove_def)

lemma pq_nodes_iff: "n \<in> pq_nodes q \<longleftrightarrow> (\<exists>k. (k, n) \<in> set q)"
  by (force simp: pq_nodes_def)

lemma pq_put_not_Nil [simp]: "pq_put k n q \<noteq> []"
  by (induction k n q rule: pq_put.induct) auto

lemma length_pq_put [simp]: "length (pq_put k n q) = Suc (length q)"
  by (induction k n q rule: pq_put.induct) auto

lemma pq_nodes_put [simp]: "pq_nodes (pq_put k n q) = insert n (pq_nodes q)"
  by (simp add: pq_nodes_def)

lemma pq_nodes_remove [simp]: "pq_nodes (pq_remove n q) = pq_nodes q - {n}"
  by (auto simp: pq_nodes_def pq_remove_def)

lemma pq_nodes_simps [simp]:
  "pq_nodes [] = {}"
  "pq_nodes (e # q) = insert (snd e) (pq_nodes q)"
  "pq_nodes (q @ q') = pq_nodes q \<union> pq_nodes q'"
  by (auto simp: pq_nodes_def)

lemma pq_sorted_put: "pq_sorted q \<Longrightarrow> pq_sorted (pq_put k n q)"
proof (induction k n q rule: pq_put.induct)
  case (2 k n k' n' q)
  then show ?case by (auto simp: pq_sorted_def not_less intro: order_trans less_imp_le)
qed (simp add: pq_sorted_def)

lemma pq_sorted_remove: "pq_sorted q \<Longrightarrow> pq_sorted (pq_remove n q)"
  by (simp add: pq_sorted_def pq_remove_def sorted_filter)

lemma pq_sorted_Cons: "pq_sorted (e # q) \<Longrightarrow> pq_sorted q"
  by (simp add: pq_sorted_def)

lemma pq_remove_Nil [simp]: "pq_remove n [] = []"
  by (simp add: pq_remove_def)

lemma pq_sorted_Nil [simp]: "pq_sorted []"
  by (simp add: pq_sorted_def)

lemma pq_distinct_put:
  "distinct (map snd q) \<Longrightarrow> n \<notin> pq_nodes q \<Longrightarrow> distinct (map snd (pq_put k n q))"
  by (induction k n q rule: pq_put.induct) (auto simp: pq_nodes_def)

lemma pq_distinct_remove: "distinct (map snd q) \<Longrightarrow> distinct (map snd (pq_remove n q))"
  by (simp add: pq_remove_def distinct_map_filter)

lemma pq_remove_put: "n \<notin> pq_nodes q \<Longrightarrow> pq_remove n (pq_put k n q) = q"
proof (induction k n q rule: pq_put.induct)
  case (2 k n k' n' q)
  then have "pq_remove n q = q" by (auto simp: pq_remove_def pq_nodes_def filter_id_conv)
  then show ?case using 2 by (auto simp: pq_remove_def pq_nodes_def)
qed (simp add: pq_remove_def)

lemma pq_remove_absent: "n \<notin> pq_nodes q \<Longrightarrow> pq_remove n q = q"
  by (auto simp: pq_remove_def pq_nodes_def filter_id_conv)

lemma pq_remove_split:
  assumes "distinct (map snd (as @ (k, n) # bs))"
  shows "pq_remove n (as @ (k, n) # bs) = as @ bs"
proof -
  have "n \<notin> pq_nodes as" "n \<notin> pq_nodes bs"
    using assms by (auto simp: pq_nodes_def image_iff)
  then show ?thesis using pq_remove_absent [of n as] pq_remove_absent [of n bs]
    by (simp add: pq_remove_def)
qed

lemma pq_put_filter_key:
  fixes q :: "('k::linorder \<times> 'n) list"
  assumes sorted: "pq_sorted q"
  shows "filter (\<lambda>e. fst e = j) (pq_put k n q) =
     (if j = k then filter (\<lambda>e. fst e = j) q @ [(k, n)] else filter (\<lambda>e. fst e = j) q)"
proof -
  obtain as bs where q: "q = as @ bs" "pq_put k n q = as @ (k, n) # bs"
      "\<And>e. e \<in> set as \<Longrightarrow> fst e \<le> k" "\<And>e. e \<in> set bs \<Longrightarrow> k < fst e"
    using pq_put_split [OF sorted] by metis
  have "filter (\<lambda>e. fst e = k) bs = []" using q(4) by (auto simp: filter_empty_conv)
  then show ?thesis using q(1,2) by auto
qed

subsection \<open>Changing the key of a node\<close>

text \<open>
  A node whose new key still fits between its neighbours stays where it is (also among equal keys);
  otherwise it is put again.
\<close>

definition pq_move :: "'k::linorder \<Rightarrow> 'n \<Rightarrow> ('k \<times> 'n) list \<Rightarrow> ('k \<times> 'n) list" where
  "pq_move k n q =
     (let as = takeWhile (\<lambda>e. snd e \<noteq> n) q; bs = tl (dropWhile (\<lambda>e. snd e \<noteq> n) q)
      in if (as = [] \<or> fst (last as) \<le> k) \<and> (bs = [] \<or> k \<le> fst (hd bs)) then as @ (k, n) # bs
         else pq_put k n (as @ bs))"

lemma pq_move_split:
  assumes "n \<notin> pq_nodes as"
  shows "pq_move k n (as @ (k', n) # bs) =
    (if (as = [] \<or> fst (last as) \<le> k) \<and> (bs = [] \<or> k \<le> fst (hd bs)) then as @ (k, n) # bs
     else pq_put k n (as @ bs))"
proof -
  have "\<forall>e\<in>set as. snd e \<noteq> n" using assms by (auto simp: pq_nodes_def)
  then show ?thesis by (simp add: pq_move_def)
qed

lemma pq_split_node:
  assumes "n \<in> pq_nodes q" and "distinct (map snd q)"
  obtains as k bs where "q = as @ (k, n) # bs" "n \<notin> pq_nodes as" "n \<notin> pq_nodes bs"
    "pq_remove n q = as @ bs"
proof -
  obtain k where "(k, n) \<in> set q" using assms(1) by (auto simp: pq_nodes_def)
  then obtain as bs where q: "q = as @ (k, n) # bs" by (meson split_list)
  then have "n \<notin> pq_nodes as" "n \<notin> pq_nodes bs" using assms(2) by (auto simp: pq_nodes_def)
  then show thesis using that q pq_remove_split [of as k n bs] assms(2) by blast
qed

lemma pq_move_set:
  assumes "n \<in> pq_nodes q" and "distinct (map snd q)"
  shows "mset (pq_move k n q) = add_mset (k, n) (mset (pq_remove n q))"
proof -
  obtain as k' bs where q: "q = as @ (k', n) # bs" "n \<notin> pq_nodes as" "n \<notin> pq_nodes bs"
      "pq_remove n q = as @ bs" using pq_split_node [OF assms] by metis
  then show ?thesis using pq_move_split [OF q(2)] by simp
qed

lemma pq_move_rest:
  assumes "n \<in> pq_nodes q" and "distinct (map snd q)"
  shows "pq_remove n (pq_move k n q) = pq_remove n q"
proof -
  obtain as k' bs where q: "q = as @ (k', n) # bs" "n \<notin> pq_nodes as" "n \<notin> pq_nodes bs"
      "pq_remove n q = as @ bs" using pq_split_node [OF assms] by metis
  have "pq_remove n (as @ (k, n) # bs) = as @ bs" using q(4) unfolding q(1) by (simp add: pq_remove_def)
  moreover have "pq_remove n (pq_put k n (as @ bs)) = as @ bs" using q(2,3) by (intro pq_remove_put) simp
  ultimately show ?thesis using pq_move_split [OF q(2)] q(1,4) by auto
qed

lemma pq_move_sorted:
  assumes "n \<in> pq_nodes q" and "distinct (map snd q)" and "pq_sorted q"
  shows "pq_sorted (pq_move k n q)"
proof -
  obtain as k' bs where q: "q = as @ (k', n) # bs" "n \<notin> pq_nodes as" "n \<notin> pq_nodes bs"
      "pq_remove n q = as @ bs" using pq_split_node [OF assms(1,2)] by metis
  have ab: "pq_sorted (as @ bs)" using assms(3) pq_sorted_remove [of q n] q(4) by simp
  show ?thesis
  proof (cases "(as = [] \<or> fst (last as) \<le> k) \<and> (bs = [] \<or> k \<le> fst (hd bs))")
    case True
    have "\<forall>e\<in>set as. fst e \<le> k"
      using True ab by (cases as rule: rev_cases) (auto simp: pq_sorted_def sorted_append)
    moreover have "\<forall>e\<in>set bs. k \<le> fst e"
      using True ab by (cases bs) (auto simp: pq_sorted_def sorted_append)
    ultimately show ?thesis using pq_move_split [OF q(2)] True ab q(1)
      by (auto simp: pq_sorted_def sorted_append)
  next
    case False
    then show ?thesis using pq_move_split [OF q(2)] pq_sorted_put [OF ab] q(1) by auto
  qed
qed

lemma pq_move_nodes:
  assumes "n \<in> pq_nodes q" and "distinct (map snd q)"
  shows "pq_nodes (pq_move k n q) = pq_nodes q" and "distinct (map snd (pq_move k n q))"
    and "set (pq_move k n q) = insert (k, n) (set (pq_remove n q))"
proof -
  note m = pq_move_set [OF assms, of k]
  show s: "set (pq_move k n q) = insert (k, n) (set (pq_remove n q))"
    using arg_cong [OF m, of set_mset] by simp
  then show "pq_nodes (pq_move k n q) = pq_nodes q" using assms(1) by (auto simp: pq_nodes_def pq_remove_def)
  have "mset (map snd (pq_move k n q)) = add_mset n (mset (map snd (pq_remove n q)))" by (simp add: m)
  moreover have "distinct (n # map snd (pq_remove n q))"
    using pq_distinct_remove [OF assms(2)] by (auto simp: pq_remove_def)
  ultimately show "distinct (map snd (pq_move k n q))"
    by (metis mset.simps(2) mset_eq_imp_distinct_iff)
qed

subsection \<open>Filling a queue sorts it\<close>

primrec pq_fill :: "('k::linorder \<times> 'n) list \<Rightarrow> ('k \<times> 'n) list \<Rightarrow> ('k \<times> 'n) list" where
  "pq_fill [] q = q"
| "pq_fill (e # es) q = pq_fill es (pq_put (fst e) (snd e) q)"

lemma pq_fill_props:
  assumes "pq_sorted q"
  shows "pq_sorted (pq_fill es q)" and "mset (pq_fill es q) = mset q + mset es"
    and "filter (\<lambda>e. fst e = j) (pq_fill es q) =
      filter (\<lambda>e. fst e = j) q @ filter (\<lambda>e. fst e = j) es"
  using assms
proof (induction es arbitrary: q)
  case (Cons e es)
  { case 1 then show ?case using Cons(1) by (simp add: pq_sorted_put)
  next case 2 then show ?case using Cons(2) pq_sorted_put by fastforce
  next case 3 then show ?case using Cons(3) [OF pq_sorted_put] by (auto simp: pq_put_filter_key) }
qed auto

lemma pq_fill_sort: "pq_fill es [] = sort_key fst es"
proof (rule properties_for_sort_key [symmetric])
  show "mset (pq_fill es []) = mset es" using pq_fill_props(2) [of "[]" es] by simp
  show "sorted (map fst (pq_fill es []))" using pq_fill_props(1) [of "[]" es] by (simp add: pq_sorted_def)
  fix k assume "k \<in> set (pq_fill es [])"
  show "filter (\<lambda>x. fst k = fst x) (pq_fill es []) = filter (\<lambda>x. fst k = fst x) es"
    using pq_fill_props(3) [of "[]" "fst k" es] by (simp add: eq_commute)
qed

subsection \<open>The contract of a queue class\<close>

text \<open>\<open>class_drain get k m\<close> calls the get method \<open>k\<close> times and collects the nodes.\<close>

primrec class_drain :: "('m \<Rightarrow> ('n \<times> 'm) option) \<Rightarrow> nat \<Rightarrow> 'm \<Rightarrow> ('n list \<times> 'm) option" where
  "class_drain get 0 m = Some ([], m)"
| "class_drain get (Suc k) m =
     (case get m of
        None \<Rightarrow> None
      | Some (n, m') \<Rightarrow>
          (case class_drain get k m' of None \<Rightarrow> None | Some (ns, m'') \<Rightarrow> Some (n # ns, m'')))"

primrec class_fill :: "('n \<Rightarrow> u32 \<Rightarrow> 'm \<Rightarrow> 'm option) \<Rightarrow> (u32 \<times> 'n) list \<Rightarrow> 'm \<Rightarrow> 'm option" where
  "class_fill put [] m = Some m"
| "class_fill put (e # es) m =
     (case put (snd e) (fst e) m of None \<Rightarrow> None | Some m' \<Rightarrow> class_fill put es m')"

text \<open>A sequence of calls, the nodes the gets return, and what a queue of keyed nodes does with it.\<close>

datatype class_op = CPut u32 ptr | CGet | CRemove ptr

primrec class_run ::
  "(ptr \<Rightarrow> u32 \<Rightarrow> 'm \<Rightarrow> 'm option) \<Rightarrow> ('m \<Rightarrow> (ptr \<times> 'm) option) \<Rightarrow> (ptr \<Rightarrow> 'm \<Rightarrow> 'm option) \<Rightarrow>
    class_op list \<Rightarrow> 'm \<Rightarrow> (ptr list \<times> 'm) option" where
  "class_run put get remove [] m = Some ([], m)"
| "class_run put get remove (c # cs) m =
     (case c of
        CPut k n \<Rightarrow> (case put n k m of None \<Rightarrow> None | Some m' \<Rightarrow> class_run put get remove cs m')
      | CRemove n \<Rightarrow> (case remove n m of None \<Rightarrow> None | Some m' \<Rightarrow> class_run put get remove cs m')
      | CGet \<Rightarrow> (case get m of
            None \<Rightarrow> None
          | Some (n, m') \<Rightarrow> (case class_run put get remove cs m' of
                None \<Rightarrow> None | Some (ns, m'') \<Rightarrow> Some (n # ns, m''))))"

primrec pq_run :: "class_op list \<Rightarrow> (u32 \<times> ptr) list \<Rightarrow> ptr list \<times> (u32 \<times> ptr) list" where
  "pq_run [] q = ([], q)"
| "pq_run (c # cs) q =
     (case c of
        CPut k n \<Rightarrow> pq_run cs (pq_put k n q)
      | CRemove n \<Rightarrow> pq_run cs (pq_remove n q)
      | CGet \<Rightarrow> (case q of
            [] \<Rightarrow> (NULL # fst (pq_run cs []), snd (pq_run cs []))
          | (k, n) # q' \<Rightarrow> (n # fst (pq_run cs q'), snd (pq_run cs q'))))"

text \<open>The calls respect the contract: a node is put while in no queue, and removed while in this one.\<close>

primrec pq_run_ok :: "(u32 \<Rightarrow> bool) \<Rightarrow> class_op list \<Rightarrow> (u32 \<times> ptr) list \<Rightarrow> bool" where
  "pq_run_ok keyok [] q = True"
| "pq_run_ok keyok (c # cs) q =
     (case c of
        CPut k n \<Rightarrow> n \<noteq> NULL \<and> n \<notin> pq_nodes q \<and> keyok k \<and> pq_run_ok keyok cs (pq_put k n q)
      | CRemove n \<Rightarrow> n \<in> pq_nodes q \<and> pq_run_ok keyok cs (pq_remove n q)
      | CGet \<Rightarrow> pq_run_ok keyok cs (tl q))"

locale prio_class =
  fixes rep :: "'m \<Rightarrow> ptr \<Rightarrow> (u32 \<times> ptr) list \<Rightarrow> bool"
    and keyok :: "u32 \<Rightarrow> bool"
    and put :: "ptr \<Rightarrow> ptr \<Rightarrow> u32 \<Rightarrow> 'm \<Rightarrow> 'm option"
    and get :: "ptr \<Rightarrow> 'm \<Rightarrow> (ptr \<times> 'm) option"
    and remove :: "ptr \<Rightarrow> ptr \<Rightarrow> 'm \<Rightarrow> 'm option"
  assumes rep_wf: "rep m h q \<Longrightarrow> pq_sorted q \<and> distinct (map snd q) \<and> NULL \<notin> pq_nodes q"
    and put_law: "rep m h q \<Longrightarrow> n \<noteq> NULL \<Longrightarrow> n \<notin> pq_nodes q \<Longrightarrow> keyok k \<Longrightarrow>
        \<exists>m'. put h n k m = Some m' \<and> rep m' h (pq_put k n q)"
    and get_law: "rep m h ((k, n) # q) \<Longrightarrow> \<exists>m'. get h m = Some (n, m') \<and> rep m' h q"
    and get_empty_law: "rep m h [] \<Longrightarrow> get h m = Some (NULL, m)"
    and remove_law: "rep m h q \<Longrightarrow> n \<in> pq_nodes q \<Longrightarrow>
        \<exists>m'. remove h n m = Some m' \<and> rep m' h (pq_remove n q)"
begin

lemma fill_rep:
  assumes "rep m h q" and "distinct (map snd (q @ es))" and "NULL \<notin> snd ` set es"
    and "\<And>e. e \<in> set es \<Longrightarrow> keyok (fst e)"
  shows "\<exists>m'. class_fill (put h) es m = Some m' \<and> rep m' h (pq_fill es q)"
  using assms
proof (induction es arbitrary: m q)
  case (Cons e es)
  have fresh: "snd e \<notin> pq_nodes q" using Cons.prems(2) by (auto simp: pq_nodes_def)
  then obtain m' where m': "put h (snd e) (fst e) m = Some m'" "rep m' h (pq_put (fst e) (snd e) q)"
    using put_law [of m h q "snd e" "fst e"] Cons.prems by auto
  have "distinct (map snd (pq_put (fst e) (snd e) q @ es))"
    using pq_distinct_put [of q "snd e"] fresh Cons.prems(2) by (auto simp: image_iff)
  then show ?case using Cons.IH [OF m'(2)] Cons.prems m'(1) by simp
qed simp

lemma drain_rep:
  assumes "rep m h q"
  shows "\<exists>m'. class_drain (get h) (length q) m = Some (map snd q, m') \<and> rep m' h []"
  using assms
proof (induction q arbitrary: m)
  case (Cons e q)
  then show ?case using get_law [of m h "fst e" "snd e" q] by fastforce
qed simp

lemma fill_drain_sorts:
  assumes "rep m h []" and "distinct (map snd es)" and "NULL \<notin> snd ` set es"
    and "\<And>e. e \<in> set es \<Longrightarrow> keyok (fst e)"
  shows "\<exists>m1 m2. class_fill (put h) es m = Some m1 \<and>
    class_drain (get h) (length es) m1 = Some (map snd (sort_key fst es), m2) \<and> rep m2 h []"
proof -
  obtain m1 where m1: "class_fill (put h) es m = Some m1" "rep m1 h (pq_fill es [])"
    using fill_rep [of m h "[]" es] assms by auto
  then show ?thesis using drain_rep [of m1 h "sort_key fst es"] by (auto simp: pq_fill_sort)
qed

lemma run_refines:
  assumes "rep m h q" and "pq_run_ok keyok cs q"
  shows "\<exists>m'. class_run (put h) (get h) (remove h) cs m = Some (fst (pq_run cs q), m') \<and>
    rep m' h (snd (pq_run cs q))"
  using assms
proof (induction cs arbitrary: m q)
  case (Cons c cs)
  show ?case
  proof (cases c)
    case (CPut k n)
    then show ?thesis using put_law [of m h q n k] Cons by fastforce
  next
    case (CRemove n)
    then show ?thesis using remove_law [of m h q n] Cons by fastforce
  next
    case CGet
    show ?thesis
    proof (cases q)
      case Nil
      then show ?thesis using get_empty_law [of m h] Cons.IH [of m q] Cons.prems CGet by auto
    next
      case q: (Cons e q')
      obtain m' where "get h m = Some (snd e, m')" "rep m' h q'"
        using get_law [of m h "fst e" "snd e" q'] Cons.prems(1) q by auto
      then show ?thesis using Cons.IH [of m' q'] Cons.prems(2) q CGet by (cases e) auto
    qed
  qed
qed simp

lemma put_remove_rep:
  assumes "rep m h q" "n \<noteq> NULL" "n \<notin> pq_nodes q" "keyok k"
  shows "\<exists>m1 m2. put h n k m = Some m1 \<and> remove h n m1 = Some m2 \<and> rep m2 h q"
proof -
  obtain m1 where m1: "put h n k m = Some m1" "rep m1 h (pq_put k n q)" using put_law assms by blast
  then show ?thesis using remove_law [of m1 h "pq_put k n q" n] pq_remove_put [OF assms(3)] by auto
qed

end

end
