(* ===== verification/QPrioLib.thy ===== *)
theory QPrioLib
  imports QFifoLib PrioQ
begin

text \<open>
  The sorted-list queue class: \<open>src/util/qPrioLib.c\<close>. A node carries an unsigned key besides its
  links. \<open>qPrioPut\<close> walks the list to the first node with a greater key and links the new node in
  before it; it implements \<open>pq_put\<close>, and the class meets the contract \<open>prio_class\<close>.
  The delayed tasks and watchdogs of the kernel wait in a queue of this class.
\<close>

record qmem = dmem +
  qkeys :: "ptr \<Rightarrow> u32"

definition set_key :: "ptr \<Rightarrow> u32 \<Rightarrow> 'a qmem_scheme \<Rightarrow> 'a qmem_scheme" where
  "set_key n k m = m\<lparr>qkeys := (qkeys m)(n := k)\<rparr>"

lemma set_key_reads [heap_simps]:
  "qkeys (set_key n k m) x = (if x = n then k else qkeys m x)"
  "dnodes (set_key n k m) = dnodes m"
  "dlists (set_key n k m) = dlists m"
  by (simp_all add: set_key_def)

definition qPrioInit :: "ptr \<Rightarrow> 'a qmem_scheme \<Rightarrow> STATUS \<times> 'a qmem_scheme" where
  "qPrioInit pQPriHead m = dllInit pQPriHead m"

definition qPrioCreate :: "ptr \<Rightarrow> 'a qmem_scheme \<Rightarrow> ptr \<times> 'a qmem_scheme" where
  "qPrioCreate malloc m =
     (if malloc \<noteq> NULL
      then (case qPrioInit malloc m of (st, m') \<Rightarrow> if st \<noteq> OK then (NULL, m') else (malloc, m'))
      else (NULL, m))"

definition qPrioTerminate :: "ptr \<Rightarrow> 'a qmem_scheme \<Rightarrow> STATUS \<times> 'a qmem_scheme" where
  "qPrioTerminate pQPriHead m = (OK, m)"

definition qPrioDestroy :: "ptr \<Rightarrow> STATUS \<times> ptr" where
  "qPrioDestroy pQPriHead = (OK, pQPriHead)"

partial_function (option) qPrioPut_loop ::
  "ptr \<Rightarrow> ptr \<Rightarrow> u32 \<Rightarrow> ptr \<Rightarrow> 'a qmem_scheme \<Rightarrow> 'a qmem_scheme option" where
  "qPrioPut_loop pQPriHead pQPriNode key pQNode m =
     (if pQNode \<noteq> NULL
      then (if key < qkeys m pQNode
            then Some (snd (dllInsert pQPriHead (DLL_PREV m pQNode) pQPriNode m))
            else qPrioPut_loop pQPriHead pQPriNode key (DLL_NEXT m pQNode) m)
      else Some (snd (dllInsert pQPriHead (DLL_TAIL m pQPriHead) pQPriNode m)))"

definition qPrioPut :: "ptr \<Rightarrow> ptr \<Rightarrow> u32 \<Rightarrow> 'a qmem_scheme \<Rightarrow> 'a qmem_scheme option" where
  "qPrioPut pQPriHead pQPriNode key m =
     (let pQNode = DLL_HEAD m pQPriHead
      in qPrioPut_loop pQPriHead pQPriNode key pQNode (set_key pQPriNode key m))"

definition qPrioGet :: "ptr \<Rightarrow> 'a qmem_scheme \<Rightarrow> ptr \<times> 'a qmem_scheme" where
  "qPrioGet pQPriHead m =
     (if DLL_EMPTY m pQPriHead then (NULL, m) else dllGet pQPriHead m)"

definition qPrioRemove :: "ptr \<Rightarrow> ptr \<Rightarrow> 'a qmem_scheme \<Rightarrow> STATUS \<times> 'a qmem_scheme" where
  "qPrioRemove pQPriHead pQPriNode m = dllRemove pQPriHead pQPriNode m"

definition qPrioMove :: "ptr \<Rightarrow> ptr \<Rightarrow> u32 \<Rightarrow> 'a qmem_scheme \<Rightarrow> 'a qmem_scheme option" where
  "qPrioMove pQPriHead pQPriNode newKey m =
     (let pPrev = DLL_PREV m pQPriNode; pNext = DLL_NEXT m pQPriNode
      in if (pPrev = NULL \<or> newKey \<ge> qkeys m pPrev) \<and> (pNext = NULL \<or> newKey \<le> qkeys m pNext)
         then Some (set_key pQPriNode newKey m)
         else qPrioPut pQPriHead pQPriNode newKey (snd (qPrioRemove pQPriHead pQPriNode m)))"

text \<open>\<open>ticks\<close> is the value of \<open>tickGet()\<close>, converted to \<open>unsigned\<close>.\<close>

definition qPrioExpired :: "u32 \<Rightarrow> ptr \<Rightarrow> 'a qmem_scheme \<Rightarrow> ptr \<times> 'a qmem_scheme" where
  "qPrioExpired ticks pQPriHead m =
     (let pQPriNode = DLL_HEAD m pQPriHead
      in if pQPriNode \<noteq> NULL \<and> qkeys m pQPriNode \<le> ticks then dllGet pQPriHead m else (NULL, m))"

partial_function (option) qPrioOffset_loop :: "u32 \<Rightarrow> ptr \<Rightarrow> 'a qmem_scheme \<Rightarrow> 'a qmem_scheme option" where
  "qPrioOffset_loop delta pQPriNode m =
     (if pQPriNode \<noteq> NULL
      then let m' = set_key pQPriNode (qkeys m pQPriNode + delta) m
           in qPrioOffset_loop delta (DLL_NEXT m' pQPriNode) m'
      else Some m)"

definition qPrioOffset :: "ptr \<Rightarrow> u32 \<Rightarrow> 'a qmem_scheme \<Rightarrow> 'a qmem_scheme option" where
  "qPrioOffset pQPriHead delta m = qPrioOffset_loop delta (DLL_HEAD m pQPriHead) m"

definition qPrioKey :: "u32 \<Rightarrow> ptr \<Rightarrow> int \<Rightarrow> 'a qmem_scheme \<Rightarrow> u32" where
  "qPrioKey ticks pQPriNode type m =
     (if type = 0 then qkeys m pQPriNode else qkeys m pQPriNode - ticks)"

definition qPrioInfo :: "ptr \<Rightarrow> bool \<Rightarrow> int \<Rightarrow> 'a qmem_scheme \<Rightarrow> (int \<times> ptr list) option" where
  "qPrioInfo pQPrioHead have_array maxNodes m =
     (if \<not> have_array
      then (case dllCount pQPrioHead m of None \<Rightarrow> None | Some c \<Rightarrow> Some (c, []))
      else (let nodeArray = q_info_loop m (DLL_HEAD m pQPrioHead) maxNodes
            in Some (int (length nodeArray), nodeArray)))"

definition qPrioEach ::
  "ptr \<Rightarrow> (ptr \<Rightarrow> 'a qmem_scheme \<Rightarrow> bool \<times> 'a qmem_scheme) \<Rightarrow> 'a qmem_scheme
    \<Rightarrow> (ptr \<times> 'a qmem_scheme) option" where
  "qPrioEach pQPrioHead func m = q_each_loop func (DLL_HEAD m pQPrioHead) m"

subsection \<open>The queue a head holds\<close>

definition qprio_rep :: "'a qmem_scheme \<Rightarrow> ptr \<Rightarrow> (u32 \<times> ptr) list \<Rightarrow> bool" where
  "qprio_rep m h q \<longleftrightarrow>
     dll_rep m h (map snd q) \<and> pq_sorted q \<and> (\<forall>e\<in>set q. qkeys m (snd e) = fst e)"

lemma dll_ops_keys [heap_simps]:
  "qkeys (snd (dllInsert l p n m)) = qkeys m"
  "qkeys (snd (dllAdd l n m)) = qkeys m"
  "qkeys (snd (dllRemove l n m)) = qkeys m"
  "qkeys (snd (dllGet l m)) = qkeys m"
  "qkeys (snd (dllInit l m)) = qkeys m"
  by (simp_all add: dllInsert_def dllAdd_def dllRemove_def dllGet_def dllInit_def store_defs Let_def)

lemma dll_rep_set_key [heap_simps]: "dll_rep (set_key n k m) h xs = dll_rep m h xs"
  by (rule dll_rep_frame) (simp_all add: heap_simps)

lemma qprio_rep_wf:
  "qprio_rep m h q \<Longrightarrow> pq_sorted q \<and> distinct (map snd q) \<and> NULL \<notin> pq_nodes q"
  using dll.rep_nodes [of m h "map snd q"] by (auto simp: qprio_rep_def pq_nodes_def)

text \<open>The loop stops at the place \<open>pq_put\<close> inserts at.\<close>

lemma dll_rep_links:
  assumes "dll_rep m h (as @ n # bs)"
  shows "DLL_PREV m n = last (NULL # as)" and "DLL_NEXT m n = hd (bs @ [NULL])"
  using assms by (auto simp: dll_rep_def dseg_append heap_simps)

lemma qPrioPut_loop_rep:
  assumes "dll_rep m h (map snd (as @ bs))" and "\<forall>e\<in>set bs. qkeys m (snd e) = fst e"
    and "n \<noteq> NULL" and "n \<notin> pq_nodes (as @ bs)"
  shows "\<exists>m'. qPrioPut_loop h n key (hd (map snd bs @ [NULL])) m = Some m' \<and>
    dll_rep m' h (map snd (as @ pq_put key n bs)) \<and> (\<exists>p. m' = snd (dllInsert h p n m))"
  using assms
proof (induction bs arbitrary: as)
  case Nil
  have "dll_rep (snd (dllInsert h (last (NULL # map snd as)) n m)) h (map snd as @ [n])"
    using dllInsert_rep [of m h "map snd as" "[]" n] Nil by (simp add: pq_nodes_def)
  moreover have "qPrioPut_loop h n key NULL m = Some (snd (dllInsert h (last (NULL # map snd as)) n m))"
    using dll_rep_tail [of m h "map snd as"] Nil
    by (simp add: qPrioPut_loop.simps [of _ _ _ NULL] split: if_splits)
  ultimately show ?case by auto
next
  case (Cons e bs)
  have split: "map snd (as @ e # bs) = map snd as @ snd e # map snd bs" by simp
  note links = dll_rep_links [OF Cons.prems(1) [unfolded split]]
  have e: "snd e \<noteq> NULL" using dll_rep_NULL [OF Cons.prems(1)] by auto
  show ?case
  proof (cases "key < fst e")
    case True
    have "dll_rep (snd (dllInsert h (last (NULL # map snd as)) n m)) h (map snd as @ n # snd e # map snd bs)"
      using dllInsert_rep [of m h "map snd as" "snd e # map snd bs" n] Cons.prems
      by (simp only: split) (simp add: pq_nodes_def image_Un)
    moreover have "qPrioPut_loop h n key (snd e) m =
        Some (snd (dllInsert h (last (NULL # map snd as)) n m))"
      using True e Cons.prems(2) links by (simp add: qPrioPut_loop.simps [of _ _ _ "snd e"])
    ultimately show ?thesis using True by (auto simp: pq_put_Cons)
  next
    case False
    have "\<exists>m'. qPrioPut_loop h n key (hd (map snd bs @ [NULL])) m = Some m' \<and>
        dll_rep m' h (map snd ((as @ [e]) @ pq_put key n bs)) \<and> (\<exists>p. m' = snd (dllInsert h p n m))"
      using Cons.IH [of "as @ [e]"] Cons.prems by simp
    then show ?thesis using False e Cons.prems(2) links
      by (simp add: qPrioPut_loop.simps [of _ _ _ "snd e"] pq_put_Cons)
  qed
qed

lemma qPrioPut_rep [rep_intros]:
  assumes "qprio_rep m h q" and "n \<noteq> NULL" and "n \<notin> pq_nodes q"
  shows "\<exists>m'. qPrioPut h n key m = Some m' \<and> qprio_rep m' h (pq_put key n q) \<and>
    (\<exists>p. m' = snd (dllInsert h p n (set_key n key m)))"
proof -
  have keys: "\<forall>e\<in>set q. qkeys (set_key n key m) (snd e) = fst e"
    using assms by (auto simp: qprio_rep_def heap_simps pq_nodes_def image_iff)
  have head: "DLL_HEAD m h = hd (map snd q @ [NULL])"
    using assms(1) by (simp add: qprio_rep_def dll_rep_def heap_simps)
  obtain m' p where m': "qPrioPut_loop h n key (hd (map snd q @ [NULL])) (set_key n key m) = Some m'"
      "dll_rep m' h (map snd (pq_put key n q))" "m' = snd (dllInsert h p n (set_key n key m))"
    using qPrioPut_loop_rep [of "set_key n key m" h "[]" q n key] assms keys
    by (auto simp: qprio_rep_def dll_rep_set_key)
  have "qkeys m' = qkeys (set_key n key m)" using m'(3) by (simp add: dll_ops_keys)
  then have "qprio_rep m' h (pq_put key n q)"
    using m'(2) keys assms(1) by (auto simp: qprio_rep_def pq_sorted_put heap_simps)
  then show ?thesis using m'(1,3) head by (auto simp: qPrioPut_def)
qed

lemma qPrioGet_rep:
  assumes "qprio_rep m h ((k, n) # q)"
  shows "fst (qPrioGet h m) = n \<and> qprio_rep (snd (qPrioGet h m)) h q"
  using assms dll.get_law [of m h n "map snd q"] pq_sorted_Cons [of "(k, n)" q]
    dll_rep_empty [of m h "n # map snd q"]
  by (simp add: qprio_rep_def qPrioGet_def dll_rep_empty heap_simps)

lemma qPrioGet_empty: "qprio_rep m h [] \<Longrightarrow> qPrioGet h m = (NULL, m)"
  by (simp add: qprio_rep_def qPrioGet_def dll_rep_empty)

lemma qPrioRemove_rep:
  assumes "qprio_rep m h q" and "n \<in> pq_nodes q"
  shows "fst (qPrioRemove h n m) = OK \<and> qprio_rep (snd (qPrioRemove h n m)) h (pq_remove n q)"
proof -
  have d: "distinct (map snd q)" and z: "n \<noteq> NULL" "h \<noteq> NULL"
    using qprio_rep_wf [OF assms(1)] assms unfolding qprio_rep_def dll_rep_def by metis+
  have "dll_rep (snd (dllRemove h n m)) h (remove1 n (map snd q))"
    using assms dll.remove_rep [of m h "map snd q" n] by (auto simp: qprio_rep_def pq_nodes_def)
  moreover have "fst (dllRemove h n m) = OK" using z by (simp add: dllRemove_def Let_def)
  ultimately show ?thesis using assms(1) pq_sorted_remove [of q n]
    by (auto simp: qprio_rep_def qPrioRemove_def dll_ops_keys pq_remove_def
        filter_map_snd_remove1 [OF d])
qed

interpretation qprio: prio_class qprio_rep "\<lambda>_. True"
    qPrioPut "\<lambda>h m. Some (qPrioGet h m)" "\<lambda>h n m. Some (snd (qPrioRemove h n m))"
proof unfold_locales
  fix m :: "'a qmem_scheme" and h q n k
  show "qprio_rep m h q \<Longrightarrow> pq_sorted q \<and> distinct (map snd q) \<and> NULL \<notin> pq_nodes q"
    by (rule qprio_rep_wf)
  show "\<exists>m'. qPrioPut h n k m = Some m' \<and> qprio_rep m' h (pq_put k n q)"
    if "qprio_rep m h q" "n \<noteq> NULL" "n \<notin> pq_nodes q"
    using qPrioPut_rep [OF that] by blast
  show "\<exists>m'. Some (qPrioGet h m) = Some (n, m') \<and> qprio_rep m' h q"
    if "qprio_rep m h ((k, n) # q)"
    using qPrioGet_rep [OF that] by (metis prod.collapse)
  show "\<exists>m'. Some (snd (qPrioRemove h n m)) = Some m' \<and> qprio_rep m' h (pq_remove n q)"
    if "qprio_rep m h q" "n \<in> pq_nodes q"
    using qPrioRemove_rep [OF that] by blast
qed (simp_all add: qPrioGet_empty)

subsection \<open>Moving a node\<close>

lemma qPrioMove_rep:
  assumes "qprio_rep m h q" and "n \<in> pq_nodes q"
  shows "\<exists>m'. qPrioMove h n newKey m = Some m' \<and> qprio_rep m' h (pq_move newKey n q)"
proof -
  have d: "distinct (map snd q)" and z: "n \<noteq> NULL" and s: "pq_sorted q"
    using qprio_rep_wf [OF assms(1)] assms(2) by metis+
  obtain as k bs where q: "q = as @ (k, n) # bs" "n \<notin> pq_nodes as" "n \<notin> pq_nodes bs"
      "pq_remove n q = as @ bs" using pq_split_node [OF assms(2) d] by metis
  have dl: "dll_rep m h (map snd as @ n # map snd bs)" using assms(1) q by (simp add: qprio_rep_def)
  note links = dll_rep_links [OF dl]
  have nin: "NULL \<notin> snd ` set as" "NULL \<notin> snd ` set bs" using dll_rep_NULL [OF dl] by auto
  have keys: "\<forall>e\<in>set q. qkeys m (snd e) = fst e" using assms(1) by (simp add: qprio_rep_def)
  have prev: "(DLL_PREV m n = NULL \<or> newKey \<ge> qkeys m (DLL_PREV m n)) \<longleftrightarrow> as = [] \<or> fst (last as) \<le> newKey"
  proof (cases as rule: rev_cases)
    case (snoc as' e)
    then show ?thesis using links(1) nin(1) keys q(1) by auto
  qed (use links in simp)
  have "next": "(DLL_NEXT m n = NULL \<or> newKey \<le> qkeys m (DLL_NEXT m n)) \<longleftrightarrow> bs = [] \<or> newKey \<le> fst (hd bs)"
  proof (cases bs)
    case (Cons e bs')
    then show ?thesis using links(2) nin(2) keys q(1) by auto
  qed (use links in simp)
  note move = pq_move_split [OF q(2), of newKey k bs]
  show ?thesis
  proof (cases "(as = [] \<or> fst (last as) \<le> newKey) \<and> (bs = [] \<or> newKey \<le> fst (hd bs))")
    case True
    then have mv: "pq_move newKey n q = as @ (newKey, n) # bs" using move q(1) by simp
    have "\<forall>e\<in>set as \<union> set bs. snd e \<noteq> n" using q(2,3) by (auto simp: pq_nodes_def)
    then have "qprio_rep (set_key n newKey m) h (pq_move newKey n q)"
      using dl keys pq_move_sorted [OF assms(2) d s, of newKey]
      by (auto simp: qprio_rep_def heap_simps q(1) mv [unfolded q(1)])
    then show ?thesis using True prev "next" by (simp add: qPrioMove_def)
  next
    case False
    have "qprio_rep (snd (qPrioRemove h n m)) h (as @ bs)"
      using qPrioRemove_rep [OF assms] q(4) by simp
    then obtain m' where "qPrioPut h n newKey (snd (qPrioRemove h n m)) = Some m'"
        "qprio_rep m' h (pq_put newKey n (as @ bs))"
      using qPrioPut_rep [of _ h "as @ bs" n newKey] z q(2,3) by auto
    then show ?thesis using False prev "next" move q(1) by (auto simp: qPrioMove_def Let_def)
  qed
qed

subsection \<open>Expiry, offsets, keys and information\<close>

lemma qPrioExpired_rep:
  assumes "qprio_rep m h q"
  shows "case q of
      [] \<Rightarrow> qPrioExpired ticks h m = (NULL, m)
    | (k, n) # q' \<Rightarrow> if k \<le> ticks
        then fst (qPrioExpired ticks h m) = n \<and> qprio_rep (snd (qPrioExpired ticks h m)) h q'
        else qPrioExpired ticks h m = (NULL, m)"
proof (cases q)
  case Nil
  then show ?thesis using assms by (simp add: qPrioExpired_def qprio_rep_def dll_rep_def heap_simps Let_def)
next
  case (Cons e q')
  obtain k n where e: "e = (k, n)" by (cases e)
  have h: "DLL_HEAD m h = n" "n \<noteq> NULL" "qkeys m n = k"
    using assms Cons e qprio_rep_wf [OF assms]
    by (auto simp: qprio_rep_def dll_rep_def heap_simps pq_nodes_def)
  then show ?thesis using qPrioGet_rep [of m h k n q'] assms Cons e
    by (auto simp: qPrioExpired_def qPrioGet_def qprio_rep_def dll_rep_empty Let_def)
qed

lemma qPrioOffset_loop_rep:
  assumes "dseg m p (map snd q) NULL" and "distinct (map snd q)"
    and "\<forall>e\<in>set q. qkeys m (snd e) = fst e"
  shows "\<exists>m'. qPrioOffset_loop delta (hd (map snd q @ [NULL])) m = Some m' \<and>
    dnodes m' = dnodes m \<and> dlists m' = dlists m \<and>
    (\<forall>x. qkeys m' x = (if x \<in> pq_nodes q then qkeys m x + delta else qkeys m x))"
  using assms
proof (induction q arbitrary: m p)
  case Nil then show ?case by (simp add: qPrioOffset_loop.simps [of _ NULL])
next
  case (Cons e q)
  let ?m = "set_key (snd e) (qkeys m (snd e) + delta) m"
  have "dseg ?m (snd e) (map snd q) NULL"
    using Cons.prems(1) dseg_cong [of "map snd q" ?m m] by (simp add: heap_simps)
  moreover have "\<forall>e'\<in>set q. qkeys ?m (snd e') = fst e'"
    using Cons.prems(2,3) by (auto simp: heap_simps image_iff)
  ultimately obtain m' where "qPrioOffset_loop delta (hd (map snd q @ [NULL])) ?m = Some m'"
      "dnodes m' = dnodes ?m" "dlists m' = dlists ?m"
      "\<forall>x. qkeys m' x = (if x \<in> pq_nodes q then qkeys ?m x + delta else qkeys ?m x)"
    using Cons.IH [of ?m "snd e"] Cons.prems(2) by auto
  moreover have "snd e \<notin> pq_nodes q" using Cons.prems(2) by (simp add: pq_nodes_def)
  ultimately show ?case using Cons.prems(1)
    by (simp add: qPrioOffset_loop.simps [of _ "snd e"] heap_simps Let_def)
qed

lemma word_add_mono_left:
  fixes x y d :: "'a::len word"
  assumes "x \<le> y" and "y \<le> y + d"
  shows "x + d \<le> y + d"
proof -
  have "unat d < 2 ^ LENGTH('a)" by simp
  then show ?thesis using assms
    by (auto simp: word_le_nat_alt unat_plus_if' split: if_splits)
qed

lemma qPrioOffset_rep:
  assumes "qprio_rep m h q" and "\<And>e. e \<in> set q \<Longrightarrow> fst e \<le> fst e + delta"
  shows "\<exists>m'. qPrioOffset h delta m = Some m' \<and>
    qprio_rep m' h (map (\<lambda>e. (fst e + delta, snd e)) q)"
proof -
  obtain m' where m': "qPrioOffset_loop delta (hd (map snd q @ [NULL])) m = Some m'"
      "dnodes m' = dnodes m" "dlists m' = dlists m"
      "\<forall>x. qkeys m' x = (if x \<in> pq_nodes q then qkeys m x + delta else qkeys m x)"
    using qPrioOffset_loop_rep [of m NULL q delta] assms(1) by (auto simp: qprio_rep_def dll_rep_def)
  have "sorted (map (\<lambda>e. fst e + delta) q)"
  proof -
    have "sorted (map fst q)" using assms(1) by (simp add: qprio_rep_def pq_sorted_def)
    then show ?thesis using assms(2) by (induction q) (auto intro: word_add_mono_left)
  qed
  then have "qprio_rep m' h (map (\<lambda>e. (fst e + delta, snd e)) q)"
    using m' assms(1) dll_rep_frame [of "map snd q" m' m h]
    by (auto simp: qprio_rep_def pq_sorted_def comp_def pq_nodes_def)
  then show ?thesis using m'(1) assms(1)
    by (simp add: qPrioOffset_def qprio_rep_def dll_rep_def heap_simps)
qed

lemma qPrioInfo_rep:
  assumes "qprio_rep m h q"
  shows "qPrioInfo h True k m = Some (int (length (take (nat k) q)), take (nat k) (map snd q))"
    and "qPrioInfo h False k m = Some (int (length q), [])"
  using qFifoInfo_rep [of m h "map snd q" k] assms
  by (simp_all add: qprio_rep_def qFifoInfo_def qPrioInfo_def split: option.splits)

subsection \<open>Properties\<close>

text \<open>The get that \<open>class_drain\<close> iterates over the expired nodes.\<close>

definition take_expired :: "u32 \<Rightarrow> ptr \<Rightarrow> 'a qmem_scheme \<Rightarrow> (ptr \<times> 'a qmem_scheme) option" where
  "take_expired ticks h m =
     (case qPrioExpired ticks h m of (n, m') \<Rightarrow> if n = NULL then None else Some (n, m'))"

lemma take_expired_all:
  assumes "qprio_rep m h (as @ bs)" and "\<forall>e\<in>set as. fst e \<le> ticks"
  shows "\<exists>m'. class_drain (take_expired ticks h) (length as) m = Some (map snd as, m') \<and> qprio_rep m' h bs"
  using assms
proof (induction as arbitrary: m)
  case (Cons e as)
  have "snd e \<noteq> NULL" using qprio_rep_wf [OF Cons.prems(1)] by auto
  then have "take_expired ticks h m = Some (snd e, snd (qPrioExpired ticks h m))"
      "qprio_rep (snd (qPrioExpired ticks h m)) h (as @ bs)"
    using qPrioExpired_rep [OF Cons.prems(1), of ticks] Cons.prems(2)
    by (cases e; auto simp: take_expired_def case_prod_beta)+
  then show ?case using Cons.IH [of "snd (qPrioExpired ticks h m)"] Cons.prems(2) by auto
qed simp

lemma sorted_split_at:
  assumes "pq_sorted q"
  shows "takeWhile (\<lambda>e. fst e \<le> k) q = filter (\<lambda>e. fst e \<le> k) q"
    and "dropWhile (\<lambda>e. fst e \<le> k) q = filter (\<lambda>e. \<not> fst e \<le> k) q"
proof (atomize (full), use assms in \<open>induction q\<close>)
  case (Cons e q)
  have "filter (\<lambda>e. fst e \<le> k) q = []" "filter (\<lambda>e. \<not> fst e \<le> k) q = q" if "\<not> fst e \<le> k"
    using Cons.prems that by (auto simp: pq_sorted_def filter_empty_conv filter_id_conv)
  then show ?case using Cons.IH pq_sorted_Cons [OF Cons.prems] by auto
qed simp

text \<open>Calling the expired method until it returns \<open>NULL\<close> takes out exactly the nodes whose key is at most
  the time, in the order of their keys (and of insertion among equal keys), and leaves the others.\<close>

theorem qprio_expires_due:
  assumes "qprio_rep m h q"
  shows "let due = filter (\<lambda>e. fst e \<le> ticks) q in
    \<exists>m'. class_drain (take_expired ticks h) (length due) m = Some (map snd due, m') \<and>
      qprio_rep m' h (filter (\<lambda>e. \<not> fst e \<le> ticks) q) \<and> qPrioExpired ticks h m' = (NULL, m')"
proof -
  have "pq_sorted q" using qprio_rep_wf [OF assms] by simp
  note split = sorted_split_at [OF this, of ticks]
  let ?due = "filter (\<lambda>e. fst e \<le> ticks) q" and ?rest = "filter (\<lambda>e. \<not> fst e \<le> ticks) q"
  have "q = ?due @ ?rest" using takeWhile_dropWhile_id [of "\<lambda>e. fst e \<le> ticks" q] split by simp
  then have "qprio_rep m h (?due @ ?rest)" using assms by simp
  then obtain m' where m': "class_drain (take_expired ticks h) (length ?due) m = Some (map snd ?due, m')"
      "qprio_rep m' h ?rest" using take_expired_all by fastforce
  have "qPrioExpired ticks h m' = (NULL, m')"
    using qPrioExpired_rep [OF m'(2), of ticks] filter_eq_ConsD [of "\<lambda>e. \<not> fst e \<le> ticks" q]
    by (cases ?rest) (auto split: if_splits)
  then show ?thesis using m' by (auto simp: Let_def)
qed

definition three_keys :: qmem where
  "three_keys =
     \<lparr>dnodes = (\<lambda>n. \<lparr>dl_prev = (if n = 11 then 10 else if n = 12 then 11 else 0),
         dl_next = (if n = 10 then 11 else if n = 11 then 12 else 0)\<rparr>),
      dlists = (\<lambda>l. \<lparr>dl_head = 10, dl_tail = 12\<rparr>),
      qkeys = (\<lambda>n. if n = 10 then 5 else if n = 11 then 5 else 9)\<rparr>"

lemma three_keys_rep: "qprio_rep three_keys 1 [(5, 10), (5, 11), (9, 12)]"
  by (simp add: qprio_rep_def dll_rep_def three_keys_def pq_sorted_def)

theorem qprio_expires_due_witness:
  "\<exists>m'. class_drain (take_expired 7 1) 2 three_keys = Some ([10, 11], m') \<and> qprio_rep m' 1 [(9, 12)] \<and>
     qPrioExpired 7 1 m' = (NULL, m')"
proof -
  have "filter (\<lambda>e. fst e \<le> 7) [(5 :: u32, 10 :: nat), (5, 11), (9, 12)] = [(5, 10), (5, 11)]"
    "filter (\<lambda>e. \<not> fst e \<le> 7) [(5 :: u32, 10 :: nat), (5, 11), (9, 12)] = [(9, 12)]" by simp_all
  with qprio_expires_due [OF three_keys_rep, of 7] show ?thesis by (simp add: Let_def numeral_2_eq_2)
qed

text \<open>Moving a node to another key: the queue stays sorted, holds the same nodes, only this one with the
  new key; the node goes behind the nodes of its new key, or keeps its place when its neighbours allow it.\<close>

theorem qprio_move_sorted:
  assumes "qprio_rep m h q" and "n \<in> pq_nodes q"
  shows "\<exists>m' q'. qPrioMove h n newKey m = Some m' \<and> qprio_rep m' h q' \<and> pq_sorted q' \<and>
    mset q' = add_mset (newKey, n) (mset (pq_remove n q)) \<and> pq_remove n q' = pq_remove n q"
proof -
  have wf: "pq_sorted q" "distinct (map snd q)" using qprio_rep_wf [OF assms(1)] by simp_all
  obtain m' where "qPrioMove h n newKey m = Some m'" "qprio_rep m' h (pq_move newKey n q)"
    using qPrioMove_rep [OF assms] by blast
  then show ?thesis
    using pq_move_sorted [OF assms(2) wf(2,1)] pq_move_set [OF assms(2) wf(2)] pq_move_rest [OF assms(2) wf(2)]
    by blast
qed

theorem qprio_move_sorted_witness:
  "\<exists>m' q'. qPrioMove 1 10 6 three_keys = Some m' \<and> qprio_rep m' 1 q' \<and> pq_sorted q' \<and>
    mset q' = {#(6, 10), (5, 11), (9, 12)#} \<and> pq_remove 10 q' = [(5, 11), (9, 12)]"
  using qprio_move_sorted [OF three_keys_rep, of 10 6] by (simp add: pq_remove_def)

text \<open>Shifting all keys (the kernel does it when its time base would overflow): if no key wraps, the same
  nodes remain in the same order with shifted keys.\<close>

theorem qprio_offset_shifts:
  assumes "qprio_rep m h q" and "\<And>e. e \<in> set q \<Longrightarrow> fst e \<le> fst e + delta"
  shows "\<exists>m'. qPrioOffset h delta m = Some m' \<and> qprio_rep m' h (map (\<lambda>e. (fst e + delta, snd e)) q)"
  using qPrioOffset_rep assms by blast

theorem qprio_offset_shifts_witness:
  "\<exists>m'. qPrioOffset 1 3 three_keys = Some m' \<and> qprio_rep m' 1 [(8, 10), (8, 11), (12, 12)]"
proof -
  have "e \<in> set [(5, 10), (5, 11), (9, 12 :: nat)] \<Longrightarrow> fst e \<le> fst e + (3 :: u32)" for e by auto
  from qprio_offset_shifts [OF three_keys_rep this] show ?thesis by simp
qed

end
