(* ===== verification/FfsLib.thy ===== *)
theory FfsLib
  imports Prelude
begin

text \<open>
  Find first set: \<open>src/os/ffsLib.c\<close>. \<open>ffsMsb\<close> looks the top non-zero byte of a 32-bit value up in
  a 256-entry table, \<open>ffsLsb\<close> isolates the lowest set bit with \<open>value ^ (value - 1)\<close> and calls
  \<open>ffsMsb\<close>. The lemmas give both their meaning in terms of the bits of the value.
\<close>

definition msbTable :: "nat list" where
  "msbTable =
     [0] @ [1] @ replicate 2 2 @ replicate 4 3 @ replicate 8 4 @ replicate 16 5 @
     replicate 32 6 @ replicate 64 7 @ replicate 128 8"

definition ffsMsb :: "u32 \<Rightarrow> nat" where
  "ffsMsb val =
     (let upper = (ucast (drop_bit 16 val) :: u16)
      in if upper = 0
         then let high = (ucast (drop_bit 8 val) :: u8)
              in if high = 0 then msbTable ! unat val
                 else msbTable ! unat high + 8
         else let high = (ucast (drop_bit 8 upper) :: u8)
              in if high = 0 then msbTable ! unat upper + 16
                 else msbTable ! unat high + 24)"

definition ffsLsb :: "u32 \<Rightarrow> nat" where
  "ffsLsb val = ffsMsb ((val XOR (val - 1)) AND val)"

subsection \<open>The table\<close>

text \<open>\<open>msb_spec n k\<close>: \<open>k\<close> is the position of the highest set bit of \<open>n\<close>, counted from 1.\<close>

definition msb_spec :: "nat \<Rightarrow> nat \<Rightarrow> bool" where
  "msb_spec n k \<longleftrightarrow> (if n = 0 then k = 0 else 0 < k \<and> 2 ^ (k - 1) \<le> n \<and> n < 2 ^ k)"

lemma msbTable_all: "list_all (\<lambda>n. msb_spec n (msbTable ! n)) [0..<256]"
  by code_simp

lemma msbTable_spec: "n < 256 \<Longrightarrow> msb_spec n (msbTable ! n)"
  using msbTable_all by (simp add: list_all_iff)

lemma msb_spec_shift:
  assumes "msb_spec (n div 2 ^ s) k" and "n div 2 ^ s \<noteq> 0"
  shows "msb_spec n (k + s)"
proof -
  have k: "0 < k" "2 ^ (k - 1) \<le> n div 2 ^ s" "n div 2 ^ s < 2 ^ k"
    using assms by (auto simp: msb_spec_def)
  have "2 ^ (k - 1) * 2 ^ s \<le> n"
    using k(2) by (simp add: less_eq_div_iff_mult_less_eq)
  moreover have "n < 2 ^ k * 2 ^ s"
    using k(3) by (simp add: div_less_iff_less_mult)
  moreover have e: "k + s - 1 = (k - 1) + s" using k(1) by simp
  moreover have "n \<noteq> 0" using assms(2) by (intro notI) simp
  moreover have "(2::nat) ^ (k + s - 1) = 2 ^ (k - 1) * 2 ^ s" unfolding e by (rule power_add)
  ultimately show ?thesis using k(1) by (simp add: msb_spec_def power_add)
qed

lemma msb_spec_unique: "msb_spec n k \<Longrightarrow> msb_spec n k' \<Longrightarrow> k = k'"
proof -
  have le: "a \<le> b" if "2 ^ (a - 1) \<le> n" "n < 2 ^ b" for a b :: nat
  proof -
    have "(2::nat) ^ (a - 1) < 2 ^ b" using that by linarith
    then have "a - 1 < b" by (rule power_less_imp_less_exp [rotated]) simp
    then show ?thesis by simp
  qed
  assume "msb_spec n k" "msb_spec n k'"
  then show "k = k'" using le [of k k'] le [of k' k] by (auto simp: msb_spec_def split: if_splits)
qed

subsection \<open>The highest and the lowest set bit\<close>

lemma ffsMsb_spec: "msb_spec (unat val) (ffsMsb val)"
proof -
  let ?n = "unat val"
  let ?up = "?n div 2 ^ 16"
  have n: "?n < 2 ^ 32" using unsigned_less [of val] by simp
  have up: "unat (ucast (drop_bit 16 val) :: u16) = ?up"
    using n by (simp add: unat_drop_bit_eq unsigned_ucast_eq drop_bit_eq_div take_bit_eq_mod
        unat_div less_mult_imp_div_less)
  have lo: "unat (ucast (drop_bit 8 val) :: u8) = (?n div 2 ^ 8) mod 256"
    by (simp add: unat_drop_bit_eq unsigned_ucast_eq drop_bit_eq_div take_bit_eq_mod unat_div)
  have hi: "unat (ucast (drop_bit 8 (ucast (drop_bit 16 val) :: u16)) :: u8) = ?up div 2 ^ 8"
  proof -
    have "unat (ucast (drop_bit 8 w) :: u8) = unat w div 2 ^ 8" if "unat w < 65536" for w :: u16
      using that by (simp add: unat_drop_bit_eq unsigned_ucast_eq drop_bit_eq_div
          take_bit_eq_mod unat_div less_mult_imp_div_less)
    then show ?thesis using up n by (simp add: less_mult_imp_div_less)
  qed
  have z: "(x :: 'a::len word) = 0 \<longleftrightarrow> unat x = 0" for x by (simp add: unat_eq_0)
  show ?thesis
  proof (cases "?up = 0")
    case True
    then have small: "?n < 65536" by simp
    show ?thesis
    proof (cases "?n div 2 ^ 8 = 0")
      case True
      then show ?thesis using msbTable_spec [of ?n] \<open>?up = 0\<close> up lo
        by (simp add: ffsMsb_def Let_def z)
    next
      case False
      then show ?thesis
        using msb_spec_shift [of ?n 8 "msbTable ! (?n div 2 ^ 8)"] msbTable_spec [of "?n div 2 ^ 8"]
          small \<open>?up = 0\<close> up lo by (simp add: ffsMsb_def Let_def z)
    qed
  next
    case False
    show ?thesis
    proof (cases "?up div 2 ^ 8 = 0")
      case True
      then show ?thesis
        using msb_spec_shift [of ?n 16 "msbTable ! ?up"] msbTable_spec [of ?up] False up hi
        by (simp add: ffsMsb_def Let_def z)
    next
      case high: False
      have "?up div 2 ^ 8 = ?n div 2 ^ 24" by (simp add: div_mult2_eq [symmetric])
      then show ?thesis
        using msb_spec_shift [of ?n 24 "msbTable ! (?n div 2 ^ 24)"]
          msbTable_spec [of "?n div 2 ^ 24"] n False high up hi
        by (simp add: ffsMsb_def Let_def z)
    qed
  qed
qed

lemma lowest_bit_isolated:
  fixes v :: "'a::len word"
  assumes k: "bit v k" and low: "\<And>j. j < k \<Longrightarrow> \<not> bit v j"
  shows "(v XOR (v - 1)) AND v = 2 ^ k"
proof -
  define m where "m = Suc k"
  let ?u = "push_bit m (drop_bit m v)"
  have len: "k < LENGTH('a)" using k by (rule bit_imp_le_length)
  have "take_bit (Suc k) v = 2 ^ k"
    using k low by (intro bit_word_eqI) (auto simp: bit_take_bit_iff bit_exp_iff less_Suc_eq)
  then have v: "v = ?u + 2 ^ k" using bits_ident [of m v] by (simp add: m_def)
  then have "v - 1 = ?u + mask k" by (simp add: mask_eq_exp_minus_1)
  also have "\<dots> = ?u OR mask k"
    by (rule disjunctive_add) (auto simp: bit_push_bit_iff bit_mask_iff m_def)
  finally have v1: "bit (v - 1) j \<longleftrightarrow> j < LENGTH('a) \<and> (if j \<le> k then j < k else bit v j)" for j
    by (simp add: bit_or_iff bit_push_bit_iff bit_mask_iff bit_drop_bit_eq) (auto simp: m_def)
  show ?thesis
    using k low by (intro bit_word_eqI)
      (auto simp: bit_and_iff bit_xor_iff v1 bit_exp_iff not_le dest: le_neq_implies_less)
qed

lemma msb_spec_exp: "msb_spec (2 ^ k) (Suc k)"
  by (simp add: msb_spec_def)

lemma ffsLsb_0: "ffsLsb 0 = 0"
  using ffsMsb_spec [of 0] by (simp add: ffsLsb_def msb_spec_def)

lemma ffsLsb_lowest:
  assumes "bit val k" and "\<And>j. j < k \<Longrightarrow> \<not> bit val j"
  shows "ffsLsb val = Suc k"
proof -
  have "k < 32" using bit_imp_le_length [OF assms(1)] by simp
  then have "unat (push_bit k 1 :: u32) = 2 ^ k"
    by (simp only: unsigned_push_bit_eq) (simp add: take_bit_push_bit push_bit_eq_mult take_bit_Suc_from_most)
  then have "unat (2 ^ k :: u32) = 2 ^ k" by (simp add: push_bit_eq_mult)
  then have "msb_spec (2 ^ k) (ffsLsb val)"
    using ffsMsb_spec [of "2 ^ k"] by (simp add: ffsLsb_def lowest_bit_isolated [OF assms])
  then show ?thesis using msb_spec_exp msb_spec_unique by blast
qed

lemma word_lowest_bit:
  fixes v :: "'a::len word"
  assumes "v \<noteq> 0"
  obtains k where "bit v k" "\<And>j. j < k \<Longrightarrow> \<not> bit v j" "k < LENGTH('a)"
proof -
  obtain n where n: "bit v n" using assms by (auto simp: bit_eq_iff)
  show thesis
  proof (rule that)
    show "bit v (LEAST k. bit v k)" using n by (rule LeastI)
    then show "(LEAST k. bit v k) < LENGTH('a)" by (rule bit_imp_le_length)
    show "\<not> bit v j" if "j < (LEAST k. bit v k)" for j using that by (rule not_less_Least)
  qed
qed

lemma msb_spec_bits:
  fixes val :: u32
  assumes "bit val k" and "\<And>j. k < j \<Longrightarrow> \<not> bit val j"
  shows "msb_spec (unat val) (Suc k)"
proof -
  have "drop_bit (Suc k) val = 0" by (rule bit_eqI) (auto simp: bit_simps assms(2))
  then have "unat (drop_bit (Suc k) val) = 0" by simp
  then have "unat val div 2 ^ Suc k = 0" unfolding unat_drop_bit_eq by (simp only: drop_bit_eq_div)
  moreover have "odd (drop_bit k (unat val))"
    using assms(1) bit_unsigned_iff [of val k, where 'a = nat] by (simp add: bit_iff_odd_drop_bit)
  then have "unat val div 2 ^ k \<noteq> 0" unfolding drop_bit_eq_div by (intro notI) simp
  ultimately have "unat val < 2 ^ Suc k" "2 ^ k \<le> unat val"
    by (auto simp: div_eq_0_iff not_less simp del: power_Suc)
  moreover from this(2) have "0 < unat val" by (rule less_le_trans [rotated]) simp
  ultimately show ?thesis by (simp add: msb_spec_def)
qed

subsection \<open>Properties\<close>

text \<open>\<open>ffsMsb\<close> is the position, counted from 1, of the highest set bit of its argument and \<open>ffsLsb\<close>
  that of the lowest; both are 0 exactly for the argument 0.\<close>

theorem ffs_positions:
  fixes val :: u32
  shows "(val = 0 \<longrightarrow> ffsMsb val = 0 \<and> ffsLsb val = 0) \<and>
    (\<forall>k. bit val k \<and> (\<forall>j>k. \<not> bit val j) \<longrightarrow> ffsMsb val = Suc k) \<and>
    (\<forall>k. bit val k \<and> (\<forall>j<k. \<not> bit val j) \<longrightarrow> ffsLsb val = Suc k)"
proof (intro conjI impI allI)
  show "ffsMsb val = 0" "ffsLsb val = 0" if "val = 0"
    using that ffsMsb_spec [of 0] ffsLsb_0 by (simp_all add: msb_spec_def)
next
  fix k
  assume k: "bit val k \<and> (\<forall>j>k. \<not> bit val j)"
  have "msb_spec (unat val) (Suc k)" using k by (intro msb_spec_bits) auto
  then show "ffsMsb val = Suc k" using ffsMsb_spec [of val] msb_spec_unique by blast
next
  fix k
  assume "bit val k \<and> (\<forall>j<k. \<not> bit val j)"
  then show "ffsLsb val = Suc k" by (intro ffsLsb_lowest) auto
qed

theorem ffs_positions_witness: "ffsMsb 0x28 = 6 \<and> ffsLsb 0x28 = 4"
proof -
  have "(0x28 :: u32) = 2 ^ 5 OR 2 ^ 3" by simp
  then have b: "bit (0x28 :: u32) k \<longleftrightarrow> k = 5 \<or> k = 3" for k
    by (simp only: bit_or_iff bit_exp_iff) auto
  note p = ffs_positions [of "0x28"]
  show ?thesis using p [THEN conjunct2, THEN conjunct1, rule_format, of 5]
      p [THEN conjunct2, THEN conjunct2, rule_format, of 3] unfolding b by simp
qed

end
