(* ===== verification/QPriBmpLib.thy ===== *)
theory QPriBmpLib
  imports QPrioLib FfsLib
begin

text \<open>
  The bitmap queue class: \<open>src/util/qPriBmpLib.c\<close>, the ready queue of the kernel. A queue has one list
  per priority, a bitmap of the non-empty lists and the first node. Reading or writing the bitmap or
  the list heads outside their arrays gives \<open>None\<close>; \<open>qHeadFirstFind\<close> always reads eight words, so the
  class works for the 256 priorities the kernel creates it with. It meets the same contract
  \<open>prio_class\<close> as the sorted list.
\<close>

record Q_PRI_BMP_HEAD =
  pFirst :: ptr
  bmp :: "u32 list"
  heads :: "ptr list"

record bmem = qmem +
  qbmps :: "ptr \<Rightarrow> Q_PRI_BMP_HEAD"

definition set_first :: "ptr \<Rightarrow> ptr \<Rightarrow> 'a bmem_scheme \<Rightarrow> 'a bmem_scheme" where
  "set_first h v m = m\<lparr>qbmps := (qbmps m)(h := (qbmps m h)\<lparr>pFirst := v\<rparr>)\<rparr>"

definition set_bmp :: "ptr \<Rightarrow> nat \<Rightarrow> u32 \<Rightarrow> 'a bmem_scheme \<Rightarrow> 'a bmem_scheme option" where
  "set_bmp h i v m =
     (if i < length (bmp (qbmps m h))
      then Some (m\<lparr>qbmps := (qbmps m)(h := (qbmps m h)\<lparr>bmp := (bmp (qbmps m h))[i := v]\<rparr>)\<rparr>)
      else None)"

definition list_at :: "ptr \<Rightarrow> int \<Rightarrow> 'a bmem_scheme \<Rightarrow> ptr option" where
  "list_at h i m =
     (if 0 \<le> i \<and> i < int (length (heads (qbmps m h))) then Some (heads (qbmps m h) ! nat i) else None)"

text \<open>\<open>for (i = 0; i < 8; i++)\<close>, from \<open>i\<close> on.\<close>

function qHeadFirstFind_loop :: "u32 list \<Rightarrow> nat \<Rightarrow> int option" where
  "qHeadFirstFind_loop b i =
     (if i < 8
      then (if i < length b
            then (let bit = int (ffsLsb (b ! i))
                  in if bit \<noteq> 0 then Some (int i * 32 + bit - 1) else qHeadFirstFind_loop b (i + 1))
            else None)
      else Some ERROR)"
  by pat_completeness auto
termination by (relation "measure (\<lambda>(b, i). 8 - i)") auto

declare qHeadFirstFind_loop.simps [simp del]

definition qHeadFirstFind :: "ptr \<Rightarrow> 'a bmem_scheme \<Rightarrow> int option" where
  "qHeadFirstFind pQHead m = qHeadFirstFind_loop (bmp (qbmps m pQHead)) 0"

text \<open>\<open>pList\<close> lists the addresses of the \<open>size\<close> list heads, \<open>pBmp\<close> is the memory for the bitmap.\<close>

definition qPriBmpInit ::
  "ptr \<Rightarrow> u32 \<Rightarrow> ptr list \<Rightarrow> u32 list \<Rightarrow> 'a bmem_scheme \<Rightarrow> (STATUS \<times> 'a bmem_scheme) option" where
  "qPriBmpInit pQHead size' pList pBmp m =
     (if size' AND 0x1f \<noteq> 0 \<or> size' = 0 then Some (ERROR, m)
      else if length pList < unat size' \<or> length pBmp < unat (size' div 32) then None
      else (let m1 = fold (\<lambda>i m. snd (dllInit (pList ! i) m)) [0..<unat size'] m;
                bits = replicate (unat (size' div 32)) 0 @ drop (unat (size' div 32)) pBmp
            in Some (OK, m1\<lparr>qbmps := (qbmps m1)(pQHead := \<lparr>pFirst = NULL, bmp = bits, heads = pList\<rparr>)\<rparr>)))"

definition qPriBmpTerminate :: "ptr \<Rightarrow> 'a bmem_scheme \<Rightarrow> STATUS \<times> 'a bmem_scheme" where
  "qPriBmpTerminate pQHead m = (OK, m)"

text \<open>
  \<open>malloc\<close> gives the address of one block; \<open>pList\<close> are the addresses of the list heads in it and \<open>pBmp\<close> is the
  memory after them. When \<open>qPriBmpInit\<close> fails the block is not given back.
\<close>

definition qPriBmpCreate ::
  "ptr \<Rightarrow> u32 \<Rightarrow> ptr list \<Rightarrow> u32 list \<Rightarrow> 'a bmem_scheme \<Rightarrow> (ptr \<times> 'a bmem_scheme) option" where
  "qPriBmpCreate malloc size' pList pBmp m =
     (let size' = (size' + 31) AND NOT 0x1f
      in if size' = 0 then Some (NULL, m)
         else if malloc = NULL then Some (NULL, m)
         else (case qPriBmpInit malloc size' pList pBmp m of
             None \<Rightarrow> None
           | Some (st, m1) \<Rightarrow> Some (if st \<noteq> OK then NULL else malloc, m1)))"

definition qPriBmpDestroy :: "ptr \<Rightarrow> STATUS \<times> ptr" where
  "qPriBmpDestroy pQHead = (OK, pQHead)"

text \<open>\<open>pFirst\<close> becomes the head of the list that \<open>qHeadFirstFind\<close> names.\<close>

definition first_from :: "ptr \<Rightarrow> int \<Rightarrow> 'a bmem_scheme \<Rightarrow> 'a bmem_scheme option" where
  "first_from pQHead i m =
     (case list_at pQHead i m of None \<Rightarrow> None | Some l \<Rightarrow> Some (set_first pQHead (DLL_HEAD m l) m))"

definition qPriBmpPut :: "ptr \<Rightarrow> ptr \<Rightarrow> u32 \<Rightarrow> 'a bmem_scheme \<Rightarrow> 'a bmem_scheme option" where
  "qPriBmpPut pQHead pQNode key m =
     (let w = unat (drop_bit 5 key);
          b = bmp (qbmps m pQHead)
      in case set_bmp pQHead w (b ! w OR push_bit (unat (key AND 0x1f)) 1) m of
           None \<Rightarrow> None
         | Some m1 \<Rightarrow>
             (case list_at pQHead (int (unat key)) m1 of
                None \<Rightarrow> None
              | Some l \<Rightarrow>
                  (let m2 = set_key pQNode key (snd (dllAdd l pQNode m1))
                   in case qHeadFirstFind pQHead m2 of
                        None \<Rightarrow> None
                      | Some first \<Rightarrow> first_from pQHead first m2)))"

text \<open>The bit of \<open>i\<close> is cleared when its list has become empty.\<close>

definition clear_if_empty :: "ptr \<Rightarrow> u32 \<Rightarrow> ptr \<Rightarrow> 'a bmem_scheme \<Rightarrow> 'a bmem_scheme option" where
  "clear_if_empty pQHead i pHead m =
     (if DLL_EMPTY m pHead
      then (let w = unat (drop_bit 5 i)
            in set_bmp pQHead w (bmp (qbmps m pQHead) ! w AND NOT (push_bit (unat (i AND 0x1f)) 1)) m)
      else Some m)"

text \<open>\<open>pFirst = NULL\<close>, then the head of the first non-empty list if there is one.\<close>

definition update_first :: "ptr \<Rightarrow> 'a bmem_scheme \<Rightarrow> 'a bmem_scheme option" where
  "update_first pQHead m =
     (let m1 = set_first pQHead NULL m
      in case qHeadFirstFind pQHead m1 of
           None \<Rightarrow> None
         | Some first \<Rightarrow> if first \<noteq> ERROR then first_from pQHead first m1 else Some m1)"

definition qPriBmpGet :: "ptr \<Rightarrow> 'a bmem_scheme \<Rightarrow> (ptr \<times> 'a bmem_scheme) option" where
  "qPriBmpGet pQHead m =
     (let pQNode = pFirst (qbmps m pQHead)
      in if pQNode \<noteq> NULL
         then (let i = qkeys m pQNode
               in case list_at pQHead (int (unat i)) m of
                    None \<Rightarrow> None
                  | Some pHead \<Rightarrow>
                      (case clear_if_empty pQHead i pHead (set_first pQHead NULL (snd (dllGet pHead m))) of
                         None \<Rightarrow> None
                       | Some m1 \<Rightarrow>
                           (case update_first pQHead m1 of
                              None \<Rightarrow> None
                            | Some m2 \<Rightarrow> Some (pQNode, m2))))
         else Some (pQNode, m))"

definition qPriBmpRemove :: "ptr \<Rightarrow> ptr \<Rightarrow> 'a bmem_scheme \<Rightarrow> (STATUS \<times> 'a bmem_scheme) option" where
  "qPriBmpRemove pQHead pQNode m =
     (let key = qkeys m pQNode
      in case list_at pQHead (int (unat key)) m of
           None \<Rightarrow> None
         | Some pHead \<Rightarrow>
             (case clear_if_empty pQHead key pHead (snd (dllRemove pHead pQNode m)) of
                None \<Rightarrow> None
              | Some m1 \<Rightarrow>
                  if pQNode = pFirst (qbmps m1 pQHead)
                  then (case update_first pQHead m1 of None \<Rightarrow> None | Some m2 \<Rightarrow> Some (OK, m2))
                  else Some (OK, m1)))"

definition qPriBmpMove :: "ptr \<Rightarrow> ptr \<Rightarrow> u32 \<Rightarrow> 'a bmem_scheme \<Rightarrow> 'a bmem_scheme option" where
  "qPriBmpMove pQHead pQNode newKey m =
     (case qPriBmpRemove pQHead pQNode m of
        None \<Rightarrow> None
      | Some (st, m1) \<Rightarrow> qPriBmpPut pQHead pQNode newKey m1)"

subsection \<open>The levels of a queue\<close>

definition level :: "(u32 \<times> ptr) list \<Rightarrow> nat \<Rightarrow> ptr list" where
  "level q i = map snd (filter (\<lambda>e. unat (fst e) = i) q)"

definition bmp_bit :: "u32 list \<Rightarrow> nat \<Rightarrow> bool" where
  "bmp_bit b i = bit (b ! (i div 32)) (i mod 32)"

definition qbmp_rep :: "'a bmem_scheme \<Rightarrow> ptr \<Rightarrow> (u32 \<times> ptr) list \<Rightarrow> bool" where
  "qbmp_rep m h q \<longleftrightarrow>
     length (bmp (qbmps m h)) = 8 \<and> length (heads (qbmps m h)) = 256 \<and> distinct (heads (qbmps m h)) \<and>
     pq_sorted q \<and> distinct (map snd q) \<and> NULL \<notin> pq_nodes q \<and>
     (\<forall>e\<in>set q. unat (fst e) < 256 \<and> qkeys m (snd e) = fst e) \<and>
     (\<forall>i<256. dll_rep m (heads (qbmps m h) ! i) (level q i) \<and>
        (bmp_bit (bmp (qbmps m h)) i \<longleftrightarrow> level q i \<noteq> [])) \<and>
     pFirst (qbmps m h) = (if q = [] then NULL else snd (hd q))"


lemma level_put:
  assumes "pq_sorted q"
  shows "level (pq_put k n q) i = (if i = unat k then level q i @ [n] else level q i)"
proof -
  obtain as bs where q: "q = as @ bs" "pq_put k n q = as @ (k, n) # bs"
      "\<And>e. e \<in> set as \<Longrightarrow> fst e \<le> k" "\<And>e. e \<in> set bs \<Longrightarrow> k < fst e"
    using pq_put_split [OF assms] by metis
  have "filter (\<lambda>e. unat (fst e) = unat k) bs = []"
  proof -
    have "unat (fst e) \<noteq> unat k" if "e \<in> set bs" for e
      using q(4) [OF that] by (simp add: word_less_nat_alt)
    then show ?thesis by (simp add: filter_empty_conv)
  qed
  then show ?thesis using q(1,2) by (auto simp: level_def)
qed

lemma level_remove: "level (pq_remove n q) i = filter (\<lambda>x. x \<noteq> n) (level q i)"
  by (induction q) (auto simp: level_def pq_remove_def)

lemma level_Nil [simp]: "level [] i = []"
  by (simp add: level_def)

lemma level_Cons: "level (e # q) i = (if unat (fst e) = i then snd e # level q i else level q i)"
  by (simp add: level_def)

lemma level_below:
  assumes "pq_sorted (e # q)" and "i < unat (fst e)"
  shows "level (e # q) i = []"
  using assms by (fastforce simp: level_def pq_sorted_def filter_empty_conv word_le_nat_alt)

lemma set_level: "set (level q i) = snd ` {e \<in> set q. unat (fst e) = i}"
  by (auto simp: level_def)

lemma level_disjoint:
  assumes "distinct (map snd q)" and "i \<noteq> j"
  shows "set (level q i) \<inter> set (level q j) = {}"
  using assms by (induction q) (auto simp: level_Cons set_level image_iff)

lemma distinct_level: "distinct (map snd q) \<Longrightarrow> distinct (level q i)"
  by (simp add: level_def distinct_map_filter)

subsection \<open>The bitmap\<close>

lemma uint_less_256: "unat k < 256 \<Longrightarrow> uint k < 256"
  unfolding unat_eq_nat_uint by linarith

lemma key_split:
  fixes k :: u32
  shows "unat (drop_bit 5 k) = unat k div 32" and "unat (k AND 0x1f) = unat k mod 32"
proof -
  show "unat (drop_bit 5 k) = unat k div 32" by (simp add: unat_drop_bit_eq drop_bit_eq_div unat_div)
  have "k AND 0x1f = take_bit 5 k" by (simp add: take_bit_eq_mask mask_numeral)
  then show "unat (k AND 0x1f) = unat k mod 32"
    by (simp add: unsigned_take_bit_eq take_bit_eq_mod unat_mod)
qed

lemma bmp_bit_upd:
  assumes "i < 256" and "j < 256" and "length b = 8"
  shows "bmp_bit (b[i div 32 := b ! (i div 32) OR push_bit (i mod 32) 1]) j \<longleftrightarrow> j = i \<or> bmp_bit b j"
    and "bmp_bit (b[i div 32 := b ! (i div 32) AND NOT (push_bit (i mod 32) 1)]) j \<longleftrightarrow>
      j \<noteq> i \<and> bmp_bit b j"
proof -
  have dm: "j = i \<longleftrightarrow> j div 32 = i div 32 \<and> j mod 32 = i mod 32"
    by (metis div_mult_mod_eq)
  have "i div 32 < length b" using assms by simp
  then show "bmp_bit (b[i div 32 := b ! (i div 32) OR push_bit (i mod 32) 1]) j \<longleftrightarrow> j = i \<or> bmp_bit b j"
    "bmp_bit (b[i div 32 := b ! (i div 32) AND NOT (push_bit (i mod 32) 1)]) j \<longleftrightarrow> j \<noteq> i \<and> bmp_bit b j"
    by (auto simp: bmp_bit_def dm nth_list_update bit_simps)
qed

lemma bmp_word_0:
  assumes "\<And>j. j div 32 = i \<Longrightarrow> \<not> bmp_bit b j"
  shows "b ! i = 0"
proof (rule bit_word_eqI)
  fix n assume "n < LENGTH(32)"
  then show "bit (b ! i) n \<longleftrightarrow> bit (0 :: u32) n"
    using assms [of "32 * i + n"] by (simp add: bmp_bit_def)
qed

lemma first_find_none:
  assumes "length b = 8" and "\<And>j. j < 256 \<Longrightarrow> \<not> bmp_bit b j"
  shows "qHeadFirstFind_loop b i = Some ERROR"
  using assms
proof (induction b i rule: qHeadFirstFind_loop.induct)
  case (1 b i)
  show ?case
  proof (cases "i < 8")
    case True
    have "b ! i = 0" by (rule bmp_word_0) (use 1(3) True in auto)
    then show ?thesis using 1 True by (simp add: qHeadFirstFind_loop.simps [of b i] ffsLsb_0)
  qed (simp add: qHeadFirstFind_loop.simps [of b i])
qed

lemma first_find_some:
  assumes "length b = 8" and "j < 256" and "bmp_bit b j"
    and "\<And>j'. j' < j \<Longrightarrow> \<not> bmp_bit b j'" and "i \<le> j div 32"
  shows "qHeadFirstFind_loop b i = Some (int j)"
  using assms
proof (induction b i rule: qHeadFirstFind_loop.induct)
  case (1 b i)
  have i: "i < 8" using 1(3,6) by simp
  show ?case
  proof (cases "i = j div 32")
    case True
    have "ffsLsb (b ! i) = Suc (j mod 32)"
    proof (rule ffsLsb_lowest)
      show "bit (b ! i) (j mod 32)" using 1(4) True by (simp add: bmp_bit_def)
      fix l assume l: "l < j mod 32"
      have "32 * i + l < j" using l div_mult_mod_eq [of j 32] True by linarith
      moreover have "(32 * i + l) div 32 = i" "(32 * i + l) mod 32 = l" using l by simp_all
      ultimately show "\<not> bit (b ! i) l" using 1(5) [of "32 * i + l"] by (simp add: bmp_bit_def)
    qed
    moreover have "int i * 32 + int (j mod 32) = int j"
      unfolding True by (metis div_mult_mod_eq of_nat_add of_nat_mult of_nat_numeral)
    ultimately show ?thesis using i 1(2) by (simp add: qHeadFirstFind_loop.simps [of b i])
  next
    case False
    then have lt: "i < j div 32" using 1(6) by simp
    have "b ! i = 0" by (rule bmp_word_0) (use 1(5) lt in \<open>metis div_le_mono not_le\<close>)
    then show ?thesis using 1 i lt by (simp add: qHeadFirstFind_loop.simps [of b i] ffsLsb_0)
  qed
qed

lemma qHeadFirstFind_rep:
  assumes "length (bmp (qbmps m h)) = 8" and "pq_sorted q"
    and "\<forall>e\<in>set q. unat (fst e) < 256"
    and "\<forall>i<256. bmp_bit (bmp (qbmps m h)) i \<longleftrightarrow> level q i \<noteq> []"
  shows "qHeadFirstFind h m = Some (case q of [] \<Rightarrow> ERROR | e # _ \<Rightarrow> int (unat (fst e)))"
proof (cases q)
  case Nil
  then show ?thesis using assms first_find_none [of "bmp (qbmps m h)" 0] by (simp add: qHeadFirstFind_def)
next
  case (Cons e q')
  have "unat (fst e) < 256" using assms(3) Cons by simp
  moreover from this have "bmp_bit (bmp (qbmps m h)) (unat (fst e))"
    using assms(4) by (simp add: Cons level_Cons)
  moreover have "\<not> bmp_bit (bmp (qbmps m h)) j" if "j < unat (fst e)" for j
    using level_below [of e q' j] that assms(2,4) \<open>unat (fst e) < 256\<close> Cons by simp
  ultimately show ?thesis using first_find_some [of "bmp (qbmps m h)" "unat (fst e)" 0] assms(1) Cons
    by (simp add: qHeadFirstFind_def)
qed


subsection \<open>The store after the writes\<close>

lemma set_first_reads [heap_simps]:
  "qbmps (set_first h v m) h' = (if h' = h then (qbmps m h)\<lparr>pFirst := v\<rparr> else qbmps m h')"
  "dnodes (set_first h v m) = dnodes m" "dlists (set_first h v m) = dlists m"
  "qkeys (set_first h v m) = qkeys m"
  by (simp_all add: set_first_def)

lemma dll_ops_bmps [heap_simps]:
  "qbmps (snd (dllAdd l n m)) = qbmps m"
  "qbmps (snd (dllRemove l n m)) = qbmps m"
  "qbmps (snd (dllGet l m)) = qbmps m"
  "qbmps (snd (dllInit l m)) = qbmps m"
  "qbmps (set_key n k m) = qbmps m"
  by (simp_all add: dllAdd_def dllRemove_def dllGet_def dllInit_def store_defs Let_def set_key_def)

lemma dll_rep_first [heap_simps]: "dll_rep (set_first h v m) l xs = dll_rep m l xs"
  by (rule dll_rep_frame) (simp_all add: heap_simps)

text \<open>
  The part of \<open>qbmp_rep\<close> that does not speak of \<open>pFirst\<close>: what holds while an operation is under way.
\<close>

definition qbmp_core :: "'a bmem_scheme \<Rightarrow> ptr \<Rightarrow> (u32 \<times> ptr) list \<Rightarrow> bool" where
  "qbmp_core m h q \<longleftrightarrow>
     length (bmp (qbmps m h)) = 8 \<and> length (heads (qbmps m h)) = 256 \<and> distinct (heads (qbmps m h)) \<and>
     pq_sorted q \<and> distinct (map snd q) \<and> NULL \<notin> pq_nodes q \<and>
     (\<forall>e\<in>set q. unat (fst e) < 256 \<and> qkeys m (snd e) = fst e) \<and>
     (\<forall>i<256. dll_rep m (heads (qbmps m h) ! i) (level q i) \<and>
        (bmp_bit (bmp (qbmps m h)) i \<longleftrightarrow> level q i \<noteq> []))"

lemma qbmp_rep_core:
  "qbmp_rep m h q \<longleftrightarrow> qbmp_core m h q \<and> pFirst (qbmps m h) = (if q = [] then NULL else snd (hd q))"
  by (auto simp: qbmp_rep_def qbmp_core_def)

lemma qbmp_core_set_first: "qbmp_core (set_first h v m) h q = qbmp_core m h q"
  by (simp add: qbmp_core_def heap_simps)

lemma first_from_rep:
  assumes "qbmp_core m h (e # q)"
  shows "\<exists>m'. first_from h (int (unat (fst e))) m = Some m' \<and> qbmp_rep m' h (e # q)"
proof -
  have e: "unat (fst e) < 256" and len: "length (heads (qbmps m h)) = 256"
    using assms by (simp_all add: qbmp_core_def)
  have "dll_rep m (heads (qbmps m h) ! unat (fst e)) (level (e # q) (unat (fst e)))"
    using assms e unfolding qbmp_core_def by blast
  then have "dll_rep m (heads (qbmps m h) ! unat (fst e)) (snd e # level q (unat (fst e)))"
    by (simp add: level_Cons)
  then have "DLL_HEAD m (heads (qbmps m h) ! unat (fst e)) = snd e"
    by (simp add: dll_rep_def heap_simps)
  then show ?thesis using assms uint_less_256 [OF e] len
    by (simp add: first_from_def list_at_def qbmp_rep_core qbmp_core_set_first heap_simps)
qed

lemma core_find:
  "qbmp_core m h q \<Longrightarrow>
   qHeadFirstFind h m = Some (case q of [] \<Rightarrow> ERROR | e # _ \<Rightarrow> int (unat (fst e)))"
  by (rule qHeadFirstFind_rep) (simp_all add: qbmp_core_def)

lemma update_first_rep:
  assumes "qbmp_core m h q"
  shows "\<exists>m'. update_first h m = Some m' \<and> qbmp_rep m' h q"
proof (cases q)
  case Nil
  then show ?thesis using assms core_find [of "set_first h NULL m" h q]
    by (simp add: update_first_def qbmp_rep_core qbmp_core_set_first heap_simps)
next
  case (Cons e q')
  have "0 \<le> uint (fst e)" by simp
  then have "uint (fst e) \<noteq> ERROR" by linarith
  then show ?thesis using assms core_find [of "set_first h NULL m" h q]
      first_from_rep [of "set_first h NULL m" h e q'] Cons
    by (simp add: update_first_def qbmp_core_set_first Let_def)
qed

subsection \<open>Put, get and remove\<close>

lemma qPriBmpPut_rep:
  assumes rep: "qbmp_rep m h q" and n: "n \<noteq> NULL" "n \<notin> pq_nodes q" and k: "k < 256"
  shows "\<exists>m'. qPriBmpPut h n k m = Some m' \<and> qbmp_rep m' h (pq_put k n q)"
proof -
  have core: "qbmp_core m h q" using rep by (simp add: qbmp_rep_core)
  define i where "i = unat k"
  have i: "i < 256" using k by (simp add: i_def word_less_nat_alt)
  define b where "b = bmp (qbmps m h)"
  define hs where "hs = heads (qbmps m h)"
  have len: "length b = 8" "length hs = 256" "distinct hs"
    using core by (simp_all add: qbmp_core_def b_def hs_def)
  define b' where "b' = b[i div 32 := b ! (i div 32) OR push_bit (i mod 32) 1]"
  define m1 where "m1 = m\<lparr>qbmps := (qbmps m)(h := (qbmps m h)\<lparr>bmp := b'\<rparr>)\<rparr>"
  have s1: "set_bmp h (i div 32) (b ! (i div 32) OR push_bit (i mod 32) 1) m = Some m1"
    using i len by (simp add: set_bmp_def m1_def b_def b'_def)
  have fr1: "dll_rep m1 l xs = dll_rep m l xs" for l xs
    by (rule dll_rep_frame) (simp_all add: m1_def)
  define m2 where "m2 = set_key n k (snd (dllAdd (hs ! i) n m1))"
  have dl: "dll_rep m2 (hs ! j) (level (pq_put k n q) j)" if j: "j < 256" for j
  proof -
    have old: "dll_rep m1 (hs ! j) (level q j)" "dll_rep m1 (hs ! i) (level q i)"
      using core j i by (simp_all add: qbmp_core_def hs_def fr1)
    have fresh: "n \<notin> set (level q j)" "n \<notin> set (level q i)"
      using n(2) by (auto simp: set_level pq_nodes_def)
    have sorted: "pq_sorted q" "distinct (map snd q)" using core by (simp_all add: qbmp_core_def)
    show ?thesis
    proof (cases "j = i")
      case True
      then show ?thesis using dll.add_law [OF old(2) n(1) fresh(2)] sorted
        by (simp add: m2_def level_put i_def dll_rep_set_key)
    next
      case False
      then have "hs ! j \<noteq> hs ! i" using len i j by (simp add: nth_eq_iff_index_eq)
      then show ?thesis
        using dllAdd_frame [OF old(2,1) _ level_disjoint fresh(1)] sorted False
        by (simp add: m2_def level_put i_def dll_rep_set_key)
    qed
  qed
  have q2: "qbmps m2 h = \<lparr>pFirst = pFirst (qbmps m h), bmp = b', heads = hs\<rparr>"
    by (simp add: m2_def heap_simps m1_def hs_def)
  have bits: "bmp_bit b' j \<longleftrightarrow> level (pq_put k n q) j \<noteq> []" if "j < 256" for j
    using core that bmp_bit_upd(1) [OF i that len(1)]
    by (auto simp: qbmp_core_def b'_def b_def level_put i_def)
  have keys: "qkeys m2 = (qkeys m)(n := k)"
    by (simp add: m2_def m1_def fun_eq_iff heap_simps)
  have core2: "qbmp_core m2 h (pq_put k n q)"
    unfolding qbmp_core_def
  proof (intro conjI allI impI ballI)
    show "length (bmp (qbmps m2 h)) = 8" "length (heads (qbmps m2 h)) = 256"
      "distinct (heads (qbmps m2 h))" using len by (simp_all add: q2 b'_def)
    show "pq_sorted (pq_put k n q)" "distinct (map snd (pq_put k n q))" "NULL \<notin> pq_nodes (pq_put k n q)"
      using core n by (simp_all add: qbmp_core_def pq_sorted_put pq_distinct_put)
    fix e assume "e \<in> set (pq_put k n q)"
    then show "unat (fst e) < 256" "qkeys m2 (snd e) = fst e"
      using core n(2) i by (auto simp: qbmp_core_def keys i_def pq_nodes_def image_iff)
  qed (simp_all add: q2 dl bits)
  obtain e q' where pq: "pq_put k n q = e # q'" by (meson pq_put_not_Nil neq_Nil_conv)
  obtain m3 where m3: "first_from h (int (unat (fst e))) m2 = Some m3" "qbmp_rep m3 h (pq_put k n q)"
    using first_from_rep [of m2 h e q'] core2 pq by auto
  have "list_at h (int (unat k)) m1 = Some (hs ! i)"
    using uint_less_256 [of k] i len by (simp add: list_at_def m1_def hs_def i_def)
  then have "qPriBmpPut h n k m = Some m3"
    using s1 m3(1) core_find [OF core2] pq
    by (simp add: qPriBmpPut_def Let_def key_split i_def [symmetric] b_def [symmetric] m2_def [symmetric])
  then show ?thesis using m3(2) by blast
qed


text \<open>Unlinking a node from the list of its level, and clearing its bit, keeps the rest.\<close>

lemma clear_if_empty_core:
  assumes core: "qbmp_core m h q" and e: "(k, n) \<in> set q"
    and links: "\<And>j. j < 256 \<Longrightarrow> dll_rep m1 (heads (qbmps m h) ! j) (level (pq_remove n q) j)"
    and same: "bmp (qbmps m1 h) = bmp (qbmps m h)" "heads (qbmps m1 h) = heads (qbmps m h)"
      "qkeys m1 = qkeys m"
  shows "\<exists>m2. clear_if_empty h k (heads (qbmps m h) ! unat k) m1 = Some m2 \<and>
    qbmp_core m2 h (pq_remove n q) \<and> pFirst (qbmps m2 h) = pFirst (qbmps m1 h)"
proof -
  define i where "i = unat k"
  define b where "b = bmp (qbmps m h)"
  have i: "i < 256" using core e by (force simp: qbmp_core_def i_def)
  have len: "length b = 8" using core by (simp add: qbmp_core_def b_def)
  define empty where "empty = (level (pq_remove n q) i = [])"
  define b' where "b' = (if empty then b[i div 32 := b ! (i div 32) AND NOT (push_bit (i mod 32) 1)] else b)"
  define m2 where "m2 = m1\<lparr>qbmps := (qbmps m1)(h := (qbmps m1 h)\<lparr>bmp := b'\<rparr>)\<rparr>"
  have q2: "qbmps m2 h = (qbmps m1 h)\<lparr>bmp := b'\<rparr>" by (simp add: m2_def)
  have fr: "dll_rep m2 l xs = dll_rep m1 l xs" for l xs
    by (rule dll_rep_frame) (simp_all add: m2_def)
  have "DLL_EMPTY m1 (heads (qbmps m h) ! i) = empty"
    using dll_rep_empty [OF links [OF i]] by (simp add: empty_def)
  then have run: "clear_if_empty h k (heads (qbmps m h) ! unat k) m1 = Some m2"
  proof (cases empty)
    case False
    then have "m2 = m1" by (simp add: m2_def b'_def b_def same [symmetric])
    then show ?thesis using False \<open>DLL_EMPTY m1 (heads (qbmps m h) ! i) = empty\<close>
      by (simp add: clear_if_empty_def i_def)
  next
    case True
    then show ?thesis using \<open>DLL_EMPTY m1 (heads (qbmps m h) ! i) = empty\<close> i len
      by (simp add: clear_if_empty_def set_bmp_def key_split i_def [symmetric] Let_def m2_def b'_def
          b_def [symmetric] same)
  qed
  have same_level: "level (pq_remove n q) j = level q j" if "j \<noteq> i" for j
  proof -
    have "distinct (map snd q)" using core by (simp add: qbmp_core_def)
    then have "set (level q j) \<inter> set (level q i) = {}" using that by (rule level_disjoint)
    moreover have "n \<in> set (level q i)" using e by (force simp: set_level i_def)
    ultimately have "n \<notin> set (level q j)" by blast
    then show ?thesis by (auto simp: level_remove filter_id_conv)
  qed
  have bits: "bmp_bit b' j \<longleftrightarrow> level (pq_remove n q) j \<noteq> []" if "j < 256" for j
  proof -
    have old: "bmp_bit b j \<longleftrightarrow> level q j \<noteq> []" using core that by (simp add: qbmp_core_def b_def)
    have "level q i \<noteq> []" using e by (force simp: level_def filter_empty_conv i_def)
    have upd: "bmp_bit b' j \<longleftrightarrow> bmp_bit b j \<and> (empty \<longrightarrow> j \<noteq> i)"
      using bmp_bit_upd(2) [OF i that len] unfolding b'_def by (cases empty) auto
    show ?thesis
    proof (cases "j = i")
      case True
      then show ?thesis using upd old \<open>level q i \<noteq> []\<close> by (simp add: empty_def)
    qed (use upd old same_level [of j] in simp)
  qed
  have "qbmp_core m2 h (pq_remove n q)"
    unfolding qbmp_core_def
  proof (intro conjI allI impI ballI)
    show "length (bmp (qbmps m2 h)) = 8" "length (heads (qbmps m2 h)) = 256"
      "distinct (heads (qbmps m2 h))"
      using core len by (simp_all add: q2 b'_def same qbmp_core_def)
    show "pq_sorted (pq_remove n q)" "distinct (map snd (pq_remove n q))" "NULL \<notin> pq_nodes (pq_remove n q)"
      using core by (simp_all add: qbmp_core_def pq_sorted_remove pq_distinct_remove)
    fix e assume "e \<in> set (pq_remove n q)"
    then show "unat (fst e) < 256" "qkeys m2 (snd e) = fst e"
      using core by (auto simp: qbmp_core_def m2_def same pq_remove_def)
  qed (simp_all add: q2 fr links bits same)
  then show ?thesis using run by (auto simp: q2)
qed

lemma unlink_levels:
  assumes core: "qbmp_core m h q" and e: "(k, n) \<in> set q" and j: "j < 256"
  shows "dll_rep (snd (dllRemove (heads (qbmps m h) ! unat k) n m)) (heads (qbmps m h) ! j)
    (level (pq_remove n q) j)"
proof -
  define hs where "hs = heads (qbmps m h)"
  have i: "unat k < 256" using core e by (force simp: qbmp_core_def)
  have n: "n \<in> set (level q (unat k))" using e by (force simp: set_level)
  then obtain as bs where sp: "level q (unat k) = as @ n # bs" by (meson split_list)
  have old: "dll_rep m (hs ! j) (level q j)" "dll_rep m (hs ! unat k) (as @ n # bs)"
    using core i j sp [symmetric] by (simp_all add: qbmp_core_def hs_def)
  have d: "distinct (map snd q)" using core by (simp add: qbmp_core_def)
  show ?thesis
  proof (cases "j = unat k")
    case True
    have "distinct (as @ n # bs)" using distinct_level [OF d, of "unat k"] sp by simp
    then have "filter (\<lambda>x. x \<noteq> n) as = as" "filter (\<lambda>x. x \<noteq> n) bs = bs"
      by (auto simp: filter_id_conv)
    then have "level (pq_remove n q) j = as @ bs" by (simp add: True level_remove sp)
    then show ?thesis using dll.remove_law [OF old(2)] True by (simp add: hs_def)
  next
    case False
    then have "n \<notin> set (level q j)" using level_disjoint [OF d False] n by blast
    then have same: "level (pq_remove n q) j = level q j" by (auto simp: level_remove filter_id_conv)
    have "hs ! j \<noteq> hs ! unat k"
      using False i j core by (simp add: qbmp_core_def hs_def nth_eq_iff_index_eq)
    then show ?thesis
      using dllRemove_frame [OF old(2,1)] level_disjoint [OF d False] sp same
      by (simp add: hs_def Int_commute)
  qed
qed

lemma level_list_at:
  assumes "qbmp_core m h q" and "(k, n) \<in> set q"
  shows "list_at h (uint k) m = Some (heads (qbmps m h) ! unat k)" and "qkeys m n = k"
    and "n \<noteq> NULL"
  using assms uint_less_256 [of k] by (force simp: list_at_def qbmp_core_def pq_nodes_def)+

lemma qPriBmpRemove_rep:
  assumes rep: "qbmp_rep m h q" and n: "n \<in> pq_nodes q"
  shows "\<exists>m'. qPriBmpRemove h n m = Some (OK, m') \<and> qbmp_rep m' h (pq_remove n q)"
proof -
  have core: "qbmp_core m h q" using rep by (simp add: qbmp_rep_core)
  obtain k where e: "(k, n) \<in> set q" using n by (auto simp: pq_nodes_def)
  let ?m1 = "snd (dllRemove (heads (qbmps m h) ! unat k) n m)"
  obtain m2 where m2: "clear_if_empty h k (heads (qbmps m h) ! unat k) ?m1 = Some m2"
      "qbmp_core m2 h (pq_remove n q)" "pFirst (qbmps m2 h) = pFirst (qbmps m h)"
    using clear_if_empty_core [OF core e, of ?m1] unlink_levels [OF core e] by (auto simp: heap_simps)
  note at = level_list_at [OF core e]
  show ?thesis
  proof (cases "n = pFirst (qbmps m h)")
    case True
    then show ?thesis using update_first_rep [OF m2(2)] m2(1,3) at
      by (auto simp: qPriBmpRemove_def Let_def)
  next
    case False
    have "qbmp_rep m2 h (pq_remove n q)"
      using m2(2,3) rep False n by (cases q) (auto simp: qbmp_rep_core pq_remove_def split: if_splits)
    then show ?thesis using m2(1,3) at False by (simp add: qPriBmpRemove_def Let_def)
  qed
qed

lemma qPriBmpGet_rep:
  assumes rep: "qbmp_rep m h ((k, n) # q)"
  shows "\<exists>m'. qPriBmpGet h m = Some (n, m') \<and> qbmp_rep m' h q"
proof -
  have core: "qbmp_core m h ((k, n) # q)" and first: "pFirst (qbmps m h) = n"
    using rep by (simp_all add: qbmp_rep_core)
  have e: "(k, n) \<in> set ((k, n) # q)" by simp
  define l where "l = heads (qbmps m h) ! unat k"
  have rem: "pq_remove n ((k, n) # q) = q"
    using core pq_remove_split [of "[]" k n q] by (simp add: qbmp_core_def)
  have i: "unat k < 256" using core by (simp add: qbmp_core_def)
  have "dll_rep m l (level ((k, n) # q) (unat k))"
    using core i unfolding qbmp_core_def l_def by blast
  then have get: "snd (dllGet l m) = snd (dllRemove l n m)"
    using dllGet_eq_remove [of m l n "level q (unat k)"] by (simp add: level_Cons)
  obtain m2 where m2: "clear_if_empty h k l (set_first h NULL (snd (dllRemove l n m))) = Some m2"
      "qbmp_core m2 h q"
    using clear_if_empty_core [OF core e, of "set_first h NULL (snd (dllRemove l n m))"]
      unlink_levels [OF core e] by (auto simp: heap_simps l_def rem)
  note at = level_list_at [OF core e]
  show ?thesis using update_first_rep [OF m2(2)] m2(1) at first
    by (auto simp: qPriBmpGet_def Let_def get l_def [symmetric])
qed

interpretation qpribmp: prio_class qbmp_rep "\<lambda>k. k < 256" qPriBmpPut qPriBmpGet
    "\<lambda>h n m. map_option snd (qPriBmpRemove h n m)"
proof unfold_locales
  fix m :: "'a bmem_scheme" and h q n k
  show "qbmp_rep m h q \<Longrightarrow> pq_sorted q \<and> distinct (map snd q) \<and> NULL \<notin> pq_nodes q"
    by (simp add: qbmp_rep_def)
  show "\<exists>m'. qPriBmpPut h n k m = Some m' \<and> qbmp_rep m' h (pq_put k n q)"
    if "qbmp_rep m h q" "n \<noteq> NULL" "n \<notin> pq_nodes q" "k < 256"
    using qPriBmpPut_rep [OF that] .
  show "\<exists>m'. qPriBmpGet h m = Some (n, m') \<and> qbmp_rep m' h q"
    if "qbmp_rep m h ((k, n) # q)" using qPriBmpGet_rep [OF that] .
  show "qPriBmpGet h m = Some (NULL, m)" if "qbmp_rep m h []"
    using that by (simp add: qPriBmpGet_def qbmp_rep_def Let_def)
  show "\<exists>m'. map_option snd (qPriBmpRemove h n m) = Some m' \<and> qbmp_rep m' h (pq_remove n q)"
    if "qbmp_rep m h q" "n \<in> pq_nodes q" using qPriBmpRemove_rep [OF that] by auto
qed

lemma qPriBmpMove_rep:
  assumes "qbmp_rep m h q" and "n \<in> pq_nodes q" and "k < 256"
  shows "\<exists>m'. qPriBmpMove h n k m = Some m' \<and> qbmp_rep m' h (pq_put k n (pq_remove n q))"
proof -
  have "n \<noteq> NULL" using assms(1,2) by (metis qbmp_rep_def)
  then show ?thesis using qPriBmpRemove_rep [OF assms(1,2)] qPriBmpPut_rep [of _ h "pq_remove n q" n k] assms(3)
    by (fastforce simp: qPriBmpMove_def)
qed


subsection \<open>Initialisation\<close>

lemma init_lists:
  fixes m :: "'a bmem_scheme"
  assumes "\<forall>i<n. pList ! i \<noteq> NULL"
    and m'_def: "m' = fold (\<lambda>i m. snd (dllInit (pList ! i) m)) [0..<n] m"
  shows "\<forall>i<n. dll_rep m' (pList ! i) []" and "dnodes m' = dnodes m"
    and "qkeys m' = qkeys m" and "qbmps m' = qbmps m"
proof -
  have "(\<forall>i<n. dlists m' (pList ! i) = \<lparr>dl_head = NULL, dl_tail = NULL\<rparr>) \<and>
      dnodes m' = dnodes m \<and> qkeys m' = qkeys m \<and> qbmps m' = qbmps m"
    using assms(1) unfolding m'_def
  proof (induction n)
    case (Suc n)
    then show ?case by (auto simp: less_Suc_eq dllInit_def heap_simps store_defs)
  qed simp
  then show "\<forall>i<n. dll_rep m' (pList ! i) []" "dnodes m' = dnodes m"
    "qkeys m' = qkeys m" "qbmps m' = qbmps m"
    using assms(1) by (auto simp: dll_rep_def)
qed

lemma qPriBmpInit_rep:
  assumes "length pList = 256" "distinct pList" "NULL \<notin> set pList" "length pBmp = 8"
  shows "\<exists>m'. qPriBmpInit h 256 pList pBmp m = Some (OK, m') \<and> qbmp_rep m' h []"
proof -
  define m1 where "m1 = fold (\<lambda>i m. snd (dllInit (pList ! i) m)) [0..<256] m"
  let ?m = "m1\<lparr>qbmps := (qbmps m1)(h := \<lparr>pFirst = NULL, bmp = replicate 8 0, heads = pList\<rparr>)\<rparr>"
  have nn: "\<forall>i<256. pList ! i \<noteq> NULL" using assms(1,3) nth_mem by metis
  have "qPriBmpInit h 256 pList pBmp m = Some (OK, ?m)"
    using assms by (simp add: qPriBmpInit_def Let_def m1_def)
  moreover have "dll_rep ?m (pList ! i) []" if "i < 256" for i
    using init_lists(1) [OF nn m1_def] that by (simp add: dll_rep_def)
  moreover have "\<not> bmp_bit (replicate 8 0) i" if "i < 256" for i using that by (simp add: bmp_bit_def)
  ultimately show ?thesis using assms by (simp add: qbmp_rep_def)
qed

lemma qPriBmpCreate_rep:
  assumes "size' \<in> {225..256}" and "h \<noteq> NULL"
    and "length pList = 256" "distinct pList" "NULL \<notin> set pList" "length pBmp = 8"
  shows "\<exists>m'. qPriBmpCreate h size' pList pBmp m = Some (h, m') \<and> qbmp_rep m' h []"
proof -
  have "(size' + 31) AND NOT 0x1f = 256"
  proof -
    obtain k where k: "size' = word_of_nat k" "225 \<le> k" "k \<le> 256"
      using assms(1) by (intro that [of "unat size'"]) (auto simp: word_le_nat_alt)
    have "\<forall>k \<in> set [225..<257]. (word_of_nat k + 31 :: u32) AND NOT 0x1f = 256" by code_simp
    moreover have "k \<in> set [225..<257]" unfolding set_upt using k(2,3) by simp
    ultimately show ?thesis unfolding k(1) by blast
  qed
  moreover obtain m' where "qPriBmpInit h 256 pList pBmp m = Some (OK, m')" "qbmp_rep m' h []"
    using qPriBmpInit_rep [OF assms(3-6)] by blast
  ultimately show ?thesis using assms(2) by (simp add: qPriBmpCreate_def)
qed

lemma qPriBmpInit_size:
  assumes "size' AND 0x1f \<noteq> 0 \<or> size' = 0"
  shows "qPriBmpInit h size' pList pBmp m = Some (ERROR, m)"
  using assms by (simp add: qPriBmpInit_def)

end
