(* ===== verification/QLib.thy ===== *)
theory QLib
  imports QPriBmpLib
begin

text \<open>
  The queue front end: \<open>src/util/qLib.c\<close>. A queue head names its class and every call goes through the
  method table of the class (\<open>Q_CLASS\<close>, one constructor of \<open>q_class\<close> for each of the three tables).
  A method that a table fills with its null function returns nothing the caller may use; where the
  caller uses the result all the same, the value is \<open>None\<close>. Whatever sorted class a head has, the
  front end meets the contract \<open>prio_class\<close>.
\<close>

datatype q_class = QFifoClass | QPrioClass | QPriBmpClass

record clmem = bmem +
  pQClass :: "ptr \<Rightarrow> q_class option"

definition set_class :: "ptr \<Rightarrow> q_class option \<Rightarrow> 'a clmem_scheme \<Rightarrow> 'a clmem_scheme" where
  "set_class h c m = m\<lparr>pQClass := (pQClass m)(h := c)\<rparr>"

text \<open>The arguments after the class: size, list heads and bitmap memory, for the bitmap class.\<close>

definition qInit ::
  "ptr \<Rightarrow> q_class \<Rightarrow> u32 \<Rightarrow> ptr list \<Rightarrow> u32 list \<Rightarrow> 'a clmem_scheme
    \<Rightarrow> (STATUS \<times> 'a clmem_scheme) option" where
  "qInit pQHead cls size' pList pBmp m =
     (let m1 = set_class pQHead (Some cls) m
      in case (case cls of
                 QFifoClass \<Rightarrow> Some (qFifoInit pQHead m1)
               | QPrioClass \<Rightarrow> Some (qPrioInit pQHead m1)
               | QPriBmpClass \<Rightarrow> qPriBmpInit pQHead size' pList pBmp m1) of
           None \<Rightarrow> None
         | Some (st, m2) \<Rightarrow> Some (if st \<noteq> OK then ERROR else OK, m2))"

definition qCreate ::
  "ptr \<Rightarrow> q_class \<Rightarrow> u32 \<Rightarrow> ptr list \<Rightarrow> u32 list \<Rightarrow> 'a clmem_scheme
    \<Rightarrow> (ptr \<times> 'a clmem_scheme) option" where
  "qCreate malloc cls size' pList pBmp m =
     (if malloc \<noteq> NULL
      then (case qInit malloc cls size' pList pBmp m of
              None \<Rightarrow> None
            | Some (st, m1) \<Rightarrow> Some (if st \<noteq> OK then NULL else malloc, m1))
      else Some (NULL, m))"

definition qTerminate :: "ptr \<Rightarrow> 'a clmem_scheme \<Rightarrow> (STATUS \<times> 'a clmem_scheme) option" where
  "qTerminate pQHead m =
     (case (case pQClass m pQHead of
              None \<Rightarrow> None
            | Some QFifoClass \<Rightarrow> None
            | Some QPrioClass \<Rightarrow> Some (qPrioTerminate pQHead m)
            | Some QPriBmpClass \<Rightarrow> Some (qPriBmpTerminate pQHead m)) of
        None \<Rightarrow> None
      | Some (st, m1) \<Rightarrow> if st \<noteq> OK then Some (ERROR, m1) else Some (OK, set_class pQHead None m1))"

definition qDestroy :: "ptr \<Rightarrow> 'a clmem_scheme \<Rightarrow> (STATUS \<times> 'a clmem_scheme) option" where
  "qDestroy pQHead m =
     (case qTerminate pQHead m of
        None \<Rightarrow> None
      | Some (st, m1) \<Rightarrow> if st \<noteq> OK then Some (ERROR, m1) else Some (OK, set_class pQHead None m1))"

text \<open>\<open>Q_FIRST\<close> reads the first word of the head, which the three heads overlay.\<close>

definition qFirst :: "ptr \<Rightarrow> 'a clmem_scheme \<Rightarrow> ptr option" where
  "qFirst pQHead m =
     (case pQClass m pQHead of
        None \<Rightarrow> None
      | Some QPriBmpClass \<Rightarrow> Some (pFirst (qbmps m pQHead))
      | Some _ \<Rightarrow> Some (DLL_HEAD m pQHead))"

definition qPut :: "ptr \<Rightarrow> ptr \<Rightarrow> u32 \<Rightarrow> 'a clmem_scheme \<Rightarrow> 'a clmem_scheme option" where
  "qPut pQHead pQNode key m =
     (case pQClass m pQHead of
        None \<Rightarrow> None
      | Some QFifoClass \<Rightarrow> Some (qFifoPut pQHead pQNode key m)
      | Some QPrioClass \<Rightarrow> qPrioPut pQHead pQNode key m
      | Some QPriBmpClass \<Rightarrow> qPriBmpPut pQHead pQNode key m)"

definition qGet :: "ptr \<Rightarrow> 'a clmem_scheme \<Rightarrow> (ptr \<times> 'a clmem_scheme) option" where
  "qGet pQHead m =
     (case pQClass m pQHead of
        None \<Rightarrow> None
      | Some QFifoClass \<Rightarrow> Some (qFifoGet pQHead m)
      | Some QPrioClass \<Rightarrow> Some (qPrioGet pQHead m)
      | Some QPriBmpClass \<Rightarrow> qPriBmpGet pQHead m)"

definition qRemove :: "ptr \<Rightarrow> ptr \<Rightarrow> 'a clmem_scheme \<Rightarrow> (STATUS \<times> 'a clmem_scheme) option" where
  "qRemove pQHead pQNode m =
     (case pQClass m pQHead of
        None \<Rightarrow> None
      | Some QFifoClass \<Rightarrow> Some (qFifoRemove pQHead pQNode m)
      | Some QPrioClass \<Rightarrow> Some (qPrioRemove pQHead pQNode m)
      | Some QPriBmpClass \<Rightarrow> qPriBmpRemove pQHead pQNode m)"

definition qMove :: "ptr \<Rightarrow> ptr \<Rightarrow> u32 \<Rightarrow> 'a clmem_scheme \<Rightarrow> 'a clmem_scheme option" where
  "qMove pQHead pQNode newKey m =
     (case pQClass m pQHead of
        None \<Rightarrow> None
      | Some QFifoClass \<Rightarrow> Some m
      | Some QPrioClass \<Rightarrow> qPrioMove pQHead pQNode newKey m
      | Some QPriBmpClass \<Rightarrow> qPriBmpMove pQHead pQNode newKey m)"

definition qExpired :: "u32 \<Rightarrow> ptr \<Rightarrow> 'a clmem_scheme \<Rightarrow> (ptr \<times> 'a clmem_scheme) option" where
  "qExpired ticks pQHead m =
     (case pQClass m pQHead of
        Some QPrioClass \<Rightarrow> Some (qPrioExpired ticks pQHead m)
      | _ \<Rightarrow> None)"

definition qKey :: "u32 \<Rightarrow> ptr \<Rightarrow> ptr \<Rightarrow> int \<Rightarrow> 'a clmem_scheme \<Rightarrow> u32 option" where
  "qKey ticks pQHead pQNode keyType m =
     (case pQClass m pQHead of
        Some QPrioClass \<Rightarrow> Some (qPrioKey ticks pQNode keyType m)
      | _ \<Rightarrow> None)"

definition qOffset :: "ptr \<Rightarrow> u32 \<Rightarrow> 'a clmem_scheme \<Rightarrow> 'a clmem_scheme option" where
  "qOffset pQHead keyDelta m =
     (case pQClass m pQHead of
        None \<Rightarrow> None
      | Some QPrioClass \<Rightarrow> qPrioOffset pQHead keyDelta m
      | Some _ \<Rightarrow> Some m)"

definition qInfo :: "ptr \<Rightarrow> bool \<Rightarrow> int \<Rightarrow> 'a clmem_scheme \<Rightarrow> (int \<times> ptr list) option" where
  "qInfo pQHead have_array maxNodes m =
     (case pQClass m pQHead of
        Some QFifoClass \<Rightarrow> qFifoInfo pQHead have_array maxNodes m
      | Some QPrioClass \<Rightarrow> qPrioInfo pQHead have_array maxNodes m
      | _ \<Rightarrow> None)"

definition qEach ::
  "ptr \<Rightarrow> (ptr \<Rightarrow> 'a clmem_scheme \<Rightarrow> bool \<times> 'a clmem_scheme) \<Rightarrow> 'a clmem_scheme
    \<Rightarrow> (ptr \<times> 'a clmem_scheme) option" where
  "qEach pQHead func m =
     (case pQClass m pQHead of
        Some QFifoClass \<Rightarrow> qFifoEach pQHead func m
      | Some QPrioClass \<Rightarrow> qPrioEach pQHead func m
      | _ \<Rightarrow> None)"

subsection \<open>The contract of the front end\<close>

definition q_rep :: "'a clmem_scheme \<Rightarrow> ptr \<Rightarrow> (u32 \<times> ptr) list \<Rightarrow> bool" where
  "q_rep m h q \<longleftrightarrow>
     (case pQClass m h of
        Some QPrioClass \<Rightarrow> qprio_rep m h q
      | Some QPriBmpClass \<Rightarrow> qbmp_rep m h q
      | _ \<Rightarrow> False)"


lemma dll_ops_class [heap_simps]:
  "pQClass (snd (dllInsert l p n m)) = pQClass m"
  "pQClass (snd (dllAdd l n m)) = pQClass m"
  "pQClass (snd (dllRemove l n m)) = pQClass m"
  "pQClass (snd (dllGet l m)) = pQClass m"
  "pQClass (set_key n k m) = pQClass m"
  "pQClass (set_first h v m) = pQClass m"
  by (simp_all add: dllInsert_def dllAdd_def dllRemove_def dllGet_def store_defs Let_def
      set_key_def set_first_def)

lemma bmp_ops_class:
  "set_bmp h i v m = Some m' \<Longrightarrow> pQClass m' = pQClass m"
  "first_from h j m = Some m' \<Longrightarrow> pQClass m' = pQClass m"
  "clear_if_empty h k l m = Some m' \<Longrightarrow> pQClass m' = pQClass m"
  "update_first h m = Some m' \<Longrightarrow> pQClass m' = pQClass m"
proof -
  show set: "set_bmp h i v m = Some m' \<Longrightarrow> pQClass m' = pQClass m" for i v m m'
    by (auto simp: set_bmp_def split: if_splits)
  show first: "first_from h j m = Some m' \<Longrightarrow> pQClass m' = pQClass m" for j m m'
    by (auto simp: first_from_def heap_simps split: option.splits)
  show "clear_if_empty h k l m = Some m' \<Longrightarrow> pQClass m' = pQClass m"
    by (auto simp: clear_if_empty_def Let_def dest: set split: if_splits)
  show "update_first h m = Some m' \<Longrightarrow> pQClass m' = pQClass m"
    by (auto simp: update_first_def Let_def heap_simps dest!: first split: option.splits if_splits)
qed

lemma qPriBmp_class:
  "qPriBmpPut h n k m = Some m' \<Longrightarrow> pQClass m' = pQClass m"
  "qPriBmpGet h m = Some (n', m') \<Longrightarrow> pQClass m' = pQClass m"
  "qPriBmpRemove h n m = Some (st, m') \<Longrightarrow> pQClass m' = pQClass m"
  by (auto simp: qPriBmpPut_def qPriBmpGet_def qPriBmpRemove_def Let_def heap_simps
      dest!: bmp_ops_class split: option.splits if_splits)

lemma q_rep_iff:
  "q_rep m h q \<longleftrightarrow> pQClass m h = Some QPrioClass \<and> qprio_rep m h q \<or>
     pQClass m h = Some QPriBmpClass \<and> qbmp_rep m h q"
  by (auto simp: q_rep_def split: option.splits q_class.splits)

lemma qPut_rep:
  assumes "q_rep m h q" "n \<noteq> NULL" "n \<notin> pq_nodes q" "k < 256"
  shows "\<exists>m'. qPut h n k m = Some m' \<and> q_rep m' h (pq_put k n q)"
  using assms(1) [unfolded q_rep_iff]
proof (elim disjE conjE)
  assume c: "pQClass m h = Some QPrioClass" and r: "qprio_rep m h q"
  obtain m' p where "qPrioPut h n k m = Some m'" "qprio_rep m' h (pq_put k n q)"
      "m' = snd (dllInsert h p n (set_key n k m))"
    using qPrioPut_rep [OF r assms(2,3)] by metis
  moreover from this(3) have "pQClass m' = pQClass m" by (simp add: heap_simps)
  ultimately show ?thesis using c by (auto simp: q_rep_iff qPut_def)
next
  assume c: "pQClass m h = Some QPriBmpClass" and r: "qbmp_rep m h q"
  then show ?thesis using qPriBmpPut_rep [OF r assms(2-4)] qPriBmp_class(1) [of h n k m]
    by (auto simp: q_rep_iff qPut_def)
qed

lemma qGet_rep:
  assumes "q_rep m h ((k, n) # q)"
  shows "\<exists>m'. qGet h m = Some (n, m') \<and> q_rep m' h q"
  using assms [unfolded q_rep_iff]
proof (elim disjE conjE)
  assume c: "pQClass m h = Some QPrioClass" and r: "qprio_rep m h ((k, n) # q)"
  obtain m' where m': "qPrioGet h m = (n, m')" "qprio_rep m' h q"
    using qPrioGet_rep [OF r] by (metis prod.collapse)
  have "snd (qPrioGet h m) = m \<or> snd (qPrioGet h m) = snd (dllGet h m)" by (simp add: qPrioGet_def)
  then have "pQClass m' = pQClass m" using m'(1) by (auto simp: heap_simps)
  then show ?thesis using m' c by (auto simp: q_rep_iff qGet_def)
next
  assume c: "pQClass m h = Some QPriBmpClass" and r: "qbmp_rep m h ((k, n) # q)"
  then show ?thesis using qPriBmpGet_rep [OF r] qPriBmp_class(2) [of h m n]
    by (auto simp: q_rep_iff qGet_def)
qed

lemma qRemove_rep:
  assumes "q_rep m h q" "n \<in> pq_nodes q"
  shows "\<exists>m'. qRemove h n m = Some (OK, m') \<and> q_rep m' h (pq_remove n q)"
  using assms(1) [unfolded q_rep_iff]
proof (elim disjE conjE)
  assume c: "pQClass m h = Some QPrioClass" and r: "qprio_rep m h q"
  obtain m' where m': "qPrioRemove h n m = (OK, m')" "qprio_rep m' h (pq_remove n q)"
    using qPrioRemove_rep [OF r assms(2)] by (metis prod.collapse)
  then have "m' = snd (dllRemove h n m)" by (simp add: qPrioRemove_def)
  then show ?thesis using m' c by (auto simp: q_rep_iff qRemove_def heap_simps)
next
  assume c: "pQClass m h = Some QPriBmpClass" and r: "qbmp_rep m h q"
  then show ?thesis using qPriBmpRemove_rep [OF r assms(2)] qPriBmp_class(3) [of h n m OK]
    by (auto simp: q_rep_iff qRemove_def)
qed

interpretation qfront: prio_class q_rep "\<lambda>k. k < 256" qPut qGet "\<lambda>h n m. map_option snd (qRemove h n m)"
proof unfold_locales
  fix m :: "'a clmem_scheme" and h q n k
  show "q_rep m h q \<Longrightarrow> pq_sorted q \<and> distinct (map snd q) \<and> NULL \<notin> pq_nodes q"
    using qprio_rep_wf [of m h q] by (auto simp: q_rep_iff qbmp_rep_def)
  show "\<exists>m'. map_option snd (qRemove h n m) = Some m' \<and> q_rep m' h (pq_remove n q)"
    if "q_rep m h q" "n \<in> pq_nodes q" using qRemove_rep [OF that] by auto
  show "qGet h m = Some (NULL, m)" if "q_rep m h []"
    using that qPrioGet_empty [of m h] qpribmp.get_empty_law [of m h]
    by (auto simp: q_rep_iff qGet_def)
qed (rule qPut_rep qGet_rep; assumption)+

lemma qFirst_rep:
  assumes "q_rep m h q"
  shows "qFirst h m = Some (if q = [] then NULL else snd (hd q))"
  using assms by (cases q)
    (auto simp: q_rep_iff qFirst_def qprio_rep_def qbmp_rep_def dll_rep_def heap_simps)

subsection \<open>Properties\<close>

lemma dllInit_class: "pQClass (snd (dllInit l m)) = pQClass m"
  by (simp add: dllInit_def store_defs)

lemma qPriBmpInit_class:
  assumes "qPriBmpInit h size' pList pBmp m = Some (st, m')"
  shows "pQClass m' = pQClass m"
proof -
  have "pQClass (fold (\<lambda>i m. snd (dllInit (pList ! i) m)) ks m) = pQClass m" for ks m
    by (induction ks arbitrary: m) (simp_all add: dllInit_class)
  then show ?thesis using assms
    by (auto simp: qPriBmpInit_def Let_def split: if_splits option.splits prod.splits)
qed

lemma qInit_rep:
  assumes "cls = QPrioClass \<or> cls = QPriBmpClass" and "h \<noteq> NULL"
    and "length pList = 256" "distinct pList" "NULL \<notin> set pList" "length pBmp = 8"
  shows "\<exists>m'. qInit h cls 256 pList pBmp m = Some (OK, m') \<and> q_rep m' h []"
proof (cases "cls = QPrioClass")
  case True
  then show ?thesis using dllInit_rep [of h "set_class h (Some cls) m"] assms(2)
    by (auto simp: qInit_def qPrioInit_def q_rep_iff qprio_rep_def dllInit_class set_class_def case_prod_beta)
next
  case False
  then have cls: "cls = QPriBmpClass" using assms(1) by simp
  obtain m' where m': "qPriBmpInit h 256 pList pBmp (set_class h (Some cls) m) = Some (OK, m')" "qbmp_rep m' h []"
    using qPriBmpInit_rep [OF assms(3-6)] by blast
  from qPriBmpInit_class [OF m'(1)] have "pQClass m' = pQClass (set_class h (Some cls) m)" .
  then show ?thesis using m' cls by (auto simp: qInit_def q_rep_iff set_class_def)
qed

text \<open>C26. The two priority classes implement one queue. After initialising either class, any sequence of puts,
  gets and removes that respects the contract (priorities below 256, a node put only while in no queue,
  removed only while in this one) is defined, returns the nodes that a list sorted by key, first in first
  out among equal keys, returns, and \<open>qFirst\<close> then gives the node the next get would.\<close>

theorem q_classes_refine:
  assumes "cls = QPrioClass \<or> cls = QPriBmpClass" and "h \<noteq> NULL"
    and "length pList = 256 \<and> distinct pList \<and> NULL \<notin> set pList \<and> length pBmp = 8"
    and "pq_run_ok (\<lambda>k. k < 256) cs []"
  shows "\<exists>m1 m2. qInit h cls 256 pList pBmp m = Some (OK, m1) \<and>
    class_run (qPut h) (qGet h) (\<lambda>n m. map_option snd (qRemove h n m)) cs m1 =
      Some (fst (pq_run cs []), m2) \<and>
    qFirst h m2 = Some (case snd (pq_run cs []) of [] \<Rightarrow> NULL | e # _ \<Rightarrow> snd e)"
proof -
  obtain m1 where m1: "qInit h cls 256 pList pBmp m = Some (OK, m1)" "q_rep m1 h []"
    using qInit_rep assms(1-3) by blast
  obtain m2 where m2: "class_run (qPut h) (qGet h) (\<lambda>n m. map_option snd (qRemove h n m)) cs m1 =
      Some (fst (pq_run cs []), m2)" "q_rep m2 h (snd (pq_run cs []))"
    using qfront.run_refines [OF m1(2) assms(4)] by blast
  have "qFirst h m2 = Some (case snd (pq_run cs []) of [] \<Rightarrow> NULL | e # _ \<Rightarrow> snd e)"
    using qFirst_rep [OF m2(2)] by (simp split: list.split)
  then show ?thesis using m1(1) m2(1) by blast
qed

definition any_clmem :: clmem where
  "any_clmem =
     \<lparr>dnodes = (\<lambda>n. \<lparr>dl_prev = 0, dl_next = 0\<rparr>), dlists = (\<lambda>l. \<lparr>dl_head = 0, dl_tail = 0\<rparr>),
      qkeys = (\<lambda>n. 0), qbmps = (\<lambda>h. \<lparr>pFirst = 0, bmp = [], heads = []\<rparr>), pQClass = (\<lambda>h. None)\<rparr>"

lemma list_heads_ok:
  "length [1..<257] = 256 \<and> distinct [1..<257] \<and> NULL \<notin> set [1..<257] \<and> length (replicate 8 (0 :: u32)) = 8"
  by simp

theorem q_classes_refine_witness:
  "\<exists>m1 m2. qInit 300 QPriBmpClass 256 [1..<257] (replicate 8 0) any_clmem = Some (OK, m1) \<and>
    class_run (qPut 300) (qGet 300) (\<lambda>n m. map_option snd (qRemove 300 n m))
      [CPut 9 500, CPut 3 501, CPut 9 502, CRemove 501, CPut 4 501, CGet, CGet] m1 = Some ([501, 500], m2) \<and>
    qFirst 300 m2 = Some 502"
  using q_classes_refine [OF _ _ list_heads_ok, of QPriBmpClass 300
      "[CPut 9 500, CPut 3 501, CPut 9 502, CRemove 501, CPut 4 501, CGet, CGet]" any_clmem]
  by (simp add: pq_remove_def split del: option.split)

text \<open>Filling a queue of either class and emptying it sorts: the nodes come out by ascending key, and in the
  order they were put among equal keys.\<close>

theorem q_fill_drain_sorts:
  assumes "q_rep m h []" and "distinct (map snd es)" and "NULL \<notin> snd ` set es"
    and "\<And>e. e \<in> set es \<Longrightarrow> fst e < 256"
  shows "\<exists>m1 m2. class_fill (qPut h) es m = Some m1 \<and>
    class_drain (qGet h) (length es) m1 = Some (map snd (sort_key fst es), m2) \<and> q_rep m2 h []"
  by (rule qfront.fill_drain_sorts [OF assms])

theorem q_fill_drain_sorts_witness:
  "\<exists>(m :: clmem) m1 m2. class_fill (qPut 300) [(7, 10), (2, 11), (7, 12)] m = Some m1 \<and>
    class_drain (qGet 300) 3 m1 = Some ([11, 10, 12], m2) \<and> q_rep m2 300 []"
proof -
  obtain m :: clmem where m: "q_rep m 300 []"
    using qInit_rep [of QPriBmpClass 300 "[1..<257]" "replicate 8 0" any_clmem] list_heads_ok by auto
  have "e \<in> set [(7, 10), (2, 11), (7, 12 :: nat)] \<Longrightarrow> fst e < (256 :: u32)" for e by auto
  then obtain m1 m2 where "class_fill (qPut 300) [(7, 10), (2, 11), (7, 12)] m = Some m1"
      "class_drain (qGet 300) (length [(7 :: u32, 10 :: nat), (2, 11), (7, 12)]) m1 =
        Some (map snd (sort_key fst [(7 :: u32, 10), (2, 11), (7, 12)]), m2)" "q_rep m2 300 []"
    using q_fill_drain_sorts [OF m, of "[(7, 10), (2, 11), (7, 12)]"] by auto
  moreover have "map snd (sort_key fst [(7 :: u32, 10 :: nat), (2, 11), (7, 12)]) = [11, 10, 12]"
    by (simp add: sort_key_def)
  moreover have "length [(7 :: u32, 10 :: nat), (2, 11), (7, 12)] = 3" by simp
  ultimately show ?thesis by metis
qed

end
