(* ===== verification/Fifo.thy ===== *)
theory Fifo
  imports Prelude
begin

text \<open>
  The contract of a bounded first-in first-out buffer, which the ring buffer \<open>rngLib\<close> and the kernel's
  work queue \<open>workQLib\<close> both promise their clients. A run of puts and gets loses nothing, duplicates
  nothing and keeps the order: what was read so far, followed by what is still stored, is what was
  stored at the start followed by what was accepted.
\<close>

datatype 'a fifo_op = FPut 'a | FGet

text \<open>A refused put and a get from an empty buffer leave the buffer as it is.\<close>

primrec fifo_run ::
  "('a \<Rightarrow> 's \<Rightarrow> 's option) \<Rightarrow> ('s \<Rightarrow> ('a \<times> 's) option) \<Rightarrow> 'a fifo_op list \<Rightarrow> 's
    \<Rightarrow> 'a list \<times> 'a list \<times> 's" where
  "fifo_run put get [] s = ([], [], s)"
| "fifo_run put get (c # cs) s =
     (case c of
        FPut a \<Rightarrow>
          (case put a s of
             None \<Rightarrow> fifo_run put get cs s
           | Some s' \<Rightarrow> (case fifo_run put get cs s' of (ins, outs, t) \<Rightarrow> (a # ins, outs, t)))
      | FGet \<Rightarrow>
          (case get s of
             None \<Rightarrow> fifo_run put get cs s
           | Some (a, s') \<Rightarrow> (case fifo_run put get cs s' of (ins, outs, t) \<Rightarrow> (ins, a # outs, t))))"

primrec fifo_put_all :: "('a \<Rightarrow> 's \<Rightarrow> 's option) \<Rightarrow> 'a list \<Rightarrow> 's \<Rightarrow> 's option" where
  "fifo_put_all put [] s = Some s"
| "fifo_put_all put (a # as) s =
     (case put a s of None \<Rightarrow> None | Some s' \<Rightarrow> fifo_put_all put as s')"

locale bounded_fifo =
  fixes rep :: "'s \<Rightarrow> 'a list \<Rightarrow> bool"
    and capacity :: "'s \<Rightarrow> nat"
    and put :: "'a \<Rightarrow> 's \<Rightarrow> 's option"
    and get :: "'s \<Rightarrow> ('a \<times> 's) option"
  assumes put_law: "rep s xs \<Longrightarrow> length xs < capacity s \<Longrightarrow>
      \<exists>s'. put a s = Some s' \<and> rep s' (xs @ [a]) \<and> capacity s' = capacity s"
    and put_full: "rep s xs \<Longrightarrow> capacity s \<le> length xs \<Longrightarrow> put a s = None"
    and get_law: "rep s (x # xs) \<Longrightarrow> \<exists>s'. get s = Some (x, s') \<and> rep s' xs \<and> capacity s' = capacity s"
    and get_empty: "rep s [] \<Longrightarrow> get s = None"
    and rep_capacity: "rep s xs \<Longrightarrow> length xs \<le> capacity s"
begin

lemma run_order:
  assumes "rep s xs"
  shows "case fifo_run put get cs s of (ins, outs, t) \<Rightarrow>
    \<exists>ys. rep t ys \<and> xs @ ins = outs @ ys \<and> capacity t = capacity s"
  using assms
proof (induction cs arbitrary: s xs)
  case (Cons c cs)
  show ?case
  proof (cases c)
    case (FPut a)
    show ?thesis
    proof (cases "length xs < capacity s")
      case True
      then obtain s' where s': "put a s = Some s'" "rep s' (xs @ [a])" "capacity s' = capacity s"
        using put_law Cons.prems by blast
      then show ?thesis using Cons.IH [OF s'(2)] FPut by (auto split: prod.splits)
    next
      case False
      then show ?thesis using put_full [OF Cons.prems] Cons.IH [OF Cons.prems] FPut by simp
    qed
  next
    case FGet
    show ?thesis
    proof (cases xs)
      case Nil
      then show ?thesis using get_empty Cons.IH [OF Cons.prems] Cons.prems FGet by simp
    next
      case (Cons x xs')
      then obtain s' where s': "get s = Some (x, s')" "rep s' xs'" "capacity s' = capacity s"
        using get_law Cons.prems by blast
      then show ?thesis using Cons.IH [OF s'(2)] Cons FGet by (auto split: prod.splits)
    qed
  qed
qed simp

lemma put_all_rep:
  assumes "rep s xs" and "length xs + length as \<le> capacity s"
  shows "\<exists>s'. fifo_put_all put as s = Some s' \<and> rep s' (xs @ as) \<and> capacity s' = capacity s"
  using assms
proof (induction as arbitrary: s xs)
  case (Cons a as)
  then obtain s' where s': "put a s = Some s'" "rep s' (xs @ [a])" "capacity s' = capacity s"
    using put_law [of s xs a] by auto
  then show ?case using Cons.IH [OF s'(2)] Cons.prems by simp
qed simp

lemma put_all_over:
  assumes "rep s xs" and "capacity s < length xs + length as"
  shows "fifo_put_all put as s = None"
  using assms
proof (induction as arbitrary: s xs)
  case Nil then show ?case using rep_capacity by fastforce
next
  case (Cons a as)
  show ?case
  proof (cases "length xs < capacity s")
    case True
    then obtain s' where s': "put a s = Some s'" "rep s' (xs @ [a])" "capacity s' = capacity s"
      using put_law Cons.prems(1) by blast
    then show ?thesis using Cons.IH [OF s'(2)] Cons.prems by simp
  qed (use put_full [OF Cons.prems(1)] in simp)
qed

end

end
