(* ===== verification/WorkQLib.thy ===== *)
theory WorkQLib
  imports Fifo
begin

text \<open>
  The kernel work queue: \<open>src/vmx/workQLib.c\<close>. Calls made while the kernel is busy, or from an
  interrupt, are stored as jobs in a ring of 256 entries and done when the kernel is left. A job names
  its function and up to two arguments; a slot keeps the arguments of the job it held before. When
  the ring overflows the machine reboots (\<open>workQPanic\<close>), which is the value \<open>None\<close>. The ring meets the
  contract \<open>bounded_fifo\<close> with 255 jobs.
\<close>

definition MAX_WORK_Q_JOBS :: nat where
  "MAX_WORK_Q_JOBS = 256"

type_synonym arg = nat

record 'f WORK_Q_JOB =
  job_func :: 'f
  job_numArgs :: int
  job_arg1 :: arg
  job_arg2 :: arg

record 'f work_q =
  workQIsEmpty :: bool
  workQReadIndex :: u32
  workQWriteIndex :: u32
  workQJobs :: "'f WORK_Q_JOB list"

definition workQLibInit :: "'f work_q \<Rightarrow> STATUS \<times> 'f work_q" where
  "workQLibInit q = (OK, q\<lparr>workQReadIndex := 0, workQWriteIndex := 0, workQIsEmpty := True\<rparr>)"

text \<open>\<open>index++; index &= MAX_WORK_Q_JOBS - 1\<close>\<close>

definition workQAdvance :: "u32 \<Rightarrow> u32" where
  "workQAdvance i = (i + 1) AND word_of_nat (MAX_WORK_Q_JOBS - 1)"

text \<open>What the three add functions share: the place in the ring, then the fields \<open>fill\<close> stores.\<close>

definition workQAdd :: "('f WORK_Q_JOB \<Rightarrow> 'f WORK_Q_JOB) \<Rightarrow> 'f work_q \<Rightarrow> 'f work_q option" where
  "workQAdd fill q =
     (let pJob = unat (workQWriteIndex q);
          q1 = q\<lparr>workQWriteIndex := workQAdvance (workQWriteIndex q)\<rparr>
      in if workQWriteIndex q1 = workQReadIndex q1 then None
         else let q2 = q1\<lparr>workQIsEmpty := False\<rparr>
              in Some (q2\<lparr>workQJobs := (workQJobs q2)[pJob := fill (workQJobs q2 ! pJob)]\<rparr>))"

definition workQAdd0 :: "'f \<Rightarrow> 'f work_q \<Rightarrow> 'f work_q option" where
  "workQAdd0 func = workQAdd (\<lambda>j. j\<lparr>job_func := func, job_numArgs := 0\<rparr>)"

definition workQAdd1 :: "'f \<Rightarrow> arg \<Rightarrow> 'f work_q \<Rightarrow> 'f work_q option" where
  "workQAdd1 func arg1 = workQAdd (\<lambda>j. j\<lparr>job_func := func, job_arg1 := arg1, job_numArgs := 1\<rparr>)"

definition workQAdd2 :: "'f \<Rightarrow> arg \<Rightarrow> arg \<Rightarrow> 'f work_q \<Rightarrow> 'f work_q option" where
  "workQAdd2 func arg1 arg2 =
     workQAdd (\<lambda>j. j\<lparr>job_func := func, job_arg1 := arg1, job_arg2 := arg2, job_numArgs := 2\<rparr>)"

datatype 'f work_call = Call0 'f | Call1 'f arg | Call2 'f arg arg

text \<open>The call the switch of \<open>workQDoWork\<close> makes: the function and the arguments it passes.\<close>

definition job_call :: "'f WORK_Q_JOB \<Rightarrow> 'f work_call" where
  "job_call j =
     (if job_numArgs j = 1 then Call1 (job_func j) (job_arg1 j)
      else if job_numArgs j = 2 then Call2 (job_func j) (job_arg1 j) (job_arg2 j)
      else Call0 (job_func j))"

text \<open>The head of the loop of \<open>workQDoWork\<close>: the next job and the queue without it.\<close>

definition workQNext :: "'f work_q \<Rightarrow> ('f work_call \<times> 'f work_q) option" where
  "workQNext q =
     (if workQReadIndex q \<noteq> workQWriteIndex q
      then Some (job_call (workQJobs q ! unat (workQReadIndex q)),
                 q\<lparr>workQReadIndex := workQAdvance (workQReadIndex q)\<rparr>)
      else None)"

text \<open>Adding a call with the function for its number of arguments.\<close>

primrec workQAddCall :: "'f work_call \<Rightarrow> 'f work_q \<Rightarrow> 'f work_q option" where
  "workQAddCall (Call0 f) q = workQAdd0 f q"
| "workQAddCall (Call1 f a) q = workQAdd1 f a q"
| "workQAddCall (Call2 f a b) q = workQAdd2 f a b q"

subsection \<open>The jobs in the ring\<close>

definition work_wf :: "'f work_q \<Rightarrow> bool" where
  "work_wf q \<longleftrightarrow> length (workQJobs q) = 256 \<and> unat (workQReadIndex q) < 256 \<and>
     unat (workQWriteIndex q) < 256"

definition work_count :: "'f work_q \<Rightarrow> nat" where
  "work_count q = (unat (workQWriteIndex q) + 256 - unat (workQReadIndex q)) mod 256"

definition work_jobs :: "'f work_q \<Rightarrow> 'f work_call list" where
  "work_jobs q =
     map (\<lambda>i. job_call (workQJobs q ! ((unat (workQReadIndex q) + i) mod 256))) [0..<work_count q]"

definition work_rep :: "'f work_q \<Rightarrow> 'f work_call list \<Rightarrow> bool" where
  "work_rep q js \<longleftrightarrow> work_wf q \<and> work_jobs q = js"

lemma workQAdvance_unat: "unat i < 256 \<Longrightarrow> unat (workQAdvance i) = (unat i + 1) mod 256"
proof -
  assume i: "unat i < 256"
  have "workQAdvance i = take_bit 8 (i + 1)"
    by (simp add: workQAdvance_def MAX_WORK_Q_JOBS_def take_bit_eq_mask mask_numeral)
  moreover have "unat (i + 1) = unat i + 1" using i by (simp add: unat_plus_if')
  ultimately show ?thesis by (simp add: unsigned_take_bit_eq take_bit_eq_mod unat_mod)
qed

lemma ring_next:
  fixes r c :: nat
  assumes "r < 256" "c < 255"
  shows "((r + c) mod 256 + 1) mod 256 \<noteq> r" and "i < c \<Longrightarrow> (r + i) mod 256 \<noteq> (r + c) mod 256"
    and "(((r + c) mod 256 + 1) mod 256 + 256 - r) mod 256 = Suc c"
proof -
  have m: "(r + k) mod 256 = (if r + k < 256 then r + k else r + k - 256)" if "k < 256" for k
    using assms that by (simp add: mod_if)
  have s: "((r + c) mod 256 + 1) mod 256 = (r + Suc c) mod 256" by (simp add: mod_Suc_eq)
  show "((r + c) mod 256 + 1) mod 256 \<noteq> r"
    unfolding s using assms m [of "Suc c"] by (cases "r + Suc c < 256") auto
  show "i < c \<Longrightarrow> (r + i) mod 256 \<noteq> (r + c) mod 256"
    using assms m [of i] m [of c] by (cases "r + i < 256"; cases "r + c < 256") auto
  show "(((r + c) mod 256 + 1) mod 256 + 256 - r) mod 256 = Suc c"
    unfolding s using assms m [of "Suc c"] by (cases "r + Suc c < 256") (auto simp: mod_if)
qed

lemma ring_prev:
  fixes r w :: nat
  assumes "r < 256" "w < 256"
  shows "(w + 256 - r) mod 256 = 255 \<Longrightarrow> (w + 1) mod 256 = r"
    and "0 < (w + 256 - r) mod 256 \<Longrightarrow> r \<noteq> w"
    and "0 < (w + 256 - r) mod 256 \<Longrightarrow> (w + 256 - (r + 1) mod 256) mod 256 = (w + 256 - r) mod 256 - 1"
proof -
  have m: "(w + 256 - r) mod 256 = (if r \<le> w then w - r else w + 256 - r)"
    using assms by (auto simp: mod_if)
  show "(w + 256 - r) mod 256 = 255 \<Longrightarrow> (w + 1) mod 256 = r"
    using assms unfolding m by (cases "r \<le> w") (auto simp: mod_if)
  show "0 < (w + 256 - r) mod 256 \<Longrightarrow> r \<noteq> w" unfolding m by auto
  show "0 < (w + 256 - r) mod 256 \<Longrightarrow> (w + 256 - (r + 1) mod 256) mod 256 = (w + 256 - r) mod 256 - 1"
    using assms unfolding m by (cases "r \<le> w"; cases "r = 255") (auto simp: mod_if)
qed

lemma work_count_less: "work_count q < 256"
  by (simp add: work_count_def)

lemma work_rep_Nil: "work_rep q [] \<longleftrightarrow> work_wf q \<and> workQReadIndex q = workQWriteIndex q"
proof -
  have "work_wf q \<Longrightarrow> work_count q = 0 \<longleftrightarrow> workQReadIndex q = workQWriteIndex q"
  proof -
    assume "work_wf q"
    then have "unat (workQReadIndex q) < 256" "unat (workQWriteIndex q) < 256" by (simp_all add: work_wf_def)
    then have "work_count q = 0 \<longleftrightarrow> unat (workQReadIndex q) = unat (workQWriteIndex q)"
      by (auto simp: work_count_def mod_if split: if_splits)
    then show ?thesis by (simp add: word_eq_iff_unsigned [where 'a = nat])
  qed
  then show ?thesis by (auto simp: work_rep_def work_jobs_def)
qed

lemma workQAdd_rep:
  assumes rep: "work_rep q js" and len: "length js < 255"
  shows "\<exists>q'. workQAdd fill q = Some q' \<and>
    work_rep q' (js @ [job_call (fill (workQJobs q ! unat (workQWriteIndex q)))])"
proof -
  define r where "r = unat (workQReadIndex q)"
  define w where "w = unat (workQWriteIndex q)"
  have wf: "length (workQJobs q) = 256" "r < 256" "w < 256"
    using rep by (simp_all add: work_rep_def work_wf_def r_def w_def)
  define c where "c = work_count q"
  have c: "c < 255" using rep len by (auto simp: work_rep_def work_jobs_def c_def)
  have w: "w = (r + c) mod 256"
    unfolding c_def work_count_def r_def [symmetric] w_def [symmetric] using wf by (simp add: mod_if)
  have adv: "unat (workQAdvance (workQWriteIndex q)) = (w + 1) mod 256"
    using workQAdvance_unat wf by (simp add: w_def)
  have "(w + 1) mod 256 \<noteq> r" using ring_next(1) [OF wf(2) c] w by simp
  then have ne: "workQAdvance (workQWriteIndex q) \<noteq> workQReadIndex q" using adv by (auto simp: r_def)
  define q' where "q' = q\<lparr>workQWriteIndex := workQAdvance (workQWriteIndex q), workQIsEmpty := False,
    workQJobs := (workQJobs q)[w := fill (workQJobs q ! w)]\<rparr>"
  have run: "workQAdd fill q = Some q'" using ne by (simp add: workQAdd_def Let_def q'_def w_def)
  have "work_count q' = Suc c"
    using ring_next(3) [OF wf(2) c] adv w by (simp add: work_count_def q'_def r_def)
  moreover have other: "(workQJobs q)[w := x] ! ((r + i) mod 256) = workQJobs q ! ((r + i) mod 256)"
    if "i < c" for i x using ring_next(2) [OF wf(2) c that] w by simp
  moreover have js: "js = map (\<lambda>i. job_call (workQJobs q ! ((r + i) mod 256))) [0..<c]"
    using rep by (simp add: work_rep_def work_jobs_def r_def c_def)
  ultimately have "work_jobs q' = js @ [job_call (fill (workQJobs q ! w))]"
    unfolding work_jobs_def js using wf
    by (simp add: q'_def r_def [symmetric] w [symmetric] cong: map_cong)
  moreover have "work_wf q'" using wf adv by (simp add: work_wf_def q'_def r_def)
  ultimately show ?thesis using run by (auto simp: work_rep_def w_def)
qed

lemma workQAdd_full:
  assumes rep: "work_rep q js" and len: "255 \<le> length js"
  shows "workQAdd fill q = None"
proof -
  define r where "r = unat (workQReadIndex q)"
  define w where "w = unat (workQWriteIndex q)"
  have wf: "r < 256" "w < 256" using rep by (simp_all add: work_rep_def work_wf_def r_def w_def)
  have "work_count q = 255"
    using rep len work_count_less [of q] by (auto simp: work_rep_def work_jobs_def)
  then have "(w + 256 - r) mod 256 = 255" by (simp add: work_count_def r_def w_def)
  then have "(w + 1) mod 256 = r" using ring_prev(1) [OF wf] by simp
  then have "workQAdvance (workQWriteIndex q) = workQReadIndex q"
    using workQAdvance_unat [of "workQWriteIndex q"] wf by (simp add: r_def w_def word_eq_iff_unsigned [where 'a = nat])
  then show ?thesis by (simp add: workQAdd_def)
qed

lemma workQNext_rep:
  assumes "work_rep q (j # js)"
  shows "\<exists>q'. workQNext q = Some (j, q') \<and> work_rep q' js"
proof -
  define r where "r = unat (workQReadIndex q)"
  define w where "w = unat (workQWriteIndex q)"
  have wf: "length (workQJobs q) = 256" "r < 256" "w < 256"
    using assms by (simp_all add: work_rep_def work_wf_def r_def w_def)
  define c where "c = work_count q"
  have c: "0 < c" "c < 256"
    using assms work_count_less [of q] by (auto simp: work_rep_def work_jobs_def c_def intro: ccontr)
  have cw: "c = (w + 256 - r) mod 256" by (simp add: c_def work_count_def r_def w_def)
  have adv: "unat (workQAdvance (workQReadIndex q)) = (r + 1) mod 256"
    using workQAdvance_unat wf by (simp add: r_def)
  define q' where "q' = q\<lparr>workQReadIndex := workQAdvance (workQReadIndex q)\<rparr>"
  have "r \<noteq> w" using ring_prev(2) [OF wf(2,3)] c cw by simp
  then have run: "workQNext q = Some (job_call (workQJobs q ! r), q')"
    by (auto simp: workQNext_def q'_def r_def w_def)
  have c': "work_count q' = c - 1"
    using ring_prev(3) [OF wf(2,3)] adv c cw by (simp add: work_count_def q'_def w_def)
  have "j # js = map (\<lambda>i. job_call (workQJobs q ! ((r + i) mod 256))) (0 # map Suc [0..<c - 1])"
    using assms c by (simp add: work_rep_def work_jobs_def r_def [symmetric] c_def [symmetric]
        map_Suc_upt upt_conv_Cons)
  then have "j = job_call (workQJobs q ! r)" "js = work_jobs q'"
    using wf c' adv by (simp_all add: work_jobs_def q'_def mod_simps)
  moreover have "work_wf q'" using wf adv by (simp add: work_wf_def q'_def w_def)
  ultimately show ?thesis using run by (simp add: work_rep_def)
qed

lemma workQNext_empty: "work_rep q [] \<Longrightarrow> workQNext q = None"
  by (simp add: workQNext_def work_rep_Nil)

lemma workQAddCall_rep:
  assumes "work_rep q js" and "length js < 255"
  shows "\<exists>q'. workQAddCall c q = Some q' \<and> work_rep q' (js @ [c])"
  using workQAdd_rep [OF assms]
  by (cases c) (fastforce simp: workQAdd0_def workQAdd1_def workQAdd2_def job_call_def)+

lemma workQAddCall_full:
  assumes "work_rep q js" and "255 \<le> length js"
  shows "workQAddCall c q = None"
  using workQAdd_full [OF assms] by (cases c) (simp_all add: workQAdd0_def workQAdd1_def workQAdd2_def)

lemma work_rep_length: "work_rep q js \<Longrightarrow> length js \<le> 255"
  using work_count_less [of q] by (auto simp: work_rep_def work_jobs_def)

interpretation workq: bounded_fifo work_rep "\<lambda>_. 255" workQAddCall workQNext
  by unfold_locales
    (auto intro: workQAddCall_rep workQAddCall_full workQNext_rep workQNext_empty work_rep_length)

subsection \<open>Properties\<close>

text \<open>C27. The work queue hands the jobs over in the order they were added, each once and with its function
  and arguments, whatever adds and gets were interleaved.\<close>

theorem work_queue_order:
  assumes "work_rep q js"
  shows "case fifo_run workQAddCall workQNext cs q of (ins, outs, q') \<Rightarrow>
    \<exists>rest. work_rep q' rest \<and> js @ ins = outs @ rest"
  using workq.run_order [OF assms, of cs] by (auto split: prod.splits)

definition empty_work_q :: "'f \<Rightarrow> 'f work_q" where
  "empty_work_q f =
     \<lparr>workQIsEmpty = True, workQReadIndex = 0, workQWriteIndex = 0,
      workQJobs = replicate 256 \<lparr>job_func = f, job_numArgs = 0, job_arg1 = 0, job_arg2 = 0\<rparr>\<rparr>"

lemma empty_work_q_rep: "work_rep (empty_work_q f) []"
  by (simp add: work_rep_Nil empty_work_q_def work_wf_def)

theorem work_queue_order_witness:
  "case fifo_run workQAddCall workQNext [FPut (Call1 True 7), FGet, FPut (Call0 False)] (empty_work_q True) of
     (ins, outs, q') \<Rightarrow> \<exists>rest. work_rep q' rest \<and> ins = outs @ rest"
  using work_queue_order [OF empty_work_q_rep, of "[FPut (Call1 True 7), FGet, FPut (Call0 False)]" True]
  by (simp only: append_Nil)

text \<open>The ring takes 255 jobs besides none of them read: as long as stored and new jobs are at most 255 in
  number all are accepted and appended, and one more makes the machine reboot.\<close>

theorem work_queue_overflow:
  assumes "work_rep q js"
  shows "if length js + length new \<le> 255
    then \<exists>q'. fifo_put_all workQAddCall new q = Some q' \<and> work_rep q' (js @ new)
    else fifo_put_all workQAddCall new q = None"
  using workq.put_all_rep [OF assms] workq.put_all_over [OF assms] by auto

theorem work_queue_overflow_witness:
  "fifo_put_all workQAddCall (replicate 256 (Call0 True)) (empty_work_q True) = None"
  using work_queue_overflow [OF empty_work_q_rep, of "replicate 256 (Call0 True)" True]
  by (simp only: length_replicate list.size)

end
