(* ===== verification/Kernel.thy ===== *)
theory Kernel
  imports QLib WorkQLib "HOL-Library.Monad_Syntax"
begin

text \<open>
  The state of the kernel (\<open>src/vmx/kernelLib.c\<close>, \<open>include/vmx/taskLib.h\<close>,
  \<open>include/vmx/private/semLibP.h\<close>, \<open>include/vmx/private/wdLibP.h\<close>) and the queue operations its routines
  are made of. The ready queue is of the bitmap class with 256 priorities, the tick queue of the
  sorted class, the pend queues of either class; a queue is the list of keyed nodes that its store
  represents by the contract of \<open>qLib\<close>. The operations are defined where that contract applies (a node
  is put only when it is in no queue of its kind, removed only from a queue that holds it) and \<open>None\<close>
  elsewhere, where the C code would corrupt its lists. Interrupt locks are taken and released within
  one step of the model.
\<close>

subsection \<open>Constants\<close>

abbreviation TASK_READY :: u32 where "TASK_READY \<equiv> 0"
abbreviation TASK_SUSPEND :: u32 where "TASK_SUSPEND \<equiv> 1"
abbreviation TASK_PEND :: u32 where "TASK_PEND \<equiv> 2"
abbreviation TASK_DELAY :: u32 where "TASK_DELAY \<equiv> 4"
abbreviation TASK_DEAD :: u32 where "TASK_DEAD \<equiv> 8"

abbreviation TASK_UNDELAYED :: int where "TASK_UNDELAYED \<equiv> 2"
abbreviation TASK_DELETED :: int where "TASK_DELETED \<equiv> 3"
abbreviation VMX_TIMEOUT :: int where "VMX_TIMEOUT \<equiv> 1"
abbreviation SIG_RESTART :: int where "SIG_RESTART \<equiv> 1"

abbreviation WDOG_OUT_OF_Q :: u16 where "WDOG_OUT_OF_Q \<equiv> 0"
abbreviation WDOG_IN_Q :: u16 where "WDOG_IN_Q \<equiv> 1"
abbreviation WDOG_DEAD :: u16 where "WDOG_DEAD \<equiv> 2"

definition S_objLib_ID_ERROR :: int where "S_objLib_ID_ERROR = 6 * 65536 + 2"
definition S_objLib_UNAVAILABLE :: int where "S_objLib_UNAVAILABLE = 6 * 65536 + 3"
definition S_objLib_TIMEOUT :: int where "S_objLib_TIMEOUT = 6 * 65536 + 5"
definition S_intLib_NOT_ISR_CALLABLE :: int where "S_intLib_NOT_ISR_CALLABLE = 11 * 65536 + 1"

subsection \<open>The state\<close>

datatype tick_node = TaskNode ptr | WdogNode ptr

text \<open>
  The pend queues: of a semaphore, of the tasks waiting for a task to become unsafe, and of the two
  heads a message queue has, that of its messages and that of its free nodes.
\<close>

datatype qref = SemQ ptr | SafetyQ ptr | MsgQ ptr | FreeQ ptr

record pendq =
  pend_class :: "q_class option"
  pend_list :: "(u32 \<times> ptr) list"

record TCB =
  tStatus :: u32
  tLockCount :: u32
  tPriority :: u32
  tOptions :: u32
  tTimeSlice :: u32
  tPendQ :: "qref option"
  tUnpendHandler :: "nat option"
  tObj :: ptr
  tObjInfo :: int
  tSafeCount :: u32
  tErrorStatus :: int
  tExitCode :: int
  tEax :: int
  tErrno :: int
  tSwapInMask :: u16
  tSwapOutMask :: u16
  tIsTask :: bool
  tName :: "string option"
  tId :: u32
  tEntry :: nat
  tStackBase :: u32
  tStackLimit :: u32
  tStackEnd :: u32

text \<open>
  \<open>semOwner\<close> and \<open>semCount\<close> are the two members of a union; each kind of semaphore uses one of them, and
  the model keeps them apart.
\<close>

record SEM =
  semIsSem :: bool
  semType :: u8
  semOptions :: u8
  semRecurse :: u16
  semOwner :: ptr
  semCount :: u32

record WDOG =
  wdIsWdog :: bool
  wdStatus :: u16
  wdDfrStartCount :: u16
  wdFunc :: nat
  wdArg :: arg

text \<open>The heads of a message queue, the links of its nodes, and the queue object.\<close>

record Q_MSG_HEAD =
  qmFirst :: ptr
  qmLast :: ptr
  qmCount :: int

record MSG_NODE =
  mnNext :: ptr
  mnLength :: u32
  mnData :: "u8 list"

record MSG_Q =
  mqIsMsgQ :: bool
  mqOptions :: int
  mqMaxMsg :: int
  mqMaxMsgLength :: u32
  mqSendTimeouts :: int
  mqReciveTimeouts :: int

text \<open>The classes of objects. The methods are numbered; \<open>None\<close> is a null pointer.\<close>

datatype class_id = RootClass | TaskClass | SemClass | WdClass | MsgQClass | OtherClass ptr

record OBJ_CLASS =
  clsObjClass :: "class_id option"
  objPartId :: ptr
  objSize :: u32
  objAllocCount :: u32
  objFreeCount :: u32
  objInitCount :: u32
  objTerminateCount :: u32
  coreOffset :: int
  createMethod :: "nat option"
  initMethod :: "nat option"
  destroyMethod :: "nat option"
  showMethod :: "nat option"

text \<open>The functions the tables of \<open>semLib\<close> may hold for giving, taking and flushing.\<close>

datatype sem_method =
    M_semInvalid | M_semBGive | M_semCGive | M_semMGive | M_semBTake | M_semCTake | M_semMTake | M_semQFlush

text \<open>The functions that are deferred to the work queue; \<open>F_user\<close> is a function outside the kernel.\<close>

datatype kfunc =
    F_vmxTickAnnounce | F_vmxWdStart | F_vmxWdCancel | F_vmxSuspend | F_vmxResume | F_vmxUndelay
  | F_vmxPrioritySet | F_semBGiveDefer | F_semCGiveDefer | F_semQFlushDefer | F_semInvalid
  | F_qMsgPendQGet | F_user nat

record kstate =
  kernelState :: bool
  kernelIsIdle :: bool
  roundRobinOn :: bool
  roundRobinSlice :: u32
  taskIdCurrent :: ptr
  activeQ :: "ptr list"
  readyQ :: "(u32 \<times> ptr) list"
  tickQ :: "(u32 \<times> tick_node) list"
  pendQs :: "qref \<Rightarrow> pendq"
  tcbs :: "ptr \<Rightarrow> TCB"
  sems :: "ptr \<Rightarrow> SEM"
  wdogs :: "ptr \<Rightarrow> WDOG"
  sysTicks :: u32
  sysAbsTicks :: u64
  intCnt :: u32
  errno :: int
  workQ :: "kfunc work_q"
  taskSwapReference :: "int list"
  msgqs :: "ptr \<Rightarrow> MSG_Q"
  qmsgs :: "qref \<Rightarrow> Q_MSG_HEAD"
  msgNodes :: "ptr \<Rightarrow> MSG_NODE"
  classes :: "class_id \<Rightarrow> OBJ_CLASS"
  semGiveTable :: "sem_method list"
  semTakeTable :: "sem_method list"
  semFlushTable :: "sem_method list"
  semGiveDeferTable :: "kfunc list"
  semFlushDeferTable :: "kfunc list"
  semLibInstalled :: bool
  semBLibInstalled :: bool
  semCLibInstalled :: bool
  semMLibInstalled :: bool
  wdLibInstalled :: bool
  taskLibInstalled :: bool
  msgQLibInstalled :: bool
  namelessCount :: int
  taskNewId :: u32
  defaultTaskId :: ptr

definition upd_tcb :: "ptr \<Rightarrow> (TCB \<Rightarrow> TCB) \<Rightarrow> kstate \<Rightarrow> kstate" where
  "upd_tcb t f s = s\<lparr>tcbs := (tcbs s)(t := f (tcbs s t))\<rparr>"

definition upd_sem :: "ptr \<Rightarrow> (SEM \<Rightarrow> SEM) \<Rightarrow> kstate \<Rightarrow> kstate" where
  "upd_sem m f s = s\<lparr>sems := (sems s)(m := f (sems s m))\<rparr>"

definition upd_wdog :: "ptr \<Rightarrow> (WDOG \<Rightarrow> WDOG) \<Rightarrow> kstate \<Rightarrow> kstate" where
  "upd_wdog w f s = s\<lparr>wdogs := (wdogs s)(w := f (wdogs s w))\<rparr>"

definition errnoSet :: "int \<Rightarrow> kstate \<Rightarrow> kstate" where
  "errnoSet e s = s\<lparr>errno := e\<rparr>"

definition taskRetValueSet :: "ptr \<Rightarrow> int \<Rightarrow> kstate \<Rightarrow> kstate" where
  "taskRetValueSet t val = upd_tcb t (\<lambda>c. c\<lparr>tEax := val\<rparr>)"

definition set_flag :: "u32 \<Rightarrow> u32 \<Rightarrow> u32" where
  "set_flag w f = w OR f"

definition clear_flag :: "u32 \<Rightarrow> u32 \<Rightarrow> u32" where
  "clear_flag w f = w AND NOT f"

definition status_set :: "ptr \<Rightarrow> u32 \<Rightarrow> kstate \<Rightarrow> kstate" where
  "status_set t f = upd_tcb t (\<lambda>c. c\<lparr>tStatus := set_flag (tStatus c) f\<rparr>)"

definition status_clear :: "ptr \<Rightarrow> u32 \<Rightarrow> kstate \<Rightarrow> kstate" where
  "status_clear t f = upd_tcb t (\<lambda>c. c\<lparr>tStatus := clear_flag (tStatus c) f\<rparr>)"

abbreviation status_of :: "kstate \<Rightarrow> ptr \<Rightarrow> u32" where
  "status_of s t \<equiv> tStatus (tcbs s t)"

text \<open>\<open>tickGet\<close> of \<open>src/vmx/tickLib.c\<close>.\<close>

definition tickGet :: "kstate \<Rightarrow> u32" where
  "tickGet s = ucast (sysAbsTicks s AND 0xffffffff)"

subsection \<open>Queue operations\<close>

text \<open>The ready queue: \<open>Q_PUT(&readyQHead, tcbId, tcbId->priority)\<close> and the like.\<close>

definition rdyPut :: "ptr \<Rightarrow> kstate \<Rightarrow> kstate option" where
  "rdyPut t s =
     (if t \<noteq> NULL \<and> t \<notin> pq_nodes (readyQ s) \<and> tPriority (tcbs s t) < 256
      then Some (s\<lparr>readyQ := pq_put (tPriority (tcbs s t)) t (readyQ s)\<rparr>) else None)"

definition rdyRemove :: "ptr \<Rightarrow> kstate \<Rightarrow> kstate option" where
  "rdyRemove t s =
     (if t \<in> pq_nodes (readyQ s) then Some (s\<lparr>readyQ := pq_remove t (readyQ s)\<rparr>) else None)"

definition rdyMove :: "ptr \<Rightarrow> u32 \<Rightarrow> kstate \<Rightarrow> kstate option" where
  "rdyMove t k s =
     (if t \<in> pq_nodes (readyQ s) \<and> k < 256
      then Some (s\<lparr>readyQ := pq_put k t (pq_remove t (readyQ s))\<rparr>) else None)"

definition readyFirst :: "kstate \<Rightarrow> ptr" where
  "readyFirst s = (if readyQ s = [] then NULL else snd (hd (readyQ s)))"

text \<open>The tick queue.\<close>

definition tickPut :: "tick_node \<Rightarrow> u32 \<Rightarrow> kstate \<Rightarrow> kstate option" where
  "tickPut n k s =
     (if n \<notin> pq_nodes (tickQ s) then Some (s\<lparr>tickQ := pq_put k n (tickQ s)\<rparr>) else None)"

definition tickRemove :: "tick_node \<Rightarrow> kstate \<Rightarrow> kstate option" where
  "tickRemove n s =
     (if n \<in> pq_nodes (tickQ s) then Some (s\<lparr>tickQ := pq_remove n (tickQ s)\<rparr>) else None)"

definition tickMove :: "tick_node \<Rightarrow> u32 \<Rightarrow> kstate \<Rightarrow> kstate option" where
  "tickMove n k s =
     (if n \<in> pq_nodes (tickQ s) then Some (s\<lparr>tickQ := pq_move k n (tickQ s)\<rparr>) else None)"

definition tickOffset :: "u32 \<Rightarrow> kstate \<Rightarrow> kstate" where
  "tickOffset delta s = s\<lparr>tickQ := map (\<lambda>e. (fst e + delta, snd e)) (tickQ s)\<rparr>"

definition tickExpired :: "kstate \<Rightarrow> (tick_node \<times> kstate) option" where
  "tickExpired s =
     (case tickQ s of
        [] \<Rightarrow> None
      | (k, n) # q \<Rightarrow> if k \<le> tickGet s then Some (n, s\<lparr>tickQ := q\<rparr>) else None)"

text \<open>A pend queue; a queue that was not initialised has no class and cannot be called.\<close>

definition pendPut :: "qref \<Rightarrow> ptr \<Rightarrow> u32 \<Rightarrow> kstate \<Rightarrow> kstate option" where
  "pendPut r t k s =
     (let p = pendQs s r
      in if t = NULL \<or> t \<in> pq_nodes (pend_list p) then None
         else case pend_class p of
                Some QFifoClass \<Rightarrow>
                  Some (s\<lparr>pendQs := (pendQs s)(r := p\<lparr>pend_list :=
                    (if k = FIFO_KEY_HEAD then (k, t) # pend_list p else pend_list p @ [(k, t)])\<rparr>)\<rparr>)
              | Some QPrioClass \<Rightarrow>
                  Some (s\<lparr>pendQs := (pendQs s)(r := p\<lparr>pend_list := pq_put k t (pend_list p)\<rparr>)\<rparr>)
              | _ \<Rightarrow> None)"

definition pendFirst :: "qref \<Rightarrow> kstate \<Rightarrow> ptr" where
  "pendFirst r s = (if pend_list (pendQs s r) = [] then NULL else snd (hd (pend_list (pendQs s r))))"

definition pendGet :: "qref \<Rightarrow> kstate \<Rightarrow> (ptr \<times> kstate) option" where
  "pendGet r s =
     (let p = pendQs s r
      in if pend_class p = Some QFifoClass \<or> pend_class p = Some QPrioClass
         then (case pend_list p of
                 [] \<Rightarrow> Some (NULL, s)
               | (k, t) # q \<Rightarrow> Some (t, s\<lparr>pendQs := (pendQs s)(r := p\<lparr>pend_list := q\<rparr>)\<rparr>))
         else None)"

definition pendRemove :: "qref \<Rightarrow> ptr \<Rightarrow> kstate \<Rightarrow> (STATUS \<times> kstate) option" where
  "pendRemove r t s =
     (let p = pendQs s r
      in if (pend_class p = Some QFifoClass \<or> pend_class p = Some QPrioClass) \<and> t \<in> pq_nodes (pend_list p)
         then Some (OK, s\<lparr>pendQs := (pendQs s)(r := p\<lparr>pend_list := pq_remove t (pend_list p)\<rparr>)\<rparr>)
         else None)"

definition pendMove :: "qref \<Rightarrow> ptr \<Rightarrow> u32 \<Rightarrow> kstate \<Rightarrow> kstate option" where
  "pendMove r t k s =
     (let p = pendQs s r
      in case pend_class p of
           Some QFifoClass \<Rightarrow> Some s
         | Some QPrioClass \<Rightarrow>
             if t \<in> pq_nodes (pend_list p)
             then Some (s\<lparr>pendQs := (pendQs s)(r := p\<lparr>pend_list := pq_move k t (pend_list p)\<rparr>)\<rparr>)
             else None
         | _ \<Rightarrow> None)"

text \<open>The queue of all tasks, of the FIFO class.\<close>

definition activePut :: "ptr \<Rightarrow> kstate \<Rightarrow> kstate option" where
  "activePut t s =
     (if t \<noteq> NULL \<and> t \<notin> set (activeQ s) then Some (s\<lparr>activeQ := activeQ s @ [t]\<rparr>) else None)"

definition activeRemove :: "ptr \<Rightarrow> kstate \<Rightarrow> kstate option" where
  "activeRemove t s =
     (if t \<in> set (activeQ s) then Some (s\<lparr>activeQ := remove1 t (activeQ s)\<rparr>) else None)"

subsection \<open>The status word\<close>

text \<open>A task that is not deleted combines the suspend, pend and delay bits.\<close>

definition status_ok :: "u32 \<Rightarrow> bool" where
  "status_ok w \<longleftrightarrow> w \<in> {0, 1, 2, 3, 4, 5, 6, 7}"

definition has_flag :: "u32 \<Rightarrow> u32 \<Rightarrow> bool" where
  "has_flag w f \<longleftrightarrow> w AND f \<noteq> 0"

lemma status_ok_cases:
  assumes "status_ok w"
  obtains "w = 0" | "w = 1" | "w = 2" | "w = 3" | "w = 4" | "w = 5" | "w = 6" | "w = 7"
  using assms by (auto simp: status_ok_def)

lemma status_ok_ops [simp]:
  assumes "status_ok w"
  shows "status_ok (set_flag w TASK_SUSPEND)" "status_ok (set_flag w TASK_PEND)"
    "status_ok (set_flag w TASK_DELAY)" "status_ok (clear_flag w TASK_SUSPEND)"
    "status_ok (clear_flag w TASK_PEND)" "status_ok (clear_flag w TASK_DELAY)"
  using assms by (auto simp: status_ok_def set_flag_def clear_flag_def)

lemma has_flag_bit:
  "has_flag w TASK_SUSPEND \<longleftrightarrow> bit w 0"
  "has_flag w TASK_PEND \<longleftrightarrow> bit w 1"
  "has_flag w TASK_DELAY \<longleftrightarrow> bit w 2"
  using and_exp_eq_0_iff_not_bit [of w 0] and_exp_eq_0_iff_not_bit [of w 1]
    and_exp_eq_0_iff_not_bit [of w 2]
  by (simp_all add: has_flag_def)

lemma flag_bits:
  "bit TASK_SUSPEND n \<longleftrightarrow> n = 0" "bit TASK_PEND n \<longleftrightarrow> n = 1" "bit TASK_DELAY n \<longleftrightarrow> n = 2"
  using bit_exp_iff [of 0 n, where 'a = u32] bit_exp_iff [of 1 n, where 'a = u32]
    bit_exp_iff [of 2 n, where 'a = u32]
  by auto

lemma has_flag_set [simp]:
  "has_flag (set_flag w TASK_SUSPEND) TASK_SUSPEND"
  "has_flag (set_flag w TASK_PEND) TASK_PEND"
  "has_flag (set_flag w TASK_DELAY) TASK_DELAY"
  "has_flag (set_flag w TASK_SUSPEND) TASK_PEND = has_flag w TASK_PEND"
  "has_flag (set_flag w TASK_SUSPEND) TASK_DELAY = has_flag w TASK_DELAY"
  "has_flag (set_flag w TASK_PEND) TASK_SUSPEND = has_flag w TASK_SUSPEND"
  "has_flag (set_flag w TASK_PEND) TASK_DELAY = has_flag w TASK_DELAY"
  "has_flag (set_flag w TASK_DELAY) TASK_SUSPEND = has_flag w TASK_SUSPEND"
  "has_flag (set_flag w TASK_DELAY) TASK_PEND = has_flag w TASK_PEND"
  by (auto simp: set_flag_def has_flag_bit bit_or_iff flag_bits)

lemma has_flag_clear [simp]:
  "\<not> has_flag (clear_flag w TASK_SUSPEND) TASK_SUSPEND"
  "\<not> has_flag (clear_flag w TASK_PEND) TASK_PEND"
  "\<not> has_flag (clear_flag w TASK_DELAY) TASK_DELAY"
  "has_flag (clear_flag w TASK_SUSPEND) TASK_PEND = has_flag w TASK_PEND"
  "has_flag (clear_flag w TASK_SUSPEND) TASK_DELAY = has_flag w TASK_DELAY"
  "has_flag (clear_flag w TASK_PEND) TASK_SUSPEND = has_flag w TASK_SUSPEND"
  "has_flag (clear_flag w TASK_PEND) TASK_DELAY = has_flag w TASK_DELAY"
  "has_flag (clear_flag w TASK_DELAY) TASK_SUSPEND = has_flag w TASK_SUSPEND"
  "has_flag (clear_flag w TASK_DELAY) TASK_PEND = has_flag w TASK_PEND"
  unfolding clear_flag_def
  by (simp_all only: has_flag_bit bit_and_iff bit_not_iff flag_bits possible_bit_word)
    (auto dest: bit_imp_le_length)

lemma and_not_exp_absent:
  fixes w :: u32
  assumes "\<not> bit w k"
  shows "w AND NOT (2 ^ k) = w"
proof (rule bit_word_eqI)
  fix n
  assume "n < LENGTH(32)"
  then show "bit (w AND NOT (2 ^ k)) n \<longleftrightarrow> bit w n"
    using assms by (auto simp: bit_and_iff bit_not_iff bit_exp_iff)
qed

lemma clear_flag_absent:
  "\<not> has_flag w TASK_SUSPEND \<Longrightarrow> clear_flag w TASK_SUSPEND = w"
  "\<not> has_flag w TASK_PEND \<Longrightarrow> clear_flag w TASK_PEND = w"
  "\<not> has_flag w TASK_DELAY \<Longrightarrow> clear_flag w TASK_DELAY = w"
  using and_not_exp_absent [of w 0] and_not_exp_absent [of w 1] and_not_exp_absent [of w 2]
  by (simp_all add: clear_flag_def has_flag_bit)

lemma clear_set_flag: "clear_flag (set_flag w f) f = clear_flag w f"
  unfolding clear_flag_def set_flag_def by (rule bit_eqI) (auto simp: bit_simps)

lemma set_flag_again: "set_flag (set_flag w f) f = set_flag w f"
  by (simp add: set_flag_def or.assoc)

lemma ready_iff:
  assumes "status_ok w"
  shows "w = TASK_READY \<longleftrightarrow>
    \<not> has_flag w TASK_SUSPEND \<and> \<not> has_flag w TASK_PEND \<and> \<not> has_flag w TASK_DELAY"
  using assms by (auto simp: status_ok_def has_flag_def)

lemma has_flag_0 [simp]: "\<not> has_flag 0 f"
  by (simp add: has_flag_def)

end
