(* ===== verification/VmxLib.thy ===== *)
theory VmxLib
  imports Kernel
begin

text \<open>
  The kernel routines: \<open>src/vmx/vmxLib.c\<close>. They run with \<open>kernelState\<close> true and move tasks between the
  ready, tick and pend queues; each is the sequence of queue operations and field writes of the code.
  A routine whose queue operation has no defined effect has the value \<open>None\<close>. The functions the code
  calls through pointers (watchdog functions, unpend handlers) and the work queue loop, which calls
  the kernel routines again, are parameters.
\<close>

definition vmxSpawn :: "ptr \<Rightarrow> kstate \<Rightarrow> kstate option" where
  "vmxSpawn tcbId s = activePut tcbId s"

definition vmxPendQRemove :: "ptr \<Rightarrow> kstate \<Rightarrow> (STATUS \<times> kstate) option" where
  "vmxPendQRemove tcbId s =
     (case tPendQ (tcbs s tcbId) of
        None \<Rightarrow> None
      | Some pPendQ \<Rightarrow> do {
          (st, s) \<leftarrow> pendRemove pPendQ tcbId s;
          let s = status_clear tcbId TASK_PEND s;
          s \<leftarrow> (if has_flag (status_of s tcbId) TASK_DELAY
               then tickRemove (TaskNode tcbId) (status_clear tcbId TASK_DELAY s)
               else Some s);
          Some (st, s)
        })"

text \<open>How far a mask is from the end of a loop that shifts it to the left until it is zero.\<close>

definition bits_left :: "u16 \<Rightarrow> nat" where
  "bits_left m = (if m = 0 then 0 else 17 - (LEAST k. 16 \<le> k \<or> bit m k))"

lemma bits_left_shift:
  assumes "m \<noteq> 0"
  shows "bits_left (push_bit 1 m) < bits_left m"
proof -
  define low where "low m = (LEAST k. 16 \<le> k \<or> bit (m :: u16) k)" for m
  obtain k where k: "bit m k" "k < 16" "\<And>j. j < k \<Longrightarrow> \<not> bit m j"
    using word_lowest_bit [OF assms] by auto
  have lm: "low m = k"
    unfolding low_def using k by (intro Least_equality) (auto simp: not_le [symmetric])
  define m' where "m' = push_bit 1 m"
  have bm: "bit m' j \<Longrightarrow> 0 < j \<and> bit m (j - 1)" for j
    by (simp add: m'_def bit_push_bit_iff del: push_bit_Suc push_bit_of_1)
  have "k < low m'" if "m' \<noteq> 0"
  proof -
    have "16 \<le> low m' \<or> bit m' (low m')"
      unfolding low_def by (rule LeastI [of _ 16]) simp
    then have "16 \<le> low m' \<or> (0 < low m' \<and> \<not> low m' - 1 < k)"
      using bm k(3) by blast
    then show ?thesis using k(2) by linarith
  qed
  then have "(if m' = 0 then 0 else 17 - low m') < 17 - low m" using lm k(2) by auto
  then show ?thesis using assms unfolding bits_left_def low_def m'_def by (simp cong: if_cong)
qed

text \<open>The loops over the swap masks: one reference less for every hook the task has.\<close>

function swap_release_loop :: "nat \<Rightarrow> u16 \<Rightarrow> int list \<Rightarrow> int list" where
  "swap_release_loop i msk refs =
     (if msk \<noteq> 0
      then swap_release_loop (i + 1) (push_bit 1 msk)
             (if msk AND 0x8000 \<noteq> 0 then refs[i := refs ! i - 1] else refs)
      else refs)"
  by pat_completeness auto
termination
  by (relation "measure (\<lambda>(i, msk, refs). bits_left msk)") (simp_all add: bits_left_shift [unfolded One_nat_def] del: push_bit_Suc push_bit_of_1)

declare swap_release_loop.simps [simp del]

definition vmxDelete :: "ptr \<Rightarrow> kstate \<Rightarrow> (STATUS \<times> kstate) option" where
  "vmxDelete tcbId s = do {
     (st, s) \<leftarrow>
       (if status_of s tcbId = TASK_READY
        then do { s \<leftarrow> rdyRemove tcbId s; Some (OK, s) }
        else do {
          (st, s) \<leftarrow> (if has_flag (status_of s tcbId) TASK_PEND then vmxPendQRemove tcbId s
                     else Some (OK, s));
          s \<leftarrow> (if has_flag (status_of s tcbId) TASK_DELAY then tickRemove (TaskNode tcbId) s
               else Some s);
          Some (st, s)
        });
     let s = s\<lparr>taskSwapReference :=
       swap_release_loop 0 (tSwapInMask (tcbs s tcbId)) (taskSwapReference s)\<rparr>;
     let s = s\<lparr>taskSwapReference :=
       swap_release_loop 0 (tSwapOutMask (tcbs s tcbId)) (taskSwapReference s)\<rparr>;
     s \<leftarrow> activeRemove tcbId s;
     Some (st, upd_tcb tcbId (\<lambda>c. c\<lparr>tStatus := TASK_DEAD\<rparr>) s)
   }"

definition vmxSuspend :: "ptr \<Rightarrow> kstate \<Rightarrow> kstate option" where
  "vmxSuspend tcbId s = do {
     s \<leftarrow> (if status_of s tcbId = TASK_READY then rdyRemove tcbId s else Some s);
     Some (status_set tcbId TASK_SUSPEND s)
   }"

definition vmxResume :: "ptr \<Rightarrow> kstate \<Rightarrow> kstate option" where
  "vmxResume tcbId s = do {
     s \<leftarrow> (if status_of s tcbId = TASK_SUSPEND then rdyPut tcbId s else Some s);
     Some (status_clear tcbId TASK_SUSPEND s)
   }"

text \<open>The end of every routine that makes a task runnable again.\<close>

definition ready_if :: "ptr \<Rightarrow> kstate \<Rightarrow> kstate option" where
  "ready_if tcbId s = (if status_of s tcbId = TASK_READY then rdyPut tcbId s else Some s)"

text \<open>The branch of \<open>vmxTickAnnounce\<close> for the tick node of a task.\<close>

definition expired_task ::
  "(nat \<Rightarrow> ptr \<Rightarrow> int \<Rightarrow> kstate \<Rightarrow> kstate option) \<Rightarrow> ptr \<Rightarrow> kstate \<Rightarrow> kstate option" where
  "expired_task unpend tcbId s = do {
     let s = status_clear tcbId TASK_DELAY s;
     s \<leftarrow> (if status_of s tcbId = TASK_READY then Some (taskRetValueSet tcbId OK s)
          else if has_flag (status_of s tcbId) TASK_PEND
          then do {
            (st, s) \<leftarrow> vmxPendQRemove tcbId s;
            let s = (if st = ERROR then upd_tcb tcbId (\<lambda>c. c\<lparr>tErrorStatus := ERROR\<rparr>) s else s);
            let s = taskRetValueSet tcbId ERROR s;
            let s = upd_tcb tcbId (\<lambda>c. c\<lparr>tErrno := S_objLib_TIMEOUT\<rparr>) s;
            (case tUnpendHandler (tcbs s tcbId) of
               None \<Rightarrow> Some s
             | Some h \<Rightarrow> unpend h tcbId VMX_TIMEOUT s)
          }
          else Some s);
     ready_if tcbId s
   }"

text \<open>The branch for a watchdog: its function runs as in an interrupt, then the work queue is emptied.\<close>

definition expired_wdog ::
  "(nat \<Rightarrow> arg \<Rightarrow> kstate \<Rightarrow> kstate option) \<Rightarrow> (kstate \<Rightarrow> kstate option) \<Rightarrow> ptr \<Rightarrow> kstate \<Rightarrow> kstate option"
where
  "expired_wdog wdCall doWork wdId s = do {
     let s = upd_wdog wdId (\<lambda>w. w\<lparr>wdStatus := WDOG_OUT_OF_Q\<rparr>) s;
     let f = wdFunc (wdogs s wdId);
     let a = wdArg (wdogs s wdId);
     let s = s\<lparr>intCnt := intCnt s + 1\<rparr>;
     s \<leftarrow> (if wdDfrStartCount (wdogs s wdId) = 0 then wdCall f a s else Some s);
     let s = s\<lparr>intCnt := intCnt s - 1\<rparr>;
     doWork s
   }"

text \<open>
  \<open>OFFSET\<close> turns a node back into the object that holds it; the node of an object that is no longer a
  task would be taken for that of a watchdog.
\<close>

definition expired_node ::
  "(nat \<Rightarrow> arg \<Rightarrow> kstate \<Rightarrow> kstate option) \<Rightarrow> (nat \<Rightarrow> ptr \<Rightarrow> int \<Rightarrow> kstate \<Rightarrow> kstate option) \<Rightarrow>
    (kstate \<Rightarrow> kstate option) \<Rightarrow> tick_node \<Rightarrow> kstate \<Rightarrow> kstate option" where
  "expired_node wdCall unpend doWork n s =
     (case n of
        TaskNode tcbId \<Rightarrow> if tIsTask (tcbs s tcbId) then expired_task unpend tcbId s else None
      | WdogNode wdId \<Rightarrow> expired_wdog wdCall doWork wdId s)"

partial_function (option) tick_loop ::
  "(nat \<Rightarrow> arg \<Rightarrow> kstate \<Rightarrow> kstate option) \<Rightarrow> (nat \<Rightarrow> ptr \<Rightarrow> int \<Rightarrow> kstate \<Rightarrow> kstate option) \<Rightarrow>
    (kstate \<Rightarrow> kstate option) \<Rightarrow> kstate \<Rightarrow> kstate option" where
  "tick_loop wdCall unpend doWork s =
     (case tickExpired s of
        None \<Rightarrow> Some s
      | Some (n, s) \<Rightarrow> do {
          s \<leftarrow> expired_node wdCall unpend doWork n s;
          tick_loop wdCall unpend doWork s
        })"

definition round_robin :: "kstate \<Rightarrow> kstate option" where
  "round_robin s =
     (let t = taskIdCurrent s
      in if roundRobinOn s \<and> tLockCount (tcbs s t) = 0 \<and> status_of s t = TASK_READY
         then let s = upd_tcb t (\<lambda>c. c\<lparr>tTimeSlice := tTimeSlice c + 1\<rparr>) s
              in if tTimeSlice (tcbs s t) \<ge> roundRobinSlice s
                 then do {
                   s \<leftarrow> rdyRemove t (upd_tcb t (\<lambda>c. c\<lparr>tTimeSlice := 0\<rparr>) s);
                   rdyPut t s
                 }
                 else Some s
         else Some s)"

definition vmxTickAnnounce ::
  "(nat \<Rightarrow> arg \<Rightarrow> kstate \<Rightarrow> kstate option) \<Rightarrow> (nat \<Rightarrow> ptr \<Rightarrow> int \<Rightarrow> kstate \<Rightarrow> kstate option) \<Rightarrow>
    (kstate \<Rightarrow> kstate option) \<Rightarrow> kstate \<Rightarrow> kstate option" where
  "vmxTickAnnounce wdCall unpend doWork s = do {
     let s = s\<lparr>sysTicks := sysTicks s + 1, sysAbsTicks := sysAbsTicks s + 1\<rparr>;
     s \<leftarrow> tick_loop wdCall unpend doWork s;
     round_robin s
   }"

text \<open>Before a timeout is put on the tick queue the kernel time is restarted if it would overflow.\<close>

definition tick_overflow :: "u32 \<Rightarrow> kstate \<Rightarrow> kstate" where
  "tick_overflow timeout s =
     (if sysTicks s + timeout < sysTicks s
      then (tickOffset (NOT (sysTicks s) + 1) s)\<lparr>sysTicks := 0\<rparr>
      else s)"

definition vmxDelay :: "u32 \<Rightarrow> kstate \<Rightarrow> (STATUS \<times> kstate) option" where
  "vmxDelay timeout s = do {
     s \<leftarrow> rdyRemove (taskIdCurrent s) s;
     let s = tick_overflow timeout s;
     s \<leftarrow> tickPut (TaskNode (taskIdCurrent s)) (timeout + sysTicks s) s;
     Some (OK, status_set (taskIdCurrent s) TASK_DELAY s)
   }"

text \<open>
  \<open>vmxUndelay\<close> unlinks \<open>&tcbId->priority\<close> instead of the tick node: the words there, the priority and the
  options, are read as the links of a node. With both 0 they look like the links of the only node of
  the queue, and the queue is emptied; otherwise they are written through as pointers.
\<close>

definition vmxUndelay :: "ptr \<Rightarrow> kstate \<Rightarrow> (STATUS \<times> kstate) option" where
  "vmxUndelay tcbId s =
     (if \<not> has_flag (status_of s tcbId) TASK_DELAY then Some (OK, s)
      else do {
        let s = status_clear tcbId TASK_DELAY s;
        s \<leftarrow> (if tPriority (tcbs s tcbId) = 0 \<and> tOptions (tcbs s tcbId) = 0
             then Some (s\<lparr>tickQ := []\<rparr>) else None);
        let s = upd_tcb tcbId (\<lambda>c. c\<lparr>tErrorStatus := TASK_UNDELAYED\<rparr>) s;
        s \<leftarrow> ready_if tcbId s;
        Some (OK, s)
      })"

definition vmxPrioritySet :: "ptr \<Rightarrow> u32 \<Rightarrow> kstate \<Rightarrow> kstate option" where
  "vmxPrioritySet tcbId priority s =
     (let s = upd_tcb tcbId (\<lambda>c. c\<lparr>tPriority := priority\<rparr>) s
      in if status_of s tcbId = TASK_READY then rdyMove tcbId priority s
         else if has_flag (status_of s tcbId) TASK_PEND
         then (case tPendQ (tcbs s tcbId) of
                 None \<Rightarrow> None
               | Some pPendQ \<Rightarrow> pendMove pPendQ tcbId priority s)
         else Some s)"

text \<open>\<open>vmxReadyQPut\<close>: the task has got what it was pending for.\<close>

definition vmxReadyQPut :: "ptr \<Rightarrow> kstate \<Rightarrow> kstate option" where
  "vmxReadyQPut tcbId s = do {
     let s = status_clear tcbId TASK_PEND s;
     let s = taskRetValueSet tcbId OK s;
     s \<leftarrow> (if has_flag (status_of s tcbId) TASK_DELAY
          then tickRemove (TaskNode tcbId) (status_clear tcbId TASK_DELAY s)
          else Some s);
     ready_if tcbId s
   }"

definition vmxPendQGet :: "qref \<Rightarrow> kstate \<Rightarrow> kstate option" where
  "vmxPendQGet pQHead s = do {
     (tcbId, s) \<leftarrow> pendGet pQHead s;
     if tcbId = NULL then None else vmxReadyQPut tcbId s
   }"

text \<open>The timeout of a task that pends: no entry in the tick queue for \<open>WAIT_FOREVER\<close>.\<close>

definition pend_timeout :: "u32 \<Rightarrow> kstate \<Rightarrow> kstate option" where
  "pend_timeout timeout s =
     (if timeout \<noteq> WAIT_FOREVER
      then do {
        let s = tick_overflow timeout s;
        s \<leftarrow> tickPut (TaskNode (taskIdCurrent s)) (timeout + sysTicks s) s;
        Some (status_set (taskIdCurrent s) TASK_DELAY s)
      }
      else Some s)"

definition vmxReadyQRemove :: "qref \<Rightarrow> u32 \<Rightarrow> kstate \<Rightarrow> kstate option" where
  "vmxReadyQRemove pQHead timeout s = do {
     s \<leftarrow> rdyRemove (taskIdCurrent s) s;
     let s = status_set (taskIdCurrent s) TASK_PEND s;
     let s = upd_tcb (taskIdCurrent s) (\<lambda>c. c\<lparr>tPendQ := Some pQHead\<rparr>) s;
     pend_timeout timeout s
   }"

partial_function (option) vmxPendQFlush :: "qref \<Rightarrow> kstate \<Rightarrow> kstate option" where
  "vmxPendQFlush pQHead s = do {
     (tcbId, s) \<leftarrow> pendGet pQHead s;
     if tcbId \<noteq> NULL
     then do { s \<leftarrow> vmxReadyQPut tcbId s; vmxPendQFlush pQHead s }
     else Some s
   }"

definition vmxPendQWithHandlerPut ::
  "qref \<Rightarrow> u32 \<Rightarrow> nat option \<Rightarrow> ptr \<Rightarrow> int \<Rightarrow> kstate \<Rightarrow> kstate option" where
  "vmxPendQWithHandlerPut pQHead timeout handler pObj info s = do {
     s \<leftarrow> rdyRemove (taskIdCurrent s) s;
     let s = status_set (taskIdCurrent s) TASK_PEND s;
     let s = upd_tcb (taskIdCurrent s)
       (\<lambda>c. c\<lparr>tPendQ := Some pQHead, tUnpendHandler := handler, tObj := pObj, tObjInfo := info\<rparr>) s;
     s \<leftarrow> pendPut pQHead (taskIdCurrent s) (tPriority (tcbs s (taskIdCurrent s))) s;
     pend_timeout timeout s
   }"

text \<open>The \<open>ERROR\<close> the code prepares for \<open>WAIT_NONE\<close> is overwritten: the task is pended whatever the timeout.\<close>

definition vmxPendQPut :: "qref \<Rightarrow> u32 \<Rightarrow> kstate \<Rightarrow> (STATUS \<times> kstate) option" where
  "vmxPendQPut pQHead timeout s = do {
     s \<leftarrow> vmxPendQWithHandlerPut pQHead timeout None NULL 0 s;
     Some (OK, s)
   }"

text \<open>As \<open>vmxReadyQPut\<close>, for a task whose object is gone.\<close>

definition pend_deleted :: "ptr \<Rightarrow> kstate \<Rightarrow> kstate option" where
  "pend_deleted tcbId s = do {
     let s = status_clear tcbId TASK_PEND s;
     let s = upd_tcb tcbId (\<lambda>c. c\<lparr>tErrorStatus := TASK_DELETED\<rparr>) s;
     let s = taskRetValueSet tcbId ERROR s;
     s \<leftarrow> (if has_flag (status_of s tcbId) TASK_DELAY
          then tickRemove (TaskNode tcbId) (status_clear tcbId TASK_DELAY s)
          else Some s);
     ready_if tcbId s
   }"

partial_function (option) vmxPendQTerminate :: "qref \<Rightarrow> kstate \<Rightarrow> kstate option" where
  "vmxPendQTerminate pQHead s = do {
     (tcbId, s) \<leftarrow> pendGet pQHead s;
     if tcbId \<noteq> NULL
     then do { s \<leftarrow> pend_deleted tcbId s; vmxPendQTerminate pQHead s }
     else Some s
   }"

text \<open>
  The test \<open>OBJ_VERIFY(pOwner, taskClassId) == OK\<close> expands to an expression that is 0 for every object
  (the macro is not parenthesised), so the branch that would drop the owner's safety is never taken.
  Evaluating it sets \<open>errno\<close> when the owner is not a task.
\<close>

definition vmxSemDelete :: "ptr \<Rightarrow> kstate \<Rightarrow> kstate option" where
  "vmxSemDelete semId s = do {
     s \<leftarrow> vmxPendQTerminate (SemQ semId) s;
     let pOwner = semOwner (sems s semId);
     if semType (sems s semId) = 1 \<and> pOwner \<noteq> NULL \<and> \<not> tIsTask (tcbs s pOwner)
     then Some (errnoSet S_objLib_ID_ERROR s)
     else Some s
   }"

definition vmxWdStart :: "ptr \<Rightarrow> u32 \<Rightarrow> kstate \<Rightarrow> (STATUS \<times> kstate) option" where
  "vmxWdStart wdId timeout s = do {
     let s = upd_wdog wdId (\<lambda>w. w\<lparr>wdDfrStartCount := wdDfrStartCount w - 1\<rparr>) s;
     if wdDfrStartCount (wdogs s wdId) = 0
     then do {
       let s = tick_overflow timeout s;
       s \<leftarrow> (if wdStatus (wdogs s wdId) = WDOG_IN_Q
            then tickMove (WdogNode wdId) (timeout + sysTicks s) s
            else tickPut (WdogNode wdId) (timeout + sysTicks s) s);
       Some (OK, upd_wdog wdId (\<lambda>w. w\<lparr>wdStatus := WDOG_IN_Q\<rparr>) s)
     }
     else Some (OK, s)
   }"

definition vmxWdCancel :: "ptr \<Rightarrow> kstate \<Rightarrow> kstate option" where
  "vmxWdCancel wdId s =
     (if wdStatus (wdogs s wdId) = WDOG_IN_Q
      then do {
        s \<leftarrow> tickRemove (WdogNode wdId) s;
        Some (upd_wdog wdId (\<lambda>w. w\<lparr>wdStatus := WDOG_OUT_OF_Q\<rparr>) s)
      }
      else Some s)"

end
