(* ===== verification/VmxInv.thy ===== *)
theory VmxInv
  imports VmxLib
begin

text \<open>
  The invariant of the kernel and that the routines of \<open>vmxLib\<close> keep it. A task is in the ready queue
  exactly when its status is 0, in the tick queue exactly when it is delayed, and in the pend queue
  its TCB names exactly when it pends; keys are priorities; the clock never runs ahead of the keys.
  Under the invariant every routine has a defined effect. The proofs follow one task: \<open>kx t\<close> is the
  invariant for all the others, and each queue operation on \<open>t\<close> keeps it.
\<close>

subsection \<open>The invariant\<close>

definition pend_ok :: "pendq \<Rightarrow> bool" where
  "pend_ok p \<longleftrightarrow> distinct (map snd (pend_list p)) \<and>
     (pend_class p = Some QPrioClass \<longrightarrow> pq_sorted (pend_list p)) \<and>
     (pend_class p \<noteq> Some QFifoClass \<and> pend_class p \<noteq> Some QPrioClass \<longrightarrow> pend_list p = [])"

definition queues_ok :: "kstate \<Rightarrow> bool" where
  "queues_ok s \<longleftrightarrow>
     pq_sorted (readyQ s) \<and> distinct (map snd (readyQ s)) \<and>
     pq_sorted (tickQ s) \<and> distinct (map snd (tickQ s)) \<and>
     distinct (activeQ s) \<and> (\<forall>r. pend_ok (pendQs s r))"

definition task_ok :: "kstate \<Rightarrow> ptr \<Rightarrow> bool" where
  "task_ok s t \<longleftrightarrow>
     (let c = tcbs s t; live = (t \<in> set (activeQ s))
      in (t \<in> pq_nodes (readyQ s) \<longleftrightarrow> live \<and> tStatus c = TASK_READY) \<and>
         (TaskNode t \<in> pq_nodes (tickQ s) \<longleftrightarrow> live \<and> has_flag (tStatus c) TASK_DELAY) \<and>
         (\<forall>r. t \<in> pq_nodes (pend_list (pendQs s r)) \<longleftrightarrow>
            live \<and> has_flag (tStatus c) TASK_PEND \<and> tPendQ c = Some r) \<and>
         (live \<and> has_flag (tStatus c) TASK_PEND \<longrightarrow> tPendQ c \<noteq> None) \<and>
         (\<forall>k. (k, t) \<in> set (readyQ s) \<longrightarrow> k = tPriority c) \<and>
         (\<forall>r k. pend_class (pendQs s r) = Some QPrioClass \<and> (k, t) \<in> set (pend_list (pendQs s r)) \<longrightarrow>
            k = tPriority c) \<and>
         (live \<longrightarrow> status_ok (tStatus c) \<and> tPriority c < 256 \<and> t \<noteq> NULL))"

definition wdog_ok :: "kstate \<Rightarrow> ptr \<Rightarrow> bool" where
  "wdog_ok s w \<longleftrightarrow> (WdogNode w \<in> pq_nodes (tickQ s) \<longleftrightarrow> wdStatus (wdogs s w) = WDOG_IN_Q)"

definition kx :: "ptr \<Rightarrow> kstate \<Rightarrow> bool" where
  "kx t s \<longleftrightarrow> queues_ok s \<and> (\<forall>t'. t' \<noteq> t \<longrightarrow> task_ok s t') \<and> (\<forall>w. wdog_ok s w)"

definition kinv :: "kstate \<Rightarrow> bool" where
  "kinv s \<longleftrightarrow> queues_ok s \<and> (\<forall>t. task_ok s t) \<and> (\<forall>w. wdog_ok s w)"

lemma kinv_kx: "kinv s \<longleftrightarrow> kx t s \<and> task_ok s t"
  by (auto simp: kinv_def kx_def)

text \<open>
  The time base: no key lies before \<open>sysTicks\<close>, which lags behind the clock. The tick interrupt breaks
  this until it has taken the expired nodes out.
\<close>

definition clock_ok :: "kstate \<Rightarrow> bool" where
  "clock_ok s \<longleftrightarrow> sysTicks s \<le> tickGet s \<and> (\<forall>e\<in>set (tickQ s). sysTicks s \<le> fst e)"

definition kok :: "kstate \<Rightarrow> bool" where
  "kok s \<longleftrightarrow> kinv s \<and> clock_ok s"

lemma clock_ok_frame:
  "clock_ok s \<Longrightarrow> sysTicks s' = sysTicks s \<Longrightarrow> tickGet s' = tickGet s \<Longrightarrow> set (tickQ s') \<subseteq> set (tickQ s) \<Longrightarrow>
   clock_ok s'"
  by (auto simp: clock_ok_def)

text \<open>A live task object: what the routines are called with.\<close>

definition live :: "kstate \<Rightarrow> ptr \<Rightarrow> bool" where
  "live s t \<longleftrightarrow> t \<in> set (activeQ s)"

subsection \<open>Where one task is\<close>

definition in_ready :: "kstate \<Rightarrow> ptr \<Rightarrow> bool" where
  "in_ready s t \<longleftrightarrow> t \<in> pq_nodes (readyQ s)"

definition in_tick :: "kstate \<Rightarrow> ptr \<Rightarrow> bool" where
  "in_tick s t \<longleftrightarrow> TaskNode t \<in> pq_nodes (tickQ s)"

definition in_pend :: "kstate \<Rightarrow> qref \<Rightarrow> ptr \<Rightarrow> bool" where
  "in_pend s r t \<longleftrightarrow> t \<in> pq_nodes (pend_list (pendQs s r))"

text \<open>All that \<open>task_ok\<close> says of one task, in terms of these.\<close>

lemma task_ok_iff:
  "task_ok s t \<longleftrightarrow>
     (in_ready s t \<longleftrightarrow> live s t \<and> status_of s t = TASK_READY) \<and>
     (in_tick s t \<longleftrightarrow> live s t \<and> has_flag (status_of s t) TASK_DELAY) \<and>
     (\<forall>r. in_pend s r t \<longleftrightarrow>
        live s t \<and> has_flag (status_of s t) TASK_PEND \<and> tPendQ (tcbs s t) = Some r) \<and>
     (live s t \<and> has_flag (status_of s t) TASK_PEND \<longrightarrow> tPendQ (tcbs s t) \<noteq> None) \<and>
     (\<forall>k. (k, t) \<in> set (readyQ s) \<longrightarrow> k = tPriority (tcbs s t)) \<and>
     (\<forall>r k. pend_class (pendQs s r) = Some QPrioClass \<and> (k, t) \<in> set (pend_list (pendQs s r)) \<longrightarrow>
        k = tPriority (tcbs s t)) \<and>
     (live s t \<longrightarrow> status_ok (status_of s t) \<and> tPriority (tcbs s t) < 256 \<and> t \<noteq> NULL)"
  by (simp add: task_ok_def in_ready_def in_tick_def in_pend_def live_def Let_def)

lemma not_in_key:
  "\<not> in_ready s t \<Longrightarrow> (k, t) \<notin> set (readyQ s)"
  "\<not> in_pend s r t \<Longrightarrow> (k, t) \<notin> set (pend_list (pendQs s r))"
  by (auto simp: in_ready_def in_pend_def pq_nodes_def image_iff)

subsection \<open>Writing the TCB\<close>

lemma upd_tcb_reads [kernel_simps]:
  "tcbs (upd_tcb t f s) t' = (if t' = t then f (tcbs s t) else tcbs s t')"
  "readyQ (upd_tcb t f s) = readyQ s" "tickQ (upd_tcb t f s) = tickQ s"
  "pendQs (upd_tcb t f s) = pendQs s" "activeQ (upd_tcb t f s) = activeQ s"
  "wdogs (upd_tcb t f s) = wdogs s" "sems (upd_tcb t f s) = sems s"
  "sysTicks (upd_tcb t f s) = sysTicks s" "sysAbsTicks (upd_tcb t f s) = sysAbsTicks s"
  "taskIdCurrent (upd_tcb t f s) = taskIdCurrent s"
  "roundRobinOn (upd_tcb t f s) = roundRobinOn s" "roundRobinSlice (upd_tcb t f s) = roundRobinSlice s"
  "kernelState (upd_tcb t f s) = kernelState s" "intCnt (upd_tcb t f s) = intCnt s"
  "workQ (upd_tcb t f s) = workQ s"
  by (simp_all add: upd_tcb_def)

lemma tickGet_upd_tcb [kernel_simps]: "tickGet (upd_tcb t f s) = tickGet s"
  by (simp add: tickGet_def kernel_simps)

lemma tickGet_queues [kernel_simps]:
  "tickGet (s\<lparr>readyQ := q\<rparr>) = tickGet s" "tickGet (s\<lparr>tickQ := q'\<rparr>) = tickGet s"
  by (simp_all add: tickGet_def)

lemma loc_upd_tcb [kernel_simps]:
  "in_ready (upd_tcb t f s) t' = in_ready s t'" "in_tick (upd_tcb t f s) t' = in_tick s t'"
  "in_pend (upd_tcb t f s) r t' = in_pend s r t'" "live (upd_tcb t f s) t' = live s t'"
  by (simp_all add: in_ready_def in_tick_def in_pend_def live_def kernel_simps)

lemma kx_upd_tcb [kernel_simps]: "kx t (upd_tcb t f s) = kx t s"
  by (auto simp: kx_def queues_ok_def task_ok_def wdog_ok_def Let_def kernel_simps)

subsection \<open>Queue operations on one task\<close>

lemma kx_frame:
  assumes "kx t s" and "queues_ok s'" and "wdogs s' = wdogs s"
    and "\<And>t'. t' \<noteq> t \<Longrightarrow> tcbs s' t' = tcbs s t'"
    and "\<And>t'. t' \<noteq> t \<Longrightarrow> t' \<in> set (activeQ s') \<longleftrightarrow> t' \<in> set (activeQ s)"
    and "\<And>t' k. t' \<noteq> t \<Longrightarrow> (k, t') \<in> set (readyQ s') \<longleftrightarrow> (k, t') \<in> set (readyQ s)"
    and "\<And>n. n \<noteq> TaskNode t \<Longrightarrow> n \<in> pq_nodes (tickQ s') \<longleftrightarrow> n \<in> pq_nodes (tickQ s)"
    and "\<And>r t' k. t' \<noteq> t \<Longrightarrow>
      (k, t') \<in> set (pend_list (pendQs s' r)) \<longleftrightarrow> (k, t') \<in> set (pend_list (pendQs s r))"
    and "\<And>r. pend_class (pendQs s' r) = pend_class (pendQs s r)"
  shows "kx t s'"
  using assms by (simp add: kx_def task_ok_def wdog_ok_def Let_def pq_nodes_iff)

lemma rdyPut_kx:
  assumes "kx t s" "\<not> in_ready s t" "t \<noteq> NULL" "tPriority (tcbs s t) < 256"
  shows "\<exists>s'. rdyPut t s = Some s' \<and> kx t s' \<and>
    s' = s\<lparr>readyQ := pq_put (tPriority (tcbs s t)) t (readyQ s)\<rparr>"
proof -
  let ?s = "s\<lparr>readyQ := pq_put (tPriority (tcbs s t)) t (readyQ s)\<rparr>"
  have "queues_ok ?s" using assms(1,2)
    by (simp add: in_ready_def kx_def queues_ok_def pq_sorted_put pq_distinct_put)
  with assms(1) have "kx t ?s" by (rule kx_frame) auto
  then show ?thesis using assms by (simp add: rdyPut_def in_ready_def)
qed

lemma rdyRemove_kx:
  assumes "kx t s" "in_ready s t"
  shows "\<exists>s'. rdyRemove t s = Some s' \<and> kx t s' \<and> s' = s\<lparr>readyQ := pq_remove t (readyQ s)\<rparr>"
proof -
  let ?s = "s\<lparr>readyQ := pq_remove t (readyQ s)\<rparr>"
  have "queues_ok ?s" using assms(1)
    by (simp add: kx_def queues_ok_def pq_sorted_remove pq_distinct_remove)
  with assms(1) have "kx t ?s" by (rule kx_frame) auto
  then show ?thesis using assms by (simp add: rdyRemove_def in_ready_def)
qed

lemma tickPut_kx:
  assumes "kx t s" "\<not> in_tick s t"
  shows "\<exists>s'. tickPut (TaskNode t) k s = Some s' \<and> kx t s' \<and>
    s' = s\<lparr>tickQ := pq_put k (TaskNode t) (tickQ s)\<rparr>"
proof -
  let ?s = "s\<lparr>tickQ := pq_put k (TaskNode t) (tickQ s)\<rparr>"
  have "queues_ok ?s" using assms
    by (simp add: in_tick_def kx_def queues_ok_def pq_sorted_put pq_distinct_put)
  with assms(1) have "kx t ?s" by (rule kx_frame) auto
  then show ?thesis using assms by (simp add: tickPut_def in_tick_def)
qed

lemma tickRemove_kx:
  assumes "kx t s" "in_tick s t"
  shows "\<exists>s'. tickRemove (TaskNode t) s = Some s' \<and> kx t s' \<and>
    s' = s\<lparr>tickQ := pq_remove (TaskNode t) (tickQ s)\<rparr>"
proof -
  let ?s = "s\<lparr>tickQ := pq_remove (TaskNode t) (tickQ s)\<rparr>"
  have "queues_ok ?s" using assms(1)
    by (simp add: kx_def queues_ok_def pq_sorted_remove pq_distinct_remove)
  with assms(1) have "kx t ?s" by (rule kx_frame) auto
  then show ?thesis using assms by (simp add: tickRemove_def in_tick_def)
qed

definition pend_insert :: "q_class option \<Rightarrow> u32 \<Rightarrow> ptr \<Rightarrow> (u32 \<times> ptr) list \<Rightarrow> (u32 \<times> ptr) list" where
  "pend_insert c k t q =
     (if c = Some QPrioClass then pq_put k t q
      else if k = FIFO_KEY_HEAD then (k, t) # q else q @ [(k, t)])"

lemma set_pend_insert [simp]: "set (pend_insert c k t q) = insert (k, t) (set q)"
  by (auto simp: pend_insert_def)

lemma pend_ok_insert:
  assumes "pend_ok p" "pend_class p = Some QFifoClass \<or> pend_class p = Some QPrioClass"
    "t \<notin> pq_nodes (pend_list p)"
  shows "pend_ok (p\<lparr>pend_list := pend_insert (pend_class p) k t (pend_list p)\<rparr>)"
  using assms by (auto simp: pend_ok_def pend_insert_def pq_sorted_put pq_distinct_put pq_nodes_def)

lemma pendPut_kx:
  assumes "kx t s" "\<not> in_pend s r t" "t \<noteq> NULL"
    and c: "pend_class (pendQs s r) = Some QFifoClass \<or> pend_class (pendQs s r) = Some QPrioClass"
  shows "\<exists>s'. pendPut r t k s = Some s' \<and> kx t s' \<and>
    s' = s\<lparr>pendQs := (pendQs s)(r := (pendQs s r)\<lparr>pend_list :=
      pend_insert (pend_class (pendQs s r)) k t (pend_list (pendQs s r))\<rparr>)\<rparr>"
proof -
  let ?s = "s\<lparr>pendQs := (pendQs s)(r := (pendQs s r)\<lparr>pend_list :=
      pend_insert (pend_class (pendQs s r)) k t (pend_list (pendQs s r))\<rparr>)\<rparr>"
  have "queues_ok ?s" using assms pend_ok_insert [of "pendQs s r" t k]
    by (simp add: in_pend_def kx_def queues_ok_def)
  with assms(1) have "kx t ?s" by (rule kx_frame) auto
  then show ?thesis using assms(2,3) c by (auto simp: pendPut_def in_pend_def Let_def pend_insert_def)
qed

lemma pend_ok_remove: "pend_ok p \<Longrightarrow> pend_ok (p\<lparr>pend_list := pq_remove t (pend_list p)\<rparr>)"
  by (auto simp: pend_ok_def pq_sorted_remove pq_distinct_remove)

lemma pend_ok_class:
  assumes "pend_ok p" "t \<in> pq_nodes (pend_list p)"
  shows "pend_class p = Some QFifoClass \<or> pend_class p = Some QPrioClass"
  using assms by (auto simp: pend_ok_def)

lemma pendRemove_kx:
  assumes "kx t s" "in_pend s r t"
  shows "\<exists>s'. pendRemove r t s = Some (OK, s') \<and> kx t s' \<and>
    s' = s\<lparr>pendQs := (pendQs s)(r := (pendQs s r)\<lparr>pend_list := pq_remove t (pend_list (pendQs s r))\<rparr>)\<rparr>"
proof -
  let ?s = "s\<lparr>pendQs := (pendQs s)(r := (pendQs s r)\<lparr>pend_list := pq_remove t (pend_list (pendQs s r))\<rparr>)\<rparr>"
  have p: "pend_ok (pendQs s r)" using assms(1) by (simp add: kx_def queues_ok_def)
  have "queues_ok ?s" using assms(1) pend_ok_remove [OF p]
    by (simp add: kx_def queues_ok_def)
  with assms(1) have "kx t ?s" by (rule kx_frame) auto
  then show ?thesis using assms(2) pend_ok_class [OF p] by (auto simp: pendRemove_def in_pend_def Let_def)
qed


subsection \<open>Parking and waking a task\<close>

text \<open>What \<open>task_ok\<close> says apart from the ready queue.\<close>

definition blocked_ok :: "kstate \<Rightarrow> ptr \<Rightarrow> bool" where
  "blocked_ok s t \<longleftrightarrow>
     (in_tick s t \<longleftrightarrow> has_flag (status_of s t) TASK_DELAY) \<and>
     (\<forall>r. in_pend s r t \<longleftrightarrow> has_flag (status_of s t) TASK_PEND \<and> tPendQ (tcbs s t) = Some r) \<and>
     (has_flag (status_of s t) TASK_PEND \<longrightarrow> tPendQ (tcbs s t) \<noteq> None) \<and>
     (\<forall>r k. pend_class (pendQs s r) = Some QPrioClass \<and> (k, t) \<in> set (pend_list (pendQs s r)) \<longrightarrow>
        k = tPriority (tcbs s t)) \<and>
     status_ok (status_of s t) \<and> tPriority (tcbs s t) < 256 \<and> t \<noteq> NULL"

text \<open>A live task outside the ready queue, all else in order.\<close>

definition parked :: "ptr \<Rightarrow> kstate \<Rightarrow> bool" where
  "parked t s \<longleftrightarrow> kx t s \<and> live s t \<and> \<not> in_ready s t \<and> blocked_ok s t"

lemma kinv_live:
  assumes "kinv s" "live s t"
  shows "kx t s" "blocked_ok s t" "in_ready s t \<longleftrightarrow> status_of s t = TASK_READY"
    "\<And>k. (k, t) \<in> set (readyQ s) \<Longrightarrow> k = tPriority (tcbs s t)"
  using assms by (auto simp: kinv_kx [of s t] task_ok_iff blocked_ok_def)

lemma kinv_in:
  assumes "kinv s"
  shows "in_ready s t \<Longrightarrow> live s t \<and> status_of s t = TASK_READY"
    and "in_tick s t \<Longrightarrow> live s t \<and> has_flag (status_of s t) TASK_DELAY"
    and "in_pend s r t \<Longrightarrow> live s t \<and> has_flag (status_of s t) TASK_PEND \<and> tPendQ (tcbs s t) = Some r"
  using assms by (auto simp: kinv_kx [of s t] task_ok_iff)

lemma kinv_queues: "kinv s \<Longrightarrow> queues_ok s"
  by (simp add: kinv_def)

lemma parked_kinv: "parked t s \<Longrightarrow> status_of s t \<noteq> TASK_READY \<Longrightarrow> kinv s"
  by (auto simp: parked_def kinv_kx [of s t] task_ok_iff blocked_ok_def not_in_key)

lemma kinv_parked: "kinv s \<Longrightarrow> live s t \<Longrightarrow> status_of s t \<noteq> TASK_READY \<Longrightarrow> parked t s"
  using kinv_live [of s t] by (simp add: parked_def)

lemma ready_if_parked:
  assumes "parked t s"
  shows "\<exists>s'. ready_if t s = Some s' \<and> kinv s' \<and>
    s' = (if status_of s t = TASK_READY
          then s\<lparr>readyQ := pq_put (tPriority (tcbs s t)) t (readyQ s)\<rparr> else s)"
proof (cases "status_of s t = TASK_READY")
  case True
  have p: "kx t s" "live s t" "\<not> in_ready s t" "blocked_ok s t" using assms by (simp_all add: parked_def)
  then have "t \<noteq> NULL" "tPriority (tcbs s t) < 256" by (simp_all add: blocked_ok_def)
  then obtain s' where s': "rdyPut t s = Some s'" "kx t s'"
      "s' = s\<lparr>readyQ := pq_put (tPriority (tcbs s t)) t (readyQ s)\<rparr>"
    using rdyPut_kx [OF p(1,3)] by blast
  have "task_ok s' t"
    using p True by (auto simp: s'(3) task_ok_iff blocked_ok_def in_ready_def in_tick_def in_pend_def live_def
        pq_nodes_iff)
  then show ?thesis using s' True by (simp add: ready_if_def kinv_kx [of _ t])
next
  case False
  then show ?thesis using parked_kinv [OF assms] by (simp add: ready_if_def)
qed

text \<open>
  Waking a task: pend and delay bits cleared, out of the tick queue, into the ready queue unless it is
  suspended; \<open>f\<close> is what else is written into the TCB.
\<close>

definition woken :: "(TCB \<Rightarrow> TCB) \<Rightarrow> ptr \<Rightarrow> kstate \<Rightarrow> kstate" where
  "woken f t s =
     (let c = f (tcbs s t); st = clear_flag (clear_flag (tStatus c) TASK_PEND) TASK_DELAY
      in s\<lparr>tcbs := (tcbs s)(t := c\<lparr>tStatus := st\<rparr>),
           tickQ := pq_remove (TaskNode t) (tickQ s),
           readyQ := (if st = TASK_READY then pq_put (tPriority c) t (readyQ s) else readyQ s)\<rparr>)"

text \<open>A task just taken off the pend queue it was waiting in.\<close>

definition taken_off :: "ptr \<Rightarrow> kstate \<Rightarrow> bool" where
  "taken_off t s \<longleftrightarrow> kx t s \<and> live s t \<and> \<not> in_ready s t \<and> (\<forall>r. \<not> in_pend s r t) \<and>
     (in_tick s t \<longleftrightarrow> has_flag (status_of s t) TASK_DELAY) \<and>
     status_ok (status_of s t) \<and> tPriority (tcbs s t) < 256 \<and> t \<noteq> NULL"

text \<open>The statements that the routines share, for a TCB whose pend bit is clear already.\<close>

lemma undelay_parked:
  assumes k: "taken_off t s" and np: "\<not> has_flag (status_of s t) TASK_PEND"
  shows "\<exists>s'. (if has_flag (status_of s t) TASK_DELAY
      then tickRemove (TaskNode t) (status_clear t TASK_DELAY s) else Some s) = Some s' \<and> parked t s' \<and>
    s' = s\<lparr>tcbs := (tcbs s)(t := (tcbs s t)\<lparr>tStatus := clear_flag (status_of s t) TASK_DELAY\<rparr>),
      tickQ := pq_remove (TaskNode t) (tickQ s)\<rparr>"
proof (cases "has_flag (status_of s t) TASK_DELAY")
  case True
  let ?s = "status_clear t TASK_DELAY s"
  have "kx t ?s" "in_tick ?s t"
    using k True by (simp_all add: taken_off_def status_clear_def kernel_simps)
  then obtain s' where s': "tickRemove (TaskNode t) ?s = Some s'" "kx t s'"
      "s' = ?s\<lparr>tickQ := pq_remove (TaskNode t) (tickQ ?s)\<rparr>"
    using tickRemove_kx by blast
  have "parked t s'"
    using k np s'(2) by (simp add: s'(3) parked_def taken_off_def blocked_ok_def status_clear_def
        in_ready_def in_tick_def in_pend_def live_def kernel_simps pq_nodes_iff)
  then show ?thesis using True s' by (simp add: status_clear_def upd_tcb_def)
next
  case False
  have "clear_flag (status_of s t) TASK_DELAY = status_of s t"
    using False by (rule clear_flag_absent)
  moreover have "pq_remove (TaskNode t) (tickQ s) = tickQ s"
    using k False by (intro pq_remove_absent) (simp add: taken_off_def in_tick_def)
  ultimately have "s = s\<lparr>tcbs := (tcbs s)(t := (tcbs s t)\<lparr>tStatus := clear_flag (status_of s t) TASK_DELAY\<rparr>),
      tickQ := pq_remove (TaskNode t) (tickQ s)\<rparr>" by simp
  moreover have "parked t s"
    using k np False by (simp add: parked_def taken_off_def blocked_ok_def not_in_key)
  ultimately show ?thesis using False by simp
qed

lemma wake_rest:
  assumes k: "taken_off t s" and f: "\<And>c. tStatus (f c) = tStatus c" "\<And>c. tPriority (f c) = tPriority c"
  defines "s1 \<equiv> upd_tcb t (\<lambda>c. (f c)\<lparr>tStatus := clear_flag (tStatus c) TASK_PEND\<rparr>) s"
  shows "(do {
      s \<leftarrow> (if has_flag (status_of s1 t) TASK_DELAY
           then tickRemove (TaskNode t) (status_clear t TASK_DELAY s1) else Some s1);
      ready_if t s }) = Some (woken f t s)" and "kinv (woken f t s)"
proof -
  have "taken_off t s1" "\<not> has_flag (status_of s1 t) TASK_PEND"
    using k f by (simp_all add: taken_off_def s1_def kernel_simps)
  then obtain s2 where s2: "(if has_flag (status_of s1 t) TASK_DELAY
      then tickRemove (TaskNode t) (status_clear t TASK_DELAY s1) else Some s1) = Some s2" "parked t s2"
      "s2 = s1\<lparr>tcbs := (tcbs s1)(t := (tcbs s1 t)\<lparr>tStatus := clear_flag (status_of s1 t) TASK_DELAY\<rparr>),
        tickQ := pq_remove (TaskNode t) (tickQ s1)\<rparr>"
    using undelay_parked by blast
  obtain s3 where s3: "ready_if t s2 = Some s3" "kinv s3"
      "s3 = (if status_of s2 t = TASK_READY
          then s2\<lparr>readyQ := pq_put (tPriority (tcbs s2 t)) t (readyQ s2)\<rparr> else s2)"
    using ready_if_parked [OF s2(2)] by blast
  have "s3 = woken f t s"
    unfolding s3(3) s2(3) s1_def woken_def using f
    by (simp add: Let_def upd_tcb_def)
  then show "(do {
      s \<leftarrow> (if has_flag (status_of s1 t) TASK_DELAY
           then tickRemove (TaskNode t) (status_clear t TASK_DELAY s1) else Some s1);
      ready_if t s }) = Some (woken f t s)" "kinv (woken f t s)"
    using s3(1,2) unfolding s2(1) by simp_all
qed

lemma tcb_update_order [kernel_simps]:
  "c\<lparr>tStatus := a, tEax := b\<rparr> = c\<lparr>tEax := b, tStatus := a\<rparr>"
  "c\<lparr>tStatus := a, tErrorStatus := e\<rparr> = c\<lparr>tErrorStatus := e, tStatus := a\<rparr>"
  by (rule TCB.equality, simp_all)+

lemma vmxReadyQPut_woken:
  assumes "taken_off t s"
  shows "vmxReadyQPut t s = Some (woken (\<lambda>c. c\<lparr>tEax := OK\<rparr>) t s)" and "kinv (woken (\<lambda>c. c\<lparr>tEax := OK\<rparr>) t s)"
proof -
  have eq: "taskRetValueSet t OK (status_clear t TASK_PEND s) =
      upd_tcb t (\<lambda>c. (c\<lparr>tEax := OK\<rparr>)\<lparr>tStatus := clear_flag (tStatus c) TASK_PEND\<rparr>) s"
    by (simp add: taskRetValueSet_def status_clear_def upd_tcb_def tcb_update_order)
  show "vmxReadyQPut t s = Some (woken (\<lambda>c. c\<lparr>tEax := OK\<rparr>) t s)" "kinv (woken (\<lambda>c. c\<lparr>tEax := OK\<rparr>) t s)"
    using wake_rest [OF assms, of "\<lambda>c. c\<lparr>tEax := OK\<rparr>"] unfolding vmxReadyQPut_def Let_def eq
    by (simp_all split del: if_split)
qed

lemma pend_deleted_woken:
  assumes "taken_off t s"
  defines "f \<equiv> \<lambda>c. c\<lparr>tErrorStatus := TASK_DELETED, tEax := ERROR\<rparr>"
  shows "pend_deleted t s = Some (woken f t s)" and "kinv (woken f t s)"
proof -
  have eq: "taskRetValueSet t ERROR (upd_tcb t (\<lambda>c. c\<lparr>tErrorStatus := TASK_DELETED\<rparr>) (status_clear t TASK_PEND s)) =
      upd_tcb t (\<lambda>c. (f c)\<lparr>tStatus := clear_flag (tStatus c) TASK_PEND\<rparr>) s"
    by (simp add: taskRetValueSet_def status_clear_def upd_tcb_def f_def tcb_update_order)
  show "pend_deleted t s = Some (woken f t s)" "kinv (woken f t s)"
    using wake_rest [OF assms(1), of f] unfolding pend_deleted_def Let_def eq
    by (simp_all add: f_def split del: if_split)
qed

end
