(* ===== verification/VmxOps.thy ===== *)
theory VmxOps
  imports VmxInv
begin

text \<open>
  What each kernel routine does under the invariant: it is defined, it keeps the invariant, and its
  effect is given as one update of the state (\<open>woken\<close> for the routines that make a task runnable).
\<close>

subsection \<open>Taking tasks off a pend queue\<close>

definition pend_set :: "qref \<Rightarrow> (u32 \<times> ptr) list \<Rightarrow> kstate \<Rightarrow> kstate" where
  "pend_set r q s = s\<lparr>pendQs := (pendQs s)(r := (pendQs s r)\<lparr>pend_list := q\<rparr>)\<rparr>"

definition pend_usable :: "kstate \<Rightarrow> qref \<Rightarrow> bool" where
  "pend_usable s r \<longleftrightarrow>
     pend_class (pendQs s r) = Some QFifoClass \<or> pend_class (pendQs s r) = Some QPrioClass"

lemma pend_set_reads [kernel_simps]:
  "readyQ (pend_set r q s) = readyQ s" "tickQ (pend_set r q s) = tickQ s"
  "activeQ (pend_set r q s) = activeQ s" "tcbs (pend_set r q s) = tcbs s"
  "wdogs (pend_set r q s) = wdogs s" "sems (pend_set r q s) = sems s"
  "pendQs (pend_set r q s) r' = (if r' = r then (pendQs s r)\<lparr>pend_list := q\<rparr> else pendQs s r')"
  "taskIdCurrent (pend_set r q s) = taskIdCurrent s"
  "sysTicks (pend_set r q s) = sysTicks s" "tickGet (pend_set r q s) = tickGet s"
  by (simp_all add: pend_set_def tickGet_def)

lemma woken_reads [kernel_simps]:
  "activeQ (woken f t s) = activeQ s" "pendQs (woken f t s) = pendQs s"
  "wdogs (woken f t s) = wdogs s" "sems (woken f t s) = sems s"
  "taskIdCurrent (woken f t s) = taskIdCurrent s"
  "sysTicks (woken f t s) = sysTicks s" "tickGet (woken f t s) = tickGet s"
  "kernelState (woken f t s) = kernelState s" "intCnt (woken f t s) = intCnt s"
  "workQ (woken f t s) = workQ s"
  "roundRobinOn (woken f t s) = roundRobinOn s" "roundRobinSlice (woken f t s) = roundRobinSlice s"
  "t' \<noteq> t \<Longrightarrow> tcbs (woken f t s) t' = tcbs s t'"
  "tcbs (woken f t s) t = (f (tcbs s t))\<lparr>tStatus :=
     clear_flag (clear_flag (tStatus (f (tcbs s t))) TASK_PEND) TASK_DELAY\<rparr>"
  by (simp_all add: woken_def Let_def tickGet_def)

lemma kinv_pend_distinct: "kinv s \<Longrightarrow> distinct (map snd (pend_list (pendQs s r)))"
  by (simp add: kinv_def queues_ok_def pend_ok_def)

lemma pend_head_taken:
  assumes "kinv s" and l: "pend_list (pendQs s r) = (k, t) # q"
  shows "pendGet r s = Some (t, pend_set r q s)" and "taken_off t (pend_set r q s)"
    and "live s t" and "t \<noteq> NULL" and "pendRemove r t s = Some (OK, pend_set r q s)"
proof -
  have t: "in_pend s r t" by (simp add: in_pend_def l)
  have lv: "live s t" "has_flag (status_of s t) TASK_PEND" "tPendQ (tcbs s t) = Some r"
    using kinv_in(3) [OF assms(1) t] by simp_all
  note kl = kinv_live [OF assms(1) lv(1)]
  have d: "distinct (map snd ((k, t) # q))" using kinv_pend_distinct [OF assms(1), of r] l by simp
  then have rem: "pq_remove t ((k, t) # q) = q" using pq_remove_split [of "[]" k t q] by simp
  obtain s' where s': "pendRemove r t s = Some (OK, s')" "kx t s'" "s' = pend_set r q s"
    using pendRemove_kx [OF kl(1) t] by (auto simp: l rem pend_set_def)
  then show "pendRemove r t s = Some (OK, pend_set r q s)" by simp
  have "pend_ok (pendQs s r)" using assms(1) by (simp add: kinv_def queues_ok_def)
  then show "pendGet r s = Some (t, pend_set r q s)"
    using pend_ok_class [of "pendQs s r" t] t by (auto simp: pendGet_def l pend_set_def in_pend_def Let_def)
  show "live s t" by (rule lv(1))
  show tn: "t \<noteq> NULL" using kl(2) by (simp add: blocked_ok_def)
  have "status_of s t \<noteq> TASK_READY" using lv(2) by auto
  then have "\<not> in_ready s t" using kl(3) by simp
  moreover have "\<not> in_pend (pend_set r q s) r' t" for r'
    using kl(2) lv(3) d by (auto simp: in_pend_def kernel_simps blocked_ok_def pq_nodes_def)
  ultimately show "taken_off t (pend_set r q s)"
    using s'(2,3) lv(1) kl(2) tn by (simp add: taken_off_def live_def in_ready_def in_tick_def blocked_ok_def
        kernel_simps)
qed

text \<open>The task at the head gets what it was waiting for.\<close>

definition got :: "TCB \<Rightarrow> TCB" where "got c = c\<lparr>tEax := OK\<rparr>"

definition object_gone :: "TCB \<Rightarrow> TCB" where "object_gone c = c\<lparr>tErrorStatus := TASK_DELETED, tEax := ERROR\<rparr>"

lemma vmxPendQGet_head:
  assumes "kinv s" and "pend_list (pendQs s r) = (k, t) # q"
  shows "vmxPendQGet r s = Some (woken got t (pend_set r q s))" and "kinv (woken got t (pend_set r q s))"
proof -
  note h = pend_head_taken [OF assms]
  show "vmxPendQGet r s = Some (woken got t (pend_set r q s))"
    using h(1,4) vmxReadyQPut_woken(1) [OF h(2)] by (simp add: vmxPendQGet_def got_def [abs_def])
  show "kinv (woken got t (pend_set r q s))"
    using vmxReadyQPut_woken(2) [OF h(2)] by (simp add: got_def [abs_def])
qed

text \<open>All the tasks of a pend queue, in the order of the queue.\<close>

fun wake_list :: "(TCB \<Rightarrow> TCB) \<Rightarrow> qref \<Rightarrow> (u32 \<times> ptr) list \<Rightarrow> kstate \<Rightarrow> kstate" where
  "wake_list f r [] s = s"
| "wake_list f r ((k, t) # q) s = wake_list f r q (woken f t (pend_set r q s))"

lemma vmxPendQFlush_all:
  assumes "kinv s" and "pend_usable s r"
  shows "vmxPendQFlush r s = Some (wake_list got r (pend_list (pendQs s r)) s)"
    and "kinv (wake_list got r (pend_list (pendQs s r)) s)"
proof -
  have "pend_list (pendQs s r) = q \<Longrightarrow>
      vmxPendQFlush r s = Some (wake_list got r q s) \<and> kinv (wake_list got r q s)" for q
    using assms
  proof (induction q arbitrary: s)
    case Nil
    then show ?case by (subst vmxPendQFlush.simps) (auto simp: pendGet_def pend_usable_def Let_def)
  next
    case (Cons e q)
    obtain k t where e: "e = (k, t)" by (cases e)
    have l: "pend_list (pendQs s r) = (k, t) # q" using Cons.prems(1) e by simp
    let ?s = "woken got t (pend_set r q s)"
    note h = pend_head_taken [OF Cons.prems(2) l]
    have "vmxReadyQPut t (pend_set r q s) = Some ?s" "kinv ?s"
      using vmxReadyQPut_woken [OF h(2)] by (simp_all add: got_def [abs_def])
    moreover have "pend_list (pendQs ?s r) = q" "pend_usable ?s r"
      using Cons.prems(3) by (simp_all add: kernel_simps pend_usable_def)
    ultimately show ?case using Cons.IH [of ?s] h(1,4) e
      by (subst vmxPendQFlush.simps) simp
  qed
  then show "vmxPendQFlush r s = Some (wake_list got r (pend_list (pendQs s r)) s)"
    "kinv (wake_list got r (pend_list (pendQs s r)) s)" by blast+
qed

lemma vmxPendQTerminate_all:
  assumes "kinv s" and "pend_usable s r"
  shows "vmxPendQTerminate r s = Some (wake_list object_gone r (pend_list (pendQs s r)) s)"
    and "kinv (wake_list object_gone r (pend_list (pendQs s r)) s)"
proof -
  have "pend_list (pendQs s r) = q \<Longrightarrow>
      vmxPendQTerminate r s = Some (wake_list object_gone r q s) \<and> kinv (wake_list object_gone r q s)" for q
    using assms
  proof (induction q arbitrary: s)
    case Nil
    then show ?case by (subst vmxPendQTerminate.simps) (auto simp: pendGet_def pend_usable_def Let_def)
  next
    case (Cons e q)
    obtain k t where e: "e = (k, t)" by (cases e)
    have l: "pend_list (pendQs s r) = (k, t) # q" using Cons.prems(1) e by simp
    let ?s = "woken object_gone t (pend_set r q s)"
    note h = pend_head_taken [OF Cons.prems(2) l]
    have "pend_deleted t (pend_set r q s) = Some ?s" "kinv ?s"
      using pend_deleted_woken [OF h(2)] by (simp_all add: object_gone_def [abs_def])
    moreover have "pend_list (pendQs ?s r) = q" "pend_usable ?s r"
      using Cons.prems(3) by (simp_all add: kernel_simps pend_usable_def)
    ultimately show ?case using Cons.IH [of ?s] h(1,4) e
      by (subst vmxPendQTerminate.simps) simp
  qed
  then show "vmxPendQTerminate r s = Some (wake_list object_gone r (pend_list (pendQs s r)) s)"
    "kinv (wake_list object_gone r (pend_list (pendQs s r)) s)" by blast+
qed

lemma wake_list_reads [kernel_simps]:
  "activeQ (wake_list f r q s) = activeQ s" "wdogs (wake_list f r q s) = wdogs s"
  "sems (wake_list f r q s) = sems s" "taskIdCurrent (wake_list f r q s) = taskIdCurrent s"
  "tickGet (wake_list f r q s) = tickGet s" "sysTicks (wake_list f r q s) = sysTicks s"
  "r' \<noteq> r \<Longrightarrow> pendQs (wake_list f r q s) r' = pendQs s r'"
  "pend_class (pendQs (wake_list f r q s) r) = pend_class (pendQs s r)"
  by (induction f r q s rule: wake_list.induct) (simp_all add: kernel_simps)

lemma wake_list_pend: "pend_list (pendQs s r) = q \<Longrightarrow> pend_list (pendQs (wake_list f r q s) r) = []"
proof (induction f r q s rule: wake_list.induct)
  case (2 f r k t q s)
  show ?case using 2(1) by (simp add: kernel_simps)
qed simp

lemma wake_list_tcb:
  assumes "distinct (map snd q)"
  shows "tcbs (wake_list f r q s) t =
    (if t \<in> snd ` set q
     then (f (tcbs s t))\<lparr>tStatus := clear_flag (clear_flag (tStatus (f (tcbs s t))) TASK_PEND) TASK_DELAY\<rparr>
     else tcbs s t)"
  using assms
proof (induction f r q s rule: wake_list.induct)
  case (2 f r k t' q s)
  then show ?case by (cases "t = t'") (auto simp: kernel_simps)
qed simp


subsection \<open>Leaving and entering the ready queue\<close>

lemma leave_ready:
  assumes "kinv s" and "live s t" and "status_of s t = TASK_READY"
  shows "rdyRemove t s = Some (s\<lparr>readyQ := pq_remove t (readyQ s)\<rparr>)"
    and "parked t (s\<lparr>readyQ := pq_remove t (readyQ s)\<rparr>)"
proof -
  let ?s = "s\<lparr>readyQ := pq_remove t (readyQ s)\<rparr>"
  note k = kinv_live [OF assms(1,2)]
  have "in_ready s t" using k(3) assms(3) by simp
  then obtain s' where s': "rdyRemove t s = Some s'" "kx t s'" "s' = ?s"
    using rdyRemove_kx [OF k(1)] by blast
  then show "rdyRemove t s = Some ?s" by simp
  show "parked t ?s"
    using s'(2,3) assms(2) k(2) by (simp add: parked_def live_def in_ready_def in_tick_def in_pend_def blocked_ok_def)
qed

lemma parked_flag:
  assumes "parked t s" and "status_ok (g (status_of s t))"
    and "has_flag (g (status_of s t)) TASK_DELAY = has_flag (status_of s t) TASK_DELAY"
    and "has_flag (g (status_of s t)) TASK_PEND = has_flag (status_of s t) TASK_PEND"
  shows "parked t (upd_tcb t (\<lambda>c. c\<lparr>tStatus := g (tStatus c)\<rparr>) s)"
  using assms by (simp add: parked_def blocked_ok_def kernel_simps)

lemma vmxSuspend_ok:
  assumes "kinv s" and "live s t"
  shows "vmxSuspend t s = Some ((status_set t TASK_SUSPEND s)\<lparr>readyQ := pq_remove t (readyQ s)\<rparr>)"
    and "kinv ((status_set t TASK_SUSPEND s)\<lparr>readyQ := pq_remove t (readyQ s)\<rparr>)"
proof -
  note k = kinv_live [OF assms]
  let ?s = "s\<lparr>readyQ := pq_remove t (readyQ s)\<rparr>"
  have run: "(if status_of s t = TASK_READY then rdyRemove t s else Some s) = Some ?s" and p: "parked t ?s"
  proof (atomize (full), cases "status_of s t = TASK_READY")
    case True
    then show "(if status_of s t = TASK_READY then rdyRemove t s else Some s) = Some ?s \<and> parked t ?s"
      using leave_ready [OF assms True] by simp
  next
    case False
    then have "\<not> in_ready s t" using k(3) by simp
    then have "pq_remove t (readyQ s) = readyQ s" by (intro pq_remove_absent) (simp add: in_ready_def)
    then show "(if status_of s t = TASK_READY then rdyRemove t s else Some s) = Some ?s \<and> parked t ?s"
      using False kinv_parked [OF assms False] by simp
  qed
  have st: "status_ok (status_of s t)" using k(2) by (simp add: blocked_ok_def)
  have "parked t (status_set t TASK_SUSPEND ?s)"
    unfolding status_set_def by (rule parked_flag [OF p]) (simp_all add: st)
  moreover have "status_of (status_set t TASK_SUSPEND ?s) t \<noteq> TASK_READY"
  proof
    assume "status_of (status_set t TASK_SUSPEND ?s) t = TASK_READY"
    then have "has_flag (set_flag (status_of s t) TASK_SUSPEND) TASK_SUSPEND = has_flag 0 TASK_SUSPEND"
      by (simp add: status_set_def kernel_simps)
    then show False by simp
  qed
  ultimately have "kinv (status_set t TASK_SUSPEND ?s)" by (rule parked_kinv)
  moreover have eq: "status_set t TASK_SUSPEND ?s =
      (status_set t TASK_SUSPEND s)\<lparr>readyQ := pq_remove t (readyQ s)\<rparr>"
    by (simp add: status_set_def upd_tcb_def)
  ultimately show "kinv ((status_set t TASK_SUSPEND s)\<lparr>readyQ := pq_remove t (readyQ s)\<rparr>)" by simp
  show "vmxSuspend t s = Some ((status_set t TASK_SUSPEND s)\<lparr>readyQ := pq_remove t (readyQ s)\<rparr>)"
    using run eq unfolding vmxSuspend_def by simp
qed

lemma vmxResume_ok:
  assumes "kinv s" and "live s t"
  shows "\<exists>s'. vmxResume t s = Some s' \<and> kinv s' \<and>
    s' = (if status_of s t = TASK_SUSPEND
          then (status_clear t TASK_SUSPEND s)\<lparr>readyQ := pq_put (tPriority (tcbs s t)) t (readyQ s)\<rparr>
          else status_clear t TASK_SUSPEND s)"
proof -
  note k = kinv_live [OF assms]
  have st: "status_ok (status_of s t)" "t \<noteq> NULL" "tPriority (tcbs s t) < 256"
    using k(2) by (simp_all add: blocked_ok_def)
  show ?thesis
  proof (cases "status_of s t = TASK_READY")
    case True
    have "status_clear t TASK_SUSPEND s = s"
      by (simp add: status_clear_def upd_tcb_def clear_flag_def True fun_upd_idem)
    then show ?thesis using assms(1) True by (simp add: vmxResume_def)
  next
    case False
    have p: "parked t s" using assms False by (rule kinv_parked)
    have p': "parked t (status_clear t TASK_SUSPEND s)"
      unfolding status_clear_def by (rule parked_flag [OF p]) (simp_all add: st)
    have z: "status_of (status_clear t TASK_SUSPEND s) t = TASK_READY \<longleftrightarrow> status_of s t = TASK_SUSPEND"
      using st(1) False
      by (cases rule: status_ok_cases) (simp_all add: status_clear_def kernel_simps clear_flag_def)
    obtain s' where s': "ready_if t (status_clear t TASK_SUSPEND s) = Some s'" "kinv s'"
      "s' = (if status_of (status_clear t TASK_SUSPEND s) t = TASK_READY
          then (status_clear t TASK_SUSPEND s)\<lparr>readyQ := pq_put (tPriority (tcbs s t)) t (readyQ s)\<rparr>
          else status_clear t TASK_SUSPEND s)"
    proof -
      have r: "tPriority (tcbs (status_clear t TASK_SUSPEND s) t) = tPriority (tcbs s t)"
        "readyQ (status_clear t TASK_SUSPEND s) = readyQ s" by (simp_all add: status_clear_def kernel_simps)
      show thesis using ready_if_parked [OF p', unfolded r] that by blast
    qed
    have "vmxResume t s = Some s'"
    proof (cases "status_of s t = TASK_SUSPEND")
      case True
      have "t \<notin> pq_nodes (readyQ s)" using k(3) False by (simp add: in_ready_def)
      then show ?thesis using True z s'(3) st
        by (simp add: vmxResume_def rdyPut_def status_clear_def upd_tcb_def)
    qed (use z s'(3) in \<open>simp add: vmxResume_def\<close>)
    then show ?thesis using s'(2,3) z by auto
  qed
qed

lemma vmxSpawn_ok:
  assumes "kinv s" and "t \<noteq> NULL" and "\<not> live s t" and "status_of s t = TASK_SUSPEND"
    and "tPriority (tcbs s t) < 256"
  shows "vmxSpawn t s = Some (s\<lparr>activeQ := activeQ s @ [t]\<rparr>)" and "kinv (s\<lparr>activeQ := activeQ s @ [t]\<rparr>)"
proof -
  let ?s = "s\<lparr>activeQ := activeQ s @ [t]\<rparr>"
  show "vmxSpawn t s = Some ?s" using assms by (simp add: vmxSpawn_def activePut_def live_def)
  have kx: "kx t s" and ok: "task_ok s t" using assms(1) kinv_kx by blast+
  have "queues_ok ?s" using assms(1,3) by (simp add: kinv_def queues_ok_def live_def)
  with kx have kx': "kx t ?s" by (rule kx_frame) auto
  have "\<not> has_flag 1 TASK_PEND" "\<not> has_flag 1 TASK_DELAY" "status_ok 1"
    by (simp_all add: has_flag_def status_ok_def)
  then have "task_ok ?s t" using ok assms
    by (auto simp: task_ok_def Let_def live_def pq_nodes_iff)
  then show "kinv ?s" using kx' kinv_kx by blast
qed


subsection \<open>Timeouts\<close>

lemma word_sub_mono:
  fixes a b d :: "'a::len word"
  assumes "d \<le> a" and "a \<le> b"
  shows "a - d \<le> b - d"
proof -
  have "d \<le> b" using assms by (rule order_trans)
  then show ?thesis using assms by (simp add: word_le_nat_alt unat_sub_if')
qed

lemma sorted_offset:
  fixes d :: "'a::len word"
  assumes "sorted (map fst q)" and "\<forall>e\<in>set q. d \<le> fst e"
  shows "sorted (map (\<lambda>e. fst e - d) q)"
  using assms by (induction q) (auto intro: word_sub_mono)

lemma not_plus_1: "NOT (x :: 'a::len word) + 1 = - x"
  by (simp add: not_eq_complement)

lemma tick_overflow_reads [kernel_simps]:
  "readyQ (tick_overflow d s) = readyQ s" "activeQ (tick_overflow d s) = activeQ s"
  "pendQs (tick_overflow d s) = pendQs s" "tcbs (tick_overflow d s) = tcbs s"
  "wdogs (tick_overflow d s) = wdogs s" "sems (tick_overflow d s) = sems s"
  "taskIdCurrent (tick_overflow d s) = taskIdCurrent s" "tickGet (tick_overflow d s) = tickGet s"
  "map snd (tickQ (tick_overflow d s)) = map snd (tickQ s)"
  "sysAbsTicks (tick_overflow d s) = sysAbsTicks s" "workQ (tick_overflow d s) = workQ s"
  "kernelState (tick_overflow d s) = kernelState s" "intCnt (tick_overflow d s) = intCnt s"
  by (simp_all add: tick_overflow_def tickOffset_def tickGet_def comp_def)

lemma tick_overflow_nodes [kernel_simps]: "pq_nodes (tickQ (tick_overflow d s)) = pq_nodes (tickQ s)"
  using arg_cong [OF tick_overflow_reads(9), of set d s] by (simp add: pq_nodes_def)

lemma tick_overflow_queues:
  assumes "queues_ok s" and "clock_ok s"
  shows "queues_ok (tick_overflow d s)" and "clock_ok (tick_overflow d s)"
    and "sysTicks (tick_overflow d s) \<le> d + sysTicks (tick_overflow d s)"
proof -
  have sorted: "pq_sorted (tickQ (tick_overflow d s))"
  proof -
    have "sorted (map fst (tickQ s))" "\<forall>e\<in>set (tickQ s). sysTicks s \<le> fst e"
      using assms by (simp_all add: queues_ok_def clock_ok_def pq_sorted_def)
    then have "sorted (map (\<lambda>e. fst e - sysTicks s) (tickQ s))"
      by (rule sorted_offset)
    then show ?thesis using assms
      by (simp add: tick_overflow_def tickOffset_def pq_sorted_def not_plus_1 comp_def queues_ok_def)
  qed
  then show "queues_ok (tick_overflow d s)"
    using assms(1) tick_overflow_reads(9) [of d s] by (simp add: queues_ok_def kernel_simps)
  show "clock_ok (tick_overflow d s)"
    using assms by (auto simp: tick_overflow_def tickOffset_def queues_ok_def clock_ok_def tickGet_def)
  show "sysTicks (tick_overflow d s) \<le> d + sysTicks (tick_overflow d s)"
    by (auto simp: tick_overflow_def tickOffset_def not_less add.commute)
qed

lemma tick_overflow_kx:
  assumes "kx t s" and "clock_ok s"
  shows "kx t (tick_overflow d s)"
proof -
  have "queues_ok (tick_overflow d s)" using assms tick_overflow_queues(1) by (simp add: kx_def)
  with assms(1) show ?thesis by (rule kx_frame) (simp_all add: kernel_simps)
qed

lemma tick_overflow_loc [kernel_simps]:
  "in_ready (tick_overflow d s) t = in_ready s t" "in_tick (tick_overflow d s) t = in_tick s t"
  "in_pend (tick_overflow d s) r t = in_pend s r t" "live (tick_overflow d s) t = live s t"
  by (simp_all add: in_ready_def in_tick_def in_pend_def live_def kernel_simps)

text \<open>The state after a parked task was given a timeout.\<close>

definition timed :: "ptr \<Rightarrow> u32 \<Rightarrow> kstate \<Rightarrow> kstate" where
  "timed t d s =
     (let s1 = tick_overflow d s
      in (status_set t TASK_DELAY s1)\<lparr>tickQ := pq_put (d + sysTicks s1) (TaskNode t) (tickQ s1)\<rparr>)"

lemma timed_reads [kernel_simps]:
  "readyQ (timed t d s) = readyQ s" "activeQ (timed t d s) = activeQ s"
  "pendQs (timed t d s) = pendQs s" "wdogs (timed t d s) = wdogs s" "sems (timed t d s) = sems s"
  "taskIdCurrent (timed t d s) = taskIdCurrent s" "tickGet (timed t d s) = tickGet s"
  "tcbs (timed t d s) t' = (if t' = t then (tcbs s t)\<lparr>tStatus := set_flag (status_of s t) TASK_DELAY\<rparr>
     else tcbs s t')"
  "sysTicks (timed t d s) = sysTicks (tick_overflow d s)"
  "tickQ (timed t d s) = pq_put (d + sysTicks (tick_overflow d s)) (TaskNode t) (tickQ (tick_overflow d s))"
  by (simp_all add: timed_def Let_def status_set_def kernel_simps tickGet_def upd_tcb_def)

lemma time_parked:
  assumes "parked t s" and "\<not> has_flag (status_of s t) TASK_DELAY" and "clock_ok s"
  shows "tickPut (TaskNode t) (d + sysTicks (tick_overflow d s)) (tick_overflow d s) =
      Some ((tick_overflow d s)\<lparr>tickQ := pq_put (d + sysTicks (tick_overflow d s)) (TaskNode t)
        (tickQ (tick_overflow d s))\<rparr>)"
    and "parked t (timed t d s)" and "kinv (timed t d s)" and "clock_ok (timed t d s)"
proof -
  let ?s = "tick_overflow d s"
  have p: "kx t s" "live s t" "\<not> in_ready s t" "blocked_ok s t" using assms(1) by (simp_all add: parked_def)
  have nt: "\<not> in_tick ?s t" using p(4) assms(2) by (simp add: blocked_ok_def kernel_simps)
  have q: "queues_ok s" using p(1) by (simp add: kx_def)
  obtain s' where s': "tickPut (TaskNode t) (d + sysTicks ?s) ?s = Some s'" "kx t s'"
      "s' = ?s\<lparr>tickQ := pq_put (d + sysTicks ?s) (TaskNode t) (tickQ ?s)\<rparr>"
    using tickPut_kx [OF tick_overflow_kx [OF p(1) assms(3)] nt] by blast
  then show "tickPut (TaskNode t) (d + sysTicks ?s) ?s =
      Some (?s\<lparr>tickQ := pq_put (d + sysTicks ?s) (TaskNode t) (tickQ ?s)\<rparr>)" by simp
  have eq: "timed t d s = status_set t TASK_DELAY s'"
    unfolding s'(3) timed_def Let_def by (simp add: status_set_def upd_tcb_def)
  have "kx t (timed t d s)" unfolding eq status_set_def by (simp add: kx_upd_tcb s'(2))
  moreover have "in_tick (timed t d s) t" by (simp add: in_tick_def kernel_simps)
  ultimately show pk: "parked t (timed t d s)"
    using p by (simp add: parked_def blocked_ok_def in_ready_def in_pend_def live_def kernel_simps)
  have "status_of (timed t d s) t \<noteq> TASK_READY"
  proof
    assume "status_of (timed t d s) t = TASK_READY"
    then have "has_flag (set_flag (status_of s t) TASK_DELAY) TASK_DELAY = has_flag 0 TASK_DELAY"
      by (simp add: kernel_simps)
    then show False by simp
  qed
  then show "kinv (timed t d s)" using parked_kinv [OF pk] by simp
  show "clock_ok (timed t d s)"
    using tick_overflow_queues(2,3) [OF q assms(3), of d] by (auto simp: clock_ok_def kernel_simps)
qed

lemma vmxDelay_ok:
  assumes "kinv s" and ck: "clock_ok s" and c: "taskIdCurrent s = t" "live s t" "status_of s t = TASK_READY"
  defines "s1 \<equiv> s\<lparr>readyQ := pq_remove t (readyQ s)\<rparr>"
  shows "vmxDelay d s = Some (OK, timed t d s1)" and "kinv (timed t d s1)" and "clock_ok (timed t d s1)"
proof -
  note l = leave_ready [OF assms(1) c(2,3), folded s1_def]
  have nd: "\<not> has_flag (status_of s1 t) TASK_DELAY" using c by (simp add: s1_def)
  have "clock_ok s1" by (rule clock_ok_frame [OF ck]) (simp_all add: s1_def tickGet_def)
  note tp = time_parked [OF l(2) nd this, of d]
  have cur: "taskIdCurrent s1 = t" using c by (simp add: s1_def)
  show "vmxDelay d s = Some (OK, timed t d s1)"
    using l(1) tp(1) c(1) cur
    by (simp add: vmxDelay_def Let_def kernel_simps) (simp add: timed_def Let_def status_set_def upd_tcb_def)
  show "kinv (timed t d s1)" "clock_ok (timed t d s1)" by (rule tp(3,4))+
qed

subsection \<open>Pending\<close>

text \<open>The state after a parked task was put on a pend queue; \<open>f\<close> writes the rest of its TCB.\<close>

definition pended :: "(TCB \<Rightarrow> TCB) \<Rightarrow> qref \<Rightarrow> ptr \<Rightarrow> kstate \<Rightarrow> kstate" where
  "pended f r t s =
     pend_set r (pend_insert (pend_class (pendQs s r)) (tPriority (tcbs s t)) t (pend_list (pendQs s r)))
       (upd_tcb t (\<lambda>c. (f c)\<lparr>tStatus := set_flag (tStatus c) TASK_PEND, tPendQ := Some r\<rparr>) s)"

lemma pended_reads [kernel_simps]:
  "readyQ (pended f r t s) = readyQ s" "tickQ (pended f r t s) = tickQ s"
  "activeQ (pended f r t s) = activeQ s" "wdogs (pended f r t s) = wdogs s" "sems (pended f r t s) = sems s"
  "taskIdCurrent (pended f r t s) = taskIdCurrent s"
  "sysTicks (pended f r t s) = sysTicks s" "tickGet (pended f r t s) = tickGet s"
  "tcbs (pended f r t s) t' = (if t' = t
     then (f (tcbs s t))\<lparr>tStatus := set_flag (status_of s t) TASK_PEND, tPendQ := Some r\<rparr> else tcbs s t')"
  "pend_class (pendQs (pended f r t s) r') = pend_class (pendQs s r')"
  "pend_list (pendQs (pended f r t s) r') = (if r' = r
     then pend_insert (pend_class (pendQs s r)) (tPriority (tcbs s t)) t (pend_list (pendQs s r))
     else pend_list (pendQs s r'))"
  by (simp_all add: pended_def kernel_simps)

lemma pend_parked:
  assumes p: "parked t s" and np: "\<not> has_flag (status_of s t) TASK_PEND" and u: "pend_usable s r"
    and f: "\<And>c. tStatus (f c) = tStatus c" "\<And>c. tPriority (f c) = tPriority c"
  shows "pendPut r t (tPriority (tcbs s t))
      (upd_tcb t (\<lambda>c. (f c)\<lparr>tStatus := set_flag (tStatus c) TASK_PEND, tPendQ := Some r\<rparr>) s) =
      Some (pended f r t s)"
    and "parked t (pended f r t s)" and "status_of (pended f r t s) t \<noteq> TASK_READY"
proof -
  let ?u = "upd_tcb t (\<lambda>c. (f c)\<lparr>tStatus := set_flag (tStatus c) TASK_PEND, tPendQ := Some r\<rparr>) s"
  have k: "kx t s" "live s t" "\<not> in_ready s t" "blocked_ok s t" using p by (simp_all add: parked_def)
  have n: "\<And>r. \<not> in_pend s r t" "t \<noteq> NULL" using k(4) np by (auto simp: blocked_ok_def)
  have nu: "kx t ?u" "\<not> in_pend ?u r t" using k(1) n by (simp_all add: kernel_simps)
  have cu: "pend_class (pendQs ?u r) = Some QFifoClass \<or> pend_class (pendQs ?u r) = Some QPrioClass"
    using u by (simp add: pend_usable_def kernel_simps)
  obtain s' where s': "pendPut r t (tPriority (tcbs s t)) ?u = Some s'" "kx t s'"
      "s' = ?u\<lparr>pendQs := (pendQs ?u)(r := (pendQs ?u r)\<lparr>pend_list :=
        pend_insert (pend_class (pendQs ?u r)) (tPriority (tcbs s t)) t (pend_list (pendQs ?u r))\<rparr>)\<rparr>"
    using pendPut_kx [OF nu n(2) cu] by blast
  have eq: "s' = pended f r t s" unfolding s'(3) pended_def pend_set_def by (simp add: kernel_simps)
  then show "pendPut r t (tPriority (tcbs s t)) ?u = Some (pended f r t s)" using s'(1) by simp
  have "(k, t) \<notin> set (pend_list (pendQs s r'))" for k r' using not_in_key(2) [OF n(1)] .
  then show "parked t (pended f r t s)"
    using s'(2) k n f unfolding eq
    by (auto simp: parked_def blocked_ok_def in_ready_def in_tick_def in_pend_def live_def kernel_simps
        pq_nodes_iff)
  show "status_of (pended f r t s) t \<noteq> TASK_READY"
  proof
    assume "status_of (pended f r t s) t = TASK_READY"
    then have "has_flag (set_flag (status_of s t) TASK_PEND) TASK_PEND = has_flag 0 TASK_PEND"
      by (simp add: kernel_simps)
    then show False by simp
  qed
qed

lemma pend_timeout_ok:
  fixes d :: u32
  assumes "parked t s" and "\<not> has_flag (status_of s t) TASK_DELAY" and "clock_ok s"
    and "taskIdCurrent s = t" and "status_of s t \<noteq> TASK_READY"
  defines "s' \<equiv> (if d = WAIT_FOREVER then s else timed t d s)"
  shows "pend_timeout d s = Some s'" and "kinv s'" and "clock_ok s'"
proof -
  note tp = time_parked [OF assms(1-3), of d]
  show "kinv s'" using tp(3) parked_kinv [OF assms(1,5)] by (simp add: s'_def)
  show "clock_ok s'" using tp(4) assms(3) by (simp add: s'_def)
  show "pend_timeout d s = Some s'"
  proof (cases "d = WAIT_FOREVER")
    case False
    then show ?thesis using tp(1) assms(4)
      by (simp add: pend_timeout_def s'_def kernel_simps) (simp add: timed_def Let_def status_set_def upd_tcb_def)
  qed (simp add: pend_timeout_def s'_def)
qed

text \<open>The current task goes from the ready queue to a pend queue, and to the tick queue if it has a timeout.\<close>

definition blocked :: "qref \<Rightarrow> u32 \<Rightarrow> (TCB \<Rightarrow> TCB) \<Rightarrow> kstate \<Rightarrow> kstate" where
  "blocked r d f s =
     (let t = taskIdCurrent s; s1 = pended f r t (s\<lparr>readyQ := pq_remove t (readyQ s)\<rparr>)
      in if d = WAIT_FOREVER then s1 else timed t d s1)"

lemma status_set_reads:
  "taskIdCurrent (status_set t w s) = taskIdCurrent s"
  "tPriority (tcbs (status_set t w s) t') = tPriority (tcbs s t')"
  by (simp_all add: status_set_def kernel_simps)

lemma tcb_pend_order:
  "c\<lparr>tStatus := a, tPendQ := b, tUnpendHandler := x, tObj := y, tObjInfo := z\<rparr> =
   c\<lparr>tUnpendHandler := x, tObj := y, tObjInfo := z, tStatus := a, tPendQ := b\<rparr>"
  by (rule TCB.equality) simp_all

lemma vmxPendQWithHandlerPut_ok:
  fixes h :: "nat option" and ob :: ptr and info :: int
  assumes "kinv s" and ck: "clock_ok s" and c: "taskIdCurrent s = t" "live s t" "status_of s t = TASK_READY"
    and u: "pend_usable s r"
  defines "f \<equiv> \<lambda>c. c\<lparr>tUnpendHandler := h, tObj := ob, tObjInfo := info\<rparr>"
  shows "vmxPendQWithHandlerPut r d h ob info s = Some (blocked r d f s)" and "kinv (blocked r d f s)"
    and "clock_ok (blocked r d f s)"
proof -
  let ?s1 = "s\<lparr>readyQ := pq_remove t (readyQ s)\<rparr>"
  note l = leave_ready [OF assms(1) c(2,3)]
  have s1: "\<not> has_flag (status_of ?s1 t) TASK_PEND" "\<not> has_flag (status_of ?s1 t) TASK_DELAY"
    "pend_usable ?s1 r" using c u by (simp_all add: pend_usable_def)
  note pp = pend_parked [OF l(2) s1(1,3), of f]
  have ff: "\<And>c. tStatus (f c) = tStatus c" "\<And>c. tPriority (f c) = tPriority c" by (simp_all add: f_def)
  let ?s2 = "pended f r t ?s1"
  have s2: "\<not> has_flag (status_of ?s2 t) TASK_DELAY" "taskIdCurrent ?s2 = t"
    using s1(2) c by (simp_all add: kernel_simps)
  have "clock_ok ?s2" by (rule clock_ok_frame [OF ck]) (simp_all add: kernel_simps)
  note pt = pend_timeout_ok [OF pp(2) [OF ff] s2(1) this s2(2) pp(3) [OF ff], of d]
  have b: "blocked r d f s = (if d = WAIT_FOREVER then ?s2 else timed t d ?s2)"
    by (simp add: blocked_def Let_def c)
  have w: "upd_tcb t (\<lambda>c. c\<lparr>tPendQ := Some r, tUnpendHandler := h, tObj := ob, tObjInfo := info\<rparr>)
      (status_set t TASK_PEND ?s1) =
      upd_tcb t (\<lambda>c. (f c)\<lparr>tStatus := set_flag (tStatus c) TASK_PEND, tPendQ := Some r\<rparr>) ?s1"
    by (simp add: status_set_def upd_tcb_def f_def tcb_pend_order)
  show "vmxPendQWithHandlerPut r d h ob info s = Some (blocked r d f s)"
    using l(1) c(1) pp(1) [OF ff] pt(1) unfolding b
    by (simp add: vmxPendQWithHandlerPut_def Let_def kernel_simps status_set_reads w split del: if_split)
  show "kinv (blocked r d f s)" "clock_ok (blocked r d f s)" using pt(2,3) unfolding b by simp_all
qed

subsection \<open>Taking a task off its pend queue\<close>

definition unpended :: "ptr \<Rightarrow> kstate \<Rightarrow> kstate" where
  "unpended t s =
     (let r = the (tPendQ (tcbs s t)); s1 = pend_set r (pq_remove t (pend_list (pendQs s r))) s
      in s1\<lparr>tcbs := (tcbs s1)(t := (tcbs s1 t)\<lparr>tStatus :=
             clear_flag (clear_flag (status_of s1 t) TASK_PEND) TASK_DELAY\<rparr>),
           tickQ := pq_remove (TaskNode t) (tickQ s1)\<rparr>)"

lemma unpended_reads [kernel_simps]:
  "readyQ (unpended t s) = readyQ s" "activeQ (unpended t s) = activeQ s"
  "tickQ (unpended t s) = pq_remove (TaskNode t) (tickQ s)"
  "wdogs (unpended t s) = wdogs s" "sems (unpended t s) = sems s"
  "taskIdCurrent (unpended t s) = taskIdCurrent s"
  "sysTicks (unpended t s) = sysTicks s" "tickGet (unpended t s) = tickGet s"
  "tcbs (unpended t s) t' = (if t' = t then (tcbs s t)\<lparr>tStatus :=
     clear_flag (clear_flag (status_of s t) TASK_PEND) TASK_DELAY\<rparr> else tcbs s t')"
  by (simp_all add: unpended_def Let_def kernel_simps) (simp_all add: tickGet_def pend_set_def)

lemma parked_taken_off:
  assumes p: "parked t s" and pd: "has_flag (status_of s t) TASK_PEND"
  defines "r \<equiv> the (tPendQ (tcbs s t))"
  defines "s1 \<equiv> pend_set r (pq_remove t (pend_list (pendQs s r))) s"
  shows "tPendQ (tcbs s t) = Some r" and "pendRemove r t s = Some (OK, s1)" and "taken_off t s1"
proof -
  have k: "kx t s" "live s t" "\<not> in_ready s t" "blocked_ok s t" using p by (simp_all add: parked_def)
  show r: "tPendQ (tcbs s t) = Some r" using k(4) pd by (auto simp: blocked_ok_def r_def)
  then have ip: "in_pend s r' t \<longleftrightarrow> r' = r" for r' using k(4) pd by (auto simp: blocked_ok_def)
  obtain s' where s': "pendRemove r t s = Some (OK, s')" "kx t s'" "s' = s1"
    using pendRemove_kx [OF k(1), of r] ip by (auto simp: s1_def pend_set_def)
  then show "pendRemove r t s = Some (OK, s1)" by simp
  have "\<not> in_pend s1 r' t" for r'
    using ip [of r'] by (auto simp: s1_def in_pend_def kernel_simps)
  then show "taken_off t s1"
    using s'(2,3) k by (simp add: taken_off_def s1_def live_def in_ready_def in_tick_def blocked_ok_def kernel_simps)
qed

lemma taken_off_upd:
  assumes "taken_off t s" and "status_ok (tStatus (f (tcbs s t)))" and "tPriority (f (tcbs s t)) < 256"
    and "has_flag (tStatus (f (tcbs s t))) TASK_DELAY = has_flag (status_of s t) TASK_DELAY"
  shows "taken_off t (upd_tcb t f s)"
  using assms by (simp add: taken_off_def kernel_simps)

lemma vmxPendQRemove_ok:
  assumes p: "parked t s" and pd: "has_flag (status_of s t) TASK_PEND"
  shows "vmxPendQRemove t s = Some (OK, unpended t s)" and "parked t (unpended t s)"
proof -
  obtain r where r: "tPendQ (tcbs s t) = Some r" using parked_taken_off(1) [OF p pd] by blast
  define s1 where "s1 = pend_set r (pq_remove t (pend_list (pendQs s r))) s"
  define s2 where "s2 = status_clear t TASK_PEND s1"
  note t = parked_taken_off(2,3) [OF p pd, unfolded r option.sel, folded s1_def]
  have st: "status_ok (status_of s t)" "tPriority (tcbs s t) < 256"
    using p by (simp_all add: parked_def blocked_ok_def)
  have "taken_off t s2"
    unfolding s2_def status_clear_def using st
    by (intro taken_off_upd [OF t(2)]) (simp_all add: s1_def kernel_simps)
  moreover have "\<not> has_flag (status_of s2 t) TASK_PEND"
    by (simp add: s2_def status_clear_def kernel_simps)
  ultimately obtain s' where s': "(if has_flag (status_of s2 t) TASK_DELAY
      then tickRemove (TaskNode t) (status_clear t TASK_DELAY s2) else Some s2) = Some s'" "parked t s'"
      "s' = s2\<lparr>tcbs := (tcbs s2)(t := (tcbs s2 t)\<lparr>tStatus := clear_flag (status_of s2 t) TASK_DELAY\<rparr>),
        tickQ := pq_remove (TaskNode t) (tickQ s2)\<rparr>"
    using undelay_parked by blast
  have "s' = unpended t s"
    unfolding s'(3) unpended_def s2_def s1_def r Let_def
    by (simp add: status_clear_def upd_tcb_def kernel_simps)
  then show "vmxPendQRemove t s = Some (OK, unpended t s)" "parked t (unpended t s)"
    using t(1) r s'(1,2) by (simp_all add: vmxPendQRemove_def Let_def s2_def [symmetric] split del: if_split cong: if_cong)
qed

end
