(* ===== verification/VmxTick.thy ===== *)
theory VmxTick
  imports VmxOps
begin

text \<open>
  The tick interrupt, \<open>vmxTickAnnounce\<close>: what an expired task becomes, the loop over the expired nodes,
  round robin, and when a delayed task wakes up.
\<close>

subsection \<open>A task whose time has come\<close>

definition made_ready :: "ptr \<Rightarrow> kstate \<Rightarrow> kstate" where
  "made_ready t s =
     (if status_of s t = TASK_READY
      then s\<lparr>readyQ := pq_put (tPriority (tcbs s t)) t (readyQ s)\<rparr> else s)"

lemma ready_if_made_ready:
  assumes "parked t s"
  shows "ready_if t s = Some (made_ready t s)" and "kinv (made_ready t s)"
  using ready_if_parked [OF assms] by (auto simp: made_ready_def)

lemma made_ready_reads [kernel_simps]:
  "tickQ (made_ready t s) = tickQ s" "activeQ (made_ready t s) = activeQ s"
  "pendQs (made_ready t s) = pendQs s" "tcbs (made_ready t s) = tcbs s"
  "wdogs (made_ready t s) = wdogs s" "sems (made_ready t s) = sems s"
  "taskIdCurrent (made_ready t s) = taskIdCurrent s"
  "sysTicks (made_ready t s) = sysTicks s" "tickGet (made_ready t s) = tickGet s"
  "roundRobinOn (made_ready t s) = roundRobinOn s"
  "readyQ (made_ready t s) = (if status_of s t = TASK_READY
     then pq_put (tPriority (tcbs s t)) t (readyQ s) else readyQ s)"
  by (simp_all add: made_ready_def tickGet_def)

text \<open>
  A task that was only delayed returns \<open>OK\<close>; one that was pending leaves its queue and returns \<open>ERROR\<close>
  with the errno of a timeout; a suspended one stays out of the ready queue.
\<close>

definition timed_out :: "ptr \<Rightarrow> kstate \<Rightarrow> kstate" where
  "timed_out t s =
     made_ready t
       (if has_flag (status_of s t) TASK_PEND
        then upd_tcb t (\<lambda>c. c\<lparr>tEax := ERROR, tErrno := S_objLib_TIMEOUT\<rparr>) (unpended t s)
        else upd_tcb t (\<lambda>c. let st = clear_flag (tStatus c) TASK_DELAY
            in c\<lparr>tStatus := st, tEax := (if st = TASK_READY then OK else tEax c)\<rparr>)
          (s\<lparr>tickQ := pq_remove (TaskNode t) (tickQ s)\<rparr>))"

lemma clear_flag_again: "clear_flag (clear_flag (clear_flag w a) b) a = clear_flag (clear_flag w b) a"
  unfolding clear_flag_def by (rule bit_eqI) (auto simp: bit_simps)

lemma expired_parked:
  assumes "kinv s" and q: "tickQ s = (k, TaskNode t) # q"
  shows "parked t (status_clear t TASK_DELAY (s\<lparr>tickQ := q\<rparr>))"
    and "live s t" and "q = pq_remove (TaskNode t) (tickQ s)"
proof -
  have it: "in_tick s t" by (simp add: in_tick_def q)
  have lv: "live s t" "has_flag (status_of s t) TASK_DELAY" using kinv_in(2) [OF assms(1) it] by simp_all
  then show "live s t" by simp
  note k = kinv_live [OF assms(1) lv(1)]
  have d: "distinct (map snd ((k, TaskNode t) # q))"
    using assms(1) q by (simp add: kinv_def queues_ok_def)
  then show rem: "q = pq_remove (TaskNode t) (tickQ s)"
    using pq_remove_split [of "[]" k "TaskNode t" q] q by simp
  obtain s' where s': "kx t s'" "s' = s\<lparr>tickQ := q\<rparr>"
    using tickRemove_kx [OF k(1) it] rem by auto
  have "status_of s t \<noteq> TASK_READY" using lv(2) by auto
  then have "\<not> in_ready s t" using k(3) by simp
  moreover have "\<not> in_tick s' t" using d by (simp add: s'(2) in_tick_def pq_nodes_def)
  ultimately show "parked t (status_clear t TASK_DELAY (s\<lparr>tickQ := q\<rparr>))"
    using s'(1) k(2) lv(1) unfolding s'(2)
    by (simp add: parked_def blocked_ok_def status_clear_def in_ready_def in_tick_def in_pend_def live_def
        kernel_simps)
qed

lemma expired_task_ok:
  assumes "kinv s" and q: "tickQ s = (k, TaskNode t) # q" and h: "tUnpendHandler (tcbs s t) = None"
  shows "expired_task unpend t (s\<lparr>tickQ := q\<rparr>) = Some (timed_out t s)" and "kinv (timed_out t s)"
proof -
  note e = expired_parked [OF assms(1) q]
  let ?s1 = "status_clear t TASK_DELAY (s\<lparr>tickQ := q\<rparr>)"
  have st1: "status_of ?s1 t = clear_flag (status_of s t) TASK_DELAY"
    by (simp add: status_clear_def kernel_simps)
  consider (pend) "has_flag (status_of s t) TASK_PEND" | (delay) "\<not> has_flag (status_of s t) TASK_PEND" by blast
  then have "expired_task unpend t (s\<lparr>tickQ := q\<rparr>) = Some (timed_out t s) \<and> kinv (timed_out t s)"
  proof cases
    case pend
    have p1: "has_flag (status_of ?s1 t) TASK_PEND" by (simp add: st1 pend)
    then have nr: "status_of ?s1 t \<noteq> TASK_READY" by auto
    note u = vmxPendQRemove_ok [OF e(1) p1]
    have un: "unpended t ?s1 = unpended t s"
      using e(3) by (simp add: unpended_def Let_def status_clear_def upd_tcb_def pend_set_def clear_flag_again
          pq_remove_def)
    let ?s2 = "upd_tcb t (\<lambda>c. c\<lparr>tEax := ERROR, tErrno := S_objLib_TIMEOUT\<rparr>) (unpended t s)"
    have "parked t ?s2" using u(2) unfolding un by (simp add: parked_def blocked_ok_def kernel_simps)
    from ready_if_made_ready [OF this]
    show ?thesis using u(1) nr p1 h pend unfolding un
      by (simp add: expired_task_def Let_def taskRetValueSet_def timed_out_def kernel_simps)
        (simp add: upd_tcb_def)
  next
    case delay
    have p1: "\<not> has_flag (status_of ?s1 t) TASK_PEND" by (simp add: st1 delay)
    let ?s2 = "upd_tcb t (\<lambda>c. let st = clear_flag (tStatus c) TASK_DELAY
            in c\<lparr>tStatus := st, tEax := (if st = TASK_READY then OK else tEax c)\<rparr>) (s\<lparr>tickQ := q\<rparr>)"
    have eq: "(if status_of ?s1 t = TASK_READY then taskRetValueSet t OK ?s1 else ?s1) = ?s2"
      by (simp add: st1 taskRetValueSet_def status_clear_def upd_tcb_def Let_def)
    have "status_ok TASK_READY" by (simp add: status_ok_def)
    then have "parked t ?s2" using e(1) unfolding eq [symmetric]
      by (simp add: parked_def blocked_ok_def kernel_simps taskRetValueSet_def)
    from ready_if_made_ready [OF this]
    have r: "ready_if t ?s2 = Some (timed_out t s)" "kinv (timed_out t s)"
      using e(3) delay by (simp_all add: timed_out_def)
    have "expired_task unpend t (s\<lparr>tickQ := q\<rparr>) =
        ready_if t (if status_of ?s1 t = TASK_READY then taskRetValueSet t OK ?s1 else ?s1)"
      using p1 by (simp add: expired_task_def Let_def)
    then show ?thesis unfolding eq using r by simp
  qed
  then show "expired_task unpend t (s\<lparr>tickQ := q\<rparr>) = Some (timed_out t s)" "kinv (timed_out t s)" by simp_all
qed

subsection \<open>All the tasks whose time has come\<close>

definition time_tcb :: "TCB \<Rightarrow> TCB" where
  "time_tcb c =
     (let st = clear_flag (clear_flag (tStatus c) TASK_PEND) TASK_DELAY
      in if has_flag (tStatus c) TASK_PEND
         then c\<lparr>tStatus := st, tEax := ERROR, tErrno := S_objLib_TIMEOUT\<rparr>
         else c\<lparr>tStatus := st, tEax := (if st = TASK_READY then OK else tEax c)\<rparr>)"

lemma unpended_round_robin [kernel_simps]: "roundRobinOn (unpended t s) = roundRobinOn s"
  by (simp add: unpended_def Let_def pend_set_def)

lemma tcb_timeout_order:
  "c\<lparr>tStatus := a, tEax := b, tErrno := e\<rparr> = c\<lparr>tEax := b, tErrno := e, tStatus := a\<rparr>"
  by (rule TCB.equality) simp_all

lemma timed_out_reads [kernel_simps]:
  "activeQ (timed_out t s) = activeQ s" "wdogs (timed_out t s) = wdogs s" "sems (timed_out t s) = sems s"
  "taskIdCurrent (timed_out t s) = taskIdCurrent s" "roundRobinOn (timed_out t s) = roundRobinOn s"
  "sysTicks (timed_out t s) = sysTicks s" "tickGet (timed_out t s) = tickGet s"
  "tickQ (timed_out t s) = pq_remove (TaskNode t) (tickQ s)"
  "tcbs (timed_out t s) t' = (if t' = t then time_tcb (tcbs s t) else tcbs s t')"
  by (simp_all add: timed_out_def time_tcb_def Let_def kernel_simps clear_flag_absent
      tcb_timeout_order)

definition due_nodes :: "kstate \<Rightarrow> tick_node list" where
  "due_nodes s = map snd (filter (\<lambda>e. fst e \<le> tickGet s) (tickQ s))"

text \<open>Only tasks that nobody gave an unpend handler are due: what the loop needs to know of them.\<close>

definition tasks_due :: "kstate \<Rightarrow> bool" where
  "tasks_due s \<longleftrightarrow> (\<forall>n\<in>set (due_nodes s). \<exists>t. n = TaskNode t \<and> tIsTask (tcbs s t) \<and>
     tUnpendHandler (tcbs s t) = None)"

lemma time_tcb_reads [kernel_simps]:
  "tIsTask (time_tcb c) = tIsTask c" "tUnpendHandler (time_tcb c) = tUnpendHandler c"
  "tPriority (time_tcb c) = tPriority c"
  "tStatus (time_tcb c) = clear_flag (clear_flag (tStatus c) TASK_PEND) TASK_DELAY"
  by (simp_all add: time_tcb_def Let_def)

lemma due_first:
  assumes "kinv s"
  shows "tickExpired s = (case tickQ s of
      [] \<Rightarrow> None | e # q \<Rightarrow> if fst e \<le> tickGet s then Some (snd e, s\<lparr>tickQ := q\<rparr>) else None)"
    and "tickExpired s = None \<Longrightarrow> due_nodes s = []"
proof -
  show e: "tickExpired s = (case tickQ s of
      [] \<Rightarrow> None | e # q \<Rightarrow> if fst e \<le> tickGet s then Some (snd e, s\<lparr>tickQ := q\<rparr>) else None)"
    by (simp add: tickExpired_def split: list.split)
  assume "tickExpired s = None"
  moreover have "pq_sorted (tickQ s)" using assms by (simp add: kinv_def queues_ok_def)
  ultimately show "due_nodes s = []"
    by (cases "tickQ s") (auto simp: e due_nodes_def pq_sorted_def filter_empty_conv split: if_splits)
qed

lemma tick_loop_tasks:
  assumes "kinv s" and "tasks_due s"
  shows "\<exists>ts. due_nodes s = map TaskNode ts \<and>
    tick_loop wdCall unpend doWork s = Some (fold timed_out ts s) \<and> kinv (fold timed_out ts s) \<and>
    due_nodes (fold timed_out ts s) = []"
  using assms
proof (induction "length (tickQ s)" arbitrary: s)
  case 0
  then have "tickQ s = []" by simp
  then show ?case using 0(2)
    by (intro exI [of _ "[]"]) (simp add: due_nodes_def tick_loop.simps [of _ _ _ s] due_first(1))
next
  case (Suc n)
  then obtain e q where q: "tickQ s = e # q" by (cases "tickQ s") auto
  show ?case
  proof (cases "fst e \<le> tickGet s")
    case False
    then have "tickExpired s = None" using due_first(1) [OF Suc.prems(1)] q by simp
    then show ?thesis using due_first(2) Suc.prems(1)
      by (intro exI [of _ "[]"]) (simp add: tick_loop.simps [of _ _ _ s])
  next
    case True
    then have "snd e \<in> set (due_nodes s)" by (simp add: due_nodes_def q)
    then obtain t where t: "snd e = TaskNode t" "tIsTask (tcbs s t)" "tUnpendHandler (tcbs s t) = None"
      using Suc.prems(2) unfolding tasks_due_def by blast
    have q': "tickQ s = (fst e, TaskNode t) # q" using q t(1) by (cases e) simp
    note x = expired_task_ok [OF Suc.prems(1) q' t(3)]
    have tq: "tickQ (timed_out t s) = q"
      using expired_parked(3) [OF Suc.prems(1) q'] by (simp add: kernel_simps)
    have dn: "due_nodes s = TaskNode t # due_nodes (timed_out t s)"
      using True t(1) timed_out_reads(7) [of t s] by (simp add: due_nodes_def q tq)
    then have "tasks_due (timed_out t s)"
      using Suc.prems(2) by (auto simp: tasks_due_def kernel_simps)
    then obtain ts where ts: "due_nodes (timed_out t s) = map TaskNode ts"
        "tick_loop wdCall unpend doWork (timed_out t s) = Some (fold timed_out ts (timed_out t s))"
        "kinv (fold timed_out ts (timed_out t s))" "due_nodes (fold timed_out ts (timed_out t s)) = []"
      using Suc.hyps(1) [of "timed_out t s"] Suc.hyps(2) x(2) q tq by auto
    have "tickExpired s = Some (TaskNode t, s\<lparr>tickQ := q\<rparr>)"
      using due_first(1) [OF Suc.prems(1)] q True t(1) by simp
    then have "tick_loop wdCall unpend doWork s = Some (fold timed_out ts (timed_out t s))"
      using x(1) t(2) ts(2) by (subst tick_loop.simps) (simp add: expired_node_def)
    then show ?thesis using ts dn by (intro exI [of _ "t # ts"]) simp
  qed
qed

lemma fold_timed_out_reads [kernel_simps]:
  "activeQ (fold timed_out ts s) = activeQ s" "taskIdCurrent (fold timed_out ts s) = taskIdCurrent s"
  "roundRobinOn (fold timed_out ts s) = roundRobinOn s" "wdogs (fold timed_out ts s) = wdogs s"
  "sysTicks (fold timed_out ts s) = sysTicks s" "tickGet (fold timed_out ts s) = tickGet s"
  by (induction ts arbitrary: s) (simp_all add: kernel_simps)

lemma fold_timed_out_tickQ:
  "tickQ (fold timed_out ts s) = filter (\<lambda>e. snd e \<notin> TaskNode ` set ts) (tickQ s)"
  by (induction ts arbitrary: s) (auto simp: kernel_simps pq_remove_def intro: filter_cong)

lemma fold_timed_out_tcbs:
  "distinct ts \<Longrightarrow> tcbs (fold timed_out ts s) t = (if t \<in> set ts then time_tcb (tcbs s t) else tcbs s t)"
  by (induction ts arbitrary: s) (auto simp: kernel_simps)

subsection \<open>Round robin\<close>

text \<open>A task that has used up its slice goes behind the ready tasks of its priority.\<close>

definition rotated :: "kstate \<Rightarrow> kstate" where
  "rotated s =
     (let t = taskIdCurrent s; n = tTimeSlice (tcbs s t) + 1
      in if roundRobinOn s \<and> tLockCount (tcbs s t) = 0 \<and> status_of s t = TASK_READY
         then if roundRobinSlice s \<le> n
              then (upd_tcb t (\<lambda>c. c\<lparr>tTimeSlice := 0\<rparr>) s)\<lparr>readyQ :=
                pq_put (tPriority (tcbs s t)) t (pq_remove t (readyQ s))\<rparr>
              else upd_tcb t (\<lambda>c. c\<lparr>tTimeSlice := n\<rparr>) s
         else s)"

lemma time_slice_parts:
  "kinv (upd_tcb t (\<lambda>c. c\<lparr>tTimeSlice := n\<rparr>) s) = kinv s"
proof -
  have "task_ok (upd_tcb t (\<lambda>c. c\<lparr>tTimeSlice := n\<rparr>) s) t = task_ok s t"
    by (simp add: task_ok_iff kernel_simps)
  then show ?thesis unfolding kinv_kx [of _ t] by (simp add: kernel_simps)
qed

lemma upd_tcb_cong: "f (tcbs s t) = g (tcbs s t) \<Longrightarrow> upd_tcb t f s = upd_tcb t g s"
  by (simp add: upd_tcb_def)

lemma round_robin_ok:
  assumes "kinv s" and "roundRobinOn s \<Longrightarrow> live s (taskIdCurrent s)"
  shows "round_robin s = Some (rotated s)" and "kinv (rotated s)"
proof -
  let ?t = "taskIdCurrent s"
  let ?n = "tTimeSlice (tcbs s ?t) + 1"
  let ?go = "roundRobinOn s \<and> tLockCount (tcbs s ?t) = 0 \<and> status_of s ?t = TASK_READY"
  consider (off) "\<not> ?go" | (run) "?go" "\<not> roundRobinSlice s \<le> ?n" | (turn) "?go" "roundRobinSlice s \<le> ?n"
    by blast
  then have "round_robin s = Some (rotated s) \<and> kinv (rotated s)"
  proof cases
    case off
    then show ?thesis using assms(1) by (auto simp: round_robin_def rotated_def Let_def)
  next
    case run
    then show ?thesis using assms(1)
      by (auto simp: round_robin_def rotated_def Let_def kernel_simps time_slice_parts intro: upd_tcb_cong)
  next
    case turn
    let ?s = "upd_tcb ?t (\<lambda>c. c\<lparr>tTimeSlice := 0\<rparr>) s"
    have up: "upd_tcb ?t (\<lambda>c. c\<lparr>tTimeSlice := 0\<rparr>) (upd_tcb ?t (\<lambda>c. c\<lparr>tTimeSlice := tTimeSlice c + 1\<rparr>) s) = ?s"
      by (simp add: upd_tcb_def)
    have k: "kinv ?s" "live ?s ?t" "status_of ?s ?t = TASK_READY"
      using assms turn by (simp_all add: time_slice_parts kernel_simps)
    note l = leave_ready [OF k]
    let ?s1 = "?s\<lparr>readyQ := pq_remove ?t (readyQ ?s)\<rparr>"
    obtain s2 where s2: "rdyPut ?t ?s1 = Some s2" "kinv s2"
        "s2 = ?s1\<lparr>readyQ := pq_put (tPriority (tcbs ?s1 ?t)) ?t (readyQ ?s1)\<rparr>"
      using ready_if_parked [OF l(2)] k(3) by (auto simp: ready_if_def)
    have "s2 = rotated s"
      using turn unfolding s2(3) by (simp add: rotated_def Let_def kernel_simps)
    then have "rdyPut ?t ?s1 = Some (rotated s)" "kinv (rotated s)" using s2(1,2) by simp_all
    moreover have "round_robin s = do { s \<leftarrow> rdyRemove ?t ?s; rdyPut ?t s }"
      using turn by (simp add: round_robin_def Let_def up kernel_simps)
    ultimately show ?thesis using l(1) by simp
  qed
  then show "round_robin s = Some (rotated s)" "kinv (rotated s)" by simp_all
qed

lemma rotated_reads [kernel_simps]:
  "tickQ (rotated s) = tickQ s" "activeQ (rotated s) = activeQ s" "taskIdCurrent (rotated s) = taskIdCurrent s"
  "roundRobinOn (rotated s) = roundRobinOn s" "wdogs (rotated s) = wdogs s"
  "sysTicks (rotated s) = sysTicks s" "tickGet (rotated s) = tickGet s"
  "tStatus (tcbs (rotated s) t) = tStatus (tcbs s t)" "tEax (tcbs (rotated s) t) = tEax (tcbs s t)"
  "tErrno (tcbs (rotated s) t) = tErrno (tcbs s t)" "tIsTask (tcbs (rotated s) t) = tIsTask (tcbs s t)"
  "tUnpendHandler (tcbs (rotated s) t) = tUnpendHandler (tcbs s t)"
  "pendQs (rotated s) = pendQs s"
  by (simp_all add: rotated_def Let_def kernel_simps)

text \<open>The \<open>TCB\<close> of a task is the same before and after, but for the slice count of the running task under round robin.\<close>

definition slice_only :: "kstate \<Rightarrow> TCB \<Rightarrow> TCB \<Rightarrow> ptr \<Rightarrow> bool" where
  "slice_only s c c' t \<longleftrightarrow>
     c' = (if roundRobinOn s \<and> t = taskIdCurrent s then c\<lparr>tTimeSlice := tTimeSlice c'\<rparr> else c)"

lemma slice_only_keeps:
  assumes "slice_only s c c' t"
  shows "tStatus c' = tStatus c" and "tPendQ c' = tPendQ c"
proof -
  obtain k where "c' = (if roundRobinOn s \<and> t = taskIdCurrent s then c\<lparr>tTimeSlice := k\<rparr> else c)"
    using assms unfolding slice_only_def by blast
  then show "tStatus c' = tStatus c" and "tPendQ c' = tPendQ c" by simp_all
qed

lemma rotated_slice: "slice_only s (tcbs s t) (tcbs (rotated s) t) t"
  by (simp add: slice_only_def rotated_def Let_def kernel_simps)

subsection \<open>The tick interrupt\<close>

definition ticked :: "kstate \<Rightarrow> kstate" where
  "ticked s = s\<lparr>sysTicks := sysTicks s + 1, sysAbsTicks := sysAbsTicks s + 1\<rparr>"

lemma kinv_ticked: "kinv (ticked s) = kinv s"
  by (simp add: ticked_def kinv_def queues_ok_def task_ok_def wdog_ok_def Let_def)

lemma ticked_reads [kernel_simps]:
  "tickQ (ticked s) = tickQ s" "activeQ (ticked s) = activeQ s" "tcbs (ticked s) = tcbs s"
  "taskIdCurrent (ticked s) = taskIdCurrent s" "roundRobinOn (ticked s) = roundRobinOn s"
  "wdogs (ticked s) = wdogs s" "readyQ (ticked s) = readyQ s" "sysTicks (ticked s) = sysTicks s + 1"
  by (simp_all add: ticked_def)

lemma tickGet_ticked [kernel_simps]: "tickGet (ticked s) = tickGet s + 1"
proof -
  have m: "ucast (w AND 0xffffffff) = (ucast w :: u32)" for w :: u64
  proof (rule bit_word_eqI)
    fix n assume "n < LENGTH(32)"
    then show "bit (ucast (w AND 0xffffffff) :: u32) n \<longleftrightarrow> bit (ucast w :: u32) n"
      using bit_mask_iff [of 32 n, where 'a = u64]
      by (simp add: bit_simps mask_eq_exp_minus_1)
  qed
  have "ucast (w + 1) = (ucast w + 1 :: u32)" for w :: u64
    by (simp add: unsigned_ucast_eq word_eq_iff_unsigned [where 'a = nat] unat_word_ariths take_bit_eq_mod
        mod_simps mod_mod_cancel)
  then show ?thesis by (simp add: tickGet_def ticked_def m)
qed

lemma tick_announce_ok:
  assumes "kinv s" and "tasks_due (ticked s)" and "roundRobinOn s \<Longrightarrow> live s (taskIdCurrent s)"
  shows "\<exists>ts. due_nodes (ticked s) = map TaskNode ts \<and>
    vmxTickAnnounce wdCall unpend doWork s = Some (rotated (fold timed_out ts (ticked s))) \<and>
    kinv (rotated (fold timed_out ts (ticked s)))"
proof -
  have k: "kinv (ticked s)" using assms(1) by (simp add: kinv_ticked)
  obtain ts where ts: "due_nodes (ticked s) = map TaskNode ts"
      "tick_loop wdCall unpend doWork (ticked s) = Some (fold timed_out ts (ticked s))"
      "kinv (fold timed_out ts (ticked s))"
    using tick_loop_tasks [OF k assms(2)] by blast
  have "live (fold timed_out ts (ticked s)) (taskIdCurrent (fold timed_out ts (ticked s)))"
    if "roundRobinOn (fold timed_out ts (ticked s))"
    using assms(3) that by (simp add: live_def kernel_simps)
  note r = round_robin_ok [OF ts(3) this]
  show ?thesis using ts(1,2) r by (auto simp: vmxTickAnnounce_def ticked_def [symmetric])
qed

lemma due_list:
  assumes "kinv s" and "due_nodes s = map TaskNode ts"
  shows "distinct ts" and "t \<in> set ts \<longleftrightarrow> (\<exists>k. (k, TaskNode t) \<in> set (tickQ s) \<and> k \<le> tickGet s)"
    and "filter (\<lambda>e. snd e \<notin> TaskNode ` set ts) (tickQ s) = filter (\<lambda>e. \<not> fst e \<le> tickGet s) (tickQ s)"
proof -
  have d: "distinct (map snd (tickQ s))" using assms(1) by (simp add: kinv_def queues_ok_def)
  then have "distinct (due_nodes s)" by (simp add: due_nodes_def distinct_map_filter)
  then show "distinct ts" unfolding assms(2) by (simp add: distinct_map)
  have st: "TaskNode ` set ts = set (due_nodes s)" by (simp add: assms(2))
  have "t \<in> set ts \<longleftrightarrow> TaskNode t \<in> set (due_nodes s)" unfolding st [symmetric] by auto
  then show "t \<in> set ts \<longleftrightarrow> (\<exists>k. (k, TaskNode t) \<in> set (tickQ s) \<and> k \<le> tickGet s)"
    by (force simp: due_nodes_def)
  have "snd e \<in> set (due_nodes s) \<longleftrightarrow> fst e \<le> tickGet s" if "e \<in> set (tickQ s)" for e
    using d that by (auto simp: due_nodes_def distinct_map inj_on_def)
  then show "filter (\<lambda>e. snd e \<notin> TaskNode ` set ts) (tickQ s) = filter (\<lambda>e. \<not> fst e \<le> tickGet s) (tickQ s)"
    unfolding st by (intro filter_cong) auto
qed

text \<open>What one tick does, task by task.\<close>

definition is_due :: "kstate \<Rightarrow> ptr \<Rightarrow> bool" where
  "is_due s t \<longleftrightarrow> (\<exists>k. (k, TaskNode t) \<in> set (tickQ s) \<and> k \<le> tickGet s + 1)"

lemma tick_effect:
  assumes "kinv s" and "tasks_due (ticked s)" and "roundRobinOn s \<Longrightarrow> live s (taskIdCurrent s)"
  shows "\<exists>s'. vmxTickAnnounce wdCall unpend doWork s = Some s' \<and> kinv s' \<and>
    tickQ s' = filter (\<lambda>e. \<not> fst e \<le> tickGet s + 1) (tickQ s) \<and>
    tickGet s' = tickGet s + 1 \<and> sysTicks s' = sysTicks s + 1 \<and> activeQ s' = activeQ s \<and>
    roundRobinOn s' = roundRobinOn s \<and> taskIdCurrent s' = taskIdCurrent s \<and>
    (\<forall>t. let c = (if is_due s t then time_tcb (tcbs s t) else tcbs s t); c' = tcbs s' t
      in tStatus c' = tStatus c \<and> tEax c' = tEax c \<and> tErrno c' = tErrno c \<and>
         tIsTask c' = tIsTask c \<and> tUnpendHandler c' = tUnpendHandler c) \<and>
    (\<forall>t. \<not> is_due s t \<longrightarrow> slice_only s (tcbs s t) (tcbs s' t) t)"
proof -
  obtain ts where ts: "due_nodes (ticked s) = map TaskNode ts"
      "vmxTickAnnounce wdCall unpend doWork s = Some (rotated (fold timed_out ts (ticked s)))"
      "kinv (rotated (fold timed_out ts (ticked s)))"
    using tick_announce_ok [OF assms] by blast
  have k: "kinv (ticked s)" using assms(1) by (simp add: kinv_ticked)
  note d = due_list [OF k ts(1)]
  have due: "t \<in> set ts \<longleftrightarrow> is_due s t" for t using d(2) [of t] by (simp add: is_due_def kernel_simps)
  let ?s = "fold timed_out ts (ticked s)"
  have "slice_only s (tcbs s t) (tcbs (rotated ?s) t) t" if "\<not> is_due s t" for t
    using rotated_slice [of ?s t] that due [of t] d(1)
    by (simp add: slice_only_def kernel_simps fold_timed_out_tcbs)
  then show ?thesis using due using ts(2,3) d(1,3)
    by (intro exI [of _ "rotated (fold timed_out ts (ticked s))"])
      (simp add: kernel_simps fold_timed_out_tickQ fold_timed_out_tcbs Let_def split del: if_split cong: if_cong)
qed

subsection \<open>How long a delay lasts\<close>

primrec run_ticks ::
  "(nat \<Rightarrow> arg \<Rightarrow> kstate \<Rightarrow> kstate option) \<Rightarrow> (nat \<Rightarrow> ptr \<Rightarrow> int \<Rightarrow> kstate \<Rightarrow> kstate option) \<Rightarrow>
    (kstate \<Rightarrow> kstate option) \<Rightarrow> nat \<Rightarrow> kstate \<Rightarrow> kstate option" where
  "run_ticks wdCall unpend doWork 0 s = Some s"
| "run_ticks wdCall unpend doWork (Suc n) s = do {
     s \<leftarrow> run_ticks wdCall unpend doWork n s;
     vmxTickAnnounce wdCall unpend doWork s
   }"

text \<open>Only tasks without an unpend handler wait for the time.\<close>

definition tick_tasks :: "kstate \<Rightarrow> bool" where
  "tick_tasks s \<longleftrightarrow> (\<forall>n\<in>pq_nodes (tickQ s). \<exists>t. n = TaskNode t \<and> tIsTask (tcbs s t) \<and>
     tUnpendHandler (tcbs s t) = None)"

lemma tick_tasks_due: "tick_tasks s \<Longrightarrow> tasks_due (ticked s)"
  by (auto simp: tick_tasks_def tasks_due_def due_nodes_def pq_nodes_def kernel_simps)

text \<open>The state \<open>n\<close> ticks after the task \<open>t\<close> was put to sleep until the time \<open>key\<close>.\<close>

definition sleeping :: "ptr \<Rightarrow> u32 \<Rightarrow> kstate \<Rightarrow> bool" where
  "sleeping t key s \<longleftrightarrow> kinv s \<and> tick_tasks s \<and> (roundRobinOn s \<longrightarrow> live s (taskIdCurrent s)) \<and> live s t \<and>
     (key, TaskNode t) \<in> set (tickQ s) \<and> status_of s t = TASK_DELAY"

definition awake :: "ptr \<Rightarrow> kstate \<Rightarrow> bool" where
  "awake t s \<longleftrightarrow> kinv s \<and> tick_tasks s \<and> (roundRobinOn s \<longrightarrow> live s (taskIdCurrent s)) \<and> live s t \<and>
     status_of s t = TASK_READY"

lemma tick_tasks_step:
  assumes "tick_tasks s" and "set (tickQ s') \<subseteq> set (tickQ s)"
    and "\<And>t. tIsTask (tcbs s' t) = tIsTask (tcbs s t) \<and> tUnpendHandler (tcbs s' t) = tUnpendHandler (tcbs s t)"
  shows "tick_tasks s'"
proof -
  have "pq_nodes (tickQ s') \<subseteq> pq_nodes (tickQ s)" using assms(2) by (auto simp: pq_nodes_def)
  then show ?thesis using assms(1,3) unfolding tick_tasks_def by (metis subsetD)
qed

lemma sleeping_tick:
  assumes "sleeping t key s"
  shows "\<exists>s'. vmxTickAnnounce wdCall unpend doWork s = Some s' \<and> tickGet s' = tickGet s + 1 \<and>
    (if key \<le> tickGet s + 1 then awake t s' else sleeping t key s')"
proof -
  have s: "kinv s" "tick_tasks s" "roundRobinOn s \<Longrightarrow> live s (taskIdCurrent s)" "live s t"
      "(key, TaskNode t) \<in> set (tickQ s)" "status_of s t = TASK_DELAY"
    using assms by (simp_all add: sleeping_def)
  obtain s' where s': "vmxTickAnnounce wdCall unpend doWork s = Some s'" "kinv s'"
      "tickQ s' = filter (\<lambda>e. \<not> fst e \<le> tickGet s + 1) (tickQ s)" "tickGet s' = tickGet s + 1"
      "activeQ s' = activeQ s" "roundRobinOn s' = roundRobinOn s" "taskIdCurrent s' = taskIdCurrent s"
      "\<And>t. let c = (if is_due s t then time_tcb (tcbs s t) else tcbs s t); c' = tcbs s' t
        in tStatus c' = tStatus c \<and> tEax c' = tEax c \<and> tErrno c' = tErrno c \<and>
          tIsTask c' = tIsTask c \<and> tUnpendHandler c' = tUnpendHandler c"
    using tick_effect [OF s(1) tick_tasks_due [OF s(2)] s(3)] by blast
  have tt: "tick_tasks s'"
    using s'(8) by (intro tick_tasks_step [OF s(2)]) (auto simp: s'(3) Let_def kernel_simps split: if_splits)
  have d: "distinct (map snd (tickQ s))" using s(1) by (simp add: kinv_def queues_ok_def)
  have due: "is_due s t \<longleftrightarrow> key \<le> tickGet s + 1"
    using s(5) d by (force simp: is_due_def distinct_map inj_on_def)
  have "clear_flag (clear_flag TASK_DELAY TASK_PEND) TASK_DELAY = TASK_READY" by (simp add: clear_flag_def)
  then have st: "status_of s' t = (if key \<le> tickGet s + 1 then TASK_READY else TASK_DELAY)"
    using s'(8) [of t] s(6) by (simp add: Let_def due kernel_simps)
  show ?thesis
    using s'(1-7) tt s(3-5) st by (auto simp: sleeping_def awake_def live_def)
qed

lemma awake_tick:
  assumes "awake t s"
  shows "\<exists>s'. vmxTickAnnounce wdCall unpend doWork s = Some s' \<and> awake t s'"
proof -
  have s: "kinv s" "tick_tasks s" "roundRobinOn s \<Longrightarrow> live s (taskIdCurrent s)" "live s t"
      "status_of s t = TASK_READY"
    using assms by (simp_all add: awake_def)
  obtain s' where s': "vmxTickAnnounce wdCall unpend doWork s = Some s'" "kinv s'"
      "tickQ s' = filter (\<lambda>e. \<not> fst e \<le> tickGet s + 1) (tickQ s)" "tickGet s' = tickGet s + 1"
      "activeQ s' = activeQ s" "roundRobinOn s' = roundRobinOn s" "taskIdCurrent s' = taskIdCurrent s"
      "\<And>t. let c = (if is_due s t then time_tcb (tcbs s t) else tcbs s t); c' = tcbs s' t
        in tStatus c' = tStatus c \<and> tEax c' = tEax c \<and> tErrno c' = tErrno c \<and>
          tIsTask c' = tIsTask c \<and> tUnpendHandler c' = tUnpendHandler c"
    using tick_effect [OF s(1) tick_tasks_due [OF s(2)] s(3)] by blast
  have tt: "tick_tasks s'"
    using s'(8) by (intro tick_tasks_step [OF s(2)]) (auto simp: s'(3) Let_def kernel_simps split: if_splits)
  have "clear_flag (clear_flag TASK_READY TASK_PEND) TASK_DELAY = TASK_READY" by (simp add: clear_flag_def)
  then have "status_of s' t = TASK_READY"
    using s'(8) [of t] s(5) by (auto simp: Let_def kernel_simps split: if_splits)
  then show ?thesis using s'(1,2,5,6,7) tt s(3,4) by (auto simp: awake_def live_def)
qed

lemma word_due:
  fixes c key :: u32
  assumes "unat c + n < 2 ^ 32"
  shows "key \<le> c + word_of_nat n \<longleftrightarrow> unat key \<le> unat c + n"
  using assms by (simp add: word_le_nat_alt unat_word_ariths unat_of_nat)

lemma sleep_then_wake:
  assumes "sleeping t key s" and "tickGet s = c" and "unat c + n < 2 ^ 32"
  shows "\<exists>s'. run_ticks wdCall unpend doWork n s = Some s' \<and>
    (if unat key \<le> unat c + n \<and> 0 < n then awake t s'
     else sleeping t key s' \<and> tickGet s' = c + word_of_nat n)"
  using assms(3)
proof (induction n)
  case 0
  then show ?case using assms(1,2) by simp
next
  case (Suc n)
  have "unat c + n < 2 ^ 32" using Suc.prems by simp
  from Suc.IH [OF this] obtain s' where s': "run_ticks wdCall unpend doWork n s = Some s'"
      "if unat key \<le> unat c + n \<and> 0 < n then awake t s'
       else sleeping t key s' \<and> tickGet s' = c + word_of_nat n"
    by blast
  show ?case
  proof (cases "unat key \<le> unat c + n \<and> 0 < n")
    case True
    then show ?thesis using s' awake_tick [of t s'] by auto
  next
    case False
    then have sl: "sleeping t key s'" and tg: "tickGet s' + 1 = c + word_of_nat (Suc n)"
      using s'(2) by (simp_all add: add.assoc [symmetric])
    obtain s'' where s'': "vmxTickAnnounce wdCall unpend doWork s' = Some s''" "tickGet s'' = tickGet s' + 1"
        "if key \<le> tickGet s' + 1 then awake t s'' else sleeping t key s''"
      using sleeping_tick [OF sl] by blast
    have "key \<le> tickGet s' + 1 \<longleftrightarrow> unat key \<le> unat c + Suc n"
      unfolding tg using Suc.prems by (rule word_due)
    then show ?thesis using s'(1) s'' tg by (auto split: if_splits)
  qed
qed

lemma delay_sleeps:
  assumes "kok s" and "tick_tasks s" and c: "taskIdCurrent s = t" "live s t" "status_of s t = TASK_READY"
    and "tIsTask (tcbs s t)" and "tUnpendHandler (tcbs s t) = None"
    and no: "unat (sysTicks s) + unat d < 2 ^ 32"
  shows "\<exists>s'. vmxDelay d s = Some (OK, s') \<and> sleeping t (sysTicks s + d) s' \<and> tickGet s' = tickGet s"
proof -
  let ?s1 = "s\<lparr>readyQ := pq_remove t (readyQ s)\<rparr>"
  have k: "kinv s" "clock_ok s" using assms(1) by (simp_all add: kok_def)
  note v = vmxDelay_ok [OF k c, of d]
  have "\<not> sysTicks s + d < sysTicks s" using no by (simp add: word_less_nat_alt unat_word_ariths)
  then have o: "tick_overflow d ?s1 = ?s1" by (simp add: tick_overflow_def)
  have tq: "tickQ (timed t d ?s1) = pq_put (sysTicks s + d) (TaskNode t) (tickQ s)"
    by (simp add: kernel_simps o add.commute)
  have "tick_tasks (timed t d ?s1)"
    using assms(2,6,7) unfolding tick_tasks_def tq by (auto simp: kernel_simps)
  moreover have "set_flag 0 TASK_DELAY = TASK_DELAY" by (simp add: set_flag_def)
  ultimately have "sleeping t (sysTicks s + d) (timed t d ?s1)"
    using v(2) c unfolding sleeping_def tq by (simp add: live_def kernel_simps)
  then show ?thesis using v(1) by (intro exI [of _ "timed t d ?s1"]) (simp add: kernel_simps)
qed

end
