(* ===== verification/VmxCtl.thy ===== *)
theory VmxCtl
  imports VmxOps
begin

text \<open>
  Deleting tasks, changing priorities and starting and cancelling watchdogs, under the invariant.
\<close>

subsection \<open>Deleting a task\<close>

lemma gone_kinv:
  assumes "kx t s" and "\<not> in_ready s t" "\<not> in_tick s t" "\<And>r. \<not> in_pend s r t" and "\<not> live s t"
  shows "kinv s"
  using assms not_in_key by (simp add: kinv_kx [of s t] task_ok_iff)

lemma activeRemove_kx:
  assumes "kx t s" and "live s t"
  shows "activeRemove t s = Some (s\<lparr>activeQ := remove1 t (activeQ s)\<rparr>)"
    and "kx t (s\<lparr>activeQ := remove1 t (activeQ s)\<rparr>)"
proof -
  let ?s = "s\<lparr>activeQ := remove1 t (activeQ s)\<rparr>"
  show "activeRemove t s = Some ?s" using assms(2) by (simp add: activeRemove_def live_def)
  have "queues_ok ?s" using assms(1) by (simp add: kx_def queues_ok_def distinct_remove1)
  with assms(1) show "kx t ?s" by (rule kx_frame) (simp_all add: in_set_remove1)
qed

lemma kx_swap_reference: "kx t (s\<lparr>taskSwapReference := r\<rparr>) = kx t s"
  by (simp add: kx_def queues_ok_def task_ok_def wdog_ok_def Let_def)

text \<open>The first half of \<open>vmxDelete\<close>: out of whatever queue the task is in.\<close>

lemma delete_unqueue:
  assumes "kinv s" and "live s t"
  shows "\<exists>s'. (if status_of s t = TASK_READY
      then do { s \<leftarrow> rdyRemove t s; Some (OK, s) }
      else do {
        (st, s) \<leftarrow> (if has_flag (status_of s t) TASK_PEND then vmxPendQRemove t s else Some (OK, s));
        s \<leftarrow> (if has_flag (status_of s t) TASK_DELAY then tickRemove (TaskNode t) s else Some s);
        Some (st, s)
      }) = Some (OK, s') \<and> kx t s' \<and> live s' t \<and> \<not> in_ready s' t \<and> \<not> in_tick s' t \<and> (\<forall>r. \<not> in_pend s' r t) \<and>
      (\<forall>t'. t' \<noteq> t \<longrightarrow> tcbs s' t' = tcbs s t') \<and> activeQ s' = activeQ s"
proof -
  consider (ready) "status_of s t = TASK_READY"
    | (pend) "status_of s t \<noteq> TASK_READY" "has_flag (status_of s t) TASK_PEND"
    | (other) "status_of s t \<noteq> TASK_READY" "\<not> has_flag (status_of s t) TASK_PEND" by blast
  then show ?thesis
  proof cases
    case ready
    note l = leave_ready [OF assms ready]
    then show ?thesis using ready by (auto simp: parked_def blocked_ok_def live_def)
  next
    case pend
    note u = vmxPendQRemove_ok [OF kinv_parked [OF assms pend(1)] pend(2)]
    have nf: "\<not> has_flag (status_of (unpended t s) t) TASK_DELAY"
      "\<not> has_flag (status_of (unpended t s) t) TASK_PEND" by (simp_all add: kernel_simps)
    then show ?thesis using u pend
      by (intro exI [of _ "unpended t s"]) (auto simp: parked_def blocked_ok_def kernel_simps)
  next
    case other
    have p: "parked t s" using kinv_parked [OF assms other(1)] .
    then have k: "kx t s" "live s t" "\<not> in_ready s t" "\<And>r. \<not> in_pend s r t"
        "in_tick s t \<longleftrightarrow> has_flag (status_of s t) TASK_DELAY"
      using other(2) by (auto simp: parked_def blocked_ok_def)
    show ?thesis
    proof (cases "has_flag (status_of s t) TASK_DELAY")
      case True
      then obtain s' where s': "tickRemove (TaskNode t) s = Some s'" "kx t s'"
          "s' = s\<lparr>tickQ := pq_remove (TaskNode t) (tickQ s)\<rparr>"
        using tickRemove_kx [OF k(1)] k(5) by blast
      then show ?thesis using other True k
        by (intro exI [of _ s']) (simp add: in_ready_def in_tick_def in_pend_def live_def)
    qed (use other k in auto)
  qed
qed

lemma vmxDelete_ok:
  assumes "kinv s" and "live s t"
  shows "\<exists>s'. vmxDelete t s = Some (OK, s') \<and> kinv s' \<and> activeQ s' = remove1 t (activeQ s) \<and>
    status_of s' t = TASK_DEAD \<and> (\<forall>t'. t' \<noteq> t \<longrightarrow> tcbs s' t' = tcbs s t')"
proof -
  obtain s1 where s1: "(if status_of s t = TASK_READY
      then do { s \<leftarrow> rdyRemove t s; Some (OK, s) }
      else do {
        (st, s) \<leftarrow> (if has_flag (status_of s t) TASK_PEND then vmxPendQRemove t s else Some (OK, s));
        s \<leftarrow> (if has_flag (status_of s t) TASK_DELAY then tickRemove (TaskNode t) s else Some s);
        Some (st, s)
      }) = Some (OK, s1)" and k1: "kx t s1" "live s1 t" "\<not> in_ready s1 t" "\<not> in_tick s1 t"
      "\<forall>r. \<not> in_pend s1 r t" "\<forall>t'. t' \<noteq> t \<longrightarrow> tcbs s1 t' = tcbs s t'" "activeQ s1 = activeQ s"
    using delete_unqueue [OF assms] by blast
  define s2 where "s2 = s1\<lparr>taskSwapReference := swap_release_loop 0 (tSwapOutMask (tcbs s1 t))
      (swap_release_loop 0 (tSwapInMask (tcbs s1 t)) (taskSwapReference s1))\<rparr>"
  have k2: "kx t s2" "live s2 t" using k1(1,2) by (simp_all add: s2_def kx_swap_reference live_def)
  note a = activeRemove_kx [OF k2]
  let ?s3 = "s2\<lparr>activeQ := remove1 t (activeQ s2)\<rparr>"
  let ?s4 = "upd_tcb t (\<lambda>c. c\<lparr>tStatus := TASK_DEAD\<rparr>) ?s3"
  have d: "distinct (activeQ s2)" using k2(1) by (simp add: kx_def queues_ok_def)
  have "kinv ?s4"
  proof (rule gone_kinv [of t])
    show "kx t ?s4" using a(2) by (simp add: kernel_simps)
    show "\<not> live ?s4 t" using d by (simp add: kernel_simps) (simp add: live_def)
  qed (use k1 in \<open>auto simp: in_ready_def in_tick_def in_pend_def s2_def kernel_simps\<close>)
  moreover have "vmxDelete t s = Some (OK, ?s4)"
    unfolding vmxDelete_def s1 using a(1) by (simp add: Let_def s2_def)
  ultimately show ?thesis using k1(6,7)
    by (intro exI [of _ ?s4]) (auto simp: kernel_simps s2_def)
qed

subsection \<open>Changing a priority\<close>

lemma pend_ok_move:
  assumes "pend_ok p" and "pend_class p = Some QPrioClass" and "t \<in> pq_nodes (pend_list p)"
  shows "pend_ok (p\<lparr>pend_list := pq_move k t (pend_list p)\<rparr>)"
  using assms pq_move_sorted [of t "pend_list p" k] pq_move_nodes(2) [of t "pend_list p" k]
  by (simp add: pend_ok_def)

lemma set_pq_move:
  assumes "t \<in> pq_nodes q" and "distinct (map snd q)"
  shows "(k', t') \<in> set (pq_move k t q) \<longleftrightarrow> (k', t') = (k, t) \<or> (k', t') \<in> set q \<and> t' \<noteq> t"
  using pq_move_nodes(3) [OF assms] by auto

lemma pendMove_kx:
  assumes "kx t s" and "in_pend s r t"
  shows "\<exists>s'. pendMove r t k s = Some s' \<and> kx t s' \<and>
    s' = (if pend_class (pendQs s r) = Some QPrioClass
          then pend_set r (pq_move k t (pend_list (pendQs s r))) s else s)"
proof -
  have p: "pend_ok (pendQs s r)" using assms(1) by (simp add: kx_def queues_ok_def)
  have i: "t \<in> pq_nodes (pend_list (pendQs s r))" using assms(2) by (simp add: in_pend_def)
  have d: "distinct (map snd (pend_list (pendQs s r)))" using p by (simp add: pend_ok_def)
  show ?thesis
  proof (cases "pend_class (pendQs s r) = Some QPrioClass")
    case True
    let ?s = "pend_set r (pq_move k t (pend_list (pendQs s r))) s"
    have "queues_ok ?s" using assms(1) pend_ok_move [OF p True i]
      by (simp add: kx_def queues_ok_def kernel_simps)
    with assms(1) have "kx t ?s"
      by (rule kx_frame) (auto simp: kernel_simps set_pq_move [OF i d])
    then show ?thesis using True i by (simp add: pendMove_def Let_def pend_set_def)
  next
    case False
    then show ?thesis using pend_ok_class [OF p i] assms(1) by (auto simp: pendMove_def Let_def)
  qed
qed

lemma vmxPrioritySet_ok:
  assumes "kinv s" and "live s t" and p: "priority < 256"
  shows "\<exists>s'. vmxPrioritySet t priority s = Some s' \<and> kinv s' \<and> tcbs s' t = (tcbs s t)\<lparr>tPriority := priority\<rparr> \<and>
    (\<forall>t'. t' \<noteq> t \<longrightarrow> tcbs s' t' = tcbs s t') \<and> activeQ s' = activeQ s \<and>
    (status_of s t = TASK_READY \<longrightarrow> readyQ s' = pq_put priority t (pq_remove t (readyQ s)))"
proof -
  let ?u = "upd_tcb t (\<lambda>c. c\<lparr>tPriority := priority\<rparr>)"
  consider (ready) "status_of s t = TASK_READY"
    | (pend) "status_of s t \<noteq> TASK_READY" "has_flag (status_of s t) TASK_PEND"
    | (other) "status_of s t \<noteq> TASK_READY" "\<not> has_flag (status_of s t) TASK_PEND" by blast
  then show ?thesis
  proof cases
    case ready
    let ?s1 = "s\<lparr>readyQ := pq_remove t (readyQ s)\<rparr>"
    note l = leave_ready [OF assms(1,2) ready]
    have "parked t (?u ?s1)"
      using l(2) ready p by (auto simp: parked_def blocked_ok_def kernel_simps in_pend_def pq_nodes_iff)
    from ready_if_parked [OF this] obtain s' where s': "kinv s'"
        "s' = (?u ?s1)\<lparr>readyQ := pq_put priority t (readyQ (?u ?s1))\<rparr>"
      using ready by (auto simp: kernel_simps)
    have "t \<in> pq_nodes (readyQ s)" using l(1) by (simp add: rdyRemove_def split: if_splits)
    then have "vmxPrioritySet t priority s = Some s'"
      using ready p unfolding s'(2)
      by (simp add: vmxPrioritySet_def Let_def kernel_simps rdyMove_def) (simp add: upd_tcb_def)
    then show ?thesis using s'(1) unfolding s'(2) by (intro exI) (auto simp: kernel_simps)
  next
    case pend
    have k: "parked t s" using kinv_parked [OF assms(1,2) pend(1)] .
    then obtain r where r: "tPendQ (tcbs s t) = Some r" using parked_taken_off(1) [OF k pend(2)] by blast
    have b: "kx t (?u s)" "blocked_ok s t" "live s t" "\<not> in_ready s t" "in_pend (?u s) r t"
      using k r pend(2) by (auto simp: parked_def blocked_ok_def kernel_simps)
    have i: "t \<in> pq_nodes (pend_list (pendQs s r))" using b(5) by (simp add: in_pend_def kernel_simps)
    have d: "distinct (map snd (pend_list (pendQs s r)))" using kinv_pend_distinct [OF assms(1)] .
    obtain s' where s': "pendMove r t priority (?u s) = Some s'" "kx t s'"
        "s' = (if pend_class (pendQs s r) = Some QPrioClass
          then pend_set r (pq_move priority t (pend_list (pendQs s r))) (?u s) else ?u s)"
      using pendMove_kx [OF b(1,5), of priority, unfolded upd_tcb_reads(4)] by blast
    have ip: "in_pend s' r' t = in_pend s r' t" for r'
      using pq_move_nodes(1) [OF i d, of priority] by (auto simp: s'(3) in_pend_def kernel_simps)
    have oth: "r' \<noteq> r \<Longrightarrow> (k', t) \<notin> set (pend_list (pendQs s r'))" for k' r'
      using b(2) r by (auto simp: blocked_ok_def in_pend_def pq_nodes_iff)
    have keys: "k' = priority" if "pend_class (pendQs s' r') = Some QPrioClass"
        "(k', t) \<in> set (pend_list (pendQs s' r'))" for k' r'
      using that oth [of r' k'] by (auto simp: s'(3) kernel_simps set_pq_move [OF i d] split: if_splits)
    have reads: "tcbs s' t = (tcbs s t)\<lparr>tPriority := priority\<rparr>" "activeQ s' = activeQ s" "readyQ s' = readyQ s"
        "tickQ s' = tickQ s" "\<forall>t'. t' \<noteq> t \<longrightarrow> tcbs s' t' = tcbs s t'"
      by (simp_all add: s'(3) kernel_simps)
    have "parked t s'" unfolding parked_def
    proof (intro conjI)
      show "live s' t" "\<not> in_ready s' t" using b(3,4) reads by (simp_all add: live_def in_ready_def)
      show "blocked_ok s' t"
        using b(2) p reads by (simp add: blocked_ok_def ip in_tick_def) (blast dest: keys)
    qed (rule s'(2))
    then have "kinv s'" using pend(1) reads by (intro parked_kinv [of t]) simp_all
    moreover have "vmxPrioritySet t priority s = Some s'"
      using pend r s'(1) by (simp add: vmxPrioritySet_def Let_def kernel_simps)
    ultimately show ?thesis using pend(1) reads by blast
  next
    case other
    have k: "parked t s" using kinv_parked [OF assms(1,2) other(1)] .
    then have "\<And>r. \<not> in_pend s r t" using other(2) by (auto simp: parked_def blocked_ok_def)
    then have "parked t (?u s)" using k p other(2) not_in_key(2)
      by (simp add: parked_def blocked_ok_def kernel_simps)
    then have "kinv (?u s)" using other(1) by (intro parked_kinv [of t]) (simp_all add: kernel_simps)
    then show ?thesis using other
      by (intro exI [of _ "?u s"]) (simp add: vmxPrioritySet_def Let_def kernel_simps)
  qed
qed

subsection \<open>Watchdogs\<close>

lemma kinv_wdog_frame:
  assumes "kinv s" and "queues_ok s'" and "wdog_ok s' w"
    and "tcbs s' = tcbs s" "activeQ s' = activeQ s" "readyQ s' = readyQ s" "pendQs s' = pendQs s"
    and "\<And>w'. w' \<noteq> w \<Longrightarrow> wdogs s' w' = wdogs s w'"
    and "\<And>n. n \<noteq> WdogNode w \<Longrightarrow> n \<in> pq_nodes (tickQ s') \<longleftrightarrow> n \<in> pq_nodes (tickQ s)"
  shows "kinv s'"
proof -
  have "task_ok s' t" for t using assms(1,4-7,9) by (simp add: kinv_def task_ok_def Let_def)
  moreover have "wdog_ok s' w'" for w'
    using assms(1,3,8,9) by (cases "w' = w") (simp_all add: kinv_def wdog_ok_def)
  ultimately show ?thesis using assms(2) by (simp add: kinv_def)
qed

lemma upd_wdog_reads [kernel_simps]:
  "wdogs (upd_wdog w f s) w' = (if w' = w then f (wdogs s w) else wdogs s w')"
  "readyQ (upd_wdog w f s) = readyQ s" "tickQ (upd_wdog w f s) = tickQ s"
  "pendQs (upd_wdog w f s) = pendQs s" "activeQ (upd_wdog w f s) = activeQ s"
  "tcbs (upd_wdog w f s) = tcbs s" "sems (upd_wdog w f s) = sems s"
  "sysTicks (upd_wdog w f s) = sysTicks s" "tickGet (upd_wdog w f s) = tickGet s"
  "taskIdCurrent (upd_wdog w f s) = taskIdCurrent s"
  by (simp_all add: upd_wdog_def tickGet_def)

lemma queues_upd_wdog [kernel_simps]:
  "queues_ok (upd_wdog w f s) = queues_ok s" "clock_ok (upd_wdog w f s) = clock_ok s"
  by (simp_all add: queues_ok_def clock_ok_def kernel_simps)

lemma queues_ok_tick:
  assumes "queues_ok s" and "pq_sorted q" and "distinct (map snd q)"
  shows "queues_ok (s\<lparr>tickQ := q\<rparr>)"
  using assms by (simp add: queues_ok_def)

lemma vmxWdCancel_ok:
  assumes "kinv s"
  shows "\<exists>s'. vmxWdCancel w s = Some s' \<and> kinv s' \<and> tickQ s' = pq_remove (WdogNode w) (tickQ s) \<and>
    (clock_ok s \<longrightarrow> clock_ok s') \<and> wdStatus (wdogs s' w) \<noteq> WDOG_IN_Q \<and> tcbs s' = tcbs s"
proof (cases "wdStatus (wdogs s w) = WDOG_IN_Q")
  case True
  let ?s = "upd_wdog w (\<lambda>w. w\<lparr>wdStatus := WDOG_OUT_OF_Q\<rparr>) (s\<lparr>tickQ := pq_remove (WdogNode w) (tickQ s)\<rparr>)"
  have i: "WdogNode w \<in> pq_nodes (tickQ s)" using assms True by (simp add: kinv_def wdog_ok_def)
  have "queues_ok ?s" using assms
    by (simp add: kernel_simps kinv_def queues_ok_def pq_sorted_remove pq_distinct_remove)
  then have "kinv ?s"
    by (rule kinv_wdog_frame [OF assms, of _ w]) (simp_all add: kernel_simps wdog_ok_def)
  moreover have "clock_ok s \<Longrightarrow> clock_ok ?s"
    by (rule clock_ok_frame [of s]) (auto simp: kernel_simps)
  ultimately show ?thesis using True i
    by (intro exI [of _ ?s]) (simp add: vmxWdCancel_def tickRemove_def kernel_simps)
next
  case False
  then have "WdogNode w \<notin> pq_nodes (tickQ s)" using assms by (simp add: kinv_def wdog_ok_def)
  then show ?thesis using assms False by (simp add: vmxWdCancel_def pq_remove_absent)
qed

lemma pq_requeue:
  assumes i: "n \<in> pq_nodes q \<longleftrightarrow> b" and q': "q' = (if b then pq_move k n q else pq_put k n q)"
    and "pq_sorted q" "distinct (map snd q)"
  shows "pq_sorted q'" and "distinct (map snd q')" and "set q' = insert (k, n) {e \<in> set q. snd e \<noteq> n}"
    and "x \<in> pq_nodes q' \<longleftrightarrow> x = n \<or> x \<in> pq_nodes q"
proof -
  show "pq_sorted q'" "distinct (map snd q')"
    using assms pq_move_sorted [of n q k] pq_move_nodes(2) [of n q k]
    by (simp_all add: pq_sorted_put pq_distinct_put)
  show s: "set q' = insert (k, n) {e \<in> set q. snd e \<noteq> n}"
    using assms pq_move_nodes(3) [of n q k] by (auto simp: pq_nodes_iff)
  show "x \<in> pq_nodes q' \<longleftrightarrow> x = n \<or> x \<in> pq_nodes q"
    unfolding pq_nodes_iff s by auto
qed

text \<open>The last of the deferred starts puts the watchdog on the tick queue; the earlier ones only count down.\<close>

lemma vmxWdStart_ok:
  fixes w :: ptr
  assumes "kinv s" and "clock_ok s"
  defines "n \<equiv> wdDfrStartCount (wdogs s w) - 1"
  shows "\<exists>s'. vmxWdStart w timeout s = Some (OK, s') \<and> kinv s' \<and> clock_ok s' \<and>
    wdDfrStartCount (wdogs s' w) = n \<and> tcbs s' = tcbs s \<and> activeQ s' = activeQ s \<and>
    (if n = 0 then (timeout + sysTicks s', WdogNode w) \<in> set (tickQ s') else tickQ s' = tickQ s)"
proof -
  let ?d = "\<lambda>s. upd_wdog w (\<lambda>w. w\<lparr>wdDfrStartCount := wdDfrStartCount w - 1\<rparr>) s"
  have q: "queues_ok (?d s)" "clock_ok (?d s)" using assms(1,2) by (simp_all add: kinv_def kernel_simps)
  have iw: "WdogNode w \<in> pq_nodes (tickQ s) \<longleftrightarrow> wdStatus (wdogs s w) = WDOG_IN_Q"
    using assms(1) by (simp add: kinv_def wdog_ok_def)
  show ?thesis
  proof (cases "n = 0")
    case False
    have "kinv (?d s)" using assms(1) q(1)
      by (rule kinv_wdog_frame [of s _ w]) (simp_all add: kernel_simps wdog_ok_def iw)
    then show ?thesis using False q(2) unfolding n_def
      by (intro exI [of _ "?d s"]) (simp add: vmxWdStart_def Let_def kernel_simps)
  next
    case True
    define os where "os = tick_overflow timeout (?d s)"
    note o = tick_overflow_queues [OF q, of timeout, folded os_def]
    have nodes: "pq_nodes (tickQ os) = pq_nodes (tickQ s)" by (simp add: os_def kernel_simps)
    define q' where "q' = (if wdStatus (wdogs s w) = WDOG_IN_Q
        then pq_move (timeout + sysTicks os) (WdogNode w) (tickQ os)
        else pq_put (timeout + sysTicks os) (WdogNode w) (tickQ os))"
    have sd: "pq_sorted (tickQ os)" "distinct (map snd (tickQ os))" using o(1) by (simp_all add: queues_ok_def)
    have i: "WdogNode w \<in> pq_nodes (tickQ os) \<longleftrightarrow> wdStatus (wdogs s w) = WDOG_IN_Q"
      using nodes iw by simp
    note q'_props = pq_requeue [OF i q'_def sd]
    let ?s2 = "upd_wdog w (\<lambda>w. w\<lparr>wdStatus := WDOG_IN_Q\<rparr>) (os\<lparr>tickQ := q'\<rparr>)"
    have reads: "tcbs os = tcbs s" "activeQ os = activeQ s" "readyQ os = readyQ s" "pendQs os = pendQs s"
        "wdogs os w' = (if w' = w then (wdogs s w)\<lparr>wdDfrStartCount := n\<rparr> else wdogs s w')" for w'
      by (simp_all add: os_def kernel_simps n_def)
    have q2: "queues_ok ?s2" using queues_ok_tick [OF o(1) q'_props(1,2)] by (simp add: kernel_simps)
    have "kinv ?s2" using assms(1) q2
      by (rule kinv_wdog_frame [of s _ w]) (simp_all add: kernel_simps wdog_ok_def reads q'_props(4) nodes)
    moreover have "clock_ok ?s2"
      using o(2,3) q'_props(3) by (auto simp: clock_ok_def kernel_simps)
    moreover have "vmxWdStart w timeout s = Some (OK, ?s2)"
      using True i reads(5) [of w] unfolding n_def q'_def
      by (simp add: vmxWdStart_def Let_def os_def [symmetric] tickMove_def tickPut_def kernel_simps)
    ultimately show ?thesis using True q'_props(3) reads
      by (intro exI [of _ ?s2]) (simp add: kernel_simps n_def)
  qed
qed

lemma priority_class:
  "vmxPrioritySet t p s = Some s' \<Longrightarrow> pend_class (pendQs s' r) = pend_class (pendQs s r)"
  by (auto simp: vmxPrioritySet_def Let_def kernel_simps rdyMove_def pendMove_def
      split: if_splits option.splits q_class.splits)

end
