(* ===== verification/VmxDemo.thy ===== *)
theory VmxDemo
  imports VmxTick VmxCtl
begin

text \<open>
  A small kernel for concrete runs: task 1 is running, task 2 of the same priority is ready behind it,
  task 3 sleeps, task 4 pends on semaphore 100 with a timeout, task 5 is suspended and task 6 pends on
  the same semaphore without a timeout. Round robin is on, with a slice of one tick, and a watchdog
  object 50 is out of the queue.
\<close>

definition demo_tcb :: "u32 \<Rightarrow> u32 \<Rightarrow> qref option \<Rightarrow> TCB" where
  "demo_tcb st p q = \<lparr>tStatus = st, tLockCount = 0, tPriority = p, tOptions = 1, tTimeSlice = 0,
     tPendQ = q, tUnpendHandler = None, tObj = NULL, tObjInfo = 0, tSafeCount = 0, tErrorStatus = 0,
     tExitCode = 0, tEax = 7, tErrno = 0, tSwapInMask = 0, tSwapOutMask = 0, tIsTask = True,
     tName = None, tId = 0, tEntry = 0, tStackBase = 0, tStackLimit = 0, tStackEnd = 0\<rparr>"

definition demo_sem :: SEM where
  "demo_sem = \<lparr>semIsSem = True, semType = 0, semOptions = 0, semRecurse = 0, semOwner = 1, semCount = 0\<rparr>"

definition demo_wdog :: WDOG where
  "demo_wdog = \<lparr>wdIsWdog = True, wdStatus = 0, wdDfrStartCount = 1, wdFunc = 0, wdArg = 0\<rparr>"

definition demo :: kstate where
  "demo = \<lparr>kernelState = True, kernelIsIdle = False, roundRobinOn = True, roundRobinSlice = 1,
     taskIdCurrent = 1, activeQ = [1, 2, 3, 4, 5, 6],
     readyQ = [(10, 1), (10, 2)], tickQ = [(8, TaskNode 3), (9, TaskNode 4)],
     pendQs = (\<lambda>_. \<lparr>pend_class = None, pend_list = []\<rparr>)
       (SemQ 100 := \<lparr>pend_class = Some QPrioClass, pend_list = [(4, 6), (7, 4)]\<rparr>),
     tcbs = (\<lambda>_. demo_tcb 8 0 None)
       (1 := demo_tcb 0 10 None, 2 := demo_tcb 0 10 None, 3 := demo_tcb 4 5 None,
        4 := demo_tcb 6 7 (Some (SemQ 100)), 5 := demo_tcb 1 20 None, 6 := demo_tcb 2 4 (Some (SemQ 100))),
     sems = (\<lambda>_. demo_sem), wdogs = (\<lambda>_. demo_wdog),
     sysTicks = 5, sysAbsTicks = 5, intCnt = 0, errno = 0,
     workQ = \<lparr>workQIsEmpty = True, workQReadIndex = 0, workQWriteIndex = 0,
       workQJobs = replicate 256 \<lparr>job_func = F_semInvalid, job_numArgs = 0, job_arg1 = 0, job_arg2 = 0\<rparr>\<rparr>,
     taskSwapReference = [],
     msgqs = (\<lambda>_. \<lparr>mqIsMsgQ = False, mqOptions = 0, mqMaxMsg = 0, mqMaxMsgLength = 0, mqSendTimeouts = 0,
       mqReciveTimeouts = 0\<rparr>),
     qmsgs = (\<lambda>_. \<lparr>qmFirst = 0, qmLast = 0, qmCount = 0\<rparr>),
     msgNodes = (\<lambda>_. \<lparr>mnNext = 0, mnLength = 0, mnData = []\<rparr>),
     classes = (\<lambda>_. \<lparr>clsObjClass = Some RootClass, objPartId = 1, objSize = 32, objAllocCount = 0,
       objFreeCount = 0, objInitCount = 0, objTerminateCount = 0, coreOffset = 0, createMethod = None,
       initMethod = None, destroyMethod = None, showMethod = None\<rparr>),
     semGiveTable = [M_semBGive, M_semMGive, M_semCGive],
     semTakeTable = [M_semBTake, M_semMTake, M_semCTake],
     semFlushTable = [M_semQFlush, M_semInvalid, M_semQFlush],
     semGiveDeferTable = [F_semBGiveDefer, F_semInvalid, F_semCGiveDefer],
     semFlushDeferTable = [F_semQFlushDefer, F_semInvalid, F_semQFlushDefer],
     semLibInstalled = True, semBLibInstalled = True, semCLibInstalled = True, semMLibInstalled = True,
     wdLibInstalled = True, taskLibInstalled = True, msgQLibInstalled = True,
     namelessCount = 0, taskNewId = 0, defaultTaskId = 0\<rparr>"

lemma demo_reads [simp]:
  "activeQ demo = [1, 2, 3, 4, 5, 6]" "taskIdCurrent demo = 1" "roundRobinOn demo" "roundRobinSlice demo = 1"
  "readyQ demo = [(10, 1), (10, 2)]" "tickQ demo = [(8, TaskNode 3), (9, TaskNode 4)]"
  "pend_list (pendQs demo (SemQ 100)) = [(4, 6), (7, 4)]"
  "pend_class (pendQs demo (SemQ 100)) = Some QPrioClass"
  "sysTicks demo = 5" "sysAbsTicks demo = 5" "kernelState demo" "intCnt demo = 0"
  "wdogs demo = (\<lambda>_. demo_wdog)" "sems demo = (\<lambda>_. demo_sem)"
  by (simp_all add: demo_def)

lemma demo_tcbs [simp]:
  "tcbs demo 1 = demo_tcb 0 10 None" "tcbs demo (Suc 0) = demo_tcb 0 10 None"
  "tcbs demo 2 = demo_tcb 0 10 None" "tcbs demo 3 = demo_tcb 4 5 None"
  "tcbs demo 4 = demo_tcb 6 7 (Some (SemQ 100))" "tcbs demo 5 = demo_tcb 1 20 None"
  "tcbs demo 6 = demo_tcb 2 4 (Some (SemQ 100))"
  by (simp_all add: demo_def)

lemma demo_live [simp]: "live demo t \<longleftrightarrow> t \<in> {1, 2, 3, 4, 5, 6}"
  by (auto simp: live_def)

lemma demo_tickGet [simp]: "tickGet demo = 5"
  by (simp add: tickGet_def)

lemma demo_tcb_reads [simp]:
  "tStatus (demo_tcb st p q) = st" "tPriority (demo_tcb st p q) = p" "tPendQ (demo_tcb st p q) = q"
  "tUnpendHandler (demo_tcb st p q) = None" "tIsTask (demo_tcb st p q)" "tLockCount (demo_tcb st p q) = 0"
  "tTimeSlice (demo_tcb st p q) = 0" "tEax (demo_tcb st p q) = 7" "tOptions (demo_tcb st p q) = 1"
  by (simp_all add: demo_tcb_def)

lemma demo_queues: "queues_ok demo"
proof -
  have "pend_ok (pendQs demo r)" for r
    by (simp add: demo_def pend_ok_def pq_sorted_def)
  then show ?thesis by (simp add: queues_ok_def pq_sorted_def)
qed

lemma demo_task: "task_ok demo t"
proof (cases "t \<in> {1, 2, 3, 4, 5, 6}")
  case True
  then show ?thesis
    by (auto simp: task_ok_def Let_def pq_nodes_def has_flag_def status_ok_def demo_def demo_tcb_def)
next
  case False
  then show ?thesis
    by (auto simp: task_ok_def Let_def pq_nodes_def has_flag_def demo_def demo_tcb_def)
qed

lemma demo_kok: "kok demo" and demo_kinv: "kinv demo" and demo_clock: "clock_ok demo"
proof -
  have "wdog_ok demo w" for w by (simp add: wdog_ok_def demo_wdog_def pq_nodes_def)
  then show k: "kinv demo" using demo_queues demo_task by (simp add: kinv_def)
  show c: "clock_ok demo" by (simp add: clock_ok_def)
  show "kok demo" using k c by (simp add: kok_def)
qed

end
