(* ===== verification/VmxSafe.thy ===== *)
theory VmxSafe
  imports VmxDemo
begin

text \<open>
  The kernel routines as the operations of one machine: which calls are legal in a state, and that
  every sequence of legal calls is defined and keeps the invariant.
\<close>

subsection \<open>Routines that add no timer\<close>

text \<open>Most routines leave the time alone and at most take nodes out of the tick queue.\<close>

definition no_new_timer :: "kstate \<Rightarrow> kstate \<Rightarrow> bool" where
  "no_new_timer s s' \<longleftrightarrow> sysTicks s' = sysTicks s \<and> tickGet s' = tickGet s \<and> set (tickQ s') \<subseteq> set (tickQ s)"

lemma no_new_timer_refl: "no_new_timer s s"
  by (simp add: no_new_timer_def)

lemma no_new_timer_trans: "no_new_timer s s1 \<Longrightarrow> no_new_timer s1 s2 \<Longrightarrow> no_new_timer s s2"
  by (auto simp: no_new_timer_def)

lemma no_new_timer_clock: "no_new_timer s s' \<Longrightarrow> clock_ok s \<Longrightarrow> clock_ok s'"
  by (auto simp: no_new_timer_def intro: clock_ok_frame)

lemma queue_ops_timer:
  "rdyPut t s = Some s' \<Longrightarrow> no_new_timer s s'"
  "rdyRemove t s = Some s' \<Longrightarrow> no_new_timer s s'"
  "rdyMove t k s = Some s' \<Longrightarrow> no_new_timer s s'"
  "tickRemove n s = Some s' \<Longrightarrow> no_new_timer s s'"
  "activePut t s = Some s' \<Longrightarrow> no_new_timer s s'"
  "activeRemove t s = Some s' \<Longrightarrow> no_new_timer s s'"
  "pendMove r t k s = Some s' \<Longrightarrow> no_new_timer s s'"
  "pendRemove r t s = Some (st, s') \<Longrightarrow> no_new_timer s s'"
  by (auto simp: rdyPut_def rdyRemove_def rdyMove_def tickRemove_def activePut_def activeRemove_def
      pendMove_def pendRemove_def no_new_timer_def tickGet_def Let_def
      split: if_splits option.splits q_class.splits)

lemma tcb_writes_timer:
  "no_new_timer s (upd_tcb t f s)" "no_new_timer s (status_set t w s)" "no_new_timer s (status_clear t w s)"
  "no_new_timer s (taskRetValueSet t v s)" "no_new_timer s (s\<lparr>taskSwapReference := r\<rparr>)"
  by (simp_all add: no_new_timer_def status_set_def status_clear_def taskRetValueSet_def kernel_simps)
    (simp add: tickGet_def)

lemmas timer_chains = queue_ops_timer [THEN no_new_timer_trans [rotated]]
  tcb_writes_timer [THEN no_new_timer_trans [rotated]] no_new_timer_refl

lemma ready_if_timer: "ready_if t s = Some s' \<Longrightarrow> no_new_timer s s'"
  by (auto simp: ready_if_def split: if_splits intro: timer_chains)

lemma vmxSuspend_timer: "vmxSuspend t s = Some s' \<Longrightarrow> no_new_timer s s'"
  unfolding vmxSuspend_def
  by (auto split: if_splits bind_splits intro: timer_chains)

lemma vmxResume_timer: "vmxResume t s = Some s' \<Longrightarrow> no_new_timer s s'"
  unfolding vmxResume_def
  by (auto split: if_splits bind_splits intro: timer_chains)

lemma vmxPendQRemove_timer: "vmxPendQRemove t s = Some (st, s') \<Longrightarrow> no_new_timer s s'"
  unfolding vmxPendQRemove_def Let_def
  by (auto split: option.splits if_splits bind_splits dest!: queue_ops_timer del: subsetI
      simp: no_new_timer_def status_clear_def kernel_simps) (meson subset_trans)+

lemma tickGet_swap: "tickGet (s\<lparr>taskSwapReference := r\<rparr>) = tickGet s"
  by (simp add: tickGet_def)

lemma vmxDelete_timer: "vmxDelete t s = Some (st, s') \<Longrightarrow> no_new_timer s s'"
  unfolding vmxDelete_def Let_def
  by (auto split: option.splits if_splits bind_splits dest!: queue_ops_timer vmxPendQRemove_timer del: subsetI
      simp: no_new_timer_def tickGet_swap kernel_simps) (meson subset_trans)+

lemma vmxPrioritySet_timer: "vmxPrioritySet t p s = Some s' \<Longrightarrow> no_new_timer s s'"
  unfolding vmxPrioritySet_def Let_def
  by (auto split: option.splits if_splits intro: timer_chains)

lemma woken_timer: "no_new_timer s (woken f t s)" "no_new_timer s (pend_set r q s)"
  by (auto simp: no_new_timer_def kernel_simps) (simp add: woken_def Let_def)

lemma wake_list_timer: "no_new_timer s (wake_list f r q s)"
proof (induction f r q s rule: wake_list.induct)
  case (2 f r k t q s)
  then show ?case
    using no_new_timer_trans [OF no_new_timer_trans [OF woken_timer(2) woken_timer(1)]]
    by simp
qed (simp add: no_new_timer_refl)

subsection \<open>The kernel as one machine\<close>

datatype kop =
    KSpawn ptr | KDelete ptr | KSuspend ptr | KResume ptr | KPriority ptr u32 | KDelay u32
  | KPend qref u32 "nat option" ptr int | KGet qref | KFlush qref | KTerminate qref
  | KWdStart ptr u32 | KWdCancel ptr | KTick

text \<open>When the libraries around the kernel may make the call.\<close>

fun kop_ok :: "kop \<Rightarrow> kstate \<Rightarrow> bool" where
  "kop_ok (KSpawn t) s \<longleftrightarrow> t \<noteq> NULL \<and> \<not> live s t \<and> status_of s t = TASK_SUSPEND \<and> tPriority (tcbs s t) < 256"
| "kop_ok (KDelete t) s \<longleftrightarrow> live s t"
| "kop_ok (KSuspend t) s \<longleftrightarrow> live s t"
| "kop_ok (KResume t) s \<longleftrightarrow> live s t"
| "kop_ok (KPriority t p) s \<longleftrightarrow> live s t \<and> p < 256"
| "kop_ok (KDelay d) s \<longleftrightarrow> live s (taskIdCurrent s) \<and> status_of s (taskIdCurrent s) = TASK_READY"
| "kop_ok (KPend r d h ob i) s \<longleftrightarrow>
     live s (taskIdCurrent s) \<and> status_of s (taskIdCurrent s) = TASK_READY \<and> pend_usable s r"
| "kop_ok (KGet r) s \<longleftrightarrow> pend_list (pendQs s r) \<noteq> []"
| "kop_ok (KFlush r) s \<longleftrightarrow> pend_usable s r"
| "kop_ok (KTerminate r) s \<longleftrightarrow> pend_usable s r"
| "kop_ok (KWdStart w d) s \<longleftrightarrow> True"
| "kop_ok (KWdCancel w) s \<longleftrightarrow> True"
| "kop_ok KTick s \<longleftrightarrow> tasks_due (ticked s) \<and> (roundRobinOn s \<longrightarrow> live s (taskIdCurrent s)) \<and>
     tickGet s \<noteq> - 1"

fun run_kop ::
  "(nat \<Rightarrow> arg \<Rightarrow> kstate \<Rightarrow> kstate option) \<Rightarrow> (nat \<Rightarrow> ptr \<Rightarrow> int \<Rightarrow> kstate \<Rightarrow> kstate option) \<Rightarrow>
    (kstate \<Rightarrow> kstate option) \<Rightarrow> kop \<Rightarrow> kstate \<Rightarrow> kstate option" where
  "run_kop wdCall unpend doWork (KSpawn t) s = vmxSpawn t s"
| "run_kop wdCall unpend doWork (KDelete t) s = map_option snd (vmxDelete t s)"
| "run_kop wdCall unpend doWork (KSuspend t) s = vmxSuspend t s"
| "run_kop wdCall unpend doWork (KResume t) s = vmxResume t s"
| "run_kop wdCall unpend doWork (KPriority t p) s = vmxPrioritySet t p s"
| "run_kop wdCall unpend doWork (KDelay d) s = map_option snd (vmxDelay d s)"
| "run_kop wdCall unpend doWork (KPend r d h ob i) s = vmxPendQWithHandlerPut r d h ob i s"
| "run_kop wdCall unpend doWork (KGet r) s = vmxPendQGet r s"
| "run_kop wdCall unpend doWork (KFlush r) s = vmxPendQFlush r s"
| "run_kop wdCall unpend doWork (KTerminate r) s = vmxPendQTerminate r s"
| "run_kop wdCall unpend doWork (KWdStart w d) s = map_option snd (vmxWdStart w d s)"
| "run_kop wdCall unpend doWork (KWdCancel w) s = vmxWdCancel w s"
| "run_kop wdCall unpend doWork KTick s = vmxTickAnnounce wdCall unpend doWork s"

inductive kstep ::
  "(nat \<Rightarrow> arg \<Rightarrow> kstate \<Rightarrow> kstate option) \<Rightarrow> (nat \<Rightarrow> ptr \<Rightarrow> int \<Rightarrow> kstate \<Rightarrow> kstate option) \<Rightarrow>
    (kstate \<Rightarrow> kstate option) \<Rightarrow> kstate \<Rightarrow> kstate \<Rightarrow> bool"
  for wdCall unpend doWork where
  call: "kop_ok op s \<Longrightarrow> run_kop wdCall unpend doWork op s = Some s' \<Longrightarrow> kstep wdCall unpend doWork s s'"

inductive kreach ::
  "(nat \<Rightarrow> arg \<Rightarrow> kstate \<Rightarrow> kstate option) \<Rightarrow> (nat \<Rightarrow> ptr \<Rightarrow> int \<Rightarrow> kstate \<Rightarrow> kstate option) \<Rightarrow>
    (kstate \<Rightarrow> kstate option) \<Rightarrow> kstate \<Rightarrow> kstate \<Rightarrow> bool"
  for wdCall unpend doWork s0 where
  start: "kreach wdCall unpend doWork s0 s0"
| step: "kreach wdCall unpend doWork s0 s \<Longrightarrow> kstep wdCall unpend doWork s s' \<Longrightarrow> kreach wdCall unpend doWork s0 s'"

lemma word_inc_mono:
  fixes a b :: "'a::len word"
  assumes "a \<le> b" and "b \<noteq> - 1"
  shows "a + 1 \<le> b + 1"
proof -
  have "unat (- 1 :: 'a word) = 2 ^ LENGTH('a) - 1" by (simp add: unsigned_minus_1_eq_mask mask_eq_exp_minus_1)
  then have "unat b \<noteq> 2 ^ LENGTH('a) - 1"
    using assms(2) by (metis word_unat_eq_iff)
  moreover have "unat b < 2 ^ LENGTH('a)" by (rule unsigned_less)
  ultimately have "unat b + 1 < 2 ^ LENGTH('a)" by linarith
  then show ?thesis using assms(1) by (simp add: word_le_nat_alt unat_plus_if')
qed

lemma tick_clock:
  assumes "kok s" and "kop_ok KTick s"
  shows "\<exists>s'. vmxTickAnnounce wdCall unpend doWork s = Some s' \<and> kok s'"
proof -
  have a: "kinv s" "clock_ok s" "tasks_due (ticked s)" "roundRobinOn s \<Longrightarrow> live s (taskIdCurrent s)"
      "tickGet s \<noteq> - 1" using assms by (simp_all add: kok_def)
  obtain s' where s': "vmxTickAnnounce wdCall unpend doWork s = Some s'" "kinv s'"
      "tickQ s' = filter (\<lambda>e. \<not> fst e \<le> tickGet s + 1) (tickQ s)"
      "tickGet s' = tickGet s + 1" "sysTicks s' = sysTicks s + 1"
    using tick_effect [OF a(1,3,4), of wdCall unpend doWork] by blast
  have "sysTicks s + 1 \<le> tickGet s + 1"
    using word_inc_mono [of "sysTicks s" "tickGet s"] a(2,5) by (simp add: clock_ok_def)
  then have "clock_ok s'" using s' by (auto simp: clock_ok_def not_le)
  then show ?thesis using s' by (auto simp: kok_def)
qed

lemma run_kop_ok:
  assumes "kok s" and "kop_ok op s"
  shows "\<exists>s'. run_kop wdCall unpend doWork op s = Some s' \<and> kok s'"
proof -
  have k: "kinv s" "clock_ok s" using assms(1) by (simp_all add: kok_def)
  show ?thesis
  proof (cases op)
    case (KSpawn t)
    then show ?thesis using vmxSpawn_ok [OF k(1), of t] assms(2) k(2) clock_ok_frame [OF k(2)]
      by (auto simp: kok_def tickGet_def)
  next
    case (KDelete t)
    then show ?thesis using vmxDelete_ok [OF k(1), of t] assms(2) k(2)
      by (auto simp: kok_def dest: vmxDelete_timer no_new_timer_clock)
  next
    case (KSuspend t)
    then show ?thesis using vmxSuspend_ok [OF k(1), of t] assms(2) k(2)
      by (auto simp: kok_def dest: vmxSuspend_timer no_new_timer_clock)
  next
    case (KResume t)
    then obtain s' where "vmxResume t s = Some s'" "kinv s'"
      using vmxResume_ok [OF k(1), of t] assms(2) by auto
    then show ?thesis using KResume no_new_timer_clock [OF vmxResume_timer k(2)] by (simp add: kok_def)
  next
    case (KPriority t p)
    then show ?thesis using vmxPrioritySet_ok [OF k(1), of t p] assms(2) k(2)
      by (auto simp: kok_def dest: vmxPrioritySet_timer no_new_timer_clock)
  next
    case (KDelay d)
    then show ?thesis using vmxDelay_ok [OF k refl, of d] assms(2) by (simp add: kok_def)
  next
    case (KPend r d h ob i)
    then show ?thesis using vmxPendQWithHandlerPut_ok [OF k refl, of r] assms(2)
      by (simp add: kok_def)
  next
    case (KGet r)
    then obtain a t q where q: "pend_list (pendQs s r) = (a, t) # q"
      using assms(2) by (auto simp: neq_Nil_conv)
    show ?thesis using vmxPendQGet_head [OF k(1) q] KGet k(2)
      no_new_timer_clock [OF no_new_timer_trans [OF woken_timer(2) woken_timer(1)]]
      by (simp add: kok_def)
  next
    case (KFlush r)
    then show ?thesis using vmxPendQFlush_all [OF k(1), of r] assms(2) k(2)
      no_new_timer_clock [OF wake_list_timer] by (simp add: kok_def)
  next
    case (KTerminate r)
    then show ?thesis using vmxPendQTerminate_all [OF k(1), of r] assms(2) k(2)
      no_new_timer_clock [OF wake_list_timer] by (simp add: kok_def)
  next
    case (KWdStart w d)
    then show ?thesis using vmxWdStart_ok [OF k, of w d] by (auto simp: kok_def)
  next
    case (KWdCancel w)
    then show ?thesis using vmxWdCancel_ok [OF k(1), of w] k(2) by (auto simp: kok_def)
  next
    case KTick
    then show ?thesis using tick_clock [OF assms(1)] assms(2) by simp
  qed
qed

inductive_cases kstepE: "kstep wdCall unpend doWork s s'"

lemma kreach_kok:
  assumes "kreach wdCall unpend doWork s0 s" and "kok s0"
  shows "kok s"
  using assms
proof (induction rule: kreach.induct)
  case (step s s')
  from step.hyps(2) obtain op where "kop_ok op s" "run_kop wdCall unpend doWork op s = Some s'"
    by (rule kstepE)
  then show ?case using run_kop_ok [of s op wdCall unpend doWork] step by auto
qed

lemma kreach_step:
  assumes "kreach wdCall unpend doWork s0 s" and "kop_ok op s" and "run_kop wdCall unpend doWork op s = Some s'"
  shows "kreach wdCall unpend doWork s0 s'"
  using assms(1) by (rule kreach.step) (rule kstep.call [OF assms(2,3)])

end
