(* ===== verification/VmxProps.thy ===== *)
theory VmxProps
  imports VmxSafe
begin

text \<open>
  The properties of the kernel routines, each with a run on the example kernel. They rest on the
  lemmas of the theories before: \<open>VmxOps\<close>, \<open>VmxTick\<close>, \<open>VmxCtl\<close> and \<open>VmxSafe\<close>.
\<close>

subsection \<open>Every legal call\<close>

text \<open>C1. From a kernel in order, whatever legal calls were made before, every legal call has a defined
  effect (no list is corrupted, no queue operation fails) and keeps the kernel in order: sorted queues
  without duplicates, each task in exactly the queues its status says, no timer before the time base.\<close>

theorem kernel_calls_safe:
  assumes "kok s0" and "kreach wdCall unpend doWork s0 s" and "kop_ok op s"
  shows "\<exists>s'. run_kop wdCall unpend doWork op s = Some s' \<and> kok s'"
  using run_kop_ok [OF kreach_kok [OF assms(2,1)] assms(3)] .

abbreviation "no_wd \<equiv> \<lambda>f a s. (None :: kstate option)"
abbreviation "no_handler \<equiv> \<lambda>h t st s. (None :: kstate option)"

text \<open>The task that runs suspends task 2 and then pends on the semaphore for 20 ticks.\<close>

definition demo_suspended :: kstate where
  "demo_suspended = the (vmxSuspend 2 demo)"

lemma demo_suspended_reach:
  "kreach no_wd no_handler Some demo demo_suspended"
  "vmxSuspend 2 demo = Some demo_suspended"
proof -
  show s: "vmxSuspend 2 demo = Some demo_suspended"
    using vmxSuspend_ok(1) [OF demo_kinv, of 2] by (simp add: demo_suspended_def)
  show "kreach no_wd no_handler Some demo demo_suspended"
    by (rule kreach_step [OF kreach.start, of "KSuspend 2"]) (simp_all add: s)
qed

lemma demo_suspended_eq:
  "demo_suspended = (status_set 2 TASK_SUSPEND demo)\<lparr>readyQ := [(10, 1)]\<rparr>"
  using vmxSuspend_ok(1) [OF demo_kinv, of 2] demo_suspended_reach(2) by (simp add: pq_remove_def)

theorem kernel_calls_safe_witness:
  "\<exists>s'. vmxPendQWithHandlerPut (SemQ 100) 20 None NULL 0 demo_suspended = Some s' \<and> kok s'"
  using kernel_calls_safe [OF demo_kok demo_suspended_reach(1), of "KPend (SemQ 100) 20 None NULL 0"]
  by (simp add: demo_suspended_eq status_set_def kernel_simps live_def pend_usable_def)



subsection \<open>Time\<close>

lemma clear_both:
  "\<not> has_flag (clear_flag (clear_flag w TASK_PEND) TASK_DELAY) TASK_PEND"
  "\<not> has_flag (clear_flag (clear_flag w TASK_PEND) TASK_DELAY) TASK_DELAY"
  "has_flag (clear_flag (clear_flag w TASK_PEND) TASK_DELAY) TASK_SUSPEND = has_flag w TASK_SUSPEND"
  by simp_all

text \<open>A task that waits for nothing is in no tick or pend queue, and ready unless it is suspended.\<close>

lemma waits_for_nothing:
  assumes "kinv s" and "live s t" and "\<not> has_flag (status_of s t) TASK_PEND"
    and "\<not> has_flag (status_of s t) TASK_DELAY"
  shows "TaskNode t \<notin> pq_nodes (tickQ s)" and "t \<notin> pq_nodes (pend_list (pendQs s r))"
    and "t \<in> pq_nodes (readyQ s) \<longleftrightarrow> \<not> has_flag (status_of s t) TASK_SUSPEND"
  using kinv_live [OF assms(1,2)] assms(3,4) ready_iff [of "status_of s t"]
  by (auto simp: blocked_ok_def in_tick_def in_pend_def in_ready_def)

text \<open>The queues a task is in follow from its status: a task that is left alone stays where it is.\<close>

lemma queues_follow:
  assumes "kinv s" and "kinv s'" and "activeQ s' = activeQ s"
    and "status_of s' t = status_of s t" and "tPendQ (tcbs s' t) = tPendQ (tcbs s t)"
  shows "t \<in> pq_nodes (readyQ s') \<longleftrightarrow> t \<in> pq_nodes (readyQ s)"
    and "t \<in> pq_nodes (pend_list (pendQs s' r)) \<longleftrightarrow> t \<in> pq_nodes (pend_list (pendQs s r))"
proof -
  have "task_ok s t" "task_ok s' t" using assms(1,2) by (simp_all add: kinv_def)
  then show "t \<in> pq_nodes (readyQ s') \<longleftrightarrow> t \<in> pq_nodes (readyQ s)"
    and "t \<in> pq_nodes (pend_list (pendQs s' r)) \<longleftrightarrow> t \<in> pq_nodes (pend_list (pendQs s r))"
    using assms(3-5) by (simp_all add: task_ok_def Let_def)
qed

text \<open>C15. One tick in a kernel in order, when every node that is due belongs to a task without an unpend handler (no watchdog is due),
  and the running task exists if round robin is on: exactly the tasks whose time has come leave the tick queue; one
  that only slept returns \<open>OK\<close>, one that was pending leaves its pend queue and returns \<open>ERROR\<close> with the
  errno of a timeout, and each is ready unless it is suspended. Every other task stays in the queues it was in and
  keeps its \<open>TCB\<close> as it was, but for the slice count of the running task when round robin is on.\<close>

theorem tick_wakes_due:
  assumes "kinv s" and "tasks_due (ticked s)" and "roundRobinOn s \<Longrightarrow> live s (taskIdCurrent s)"
  shows "\<exists>s'. vmxTickAnnounce wdCall unpend doWork s = Some s' \<and> kinv s' \<and> tickGet s' = tickGet s + 1 \<and>
    tickQ s' = filter (\<lambda>e. tickGet s + 1 < fst e) (tickQ s) \<and>
    (\<forall>t. if is_due s t
      then \<not> has_flag (status_of s' t) TASK_PEND \<and> \<not> has_flag (status_of s' t) TASK_DELAY \<and>
        has_flag (status_of s' t) TASK_SUSPEND = has_flag (status_of s t) TASK_SUSPEND \<and>
        (has_flag (status_of s t) TASK_PEND \<longrightarrow>
          tEax (tcbs s' t) = ERROR \<and> tErrno (tcbs s' t) = S_objLib_TIMEOUT) \<and>
        (status_of s t = TASK_DELAY \<longrightarrow> tEax (tcbs s' t) = OK) \<and>
        (t \<in> pq_nodes (readyQ s') \<longleftrightarrow> \<not> has_flag (status_of s t) TASK_SUSPEND) \<and>
        (\<forall>r. t \<notin> pq_nodes (pend_list (pendQs s' r)))
      else slice_only s (tcbs s t) (tcbs s' t) t \<and>
        (t \<in> pq_nodes (readyQ s') \<longleftrightarrow> t \<in> pq_nodes (readyQ s)) \<and>
        (\<forall>r. t \<in> pq_nodes (pend_list (pendQs s' r)) \<longleftrightarrow> t \<in> pq_nodes (pend_list (pendQs s r))))"
proof -
  obtain s' where s': "vmxTickAnnounce wdCall unpend doWork s = Some s'" "kinv s'" "tickGet s' = tickGet s + 1"
      "tickQ s' = filter (\<lambda>e. \<not> fst e \<le> tickGet s + 1) (tickQ s)" "activeQ s' = activeQ s"
      and t: "\<forall>t. let c = (if is_due s t then time_tcb (tcbs s t) else tcbs s t); c' = tcbs s' t
        in tStatus c' = tStatus c \<and> tEax c' = tEax c \<and> tErrno c' = tErrno c \<and>
           tIsTask c' = tIsTask c \<and> tUnpendHandler c' = tUnpendHandler c"
      and o: "\<forall>t. \<not> is_due s t \<longrightarrow> slice_only s (tcbs s t) (tcbs s' t) t"
    using tick_effect [OF assms, of wdCall unpend doWork] by blast
  have due: "\<not> has_flag (status_of s' x) TASK_PEND \<and> \<not> has_flag (status_of s' x) TASK_DELAY \<and>
      has_flag (status_of s' x) TASK_SUSPEND = has_flag (status_of s x) TASK_SUSPEND \<and>
      (has_flag (status_of s x) TASK_PEND \<longrightarrow>
        tEax (tcbs s' x) = ERROR \<and> tErrno (tcbs s' x) = S_objLib_TIMEOUT) \<and>
      (status_of s x = TASK_DELAY \<longrightarrow> tEax (tcbs s' x) = OK) \<and>
      (x \<in> pq_nodes (readyQ s') \<longleftrightarrow> \<not> has_flag (status_of s x) TASK_SUSPEND) \<and>
      (\<forall>r. x \<notin> pq_nodes (pend_list (pendQs s' r)))" if "is_due s x" for x
  proof -
    have "in_tick s x" using that by (auto simp: is_due_def in_tick_def pq_nodes_iff)
    then have lv: "live s' x" using kinv_in(2) [OF assms(1)] s'(5) by (simp add: live_def)
    have st: "tStatus (tcbs s' x) = clear_flag (clear_flag (status_of s x) TASK_PEND) TASK_DELAY"
      using t [rule_format, of x] that by (simp add: Let_def kernel_simps)
    have f: "\<not> has_flag (status_of s' x) TASK_PEND" "\<not> has_flag (status_of s' x) TASK_DELAY"
        "has_flag (status_of s' x) TASK_SUSPEND = has_flag (status_of s x) TASK_SUSPEND"
      unfolding st using clear_both by simp_all
    have flag4: "clear_flag (clear_flag TASK_DELAY TASK_PEND) TASK_DELAY = TASK_READY"
        "\<not> has_flag TASK_DELAY TASK_PEND" by (simp_all add: clear_flag_def has_flag_def)
    have "(has_flag (status_of s x) TASK_PEND \<longrightarrow>
        tEax (tcbs s' x) = ERROR \<and> tErrno (tcbs s' x) = S_objLib_TIMEOUT) \<and>
      (status_of s x = TASK_DELAY \<longrightarrow> tEax (tcbs s' x) = OK)"
      using t [rule_format, of x] that flag4 by (auto simp: Let_def time_tcb_def)
    then show ?thesis using f waits_for_nothing [OF s'(2) lv f(1,2)] by simp
  qed
  have other: "(x \<in> pq_nodes (readyQ s') \<longleftrightarrow> x \<in> pq_nodes (readyQ s)) \<and>
      (\<forall>r. x \<in> pq_nodes (pend_list (pendQs s' r)) \<longleftrightarrow> x \<in> pq_nodes (pend_list (pendQs s r)))"
    if "\<not> is_due s x" for x
  proof -
    have "slice_only s (tcbs s x) (tcbs s' x) x" using o that by blast
    from slice_only_keeps [OF this] show ?thesis using queues_follow [OF assms(1) s'(2,5)] by simp
  qed
  show ?thesis using s' due other o by (intro exI [of _ s']) (simp add: not_le)
qed

text \<open>The clock of the example brought to 8: task 3 is due with the next tick.\<close>

definition demo_late :: kstate where
  "demo_late = demo\<lparr>sysTicks := 7, sysAbsTicks := 7\<rparr>"

lemma demo_late_ok: "kinv demo_late" "tasks_due (ticked demo_late)" "tickGet demo_late = 7"
  "is_due demo_late 3" "\<not> is_due demo_late 4" "tcbs demo_late = tcbs demo" "tickQ demo_late = tickQ demo"
  "taskIdCurrent demo_late = 1" "live demo_late 1"
proof -
  show "kinv demo_late" using demo_kinv
    by (simp add: demo_late_def kinv_def queues_ok_def task_ok_def wdog_ok_def Let_def)
qed (simp_all add: demo_late_def tickGet_def is_due_def tasks_due_def due_nodes_def ticked_def live_def)

theorem tick_wakes_due_witness:
  "\<exists>s'. vmxTickAnnounce no_wd no_handler Some demo_late = Some s' \<and> tickQ s' = [(9, TaskNode 4)] \<and>
    3 \<in> pq_nodes (readyQ s') \<and> tEax (tcbs s' 3) = OK \<and> status_of s' 4 = 6"
proof -
  have "live demo_late (taskIdCurrent demo_late)" using demo_late_ok(8,9) by simp
  note h = tick_wakes_due [OF demo_late_ok(1,2) this, of no_wd no_handler Some]
  show ?thesis
  proof (rule ex_forward [OF h], elim conjE, goal_cases)
    case (1 s')
    show ?case using spec [OF 1(5), of 3] spec [OF 1(5), of 4] 1(1,4) by (simp add: demo_late_ok slice_only_def has_flag_def)
  qed
qed

text \<open>C16. How long a delay lasts when only tasks without an unpend handler wait for the time, the kernel is in order, the running task
  \<open>t\<close> is ready and has no unpend handler, and neither \<open>sysTicks + d\<close> nor the clock wraps at \<open>2 ^ 32\<close> in the time looked at (\<open>n\<close>
  ticks): the task that calls \<open>vmxDelay\<close> with \<open>d\<close> is
  not ready before the tick at which the clock reaches \<open>sysTicks + d\<close>, and is ready from then on. The
  delay takes \<open>d\<close> ticks (at least 1) when \<open>sysTicks\<close> equals the clock, and fewer when it lags behind.\<close>

theorem delay_duration:
  assumes "kok s" and "tick_tasks s" and "taskIdCurrent s = t" "live s t" "status_of s t = TASK_READY"
    and "tIsTask (tcbs s t)" and "tUnpendHandler (tcbs s t) = None"
    and "unat (sysTicks s) + unat d < 2 ^ 32" and "unat (tickGet s) + n < 2 ^ 32"
  shows "\<exists>s1 s2. vmxDelay d s = Some (OK, s1) \<and> run_ticks wdCall unpend doWork n s1 = Some s2 \<and>
    (t \<in> pq_nodes (readyQ s2) \<longleftrightarrow> 0 < n \<and> unat (sysTicks s) + unat d \<le> unat (tickGet s) + n) \<and>
    (TaskNode t \<in> pq_nodes (tickQ s2) \<longleftrightarrow> \<not> (0 < n \<and> unat (sysTicks s) + unat d \<le> unat (tickGet s) + n))"
proof -
  obtain s1 where s1: "vmxDelay d s = Some (OK, s1)" "sleeping t (sysTicks s + d) s1" "tickGet s1 = tickGet s"
    using delay_sleeps [OF assms(1-8)] by blast
  obtain s2 where s2: "run_ticks wdCall unpend doWork n s1 = Some s2"
      "if unat (sysTicks s + d) \<le> unat (tickGet s) + n \<and> 0 < n then awake t s2
       else sleeping t (sysTicks s + d) s2 \<and> tickGet s2 = tickGet s + word_of_nat n"
    using sleep_then_wake [OF s1(2,3) assms(9)] by blast
  have key: "unat (sysTicks s + d) = unat (sysTicks s) + unat d"
    using assms(8) by (simp add: unat_plus_if')
  have "awake t s2 \<Longrightarrow> t \<in> pq_nodes (readyQ s2) \<and> TaskNode t \<notin> pq_nodes (tickQ s2)"
    using kinv_live(2,3) [of s2 t] by (auto simp: awake_def in_ready_def in_tick_def blocked_ok_def)
  moreover have "sleeping t k s2 \<Longrightarrow> t \<notin> pq_nodes (readyQ s2) \<and> TaskNode t \<in> pq_nodes (tickQ s2)" for k
    using kinv_live(3) [of s2 t] by (auto simp: sleeping_def in_ready_def pq_nodes_iff)
  ultimately show ?thesis using s1(1) s2 unfolding key by (metis (full_types))
qed

theorem delay_duration_witness:
  "\<exists>s1 s2 s3. vmxDelay 3 demo = Some (OK, s1) \<and>
    run_ticks no_wd no_handler Some 2 s1 = Some s2 \<and> 1 \<notin> pq_nodes (readyQ s2) \<and>
    run_ticks no_wd no_handler Some 3 s1 = Some s3 \<and> 1 \<in> pq_nodes (readyQ s3)"
proof -
  have h: "tick_tasks demo" "taskIdCurrent demo = 1" "live demo 1" "status_of demo 1 = TASK_READY"
      "tIsTask (tcbs demo 1)" "tUnpendHandler (tcbs demo 1) = None"
      "unat (sysTicks demo) + unat (3 :: u32) < 2 ^ 32"
    by (simp_all add: tick_tasks_def pq_nodes_def)
  have c: "unat (tickGet demo) + 2 < 2 ^ 32" "unat (tickGet demo) + 3 < 2 ^ 32" by simp_all
  show ?thesis
    using delay_duration [OF demo_kok h c(1), of no_wd no_handler Some]
      delay_duration [OF demo_kok h c(2), of no_wd no_handler Some] by auto
qed

subsection \<open>Sharing the processor\<close>



text \<open>C22. Suspending a task takes it out of the ready queue whatever it was doing, and leaves the queues it
  waits in alone; resuming it gives the status back, and the task is ready again exactly when it waits
  for nothing else. Suspending twice is the same as once.\<close>

theorem suspend_resume:
  assumes "kinv s" and "live s t"
  shows "\<exists>s1 s2. vmxSuspend t s = Some s1 \<and> vmxResume t s1 = Some s2 \<and> vmxSuspend t s1 = Some s1 \<and>
    t \<notin> pq_nodes (readyQ s1) \<and> tickQ s1 = tickQ s \<and> pendQs s1 = pendQs s \<and> kinv s1 \<and> kinv s2 \<and>
    status_of s2 t = clear_flag (status_of s t) TASK_SUSPEND \<and>
    (t \<in> pq_nodes (readyQ s2) \<longleftrightarrow>
      \<not> has_flag (status_of s t) TASK_PEND \<and> \<not> has_flag (status_of s t) TASK_DELAY)"
proof -
  define s1 where "s1 = (status_set t TASK_SUSPEND s)\<lparr>readyQ := pq_remove t (readyQ s)\<rparr>"
  note v = vmxSuspend_ok [OF assms, folded s1_def]
  have lv: "live s1 t" using assms(2) by (simp add: s1_def live_def status_set_def kernel_simps)
  have st1: "status_of s1 t = set_flag (status_of s t) TASK_SUSPEND"
    by (simp add: s1_def status_set_def kernel_simps)
  obtain s2 where s2: "vmxResume t s1 = Some s2" "kinv s2"
      "s2 = (if status_of s1 t = TASK_SUSPEND
          then (status_clear t TASK_SUSPEND s1)\<lparr>readyQ := pq_put (tPriority (tcbs s1 t)) t (readyQ s1)\<rparr>
          else status_clear t TASK_SUSPEND s1)"
    using vmxResume_ok [OF v(2) lv] by blast
  have st2: "status_of s2 t = clear_flag (status_of s t) TASK_SUSPEND"
    using clear_set_flag [of "status_of s t" TASK_SUSPEND]
    by (auto simp: s2(3) st1 status_clear_def kernel_simps)
  have lv2: "live s2 t" using lv by (simp add: s2(3) live_def status_clear_def kernel_simps)
  have ok: "status_ok (status_of s t)" using kinv_live(2) [OF assms] by (simp add: blocked_ok_def)
  have nr: "t \<notin> pq_nodes (readyQ s1)" by (simp add: s1_def)
  have rem: "pq_remove t (readyQ s1) = readyQ s1" using nr by (rule pq_remove_absent)
  have again: "vmxSuspend t s1 = Some s1"
    using vmxSuspend_ok(1) [OF v(2) lv] rem
    by (simp add: status_set_def upd_tcb_def s1_def set_flag_again)
  have "t \<in> pq_nodes (readyQ s2) \<longleftrightarrow> status_of s2 t = TASK_READY"
    using kinv_live(3) [OF s2(2) lv2] by (simp add: in_ready_def)
  also have "\<dots> \<longleftrightarrow> \<not> has_flag (status_of s t) TASK_PEND \<and> \<not> has_flag (status_of s t) TASK_DELAY"
    using ready_iff [of "status_of s2 t"] ok by (simp add: st2)
  finally show ?thesis
    using v s2(1,2) again nr st2 by (intro exI [of _ s1] exI [of _ s2])
      (simp add: s1_def status_set_def kernel_simps)
qed

theorem suspend_resume_witness:
  "\<exists>s1 s2. vmxSuspend 1 demo = Some s1 \<and> vmxResume 1 s1 = Some s2 \<and> 1 \<notin> pq_nodes (readyQ s1) \<and>
    1 \<in> pq_nodes (readyQ s2)"
  using suspend_resume [OF demo_kinv, of 1] by auto

subsection \<open>Waking tasks\<close>

text \<open>C18. Giving something to a pend queue: the task at its head, which is the longest waiting one of a FIFO
  queue and a most urgent one of a priority queue, leaves it and the tick queue, returns \<open>OK\<close> from its
  call and is ready unless it is suspended; the others wait on in their order.\<close>

theorem pend_get_head:
  assumes "kinv s" and "pend_list (pendQs s r) = (k, t) # q"
  shows "\<exists>s'. vmxPendQGet r s = Some s' \<and> kinv s' \<and> pend_list (pendQs s' r) = q \<and>
    tEax (tcbs s' t) = OK \<and> TaskNode t \<notin> pq_nodes (tickQ s') \<and>
    (t \<in> pq_nodes (readyQ s') \<longleftrightarrow> \<not> has_flag (status_of s t) TASK_SUSPEND) \<and>
    (\<forall>t'. t' \<noteq> t \<longrightarrow> tcbs s' t' = tcbs s t') \<and>
    (pend_class (pendQs s r) = Some QPrioClass \<longrightarrow>
      (\<forall>t'\<in>snd ` set q. tPriority (tcbs s t) \<le> tPriority (tcbs s t')))"
proof -
  let ?s = "woken got t (pend_set r q s)"
  note g = vmxPendQGet_head [OF assms]
  note h = pend_head_taken [OF assms]
  have lv: "live ?s t" using h(3) by (simp add: live_def kernel_simps)
  have st: "status_of ?s t = clear_flag (clear_flag (status_of s t) TASK_PEND) TASK_DELAY"
    by (simp add: kernel_simps got_def)
  note w = waits_for_nothing [OF g(2) lv, unfolded st, OF clear_both(1,2)]
  have key: "\<And>r k t'. pend_class (pendQs s r) = Some QPrioClass \<Longrightarrow> (k, t') \<in> set (pend_list (pendQs s r)) \<Longrightarrow>
      k = tPriority (tcbs s t')"
    using assms(1) by (auto simp: kinv_def task_ok_def Let_def)
  have "tPriority (tcbs s t) \<le> tPriority (tcbs s t')"
    if c: "pend_class (pendQs s r) = Some QPrioClass" and t': "t' \<in> snd ` set q" for t'
  proof -
    obtain k' where k': "(k', t') \<in> set q" using t' by auto
    have "pq_sorted (pend_list (pendQs s r))"
      using kinv_queues [OF assms(1)] c by (auto simp: queues_ok_def pend_ok_def)
    then have "k \<le> k'" using k' assms(2) by (auto simp: pq_sorted_def)
    then show ?thesis using key [OF c, of k t] key [OF c, of k' t'] k' assms(2) by simp
  qed
  then show ?thesis using g w(1,3) clear_both(3)
    by (intro exI [of _ ?s]) (auto simp: kernel_simps got_def)
qed

theorem pend_get_head_witness:
  "\<exists>s'. vmxPendQGet (SemQ 100) demo = Some s' \<and> pend_list (pendQs s' (SemQ 100)) = [(7, 4)] \<and>
    6 \<in> pq_nodes (readyQ s') \<and> tEax (tcbs s' 6) = OK"
  using pend_get_head [OF demo_kinv, of "SemQ 100" 4 6 "[(7, 4)]"]
  by (auto simp: has_flag_def)

text \<open>C20. Flushing a pend queue and terminating it both return (the loops end) with the queue empty and every
  task that was in it out of the tick queue and ready unless suspended; after a flush their calls return
  \<open>OK\<close>, after a termination \<open>ERROR\<close> with the error status of a deleted object; no other task changes.\<close>

theorem pend_queue_emptied:
  assumes "kinv s" and "pend_usable s r"
  shows "\<exists>sf st. vmxPendQFlush r s = Some sf \<and> vmxPendQTerminate r s = Some st \<and> kinv sf \<and> kinv st \<and>
    pend_list (pendQs sf r) = [] \<and> pend_list (pendQs st r) = [] \<and>
    (\<forall>t. if t \<in> snd ` set (pend_list (pendQs s r))
      then tEax (tcbs sf t) = OK \<and> tEax (tcbs st t) = ERROR \<and> tErrorStatus (tcbs st t) = TASK_DELETED \<and>
        TaskNode t \<notin> pq_nodes (tickQ sf) \<and> TaskNode t \<notin> pq_nodes (tickQ st) \<and>
        (t \<in> pq_nodes (readyQ sf) \<longleftrightarrow> \<not> has_flag (status_of s t) TASK_SUSPEND) \<and>
        (t \<in> pq_nodes (readyQ st) \<longleftrightarrow> \<not> has_flag (status_of s t) TASK_SUSPEND)
      else tcbs sf t = tcbs s t \<and> tcbs st t = tcbs s t)"
proof -
  let ?q = "pend_list (pendQs s r)"
  let ?f = "wake_list got r ?q s" let ?t = "wake_list object_gone r ?q s"
  note f = vmxPendQFlush_all [OF assms] note d = vmxPendQTerminate_all [OF assms]
  note tc = wake_list_tcb [OF kinv_pend_distinct [OF assms(1)]]
  have "tEax (tcbs ?f t) = OK \<and> tEax (tcbs ?t t) = ERROR \<and> tErrorStatus (tcbs ?t t) = TASK_DELETED \<and>
      TaskNode t \<notin> pq_nodes (tickQ ?f) \<and> TaskNode t \<notin> pq_nodes (tickQ ?t) \<and>
      (t \<in> pq_nodes (readyQ ?f) \<longleftrightarrow> \<not> has_flag (status_of s t) TASK_SUSPEND) \<and>
      (t \<in> pq_nodes (readyQ ?t) \<longleftrightarrow> \<not> has_flag (status_of s t) TASK_SUSPEND)"
    if i: "t \<in> snd ` set ?q" for t
  proof -
    have "in_pend s r t" using i by (simp add: in_pend_def pq_nodes_def)
    then have "live s t" using kinv_in(3) [OF assms(1)] by blast
    then have lv: "live ?f t" "live ?t t" by (simp_all add: live_def kernel_simps)
    have st: "status_of ?f t = clear_flag (clear_flag (status_of s t) TASK_PEND) TASK_DELAY"
        "status_of ?t t = clear_flag (clear_flag (status_of s t) TASK_PEND) TASK_DELAY"
      using i by (simp_all add: tc got_def object_gone_def)
    show ?thesis
      using i waits_for_nothing [OF f(2) lv(1), unfolded st, OF clear_both(1,2)]
        waits_for_nothing [OF d(2) lv(2), unfolded st, OF clear_both(1,2)] clear_both(3)
      by (simp add: tc got_def object_gone_def)
  qed
  then show ?thesis using f d
    by (intro exI [of _ ?f] exI [of _ ?t]) (simp add: wake_list_pend tc)
qed

theorem pend_queue_emptied_witness:
  "\<exists>sf st. vmxPendQFlush (SemQ 100) demo = Some sf \<and> vmxPendQTerminate (SemQ 100) demo = Some st \<and>
    {4, 6} \<subseteq> pq_nodes (readyQ sf) \<and> tEax (tcbs sf 4) = OK \<and> tEax (tcbs st 4) = ERROR"
proof -
  have u: "pend_usable demo (SemQ 100)" by (simp add: pend_usable_def)
  obtain sf st where s: "vmxPendQFlush (SemQ 100) demo = Some sf" "vmxPendQTerminate (SemQ 100) demo = Some st"
    and t: "\<forall>t. if t \<in> snd ` set (pend_list (pendQs demo (SemQ 100)))
      then tEax (tcbs sf t) = OK \<and> tEax (tcbs st t) = ERROR \<and> tErrorStatus (tcbs st t) = TASK_DELETED \<and>
        TaskNode t \<notin> pq_nodes (tickQ sf) \<and> TaskNode t \<notin> pq_nodes (tickQ st) \<and>
        (t \<in> pq_nodes (readyQ sf) \<longleftrightarrow> \<not> has_flag (status_of demo t) TASK_SUSPEND) \<and>
        (t \<in> pq_nodes (readyQ st) \<longleftrightarrow> \<not> has_flag (status_of demo t) TASK_SUSPEND)
      else tcbs sf t = tcbs demo t \<and> tcbs st t = tcbs demo t"
    using pend_queue_emptied [OF demo_kinv u] by blast
  show ?thesis using s t [rule_format, of 4] t [rule_format, of 6]
    by (intro exI [of _ sf] exI [of _ st]) (simp add: has_flag_def)
qed

text \<open>C19. Pending on a queue: the running task leaves the ready queue, stands behind the waiting tasks that are
  at least as urgent in a priority queue and behind all of them in a FIFO queue, and is in the tick queue
  exactly when a timeout was given, with a key that is the timeout after the time base. The code returns
  \<open>OK\<close> also for \<open>WAIT_NONE\<close>.\<close>

theorem pend_put_blocks:
  assumes "kinv s" and "clock_ok s" and "taskIdCurrent s = t" "live s t" "status_of s t = TASK_READY"
    and "pend_usable s r" and "tPriority (tcbs s t) \<noteq> FIFO_KEY_HEAD"
  shows "\<exists>s'. vmxPendQPut r d s = Some (OK, s') \<and> kinv s' \<and> clock_ok s' \<and>
    t \<notin> pq_nodes (readyQ s') \<and>
    pend_list (pendQs s' r) = (if pend_class (pendQs s r) = Some QPrioClass
      then pq_put (tPriority (tcbs s t)) t (pend_list (pendQs s r))
      else pend_list (pendQs s r) @ [(tPriority (tcbs s t), t)]) \<and>
    (if d = WAIT_FOREVER then tickQ s' = tickQ s \<and> status_of s' t = TASK_PEND
     else (d + sysTicks s', TaskNode t) \<in> set (tickQ s') \<and> status_of s' t = set_flag TASK_PEND TASK_DELAY) \<and>
    (\<forall>t'. t' \<noteq> t \<longrightarrow> tcbs s' t' = tcbs s t')"
proof -
  note p = vmxPendQWithHandlerPut_ok [OF assms(1-6), where d = d and h = None and ob = NULL and info = 0]
  define sb where "sb = blocked r d (\<lambda>c. c\<lparr>tUnpendHandler := None, tObj := NULL, tObjInfo := 0\<rparr>) s"
  have nr: "t \<notin> pq_nodes (readyQ sb)"
    by (simp add: sb_def blocked_def Let_def assms(3) kernel_simps)
  have pl: "pend_list (pendQs sb r) = pend_insert (pend_class (pendQs s r)) (tPriority (tcbs s t)) t
      (pend_list (pendQs s r))"
    by (simp add: sb_def blocked_def Let_def assms(3) kernel_simps)
  have pl': "pend_list (pendQs sb r) = (if pend_class (pendQs s r) = Some QPrioClass
      then pq_put (tPriority (tcbs s t)) t (pend_list (pendQs s r))
      else pend_list (pendQs s r) @ [(tPriority (tcbs s t), t)])"
    using pl assms(7) by (simp add: pend_insert_def)
  have put: "vmxPendQPut r d s = Some (OK, sb)" using p(1) [folded sb_def] by (simp add: vmxPendQPut_def)
  have st: "set_flag TASK_READY TASK_PEND = TASK_PEND" by (simp add: set_flag_def)
  have tk: "if d = WAIT_FOREVER then tickQ sb = tickQ s \<and> status_of sb t = TASK_PEND
     else (d + sysTicks sb, TaskNode t) \<in> set (tickQ sb) \<and> status_of sb t = set_flag TASK_PEND TASK_DELAY"
    using assms(3,5) by (simp add: sb_def blocked_def Let_def kernel_simps st)
  have fr: "\<forall>t'. t' \<noteq> t \<longrightarrow> tcbs sb t' = tcbs s t'"
    by (simp add: sb_def blocked_def Let_def assms(3) kernel_simps)
  show ?thesis
    using put p(2,3) [folded sb_def] nr pl' tk fr by blast
qed

theorem pend_put_blocks_witness:
  "\<exists>s'. vmxPendQPut (SemQ 100) 0 demo = Some (OK, s') \<and> 1 \<notin> pq_nodes (readyQ s') \<and>
    pend_list (pendQs s' (SemQ 100)) = [(4, 6), (7, 4), (10, 1)] \<and> status_of s' 1 = 6"
proof -
  have h: "taskIdCurrent demo = 1" "live demo 1" "status_of demo 1 = TASK_READY" "pend_usable demo (SemQ 100)"
      "tPriority (tcbs demo 1) \<noteq> FIFO_KEY_HEAD"
    by (simp_all add: pend_usable_def FIFO_KEY_HEAD_def)
  show ?thesis using pend_put_blocks [OF demo_kinv demo_clock h, of 0]
    by (auto simp: set_flag_def)
qed

subsection \<open>Deleting tasks, priorities\<close>

text \<open>C21. Deleting a live task returns \<open>OK\<close> and leaves it dead and in no queue at all, whatever it was doing;
  all other tasks keep their TCBs and the queue of all tasks its order.\<close>

theorem delete_leaves_nothing:
  assumes "kinv s" and "live s t"
  shows "\<exists>s'. vmxDelete t s = Some (OK, s') \<and> kinv s' \<and> status_of s' t = TASK_DEAD \<and>
    activeQ s' = remove1 t (activeQ s) \<and> t \<notin> set (activeQ s') \<and> t \<notin> pq_nodes (readyQ s') \<and>
    TaskNode t \<notin> pq_nodes (tickQ s') \<and> (\<forall>r. t \<notin> pq_nodes (pend_list (pendQs s' r))) \<and>
    (\<forall>t'. t' \<noteq> t \<longrightarrow> tcbs s' t' = tcbs s t')"
proof -
  obtain s' where s': "vmxDelete t s = Some (OK, s')" "kinv s'" "activeQ s' = remove1 t (activeQ s)"
      "status_of s' t = TASK_DEAD" "\<forall>t'. t' \<noteq> t \<longrightarrow> tcbs s' t' = tcbs s t'"
    using vmxDelete_ok [OF assms] by blast
  have "distinct (activeQ s)" using kinv_queues [OF assms(1)] by (simp add: queues_ok_def)
  then have d: "t \<notin> set (activeQ s')" using s'(3) by simp
  then have "\<not> live s' t" by (simp add: live_def)
  then have "t \<notin> pq_nodes (readyQ s')" "TaskNode t \<notin> pq_nodes (tickQ s')"
      "t \<notin> pq_nodes (pend_list (pendQs s' r))" for r
    using kinv_in [OF s'(2)] by (auto simp: in_ready_def in_tick_def in_pend_def)
  then show ?thesis using s' d by (intro exI [of _ s']) simp
qed

theorem delete_leaves_nothing_witness:
  "\<exists>s'. vmxDelete 4 demo = Some (OK, s') \<and> activeQ s' = [1, 2, 3, 5, 6] \<and> TaskNode 4 \<notin> pq_nodes (tickQ s')"
  using delete_leaves_nothing [OF demo_kinv, of 4] by auto

text \<open>Setting a priority below 256 changes the TCB, moves a ready task behind the ready tasks of its new
  priority, moves a pending task in a priority queue, and keeps every queue in order.\<close>

theorem priority_moves_task:
  assumes "kinv s" and "live s t" and "p < 256"
  shows "\<exists>s'. vmxPrioritySet t p s = Some s' \<and> kinv s' \<and> tPriority (tcbs s' t) = p \<and>
    (status_of s t = TASK_READY \<longrightarrow> readyQ s' = pq_put p t (pq_remove t (readyQ s))) \<and>
    (has_flag (status_of s t) TASK_PEND \<and> pend_class (pendQs s (the (tPendQ (tcbs s t)))) = Some QPrioClass \<longrightarrow>
      (p, t) \<in> set (pend_list (pendQs s' (the (tPendQ (tcbs s t)))))) \<and>
    (\<forall>t'. t' \<noteq> t \<longrightarrow> tcbs s' t' = tcbs s t')"
proof -
  obtain s' where s': "vmxPrioritySet t p s = Some s'" "kinv s'" "tcbs s' t = (tcbs s t)\<lparr>tPriority := p\<rparr>"
      "\<forall>t'. t' \<noteq> t \<longrightarrow> tcbs s' t' = tcbs s t'" "activeQ s' = activeQ s"
      "status_of s t = TASK_READY \<longrightarrow> readyQ s' = pq_put p t (pq_remove t (readyQ s))"
    using vmxPrioritySet_ok [OF assms] by blast
  have lv: "live s' t" using assms(2) s'(5) by (simp add: live_def)
  have "(p, t) \<in> set (pend_list (pendQs s' r))"
    if f: "has_flag (status_of s t) TASK_PEND" and r: "r = the (tPendQ (tcbs s t))"
      and c: "pend_class (pendQs s r) = Some QPrioClass" for r
  proof -
    have "tPendQ (tcbs s t) = Some r" using kinv_live(2) [OF assms(1,2)] f r by (auto simp: blocked_ok_def)
    then have "in_pend s' r t" using kinv_live(2) [OF s'(2) lv] f s'(3) by (auto simp: blocked_ok_def)
    then obtain k where k: "(k, t) \<in> set (pend_list (pendQs s' r))" by (auto simp: in_pend_def pq_nodes_iff)
    moreover have "pend_class (pendQs s' r) = Some QPrioClass" using s'(1) c by (simp add: priority_class)
    ultimately have "k = p" using kinv_live(2) [OF s'(2) lv] s'(3) by (auto simp: blocked_ok_def)
    then show ?thesis using k by simp
  qed
  then show ?thesis using s' by (intro exI [of _ s']) simp
qed

theorem priority_moves_task_witness:
  "\<exists>s'. vmxPrioritySet 4 2 demo = Some s' \<and> (2, 4) \<in> set (pend_list (pendQs s' (SemQ 100)))"
  using priority_moves_task [OF demo_kinv, of 4 2] by (auto simp: has_flag_def)

subsection \<open>Watchdogs\<close>

text \<open>C24. Starts of a watchdog are counted: only the last outstanding one puts it on the tick queue, once, due
  the timeout after the time base, whether it was in the queue already or not; cancelling takes it off
  in any state and is harmless when it is not running.\<close>

theorem watchdog_start_cancel:
  assumes "kinv s" and "clock_ok s"
  shows "\<exists>s1 s2. vmxWdStart w d s = Some (OK, s1) \<and> vmxWdCancel w s1 = Some s2 \<and> kinv s1 \<and> kinv s2 \<and>
    clock_ok s1 \<and> clock_ok s2 \<and> wdDfrStartCount (wdogs s1 w) = wdDfrStartCount (wdogs s w) - 1 \<and>
    (if wdDfrStartCount (wdogs s w) = 1 then (d + sysTicks s1, WdogNode w) \<in> set (tickQ s1)
     else tickQ s1 = tickQ s) \<and>
    WdogNode w \<notin> pq_nodes (tickQ s2) \<and> wdStatus (wdogs s2 w) \<noteq> WDOG_IN_Q \<and> tcbs s2 = tcbs s"
proof -
  obtain s1 where s1: "vmxWdStart w d s = Some (OK, s1)" "kinv s1" "clock_ok s1" "tcbs s1 = tcbs s"
      "wdDfrStartCount (wdogs s1 w) = wdDfrStartCount (wdogs s w) - 1"
      "if wdDfrStartCount (wdogs s w) - 1 = 0 then (d + sysTicks s1, WdogNode w) \<in> set (tickQ s1)
       else tickQ s1 = tickQ s"
    using vmxWdStart_ok [OF assms, of w d] by blast
  obtain s2 where s2: "vmxWdCancel w s1 = Some s2" "kinv s2" "tickQ s2 = pq_remove (WdogNode w) (tickQ s1)"
      "clock_ok s1 \<longrightarrow> clock_ok s2" "wdStatus (wdogs s2 w) \<noteq> WDOG_IN_Q" "tcbs s2 = tcbs s1"
    using vmxWdCancel_ok [OF s1(2), of w] by blast
  then show ?thesis using s1 by (intro exI [of _ s1] exI [of _ s2]) simp
qed

theorem watchdog_start_cancel_witness:
  "\<exists>s1 s2. vmxWdStart 50 3 demo = Some (OK, s1) \<and> vmxWdCancel 50 s1 = Some s2 \<and>
    (3 + sysTicks s1, WdogNode 50) \<in> set (tickQ s1) \<and> WdogNode 50 \<notin> pq_nodes (tickQ s2)"
  using watchdog_start_cancel [OF demo_kinv demo_clock, of 50 3] by (auto simp: demo_wdog_def)

subsection \<open>A flaw\<close>

text \<open>\<open>vmxUndelay\<close> cannot wake a sleeping task. With a priority or options other than 0 it corrupts memory
  (it unlinks the words that hold them as if they were the links of the tick node); with both 0 every
  sleeping task loses its timeout: the tick queue is emptied.\<close>

theorem undelay_corrupts:
  assumes "has_flag (status_of s t) TASK_DELAY"
  shows "if tPriority (tcbs s t) = 0 \<and> tOptions (tcbs s t) = 0
    then \<forall>st s'. vmxUndelay t s = Some (st, s') \<longrightarrow> tickQ s' = []
    else vmxUndelay t s = None"
  using assms by (auto simp: vmxUndelay_def Let_def status_clear_def kernel_simps ready_if_def rdyPut_def
      split: if_splits)

theorem undelay_corrupts_witness:
  "vmxUndelay 3 demo = None"
  using undelay_corrupts [of demo 3] by (simp add: has_flag_def)

end
