(* ===== verification/ObjLib.thy ===== *)
theory ObjLib
  imports Kernel
begin

text \<open>
  Objects and their classes: \<open>src/os/objLib.c\<close>, \<open>src/os/classLib.c\<close> and the macro \<open>OBJ_VERIFY\<close> of
  \<open>include/os/objLib.h\<close>. The class pointer of a task, semaphore, watchdog or message queue is kept as a
  flag of its record, true while it points to the class of its kind. What \<open>memPartAlloc\<close> returns is the
  argument \<open>pMem\<close> of the allocating functions.
\<close>

definition S_classLib_NO_CLASS_DESTROY :: int where "S_classLib_NO_CLASS_DESTROY = 3 * 65536 + 3"
definition S_classLib_INVALID_INSTANCE :: int where "S_classLib_INVALID_INSTANCE = 3 * 65536 + 4"
definition S_classLib_OBJ_NO_METHOD :: int where "S_classLib_OBJ_NO_METHOD = 3 * 65536 + 5"

datatype obj_ref = TaskObj ptr | SemObj ptr | WdObj ptr | MsgQObj ptr | ClassObj class_id

definition upd_class :: "class_id \<Rightarrow> (OBJ_CLASS \<Rightarrow> OBJ_CLASS) \<Rightarrow> kstate \<Rightarrow> kstate" where
  "upd_class c f s = s\<lparr>classes := (classes s)(c := f (classes s c))\<rparr>"

text \<open>The field \<open>pObjClass\<close> of an object.\<close>

primrec pObjClass :: "obj_ref \<Rightarrow> kstate \<Rightarrow> class_id option" where
  "pObjClass (TaskObj t) s = (if tIsTask (tcbs s t) then Some TaskClass else None)"
| "pObjClass (SemObj m) s = (if semIsSem (sems s m) then Some SemClass else None)"
| "pObjClass (WdObj w) s = (if wdIsWdog (wdogs s w) then Some WdClass else None)"
| "pObjClass (MsgQObj q) s = (if mqIsMsgQ (msgqs s q) then Some MsgQClass else None)"
| "pObjClass (ClassObj c) s = clsObjClass (classes s c)"

primrec set_pObjClass :: "obj_ref \<Rightarrow> class_id option \<Rightarrow> kstate \<Rightarrow> kstate" where
  "set_pObjClass (TaskObj t) c s = upd_tcb t (\<lambda>r. r\<lparr>tIsTask := (c = Some TaskClass)\<rparr>) s"
| "set_pObjClass (SemObj m) c s = upd_sem m (\<lambda>r. r\<lparr>semIsSem := (c = Some SemClass)\<rparr>) s"
| "set_pObjClass (WdObj w) c s = upd_wdog w (\<lambda>r. r\<lparr>wdIsWdog := (c = Some WdClass)\<rparr>) s"
| "set_pObjClass (MsgQObj q) c s =
     s\<lparr>msgqs := (msgqs s)(q := (msgqs s q)\<lparr>mqIsMsgQ := (c = Some MsgQClass)\<rparr>)\<rparr>"
| "set_pObjClass (ClassObj k) c s = upd_class k (\<lambda>r. r\<lparr>clsObjClass := c\<rparr>) s"

text \<open>
  \<open>OBJ_VERIFY(objId, classId)\<close> is a conditional expression without parentheses around it. As the left side
  of \<open>!= OK\<close> the comparison falls into its last branch and the test is right; as the left side of
  \<open>== OK\<close> it is 0 when the class is right (the value \<open>OK\<close>) and 0 when it is wrong (\<open>ERROR == OK\<close>).
\<close>

definition OBJ_VERIFY_ne_OK :: "obj_ref \<Rightarrow> class_id \<Rightarrow> kstate \<Rightarrow> int \<times> kstate" where
  "OBJ_VERIFY_ne_OK ob c s =
     (if pObjClass ob s = Some c then (OK, s)
      else (of_bool (ERROR \<noteq> OK), errnoSet S_objLib_ID_ERROR s))"

definition OBJ_VERIFY_eq_OK :: "obj_ref \<Rightarrow> class_id \<Rightarrow> kstate \<Rightarrow> int \<times> kstate" where
  "OBJ_VERIFY_eq_OK ob c s =
     (if pObjClass ob s = Some c then (OK, s)
      else (of_bool (ERROR = OK), errnoSet S_objLib_ID_ERROR s))"

definition objAllocPad :: "class_id \<Rightarrow> u32 \<Rightarrow> ptr \<Rightarrow> kstate \<Rightarrow> (ptr \<times> ptr) \<times> kstate" where
  "objAllocPad classId nPadBytes pMem s =
     (case OBJ_VERIFY_ne_OK (ClassObj classId) RootClass s of (bad, s) \<Rightarrow>
        if bad \<noteq> 0 then ((NULL, NULL), errnoSet S_classLib_INVALID_INSTANCE s)
        else if pMem \<noteq> NULL
        then ((pMem, pMem + unat (objSize (classes s classId))),
              upd_class classId (\<lambda>c. c\<lparr>objAllocCount := objAllocCount c + 1\<rparr>) s)
        else ((NULL, NULL), s))"

definition objAlloc :: "class_id \<Rightarrow> ptr \<Rightarrow> kstate \<Rightarrow> ptr \<times> kstate" where
  "objAlloc classId pMem s = (case objAllocPad classId 0 pMem s of ((pObj, _), s) \<Rightarrow> (pObj, s))"

text \<open>\<open>objShow\<close>: the method that would be called, if any.\<close>

definition objShow :: "class_id option \<Rightarrow> kstate \<Rightarrow> (STATUS \<times> nat option) \<times> kstate" where
  "objShow pClass s =
     (case pClass of
        None \<Rightarrow> ((ERROR, None), errnoSet S_objLib_ID_ERROR s)
      | Some c \<Rightarrow>
          (case OBJ_VERIFY_ne_OK (ClassObj c) RootClass s of (bad, s) \<Rightarrow>
             if bad \<noteq> 0 then ((ERROR, None), s)
             else if showMethod (classes s c) = None
             then ((ERROR, None), errnoSet S_classLib_OBJ_NO_METHOD s)
             else ((OK, showMethod (classes s c)), s)))"

definition objFree :: "class_id \<Rightarrow> kstate \<Rightarrow> STATUS \<times> kstate" where
  "objFree classId s =
     (case OBJ_VERIFY_ne_OK (ClassObj classId) RootClass s of (bad, s) \<Rightarrow>
        if bad \<noteq> 0 then (ERROR, s)
        else (OK, upd_class classId (\<lambda>c. c\<lparr>objFreeCount := objFreeCount c + 1\<rparr>) s))"

definition objCoreInit :: "obj_ref \<Rightarrow> class_id \<Rightarrow> kstate \<Rightarrow> kstate" where
  "objCoreInit ob c s =
     upd_class c (\<lambda>k. k\<lparr>objInitCount := objInitCount k + 1\<rparr>) (set_pObjClass ob (Some c) s)"

text \<open>Terminating the core of an object without a class would follow a null pointer.\<close>

definition objCoreTerminate :: "obj_ref \<Rightarrow> kstate \<Rightarrow> kstate option" where
  "objCoreTerminate ob s =
     (case pObjClass ob s of
        None \<Rightarrow> None
      | Some c \<Rightarrow> Some (set_pObjClass ob None
          (upd_class c (\<lambda>k. k\<lparr>objTerminateCount := objTerminateCount k + 1\<rparr>) s)))"

subsection \<open>Classes\<close>

definition classInit ::
  "class_id \<Rightarrow> u32 \<Rightarrow> int \<Rightarrow> ptr \<Rightarrow> nat option \<Rightarrow> nat option \<Rightarrow> nat option \<Rightarrow> kstate \<Rightarrow> STATUS \<times> kstate" where
  "classInit c sz offset partId create ini destroy s =
     (let s = upd_class c (\<lambda>k. k\<lparr>objSize := sz, objAllocCount := 0, objFreeCount := 0, objInitCount := 0,
           objTerminateCount := 0, coreOffset := offset, objPartId := partId, createMethod := create,
           initMethod := ini, destroyMethod := destroy, showMethod := None\<rparr>) s
      in (OK, objCoreInit (ClassObj c) RootClass s))"

definition classLibInit :: "u32 \<Rightarrow> int \<Rightarrow> ptr \<Rightarrow> nat \<Rightarrow> nat \<Rightarrow> nat \<Rightarrow> kstate \<Rightarrow> STATUS \<times> kstate" where
  "classLibInit sz offset memSysPartId create ini destroy s =
     (case classInit RootClass sz offset memSysPartId (Some create) (Some ini) (Some destroy) s of
        (st, s) \<Rightarrow> if st \<noteq> OK then (ERROR, s) else (OK, s))"

text \<open>A class made at run time; the failure branch of the code, which frees with the arguments exchanged,
  is never taken since \<open>classInit\<close> cannot fail.\<close>

definition classCreate ::
  "u32 \<Rightarrow> int \<Rightarrow> ptr \<Rightarrow> nat option \<Rightarrow> nat option \<Rightarrow> nat option \<Rightarrow> ptr \<Rightarrow> kstate \<Rightarrow>
    class_id option \<times> kstate" where
  "classCreate sz offset partId create ini destroy pMem s =
     (case objAlloc RootClass pMem s of (p, s) \<Rightarrow>
        if p = NULL then (None, s)
        else case classInit (OtherClass p) sz offset partId create ini destroy s of (st, s) \<Rightarrow>
          if st \<noteq> OK then (None, snd (objFree (OtherClass p) s)) else (Some (OtherClass p), s))"

definition classShowConnect :: "class_id \<Rightarrow> nat option \<Rightarrow> kstate \<Rightarrow> STATUS \<times> kstate" where
  "classShowConnect c show_m s =
     (case OBJ_VERIFY_ne_OK (ClassObj c) RootClass s of (bad, s) \<Rightarrow>
        if bad \<noteq> 0 then (ERROR, s) else (OK, upd_class c (\<lambda>k. k\<lparr>showMethod := show_m\<rparr>) s))"

definition classDestroy :: "class_id \<Rightarrow> kstate \<Rightarrow> STATUS \<times> kstate" where
  "classDestroy c s = (ERROR, errnoSet S_classLib_NO_CLASS_DESTROY s)"

end
