(* ===== verification/Sched.thy ===== *)
theory Sched
  imports VmxProps ObjLib
begin

text \<open>
  Leaving the kernel: the functions that interrupts defer (\<open>semBGiveDefer\<close>, \<open>semCGiveDefer\<close>,
  \<open>semQFlushDefer\<close>, \<open>semInvalid\<close> of \<open>src/vmx/sem*Lib.c\<close> and \<open>qMsgPendQGet\<close> of \<open>src/util/qMsgLib.c\<close>), the
  loop of \<open>workQDoWork\<close> (\<open>src/vmx/workQLib.c\<close>) that runs them, and \<open>vmxExit\<close> with the scheduler behind it
  (\<open>src/arch/i386/vmxALib.s\<close>). Functions outside the kernel (watchdog functions, unpend handlers, deferred
  user functions, task switch hooks) are parameters, gathered in a record. The loops have fuel, one unit
  for each job and each round of the scheduler; \<open>None\<close> also stands for running out of it.
\<close>

record kenv =
  e_wdCall :: "nat \<Rightarrow> arg \<Rightarrow> kstate \<Rightarrow> kstate option"
  e_unpend :: "nat \<Rightarrow> ptr \<Rightarrow> int \<Rightarrow> kstate \<Rightarrow> kstate option"
  e_user :: "nat \<Rightarrow> arg list \<Rightarrow> kstate \<Rightarrow> kstate option"
  e_hooks :: "ptr \<Rightarrow> ptr \<Rightarrow> kstate \<Rightarrow> kstate option"

subsection \<open>Deferred functions\<close>

definition set_owner :: "ptr \<Rightarrow> ptr \<Rightarrow> kstate \<Rightarrow> kstate" where
  "set_owner semId t = upd_sem semId (\<lambda>m. m\<lparr>semOwner := t\<rparr>)"

definition semBGiveDefer :: "ptr \<Rightarrow> kstate \<Rightarrow> kstate option" where
  "semBGiveDefer semId s =
     (case OBJ_VERIFY_eq_OK (SemObj semId) SemClass s of (eq, s) \<Rightarrow>
        if eq \<noteq> 0
        then let s = set_owner semId (pendFirst (SemQ semId) s) s
             in if semOwner (sems s semId) \<noteq> NULL then vmxPendQGet (SemQ semId) s else Some s
        else Some s)"

definition semCGiveDefer :: "ptr \<Rightarrow> kstate \<Rightarrow> kstate option" where
  "semCGiveDefer semId s =
     (case OBJ_VERIFY_eq_OK (SemObj semId) SemClass s of (eq, s) \<Rightarrow>
        if eq \<noteq> 0
        then if pendFirst (SemQ semId) s = NULL
             then Some (upd_sem semId (\<lambda>m. m\<lparr>semCount := semCount m + 1\<rparr>) s)
             else vmxPendQGet (SemQ semId) s
        else Some s)"

definition semQFlushDefer :: "ptr \<Rightarrow> kstate \<Rightarrow> kstate option" where
  "semQFlushDefer semId s =
     (if pendFirst (SemQ semId) s \<noteq> NULL then vmxPendQFlush (SemQ semId) s else Some s)"

definition semInvalid :: "ptr \<Rightarrow> STATUS" where
  "semInvalid semId = ERROR"

text \<open>The two heads of a message queue are told apart by the second argument, 0 or 1.\<close>

definition qmsg_head :: "ptr \<Rightarrow> arg \<Rightarrow> qref" where
  "qmsg_head msgQId h = (if h = 0 then MsgQ msgQId else FreeQ msgQId)"

definition qMsgPendQGet :: "ptr \<Rightarrow> qref \<Rightarrow> kstate \<Rightarrow> kstate option" where
  "qMsgPendQGet msgQId pQHead s = (if pendFirst pQHead s \<noteq> NULL then vmxPendQGet pQHead s else Some s)"

subsection \<open>The work queue loop\<close>

text \<open>The call a job makes; a call with the wrong number of arguments is not defined.\<close>

fun run_job :: "kenv \<Rightarrow> (kstate \<Rightarrow> kstate option) \<Rightarrow> kfunc work_call \<Rightarrow> kstate \<Rightarrow> kstate option" where
  "run_job e doWork (Call0 F_vmxTickAnnounce) s = vmxTickAnnounce (e_wdCall e) (e_unpend e) doWork s"
| "run_job e doWork (Call2 F_vmxWdStart w d) s = map_option snd (vmxWdStart w (word_of_nat d) s)"
| "run_job e doWork (Call1 F_vmxWdCancel w) s = vmxWdCancel w s"
| "run_job e doWork (Call1 F_vmxSuspend t) s = vmxSuspend t s"
| "run_job e doWork (Call1 F_vmxResume t) s = vmxResume t s"
| "run_job e doWork (Call1 F_vmxUndelay t) s = map_option snd (vmxUndelay t s)"
| "run_job e doWork (Call2 F_vmxPrioritySet t p) s = vmxPrioritySet t (word_of_nat p) s"
| "run_job e doWork (Call1 F_semBGiveDefer m) s = semBGiveDefer m s"
| "run_job e doWork (Call1 F_semCGiveDefer m) s = semCGiveDefer m s"
| "run_job e doWork (Call1 F_semQFlushDefer m) s = semQFlushDefer m s"
| "run_job e doWork (Call1 F_semInvalid m) s = Some s"
| "run_job e doWork (Call2 F_qMsgPendQGet m h) s = qMsgPendQGet m (qmsg_head m h) s"
| "run_job e doWork (Call0 (F_user f)) s = e_user e f [] s"
| "run_job e doWork (Call1 (F_user f) a) s = e_user e f [a] s"
| "run_job e doWork (Call2 (F_user f) a b) s = e_user e f [a, b] s"
| "run_job e doWork _ s = None"

text \<open>The loop of \<open>workQDoWork\<close>; around it \<open>errno\<close> is kept, also for the calls from within a job.\<close>

definition keep_errno :: "(kstate \<Rightarrow> kstate option) \<Rightarrow> kstate \<Rightarrow> kstate option" where
  "keep_errno f s = do { s' \<leftarrow> f s; Some (s'\<lparr>errno := errno s\<rparr>) }"

primrec work_loop :: "kenv \<Rightarrow> nat \<Rightarrow> kstate \<Rightarrow> kstate option" where
  "work_loop e 0 s = None"
| "work_loop e (Suc n) s =
     (case workQNext (workQ s) of
        None \<Rightarrow> Some (s\<lparr>workQ := (workQ s)\<lparr>workQIsEmpty := True\<rparr>\<rparr>)
      | Some (call, q) \<Rightarrow> do {
          s \<leftarrow> run_job e (keep_errno (work_loop e n)) call (s\<lparr>workQ := q\<rparr>);
          work_loop e n s
        })"

definition workQDoWork :: "kenv \<Rightarrow> nat \<Rightarrow> kstate \<Rightarrow> kstate option" where
  "workQDoWork e n = keep_errno (work_loop e n)"

subsection \<open>The scheduler\<close>

text \<open>
  How a call that goes through \<open>vmxExit\<close> ends: it returns to its caller, or the context of the calling
  task was saved and the call goes on, with the value in \<open>tEax\<close>, when that task is dispatched again.
\<close>

datatype 'a after = Returns 'a | Blocks

definition dispatch :: "(kstate \<Rightarrow> kstate option) \<Rightarrow> ptr \<Rightarrow> kstate \<Rightarrow> kstate option" where
  "dispatch work t s =
     (let s = s\<lparr>errno := tErrno (tcbs s t)\<rparr>
      in if \<not> workQIsEmpty (workQ s) then work s else Some (s\<lparr>kernelState := False\<rparr>))"

definition switchTasks ::
  "kenv \<Rightarrow> (kstate \<Rightarrow> kstate option) \<Rightarrow> ptr \<Rightarrow> ptr \<Rightarrow> kstate \<Rightarrow> kstate option" where
  "switchTasks e work old new s = do {
     s \<leftarrow> e_hooks e old new (s\<lparr>taskIdCurrent := new\<rparr>);
     dispatch work new s
   }"

definition noTaskReady :: "(kstate \<Rightarrow> kstate option) \<Rightarrow> kstate \<Rightarrow> kstate option" where
  "noTaskReady work s =
     (if \<not> workQIsEmpty (workQ s) then work s
      else Some (s\<lparr>kernelState := False, kernelIsIdle := True\<rparr>))"

primrec workQWork :: "kenv \<Rightarrow> nat \<Rightarrow> kstate \<Rightarrow> kstate option" where
  "workQWork e 0 s = None"
| "workQWork e (Suc n) s = do {
     s \<leftarrow> workQDoWork e n s;
     let new = readyFirst s;
     if new = NULL then noTaskReady (workQWork e n) s
     else if new = taskIdCurrent s then dispatch (workQWork e n) new s
     else switchTasks e (workQWork e n) (taskIdCurrent s) new s
   }"

definition vmxTaskReschedule :: "kenv \<Rightarrow> nat \<Rightarrow> ptr \<Rightarrow> kstate \<Rightarrow> kstate option" where
  "vmxTaskReschedule e n old s =
     (let s = s\<lparr>kernelIsIdle := False\<rparr>; new = readyFirst s
      in if new = NULL then noTaskReady (workQWork e n) s
         else switchTasks e (workQWork e n) old new s)"

definition saveTaskContext :: "kenv \<Rightarrow> nat \<Rightarrow> kstate \<Rightarrow> kstate option" where
  "saveTaskContext e n s =
     (let t = taskIdCurrent s
      in vmxTaskReschedule e n t (upd_tcb t (\<lambda>c. c\<lparr>tEax := 0, tErrno := errno s\<rparr>) s))"

primrec checkTaskSwitch :: "kenv \<Rightarrow> nat \<Rightarrow> kstate \<Rightarrow> (STATUS after \<times> kstate) option" where
  "checkTaskSwitch e 0 s = None"
| "checkTaskSwitch e (Suc n) s =
     (let t = taskIdCurrent s
      in if t = readyFirst s \<or> tLockCount (tcbs s t) \<noteq> 0 \<and> status_of s t = TASK_READY
         then if \<not> workQIsEmpty (workQ s)
              then do { s \<leftarrow> workQDoWork e n s; checkTaskSwitch e n s }
              else Some (Returns OK, s\<lparr>kernelState := False\<rparr>)
         else do { s \<leftarrow> saveTaskContext e n s; Some (Blocks, s) })"

primrec exitFromInt :: "kenv \<Rightarrow> nat \<Rightarrow> kstate \<Rightarrow> (STATUS after \<times> kstate) option" where
  "exitFromInt e 0 s = None"
| "exitFromInt e (Suc n) s =
     (if \<not> workQIsEmpty (workQ s)
      then do { s \<leftarrow> workQDoWork e n s; exitFromInt e n s }
      else Some (Returns OK, s\<lparr>kernelState := False\<rparr>))"

text \<open>Before there is a task \<open>vmxExit\<close> returns at once, with no defined value.\<close>

definition vmxExit :: "kenv \<Rightarrow> nat \<Rightarrow> kstate \<Rightarrow> (STATUS after \<times> kstate) option" where
  "vmxExit e n s =
     (if taskIdCurrent s = NULL then None
      else if intCnt s \<noteq> 0 then exitFromInt e n s
      else checkTaskSwitch e n s)"

subsection \<open>Interrupts\<close>

text \<open>
  \<open>intEnt\<close> counts the interrupt and keeps \<open>errno\<close>; \<open>intExit\<close> gives it back and reschedules when the
  interrupt came at a task (or the idle loop) outside the kernel that is no longer the one to run.
  \<open>nested\<close> tells that another interrupt was interrupted, \<open>eax\<close> is the register of the interrupted task.
\<close>

definition intEnt :: "kstate \<Rightarrow> int \<times> kstate" where
  "intEnt s = (errno s, s\<lparr>intCnt := intCnt s + 1\<rparr>)"

definition intContextSave :: "kenv \<Rightarrow> nat \<Rightarrow> int \<Rightarrow> kstate \<Rightarrow> kstate option" where
  "intContextSave e n eax s =
     (let t = taskIdCurrent s; s = s\<lparr>kernelState := True\<rparr>
      in vmxTaskReschedule e n t (upd_tcb t (\<lambda>c. c\<lparr>tEax := eax, tErrno := errno s\<rparr>) s))"

definition intExit :: "kenv \<Rightarrow> nat \<Rightarrow> bool \<Rightarrow> int \<Rightarrow> int \<Rightarrow> kstate \<Rightarrow> kstate option" where
  "intExit e n nested eax saved s =
     (let s = s\<lparr>errno := saved, intCnt := intCnt s - 1\<rparr>; t = taskIdCurrent s
      in if nested \<or> kernelState s then Some s
         else if kernelIsIdle s then vmxTaskReschedule e n t (s\<lparr>kernelState := True\<rparr>)
         else if t = readyFirst s then Some s
         else if tLockCount (tcbs s t) = 0 \<or> status_of s t \<noteq> TASK_READY then intContextSave e n eax s
         else Some s)"

subsection \<open>What the kernel routines leave alone\<close>

definition same_cpu :: "kstate \<Rightarrow> kstate \<Rightarrow> bool" where
  "same_cpu s s' \<longleftrightarrow> workQ s' = workQ s \<and> intCnt s' = intCnt s \<and> taskIdCurrent s' = taskIdCurrent s \<and>
     kernelState s' = kernelState s \<and> kernelIsIdle s' = kernelIsIdle s"

lemma queue_ops_cpu:
  "rdyPut t s = Some s' \<Longrightarrow> same_cpu s s'"
  "rdyRemove t s = Some s' \<Longrightarrow> same_cpu s s'"
  "rdyMove t k s = Some s' \<Longrightarrow> same_cpu s s'"
  "tickPut n k s = Some s' \<Longrightarrow> same_cpu s s'"
  "tickMove n k s = Some s' \<Longrightarrow> same_cpu s s'"
  "tickRemove n s = Some s' \<Longrightarrow> same_cpu s s'"
  "activePut t s = Some s' \<Longrightarrow> same_cpu s s'"
  "activeRemove t s = Some s' \<Longrightarrow> same_cpu s s'"
  "pendMove r t k s = Some s' \<Longrightarrow> same_cpu s s'"
  "pendRemove r t s = Some (st, s') \<Longrightarrow> same_cpu s s'"
  "pendPut r t k s = Some s' \<Longrightarrow> same_cpu s s'"
  "pendGet r s = Some (u, s') \<Longrightarrow> same_cpu s s'"
  by (auto simp: rdyPut_def rdyRemove_def rdyMove_def tickRemove_def tickPut_def tickMove_def activePut_def
      activeRemove_def pendMove_def pendRemove_def pendPut_def pendGet_def same_cpu_def Let_def
      split: if_splits option.splits q_class.splits list.splits)

lemma updates_cpu [simp]:
  "same_cpu s s" "same_cpu s (upd_tcb t f s)" "same_cpu s (upd_sem m g s)" "same_cpu s (upd_wdog w h s)"
  "same_cpu s (status_set t x s)" "same_cpu s (status_clear t x s)" "same_cpu s (taskRetValueSet t v s)"
  "same_cpu s (errnoSet v s)" "same_cpu s (tick_overflow d s)" "same_cpu s (pend_set r q s)"
  "same_cpu s (woken k t s)" "same_cpu s (s\<lparr>taskSwapReference := refs\<rparr>)" "same_cpu s (s\<lparr>tickQ := tq\<rparr>)"
  "same_cpu s (ticked s)" "same_cpu s (unpended t s)" "same_cpu s (made_ready t s)"
  by (simp_all add: same_cpu_def upd_tcb_def upd_sem_def upd_wdog_def status_set_def status_clear_def
      taskRetValueSet_def errnoSet_def tick_overflow_def tickOffset_def pend_set_def woken_def Let_def ticked_def
      unpended_def made_ready_def)

lemma same_cpu_trans: "same_cpu s s1 \<Longrightarrow> same_cpu s1 s2 \<Longrightarrow> same_cpu s s2"
  by (simp add: same_cpu_def)

lemma same_cpu_more [simp]:
  "same_cpu s (upd_tcb t f s1) = same_cpu s s1" "same_cpu s (upd_sem m g s1) = same_cpu s s1"
  "same_cpu s (upd_wdog w h s1) = same_cpu s s1" "same_cpu s (status_set t x s1) = same_cpu s s1"
  "same_cpu s (status_clear t x s1) = same_cpu s s1" "same_cpu s (taskRetValueSet t v s1) = same_cpu s s1"
  "same_cpu s (errnoSet v s1) = same_cpu s s1" "same_cpu s (tick_overflow d s1) = same_cpu s s1"
  "same_cpu s (s1\<lparr>taskSwapReference := refs\<rparr>) = same_cpu s s1" "same_cpu s (s1\<lparr>tickQ := tq\<rparr>) = same_cpu s s1"
  "same_cpu (upd_tcb t f s) s1 = same_cpu s s1" "same_cpu (upd_wdog w h s) s1 = same_cpu s s1"
  "same_cpu (status_set t x s) s1 = same_cpu s s1" "same_cpu (status_clear t x s) s1 = same_cpu s s1"
  "same_cpu (taskRetValueSet t v s) s1 = same_cpu s s1" "same_cpu (tick_overflow d s) s1 = same_cpu s s1"
  "same_cpu (s\<lparr>taskSwapReference := refs\<rparr>) s1 = same_cpu s s1" "same_cpu (s\<lparr>tickQ := tq\<rparr>) s1 = same_cpu s s1"
  "same_cpu (upd_sem m g s) s1 = same_cpu s s1" "same_cpu (errnoSet v s) s1 = same_cpu s s1"
  by (simp_all add: same_cpu_def upd_tcb_def upd_sem_def upd_wdog_def status_set_def status_clear_def
      taskRetValueSet_def errnoSet_def tick_overflow_def tickOffset_def)

lemma ready_if_cpu: "ready_if t s = Some s' \<Longrightarrow> same_cpu s s'"
  by (auto simp: ready_if_def split: if_splits intro: queue_ops_cpu)

lemma vmxPendQRemove_cpu: "vmxPendQRemove t s = Some (st, s') \<Longrightarrow> same_cpu s s'"
  unfolding vmxPendQRemove_def Let_def
  by (auto split: option.splits if_splits bind_splits dest!: queue_ops_cpu; simp add: same_cpu_def)

lemma vmxSuspend_cpu: "vmxSuspend t s = Some s' \<Longrightarrow> same_cpu s s'"
  unfolding vmxSuspend_def by (auto split: if_splits bind_splits dest!: queue_ops_cpu)

lemma vmxResume_cpu: "vmxResume t s = Some s' \<Longrightarrow> same_cpu s s'"
  unfolding vmxResume_def by (auto split: if_splits bind_splits dest!: queue_ops_cpu)

lemma vmxPrioritySet_cpu: "vmxPrioritySet t p s = Some s' \<Longrightarrow> same_cpu s s'"
  unfolding vmxPrioritySet_def Let_def by (auto split: option.splits if_splits dest!: queue_ops_cpu)

lemma vmxDelay_cpu: "vmxDelay d s = Some (st, s') \<Longrightarrow> same_cpu s s'"
  unfolding vmxDelay_def Let_def by (auto split: bind_splits dest!: queue_ops_cpu; simp add: same_cpu_def)

lemma pend_timeout_cpu: "pend_timeout d s = Some s' \<Longrightarrow> same_cpu s s'"
  unfolding pend_timeout_def Let_def by (auto split: if_splits bind_splits dest!: queue_ops_cpu)

lemma vmxPendQPut_cpu: "vmxPendQPut r d s = Some (st, s') \<Longrightarrow> same_cpu s s'"
  unfolding vmxPendQPut_def vmxPendQWithHandlerPut_def Let_def
  by (auto split: bind_splits dest!: queue_ops_cpu pend_timeout_cpu; simp add: same_cpu_def)

lemma vmxReadyQPut_cpu: "vmxReadyQPut t s = Some s' \<Longrightarrow> same_cpu s s'"
  unfolding vmxReadyQPut_def Let_def
  by (auto split: if_splits bind_splits dest!: queue_ops_cpu ready_if_cpu; simp add: same_cpu_def)

lemma vmxPendQGet_cpu: "vmxPendQGet r s = Some s' \<Longrightarrow> same_cpu s s'"
  unfolding vmxPendQGet_def
  by (auto split: if_splits bind_splits dest!: queue_ops_cpu vmxReadyQPut_cpu; simp add: same_cpu_def)

lemma vmxWdStart_cpu: "vmxWdStart w d s = Some (st, s') \<Longrightarrow> same_cpu s s'"
  unfolding vmxWdStart_def Let_def by (auto split: if_splits bind_splits dest!: queue_ops_cpu)

lemma vmxWdCancel_cpu: "vmxWdCancel w s = Some s' \<Longrightarrow> same_cpu s s'"
  unfolding vmxWdCancel_def by (auto split: if_splits bind_splits dest!: queue_ops_cpu)

lemma wake_list_cpu: "same_cpu s (wake_list f r q s)"
proof (induction f r q s rule: wake_list.induct)
  case (2 f r k t q s)
  have "same_cpu s (woken f t (pend_set r q s))" by (rule same_cpu_trans [OF updates_cpu(10) updates_cpu(11)])
  then show ?case using 2 same_cpu_trans by auto
qed simp

end
