(* ===== verification/SchedOps.thy ===== *)
theory SchedOps
  imports Sched
begin

text \<open>
  What the work queue loop and the scheduler do under the invariant of the kernel: every legal deferred
  job is run once and in order, and the kernel is left with the most urgent ready task running.
\<close>

subsection \<open>The invariant does not look at the processor\<close>

lemma kok_parts:
  "kok s' = kok s" if "readyQ s' = readyQ s" "tickQ s' = tickQ s" "activeQ s' = activeQ s" "pendQs s' = pendQs s"
    "tcbs s' = tcbs s" "wdogs s' = wdogs s" "sysTicks s' = sysTicks s" "sysAbsTicks s' = sysAbsTicks s"
  using that by (simp add: kok_def kinv_def queues_ok_def task_ok_def wdog_ok_def clock_ok_def tickGet_def Let_def)

lemma kok_cpu [simp]:
  "kok (s\<lparr>kernelState := a\<rparr>) = kok s" "kok (s\<lparr>kernelIsIdle := a\<rparr>) = kok s"
  "kok (s\<lparr>taskIdCurrent := t\<rparr>) = kok s" "kok (s\<lparr>intCnt := n\<rparr>) = kok s" "kok (s\<lparr>errno := e\<rparr>) = kok s"
  "kok (s\<lparr>workQ := q\<rparr>) = kok s" "kok (errnoSet e s) = kok s"
  "kok (s\<lparr>kernelState := a, kernelIsIdle := b\<rparr>) = kok s"
  by (rule kok_parts; simp add: errnoSet_def)+

lemma kok_tcb_regs: "kok (upd_tcb t (\<lambda>c. c\<lparr>tEax := a, tErrno := e\<rparr>) s) = kok s"
proof -
  have "task_ok (upd_tcb t (\<lambda>c. c\<lparr>tEax := a, tErrno := e\<rparr>) s) t' = task_ok s t'" for t'
    by (cases "t' = t") (simp_all add: task_ok_def Let_def kernel_simps)
  then have "kinv (upd_tcb t (\<lambda>c. c\<lparr>tEax := a, tErrno := e\<rparr>) s) = kinv s"
    by (simp add: kinv_def queues_ok_def wdog_ok_def kernel_simps)
  then show ?thesis by (simp add: kok_def clock_ok_def kernel_simps)
qed

subsection \<open>Legal jobs\<close>

text \<open>A job is legal when its call is: a call on a task needs a live one when it runs, not when it was
  deferred. \<open>vmxUndelay\<close> is never legal.\<close>

fun job_ok :: "kfunc work_call \<Rightarrow> kstate \<Rightarrow> bool" where
  "job_ok (Call0 F_vmxTickAnnounce) s \<longleftrightarrow> kop_ok KTick s"
| "job_ok (Call2 F_vmxWdStart w d) s \<longleftrightarrow> True"
| "job_ok (Call1 F_vmxWdCancel w) s \<longleftrightarrow> True"
| "job_ok (Call1 F_vmxSuspend t) s \<longleftrightarrow> live s t"
| "job_ok (Call1 F_vmxResume t) s \<longleftrightarrow> live s t"
| "job_ok (Call2 F_vmxPrioritySet t p) s \<longleftrightarrow> live s t \<and> (word_of_nat p :: u32) < 256"
| "job_ok (Call1 F_semBGiveDefer m) s \<longleftrightarrow> True"
| "job_ok (Call1 F_semCGiveDefer m) s \<longleftrightarrow> True"
| "job_ok (Call1 F_semQFlushDefer m) s \<longleftrightarrow> True"
| "job_ok (Call1 F_semInvalid m) s \<longleftrightarrow> True"
| "job_ok (Call2 F_qMsgPendQGet m h) s \<longleftrightarrow> True"
| "job_ok _ s \<longleftrightarrow> False"

lemma semB_lost: "semBGiveDefer m s = Some (snd (OBJ_VERIFY_eq_OK (SemObj m) SemClass s))"
  and semC_lost: "semCGiveDefer m s = Some (snd (OBJ_VERIFY_eq_OK (SemObj m) SemClass s))"
  by (simp_all add: semBGiveDefer_def semCGiveDefer_def OBJ_VERIFY_eq_OK_def)

lemma verify_kok [simp]: "kok (snd (OBJ_VERIFY_eq_OK ob c s)) = kok s"
  and verify_cpu [simp]: "same_cpu s (snd (OBJ_VERIFY_eq_OK ob c s))"
  by (simp_all add: OBJ_VERIFY_eq_OK_def)

lemma pend_first_some:
  assumes "kinv s" and "pendFirst r s \<noteq> NULL"
  shows "pend_list (pendQs s r) \<noteq> []" and "pend_usable s r"
proof -
  show n: "pend_list (pendQs s r) \<noteq> []" using assms(2) by (auto simp: pendFirst_def)
  have "pend_ok (pendQs s r)" using kinv_queues [OF assms(1)] by (simp add: queues_ok_def)
  then show "pend_usable s r" using n by (auto simp: pend_ok_def pend_usable_def)
qed

lemma rotated_cpu: "same_cpu s (rotated s)"
  by (simp add: rotated_def Let_def same_cpu_def upd_tcb_def)

lemma timed_out_cpu: "same_cpu s (timed_out t s)"
  by (simp add: timed_out_def same_cpu_def made_ready_def unpended_def upd_tcb_def pend_set_def Let_def)

lemma fold_timed_out_cpu: "same_cpu s (fold timed_out ts s)"
  by (induction ts arbitrary: s) (auto intro: same_cpu_trans timed_out_cpu)

lemma tick_cpu:
  assumes "kinv s" and "kop_ok KTick s" and "vmxTickAnnounce wdCall unpend doWork s = Some s'"
  shows "same_cpu s s'"
proof -
  obtain ts where "vmxTickAnnounce wdCall unpend doWork s = Some (rotated (fold timed_out ts (ticked s)))"
    using tick_announce_ok [OF assms(1), of wdCall unpend doWork] assms(2) by auto
  then have "s' = rotated (fold timed_out ts (ticked s))" using assms(3) by simp
  moreover have "same_cpu s (fold timed_out ts (ticked s))"
    using same_cpu_trans [OF updates_cpu(14) fold_timed_out_cpu] .
  ultimately show ?thesis using same_cpu_trans [OF _ rotated_cpu] by simp
qed

lemma run_kop_job:
  assumes "kok s" and "kop_ok op s" and "run_kop wd up w op s = x" and "\<And>s'. x = Some s' \<Longrightarrow> same_cpu s s'"
  shows "\<exists>s'. x = Some s' \<and> kok s' \<and> same_cpu s s'"
  using run_kop_ok [OF assms(1,2), of wd up w] assms(3,4) by auto

lemma job_run:
  assumes "kok s" and "job_ok c s"
  shows "\<exists>s'. run_job e w c s = Some s' \<and> kok s' \<and> same_cpu s s'"
proof -
  have k: "kinv s" using assms(1) by (simp add: kok_def)
  note rk = run_kop_job [OF assms(1), where wd = "e_wdCall e" and up = "e_unpend e" and w = w]
  from assms(2) show ?thesis
  proof (cases "(c, s)" rule: job_ok.cases)
    case 1 then show ?thesis using assms(2) tick_cpu [OF k] by (intro rk [of KTick]) auto
  next
    case (2 w d) then show ?thesis by (intro rk [of "KWdStart w (word_of_nat d)"]) (auto dest: vmxWdStart_cpu)
  next
    case (3 w) then show ?thesis by (intro rk [of "KWdCancel w"]) (auto dest: vmxWdCancel_cpu)
  next
    case (4 t) then show ?thesis using assms(2) by (intro rk [of "KSuspend t"]) (auto dest: vmxSuspend_cpu)
  next
    case (5 t) then show ?thesis using assms(2) by (intro rk [of "KResume t"]) (auto dest: vmxResume_cpu)
  next
    case (6 t p)
    then show ?thesis using assms(2)
      by (intro rk [of "KPriority t (word_of_nat p)"]) (auto dest: vmxPrioritySet_cpu)
  next
    case (9 m)
    have "same_cpu s s'" if "vmxPendQFlush (SemQ m) s = Some s'" "pend_usable s (SemQ m)" for s'
      using vmxPendQFlush_all(1) [OF k that(2)] that(1) wake_list_cpu by simp
    then have "pend_usable s (SemQ m) \<Longrightarrow>
        \<exists>s'. vmxPendQFlush (SemQ m) s = Some s' \<and> kok s' \<and> same_cpu s s'"
      using rk [of "KFlush (SemQ m)" "vmxPendQFlush (SemQ m) s"] by simp
    then show ?thesis using 9 assms(1) pend_first_some [OF k, of "SemQ m"]
      by (cases "pendFirst (SemQ m) s = NULL") (auto simp: semQFlushDefer_def)
  next
    case (11 m h)
    have "pend_list (pendQs s r) \<noteq> [] \<Longrightarrow> \<exists>s'. vmxPendQGet r s = Some s' \<and> kok s' \<and> same_cpu s s'" for r
      using rk [of "KGet r" "vmxPendQGet r s"] vmxPendQGet_cpu by simp
    then show ?thesis using 11 assms(1) pend_first_some [OF k, of "qmsg_head m h"]
      by (cases "pendFirst (qmsg_head m h) s = NULL") (auto simp: qMsgPendQGet_def)
  qed (use assms in \<open>simp_all add: semB_lost semC_lost\<close>)
qed

subsection \<open>The work queue loop\<close>

text \<open>Each job is legal in the state in which the loop comes to it.\<close>

primrec jobs_ok :: "kenv \<Rightarrow> kfunc work_call list \<Rightarrow> kstate \<Rightarrow> bool" where
  "jobs_ok e [] s \<longleftrightarrow> True"
| "jobs_ok e (c # cs) s \<longleftrightarrow>
     (case workQNext (workQ s) of
        None \<Rightarrow> False
      | Some (c', q) \<Rightarrow> job_ok c (s\<lparr>workQ := q\<rparr>) \<and>
          (\<forall>w s'. run_job e w c (s\<lparr>workQ := q\<rparr>) = Some s' \<longrightarrow> jobs_ok e cs s'))"

text \<open>What the jobs alone do: each is taken from the queue and called, the first one first.\<close>

primrec run_jobs :: "kenv \<Rightarrow> nat \<Rightarrow> kfunc work_call list \<Rightarrow> kstate \<Rightarrow> kstate option" where
  "run_jobs e n [] s = Some s"
| "run_jobs e n (c # cs) s =
     (case workQNext (workQ s) of
        None \<Rightarrow> None
      | Some (c', q) \<Rightarrow> do {
          s \<leftarrow> run_job e (keep_errno (work_loop e (n - 1))) c (s\<lparr>workQ := q\<rparr>);
          run_jobs e (n - 1) cs s
        })"

text \<open>The state as the loop leaves it, apart from the effects of the jobs.\<close>

definition worked :: "kstate \<Rightarrow> kstate \<Rightarrow> bool" where
  "worked s s' \<longleftrightarrow> work_rep (workQ s') [] \<and> workQIsEmpty (workQ s') \<and> intCnt s' = intCnt s \<and>
     taskIdCurrent s' = taskIdCurrent s \<and> kernelState s' = kernelState s \<and> kernelIsIdle s' = kernelIsIdle s"

lemma work_loop_ok:
  assumes "kok s" and "work_rep (workQ s) js" and "jobs_ok e js s" and "length js < n"
  shows "\<exists>s1. run_jobs e n js s = Some s1 \<and> kok s1 \<and>
    work_loop e n s = Some (s1\<lparr>workQ := (workQ s1)\<lparr>workQIsEmpty := True\<rparr>\<rparr>) \<and>
    worked s (s1\<lparr>workQ := (workQ s1)\<lparr>workQIsEmpty := True\<rparr>\<rparr>)"
  using assms
proof (induction js arbitrary: s n)
  case Nil
  then obtain m where "n = Suc m" by (cases n) auto
  then show ?case using Nil workQNext_empty [OF Nil.prems(2)]
    by (simp add: worked_def) (simp add: work_rep_Nil work_wf_def)
next
  case (Cons c js)
  then obtain m where m: "n = Suc m" "length js < m" by (cases n) auto
  obtain q where q: "workQNext (workQ s) = Some (c, q)" "work_rep q js"
    using workQNext_rep [OF Cons.prems(2)] by blast
  let ?s = "s\<lparr>workQ := q\<rparr>"
  have j: "job_ok c ?s" "\<And>w s'. run_job e w c ?s = Some s' \<Longrightarrow> jobs_ok e js s'"
    using Cons.prems(3) q(1) by simp_all
  obtain s1 where s1: "run_job e (keep_errno (work_loop e m)) c ?s = Some s1" "kok s1" "same_cpu ?s s1"
    using job_run [OF _ j(1), of e "keep_errno (work_loop e m)"] Cons.prems(1) by auto
  have "work_rep (workQ s1) js" using s1(3) q(2) by (simp add: same_cpu_def)
  then obtain s' where s': "run_jobs e m js s1 = Some s'" "kok s'"
      "work_loop e m s1 = Some (s'\<lparr>workQ := (workQ s')\<lparr>workQIsEmpty := True\<rparr>\<rparr>)"
      "worked s1 (s'\<lparr>workQ := (workQ s')\<lparr>workQIsEmpty := True\<rparr>\<rparr>)"
    using Cons.IH [OF s1(2) _ j(2) [OF s1(1)] m(2)] by blast
  have "worked s (s'\<lparr>workQ := (workQ s')\<lparr>workQIsEmpty := True\<rparr>\<rparr>)"
    using s'(4) s1(3) by (simp add: worked_def same_cpu_def)
  then show ?case using s' s1(1) q(1) m(1) by simp
qed

text \<open>What deferred jobs may depend on, apart from the invariant: the tasks and timers there are.\<close>

definition same_timers :: "kstate \<Rightarrow> kstate \<Rightarrow> bool" where
  "same_timers s s' \<longleftrightarrow> activeQ s' = activeQ s \<and> tickQ s' = tickQ s \<and> sysAbsTicks s' = sysAbsTicks s \<and>
     roundRobinOn s' = roundRobinOn s \<and>
     (\<forall>t. tIsTask (tcbs s' t) = tIsTask (tcbs s t) \<and> tUnpendHandler (tcbs s' t) = tUnpendHandler (tcbs s t))"

text \<open>
  Between two states only the scheduler has worked: the ready queue, the tasks and the timers are the same.
  \<open>jobs_done\<close>: on the way from one state to another exactly these jobs have been called, all of them, in order,
  with the queue as it was, and everything else was the work of the scheduler.
\<close>

definition same_sched :: "kstate \<Rightarrow> kstate \<Rightarrow> bool" where
  "same_sched s s' \<longleftrightarrow> readyQ s' = readyQ s \<and> same_timers s s'"

definition jobs_done :: "kenv \<Rightarrow> kfunc work_call list \<Rightarrow> kstate \<Rightarrow> kstate \<Rightarrow> bool" where
  "jobs_done e js s s' \<longleftrightarrow> (\<exists>m s1 s2. same_sched s s1 \<and> workQ s1 = workQ s \<and>
     run_jobs e m js s1 = Some s2 \<and> same_sched s2 s')"

lemma same_sched_refl [simp]: "same_sched s s"
  by (simp add: same_sched_def same_timers_def)

lemma same_sched_trans: "same_sched s s1 \<Longrightarrow> same_sched s1 s2 \<Longrightarrow> same_sched s s2"
  by (simp add: same_sched_def same_timers_def)

lemma jobs_done_after: "jobs_done e js s s1 \<Longrightarrow> same_sched s1 s2 \<Longrightarrow> jobs_done e js s s2"
  unfolding jobs_done_def using same_sched_trans by blast

lemma jobs_done_before: "jobs_done e js s1 s2 \<Longrightarrow> same_sched s s1 \<Longrightarrow> workQ s1 = workQ s \<Longrightarrow> jobs_done e js s s2"
  unfolding jobs_done_def by (metis same_sched_trans)

lemma jobs_done_Nil [simp]: "jobs_done e [] s s' = same_sched s s'"
proof
  show "jobs_done e [] s s' \<Longrightarrow> same_sched s s'" unfolding jobs_done_def using same_sched_trans by auto
  show "same_sched s s' \<Longrightarrow> jobs_done e [] s s'"
    unfolding jobs_done_def by (intro exI [of _ 0] exI [of _ s]) simp
qed

lemma same_sched_cpu [simp]:
  "same_sched s (s1\<lparr>kernelState := a\<rparr>) = same_sched s s1" "same_sched s (s1\<lparr>kernelIsIdle := a\<rparr>) = same_sched s s1"
  "same_sched s (s1\<lparr>taskIdCurrent := t\<rparr>) = same_sched s s1" "same_sched s (s1\<lparr>errno := e\<rparr>) = same_sched s s1"
  "same_sched s (s1\<lparr>workQ := q\<rparr>) = same_sched s s1"
  "same_sched s (s1\<lparr>kernelState := a, kernelIsIdle := b\<rparr>) = same_sched s s1"
  "same_sched (s\<lparr>kernelIsIdle := a\<rparr>) s1 = same_sched s s1" "same_sched (s\<lparr>taskIdCurrent := t\<rparr>) s1 = same_sched s s1"
  by (simp_all add: same_sched_def same_timers_def)

lemma same_sched_regs [simp]:
  "same_sched s (upd_tcb u (\<lambda>c. c\<lparr>tEax := x, tErrno := y\<rparr>) s)"
  by (simp add: same_sched_def same_timers_def kernel_simps)

lemma workQDoWork_ok:
  assumes "kok s" and "work_rep (workQ s) js" and "jobs_ok e js s" and "length js < n"
  shows "\<exists>s'. workQDoWork e n s = Some s' \<and> kok s' \<and> worked s s' \<and> errno s' = errno s \<and> jobs_done e js s s'"
proof -
  obtain s1 where s1: "run_jobs e n js s = Some s1" "kok s1"
      "work_loop e n s = Some (s1\<lparr>workQ := (workQ s1)\<lparr>workQIsEmpty := True\<rparr>\<rparr>)"
      "worked s (s1\<lparr>workQ := (workQ s1)\<lparr>workQIsEmpty := True\<rparr>\<rparr>)"
    using work_loop_ok [OF assms] by blast
  let ?s' = "s1\<lparr>workQ := (workQ s1)\<lparr>workQIsEmpty := True\<rparr>, errno := errno s\<rparr>"
  have "same_sched s1 ?s'" by (simp add: same_sched_def same_timers_def)
  then have "jobs_done e js s ?s'" unfolding jobs_done_def using s1(1) same_sched_refl by blast
  then show ?thesis using s1 by (simp add: workQDoWork_def keep_errno_def worked_def)
qed

subsection \<open>The scheduler\<close>

text \<open>The task switch hooks may do what they like as long as they keep the kernel in order, leave the
  processor and the timers alone and wake nobody.\<close>

definition hooks_ok :: "kenv \<Rightarrow> bool" where
  "hooks_ok e \<longleftrightarrow> (\<forall>old new s. kok s \<longrightarrow>
     (\<exists>s'. e_hooks e old new s = Some s' \<and> kok s' \<and> same_cpu s s' \<and> readyQ s' = readyQ s \<and> same_timers s s'))"

definition no_hooks :: "ptr \<Rightarrow> ptr \<Rightarrow> kstate \<Rightarrow> kstate option" where
  "no_hooks old new s = Some s"

lemma no_hooks_ok: "e_hooks e = no_hooks \<Longrightarrow> hooks_ok e"
  by (simp add: hooks_ok_def no_hooks_def same_timers_def)

text \<open>The kernel is left: the work queue is empty, and the running task is the head of the ready queue, or
  none is ready and the processor idles.\<close>

definition scheduled :: "kstate \<Rightarrow> bool" where
  "scheduled s \<longleftrightarrow> \<not> kernelState s \<and> workQIsEmpty (workQ s) \<and>
     (if kernelIsIdle s then readyFirst s = NULL else taskIdCurrent s = readyFirst s \<and> readyFirst s \<noteq> NULL)"

lemma readyFirst_cpu [simp]:
  "readyFirst (s\<lparr>kernelState := a\<rparr>) = readyFirst s" "readyFirst (s\<lparr>kernelIsIdle := a\<rparr>) = readyFirst s"
  "readyFirst (s\<lparr>taskIdCurrent := t\<rparr>) = readyFirst s" "readyFirst (s\<lparr>errno := e\<rparr>) = readyFirst s"
  "readyFirst (s\<lparr>kernelState := a, kernelIsIdle := b\<rparr>) = readyFirst s"
  "readyFirst (upd_tcb u f s) = readyFirst s" "readyFirst (s\<lparr>intCnt := n\<rparr>) = readyFirst s"
  "readyFirst (s\<lparr>errno := e, kernelState := a\<rparr>) = readyFirst s"
  by (simp_all add: readyFirst_def upd_tcb_def)

lemma switch_empty:
  assumes "kok s" and "hooks_ok e" and "workQIsEmpty (workQ s)" and "\<not> kernelIsIdle s"
    and "new = readyFirst s" and "new \<noteq> NULL"
  shows "\<exists>s'. switchTasks e w old new s = Some s' \<and> kok s' \<and> scheduled s' \<and> taskIdCurrent s' = new \<and>
    same_sched s s'"
proof -
  let ?s = "s\<lparr>taskIdCurrent := new\<rparr>"
  obtain s1 where s1: "e_hooks e old new ?s = Some s1" "kok s1" "same_cpu ?s s1" "readyQ s1 = readyQ ?s"
      "same_timers ?s s1"
    using assms(1,2) unfolding hooks_ok_def by (metis kok_cpu(3))
  have "same_sched ?s s1" using s1(4,5) by (simp add: same_sched_def)
  then have "same_sched s s1" by simp
  moreover have "readyFirst s1 = new" using s1(4) assms(5) by (simp add: readyFirst_def)
  ultimately show ?thesis using assms(3-6) s1(1-3)
    by (simp add: switchTasks_def dispatch_def Let_def scheduled_def same_cpu_def)
qed

lemma after_work:
  assumes "kok s" and "hooks_ok e" and "workQIsEmpty (workQ s)" and "\<not> kernelIsIdle s"
  shows "\<exists>s'. (let new = readyFirst s
      in if new = NULL then noTaskReady w s
         else if new = taskIdCurrent s then dispatch w new s
         else switchTasks e w (taskIdCurrent s) new s) = Some s' \<and> kok s' \<and> scheduled s' \<and> same_sched s s'"
proof -
  consider (none) "readyFirst s = NULL" | (same) "readyFirst s \<noteq> NULL" "readyFirst s = taskIdCurrent s"
    | (new) "readyFirst s \<noteq> NULL" "readyFirst s \<noteq> taskIdCurrent s" by blast
  then show ?thesis
  proof cases
    case none
    then show ?thesis using assms by (simp add: Let_def noTaskReady_def scheduled_def)
  next
    case same
    have "dispatch w (readyFirst s) s = Some (s\<lparr>errno := tErrno (tcbs s (readyFirst s)), kernelState := False\<rparr>)"
      using assms(3) by (simp add: dispatch_def Let_def)
    then show ?thesis using assms(1,3,4) same by (simp add: Let_def scheduled_def)
  next
    case new
    then obtain s' where "switchTasks e w (taskIdCurrent s) (readyFirst s) s = Some s'" "kok s'" "scheduled s'"
        "same_sched s s'"
      using switch_empty [OF assms refl, of w "taskIdCurrent s"] by blast
    then show ?thesis using new by (simp add: Let_def)
  qed
qed

lemma workQWork_ok:
  assumes "kok s" and "work_rep (workQ s) js" and "jobs_ok e js s" and "length js < n"
    and "hooks_ok e" and "\<not> kernelIsIdle s"
  shows "\<exists>s'. workQWork e (Suc n) s = Some s' \<and> kok s' \<and> scheduled s' \<and> jobs_done e js s s'"
proof -
  obtain s1 where s1: "workQDoWork e n s = Some s1" "kok s1" "worked s s1" "jobs_done e js s s1"
    using workQDoWork_ok [OF assms(1-4)] by blast
  have "workQIsEmpty (workQ s1)" "\<not> kernelIsIdle s1" using s1(3) assms(6) by (simp_all add: worked_def)
  from after_work [OF s1(2) assms(5) this, of "workQWork e n"] obtain s' where
    s': "workQWork e (Suc n) s = Some s'" "kok s'" "scheduled s'" "same_sched s1 s'" using s1(1) by auto
  then show ?thesis using jobs_done_after [OF s1(4)] by blast
qed

text \<open>The jobs in the queue are legal whichever of the present tasks is running when they are reached.\<close>

definition jobs_legal :: "kenv \<Rightarrow> kfunc work_call list \<Rightarrow> kstate \<Rightarrow> bool" where
  "jobs_legal e js s \<longleftrightarrow> (\<forall>s'. kok s' \<and> workQ s' = workQ s \<and> same_timers s s' \<and> live s' (taskIdCurrent s') \<longrightarrow>
     jobs_ok e js s')"

lemma jobs_legal_same:
  "jobs_legal e js s \<Longrightarrow> workQ s1 = workQ s \<Longrightarrow> same_timers s s1 \<Longrightarrow> jobs_legal e js s1"
  by (simp add: jobs_legal_def same_timers_def)

lemma jobs_legal_ok:
  "jobs_legal e js s \<Longrightarrow> kok s \<Longrightarrow> live s (taskIdCurrent s) \<Longrightarrow> jobs_ok e js s"
  by (simp add: jobs_legal_def same_timers_def)

lemma same_timers_upd [simp]:
  "same_timers s (s1\<lparr>kernelState := a\<rparr>) = same_timers s s1" "same_timers s (s1\<lparr>kernelIsIdle := a\<rparr>) = same_timers s s1"
  "same_timers s (s1\<lparr>taskIdCurrent := t\<rparr>) = same_timers s s1" "same_timers s (s1\<lparr>errno := e\<rparr>) = same_timers s s1"
  "same_timers s (s1\<lparr>intCnt := n\<rparr>) = same_timers s s1"
  "same_timers s s"
  by (simp_all add: same_timers_def)

lemma same_timers_regs [simp]:
  "same_timers s (upd_tcb u (\<lambda>c. c\<lparr>tEax := x, tErrno := y\<rparr>) s) \<longleftrightarrow> True"
  by (simp add: same_timers_def kernel_simps)

lemma ready_first_live:
  assumes "kok s" and "readyFirst s \<noteq> NULL"
  shows "live s (readyFirst s)" and "status_of s (readyFirst s) = TASK_READY"
proof -
  have "in_ready s (readyFirst s)"
    using assms(2) by (cases "readyQ s") (auto simp: readyFirst_def in_ready_def pq_nodes_def)
  then show "live s (readyFirst s)" "status_of s (readyFirst s) = TASK_READY"
    using kinv_in(1) [of s] assms(1) by (auto simp: kok_def)
qed

lemma live_upd [simp]:
  "live (s\<lparr>kernelState := a\<rparr>) t = live s t" "live (s\<lparr>kernelIsIdle := a\<rparr>) t = live s t"
  "live (s\<lparr>taskIdCurrent := u\<rparr>) t = live s t" "live (s\<lparr>errno := e\<rparr>) t = live s t"
  "live (s\<lparr>intCnt := n\<rparr>) t = live s t" "live (s\<lparr>workQ := q\<rparr>) t = live s t"
  by (simp_all add: live_def)

text \<open>The queue has a flag that says it is empty; an empty queue has no jobs.\<close>

definition work_holds :: "kstate \<Rightarrow> kfunc work_call list \<Rightarrow> bool" where
  "work_holds s js \<longleftrightarrow> work_rep (workQ s) js \<and> (workQIsEmpty (workQ s) \<longleftrightarrow> js = [])"

lemma reschedule_ok:
  assumes "kok s" and "work_holds s js" and "jobs_legal e js s" and "length js < n"
    and "hooks_ok e" and "js = [] \<or> live s (taskIdCurrent s)"
  shows "\<exists>s'. vmxTaskReschedule e (Suc n) old s = Some s' \<and> kok s' \<and> scheduled s' \<and> jobs_done e js s s'"
proof -
  let ?s = "s\<lparr>kernelIsIdle := False\<rparr>"
  have wr: "work_rep (workQ s) js" using assms(2) by (simp add: work_holds_def)
  show ?thesis
  proof (cases "readyFirst s = NULL")
    case True
    have j: "jobs_ok e js ?s"
    proof (cases "js = []")
      case False
      then show ?thesis using assms(1,6) by (intro jobs_legal_ok [OF jobs_legal_same [OF assms(3)]]) simp_all
    qed simp
    show ?thesis
    proof (cases "workQIsEmpty (workQ s)")
      case e: True
      then have "js = []" using assms(2) by (simp add: work_holds_def)
      then show ?thesis using e True assms(1)
        by (simp add: vmxTaskReschedule_def Let_def noTaskReady_def scheduled_def)
    next
      case e: False
      obtain s' where s': "workQWork e (Suc n) ?s = Some s'" "kok s'" "scheduled s'" "jobs_done e js ?s s'"
        using workQWork_ok [OF _ _ j assms(4,5)] assms(1) wr by auto
      have "jobs_done e js s s'" by (rule jobs_done_before [OF s'(4)]) simp_all
      then show ?thesis using s'(1-3) e True
        by (simp add: vmxTaskReschedule_def Let_def noTaskReady_def del: workQWork.simps)
    qed
  next
    case False
    define new where "new = readyFirst s"
    have new: "new \<noteq> NULL" "live s new" using False ready_first_live(1) [OF assms(1)] by (simp_all add: new_def)
    let ?s1 = "?s\<lparr>taskIdCurrent := new\<rparr>"
    obtain s2 where s2: "e_hooks e old new ?s1 = Some s2" "kok s2" "same_cpu ?s1 s2" "readyQ s2 = readyQ ?s1"
        "same_timers ?s1 s2"
      using assms(1,5) unfolding hooks_ok_def by (metis kok_cpu(2,3))
    let ?s3 = "s2\<lparr>errno := tErrno (tcbs s2 new)\<rparr>"
    have t: "same_timers s s2" using s2(5) by (simp add: same_timers_def)
    have j: "jobs_ok e js ?s3"
    proof (rule jobs_legal_ok [OF jobs_legal_same [OF assms(3)]])
      show "live ?s3 (taskIdCurrent ?s3)" using s2(3) t new(2) by (simp add: same_cpu_def same_timers_def live_def)
    qed (use s2 t in \<open>simp_all add: same_cpu_def\<close>)
    have rf: "readyFirst s2 = new" using s2(4) by (simp add: readyFirst_def new_def)
    have ss: "same_sched s s2" using s2(4,5) t by (simp add: same_sched_def)
    show ?thesis
    proof (cases "workQIsEmpty (workQ s)")
      case True
      then have "js = []" using assms(2) by (simp add: work_holds_def)
      then show ?thesis using True s2(1-3) rf new ss
        by (simp add: vmxTaskReschedule_def Let_def new_def [symmetric] switchTasks_def dispatch_def scheduled_def
            same_cpu_def)
    next
      case False
      have "\<exists>s'. workQWork e (Suc n) ?s3 = Some s' \<and> kok s' \<and> scheduled s' \<and> jobs_done e js ?s3 s'"
        using s2(2,3) wr by (intro workQWork_ok [OF _ _ j assms(4,5)]) (simp_all add: same_cpu_def)
      moreover have "same_sched s ?s3" "workQ ?s3 = workQ s" using ss s2(3) by (simp_all add: same_cpu_def)
      ultimately have "\<exists>s'. workQWork e (Suc n) ?s3 = Some s' \<and> kok s' \<and> scheduled s' \<and> jobs_done e js s s'"
        using jobs_done_before by blast
      then show ?thesis using False s2(1,3) rf new
        by (simp add: vmxTaskReschedule_def Let_def new_def [symmetric] switchTasks_def dispatch_def same_cpu_def
            del: workQWork.simps)
    qed
  qed
qed

text \<open>
  How the kernel is left: nothing is deferred any more; a call that returns goes on in the task that made
  it, which is the most urgent one or has locked preemption; otherwise the most urgent task runs, or
  none is ready.
\<close>

definition left_kernel :: "STATUS after \<Rightarrow> kstate \<Rightarrow> kstate \<Rightarrow> bool" where
  "left_kernel r s s' \<longleftrightarrow> \<not> kernelState s' \<and> workQIsEmpty (workQ s') \<and>
     (case r of
        Returns v \<Rightarrow> v = OK \<and> taskIdCurrent s' = taskIdCurrent s \<and>
          (taskIdCurrent s' = readyFirst s' \<or>
           tLockCount (tcbs s' (taskIdCurrent s')) \<noteq> 0 \<and> status_of s' (taskIdCurrent s') = TASK_READY)
      | Blocks \<Rightarrow> if kernelIsIdle s' then readyFirst s' = NULL
          else taskIdCurrent s' = readyFirst s' \<and> readyFirst s' \<noteq> NULL)"

lemma save_ok:
  assumes "kok s" and "work_holds s js" and "jobs_legal e js s" and "length js < n"
    and "hooks_ok e" and "js = [] \<or> live s (taskIdCurrent s)"
  shows "\<exists>s'. saveTaskContext e (Suc n) s = Some s' \<and> kok s' \<and> left_kernel Blocks s s' \<and> jobs_done e js s s'"
proof -
  let ?s = "upd_tcb (taskIdCurrent s) (\<lambda>c. c\<lparr>tEax := 0, tErrno := errno s\<rparr>) s"
  have "\<exists>s'. vmxTaskReschedule e (Suc n) (taskIdCurrent s) ?s = Some s' \<and> kok s' \<and> scheduled s' \<and>
    jobs_done e js ?s s'"
  proof (rule reschedule_ok [OF _ _ jobs_legal_same [OF assms(3)] assms(4,5)])
    show "kok ?s" using assms(1) by (simp add: kok_tcb_regs)
    show "work_holds ?s js" using assms(2) by (simp add: work_holds_def kernel_simps)
  qed (use assms(6) in \<open>simp_all add: kernel_simps\<close>)
  moreover have "jobs_done e js s s'" if "jobs_done e js ?s s'" for s'
    by (rule jobs_done_before [OF that]) (simp_all add: kernel_simps)
  ultimately show ?thesis by (auto simp: saveTaskContext_def Let_def scheduled_def left_kernel_def)
qed

definition stays :: "kstate \<Rightarrow> bool" where
  "stays s \<longleftrightarrow> taskIdCurrent s = readyFirst s \<or>
     tLockCount (tcbs s (taskIdCurrent s)) \<noteq> 0 \<and> status_of s (taskIdCurrent s) = TASK_READY"

lemma checkTaskSwitch_step:
  "checkTaskSwitch e (Suc n) s =
     (if stays s then if \<not> workQIsEmpty (workQ s)
        then do { s \<leftarrow> workQDoWork e n s; checkTaskSwitch e n s }
        else Some (Returns OK, s\<lparr>kernelState := False\<rparr>)
      else do { s \<leftarrow> saveTaskContext e n s; Some (Blocks, s) })"
  unfolding checkTaskSwitch.simps(2) [of e n] Let_def stays_def [symmetric] ..

lemma left_kernel_stay:
  "stays s \<Longrightarrow> workQIsEmpty (workQ s) \<Longrightarrow> left_kernel (Returns OK) s (s\<lparr>kernelState := False\<rparr>)"
  by (auto simp: left_kernel_def stays_def)

lemma checkTaskSwitch_empty:
  assumes "kok s" and "work_holds s []" and "hooks_ok e"
  shows "\<exists>r s'. checkTaskSwitch e (Suc (Suc (Suc n))) s = Some (r, s') \<and> kok s' \<and> left_kernel r s s' \<and> same_sched s s'"
proof -
  have e: "workQIsEmpty (workQ s)" using assms(2) by (simp add: work_holds_def)
  have sv: "\<exists>s'. saveTaskContext e (Suc (Suc n)) s = Some s' \<and> kok s' \<and> left_kernel Blocks s s' \<and> same_sched s s'"
    using save_ok [OF assms(1,2) _ _ assms(3), of "Suc n"] by (simp add: jobs_legal_def)
  then show ?thesis
    using e assms(1) unfolding checkTaskSwitch_step [of e "Suc (Suc n)"]
    by (cases "stays s") (auto simp: left_kernel_stay simp del: checkTaskSwitch.simps)
qed

lemma checkTaskSwitch_ok:
  assumes "kok s" and "work_holds s js" and "jobs_legal e js s" and "length js + 3 \<le> n"
    and "hooks_ok e" and "live s (taskIdCurrent s)"
  shows "\<exists>r s'. checkTaskSwitch e (Suc n) s = Some (r, s') \<and> kok s' \<and> left_kernel r s s' \<and> jobs_done e js s s'"
proof -
  obtain m where "n = length js + 3 + m" using assms(4) by (auto simp: le_iff_add)
  then have m: "n = Suc (Suc (Suc (length js + m)))" by simp
  consider "\<not> stays s" | "stays s" "workQIsEmpty (workQ s)" | "stays s" "\<not> workQIsEmpty (workQ s)" by blast
  then show ?thesis
  proof cases
    case 1
    have "\<exists>s'. saveTaskContext e n s = Some s' \<and> kok s' \<and> left_kernel Blocks s s' \<and> jobs_done e js s s'"
      unfolding m using assms(6) by (intro save_ok [OF assms(1-3) _ assms(5)]) simp_all
    then show ?thesis using 1 unfolding checkTaskSwitch_step by auto
  next
    case 2
    then have "js = []" using assms(2) by (simp add: work_holds_def)
    then show ?thesis using 2 assms(1) unfolding checkTaskSwitch_step by (auto simp: left_kernel_stay)
  next
    case 3
    have w: "work_rep (workQ s) js" using assms(2) by (simp add: work_holds_def)
    obtain s1 where s1: "workQDoWork e n s = Some s1" "kok s1" "worked s s1" "jobs_done e js s s1"
      using workQDoWork_ok [OF assms(1) w jobs_legal_ok [OF assms(3,1,6)], of n] assms(4) by auto
    have "work_holds s1 []" using s1(3) by (simp add: work_holds_def worked_def)
    from checkTaskSwitch_empty [OF s1(2) this assms(5), of "length js + m", folded m]
    obtain r s' where r: "checkTaskSwitch e n s1 = Some (r, s')" "kok s'" "left_kernel r s1 s'" "same_sched s1 s'"
      by blast
    have "left_kernel r s s'" using r(3) s1(3) by (cases r) (auto simp: left_kernel_def worked_def)
    then show ?thesis using r(1,2) s1(1) 3 jobs_done_after [OF s1(4) r(4)] unfolding checkTaskSwitch_step by auto
  qed
qed

lemma exitFromInt_ok:
  assumes "kok s" and "work_holds s js" and "jobs_legal e js s" and "length js < n"
    and "live s (taskIdCurrent s)"
  shows "\<exists>s'. exitFromInt e (Suc n) s = Some (Returns OK, s') \<and> kok s' \<and> \<not> kernelState s' \<and>
    workQIsEmpty (workQ s') \<and> taskIdCurrent s' = taskIdCurrent s \<and> jobs_done e js s s'"
proof (cases "workQIsEmpty (workQ s)")
  case True
  then have "js = []" using assms(2) by (simp add: work_holds_def)
  then show ?thesis using True assms(1) by simp
next
  case False
  have w: "work_rep (workQ s) js" using assms(2) by (simp add: work_holds_def)
  obtain s1 where s1: "workQDoWork e n s = Some s1" "kok s1" "worked s s1" "jobs_done e js s s1"
    using workQDoWork_ok [OF assms(1) w jobs_legal_ok [OF assms(3,1,5)] assms(4)] by blast
  obtain m where "n = Suc m" using assms(4) by (cases n) auto
  moreover have "jobs_done e js s (s1\<lparr>kernelState := False\<rparr>)" by (rule jobs_done_after [OF s1(4)]) simp
  ultimately show ?thesis using s1 False by (simp add: worked_def)
qed

lemma vmxExit_ok:
  assumes "kok s" and "work_holds s js" and "jobs_legal e js s" and "length js + 4 \<le> n"
    and "hooks_ok e" and "live s (taskIdCurrent s)"
  shows "\<exists>r s'. vmxExit e n s = Some (r, s') \<and> kok s' \<and> jobs_done e js s s' \<and>
    (if intCnt s = 0 then left_kernel r s s'
     else r = Returns OK \<and> \<not> kernelState s' \<and> workQIsEmpty (workQ s') \<and> taskIdCurrent s' = taskIdCurrent s)"
proof -
  obtain m where m: "n = Suc m" "length js + 3 \<le> m" using assms(4) by (cases n) auto
  have c: "taskIdCurrent s \<noteq> NULL"
    using kinv_live(2) [of s "taskIdCurrent s"] assms(1,6) by (simp add: kok_def blocked_ok_def)
  show ?thesis
  proof (cases "intCnt s = 0")
    case True
    obtain r s' where "checkTaskSwitch e n s = Some (r, s')" "kok s'" "left_kernel r s s'" "jobs_done e js s s'"
      using checkTaskSwitch_ok [OF assms(1-3) m(2) assms(5,6)] m(1) by blast
    then show ?thesis using True c by (simp add: vmxExit_def)
  next
    case False
    have "length js < m" using m(2) by simp
    from exitFromInt_ok [OF assms(1-3) this assms(6)] show ?thesis
      using c False m(1) by (auto simp: vmxExit_def)
  qed
qed

subsection \<open>Properties\<close>


definition demo_env :: kenv where
  "demo_env = \<lparr>e_wdCall = (\<lambda>f a s. None), e_unpend = (\<lambda>h t v s. None), e_user = (\<lambda>f a s. None), e_hooks = no_hooks\<rparr>"

lemma demo_env_hooks: "hooks_ok demo_env"
  by (rule no_hooks_ok) (simp add: demo_env_def)

text \<open>An interrupt deferred the suspension of the running task 1.\<close>

definition demo_work :: "kfunc work_q" where
  "demo_work = the (workQAddCall (Call1 F_vmxSuspend 1) (workQ demo))"

lemma demo_work_rep: "work_rep demo_work [Call1 F_vmxSuspend 1]" "\<not> workQIsEmpty demo_work"
proof -
  have e: "workQ demo = empty_work_q F_semInvalid" by (simp add: demo_def empty_work_q_def)
  obtain q where q: "workQAddCall (Call1 F_vmxSuspend 1) (workQ demo) = Some q"
      "work_rep q [Call1 F_vmxSuspend 1]"
    using workQAddCall_rep [OF empty_work_q_rep, of "Call1 F_vmxSuspend 1" F_semInvalid] unfolding e by auto
  then show "work_rep demo_work [Call1 F_vmxSuspend 1]" by (simp add: demo_work_def)
  show "\<not> workQIsEmpty demo_work"
    using q(1) by (auto simp: demo_work_def workQAdd1_def workQAdd_def Let_def split: if_splits)
qed

definition demo_busy :: kstate where
  "demo_busy = demo\<lparr>workQ := demo_work\<rparr>"

lemma demo_busy_ok:
  "kok demo_busy" "work_holds demo_busy [Call1 F_vmxSuspend 1]"
  "jobs_legal demo_env [Call1 F_vmxSuspend 1] demo_busy" "live demo_busy (taskIdCurrent demo_busy)"
  "intCnt demo_busy = 0"
proof -
  show "kok demo_busy" "live demo_busy (taskIdCurrent demo_busy)" "intCnt demo_busy = 0"
    using demo_kok by (simp_all add: demo_busy_def)
  show "work_holds demo_busy [Call1 F_vmxSuspend 1]"
    using demo_work_rep by (simp add: work_holds_def demo_busy_def)
  obtain q where q: "workQNext demo_work = Some (Call1 F_vmxSuspend 1, q)"
    using workQNext_rep [OF demo_work_rep(1)] by blast
  show "jobs_legal demo_env [Call1 F_vmxSuspend 1] demo_busy"
    using q by (simp add: jobs_legal_def demo_busy_def same_timers_def live_def)
qed


text \<open>C17. The loop over deferred work ends: with one unit of fuel more than there are jobs it is defined when
  every job is legal when it comes to it; it leaves the queue empty, marks it so, and gives \<open>errno\<close> back.\<close>

theorem work_loop_ends:
  assumes "kok s" and "work_rep (workQ s) js" and "jobs_ok e js s" and "length js < n"
  shows "\<exists>s'. workQDoWork e n s = Some s' \<and> kok s' \<and> work_rep (workQ s') [] \<and> workQIsEmpty (workQ s') \<and>
    errno s' = errno s \<and> taskIdCurrent s' = taskIdCurrent s"
  using workQDoWork_ok [OF assms] by (auto simp: worked_def)

theorem work_loop_ends_witness:
  "\<exists>s'. workQDoWork demo_env 2 demo_busy = Some s' \<and> workQIsEmpty (workQ s')"
proof -
  have j: "jobs_ok demo_env [Call1 F_vmxSuspend 1] demo_busy"
    using jobs_legal_ok [OF demo_busy_ok(3,1,4)] .
  have w: "work_rep (workQ demo_busy) [Call1 F_vmxSuspend 1]" using demo_work_rep by (simp add: demo_busy_def)
  show ?thesis using work_loop_ends [OF demo_busy_ok(1) w j, of 2] by auto
qed

end
