(* ===== verification/TaskLib.thy ===== *)
theory TaskLib
  imports SchedOps
begin

text \<open>
  The task library: \<open>src/vmx/taskLib.c\<close>, \<open>src/vmx/taskInfo.c\<close>, \<open>src/vmx/tickLib.c\<close> and \<open>kernelTimeSlice\<close>
  of \<open>src/vmx/kernelLib.c\<close>. Every routine that enters the kernel takes the functions outside it and the
  fuel of \<open>vmxExit\<close>. A routine whose result does not depend on how \<open>vmxExit\<close> comes back has that result
  even when its task is switched out, and returns it when the task runs again; the state is that at the
  switch. A routine that goes on after it returns \<open>Blocks\<close>, and its continuation is a definition of its own.
\<close>

subsection \<open>Entering and leaving the kernel\<close>

definition INT_RESTRICT :: "kstate \<Rightarrow> STATUS" where
  "INT_RESTRICT s = (if 0 < intCnt s then ERROR else OK)"

text \<open>\<open>kernelState = TRUE\<close>, the kernel work, then \<open>vmxExit()\<close>.\<close>

definition through_kernel ::
  "kenv \<Rightarrow> nat \<Rightarrow> (kstate \<Rightarrow> kstate option) \<Rightarrow> kstate \<Rightarrow> (STATUS after \<times> kstate) option" where
  "through_kernel e n work s = do { s \<leftarrow> work (s\<lparr>kernelState := True\<rparr>); vmxExit e n s }"

text \<open>Adding a job to the work queue; when the ring is full the machine reboots.\<close>

definition workQDefer :: "kfunc work_call \<Rightarrow> kstate \<Rightarrow> kstate option" where
  "workQDefer c s = do { q \<leftarrow> workQAddCall c (workQ s); Some (s\<lparr>workQ := q\<rparr>) }"

text \<open>\<open>if (Q_FIRST(q) != NULL) vmxPendQFlush(q)\<close>\<close>

definition flush_if :: "qref \<Rightarrow> kstate \<Rightarrow> kstate option" where
  "flush_if r s = (if pendFirst r s \<noteq> NULL then vmxPendQFlush r s else Some s)"

subsection \<open>Task identification\<close>

definition TASK_ID_VERIFY_ne_OK :: "ptr \<Rightarrow> kstate \<Rightarrow> int \<times> kstate" where
  "TASK_ID_VERIFY_ne_OK tcbId = OBJ_VERIFY_ne_OK (TaskObj tcbId) TaskClass"

text \<open>
  \<open>(TASK_ID_VERIFY(tcbId) == OK)\<close>: the macro has parentheses around \<open>OBJ_VERIFY\<close>, so that this comparison
  is right.
\<close>

definition TASK_ID_VERIFY_eq_OK :: "ptr \<Rightarrow> kstate \<Rightarrow> int \<times> kstate" where
  "TASK_ID_VERIFY_eq_OK tcbId s =
     (case OBJ_VERIFY_ne_OK (TaskObj tcbId) TaskClass s of (bad, s) \<Rightarrow> (of_bool (bad = 0), s))"

definition taskIdSelf :: "kstate \<Rightarrow> ptr" where
  "taskIdSelf s = taskIdCurrent s"

definition taskTcb :: "ptr \<Rightarrow> kstate \<Rightarrow> ptr \<times> kstate" where
  "taskTcb taskId s =
     (if taskId = 0 then (taskIdCurrent s, s)
      else case TASK_ID_VERIFY_ne_OK taskId s of (bad, s) \<Rightarrow> (if bad \<noteq> 0 then NULL else taskId, s))"

definition taskIdVerify :: "ptr \<Rightarrow> kstate \<Rightarrow> STATUS \<times> kstate" where
  "taskIdVerify taskId s =
     (case taskTcb taskId s of (tcbId, s) \<Rightarrow> (if tcbId = NULL then ERROR else OK, s))"

subsection \<open>Safety and locks\<close>

definition taskLock :: "kstate \<Rightarrow> STATUS \<times> kstate" where
  "taskLock s = (OK, upd_tcb (taskIdCurrent s) (\<lambda>c. c\<lparr>tLockCount := tLockCount c + 1\<rparr>) s)"

text \<open>The safety queue is flushed here as in \<open>taskUnsafe\<close>.\<close>

definition taskUnlock_run :: "kenv \<Rightarrow> nat \<Rightarrow> kstate \<Rightarrow> (STATUS after \<times> kstate) option" where
  "taskUnlock_run e n s =
     (let t = taskIdCurrent s
      in if 0 < tLockCount (tcbs s t)
         then let s = upd_tcb t (\<lambda>c. c\<lparr>tLockCount := tLockCount c - 1\<rparr>) s
              in if tLockCount (tcbs s t) = 0 then through_kernel e n (flush_if (SafetyQ t)) s
                 else Some (Returns OK, s)
         else Some (Returns OK, s))"

definition taskUnlock :: "kenv \<Rightarrow> nat \<Rightarrow> kstate \<Rightarrow> (STATUS \<times> kstate) option" where
  "taskUnlock e n s = do { (r, s) \<leftarrow> taskUnlock_run e n s; Some (OK, s) }"

definition taskSafe :: "kstate \<Rightarrow> STATUS \<times> kstate" where
  "taskSafe s = (OK, upd_tcb (taskIdCurrent s) (\<lambda>c. c\<lparr>tSafeCount := tSafeCount c + 1\<rparr>) s)"

definition taskUnsafe_run :: "kenv \<Rightarrow> nat \<Rightarrow> kstate \<Rightarrow> (STATUS after \<times> kstate) option" where
  "taskUnsafe_run e n s =
     (let t = taskIdCurrent s
      in if 0 < tSafeCount (tcbs s t)
         then let s = upd_tcb t (\<lambda>c. c\<lparr>tSafeCount := tSafeCount c - 1\<rparr>) s
              in if tSafeCount (tcbs s t) = 0 then through_kernel e n (flush_if (SafetyQ t)) s
                 else Some (Returns OK, s)
         else Some (Returns OK, s))"

definition taskUnsafe :: "kenv \<Rightarrow> nat \<Rightarrow> kstate \<Rightarrow> (STATUS \<times> kstate) option" where
  "taskUnsafe e n s = do { (r, s) \<leftarrow> taskUnsafe_run e n s; Some (OK, s) }"

subsection \<open>Suspending, resuming, delaying\<close>

definition taskSuspend_run :: "kenv \<Rightarrow> nat \<Rightarrow> ptr \<Rightarrow> kstate \<Rightarrow> (STATUS after \<times> kstate) option" where
  "taskSuspend_run e n taskId s =
     (case taskTcb taskId s of (tcbId, s) \<Rightarrow>
        if tcbId = NULL then Some (Returns ERROR, s)
        else if kernelState s
        then do { s \<leftarrow> workQDefer (Call1 F_vmxSuspend tcbId) s; Some (Returns OK, s) }
        else through_kernel e n (vmxSuspend tcbId) s)"

text \<open>The value when the call has come back, whether its task was switched out or not.\<close>

primrec value_or :: "'a \<Rightarrow> 'a after \<Rightarrow> 'a" where
  "value_or d (Returns v) = v"
| "value_or d Blocks = d"

definition taskSuspend :: "kenv \<Rightarrow> nat \<Rightarrow> ptr \<Rightarrow> kstate \<Rightarrow> (STATUS \<times> kstate) option" where
  "taskSuspend e n taskId s = do { (r, s) \<leftarrow> taskSuspend_run e n taskId s; Some (value_or OK r, s) }"

definition taskResume :: "kenv \<Rightarrow> nat \<Rightarrow> ptr \<Rightarrow> kstate \<Rightarrow> (STATUS \<times> kstate) option" where
  "taskResume e n taskId s =
     (if taskId = 0 then Some (OK, s)
      else case TASK_ID_VERIFY_ne_OK taskId s of (bad, s) \<Rightarrow>
        if bad \<noteq> 0 then Some (ERROR, s)
        else if kernelState s
        then do { s \<leftarrow> workQDefer (Call1 F_vmxResume taskId) s; Some (OK, s) }
        else do { (r, s) \<leftarrow> through_kernel e n (vmxResume taskId) s; Some (OK, s) })"

definition taskActivate :: "kenv \<Rightarrow> nat \<Rightarrow> ptr \<Rightarrow> kstate \<Rightarrow> (STATUS \<times> kstate) option" where
  "taskActivate e n taskId s = taskResume e n taskId s"

text \<open>The value \<open>vmxExit\<close> comes back with, as \<open>taskDelay\<close> returns it.\<close>

definition delay_result :: "STATUS \<Rightarrow> STATUS" where
  "delay_result v = (if v = SIG_RESTART then ERROR else v)"

definition taskDelay :: "kenv \<Rightarrow> nat \<Rightarrow> u32 \<Rightarrow> kstate \<Rightarrow> (STATUS after \<times> kstate) option" where
  "taskDelay e n timeout s =
     (if INT_RESTRICT s \<noteq> OK then Some (Returns ERROR, errnoSet S_intLib_NOT_ISR_CALLABLE s)
      else do {
        (r, s) \<leftarrow> through_kernel e n
          (\<lambda>s. if timeout = WAIT_NONE
               then do { s \<leftarrow> rdyRemove (taskIdCurrent s) s; rdyPut (taskIdCurrent s) s }
               else map_option snd (vmxDelay timeout s)) s;
        Some (map_after delay_result r, s)
      })"

definition taskUndelay :: "kenv \<Rightarrow> nat \<Rightarrow> ptr \<Rightarrow> kstate \<Rightarrow> (STATUS \<times> kstate) option" where
  "taskUndelay e n taskId s =
     (case TASK_ID_VERIFY_ne_OK taskId s of (bad, s) \<Rightarrow>
        if bad \<noteq> 0 then Some (ERROR, s)
        else if kernelState s
        then do { s \<leftarrow> workQDefer (Call1 F_vmxUndelay taskId) s; Some (OK, s) }
        else do { (r, s) \<leftarrow> through_kernel e n (\<lambda>s. map_option snd (vmxUndelay taskId s)) s; Some (OK, s) })"

definition taskPrioritySet :: "kenv \<Rightarrow> nat \<Rightarrow> ptr \<Rightarrow> u32 \<Rightarrow> kstate \<Rightarrow> (STATUS \<times> kstate) option" where
  "taskPrioritySet e n taskId priority s =
     (case taskTcb taskId s of (tcbId, s) \<Rightarrow>
        if tcbId = NULL then Some (ERROR, s)
        else if kernelState s
        then do { s \<leftarrow> workQDefer (Call2 F_vmxPrioritySet tcbId (unat priority)) s; Some (OK, s) }
        else do { (r, s) \<leftarrow> through_kernel e n (vmxPrioritySet tcbId priority) s; Some (OK, s) })"

definition taskPriorityGet :: "ptr \<Rightarrow> kstate \<Rightarrow> (STATUS \<times> u32 option) \<times> kstate" where
  "taskPriorityGet taskId s =
     (case taskTcb taskId s of (tcbId, s) \<Rightarrow>
        if tcbId = NULL then ((ERROR, None), s) else ((OK, Some (tPriority (tcbs s tcbId))), s))"

subsection \<open>Initialising a task\<close>

definition S_taskLib_NOT_INSTALLED :: int where "S_taskLib_NOT_INSTALLED = 12 * 65536 + 1"
definition S_taskLib_INVALID_TIMEOUT :: int where "S_taskLib_INVALID_TIMEOUT = 12 * 65536 + 3"
definition S_taskLib_STACK_OVERFLOW :: int where "S_taskLib_STACK_OVERFLOW = 12 * 65536 + 4"

definition STACK_ROUND_UP :: "u32 \<Rightarrow> u32" where
  "STACK_ROUND_UP x = (x + 3) AND NOT 3"

text \<open>
  \<open>taskStackAllot\<close> on a stack that grows down: the lower limit moves up. The room compared with is an
  \<open>int\<close>, \<open>(limit - base) * -1\<close>, taken as unsigned.
\<close>

definition taskStackAllot :: "ptr \<Rightarrow> u32 \<Rightarrow> kstate \<Rightarrow> u32 option \<times> kstate" where
  "taskStackAllot taskId nbytes s =
     (case taskTcb taskId s of (tcbId, s) \<Rightarrow>
        if tcbId = NULL then (None, s)
        else let n = STACK_ROUND_UP nbytes; c = tcbs s tcbId
             in if n > (tStackLimit c - tStackBase c) * (- 1)
                then (None, errnoSet S_taskLib_STACK_OVERFLOW s)
                else (Some (tStackLimit c), upd_tcb tcbId (\<lambda>c. c\<lparr>tStackLimit := tStackLimit c + n\<rparr>) s))"

text \<open>
  \<open>taskInit\<close>: the fields of the TCB, the safety queue, the object core, the name on the new stack, the create
  hooks (a parameter) and \<open>vmxSpawn\<close>. Registers and arguments, the stack fill, standard files, signals,
  environment and task variables are not part of the model.
\<close>

definition tcb_init :: "u32 \<Rightarrow> u32 \<Rightarrow> u32 \<Rightarrow> u32 \<Rightarrow> u32 \<Rightarrow> nat \<Rightarrow> TCB \<Rightarrow> TCB" where
  "tcb_init ident priority options pStackBase stackSize func c =
     c\<lparr>tEntry := func, tErrno := 0, tId := ident, tStatus := TASK_SUSPEND, tLockCount := 0, tSwapInMask := 0,
       tSwapOutMask := 0, tPriority := priority, tOptions := options, tTimeSlice := 0, tPendQ := None,
       tUnpendHandler := None, tObj := NULL, tObjInfo := 0, tSafeCount := 0, tErrorStatus := OK,
       tExitCode := 0, tStackBase := pStackBase, tStackLimit := pStackBase + stackSize * (- 1),
       tStackEnd := pStackBase + stackSize * (- 1)\<rparr>"

definition task_name ::  "ptr \<Rightarrow> string option \<Rightarrow> kstate \<Rightarrow> kstate" where
  "task_name tcbId name s =
     (case name of
        None \<Rightarrow> upd_tcb tcbId (\<lambda>c. c\<lparr>tName := None\<rparr>) s
      | Some nm \<Rightarrow>
          (case taskStackAllot tcbId (word_of_nat (length nm + 1)) s of (p, s) \<Rightarrow>
             upd_tcb tcbId (\<lambda>c. c\<lparr>tName := map_option (\<lambda>_. nm) p\<rparr>) s))"

definition taskInit ::
  "(ptr \<Rightarrow> kstate \<Rightarrow> kstate option) \<Rightarrow> ptr \<Rightarrow> string option \<Rightarrow> u32 \<Rightarrow> u32 \<Rightarrow> u32 \<Rightarrow> u32 \<Rightarrow> nat \<Rightarrow> kstate \<Rightarrow>
    (STATUS \<times> kstate) option" where
  "taskInit createHooks tcbId name priority options pStackBase stackSize func s =
     (if INT_RESTRICT s \<noteq> OK then Some (ERROR, errnoSet S_intLib_NOT_ISR_CALLABLE s)
      else if \<not> taskLibInstalled s then Some (ERROR, errnoSet S_taskLib_NOT_INSTALLED s)
      else do {
        let s = upd_tcb tcbId (tcb_init (taskNewId s) priority options pStackBase stackSize func)
          (s\<lparr>taskNewId := taskNewId s + 1\<rparr>);
        let s = s\<lparr>pendQs := (pendQs s)(SafetyQ tcbId := \<lparr>pend_class = Some QPrioClass, pend_list = []\<rparr>)\<rparr>;
        let s = objCoreInit (TaskObj tcbId) TaskClass s;
        let s = task_name tcbId name s;
        s \<leftarrow> createHooks tcbId s;
        s \<leftarrow> vmxSpawn tcbId s;
        Some (OK, s)
      })"

text \<open>
  The name a task without one gets: \<open>t\<close> and the decimal digits of a counter, which the first loop writes
  with the last digit first and the second one reverses in place.
\<close>

fun digits_loop :: "nat \<Rightarrow> string \<Rightarrow> string" where
  "digits_loop value newName =
     (let newName = newName @ [char_of (48 + value mod 10)]
      in if value div 10 \<noteq> 0 then digits_loop (value div 10) newName else newName)"

declare digits_loop.simps [simp del]

function reverse_loop :: "nat \<Rightarrow> nat \<Rightarrow> 'a list \<Rightarrow> 'a list" where
  "reverse_loop i j xs =
     (if i < j then reverse_loop (i + 1) (j - 1) (xs[i := xs ! j, j := xs ! i]) else xs)"
  by pat_completeness auto
termination by (relation "measure (\<lambda>(i, j, xs). j - i)") auto

declare reverse_loop.simps [simp del]

definition nameless :: "nat \<Rightarrow> string" where
  "nameless value =
     (let newName = digits_loop value ''t'' in reverse_loop 1 (length newName - 1) newName)"

text \<open>\<open>taskCreat\<close>; \<open>pMem\<close> is the memory that was allocated for the stack and the TCB.\<close>

definition taskCreat ::
  "(ptr \<Rightarrow> kstate \<Rightarrow> kstate option) \<Rightarrow> ptr \<Rightarrow> string option \<Rightarrow> u32 \<Rightarrow> u32 \<Rightarrow> u32 \<Rightarrow> nat \<Rightarrow> kstate \<Rightarrow>
    (ptr \<times> kstate) option" where
  "taskCreat createHooks pMem name priority options stackSize func s =
     (if \<not> taskLibInstalled s then Some (NULL, errnoSet S_taskLib_NOT_INSTALLED s)
      else
        let (name, s) = (case name of
            None \<Rightarrow> let s = s\<lparr>namelessCount := namelessCount s + 1\<rparr>
                   in (Some (nameless (nat (namelessCount s))), s)
          | Some nm \<Rightarrow> (Some nm, s));
          stackSize = STACK_ROUND_UP stackSize;
          ((pTaskMem, _), s) = objAllocPad TaskClass stackSize pMem s
        in if pTaskMem = NULL then Some (NULL, s)
           else do {
             let tcbId = pTaskMem + unat stackSize;
             (st, s) \<leftarrow> taskInit createHooks tcbId name priority options (word_of_nat tcbId) stackSize func s;
             if st \<noteq> OK then Some (NULL, snd (objFree TaskClass s)) else Some (tcbId, s)
           })"

definition taskSpawn ::
  "kenv \<Rightarrow> nat \<Rightarrow> (ptr \<Rightarrow> kstate \<Rightarrow> kstate option) \<Rightarrow> ptr \<Rightarrow> string option \<Rightarrow> u32 \<Rightarrow> u32 \<Rightarrow> u32 \<Rightarrow> nat \<Rightarrow>
    kstate \<Rightarrow> (ptr \<times> kstate) option" where
  "taskSpawn e n createHooks pMem name priority options stackSize func s = do {
     (taskId, s) \<leftarrow> taskCreat createHooks pMem name priority options stackSize func s;
     if taskId \<noteq> 0
     then do { (st, s) \<leftarrow> taskActivate e n taskId s; Some (taskId, s) }
     else Some (taskId, s)
   }"

definition taskLibInit :: "u32 \<Rightarrow> int \<Rightarrow> ptr \<Rightarrow> kstate \<Rightarrow> STATUS \<times> kstate" where
  "taskLibInit sz offset memSysPartId s =
     (if taskLibInstalled s then (OK, s)
      else case classInit TaskClass sz offset memSysPartId (Some 1) (Some 2) (Some 3) s of (st, s) \<Rightarrow>
        if st \<noteq> OK then (ERROR, s) else (OK, s\<lparr>taskLibInstalled := True\<rparr>))"

subsection \<open>Task information\<close>

definition taskIdDefault :: "ptr \<Rightarrow> kstate \<Rightarrow> ptr \<times> kstate" where
  "taskIdDefault taskId s =
     (let s = (if taskId \<noteq> 0 then s\<lparr>defaultTaskId := taskId\<rparr> else s) in (defaultTaskId s, s))"

definition taskName :: "ptr \<Rightarrow> kstate \<Rightarrow> string option \<times> kstate" where
  "taskName taskId s =
     (case taskTcb taskId s of (tcbId, s) \<Rightarrow>
        if tcbId = NULL then (None, s)
        else (Some (case tName (tcbs s tcbId) of None \<Rightarrow> '''' | Some nm \<Rightarrow> nm), s))"

definition taskNameNoMatch :: "kstate \<Rightarrow> string \<Rightarrow> ptr \<Rightarrow> bool" where
  "taskNameNoMatch s name tcbId \<longleftrightarrow> tName (tcbs s tcbId) \<noteq> Some name"

text \<open>\<open>Q_EACH\<close> over the queue of all tasks ends at the first task for which the function is false.\<close>

definition taskNameToId :: "string \<Rightarrow> kstate \<Rightarrow> int" where
  "taskNameToId name s =
     (case dropWhile (taskNameNoMatch s name) (activeQ s) of [] \<Rightarrow> ERROR | t # _ \<Rightarrow> int t)"

definition taskIdListGet :: "kenv \<Rightarrow> nat \<Rightarrow> nat \<Rightarrow> kstate \<Rightarrow> (ptr list \<times> kstate) option" where
  "taskIdListGet e n maxTasks s =
     (let s = snd (taskLock s); ids = take maxTasks (activeQ s)
      in do { (st, s) \<leftarrow> taskUnlock e n s; Some (ids, s) })"

definition taskOptionsSet :: "kenv \<Rightarrow> nat \<Rightarrow> ptr \<Rightarrow> u32 \<Rightarrow> u32 \<Rightarrow> kstate \<Rightarrow> (STATUS \<times> kstate) option" where
  "taskOptionsSet e n tid msk options s =
     (if INT_RESTRICT s \<noteq> OK then Some (ERROR, s)
      else case taskTcb tid (snd (taskLock s)) of (tcbId, s) \<Rightarrow>
        if tcbId = NULL
        then do { (st, s) \<leftarrow> taskUnlock e n s; Some (ERROR, s) }
        else do {
          (st, s) \<leftarrow> taskUnlock e n
            (upd_tcb tcbId (\<lambda>c. c\<lparr>tOptions := (tOptions c AND msk) OR options\<rparr>) s);
          Some (OK, s)
        })"

subsection \<open>Ticks and time slices\<close>

definition tickLibInit :: "kstate \<Rightarrow> kstate" where
  "tickLibInit s = s\<lparr>sysTicks := 0, sysAbsTicks := 0\<rparr>"

definition tickSet :: "u32 \<Rightarrow> kstate \<Rightarrow> kstate" where
  "tickSet ticks s = s\<lparr>sysAbsTicks := ucast ticks\<rparr>"

definition tick64Set :: "u64 \<Rightarrow> kstate \<Rightarrow> kstate" where
  "tick64Set ticks s = s\<lparr>sysAbsTicks := ticks\<rparr>"

definition tick64Get :: "kstate \<Rightarrow> u64" where
  "tick64Get s = sysAbsTicks s"

definition tickAnnounce :: "kenv \<Rightarrow> nat \<Rightarrow> kstate \<Rightarrow> kstate option" where
  "tickAnnounce e n s =
     (if kernelState s then workQDefer (Call0 F_vmxTickAnnounce) s
      else do {
        (r, s) \<leftarrow> through_kernel e n (vmxTickAnnounce (e_wdCall e) (e_unpend e) (workQDoWork e n)) s;
        Some s
      })"

definition kernelTimeSlice :: "u32 \<Rightarrow> kstate \<Rightarrow> STATUS \<times> kstate" where
  "kernelTimeSlice ticks s =
     (OK, if ticks = 0 then s\<lparr>roundRobinOn := False\<rparr>
          else s\<lparr>roundRobinSlice := ticks, roundRobinOn := True\<rparr>)"

subsection \<open>Destroying a task\<close>

text \<open>
  \<open>taskDestroy\<close> goes through the kernel several times, and its task may be switched out each time. It is a
  step function: a step ends with the place where the call goes on, at once with a value or when its
  task is dispatched again, or it returns. The exception task's queue (\<open>excJobAdd\<close>), the delete hooks and
  the recalculation of a timeout are parameters; signals are not part of the model.
\<close>

datatype destroy_pc =
    D_self | D_suspend | D_loop u32 | D_wait u32 | D_waited u32 | D_verify u32 | D_kill | D_hooks
  | D_unlock | D_unsafe | D_done

datatype destroy_next = D_go destroy_pc "STATUS after" | D_ret STATUS

definition protected :: "kstate \<Rightarrow> ptr \<Rightarrow> bool" where
  "protected s t \<longleftrightarrow> 0 < tSafeCount (tcbs s t) \<or> status_of s t = TASK_READY \<and> 0 < tLockCount (tcbs s t)"

definition taskDestroy ::
  "ptr \<Rightarrow> u32 \<Rightarrow> kstate \<Rightarrow> (destroy_next \<times> ptr) \<times> kstate" where
  "taskDestroy taskId timeout s =
     (if INT_RESTRICT s \<noteq> OK then ((D_ret ERROR, NULL), errnoSet S_intLib_NOT_ISR_CALLABLE s)
      else case taskTcb taskId s of (tcbId, s) \<Rightarrow>
        if tcbId = NULL then ((D_ret ERROR, NULL), s)
        else if tcbId = taskIdCurrent s then ((D_go D_self (Returns OK), tcbId), s)
        else ((D_go (D_loop timeout) (Returns OK), tcbId), s))"

fun destroy_step ::
  "kenv \<Rightarrow> nat \<Rightarrow> (ptr \<Rightarrow> bool \<Rightarrow> kstate \<Rightarrow> (STATUS \<times> kstate) option) \<Rightarrow> (ptr \<Rightarrow> kstate \<Rightarrow> kstate option) \<Rightarrow>
    (u32 \<Rightarrow> u32) \<Rightarrow> ptr \<Rightarrow> bool \<Rightarrow> bool \<Rightarrow> u32 \<Rightarrow> destroy_pc \<Rightarrow> STATUS \<Rightarrow> kstate \<Rightarrow>
    (destroy_next \<times> kstate) option" where
  "destroy_step e n excJobAdd deleteHooks recalc tcbId freeStack force tmo D_self v s =
     (if 0 < tSafeCount (tcbs s tcbId)
      then do { (r, s) \<leftarrow> taskUnsafe_run e n s; Some (D_go D_self r, s) }
      else do {
        (st, s) \<leftarrow> excJobAdd tcbId freeStack s;
        Some (D_go (if st = OK then D_suspend else D_loop tmo) (Returns st), s)
      })"
| "destroy_step e n excJobAdd deleteHooks recalc tcbId freeStack force tmo D_suspend v s =
     do { (r, s) \<leftarrow> taskSuspend_run e n 0 s; Some (D_go D_suspend r, s) }"
| "destroy_step e n excJobAdd deleteHooks recalc tcbId freeStack force tmo (D_loop timeout) v s =
     (case TASK_ID_VERIFY_ne_OK tcbId s of (bad, s) \<Rightarrow>
        Some (if bad \<noteq> 0 then D_ret ERROR else D_go (D_wait timeout) (Returns OK), s))"
| "destroy_step e n excJobAdd deleteHooks recalc tcbId freeStack force tmo (D_wait timeout) v s =
     (if protected s tcbId
      then let s = s\<lparr>kernelState := True\<rparr>
           in if force \<or> tcbId = taskIdCurrent s
              then do {
                s \<leftarrow> flush_if (SafetyQ tcbId) (upd_tcb tcbId (\<lambda>c. c\<lparr>tSafeCount := 0, tLockCount := 0\<rparr>) s);
                (r, s) \<leftarrow> vmxExit e n s;
                Some (D_go (D_verify timeout) r, s)
              }
              else do {
                (st, s) \<leftarrow> vmxPendQPut (SafetyQ tcbId) timeout s;
                (r, s) \<leftarrow> vmxExit e n s;
                if st \<noteq> OK then Some (D_ret ERROR, errnoSet S_taskLib_INVALID_TIMEOUT s)
                else Some (D_go (D_waited timeout) r, s)
              }
      else Some (D_go D_kill (Returns OK), s))"
| "destroy_step e n excJobAdd deleteHooks recalc tcbId freeStack force tmo (D_waited timeout) v s =
     Some (if v = SIG_RESTART then D_go (D_loop (recalc timeout)) (Returns OK)
           else if v = ERROR then D_ret ERROR else D_go (D_verify timeout) (Returns OK), s)"
| "destroy_step e n excJobAdd deleteHooks recalc tcbId freeStack force tmo (D_verify timeout) v s =
     (case TASK_ID_VERIFY_ne_OK tcbId s of (bad, s) \<Rightarrow>
        Some (if bad \<noteq> 0 then D_ret ERROR else D_go (D_wait timeout) (Returns OK), s))"
| "destroy_step e n excJobAdd deleteHooks recalc tcbId freeStack force tmo D_kill v s =
     (let s = upd_tcb tcbId (\<lambda>c. c\<lparr>tSafeCount := tSafeCount c + 1\<rparr>) (snd (taskSafe s))
      in if tcbId \<noteq> taskIdCurrent s
         then do { (r, s) \<leftarrow> through_kernel e n (vmxSuspend tcbId) s; Some (D_go D_hooks r, s) }
         else Some (D_go D_hooks (Returns OK), s))"
| "destroy_step e n excJobAdd deleteHooks recalc tcbId freeStack force tmo D_hooks v s = do {
     s \<leftarrow> deleteHooks tcbId s;
     let s = snd (taskLock s);
     let s = (if freeStack \<and> has_flag (tOptions (tcbs s tcbId)) 4 then snd (objFree TaskClass s) else s);
     s \<leftarrow> objCoreTerminate (TaskObj tcbId) s;
     (r, s) \<leftarrow> through_kernel e n
       (\<lambda>s. do { (st, s) \<leftarrow> vmxDelete tcbId s; flush_if (SafetyQ tcbId) s }) s;
     Some (D_go D_unlock r, s)
   }"
| "destroy_step e n excJobAdd deleteHooks recalc tcbId freeStack force tmo D_unlock v s =
     do { (r, s) \<leftarrow> taskUnlock_run e n s; Some (D_go D_unsafe r, s) }"
| "destroy_step e n excJobAdd deleteHooks recalc tcbId freeStack force tmo D_unsafe v s =
     do { (r, s) \<leftarrow> taskUnsafe_run e n s; Some (D_go D_done r, s) }"
| "destroy_step e n excJobAdd deleteHooks recalc tcbId freeStack force tmo D_done v s = Some (D_ret OK, s)"

text \<open>The part of the call that runs before its task is switched out for the first time.\<close>

primrec destroy_run ::
  "kenv \<Rightarrow> nat \<Rightarrow> (ptr \<Rightarrow> bool \<Rightarrow> kstate \<Rightarrow> (STATUS \<times> kstate) option) \<Rightarrow> (ptr \<Rightarrow> kstate \<Rightarrow> kstate option) \<Rightarrow>
    (u32 \<Rightarrow> u32) \<Rightarrow> ptr \<Rightarrow> bool \<Rightarrow> bool \<Rightarrow> u32 \<Rightarrow> nat \<Rightarrow> destroy_next \<Rightarrow> kstate \<Rightarrow> (destroy_next \<times> kstate) option"
where
  "destroy_run e n excJobAdd deleteHooks recalc tcbId freeStack force tmo 0 d s = None"
| "destroy_run e n excJobAdd deleteHooks recalc tcbId freeStack force tmo (Suc m) d s =
     (case d of
        D_go pc (Returns v) \<Rightarrow> do {
          (d, s) \<leftarrow> destroy_step e n excJobAdd deleteHooks recalc tcbId freeStack force tmo pc v s;
          destroy_run e n excJobAdd deleteHooks recalc tcbId freeStack force tmo m d s
        }
      | _ \<Rightarrow> Some (d, s))"

definition taskDestroy_call ::
  "kenv \<Rightarrow> nat \<Rightarrow> (ptr \<Rightarrow> bool \<Rightarrow> kstate \<Rightarrow> (STATUS \<times> kstate) option) \<Rightarrow> (ptr \<Rightarrow> kstate \<Rightarrow> kstate option) \<Rightarrow>
    (u32 \<Rightarrow> u32) \<Rightarrow> nat \<Rightarrow> ptr \<Rightarrow> bool \<Rightarrow> u32 \<Rightarrow> bool \<Rightarrow> kstate \<Rightarrow> (destroy_next \<times> kstate) option" where
  "taskDestroy_call e n excJobAdd deleteHooks recalc m taskId freeStack timeout force s =
     (case taskDestroy taskId timeout s of ((d, tcbId), s) \<Rightarrow>
        destroy_run e n excJobAdd deleteHooks recalc tcbId freeStack force timeout m d s)"

definition taskDelete where
  "taskDelete e n excJobAdd deleteHooks recalc m taskId =
     taskDestroy_call e n excJobAdd deleteHooks recalc m taskId True WAIT_FOREVER False"

definition taskDeleteForce where
  "taskDeleteForce e n excJobAdd deleteHooks recalc m taskId =
     taskDestroy_call e n excJobAdd deleteHooks recalc m taskId True WAIT_FOREVER True"

definition taskTerminate where
  "taskTerminate e n excJobAdd deleteHooks recalc m taskId =
     taskDestroy_call e n excJobAdd deleteHooks recalc m taskId False WAIT_FOREVER False"

text \<open>\<open>taskExit\<close>, up to the first switch; a task does not come back from its own destruction.\<close>

definition taskExit where
  "taskExit e n excJobAdd deleteHooks recalc m code s =
     taskDestroy_call e n excJobAdd deleteHooks recalc m 0 True WAIT_FOREVER False
       (snd (taskLock (upd_tcb (taskIdCurrent s) (\<lambda>c. c\<lparr>tExitCode := code\<rparr>) s)))"

end
