(* ===== verification/SemLib.thy ===== *)
theory SemLib
  imports TaskLib
begin

text \<open>
  Semaphores: \<open>src/vmx/semLib.c\<close>, \<open>src/vmx/semBLib.c\<close> (binary), \<open>src/vmx/semCLib.c\<close> (counting) and
  \<open>src/vmx/semMLib.c\<close> (mutual exclusion). The tables of methods are lists of names, called by
  \<open>call_give\<close>, \<open>call_take\<close> and \<open>call_flush\<close>. A take that pends returns \<open>Blocks\<close>; when the task is
  dispatched again the call goes on in \<open>semBTake_resume\<close> and the like, with the value in \<open>tEax\<close>.
\<close>

definition S_semLib_NOT_INSTALLED :: int where "S_semLib_NOT_INSTALLED = 65536 + 1"
definition S_semLib_INVALID_OPTION :: int where "S_semLib_INVALID_OPTION = 65536 + 3"
definition S_semLib_INVALID_Q_TYPE :: int where "S_semLib_INVALID_Q_TYPE = 65536 + 4"
definition S_semLib_NOT_OWNER :: int where "S_semLib_NOT_OWNER = 65536 + 6"

abbreviation SEM_TYPE_BINARY :: u8 where "SEM_TYPE_BINARY \<equiv> 0"
abbreviation SEM_TYPE_MUTEX :: u8 where "SEM_TYPE_MUTEX \<equiv> 1"
abbreviation SEM_TYPE_COUNTING :: u8 where "SEM_TYPE_COUNTING \<equiv> 2"

definition sem_safe :: "u32 \<Rightarrow> bool" where
  "sem_safe options \<longleftrightarrow> options AND 4 \<noteq> 0"

definition SEM_VERIFY_ne_OK :: "ptr \<Rightarrow> kstate \<Rightarrow> int \<times> kstate" where
  "SEM_VERIFY_ne_OK semId = OBJ_VERIFY_ne_OK (SemObj semId) SemClass"

subsection \<open>Initialisation\<close>

definition semQInit :: "ptr \<Rightarrow> u32 \<Rightarrow> kstate \<Rightarrow> STATUS \<times> kstate" where
  "semQInit semId options s =
     (if options AND 3 = 0
      then (OK, s\<lparr>pendQs := (pendQs s)(SemQ semId := \<lparr>pend_class = Some QFifoClass, pend_list = []\<rparr>)\<rparr>)
      else if options AND 3 = 1
      then (OK, s\<lparr>pendQs := (pendQs s)(SemQ semId := \<lparr>pend_class = Some QPrioClass, pend_list = []\<rparr>)\<rparr>)
      else (ERROR, errnoSet S_semLib_INVALID_Q_TYPE s))"

definition sem_fields :: "u8 \<Rightarrow> u32 \<Rightarrow> SEM \<Rightarrow> SEM" where
  "sem_fields ty options m = m\<lparr>semRecurse := 0, semOptions := ucast options, semType := ty\<rparr>"

text \<open>The initial state of a binary semaphore: \<open>SEM_EMPTY\<close> is 0, \<open>SEM_FULL\<close> is 1.\<close>

definition semBCoreInit :: "ptr \<Rightarrow> u32 \<Rightarrow> nat \<Rightarrow> kstate \<Rightarrow> STATUS \<times> kstate" where
  "semBCoreInit semId options state s =
     (if sem_safe options then (ERROR, errnoSet S_semLib_INVALID_OPTION s)
      else
        let (status, s) =
          (if state = 0 then (OK, set_owner semId (taskIdCurrent s) s)
           else if state = 1 then (OK, set_owner semId NULL s)
           else (ERROR, errnoSet S_semLib_INVALID_OPTION s))
        in if status = OK
           then (OK, objCoreInit (SemObj semId) SemClass (upd_sem semId (sem_fields SEM_TYPE_BINARY options) s))
           else (status, s))"

definition semBInit :: "ptr \<Rightarrow> u32 \<Rightarrow> nat \<Rightarrow> kstate \<Rightarrow> STATUS \<times> kstate" where
  "semBInit semId options state s =
     (if \<not> semBLibInstalled s then (ERROR, errnoSet S_semLib_NOT_INSTALLED s)
      else if sem_safe options then (ERROR, errnoSet S_semLib_INVALID_OPTION s)
      else case semQInit semId options s of (st, s) \<Rightarrow>
        if st \<noteq> OK then (ERROR, s)
        else case semBCoreInit semId options state s of (st, s) \<Rightarrow> (if st \<noteq> OK then ERROR else OK, s))"

definition semCCoreInit :: "ptr \<Rightarrow> u32 \<Rightarrow> u32 \<Rightarrow> kstate \<Rightarrow> STATUS \<times> kstate" where
  "semCCoreInit semId options initialCount s =
     (if sem_safe options then (ERROR, errnoSet S_semLib_INVALID_OPTION s)
      else (OK, objCoreInit (SemObj semId) SemClass
        (upd_sem semId (\<lambda>m. sem_fields SEM_TYPE_COUNTING options (m\<lparr>semCount := initialCount\<rparr>)) s)))"

text \<open>\<open>semCInit\<close> computes a status and returns \<open>OK\<close> whatever it is.\<close>

definition semCInit :: "ptr \<Rightarrow> u32 \<Rightarrow> u32 \<Rightarrow> kstate \<Rightarrow> STATUS \<times> kstate" where
  "semCInit semId options initialCount s =
     (OK, if \<not> semCLibInstalled s then errnoSet S_semLib_NOT_INSTALLED s
          else case semQInit semId options s of (st, s) \<Rightarrow>
            if st \<noteq> OK then s else snd (semCCoreInit semId options initialCount s))"

definition semMCoreInit :: "ptr \<Rightarrow> u32 \<Rightarrow> kstate \<Rightarrow> STATUS \<times> kstate" where
  "semMCoreInit semId options s =
     (OK, objCoreInit (SemObj semId) SemClass
       (upd_sem semId (sem_fields SEM_TYPE_MUTEX options) (set_owner semId NULL s)))"

definition semMInit :: "ptr \<Rightarrow> u32 \<Rightarrow> kstate \<Rightarrow> STATUS \<times> kstate" where
  "semMInit semId options s =
     (if \<not> semMLibInstalled s then (ERROR, errnoSet S_semLib_NOT_INSTALLED s)
      else case semQInit semId options s of (st, s) \<Rightarrow>
        if st \<noteq> OK then (ERROR, s)
        else case semMCoreInit semId options s of (st, s) \<Rightarrow> (if st \<noteq> OK then ERROR else OK, s))"

text \<open>Creation: \<open>pMem\<close> is the memory allocated.\<close>

definition semBCreate :: "ptr \<Rightarrow> u32 \<Rightarrow> nat \<Rightarrow> kstate \<Rightarrow> ptr \<times> kstate" where
  "semBCreate pMem options state s =
     (if \<not> semBLibInstalled s then (NULL, errnoSet S_semLib_NOT_INSTALLED s)
      else case objAlloc SemClass pMem s of (semId, s) \<Rightarrow>
        if semId = NULL then (NULL, s)
        else case semBInit semId options state s of (st, s) \<Rightarrow>
          if st \<noteq> OK then (NULL, snd (objFree SemClass s)) else (semId, s))"

definition semCCreate :: "ptr \<Rightarrow> u32 \<Rightarrow> u32 \<Rightarrow> kstate \<Rightarrow> ptr \<times> kstate" where
  "semCCreate pMem options initialCount s =
     (if \<not> semCLibInstalled s then (NULL, errnoSet S_semLib_NOT_INSTALLED s)
      else case objAlloc SemClass pMem s of (semId, s) \<Rightarrow>
        if semId = NULL then (NULL, s)
        else case semCInit semId options initialCount s of (st, s) \<Rightarrow>
          if st \<noteq> OK then (NULL, snd (objFree SemClass s)) else (semId, s))"

definition semMCreate :: "ptr \<Rightarrow> u32 \<Rightarrow> kstate \<Rightarrow> ptr \<times> kstate" where
  "semMCreate pMem options s =
     (if \<not> semMLibInstalled s then (NULL, errnoSet S_semLib_NOT_INSTALLED s)
      else case objAlloc SemClass pMem s of (semId, s) \<Rightarrow>
        if semId = NULL then (NULL, s)
        else case semMInit semId options s of (st, s) \<Rightarrow>
          if st \<noteq> OK then (NULL, snd (objFree SemClass s)) else (semId, s))"

definition semCreate :: "ptr \<Rightarrow> u32 \<Rightarrow> u32 \<Rightarrow> kstate \<Rightarrow> ptr \<times> kstate" where
  "semCreate pMem ty options s =
     (if \<not> semLibInstalled s then (NULL, errnoSet S_semLib_NOT_INSTALLED s)
      else if ty AND 3 = 0 then semBCreate pMem options 1 s
      else if ty AND 3 = 1 then semMCreate pMem options s
      else if ty AND 3 = 2 then semCCreate pMem options 1 s
      else (NULL, errnoSet S_semLib_INVALID_OPTION s))"

definition semInit :: "ptr \<Rightarrow> u32 \<Rightarrow> u32 \<Rightarrow> kstate \<Rightarrow> STATUS \<times> kstate" where
  "semInit semId ty options s =
     (if \<not> semLibInstalled s then (ERROR, errnoSet S_semLib_NOT_INSTALLED s)
      else if ty AND 3 = 0 then semBInit semId options 1 s
      else if ty AND 3 = 1 then semMInit semId options s
      else if ty AND 3 = 2 then semCInit semId options 1 s
      else (ERROR, errnoSet S_semLib_INVALID_OPTION s))"

text \<open>Installing the libraries fills the tables.\<close>

definition semLibInit :: "u32 \<Rightarrow> int \<Rightarrow> ptr \<Rightarrow> kstate \<Rightarrow> STATUS \<times> kstate" where
  "semLibInit sz offset memSysPartId s =
     (if semLibInstalled s then (OK, s)
      else case classInit SemClass sz offset memSysPartId None None None s of (st, s) \<Rightarrow>
        if st \<noteq> OK then (ERROR, s) else (OK, s\<lparr>semLibInstalled := True\<rparr>))"

definition semBLibInit :: "kstate \<Rightarrow> STATUS \<times> kstate" where
  "semBLibInit s =
     (if semBLibInstalled s then (OK, s)
      else (OK, s\<lparr>semGiveTable := (semGiveTable s)[0 := M_semBGive],
                 semTakeTable := (semTakeTable s)[0 := M_semBTake],
                 semFlushTable := (semFlushTable s)[0 := M_semQFlush],
                 semGiveDeferTable := (semGiveDeferTable s)[0 := F_semBGiveDefer],
                 semFlushDeferTable := (semFlushDeferTable s)[0 := F_semQFlushDefer],
                 semBLibInstalled := True\<rparr>))"

definition semMLibInit :: "kstate \<Rightarrow> STATUS \<times> kstate" where
  "semMLibInit s =
     (if semMLibInstalled s then (OK, s)
      else (OK, s\<lparr>semGiveTable := (semGiveTable s)[1 := M_semMGive],
                 semTakeTable := (semTakeTable s)[1 := M_semMTake], semMLibInstalled := True\<rparr>))"

definition semCLibInit :: "kstate \<Rightarrow> STATUS \<times> kstate" where
  "semCLibInit s =
     (if semCLibInstalled s then (OK, s)
      else (OK, s\<lparr>semGiveTable := (semGiveTable s)[2 := M_semCGive],
                 semTakeTable := (semTakeTable s)[2 := M_semCTake],
                 semFlushTable := (semFlushTable s)[2 := M_semQFlush],
                 semGiveDeferTable := (semGiveDeferTable s)[2 := F_semCGiveDefer],
                 semFlushDeferTable := (semFlushDeferTable s)[2 := F_semQFlushDefer],
                 semCLibInstalled := True\<rparr>))"

subsection \<open>Binary semaphores\<close>

definition semBGive :: "kenv \<Rightarrow> nat \<Rightarrow> ptr \<Rightarrow> kstate \<Rightarrow> (STATUS after \<times> kstate) option" where
  "semBGive e n semId s =
     (case SEM_VERIFY_ne_OK semId s of (bad, s) \<Rightarrow>
        if bad \<noteq> 0 then Some (Returns ERROR, s)
        else let s = set_owner semId (pendFirst (SemQ semId) s) s
             in if semOwner (sems s semId) = NULL then Some (Returns OK, s)
                else do {
                  (r, s) \<leftarrow> through_kernel e n (vmxPendQGet (SemQ semId)) s;
                  Some (Returns OK, s)
                })"

text \<open>One round of the loop of \<open>semBTake\<close>; the loop goes round again only after \<open>SIG_RESTART\<close>.\<close>

definition semBTake_round :: "kenv \<Rightarrow> nat \<Rightarrow> ptr \<Rightarrow> u32 \<Rightarrow> kstate \<Rightarrow> (STATUS after \<times> kstate) option" where
  "semBTake_round e n semId timeout s =
     (case SEM_VERIFY_ne_OK semId s of (bad, s) \<Rightarrow>
        if bad \<noteq> 0 then Some (Returns ERROR, s)
        else if semOwner (sems s semId) = NULL
        then Some (Returns OK, set_owner semId (taskIdCurrent s) s)
        else if timeout = WAIT_NONE then Some (Returns ERROR, errnoSet S_objLib_UNAVAILABLE s)
        else through_kernel e n (\<lambda>s. map_option snd (vmxPendQPut (SemQ semId) timeout s)) s)"

definition semBTake :: "kenv \<Rightarrow> nat \<Rightarrow> ptr \<Rightarrow> u32 \<Rightarrow> kstate \<Rightarrow> (STATUS after \<times> kstate) option" where
  "semBTake e n semId timeout s =
     (if INT_RESTRICT s \<noteq> OK then Some (Returns ERROR, errnoSet S_intLib_NOT_ISR_CALLABLE s)
      else semBTake_round e n semId timeout s)"

definition semBTake_resume ::
  "kenv \<Rightarrow> nat \<Rightarrow> ptr \<Rightarrow> u32 \<Rightarrow> STATUS \<Rightarrow> kstate \<Rightarrow> (STATUS after \<times> kstate) option" where
  "semBTake_resume e n semId timeout v s =
     (if v = SIG_RESTART then semBTake_round e n semId timeout s else Some (Returns v, s))"

subsection \<open>Counting semaphores\<close>

definition semCGive :: "kenv \<Rightarrow> nat \<Rightarrow> ptr \<Rightarrow> kstate \<Rightarrow> (STATUS after \<times> kstate) option" where
  "semCGive e n semId s =
     (case SEM_VERIFY_ne_OK semId s of (bad, s) \<Rightarrow>
        if bad \<noteq> 0 then Some (Returns ERROR, s)
        else if pendFirst (SemQ semId) s = NULL
        then Some (Returns OK, upd_sem semId (\<lambda>m. m\<lparr>semCount := semCount m + 1\<rparr>) s)
        else do {
          (r, s) \<leftarrow> through_kernel e n (vmxPendQGet (SemQ semId)) s;
          Some (Returns OK, s)
        })"

definition semCTake_round :: "kenv \<Rightarrow> nat \<Rightarrow> ptr \<Rightarrow> u32 \<Rightarrow> kstate \<Rightarrow> (STATUS after \<times> kstate) option" where
  "semCTake_round e n semId timeout s =
     (case SEM_VERIFY_ne_OK semId s of (bad, s) \<Rightarrow>
        if bad \<noteq> 0 then Some (Returns ERROR, s)
        else if 0 < semCount (sems s semId)
        then Some (Returns OK, upd_sem semId (\<lambda>m. m\<lparr>semCount := semCount m - 1\<rparr>) s)
        else if timeout = WAIT_NONE then Some (Returns ERROR, errnoSet S_objLib_UNAVAILABLE s)
        else through_kernel e n (\<lambda>s. map_option snd (vmxPendQPut (SemQ semId) timeout s)) s)"

definition semCTake :: "kenv \<Rightarrow> nat \<Rightarrow> ptr \<Rightarrow> u32 \<Rightarrow> kstate \<Rightarrow> (STATUS after \<times> kstate) option" where
  "semCTake e n semId timeout s =
     (if INT_RESTRICT s \<noteq> OK then Some (Returns ERROR, errnoSet S_intLib_NOT_ISR_CALLABLE s)
      else semCTake_round e n semId timeout s)"

definition semCTake_resume ::
  "kenv \<Rightarrow> nat \<Rightarrow> ptr \<Rightarrow> u32 \<Rightarrow> STATUS \<Rightarrow> kstate \<Rightarrow> (STATUS after \<times> kstate) option" where
  "semCTake_resume e n semId timeout v s =
     (if v = SIG_RESTART then semCTake_round e n semId timeout s else Some (Returns v, s))"

subsection \<open>Mutual exclusion semaphores\<close>

definition safe_count :: "ptr \<Rightarrow> (u32 \<Rightarrow> u32) \<Rightarrow> kstate \<Rightarrow> kstate" where
  "safe_count t f = upd_tcb t (\<lambda>c. c\<lparr>tSafeCount := f (tSafeCount c)\<rparr>)"

definition delete_safe :: "ptr \<Rightarrow> kstate \<Rightarrow> bool" where
  "delete_safe semId s \<longleftrightarrow> semOptions (sems s semId) AND 4 \<noteq> 0"

text \<open>The flags \<open>SEM_M_Q_GET\<close> (a task waits for the mutex) and \<open>SEM_M_SAFE_Q_FLUSH\<close> are two booleans.\<close>

definition semMKernGive ::
  "kenv \<Rightarrow> nat \<Rightarrow> ptr \<Rightarrow> bool \<Rightarrow> bool \<Rightarrow> kstate \<Rightarrow> (STATUS after \<times> kstate) option" where
  "semMKernGive e n semId getWork safeQFlush s = do {
     s \<leftarrow> (if getWork
          then do {
            s \<leftarrow> vmxPendQGet (SemQ semId) s;
            Some (if delete_safe semId s then safe_count (semOwner (sems s semId)) (\<lambda>k. k + 1) s else s)
          }
          else Some s);
     s \<leftarrow> (if safeQFlush then vmxPendQFlush (SafetyQ (taskIdCurrent s)) s else Some s);
     vmxExit e n s
   }"

definition semMGive :: "kenv \<Rightarrow> nat \<Rightarrow> ptr \<Rightarrow> kstate \<Rightarrow> (STATUS after \<times> kstate) option" where
  "semMGive e n semId s =
     (if INT_RESTRICT s \<noteq> OK then Some (Returns ERROR, errnoSet S_intLib_NOT_ISR_CALLABLE s)
      else case SEM_VERIFY_ne_OK semId s of (bad, s) \<Rightarrow>
        if bad \<noteq> 0 then Some (Returns ERROR, s)
        else if taskIdCurrent s \<noteq> semOwner (sems s semId)
        then Some (Returns ERROR, errnoSet S_semLib_NOT_OWNER s)
        else if 0 < semRecurse (sems s semId)
        then Some (Returns OK, upd_sem semId (\<lambda>m. m\<lparr>semRecurse := semRecurse m - 1\<rparr>) s)
        else
          let t = taskIdCurrent s;
              s = set_owner semId (pendFirst (SemQ semId) s) s;
              getWork = (semOwner (sems s semId) \<noteq> NULL);
              s = (if delete_safe semId s then safe_count t (\<lambda>k. k - 1) s else s);
              safeQFlush = (delete_safe semId s \<and> tSafeCount (tcbs s t) = 0 \<and> pendFirst (SafetyQ t) s \<noteq> NULL)
          in if \<not> getWork \<and> \<not> safeQFlush then Some (Returns OK, s)
             else semMKernGive e n semId getWork safeQFlush (s\<lparr>kernelState := True\<rparr>))"

definition semMTake_round :: "kenv \<Rightarrow> nat \<Rightarrow> ptr \<Rightarrow> u32 \<Rightarrow> kstate \<Rightarrow> (STATUS after \<times> kstate) option" where
  "semMTake_round e n semId timeout s =
     (case SEM_VERIFY_ne_OK semId s of (bad, s) \<Rightarrow>
        if bad \<noteq> 0 then Some (Returns ERROR, s)
        else let pOwner = semOwner (sems s semId); t = taskIdCurrent s
        in if pOwner = NULL
           then let s = set_owner semId t s
                in Some (Returns OK, if delete_safe semId s then safe_count t (\<lambda>k. k + 1) s else s)
           else if pOwner = t
           then Some (Returns OK, upd_sem semId (\<lambda>m. m\<lparr>semRecurse := semRecurse m + 1\<rparr>) s)
           else if timeout = WAIT_NONE then Some (Returns ERROR, errnoSet S_objLib_UNAVAILABLE s)
           else through_kernel e n (\<lambda>s. map_option snd (vmxPendQPut (SemQ semId) timeout s)) s)"

definition semMTake :: "kenv \<Rightarrow> nat \<Rightarrow> ptr \<Rightarrow> u32 \<Rightarrow> kstate \<Rightarrow> (STATUS after \<times> kstate) option" where
  "semMTake e n semId timeout s =
     (if INT_RESTRICT s \<noteq> OK then Some (Returns ERROR, errnoSet S_intLib_NOT_ISR_CALLABLE s)
      else semMTake_round e n semId timeout s)"

definition semMTake_resume ::
  "kenv \<Rightarrow> nat \<Rightarrow> ptr \<Rightarrow> u32 \<Rightarrow> STATUS \<Rightarrow> kstate \<Rightarrow> (STATUS after \<times> kstate) option" where
  "semMTake_resume e n semId timeout v s =
     (if v = SIG_RESTART then semMTake_round e n semId timeout s else Some (Returns v, s))"

text \<open>Giving a mutex of another task away by force.\<close>

definition force_free :: "ptr \<Rightarrow> kstate \<Rightarrow> kstate option" where
  "force_free semId s = do {
     let pNewOwner = pendFirst (SemQ semId) s;
     let s = set_owner semId pNewOwner s;
     if pNewOwner \<noteq> NULL
     then do {
       s \<leftarrow> vmxPendQGet (SemQ semId) s;
       Some (if delete_safe semId s then safe_count pNewOwner (\<lambda>k. k + 1) s else s)
     }
     else Some s
   }"

definition semMGiveForce :: "kenv \<Rightarrow> nat \<Rightarrow> ptr \<Rightarrow> kstate \<Rightarrow> (STATUS after \<times> kstate) option" where
  "semMGiveForce e n semId s =
     (if INT_RESTRICT s \<noteq> OK then Some (Returns ERROR, errnoSet S_intLib_NOT_ISR_CALLABLE s)
      else case SEM_VERIFY_ne_OK semId s of (bad, s) \<Rightarrow>
        if bad \<noteq> 0 then Some (Returns ERROR, s)
        else
          let s = upd_sem semId (\<lambda>m. m\<lparr>semRecurse := 0\<rparr>) s; pOwner = semOwner (sems s semId)
          in if taskIdCurrent s = pOwner then semMGive e n semId s
             else case TASK_ID_VERIFY_eq_OK pOwner s of (taskIsValid, s) \<Rightarrow> do {
               let s = s\<lparr>kernelState := True\<rparr>;
               s \<leftarrow> (if taskIsValid \<noteq> 0 \<and> delete_safe semId s
                    then let s = safe_count pOwner (\<lambda>k. k - 1) s
                         in if tSafeCount (tcbs s pOwner) = 0 \<and> pendFirst (SafetyQ pOwner) s \<noteq> NULL
                            then vmxPendQFlush (SafetyQ pOwner) s else Some s
                    else Some s);
               s \<leftarrow> force_free semId s;
               (r, s) \<leftarrow> vmxExit e n s;
               Some (Returns OK, s)
             })"

subsection \<open>All kinds\<close>

definition semQFlush :: "kenv \<Rightarrow> nat \<Rightarrow> ptr \<Rightarrow> kstate \<Rightarrow> (STATUS after \<times> kstate) option" where
  "semQFlush e n semId s =
     (case SEM_VERIFY_ne_OK semId s of (bad, s) \<Rightarrow>
        if bad \<noteq> 0 then Some (Returns ERROR, s)
        else if pendFirst (SemQ semId) s = NULL then Some (Returns OK, s)
        else do {
          (r, s) \<leftarrow> through_kernel e n (vmxPendQFlush (SemQ semId)) s;
          Some (Returns OK, s)
        })"

text \<open>The call through a table; a method of another table would be called with other arguments.\<close>

fun call_method :: "kenv \<Rightarrow> nat \<Rightarrow> sem_method \<Rightarrow> ptr \<Rightarrow> u32 option \<Rightarrow> kstate \<Rightarrow> (STATUS after \<times> kstate) option" where
  "call_method e n M_semInvalid semId x s = Some (Returns (semInvalid semId), s)"
| "call_method e n M_semBGive semId None s = semBGive e n semId s"
| "call_method e n M_semCGive semId None s = semCGive e n semId s"
| "call_method e n M_semMGive semId None s = semMGive e n semId s"
| "call_method e n M_semQFlush semId None s = semQFlush e n semId s"
| "call_method e n M_semBTake semId (Some timeout) s = semBTake e n semId timeout s"
| "call_method e n M_semCTake semId (Some timeout) s = semCTake e n semId timeout s"
| "call_method e n M_semMTake semId (Some timeout) s = semMTake e n semId timeout s"
| "call_method e n _ semId x s = None"

definition table_at :: "'a list \<Rightarrow> u8 \<Rightarrow> 'a option" where
  "table_at tab ty = (let i = unat (ty AND 3) in if i < length tab then Some (tab ! i) else None)"

definition semGiveDefer :: "ptr \<Rightarrow> kstate \<Rightarrow> (STATUS after \<times> kstate) option" where
  "semGiveDefer semId s =
     (case SEM_VERIFY_ne_OK semId s of (bad, s) \<Rightarrow>
        if bad \<noteq> 0 then Some (Returns ERROR, s)
        else do {
          f \<leftarrow> table_at (semGiveDeferTable s) (semType (sems s semId));
          s \<leftarrow> workQDefer (Call1 f semId) s;
          Some (Returns OK, s)
        })"

definition semFlushDefer :: "ptr \<Rightarrow> kstate \<Rightarrow> (STATUS after \<times> kstate) option" where
  "semFlushDefer semId s =
     (case SEM_VERIFY_ne_OK semId s of (bad, s) \<Rightarrow>
        if bad \<noteq> 0 then Some (Returns ERROR, s)
        else do {
          f \<leftarrow> table_at (semFlushDeferTable s) (semType (sems s semId));
          s \<leftarrow> workQDefer (Call1 f semId) s;
          Some (Returns OK, s)
        })"

definition semGive :: "kenv \<Rightarrow> nat \<Rightarrow> ptr \<Rightarrow> kstate \<Rightarrow> (STATUS after \<times> kstate) option" where
  "semGive e n semId s =
     (if kernelState s then semGiveDefer semId s
      else do {
        f \<leftarrow> table_at (semGiveTable s) (semType (sems s semId));
        call_method e n f semId None s
      })"

definition semTake :: "kenv \<Rightarrow> nat \<Rightarrow> ptr \<Rightarrow> u32 \<Rightarrow> kstate \<Rightarrow> (STATUS after \<times> kstate) option" where
  "semTake e n semId timeout s = do {
     f \<leftarrow> table_at (semTakeTable s) (semType (sems s semId));
     call_method e n f semId (Some timeout) s
   }"

definition semFlush :: "kenv \<Rightarrow> nat \<Rightarrow> ptr \<Rightarrow> kstate \<Rightarrow> (STATUS after \<times> kstate) option" where
  "semFlush e n semId s =
     (if kernelState s then semFlushDefer semId s
      else do {
        f \<leftarrow> table_at (semFlushTable s) (semType (sems s semId));
        call_method e n f semId None s
      })"

text \<open>\<open>semDestroy\<close>: up to \<open>vmxExit\<close>, and what the task does when it runs again.\<close>

definition semDestroy_rest :: "kenv \<Rightarrow> nat \<Rightarrow> bool \<Rightarrow> kstate \<Rightarrow> (STATUS \<times> kstate) option" where
  "semDestroy_rest e n deallocate s =
     (let s = (if deallocate then snd (objFree SemClass s) else s)
      in do { (st, s) \<leftarrow> taskUnsafe e n s; Some (OK, s) })"

definition semDestroy :: "kenv \<Rightarrow> nat \<Rightarrow> ptr \<Rightarrow> bool \<Rightarrow> kstate \<Rightarrow> (STATUS after \<times> kstate) option" where
  "semDestroy e n semId deallocate s =
     (if INT_RESTRICT s \<noteq> OK then Some (Returns ERROR, errnoSet S_intLib_NOT_ISR_CALLABLE s)
      else case SEM_VERIFY_ne_OK semId s of (bad, s) \<Rightarrow>
        if bad \<noteq> 0 then Some (Returns ERROR, s)
        else do {
          s \<leftarrow> objCoreTerminate (SemObj semId) s;
          s \<leftarrow> vmxSemDelete semId (s\<lparr>kernelState := True\<rparr>);
          (r, s) \<leftarrow> vmxExit e n (snd (taskSafe s));
          (case r of
             Returns v \<Rightarrow> do { (st, s) \<leftarrow> semDestroy_rest e n deallocate s; Some (Returns st, s) }
           | Blocks \<Rightarrow> Some (Blocks, s))
        })"

definition semDelete :: "kenv \<Rightarrow> nat \<Rightarrow> ptr \<Rightarrow> kstate \<Rightarrow> (STATUS after \<times> kstate) option" where
  "semDelete e n semId s = semDestroy e n semId True s"

definition semTerminate :: "kenv \<Rightarrow> nat \<Rightarrow> ptr \<Rightarrow> kstate \<Rightarrow> (STATUS after \<times> kstate) option" where
  "semTerminate e n semId s = semDestroy e n semId False s"

end
