(* ===== verification/SemProps.thy ===== *)
theory SemProps
  imports SemLib
begin

text \<open>
  Semaphores against their abstract specification: a number of permits and a queue of waiting tasks. The
  calls are made by a running task with nothing deferred and no task switch hooks, so that \<open>vmxExit\<close> has
  an explicit effect.
\<close>

subsection \<open>Leaving the kernel with nothing deferred\<close>

definition exited :: "kstate \<Rightarrow> STATUS after \<times> kstate" where
  "exited s =
     (if stays s then (Returns OK, s\<lparr>kernelState := False\<rparr>)
      else let s1 = (upd_tcb (taskIdCurrent s) (\<lambda>c. c\<lparr>tEax := 0, tErrno := errno s\<rparr>) s)\<lparr>kernelIsIdle := False\<rparr>
      in if readyFirst s = NULL then (Blocks, s1\<lparr>kernelState := False, kernelIsIdle := True\<rparr>)
         else (Blocks, s1\<lparr>taskIdCurrent := readyFirst s, errno := tErrno (tcbs s1 (readyFirst s)),
           kernelState := False\<rparr>))"

lemma vmxExit_plain:
  assumes "workQIsEmpty (workQ s)" and "taskIdCurrent s \<noteq> NULL" and "intCnt s = 0" and "e_hooks e = no_hooks"
  shows "vmxExit e (Suc n) s = Some (exited s)"
  unfolding vmxExit_def checkTaskSwitch_step exited_def using assms
  by (auto simp: saveTaskContext_def Let_def vmxTaskReschedule_def noTaskReady_def switchTasks_def no_hooks_def
      dispatch_def kernel_simps)

lemma exited_reads:
  "sems (snd (exited s)) = sems s" "pendQs (snd (exited s)) = pendQs s" "readyQ (snd (exited s)) = readyQ s"
  "tickQ (snd (exited s)) = tickQ s" "activeQ (snd (exited s)) = activeQ s" "workQ (snd (exited s)) = workQ s"
  "intCnt (snd (exited s)) = intCnt s" "\<not> kernelState (snd (exited s))"
  "t \<noteq> taskIdCurrent s \<Longrightarrow> tcbs (snd (exited s)) t = tcbs s t"
  "tSafeCount (tcbs (snd (exited s)) t) = tSafeCount (tcbs s t)"
  "tStatus (tcbs (snd (exited s)) t) = tStatus (tcbs s t)"
  "readyFirst (snd (exited s)) = readyFirst s"
  by (simp_all add: exited_def Let_def kernel_simps)

lemma exited_kok: "kok (snd (exited s)) = kok s"
  by (simp add: exited_def Let_def kok_tcb_regs kok_parts [of "_\<lparr>taskIdCurrent := _, errno := _, kernelState := _\<rparr>"])

text \<open>A task that runs, with nothing deferred.\<close>

definition in_task :: "kenv \<Rightarrow> kstate \<Rightarrow> bool" where
  "in_task e s \<longleftrightarrow> kok s \<and> e_hooks e = no_hooks \<and> workQIsEmpty (workQ s) \<and> intCnt s = 0 \<and> \<not> kernelState s \<and>
     live s (taskIdCurrent s) \<and> status_of s (taskIdCurrent s) = TASK_READY"

lemma in_task_current:
  assumes "in_task e s"
  shows "taskIdCurrent s \<noteq> NULL" and "kinv s" and "clock_ok s" and "INT_RESTRICT s = OK" and "\<not> kernelState s"
  using assms kinv_live(2) [of s "taskIdCurrent s"] by (auto simp: in_task_def kok_def blocked_ok_def INT_RESTRICT_def)

lemma through_kernel_plain:
  assumes "in_task e s" and "work (s\<lparr>kernelState := True\<rparr>) = Some s1"
    and "same_cpu (s\<lparr>kernelState := True\<rparr>) s1"
  shows "through_kernel e (Suc n) work s = Some (exited s1)"
  using assms in_task_current(1) [OF assms(1)]
  by (simp add: through_kernel_def in_task_def same_cpu_def vmxExit_plain)

lemma kernelState_reads [kernel_simps]:
  "sems (s\<lparr>kernelState := a\<rparr>) = sems s" "pendQs (s\<lparr>kernelState := a\<rparr>) = pendQs s" "tcbs (s\<lparr>kernelState := a\<rparr>) = tcbs s"
  "taskIdCurrent (s\<lparr>kernelState := a\<rparr>) = taskIdCurrent s" "pendFirst r (s\<lparr>kernelState := a\<rparr>) = pendFirst r s"
  by (simp_all add: pendFirst_def)

lemma kinv_kernelState: "kinv (s\<lparr>kernelState := a\<rparr>) = kinv s"
  by (simp add: kinv_def queues_ok_def task_ok_def wdog_ok_def Let_def)

lemma clock_kernelState: "clock_ok (s\<lparr>kernelState := a\<rparr>) = clock_ok s"
  by (simp add: clock_ok_def tickGet_def)

subsection \<open>The abstract semaphore\<close>

record sem_spec =
  permits :: nat
  waiters :: "(u32 \<times> ptr) list"

text \<open>Giving hands the permit to the head of the queue, or stores it; \<open>store\<close> says how.\<close>

definition spec_give :: "(nat \<Rightarrow> nat) \<Rightarrow> sem_spec \<Rightarrow> sem_spec" where
  "spec_give store a =
     (case waiters a of [] \<Rightarrow> a\<lparr>permits := store (permits a)\<rparr> | e # q \<Rightarrow> a\<lparr>waiters := q\<rparr>)"

datatype take_result = Taken | Refused | Waiting

definition spec_take :: "q_class option \<Rightarrow> u32 \<Rightarrow> ptr \<Rightarrow> bool \<Rightarrow> sem_spec \<Rightarrow> take_result \<times> sem_spec" where
  "spec_take cls prio t wait a =
     (if 0 < permits a then (Taken, a\<lparr>permits := permits a - 1\<rparr>)
      else if wait then (Waiting, a\<lparr>waiters := pend_insert cls prio t (waiters a)\<rparr>) else (Refused, a))"

definition binary_spec :: "kstate \<Rightarrow> ptr \<Rightarrow> sem_spec" where
  "binary_spec s m = \<lparr>permits = (if semOwner (sems s m) = NULL then 1 else 0), waiters = pend_list (pendQs s (SemQ m))\<rparr>"

definition counting_spec :: "kstate \<Rightarrow> ptr \<Rightarrow> sem_spec" where
  "counting_spec s m = \<lparr>permits = unat (semCount (sems s m)), waiters = pend_list (pendQs s (SemQ m))\<rparr>"

lemma pendFirst_list:
  assumes "kinv s"
  shows "pendFirst r s = NULL \<longleftrightarrow> pend_list (pendQs s r) = []"
    and "pend_list (pendQs s r) = (k, t) # q \<Longrightarrow> pendFirst r s = t"
proof -
  show "pendFirst r s = NULL \<longleftrightarrow> pend_list (pendQs s r) = []"
  proof (cases "pend_list (pendQs s r)")
    case (Cons e q)
    obtain k t where e: "e = (k, t)" by (cases e)
    then have "t \<noteq> NULL" using pend_head_taken(4) [OF assms] Cons by blast
    then show ?thesis by (simp add: pendFirst_def Cons e)
  qed (simp add: pendFirst_def)
qed (simp add: pendFirst_def)

text \<open>The kernel part of giving to the head of the queue.\<close>

lemma give_head:
  assumes "in_task e s" and "pend_list (pendQs s r) = (k, t) # q"
  defines "s1 \<equiv> woken got t (pend_set r q (s\<lparr>kernelState := True\<rparr>))"
  shows "through_kernel e (Suc n) (vmxPendQGet r) s = Some (exited s1)" and "kok s1"
    and "pend_list (pendQs s1 r) = q" and "sems s1 = sems s" and "tEax (tcbs s1 t) = OK"
    and "t \<noteq> taskIdCurrent s" and "t \<noteq> NULL"
    and "TaskNode t \<notin> pq_nodes (tickQ s1)"
    and "t \<in> pq_nodes (readyQ s1) \<longleftrightarrow> \<not> has_flag (status_of s t) TASK_SUSPEND"
proof -
  let ?s = "s\<lparr>kernelState := True\<rparr>"
  note c = in_task_current [OF assms(1)]
  have k: "kinv ?s" "clock_ok ?s" using c by (simp_all add: kinv_kernelState clock_kernelState)
  have q: "pend_list (pendQs ?s r) = (k, t) # q" using assms(2) by (simp add: kernel_simps)
  have g: "vmxPendQGet r ?s = Some s1" "kinv s1"
    unfolding s1_def by (rule vmxPendQGet_head [OF k(1) q])+
  show "through_kernel e (Suc n) (vmxPendQGet r) s = Some (exited s1)"
    by (rule through_kernel_plain [where work = "vmxPendQGet r", OF assms(1) g(1) vmxPendQGet_cpu [OF g(1)]])
  show "kok s1"
    using g(2) k(2) no_new_timer_clock [OF no_new_timer_trans [OF woken_timer(2) woken_timer(1)]]
    by (simp add: kok_def s1_def)
  show "pend_list (pendQs s1 r) = q" "sems s1 = sems s" "tEax (tcbs s1 t) = OK"
    by (simp_all add: s1_def kernel_simps got_def)
  note h = pend_head_taken [OF k(1) q]
  show "t \<noteq> NULL" by (rule h(4))
  have "in_pend ?s r t" using q by (simp add: in_pend_def pq_nodes_def)
  then have pe: "has_flag (status_of s t) TASK_PEND" using kinv_in(3) [OF k(1)] by (simp add: kernel_simps)
  then show "t \<noteq> taskIdCurrent s" using assms(1) by (auto simp: in_task_def)
  have lv: "live s1 t" using h(3) by (simp add: s1_def live_def kernel_simps)
  have st: "status_of s1 t = clear_flag (clear_flag (status_of s t) TASK_PEND) TASK_DELAY"
    by (simp add: s1_def kernel_simps got_def)
  note w = waits_for_nothing [OF g(2) lv, unfolded st, OF clear_both(1,2)]
  show "TaskNode t \<notin> pq_nodes (tickQ s1)"
    "t \<in> pq_nodes (readyQ s1) \<longleftrightarrow> \<not> has_flag (status_of s t) TASK_SUSPEND"
    using w(1,3) clear_both(3) by simp_all
qed

lemma upd_sem_reads [kernel_simps]:
  "sems (upd_sem m f s) m' = (if m' = m then f (sems s m) else sems s m')"
  "pendQs (upd_sem m f s) = pendQs s" "tcbs (upd_sem m f s) = tcbs s"
  "taskIdCurrent (upd_sem m f s) = taskIdCurrent s" "workQ (upd_sem m f s) = workQ s"
  "readyQ (upd_sem m f s) = readyQ s" "tickQ (upd_sem m f s) = tickQ s"
  "activeQ (upd_sem m f s) = activeQ s" "wdogs (upd_sem m f s) = wdogs s"
  "sysTicks (upd_sem m f s) = sysTicks s" "sysAbsTicks (upd_sem m f s) = sysAbsTicks s"
  "intCnt (upd_sem m f s) = intCnt s" "kernelState (upd_sem m f s) = kernelState s"
  "pendFirst r (upd_sem m f s) = pendFirst r s"
  by (simp_all add: upd_sem_def pendFirst_def)

lemma kok_upd_sem [simp]: "kok (upd_sem m f s) = kok s"
  by (rule kok_parts) (simp_all add: kernel_simps)

lemma in_task_upd_sem [simp]: "in_task e (upd_sem m f s) = in_task e s"
  by (simp add: in_task_def live_def kernel_simps)

lemma in_task_frame:
  "in_task e s \<Longrightarrow> kok s' \<Longrightarrow> workQ s' = workQ s \<Longrightarrow> intCnt s' = intCnt s \<Longrightarrow> kernelState s' = kernelState s \<Longrightarrow>
   activeQ s' = activeQ s \<Longrightarrow> taskIdCurrent s' = taskIdCurrent s \<Longrightarrow>
   status_of s' (taskIdCurrent s) = status_of s (taskIdCurrent s) \<Longrightarrow> in_task e s'"
  by (simp add: in_task_def live_def)

definition spec_ok :: "sem_spec \<Rightarrow> bool" where
  "spec_ok a \<longleftrightarrow> (waiters a \<noteq> [] \<longrightarrow> permits a = 0)"

text \<open>What the task at the head of the queue gets.\<close>

definition granted :: "kstate \<Rightarrow> kstate \<Rightarrow> ptr \<Rightarrow> bool" where
  "granted s s' t \<longleftrightarrow> tEax (tcbs s' t) = OK \<and> TaskNode t \<notin> pq_nodes (tickQ s') \<and>
     (t \<in> pq_nodes (readyQ s') \<longleftrightarrow> \<not> has_flag (status_of s t) TASK_SUSPEND)"

lemma give_head_exited:
  assumes "in_task e s" and "pend_list (pendQs s r) = (k, t) # q"
  shows "\<exists>s1. through_kernel e (Suc n) (vmxPendQGet r) s = Some (exited s1) \<and> kok (snd (exited s1)) \<and>
    pend_list (pendQs (snd (exited s1)) r) = q \<and> sems (snd (exited s1)) = sems s \<and>
    granted s (snd (exited s1)) t \<and> t \<noteq> NULL"
proof -
  note g = give_head [OF assms]
  let ?s1 = "woken got t (pend_set r q (s\<lparr>kernelState := True\<rparr>))"
  have "taskIdCurrent ?s1 = taskIdCurrent s" by (simp add: kernel_simps)
  then have "t \<noteq> taskIdCurrent ?s1" using g(6) by simp
  then show ?thesis using g
    by (intro exI [of _ ?s1]) (simp add: exited_kok exited_reads granted_def)
qed

lemma spec_give_Nil: "waiters a = [] \<Longrightarrow> spec_give f a = a\<lparr>permits := f (permits a)\<rparr>"
  and spec_give_Cons: "waiters a = w # q \<Longrightarrow> spec_give f a = a\<lparr>waiters := q\<rparr>"
  by (simp_all add: spec_give_def)

lemma semBGive_ok:
  assumes "in_task e s" and "semIsSem (sems s m)" and "spec_ok (binary_spec s m)"
  shows "\<exists>s'. semBGive e (Suc n) m s = Some (Returns OK, s') \<and> kok s' \<and>
    binary_spec s' m = spec_give (\<lambda>_. 1) (binary_spec s m) \<and> spec_ok (binary_spec s' m) \<and> semIsSem (sems s' m) \<and>
    (\<forall>k t q. pend_list (pendQs s (SemQ m)) = (k, t) # q \<longrightarrow> granted s s' t \<and> semOwner (sems s' m) = t)"
proof -
  note c = in_task_current [OF assms(1)]
  have v: "SEM_VERIFY_ne_OK m s = (OK, s)"
    using assms(2) by (simp add: SEM_VERIFY_ne_OK_def OBJ_VERIFY_ne_OK_def)
  show ?thesis
  proof (cases "pend_list (pendQs s (SemQ m))")
    case Nil
    let ?s = "set_owner m NULL s"
    have "pendFirst (SemQ m) s = NULL" by (simp add: pendFirst_def Nil)
    then have "semBGive e (Suc n) m s = Some (Returns OK, ?s)"
      by (simp add: semBGive_def v Let_def set_owner_def kernel_simps)
    moreover have "kok ?s" using assms(1) by (simp add: set_owner_def in_task_def)
    moreover have w: "binary_spec ?s m = \<lparr>permits = 1, waiters = []\<rparr>"
      by (simp add: binary_spec_def set_owner_def kernel_simps Nil)
    moreover have "spec_give (\<lambda>_. 1) (binary_spec s m) = \<lparr>permits = 1, waiters = []\<rparr>"
      by (simp add: spec_give_def binary_spec_def Nil)
    moreover have "semIsSem (sems ?s m)" using assms(2) by (simp add: set_owner_def kernel_simps)
    ultimately show ?thesis using Nil by (simp add: spec_ok_def)
  next
    case (Cons e0 q)
    obtain k t where l: "pend_list (pendQs s (SemQ m)) = (k, t) # q" using Cons by (cases e0) simp
    let ?s = "set_owner m t s"
    have tk: "in_task e ?s" "pend_list (pendQs ?s (SemQ m)) = (k, t) # q"
      using assms(1) l by (simp_all add: set_owner_def kernel_simps)
    obtain s1 where g: "through_kernel e (Suc n) (vmxPendQGet (SemQ m)) ?s = Some (exited s1)"
        "kok (snd (exited s1))" "pend_list (pendQs (snd (exited s1)) (SemQ m)) = q"
        "sems (snd (exited s1)) = sems ?s" "granted ?s (snd (exited s1)) t" "t \<noteq> NULL"
      using give_head_exited [OF tk, of n] by blast
    have own: "semOwner (sems ?s m) = t" by (simp add: set_owner_def kernel_simps)
    have gr: "granted s (snd (exited s1)) t" using g(5) by (simp add: granted_def set_owner_def kernel_simps)
    have "semBGive e (Suc n) m s = Some (Returns OK, snd (exited s1))"
      using own g(1,6) pendFirst_list(2) [OF c(2) l]
      by (simp add: semBGive_def v Let_def case_prod_beta)
    moreover have "binary_spec (snd (exited s1)) m = \<lparr>permits = 0, waiters = q\<rparr>"
      using g(3,4,6) own by (simp add: binary_spec_def)
    moreover have "spec_give (\<lambda>_. 1) (binary_spec s m) = \<lparr>permits = 0, waiters = q\<rparr>"
      using assms(3) l by (simp add: spec_give_def binary_spec_def spec_ok_def)
    moreover have "semOwner (sems (snd (exited s1)) m) = t" "semIsSem (sems (snd (exited s1)) m)"
      using g(4) own assms(2) by (simp_all add: set_owner_def kernel_simps)
    ultimately show ?thesis using g(2) gr l
      by (intro exI [of _ "snd (exited s1)"]) (simp add: spec_ok_def)
  qed
qed

lemma semCGive_ok:
  assumes "in_task e s" and "semIsSem (sems s m)" and "spec_ok (counting_spec s m)"
  shows "\<exists>s'. semCGive e (Suc n) m s = Some (Returns OK, s') \<and> kok s' \<and>
    counting_spec s' m = spec_give (\<lambda>p. (p + 1) mod 2 ^ 32) (counting_spec s m) \<and> spec_ok (counting_spec s' m) \<and> semIsSem (sems s' m) \<and>
    (\<forall>k t q. pend_list (pendQs s (SemQ m)) = (k, t) # q \<longrightarrow> granted s s' t)"
proof -
  note c = in_task_current [OF assms(1)]
  have v: "SEM_VERIFY_ne_OK m s = (OK, s)"
    using assms(2) by (simp add: SEM_VERIFY_ne_OK_def OBJ_VERIFY_ne_OK_def)
  show ?thesis
  proof (cases "pend_list (pendQs s (SemQ m))")
    case Nil
    let ?s = "upd_sem m (\<lambda>m. m\<lparr>semCount := semCount m + 1\<rparr>) s"
    have "pendFirst (SemQ m) s = NULL" by (simp add: pendFirst_def Nil)
    then have "semCGive e (Suc n) m s = Some (Returns OK, ?s)" by (simp add: semCGive_def v)
    moreover have "kok ?s" using assms(1) by (simp add: in_task_def)
    moreover have "counting_spec ?s m = spec_give (\<lambda>p. (p + 1) mod 2 ^ 32) (counting_spec s m)"
      by (simp add: counting_spec_def spec_give_def kernel_simps Nil unat_word_ariths)
    ultimately show ?thesis using Nil assms(2) by (simp add: spec_ok_def counting_spec_def kernel_simps)
  next
    case (Cons e0 q)
    obtain k t where l: "pend_list (pendQs s (SemQ m)) = (k, t) # q" using Cons by (cases e0) simp
    obtain s1 where g: "through_kernel e (Suc n) (vmxPendQGet (SemQ m)) s = Some (exited s1)"
        "kok (snd (exited s1))" "pend_list (pendQs (snd (exited s1)) (SemQ m)) = q"
        "sems (snd (exited s1)) = sems s" "granted s (snd (exited s1)) t" "t \<noteq> NULL"
      using give_head_exited [OF assms(1) l, of n] by blast
    have "semCGive e (Suc n) m s = Some (Returns OK, snd (exited s1))"
      using g(1,6) pendFirst_list(2) [OF c(2) l] by (simp add: semCGive_def v case_prod_beta)
    moreover have "counting_spec (snd (exited s1)) m = spec_give (\<lambda>p. (p + 1) mod 2 ^ 32) (counting_spec s m)"
      using g(3,4) l by (simp add: counting_spec_def spec_give_def)
    moreover have "spec_ok (counting_spec (snd (exited s1)) m)"
      using assms(3) g(4) l by (simp add: spec_ok_def counting_spec_def)
    ultimately show ?thesis using g(2,4,5) l assms(2) by (intro exI [of _ "snd (exited s1)"]) simp
  qed
qed

text \<open>The running task waits: the kernel part of a take without a permit.\<close>

lemma take_waits:
  assumes "in_task e s" and "pend_usable s r"
  shows "\<exists>s'. through_kernel e (Suc n) (\<lambda>s. map_option snd (vmxPendQPut r d s)) s = Some (Blocks, s') \<and> kok s' \<and>
    pend_list (pendQs s' r) = pend_insert (pend_class (pendQs s r)) (tPriority (tcbs s (taskIdCurrent s)))
      (taskIdCurrent s) (pend_list (pendQs s r)) \<and> sems s' = sems s \<and>
    taskIdCurrent s \<notin> pq_nodes (readyQ s') \<and> has_flag (status_of s' (taskIdCurrent s)) TASK_PEND"
proof -
  let ?s = "s\<lparr>kernelState := True\<rparr>" let ?t = "taskIdCurrent s"
  note c = in_task_current [OF assms(1)]
  have k: "kinv ?s" "clock_ok ?s" using c by (simp_all add: kinv_kernelState clock_kernelState)
  have t: "taskIdCurrent ?s = ?t" "live ?s ?t" "status_of ?s ?t = TASK_READY" "pend_usable ?s r"
    using assms by (simp_all add: in_task_def pend_usable_def)
  note p = vmxPendQWithHandlerPut_ok [OF k t, where d = d and h = None and ob = NULL and info = 0]
  define s1 where "s1 = blocked r d (\<lambda>c. c\<lparr>tUnpendHandler := None, tObj := NULL, tObjInfo := 0\<rparr>) ?s"
  note p = p [folded s1_def]
  have put: "map_option snd (vmxPendQPut r d ?s) = Some s1" using p(1) by (simp add: vmxPendQPut_def)
  have cpu: "same_cpu ?s s1" using p(1) vmxPendQPut_cpu [of r d ?s] by (simp add: vmxPendQPut_def)
  have ex: "through_kernel e (Suc n) (\<lambda>s. map_option snd (vmxPendQPut r d s)) s = Some (exited s1)"
    by (rule through_kernel_plain [OF assms(1)]) (rule put cpu)+
  have reads: "?t \<notin> pq_nodes (readyQ s1)" "sems s1 = sems s" "taskIdCurrent s1 = ?t"
      "pend_list (pendQs s1 r) = pend_insert (pend_class (pendQs s r)) (tPriority (tcbs s ?t)) ?t
        (pend_list (pendQs s r))"
      "has_flag (status_of s1 ?t) TASK_PEND"
    by (simp_all add: s1_def blocked_def Let_def kernel_simps)
  have "readyFirst s1 \<noteq> ?t"
    using reads(1) c(1) by (cases "readyQ s1") (auto simp: readyFirst_def pq_nodes_def)
  moreover have "status_of s1 ?t \<noteq> TASK_READY" using reads(5) by auto
  ultimately have "\<not> stays s1" using reads(3) by (auto simp: stays_def)
  then have "fst (exited s1) = Blocks" by (simp add: exited_def Let_def)
  moreover have "kok (snd (exited s1))" using p(2,3) unfolding exited_kok by (simp add: kok_def)
  ultimately show ?thesis using ex reads
    by (intro exI [of _ "snd (exited s1)"]) (simp add: exited_reads prod_eq_iff)
qed

definition take_status :: "take_result \<Rightarrow> STATUS after" where
  "take_status x = (case x of Taken \<Rightarrow> Returns OK | Refused \<Rightarrow> Returns ERROR | Waiting \<Rightarrow> Blocks)"

lemma kok_errno [simp]: "sems (errnoSet x s) = sems s" "pendQs (errnoSet x s) = pendQs s" "errno (errnoSet x s) = x"
  "taskIdCurrent (errnoSet x s) = taskIdCurrent s" "tcbs (errnoSet x s) = tcbs s" "readyQ (errnoSet x s) = readyQ s"
  by (simp_all add: errnoSet_def)

lemma pend_insert_not_Nil [simp]: "pend_insert c k t q \<noteq> []"
  by (simp add: pend_insert_def)

lemma semBTake_ok:
  assumes "in_task e s" and "semIsSem (sems s m)" and "pend_usable s (SemQ m)"
    and st: "spec_take (pend_class (pendQs s (SemQ m))) (tPriority (tcbs s (taskIdCurrent s))) (taskIdCurrent s)
      (timeout \<noteq> WAIT_NONE) (binary_spec s m) = (res, a')" and "spec_ok (binary_spec s m)"
  shows "\<exists>s'. semBTake e (Suc n) m timeout s = Some (take_status res, s') \<and> kok s' \<and>
    binary_spec s' m = a' \<and> spec_ok a' \<and> semIsSem (sems s' m) \<and>
    (res = Taken \<longrightarrow> semOwner (sems s' m) = taskIdCurrent s) \<and>
    (res = Refused \<longrightarrow> s' = errnoSet S_objLib_UNAVAILABLE s) \<and>
    (res = Waiting \<longrightarrow> taskIdCurrent s \<notin> pq_nodes (readyQ s'))"
proof -
  note c = in_task_current [OF assms(1)]
  have v: "SEM_VERIFY_ne_OK m s = (OK, s)"
    using assms(2) by (simp add: SEM_VERIFY_ne_OK_def OBJ_VERIFY_ne_OK_def)
  have k: "kok s" using assms(1) by (simp add: in_task_def)
  consider (free) "semOwner (sems s m) = NULL" | (none) "semOwner (sems s m) \<noteq> NULL" "timeout = WAIT_NONE"
    | (wait) "semOwner (sems s m) \<noteq> NULL" "timeout \<noteq> WAIT_NONE" by blast
  then show ?thesis
  proof cases
    case free
    then have "pend_list (pendQs s (SemQ m)) = []" using assms(5) by (auto simp: spec_ok_def binary_spec_def)
    then show ?thesis using free st k c assms(2)
      by (auto simp: semBTake_def semBTake_round_def v binary_spec_def spec_take_def take_status_def set_owner_def
          kernel_simps spec_ok_def)
  next
    case none
    then show ?thesis using none st k c assms(2)
      by (auto simp: semBTake_def semBTake_round_def v binary_spec_def spec_take_def take_status_def spec_ok_def)
  next
    case wait
    obtain s' where s': "through_kernel e (Suc n) (\<lambda>s. map_option snd (vmxPendQPut (SemQ m) timeout s)) s =
        Some (Blocks, s')" "kok s'"
        "pend_list (pendQs s' (SemQ m)) = pend_insert (pend_class (pendQs s (SemQ m)))
          (tPriority (tcbs s (taskIdCurrent s))) (taskIdCurrent s) (pend_list (pendQs s (SemQ m)))"
        "sems s' = sems s" "taskIdCurrent s \<notin> pq_nodes (readyQ s')"
      using take_waits [OF assms(1,3), of n timeout] by blast
    then show ?thesis using wait st c assms(2)
      by (auto simp: semBTake_def semBTake_round_def v binary_spec_def spec_take_def take_status_def spec_ok_def)
  qed
qed

lemma semCTake_ok:
  assumes "in_task e s" and "semIsSem (sems s m)" and "pend_usable s (SemQ m)"
    and st: "spec_take (pend_class (pendQs s (SemQ m))) (tPriority (tcbs s (taskIdCurrent s))) (taskIdCurrent s)
      (timeout \<noteq> WAIT_NONE) (counting_spec s m) = (res, a')" and "spec_ok (counting_spec s m)"
  shows "\<exists>s'. semCTake e (Suc n) m timeout s = Some (take_status res, s') \<and> kok s' \<and>
    counting_spec s' m = a' \<and> spec_ok a' \<and> semIsSem (sems s' m) \<and>
    (res = Refused \<longrightarrow> s' = errnoSet S_objLib_UNAVAILABLE s) \<and>
    (res = Waiting \<longrightarrow> taskIdCurrent s \<notin> pq_nodes (readyQ s'))"
proof -
  note c = in_task_current [OF assms(1)]
  have v: "SEM_VERIFY_ne_OK m s = (OK, s)"
    using assms(2) by (simp add: SEM_VERIFY_ne_OK_def OBJ_VERIFY_ne_OK_def)
  have k: "kok s" using assms(1) by (simp add: in_task_def)
  have pos: "0 < unat (semCount (sems s m)) \<longleftrightarrow> 0 < semCount (sems s m)" by (simp add: unat_gt_0 word_neq_0_conv)
  have dec: "0 < semCount (sems s m) \<Longrightarrow> unat (semCount (sems s m) - 1) = unat (semCount (sems s m)) - 1"
    by (simp add: unat_minus_one word_neq_0_conv)
  consider (free) "0 < semCount (sems s m)" | (none) "\<not> 0 < semCount (sems s m)" "timeout = WAIT_NONE"
    | (wait) "\<not> 0 < semCount (sems s m)" "timeout \<noteq> WAIT_NONE" by blast
  then show ?thesis
  proof cases
    case free
    then have "pend_list (pendQs s (SemQ m)) = []" using assms(5) pos by (auto simp: spec_ok_def counting_spec_def)
    then show ?thesis using free st k c pos dec assms(2)
      by (auto simp: semCTake_def semCTake_round_def v counting_spec_def spec_take_def take_status_def
          kernel_simps spec_ok_def)
  next
    case none
    then show ?thesis using none st k c pos assms(2)
      by (auto simp: semCTake_def semCTake_round_def v counting_spec_def spec_take_def take_status_def spec_ok_def)
  next
    case wait
    obtain s' where s': "through_kernel e (Suc n) (\<lambda>s. map_option snd (vmxPendQPut (SemQ m) timeout s)) s =
        Some (Blocks, s')" "kok s'"
        "pend_list (pendQs s' (SemQ m)) = pend_insert (pend_class (pendQs s (SemQ m)))
          (tPriority (tcbs s (taskIdCurrent s))) (taskIdCurrent s) (pend_list (pendQs s (SemQ m)))"
        "sems s' = sems s" "taskIdCurrent s \<notin> pq_nodes (readyQ s')"
      using take_waits [OF assms(1,3), of n timeout] by blast
    then show ?thesis using wait st c pos assms(2)
      by (auto simp: semCTake_def semCTake_round_def v counting_spec_def spec_take_def take_status_def spec_ok_def)
  qed
qed

subsection \<open>The interface of a semaphore\<close>

text \<open>What both kinds promise: giving and taking act as the specification says.\<close>

locale semaphore_kind =
  fixes spec :: "kstate \<Rightarrow> ptr \<Rightarrow> sem_spec"
    and giv :: "kenv \<Rightarrow> nat \<Rightarrow> ptr \<Rightarrow> kstate \<Rightarrow> (STATUS after \<times> kstate) option"
    and tak :: "kenv \<Rightarrow> nat \<Rightarrow> ptr \<Rightarrow> u32 \<Rightarrow> kstate \<Rightarrow> (STATUS after \<times> kstate) option"
    and store :: "nat \<Rightarrow> nat"
  assumes give_law: "in_task e s \<Longrightarrow> semIsSem (sems s m) \<Longrightarrow> spec_ok (spec s m) \<Longrightarrow>
      \<exists>s'. giv e (Suc n) m s = Some (Returns OK, s') \<and> spec s' m = spec_give store (spec s m) \<and>
        spec_ok (spec s' m) \<and> semIsSem (sems s' m)"
    and take_law: "in_task e s \<Longrightarrow> semIsSem (sems s m) \<Longrightarrow> pend_usable s (SemQ m) \<Longrightarrow> spec_ok (spec s m) \<Longrightarrow>
      spec_take (pend_class (pendQs s (SemQ m))) (tPriority (tcbs s (taskIdCurrent s))) (taskIdCurrent s)
        (timeout \<noteq> WAIT_NONE) (spec s m) = (res, a') \<Longrightarrow>
      \<exists>s'. tak e (Suc n) m timeout s = Some (take_status res, s') \<and> spec s' m = a' \<and> spec_ok a' \<and>
        semIsSem (sems s' m)"
    and spec_waiters: "waiters (spec s m) = pend_list (pendQs s (SemQ m))"
    and spec_sem: "sems s' m = sems s m \<Longrightarrow> permits (spec s' m) = permits (spec s m)"
    and store_le: "store p \<le> Suc p"

text \<open>
  A run of a semaphore: gives and takes by running tasks, and steps of the rest of the system that leave the
  semaphore itself alone and put nobody into its empty queue (they may take waiting tasks out of it,
  as timeouts and deletions do). Counted are the gives and the permits granted.
\<close>

inductive sem_run ::
  "(kenv \<Rightarrow> nat \<Rightarrow> ptr \<Rightarrow> kstate \<Rightarrow> (STATUS after \<times> kstate) option) \<Rightarrow>
    (kenv \<Rightarrow> nat \<Rightarrow> ptr \<Rightarrow> u32 \<Rightarrow> kstate \<Rightarrow> (STATUS after \<times> kstate) option) \<Rightarrow>
    kenv \<Rightarrow> ptr \<Rightarrow> kstate \<Rightarrow> nat \<Rightarrow> nat \<Rightarrow> kstate \<Rightarrow> bool"
  for giv tak e m s0 where
  start: "sem_run giv tak e m s0 0 0 s0"
| give: "sem_run giv tak e m s0 g k s \<Longrightarrow> in_task e s \<Longrightarrow> giv e (Suc n) m s = Some (r, s') \<Longrightarrow>
    sem_run giv tak e m s0 (g + 1) (k + (if pend_list (pendQs s (SemQ m)) = [] then 0 else 1)) s'"
| take: "sem_run giv tak e m s0 g k s \<Longrightarrow> in_task e s \<Longrightarrow> pend_usable s (SemQ m) \<Longrightarrow>
    tak e (Suc n) m timeout s = Some (r, s') \<Longrightarrow>
    sem_run giv tak e m s0 g (k + (if r = Returns OK then 1 else 0)) s'"
| other: "sem_run giv tak e m s0 g k s \<Longrightarrow> sems s' m = sems s m \<Longrightarrow>
    (pend_list (pendQs s (SemQ m)) = [] \<longrightarrow> pend_list (pendQs s' (SemQ m)) = []) \<Longrightarrow>
    sem_run giv tak e m s0 g k s'"

context semaphore_kind
begin

lemma run_balance:
  assumes "sem_run giv tak e m s0 g k s" and "semIsSem (sems s0 m)" and "spec_ok (spec s0 m)"
  shows "permits (spec s m) + k \<le> permits (spec s0 m) + g \<and> semIsSem (sems s m) \<and> spec_ok (spec s m)"
  using assms(1)
proof (induction rule: sem_run.induct)
  case start
  then show ?case using assms(2,3) by simp
next
  case (give g k s n r s')
  then obtain s1 where s1: "giv e (Suc n) m s = Some (Returns OK, s1)" "spec s1 m = spec_give store (spec s m)"
      "spec_ok (spec s1 m)" "semIsSem (sems s1 m)" using give_law by blast
  then have "s' = s1" using give.hyps(3) by simp
  then show ?case using s1 give.IH store_le [of "permits (spec s m)"] spec_waiters [of s m]
    by (cases "pend_list (pendQs s (SemQ m))") (auto simp: spec_give_def)
next
  case (take g k s n timeout r s')
  obtain res a' where a: "spec_take (pend_class (pendQs s (SemQ m))) (tPriority (tcbs s (taskIdCurrent s)))
      (taskIdCurrent s) (timeout \<noteq> WAIT_NONE) (spec s m) = (res, a')" by fastforce
  then obtain s1 where s1: "tak e (Suc n) m timeout s = Some (take_status res, s1)" "spec s1 m = a'" "spec_ok a'"
      "semIsSem (sems s1 m)" using take_law [OF take.hyps(2) _ take.hyps(3) _ a] take.IH by blast
  then have "s' = s1" "r = take_status res" using take.hyps(4) by simp_all
  moreover have "permits a' + (if r = Returns OK then 1 else 0) \<le> permits (spec s m)"
    using a \<open>r = take_status res\<close> by (auto simp: spec_take_def take_status_def split: if_splits)
  ultimately show ?case using s1 take.IH by auto
next
  case (other g k s s')
  then show ?case using spec_sem [of s' m s] spec_waiters [of s m] spec_waiters [of s' m] by (auto simp: spec_ok_def)
qed

end

interpretation semB: semaphore_kind binary_spec semBGive semBTake "\<lambda>_. 1"
proof unfold_locales
  fix e s m n
  assume "in_task e s" "semIsSem (sems s m)" "spec_ok (binary_spec s m)"
  then show "\<exists>s'. semBGive e (Suc n) m s = Some (Returns OK, s') \<and>
      binary_spec s' m = spec_give (\<lambda>_. 1) (binary_spec s m) \<and> spec_ok (binary_spec s' m) \<and> semIsSem (sems s' m)"
    using semBGive_ok by blast
next
  fix e s m timeout res a' n
  assume "in_task e s" "semIsSem (sems s m)" "pend_usable s (SemQ m)" "spec_ok (binary_spec s m)"
    "spec_take (pend_class (pendQs s (SemQ m))) (tPriority (tcbs s (taskIdCurrent s))) (taskIdCurrent s)
        (timeout \<noteq> WAIT_NONE) (binary_spec s m) = (res, a')"
  then show "\<exists>s'. semBTake e (Suc n) m timeout s = Some (take_status res, s') \<and> binary_spec s' m = a' \<and>
      spec_ok a' \<and> semIsSem (sems s' m)"
    using semBTake_ok [of e s m timeout res a' n] by blast
qed (simp_all add: binary_spec_def)

interpretation semC: semaphore_kind counting_spec semCGive semCTake "\<lambda>p. (p + 1) mod 2 ^ 32"
proof unfold_locales
  fix e s m n
  assume "in_task e s" "semIsSem (sems s m)" "spec_ok (counting_spec s m)"
  then show "\<exists>s'. semCGive e (Suc n) m s = Some (Returns OK, s') \<and>
      counting_spec s' m = spec_give (\<lambda>p. (p + 1) mod 2 ^ 32) (counting_spec s m) \<and>
      spec_ok (counting_spec s' m) \<and> semIsSem (sems s' m)"
    using semCGive_ok by blast
next
  fix e s m timeout res a' n
  assume "in_task e s" "semIsSem (sems s m)" "pend_usable s (SemQ m)" "spec_ok (counting_spec s m)"
    "spec_take (pend_class (pendQs s (SemQ m))) (tPriority (tcbs s (taskIdCurrent s))) (taskIdCurrent s)
        (timeout \<noteq> WAIT_NONE) (counting_spec s m) = (res, a')"
  then show "\<exists>s'. semCTake e (Suc n) m timeout s = Some (take_status res, s') \<and> counting_spec s' m = a' \<and>
      spec_ok a' \<and> semIsSem (sems s' m)"
    using semCTake_ok [of e s m timeout res a' n] by blast
next
  fix p :: nat
  show "(p + 1) mod 2 ^ 32 \<le> Suc p" using mod_less_eq_dividend [of "p + 1" "2 ^ 32"] by simp
qed (simp_all add: counting_spec_def)

subsection \<open>Properties\<close>

text \<open>The tables after the three libraries were installed.\<close>

definition sem_tables :: "kstate \<Rightarrow> bool" where
  "sem_tables s \<longleftrightarrow> semGiveTable s = [M_semBGive, M_semMGive, M_semCGive] \<and>
     semTakeTable s = [M_semBTake, M_semMTake, M_semCTake] \<and>
     semFlushTable s = [M_semQFlush, M_semInvalid, M_semQFlush] \<and>
     semGiveDeferTable s = [F_semBGiveDefer, F_semInvalid, F_semCGiveDefer] \<and>
     semFlushDeferTable s = [F_semQFlushDefer, F_semInvalid, F_semQFlushDefer]"

lemma table_methods:
  assumes "sem_tables s" and "semType (sems s m) \<in> {SEM_TYPE_BINARY, SEM_TYPE_COUNTING}" and "\<not> kernelState s"
  shows "semGive e n m s = (if semType (sems s m) = SEM_TYPE_BINARY then semBGive e n m s else semCGive e n m s)"
    and "semTake e n m d s = (if semType (sems s m) = SEM_TYPE_BINARY then semBTake e n m d s else semCTake e n m d s)"
  using assms by (auto simp: semGive_def semTake_def sem_tables_def table_at_def Let_def)

text \<open>C5. Giving a binary or counting semaphore with \<open>semGive\<close> from a running task returns \<open>OK\<close> and refines the
  abstract semaphore: with tasks waiting the one at the head of the queue leaves it, its take returns
  \<open>OK\<close> and it is ready unless suspended (it owns a binary semaphore); with none the permit is stored, at most one
  for a binary semaphore and modulo \<open>2 ^ 32\<close> for a counting one.\<close>

theorem sem_give_hands_over:
  assumes "in_task e s" and "sem_tables s" and "semIsSem (sems s m)"
    and "semType (sems s m) \<in> {SEM_TYPE_BINARY, SEM_TYPE_COUNTING}"
    and "(spec, store) = (if semType (sems s m) = SEM_TYPE_BINARY then (binary_spec, \<lambda>_. 1)
      else (counting_spec, \<lambda>p. (p + 1) mod 2 ^ 32))"
    and "spec_ok (spec s m)"
  shows "\<exists>s'. semGive e (Suc n) m s = Some (Returns OK, s') \<and> kok s' \<and> spec_ok (spec s' m) \<and>
    spec s' m = spec_give store (spec s m) \<and>
    (\<forall>k t q. waiters (spec s m) = (k, t) # q \<longrightarrow>
      tEax (tcbs s' t) = OK \<and> TaskNode t \<notin> pq_nodes (tickQ s') \<and>
      (t \<in> pq_nodes (readyQ s') \<longleftrightarrow> \<not> has_flag (status_of s t) TASK_SUSPEND) \<and>
      (semType (sems s m) = SEM_TYPE_BINARY \<longrightarrow> semOwner (sems s' m) = t))"
  using assms(5,6) semBGive_ok [OF assms(1,3), of n] semCGive_ok [OF assms(1,3), of n]
    table_methods(1) [OF assms(2,4) in_task_current(5) [OF assms(1)], of e "Suc n"]
  by (cases "semType (sems s m) = SEM_TYPE_BINARY")
    (fastforce simp: granted_def binary_spec_def counting_spec_def)+

definition demo_run :: kstate where
  "demo_run = demo\<lparr>kernelState := False\<rparr>"

lemma demo_run_reads [simp]:
  "sems demo_run = sems demo" "pendQs demo_run = pendQs demo" "tcbs demo_run = tcbs demo"
  "taskIdCurrent demo_run = 1" "readyQ demo_run = readyQ demo" "kernelState demo_run = False"
  "live demo_run = live demo"
  by (simp_all add: demo_run_def fun_eq_iff live_def)

lemma demo_run_task: "in_task demo_env demo_run"
proof -
  have "kok demo_run" "workQIsEmpty (workQ demo_run)" "intCnt demo_run = 0"
    using demo_kok by (simp_all add: demo_run_def) (simp_all add: demo_def)
  then show ?thesis by (simp add: in_task_def demo_env_def)
qed

lemma demo_run_tables: "sem_tables demo_run"
  by (simp add: sem_tables_def demo_run_def) (simp add: demo_def)

theorem sem_give_hands_over_witness:
  "\<exists>s'. semGive demo_env 1 100 demo_run = Some (Returns OK, s') \<and> semOwner (sems s' 100) = 6 \<and>
    6 \<in> pq_nodes (readyQ s')"
proof -
  have h: "semIsSem (sems demo_run 100)" "semType (sems demo_run 100) \<in> {SEM_TYPE_BINARY, SEM_TYPE_COUNTING}"
      "(binary_spec, \<lambda>_. 1) = (if semType (sems demo_run 100) = SEM_TYPE_BINARY then (binary_spec, \<lambda>_. 1)
        else (counting_spec, \<lambda>p. (p + 1) mod 2 ^ 32))"
      "spec_ok (binary_spec demo_run 100)"
    by (simp_all add: demo_sem_def spec_ok_def binary_spec_def)
  have w: "waiters (binary_spec demo_run 100) = (4, 6) # [(7, 4)]" by (simp add: binary_spec_def)
  show ?thesis
    using sem_give_hands_over [OF demo_run_task demo_run_tables h, of 0] unfolding w
    by (auto simp: demo_sem_def has_flag_def)
qed



text \<open>C7. A semaphore never grants more than it was given: in any run of gives and takes by running tasks,
  between which waiting tasks may time out or be deleted, the permits left and those granted are together at
  most the permits at the start and the gives, for binary and for counting semaphores; and nobody waits
  while there is a permit.\<close>

theorem sem_grants_bounded:
  assumes "semIsSem (sems s0 m)"
  shows "(spec_ok (binary_spec s0 m) \<and> sem_run semBGive semBTake e m s0 g k s \<longrightarrow>
      permits (binary_spec s m) + k \<le> permits (binary_spec s0 m) + g \<and> spec_ok (binary_spec s m)) \<and>
    (spec_ok (counting_spec s0 m) \<and> sem_run semCGive semCTake e m s0 g k s \<longrightarrow>
      permits (counting_spec s m) + k \<le> permits (counting_spec s0 m) + g \<and> spec_ok (counting_spec s m))"
  using semB.run_balance [OF _ assms] semC.run_balance [OF _ assms] by blast

theorem sem_grants_bounded_witness:
  "\<exists>s k. sem_run semBGive semBTake demo_env 100 demo_run 1 k s \<and> permits (binary_spec s 100) + k \<le> 1"
proof -
  have h: "semIsSem (sems demo_run 100)" "spec_ok (binary_spec demo_run 100)"
    by (simp_all add: demo_sem_def spec_ok_def binary_spec_def)
  obtain s' where "semBGive demo_env (Suc 0) 100 demo_run = Some (Returns OK, s')"
    using semBGive_ok [OF demo_run_task h, of 0] by blast
  from sem_run.give [where giv = semBGive, OF sem_run.start demo_run_task this]
  have r: "sem_run semBGive semBTake demo_env 100 demo_run 1 1 s'" by simp
  show ?thesis using sem_grants_bounded [OF h(1)] h(2) r by (fastforce simp: binary_spec_def demo_sem_def)
qed

text \<open>C25. A give from an interrupt that finds the kernel busy is lost: \<open>semGive\<close> returns \<open>OK\<close> and defers the give,
  but when the deferred job runs it leaves every semaphore and every pend queue as they were, for binary and for
  counting semaphores: its test \<open>OBJ_VERIFY(semId, semClassId) == OK\<close> is 0 for a valid semaphore.\<close>

theorem deferred_give_lost:
  assumes "kernelState s" and "sem_tables s" and "semIsSem (sems s m)"
    and "semType (sems s m) \<in> {SEM_TYPE_BINARY, SEM_TYPE_COUNTING}" and "work_rep (workQ s) []"
  shows "\<exists>s1 s2. semGive e n m s = Some (Returns OK, s1) \<and> workQDoWork e 2 s1 = Some s2 \<and>
    workQIsEmpty (workQ s2) \<and> sems s2 = sems s \<and> pendQs s2 = pendQs s \<and> readyQ s2 = readyQ s"
proof -
  define f where "f = (if semType (sems s m) = SEM_TYPE_BINARY then F_semBGiveDefer else F_semCGiveDefer)"
  have v: "SEM_VERIFY_ne_OK m s = (OK, s)"
    using assms(3) by (simp add: SEM_VERIFY_ne_OK_def OBJ_VERIFY_ne_OK_def)
  obtain q where q: "workQAddCall (Call1 f m) (workQ s) = Some q" "work_rep q [Call1 f m]"
    using workQAddCall_rep [OF assms(5), of "Call1 f m"] by auto
  let ?s1 = "s\<lparr>workQ := q\<rparr>"
  have g: "semGive e n m s = Some (Returns OK, ?s1)"
    using assms(1,2,4) q(1)
    by (auto simp: semGive_def semGiveDefer_def v table_at_def sem_tables_def workQDefer_def f_def Let_def)
  obtain q2 where q2: "workQNext q = Some (Call1 f m, q2)" "work_rep q2 []"
    using workQNext_rep [OF q(2)] by blast
  have id: "snd (OBJ_VERIFY_eq_OK (SemObj m) SemClass (?s1\<lparr>workQ := q2\<rparr>)) = ?s1\<lparr>workQ := q2\<rparr>"
    using assms(3) by (simp add: OBJ_VERIFY_eq_OK_def)
  have "run_job e w (Call1 f m) (?s1\<lparr>workQ := q2\<rparr>) = Some (?s1\<lparr>workQ := q2\<rparr>)" for w
    using id by (simp add: f_def semB_lost semC_lost)
  then have w: "workQDoWork e 2 ?s1 = Some (s\<lparr>workQ := q2\<lparr>workQIsEmpty := True\<rparr>, errno := errno s\<rparr>)"
    using q2 workQNext_empty [OF q2(2)] by (simp add: workQDoWork_def keep_errno_def numeral_2_eq_2)
  show ?thesis using g w
    by (intro exI [of _ ?s1] exI [of _ "s\<lparr>workQ := q2\<lparr>workQIsEmpty := True\<rparr>, errno := errno s\<rparr>"]) simp
qed

definition demo_irq :: kstate where
  "demo_irq = demo\<lparr>workQ := empty_work_q F_semInvalid\<rparr>"

theorem deferred_give_lost_witness:
  "\<exists>s1 s2. semGive demo_env 1 100 demo_irq = Some (Returns OK, s1) \<and> workQDoWork demo_env 2 s1 = Some s2 \<and>
    pend_list (pendQs s2 (SemQ 100)) = [(4, 6), (7, 4)]"
proof -
  have h: "kernelState demo_irq" "sem_tables demo_irq" "semIsSem (sems demo_irq 100)"
      "semType (sems demo_irq 100) \<in> {SEM_TYPE_BINARY, SEM_TYPE_COUNTING}" "work_rep (workQ demo_irq) []"
      "pendQs demo_irq = pendQs demo"
    using empty_work_q_rep by (simp_all add: demo_irq_def demo_sem_def sem_tables_def) (simp_all add: demo_def)
  show ?thesis using deferred_give_lost [OF h(1-5), of demo_env 1] h(6) by auto
qed

subsection \<open>Mutual exclusion semaphores\<close>

lemma sem_verify_ok: "semIsSem (sems s m) \<Longrightarrow> SEM_VERIFY_ne_OK m s = (OK, s)"
  by (simp add: SEM_VERIFY_ne_OK_def OBJ_VERIFY_ne_OK_def)

lemma safe_count_reads [kernel_simps]:
  "sems (safe_count t f s) = sems s" "pendQs (safe_count t f s) = pendQs s" "readyQ (safe_count t f s) = readyQ s"
  "taskIdCurrent (safe_count t f s) = taskIdCurrent s" "workQ (safe_count t f s) = workQ s"
  "intCnt (safe_count t f s) = intCnt s" "kernelState (safe_count t f s) = kernelState s"
  "activeQ (safe_count t f s) = activeQ s" "pendFirst r (safe_count t f s) = pendFirst r s"
  "tSafeCount (tcbs (safe_count t f s) t') = (if t' = t then f (tSafeCount (tcbs s t)) else tSafeCount (tcbs s t'))"
  "tStatus (tcbs (safe_count t f s) t') = tStatus (tcbs s t')"
  "tEax (tcbs (safe_count t f s) t') = tEax (tcbs s t')"
  "delete_safe m (safe_count t f s) = delete_safe m s"
  "tickQ (safe_count t f s) = tickQ s"
  by (simp_all add: safe_count_def kernel_simps pendFirst_def delete_safe_def)

lemma kok_safe_count [simp]: "kok (safe_count t f s) = kok s"
proof -
  have "task_ok (safe_count t f s) t' = task_ok s t'" for t'
    unfolding safe_count_def by (cases "t' = t") (simp_all add: task_ok_def Let_def kernel_simps)
  then have "kinv (safe_count t f s) = kinv s"
    by (simp add: kinv_def queues_ok_def wdog_ok_def kernel_simps safe_count_def)
  then show ?thesis by (simp add: kok_def clock_ok_def kernel_simps safe_count_def)
qed

lemma in_task_safe_count [simp]: "in_task e (safe_count t f s) = in_task e s"
  by (simp add: in_task_def live_def kernel_simps)

lemma delete_safe_sem [kernel_simps]:
  "delete_safe m (set_owner m t s) = delete_safe m s"
  "delete_safe m (upd_sem m (\<lambda>x. x\<lparr>semRecurse := f x\<rparr>) s) = delete_safe m s"
  by (simp_all add: delete_safe_def set_owner_def kernel_simps)

text \<open>A mutex held by the running task, taken \<open>d\<close> times more than given.\<close>

definition held :: "kenv \<Rightarrow> ptr \<Rightarrow> ptr \<Rightarrow> u16 \<Rightarrow> kstate \<Rightarrow> bool" where
  "held e m t d s \<longleftrightarrow> in_task e s \<and> taskIdCurrent s = t \<and> semIsSem (sems s m) \<and> semOwner (sems s m) = t \<and>
     semRecurse (sems s m) = d"

definition nest :: "ptr \<Rightarrow> (u16 \<Rightarrow> u16) \<Rightarrow> kstate \<Rightarrow> kstate" where
  "nest m f = upd_sem m (\<lambda>x. x\<lparr>semRecurse := f (semRecurse x)\<rparr>)"

lemma mutex_take_again:
  assumes "held e m t d s"
  shows "semMTake e n m timeout s = Some (Returns OK, nest m (\<lambda>r. r + 1) s)" and "held e m t (d + 1) (nest m (\<lambda>r. r + 1) s)"
  using assms in_task_current [of e s]
  by (auto simp: held_def semMTake_def semMTake_round_def sem_verify_ok Let_def nest_def kernel_simps)

lemma mutex_give_inner:
  assumes "held e m t d s" and "0 < d"
  shows "semMGive e n m s = Some (Returns OK, nest m (\<lambda>r. r - 1) s)" and "held e m t (d - 1) (nest m (\<lambda>r. r - 1) s)"
  using assms in_task_current [of e s]
  by (auto simp: held_def semMGive_def sem_verify_ok nest_def kernel_simps)

primrec mutex_takes :: "kenv \<Rightarrow> nat \<Rightarrow> ptr \<Rightarrow> u32 \<Rightarrow> nat \<Rightarrow> kstate \<Rightarrow> kstate option" where
  "mutex_takes e n m timeout 0 s = Some s"
| "mutex_takes e n m timeout (Suc k) s = do {
     (r, s) \<leftarrow> semMTake e n m timeout s;
     if r = Returns OK then mutex_takes e n m timeout k s else None
   }"

primrec mutex_gives :: "kenv \<Rightarrow> nat \<Rightarrow> ptr \<Rightarrow> nat \<Rightarrow> kstate \<Rightarrow> kstate option" where
  "mutex_gives e n m 0 s = Some s"
| "mutex_gives e n m (Suc k) s = do {
     (r, s) \<leftarrow> semMGive e n m s;
     if r = Returns OK then mutex_gives e n m k s else None
   }"

lemma takes_nested:
  assumes "held e m t d s"
  shows "\<exists>s'. mutex_takes e n m timeout k s = Some s' \<and> held e m t (d + word_of_nat k) s' \<and>
    pendQs s' = pendQs s \<and> tcbs s' = tcbs s \<and> delete_safe m s' = delete_safe m s"
  using assms
proof (induction k arbitrary: s d)
  case (Suc k)
  note a = mutex_take_again [OF Suc.prems]
  show ?case using Suc.IH [OF a(2)] a(1)
    by (auto simp: nest_def kernel_simps ac_simps)
qed simp

lemma gives_nested:
  assumes "held e m t d s" and "k \<le> unat d"
  shows "\<exists>s'. mutex_gives e n m k s = Some s' \<and> held e m t (d - word_of_nat k) s' \<and>
    pendQs s' = pendQs s \<and> tcbs s' = tcbs s \<and> delete_safe m s' = delete_safe m s"
  using assms
proof (induction k arbitrary: s d)
  case (Suc k)
  have d: "0 < d" using Suc.prems(2) by (auto simp: word_greater_zero_iff)
  note a = mutex_give_inner [OF Suc.prems(1) d]
  have "k \<le> unat (d - 1)" using Suc.prems(2) d by (simp add: unat_minus_one word_neq_0_conv)
  from Suc.IH [OF a(2) this] a(1) show ?case
    by (auto simp: nest_def kernel_simps algebra_simps)
qed simp

lemma mutex_take_free:
  assumes "in_task e s" and "semIsSem (sems s m)" and "semOwner (sems s m) = NULL"
  defines "t \<equiv> taskIdCurrent s"
  defines "s1 \<equiv> (if delete_safe m s then safe_count t (\<lambda>k. k + 1) (set_owner m t s) else set_owner m t s)"
  shows "semMTake e n m timeout s = Some (Returns OK, s1)" and "held e m t (semRecurse (sems s m)) s1"
    and "pendQs s1 = pendQs s" and "delete_safe m s1 = delete_safe m s"
    and "tSafeCount (tcbs s1 t) = tSafeCount (tcbs s t) + (if delete_safe m s then 1 else 0)"
proof -
  have o: "in_task e (set_owner m t s)" using assms(1) by (simp add: set_owner_def)
  show "semMTake e n m timeout s = Some (Returns OK, s1)"
    using assms(2,3) in_task_current [OF assms(1)]
    by (simp add: semMTake_def semMTake_round_def sem_verify_ok Let_def s1_def t_def kernel_simps)
  show "held e m t (semRecurse (sems s m)) s1" using o assms(2)
    by (auto simp: held_def s1_def t_def set_owner_def kernel_simps)
  show "pendQs s1 = pendQs s" "delete_safe m s1 = delete_safe m s"
    "tSafeCount (tcbs s1 t) = tSafeCount (tcbs s t) + (if delete_safe m s then 1 else 0)"
    by (auto simp: s1_def set_owner_def kernel_simps) (simp_all add: set_owner_def [symmetric] kernel_simps)
qed

lemma mutex_give_last:
  assumes "held e m t 0 s" and "pend_list (pendQs s (SemQ m)) = []" and "pend_list (pendQs s (SafetyQ t)) = []"
  defines "s1 \<equiv> (if delete_safe m s then safe_count t (\<lambda>k. k - 1) (set_owner m NULL s) else set_owner m NULL s)"
  shows "semMGive e n m s = Some (Returns OK, s1)" and "semOwner (sems s1 m) = NULL" and "in_task e s1"
    and "tSafeCount (tcbs s1 t) = tSafeCount (tcbs s t) - (if delete_safe m s then 1 else 0)"
proof -
  have f: "pendFirst (SemQ m) s = NULL" "pendFirst (SafetyQ t) s = NULL"
    using assms(2,3) by (simp_all add: pendFirst_def)
  show "semMGive e n m s = Some (Returns OK, s1)"
    using assms(1) f in_task_current [of e s]
    by (auto simp: held_def semMGive_def sem_verify_ok Let_def s1_def set_owner_def kernel_simps delete_safe_def)
  show "semOwner (sems s1 m) = NULL" "in_task e s1"
    "tSafeCount (tcbs s1 t) = tSafeCount (tcbs s t) - (if delete_safe m s then 1 else 0)"
    using assms(1) by (auto simp: s1_def set_owner_def kernel_simps held_def)
qed

text \<open>C8. A mutex nests: a task that takes a free mutex \<open>k + 1\<close> times owns it, holds one safety count if the mutex
  protects from deletion, and still owns it after \<open>k\<close> gives; the next give frees it and takes the
  safety count back. The nesting depth is kept modulo \<open>2 ^ 16\<close>: after \<open>2 ^ 16 + 1\<close> takes one give
  frees the mutex.\<close>

theorem mutex_nesting:
  assumes "in_task e s" and "semIsSem (sems s m)" and "semOwner (sems s m) = NULL" and "semRecurse (sems s m) = 0"
    and "taskIdCurrent s = t" and "pend_list (pendQs s (SemQ m)) = []" and "pend_list (pendQs s (SafetyQ t)) = []"
  shows "\<exists>s1 s2 s3. mutex_takes e n m timeout (Suc k) s = Some s1 \<and> semOwner (sems s1 m) = t \<and>
    tSafeCount (tcbs s1 t) = tSafeCount (tcbs s t) + (if delete_safe m s then 1 else 0) \<and>
    mutex_gives e n m (k mod 2 ^ 16) s1 = Some s2 \<and> semOwner (sems s2 m) = t \<and>
    semMGive e n m s2 = Some (Returns OK, s3) \<and> semOwner (sems s3 m) = NULL \<and>
    tSafeCount (tcbs s3 t) = tSafeCount (tcbs s t)"
proof -
  obtain s0 where s0: "semMTake e n m timeout s = Some (Returns OK, s0)" "held e m t 0 s0" "pendQs s0 = pendQs s"
      "delete_safe m s0 = delete_safe m s"
      "tSafeCount (tcbs s0 t) = tSafeCount (tcbs s t) + (if delete_safe m s then 1 else 0)"
    using mutex_take_free [OF assms(1-3)] assms(4,5) by metis
  obtain s1 where s1: "mutex_takes e n m timeout k s0 = Some s1" "held e m t (0 + word_of_nat k) s1"
      "pendQs s1 = pendQs s0" "tcbs s1 = tcbs s0" "delete_safe m s1 = delete_safe m s0"
    using takes_nested [OF s0(2)] by blast
  have d: "unat (0 + word_of_nat k :: u16) = k mod 2 ^ 16" by (simp add: unat_of_nat)
  obtain s2 where s2: "mutex_gives e n m (k mod 2 ^ 16) s1 = Some s2"
      "held e m t (0 + word_of_nat k - word_of_nat (k mod 2 ^ 16)) s2"
      "pendQs s2 = pendQs s1" "tcbs s2 = tcbs s1" "delete_safe m s2 = delete_safe m s1"
    using gives_nested [OF s1(2), of "k mod 2 ^ 16"] d by auto
  have "(word_of_nat k :: u16) = word_of_nat (k mod 2 ^ 16)"
    by (simp add: word_of_nat_eq_iff take_bit_eq_mod)
  then have "(0 + word_of_nat k - word_of_nat (k mod 2 ^ 16) :: u16) = 0" by simp
  then have h2: "held e m t 0 s2" using s2(2) by simp
  note g = mutex_give_last [OF h2]
  have q: "pend_list (pendQs s2 (SemQ m)) = []" "pend_list (pendQs s2 (SafetyQ t)) = []"
    using assms(6,7) s2(3) s1(3) s0(3) by simp_all
  show ?thesis
    using s0 s1 s2 h2 g [OF q] by (auto simp: held_def)
qed

text \<open>Semaphore 200 of the example is a free mutex that protects from deletion.\<close>

definition demo_mutex :: kstate where
  "demo_mutex = upd_sem 200 (\<lambda>m. m\<lparr>semType := 1, semOptions := 5, semOwner := NULL\<rparr>)
     (pend_set (SafetyQ 1) [] demo_run)"

lemma demo_mutex_ok:
  "in_task demo_env demo_mutex" "semIsSem (sems demo_mutex 200)" "semOwner (sems demo_mutex 200) = NULL"
  "semRecurse (sems demo_mutex 200) = 0" "taskIdCurrent demo_mutex = 1"
  "pend_list (pendQs demo_mutex (SemQ 200)) = []" "pend_list (pendQs demo_mutex (SafetyQ 1)) = []"
proof -
  have "pend_set (SafetyQ 1) [] demo_run = demo_run"
    by (simp add: pend_set_def demo_run_def) (simp add: demo_def fun_upd_idem_iff)
  then have e: "demo_mutex = upd_sem 200 (\<lambda>m. m\<lparr>semType := 1, semOptions := 5, semOwner := NULL\<rparr>) demo_run"
    by (simp add: demo_mutex_def)
  show "in_task demo_env demo_mutex" using demo_run_task by (simp add: e)
  show "semIsSem (sems demo_mutex 200)" "semOwner (sems demo_mutex 200) = NULL"
    "semRecurse (sems demo_mutex 200) = 0" "taskIdCurrent demo_mutex = 1"
    "pend_list (pendQs demo_mutex (SemQ 200)) = []" "pend_list (pendQs demo_mutex (SafetyQ 1)) = []"
    by (simp_all add: e kernel_simps demo_sem_def) (simp_all add: demo_def)
qed

theorem mutex_nesting_witness:
  "\<exists>s1 s2 s3. mutex_takes demo_env 1 200 0 65537 demo_mutex = Some s1 \<and> semOwner (sems s1 200) = 1 \<and>
    mutex_gives demo_env 1 200 0 s1 = Some s2 \<and>
    semMGive demo_env 1 200 s2 = Some (Returns OK, s3) \<and> semOwner (sems s3 200) = NULL"
proof -
  have k: "Suc 65536 = 65537" "(65536 :: nat) mod 2 ^ 16 = 0" by simp_all
  from mutex_nesting [OF demo_mutex_ok, of 1 0 65536, unfolded k] show ?thesis by blast
qed

end
