(* ===== verification/WdLib.thy ===== *)
theory WdLib
  imports SemProps
begin

text \<open>
  Watchdogs: \<open>src/vmx/wdLib.c\<close>. A watchdog is started and cancelled in the kernel (\<open>vmxWdStart\<close>,
  \<open>vmxWdCancel\<close>), at once or by a job of the work queue. \<open>dfrStartCount\<close> counts the starts that have not been
  carried out yet.
\<close>

definition WD_VERIFY_ne_OK :: "ptr \<Rightarrow> kstate \<Rightarrow> int \<times> kstate" where
  "WD_VERIFY_ne_OK wdId = OBJ_VERIFY_ne_OK (WdObj wdId) WdClass"

definition wdLibInit :: "u32 \<Rightarrow> int \<Rightarrow> ptr \<Rightarrow> nat option \<Rightarrow> nat option \<Rightarrow> nat option \<Rightarrow> kstate \<Rightarrow> STATUS \<times> kstate" where
  "wdLibInit sz offset memSysPartId createFunc initFunc destroyFunc s =
     (if wdLibInstalled s then (OK, s)
      else case classInit WdClass sz offset memSysPartId createFunc initFunc destroyFunc s of (st, s) \<Rightarrow>
        if st \<noteq> OK then (ERROR, s) else (OK, s\<lparr>wdLibInstalled := True\<rparr>))"

definition wdInit :: "ptr \<Rightarrow> kstate \<Rightarrow> STATUS \<times> kstate" where
  "wdInit wdId s =
     (if \<not> wdLibInstalled s then (ERROR, s)
      else (OK, objCoreInit (WdObj wdId) WdClass
        (upd_wdog wdId (\<lambda>w. w\<lparr>wdStatus := WDOG_OUT_OF_Q, wdDfrStartCount := 0\<rparr>) s)))"

definition wdCreate :: "ptr \<Rightarrow> kstate \<Rightarrow> ptr \<times> kstate" where
  "wdCreate pMem s =
     (if \<not> wdLibInstalled s then (NULL, s)
      else case objAlloc WdClass pMem s of (wdId, s) \<Rightarrow>
        if wdId = NULL then (NULL, s)
        else case wdInit wdId s of (st, s) \<Rightarrow>
          if st \<noteq> OK then (NULL, snd (objFree WdClass s)) else (wdId, s))"

text \<open>
  The part of \<open>wdDestroy\<close> before its task may be switched out, and the rest: the task is safe from deletion
  until the object has been freed.
\<close>

definition wdDestroy_rest :: "kenv \<Rightarrow> nat \<Rightarrow> bool \<Rightarrow> kstate \<Rightarrow> (STATUS \<times> kstate) option" where
  "wdDestroy_rest e n dealloc s = do {
     let s = (if dealloc then snd (objFree WdClass s) else s);
     (st, s) \<leftarrow> taskUnsafe e n s;
     Some (OK, s)
   }"

definition wdDestroy_kern :: "ptr \<Rightarrow> kstate \<Rightarrow> kstate option" where
  "wdDestroy_kern wdId s = do {
     s \<leftarrow> vmxWdCancel wdId s;
     let s = upd_wdog wdId (\<lambda>w. w\<lparr>wdStatus := WDOG_DEAD\<rparr>) s;
     Some (snd (taskSafe s))
   }"

definition wdDestroy :: "kenv \<Rightarrow> nat \<Rightarrow> ptr \<Rightarrow> bool \<Rightarrow> kstate \<Rightarrow> (STATUS after \<times> kstate) option" where
  "wdDestroy e n wdId dealloc s =
     (if INT_RESTRICT s \<noteq> OK then Some (Returns ERROR, s)
      else case WD_VERIFY_ne_OK wdId s of (bad, s) \<Rightarrow>
        if bad \<noteq> 0 then Some (Returns ERROR, s)
        else do {
          s \<leftarrow> objCoreTerminate (WdObj wdId) s;
          (r, s) \<leftarrow> through_kernel e n (wdDestroy_kern wdId) s;
          case r of
            Blocks \<Rightarrow> Some (Blocks, s)
          | Returns v \<Rightarrow> do { (st, s) \<leftarrow> wdDestroy_rest e n dealloc s; Some (Returns st, s) }
        })"

definition wdDelete :: "kenv \<Rightarrow> nat \<Rightarrow> ptr \<Rightarrow> kstate \<Rightarrow> (STATUS after \<times> kstate) option" where
  "wdDelete e n wdId s = wdDestroy e n wdId True s"

definition wdTerminate :: "kenv \<Rightarrow> nat \<Rightarrow> ptr \<Rightarrow> kstate \<Rightarrow> (STATUS after \<times> kstate) option" where
  "wdTerminate e n wdId s = wdDestroy e n wdId False s"

definition wdStart :: "kenv \<Rightarrow> nat \<Rightarrow> ptr \<Rightarrow> u32 \<Rightarrow> nat \<Rightarrow> arg \<Rightarrow> kstate \<Rightarrow> (STATUS \<times> kstate) option" where
  "wdStart e n wdId delay func ar s =
     (case WD_VERIFY_ne_OK wdId s of (bad, s) \<Rightarrow>
        if bad \<noteq> 0 then Some (ERROR, s)
        else let s = upd_wdog wdId (\<lambda>w. w\<lparr>wdDfrStartCount := wdDfrStartCount w + 1, wdFunc := func, wdArg := ar\<rparr>) s
             in if kernelState s
                then do { s \<leftarrow> workQDefer (Call2 F_vmxWdStart wdId (unat delay)) s; Some (OK, s) }
                else do {
                  (st, s) \<leftarrow> vmxWdStart wdId delay (s\<lparr>kernelState := True\<rparr>);
                  (r, s) \<leftarrow> vmxExit e n s;
                  Some (if st \<noteq> OK then ERROR else OK, s)
                })"

definition wdCancel :: "kenv \<Rightarrow> nat \<Rightarrow> ptr \<Rightarrow> kstate \<Rightarrow> (STATUS \<times> kstate) option" where
  "wdCancel e n wdId s =
     (case WD_VERIFY_ne_OK wdId s of (bad, s) \<Rightarrow>
        if bad \<noteq> 0 then Some (ERROR, s)
        else if kernelState s
        then do { s \<leftarrow> workQDefer (Call1 F_vmxWdCancel wdId) s; Some (OK, s) }
        else do { (r, s) \<leftarrow> through_kernel e n (vmxWdCancel wdId) s; Some (OK, s) })"

end
