(* ===== verification/MsgQLib.thy ===== *)
theory MsgQLib
  imports SemProps
begin

text \<open>
  Message queues: \<open>src/util/qMsgLib.c\<close>, a first-in first-out list of nodes with a queue of tasks waiting for
  a node, and \<open>src/vmx/msgQLib.c\<close>, where each message queue has two of them: \<open>MsgQ q\<close> holds the messages,
  \<open>FreeQ q\<close> the unused nodes. The links and the contents of the nodes are in \<open>msgNodes\<close>. Calls that wait are
  functions up to the switch and definitions that go on with the value of \<open>vmxExit\<close>; the loops have fuel, one
  unit for each round.
\<close>

definition S_msgQLib_NOT_INSTALLED :: int where "S_msgQLib_NOT_INSTALLED = 2 * 65536 + 1"
definition S_msgQLib_INVALID_MSG_LENGTH :: int where "S_msgQLib_INVALID_MSG_LENGTH = 2 * 65536 + 2"
definition S_msgQLib_INVALID_TIMEOUT :: int where "S_msgQLib_INVALID_TIMEOUT = 2 * 65536 + 3"
definition S_msgQLib_INVALID_Q_TYPE :: int where "S_msgQLib_INVALID_Q_TYPE = 2 * 65536 + 4"
definition S_objLib_DELETED :: int where "S_objLib_DELETED = 6 * 65536 + 4"

definition MSG_VERIFY_ne_OK :: "ptr \<Rightarrow> kstate \<Rightarrow> int \<times> kstate" where
  "MSG_VERIFY_ne_OK msgQId = OBJ_VERIFY_ne_OK (MsgQObj msgQId) MsgQClass"

definition MSG_VERIFY_eq_OK :: "ptr \<Rightarrow> kstate \<Rightarrow> int \<times> kstate" where
  "MSG_VERIFY_eq_OK msgQId = OBJ_VERIFY_eq_OK (MsgQObj msgQId) MsgQClass"

definition upd_qmsg :: "qref \<Rightarrow> (Q_MSG_HEAD \<Rightarrow> Q_MSG_HEAD) \<Rightarrow> kstate \<Rightarrow> kstate" where
  "upd_qmsg h f s = s\<lparr>qmsgs := (qmsgs s)(h := f (qmsgs s h))\<rparr>"

definition upd_node :: "ptr \<Rightarrow> (MSG_NODE \<Rightarrow> MSG_NODE) \<Rightarrow> kstate \<Rightarrow> kstate" where
  "upd_node p f s = s\<lparr>msgNodes := (msgNodes s)(p := f (msgNodes s p))\<rparr>"

definition upd_msgq :: "ptr \<Rightarrow> (MSG_Q \<Rightarrow> MSG_Q) \<Rightarrow> kstate \<Rightarrow> kstate" where
  "upd_msgq q f s = s\<lparr>msgqs := (msgqs s)(q := f (msgqs s q))\<rparr>"

subsection \<open>Queues of nodes\<close>

definition qMsgInit :: "qref \<Rightarrow> q_class \<Rightarrow> kstate \<Rightarrow> STATUS \<times> kstate" where
  "qMsgInit pQHead pendQType s =
     (OK, (upd_qmsg pQHead (\<lambda>_. \<lparr>qmFirst = NULL, qmLast = NULL, qmCount = 0\<rparr>) s)
        \<lparr>pendQs := (pendQs s)(pQHead := \<lparr>pend_class = Some pendQType, pend_list = []\<rparr>)\<rparr>)"

definition qMsgTerminate :: "qref \<Rightarrow> kstate \<Rightarrow> (STATUS \<times> kstate) option" where
  "qMsgTerminate pQHead s = do { s \<leftarrow> vmxPendQTerminate pQHead s; Some (OK, s) }"

text \<open>\<open>malloc\<close> gives a queue head or fails; \<open>qMsgDestroy\<close> gives the head back.\<close>

definition qMsgCreate :: "qref option \<Rightarrow> q_class \<Rightarrow> kstate \<Rightarrow> qref option \<times> kstate" where
  "qMsgCreate malloc pendQType s =
     (case malloc of
        None \<Rightarrow> (None, s)
      | Some h \<Rightarrow> (case qMsgInit h pendQType s of (st, s) \<Rightarrow> (if st \<noteq> OK then None else Some h, s)))"

definition qMsgDestroy :: "qref \<Rightarrow> kstate \<Rightarrow> ((STATUS \<times> qref) \<times> kstate) option" where
  "qMsgDestroy pQHead s = do { (st, s) \<leftarrow> qMsgTerminate pQHead s; Some ((OK, pQHead), s) }"

text \<open>Linking a node in, at the tail for the key 0 and at the head for any other.\<close>

definition qMsg_link :: "qref \<Rightarrow> ptr \<Rightarrow> u32 \<Rightarrow> kstate \<Rightarrow> kstate" where
  "qMsg_link pQHead pNode key s =
     (let s =
        (if key = 0
         then let s = upd_node pNode (\<lambda>n. n\<lparr>mnNext := NULL\<rparr>) s
              in if qmFirst (qmsgs s pQHead) = NULL
                 then upd_qmsg pQHead (\<lambda>h. h\<lparr>qmLast := pNode, qmFirst := pNode\<rparr>) s
                 else upd_qmsg pQHead (\<lambda>h. h\<lparr>qmLast := pNode\<rparr>)
                   (upd_node (qmLast (qmsgs s pQHead)) (\<lambda>n. n\<lparr>mnNext := pNode\<rparr>) s)
         else let s = upd_node pNode (\<lambda>n. n\<lparr>mnNext := qmFirst (qmsgs s pQHead)\<rparr>) s;
                  s = (if mnNext (msgNodes s pNode) = NULL
                       then upd_qmsg pQHead (\<lambda>h. h\<lparr>qmLast := pNode\<rparr>) s else s)
              in upd_qmsg pQHead (\<lambda>h. h\<lparr>qmFirst := pNode\<rparr>) s)
      in upd_qmsg pQHead (\<lambda>h. h\<lparr>qmCount := qmCount h + 1\<rparr>) s)"

text \<open>Which head it is, as the second argument of a deferred \<open>qMsgPendQGet\<close>.\<close>

definition head_arg :: "qref \<Rightarrow> arg" where
  "head_arg h = (case h of MsgQ q \<Rightarrow> 0 | _ \<Rightarrow> 1)"

text \<open>When the kernel is busy \<open>qMsgPut\<close> returns a variable it has not set: \<open>junk\<close>.\<close>

definition qMsgPut ::
  "kenv \<Rightarrow> nat \<Rightarrow> STATUS \<Rightarrow> ptr \<Rightarrow> qref \<Rightarrow> ptr \<Rightarrow> u32 \<Rightarrow> kstate \<Rightarrow> (STATUS after \<times> kstate) option" where
  "qMsgPut e n junk msgQId pQHead pNode key s =
     (let s = qMsg_link pQHead pNode key s
      in if kernelState s
         then do { s \<leftarrow> workQDefer (Call2 F_qMsgPendQGet msgQId (head_arg pQHead)) s; Some (Returns junk, s) }
         else if pendFirst pQHead s = NULL then Some (Returns OK, s)
         else do {
           (r, s) \<leftarrow> through_kernel e n (vmxPendQGet pQHead) s;
           Some (map_after (\<lambda>_. OK) r, s)
         })"

text \<open>What \<open>qMsgGet\<close> returns: a node, \<open>NULL\<close>, or \<open>NONE\<close> after a restart.\<close>

datatype got_node = GNode ptr | GNull | GNone

definition qMsg_unlink :: "qref \<Rightarrow> ptr \<Rightarrow> kstate \<Rightarrow> kstate" where
  "qMsg_unlink pQHead pNode s =
     upd_qmsg pQHead (\<lambda>h. h\<lparr>qmFirst := mnNext (msgNodes s pNode), qmCount := qmCount h - 1\<rparr>) s"

text \<open>The rest of a round, after \<open>vmxExit\<close> has come back with \<open>status\<close>.\<close>

definition qMsgGet_back ::
  "ptr \<Rightarrow> (kstate \<Rightarrow> (got_node after \<times> kstate) option) \<Rightarrow> STATUS \<Rightarrow> kstate \<Rightarrow> (got_node after \<times> kstate) option"
where
  "qMsgGet_back msgQId again status s =
     (if status = SIG_RESTART then Some (Returns GNone, s)
      else if status \<noteq> OK then Some (Returns GNull, s)
      else case MSG_VERIFY_ne_OK msgQId s of (bad, s) \<Rightarrow>
        if bad \<noteq> 0 then Some (Returns GNull, errnoSet S_objLib_DELETED s) else again s)"

primrec qMsgGet ::
  "kenv \<Rightarrow> nat \<Rightarrow> nat \<Rightarrow> ptr \<Rightarrow> qref \<Rightarrow> u32 \<Rightarrow> kstate \<Rightarrow> (got_node after \<times> kstate) option" where
  "qMsgGet e n 0 msgQId pQHead timeout s = None"
| "qMsgGet e n (Suc m) msgQId pQHead timeout s =
     (let pNode = qmFirst (qmsgs s pQHead)
      in if pNode \<noteq> NULL then Some (Returns (GNode pNode), qMsg_unlink pQHead pNode s)
         else if timeout = WAIT_NONE then Some (Returns GNull, errnoSet S_msgQLib_INVALID_TIMEOUT s)
         else do {
           (r, s) \<leftarrow> through_kernel e n (\<lambda>s. map_option snd (vmxPendQPut pQHead timeout s)) s;
           case r of
             Blocks \<Rightarrow> Some (Blocks, s)
           | Returns status \<Rightarrow> qMsgGet_back msgQId (qMsgGet e n m msgQId pQHead timeout) status s
         })"

text \<open>The call goes on when its task is dispatched again, with the value in \<open>tEax\<close>.\<close>

definition qMsgGet_resume ::
  "kenv \<Rightarrow> nat \<Rightarrow> nat \<Rightarrow> ptr \<Rightarrow> qref \<Rightarrow> u32 \<Rightarrow> STATUS \<Rightarrow> kstate \<Rightarrow> (got_node after \<times> kstate) option" where
  "qMsgGet_resume e n m msgQId pQHead timeout v s =
     qMsgGet_back msgQId (qMsgGet e n m msgQId pQHead timeout) v s"

text \<open>The nodes of a queue from \<open>p\<close> on; \<open>max\<close> bounds the walk as in \<open>qMsgInfo\<close>.\<close>

primrec node_walk :: "(ptr \<Rightarrow> MSG_NODE) \<Rightarrow> nat \<Rightarrow> ptr \<Rightarrow> ptr list" where
  "node_walk nodes 0 p = []"
| "node_walk nodes (Suc k) p = (if p = NULL then [] else p # node_walk nodes k (mnNext (nodes p)))"

definition qMsgInfo :: "qref \<Rightarrow> bool \<Rightarrow> nat \<Rightarrow> kstate \<Rightarrow> int \<times> ptr list" where
  "qMsgInfo pQHead nodeArray mx s =
     (if \<not> nodeArray then (qmCount (qmsgs s pQHead), [])
      else let ns = node_walk (msgNodes s) mx (qmFirst (qmsgs s pQHead)) in (int (length ns), ns))"

partial_function (option) qMsgEach_loop :: "(ptr \<Rightarrow> bool) \<Rightarrow> (ptr \<Rightarrow> MSG_NODE) \<Rightarrow> ptr \<Rightarrow> ptr option" where
  "qMsgEach_loop func nodes pNode =
     (if pNode \<noteq> NULL \<and> func pNode then qMsgEach_loop func nodes (mnNext (nodes pNode)) else Some pNode)"

definition qMsgEach :: "qref \<Rightarrow> (ptr \<Rightarrow> bool) \<Rightarrow> kstate \<Rightarrow> ptr option" where
  "qMsgEach pQHead func s = qMsgEach_loop func (msgNodes s) (qmFirst (qmsgs s pQHead))"

subsection \<open>Message queues\<close>

definition msgQLibInit ::
  "u32 \<Rightarrow> int \<Rightarrow> ptr \<Rightarrow> nat option \<Rightarrow> nat option \<Rightarrow> nat option \<Rightarrow> kstate \<Rightarrow> STATUS \<times> kstate" where
  "msgQLibInit sz offset memSysPartId createFunc initFunc destroyFunc s =
     (if msgQLibInstalled s then (OK, s)
      else case classInit MsgQClass sz offset memSysPartId createFunc initFunc destroyFunc s of (st, s) \<Rightarrow>
        if st \<noteq> OK then (ERROR, s) else (OK, s\<lparr>msgQLibInstalled := True\<rparr>))"

text \<open>The header of a node takes 8 bytes; nodes are aligned to 4.\<close>

definition MSG_NODE_SIZE :: "u32 \<Rightarrow> u32" where
  "MSG_NODE_SIZE msgLength = (8 + msgLength + 3) AND NOT 3"

text \<open>Putting the nodes of the pool on the free queue, one after the other.\<close>

primrec fill_free :: "kenv \<Rightarrow> nat \<Rightarrow> STATUS \<Rightarrow> ptr \<Rightarrow> nat \<Rightarrow> nat \<Rightarrow> ptr \<Rightarrow> kstate \<Rightarrow> kstate option" where
  "fill_free e n junk msgQId nodeSize 0 pMsgPool s = Some s"
| "fill_free e n junk msgQId nodeSize (Suc k) pMsgPool s = do {
     (r, s) \<leftarrow> qMsgPut e n junk msgQId (FreeQ msgQId) pMsgPool 1 s;
     fill_free e n junk msgQId nodeSize k (pMsgPool + nodeSize) s
   }"

definition msgQInit ::
  "kenv \<Rightarrow> nat \<Rightarrow> STATUS \<Rightarrow> ptr \<Rightarrow> int \<Rightarrow> u32 \<Rightarrow> u32 \<Rightarrow> ptr \<Rightarrow> kstate \<Rightarrow> (STATUS \<times> kstate) option" where
  "msgQInit e n junk msgQId maxMsg maxMsgLength options pMsgPool s =
     (if \<not> msgQLibInstalled s then Some (ERROR, errnoSet S_msgQLib_NOT_INSTALLED s)
      else
        let nodeSize = unat (MSG_NODE_SIZE maxMsgLength);
            s = upd_msgq msgQId (\<lambda>_. \<lparr>mqIsMsgQ = False, mqOptions = 0, mqMaxMsg = 0, mqMaxMsgLength = 0,
              mqSendTimeouts = 0, mqReciveTimeouts = 0\<rparr>) s;
            msgQType = (if options AND 1 = 0 then QFifoClass else QPrioClass);
            (st1, s) = qMsgInit (MsgQ msgQId) msgQType s
        in if st1 \<noteq> OK then Some (ERROR, s)
           else let (st2, s) = qMsgInit (FreeQ msgQId) msgQType s
           in if st2 \<noteq> OK then Some (ERROR, s)
              else do {
                s \<leftarrow> fill_free e n junk msgQId nodeSize (nat maxMsg) pMsgPool s;
                let s = upd_msgq msgQId (\<lambda>q. q\<lparr>mqOptions := uint options, mqMaxMsg := maxMsg,
                  mqMaxMsgLength := maxMsgLength\<rparr>) s;
                Some (OK, objCoreInit (MsgQObj msgQId) MsgQClass s)
              })"

text \<open>\<open>pMem\<close> is the memory allocated for the object and its pool; the pool begins after the object.\<close>

definition msgQCreate ::
  "kenv \<Rightarrow> nat \<Rightarrow> STATUS \<Rightarrow> ptr \<Rightarrow> int \<Rightarrow> u32 \<Rightarrow> u32 \<Rightarrow> kstate \<Rightarrow> (ptr \<times> kstate) option" where
  "msgQCreate e n junk pMem maxMsg maxMsgLength options s =
     (if INT_RESTRICT s \<noteq> OK then Some (NULL, errnoSet S_intLib_NOT_ISR_CALLABLE s)
      else if \<not> msgQLibInstalled s then Some (NULL, errnoSet S_msgQLib_NOT_INSTALLED s)
      else
        let sz = word_of_int maxMsg * MSG_NODE_SIZE maxMsgLength;
            ((msgQId, pPool), s) = objAllocPad MsgQClass sz pMem s
        in if msgQId = NULL then Some (NULL, s)
           else do {
             (st, s) \<leftarrow> msgQInit e n junk msgQId maxMsg maxMsgLength options pPool s;
             if st \<noteq> OK then Some (NULL, snd (objFree MsgQClass s)) else Some (msgQId, s)
           })"

definition INT_CONTEXT :: "kstate \<Rightarrow> bool" where
  "INT_CONTEXT s \<longleftrightarrow> 0 < intCnt s"

text \<open>\<open>if (INT_CONTEXT() == FALSE) taskUnlock();\<close>\<close>

definition unlock_in_task :: "kenv \<Rightarrow> nat \<Rightarrow> kstate \<Rightarrow> kstate option" where
  "unlock_in_task e n s = (if INT_CONTEXT s then Some s else map_option snd (taskUnlock e n s))"

text \<open>
  A call without a node: after a timeout \<open>OBJ_VERIFY(msgQId, msgQClassId) == OK\<close> decides whether the timeout
  is counted or \<open>errno\<close> becomes \<open>S_objLib_DELETED\<close>.
\<close>

definition no_node :: "ptr \<Rightarrow> kstate \<Rightarrow> kstate" where
  "no_node msgQId s =
     (if errno s = S_objLib_TIMEOUT
      then case MSG_VERIFY_eq_OK msgQId s of (eq, s) \<Rightarrow>
        if eq \<noteq> 0 then upd_msgq msgQId (\<lambda>q. q\<lparr>mqSendTimeouts := mqSendTimeouts q + 1\<rparr>) s
        else errnoSet S_objLib_DELETED s
      else s)"

subsection \<open>Sending\<close>

text \<open>
  How a send or a receive ends: with a value, in \<open>qMsgGet\<close> waiting for a node, or in \<open>qMsgPut\<close> after which
  only \<open>taskUnlock\<close> is left to do before it returns the value.
\<close>

datatype 'a call_end = Done 'a | InGet | InPut 'a

text \<open>The part after \<open>qMsgPut\<close> has come back.\<close>

definition msgQSend_rest :: "kenv \<Rightarrow> nat \<Rightarrow> STATUS \<Rightarrow> kstate \<Rightarrow> (STATUS call_end \<times> kstate) option" where
  "msgQSend_rest e n status s = do {
     s \<leftarrow> unlock_in_task e n s;
     Some (Done (if status \<noteq> OK then ERROR else OK), s)
   }"

definition msgQSend_put ::
  "kenv \<Rightarrow> nat \<Rightarrow> STATUS \<Rightarrow> ptr \<Rightarrow> u8 list \<Rightarrow> u32 \<Rightarrow> u32 \<Rightarrow> ptr \<Rightarrow> kstate \<Rightarrow> (STATUS call_end \<times> kstate) option" where
  "msgQSend_put e n junk msgQId buffer nBytes priority pMsg s = do {
     let s = upd_node pMsg (\<lambda>p. p\<lparr>mnLength := nBytes, mnData := take (unat nBytes) buffer\<rparr>) s;
     (r, s) \<leftarrow> qMsgPut e n junk msgQId (MsgQ msgQId) pMsg priority s;
     case r of
       Blocks \<Rightarrow> Some (InPut OK, s)
     | Returns status \<Rightarrow> msgQSend_rest e n status s
   }"

text \<open>What follows \<open>qMsgGet\<close> on the free queue; \<open>again\<close> is the next round.\<close>

definition msgQSend_got ::
  "kenv \<Rightarrow> nat \<Rightarrow> STATUS \<Rightarrow> ptr \<Rightarrow> u8 list \<Rightarrow> u32 \<Rightarrow> u32 \<Rightarrow> (kstate \<Rightarrow> (STATUS call_end \<times> kstate) option) \<Rightarrow>
    got_node \<Rightarrow> kstate \<Rightarrow> (STATUS call_end \<times> kstate) option" where
  "msgQSend_got e n junk msgQId buffer nBytes priority again g s =
     (case g of
        GNone \<Rightarrow> again s
      | GNull \<Rightarrow> do { s \<leftarrow> unlock_in_task e n (no_node msgQId s); Some (Done ERROR, s) }
      | GNode pMsg \<Rightarrow> msgQSend_put e n junk msgQId buffer nBytes priority pMsg s)"

primrec msgQSend_loop ::
  "kenv \<Rightarrow> nat \<Rightarrow> STATUS \<Rightarrow> nat \<Rightarrow> ptr \<Rightarrow> u8 list \<Rightarrow> u32 \<Rightarrow> u32 \<Rightarrow> u32 \<Rightarrow> kstate \<Rightarrow>
    (STATUS call_end \<times> kstate) option" where
  "msgQSend_loop e n junk 0 msgQId buffer nBytes timeout priority s = None"
| "msgQSend_loop e n junk (Suc m) msgQId buffer nBytes timeout priority s =
     (case MSG_VERIFY_ne_OK msgQId s of (bad, s) \<Rightarrow>
        if bad \<noteq> 0 then do { s \<leftarrow> unlock_in_task e n s; Some (Done ERROR, s) }
        else if nBytes > mqMaxMsgLength (msgqs s msgQId)
        then do {
          s \<leftarrow> unlock_in_task e n (errnoSet S_msgQLib_INVALID_MSG_LENGTH s);
          Some (Done ERROR, s)
        }
        else do {
          (r, s) \<leftarrow> qMsgGet e n m msgQId (FreeQ msgQId) timeout s;
          case r of
            Blocks \<Rightarrow> Some (InGet, s)
          | Returns g \<Rightarrow> msgQSend_got e n junk msgQId buffer nBytes priority
              (msgQSend_loop e n junk m msgQId buffer nBytes timeout priority) g s
        })"

definition msgQSend ::
  "kenv \<Rightarrow> nat \<Rightarrow> STATUS \<Rightarrow> nat \<Rightarrow> ptr \<Rightarrow> u8 list \<Rightarrow> u32 \<Rightarrow> u32 \<Rightarrow> u32 \<Rightarrow> kstate \<Rightarrow>
    (STATUS call_end \<times> kstate) option" where
  "msgQSend e n junk m msgQId buffer nBytes timeout priority s =
     (if \<not> INT_CONTEXT s
      then msgQSend_loop e n junk m msgQId buffer nBytes timeout priority (snd (taskLock s))
      else if timeout \<noteq> WAIT_NONE then Some (Done ERROR, errnoSet S_msgQLib_INVALID_TIMEOUT s)
      else msgQSend_loop e n junk m msgQId buffer nBytes timeout priority s)"

text \<open>A send that waited for a free node goes on when its task is dispatched again.\<close>

definition msgQSend_resume ::
  "kenv \<Rightarrow> nat \<Rightarrow> STATUS \<Rightarrow> nat \<Rightarrow> ptr \<Rightarrow> u8 list \<Rightarrow> u32 \<Rightarrow> u32 \<Rightarrow> u32 \<Rightarrow> STATUS \<Rightarrow> kstate \<Rightarrow>
    (STATUS call_end \<times> kstate) option" where
  "msgQSend_resume e n junk m msgQId buffer nBytes timeout priority v s = do {
     (r, s) \<leftarrow> qMsgGet_resume e n m msgQId (FreeQ msgQId) timeout v s;
     case r of
       Blocks \<Rightarrow> Some (InGet, s)
     | Returns g \<Rightarrow> msgQSend_got e n junk msgQId buffer nBytes priority
         (msgQSend_loop e n junk m msgQId buffer nBytes timeout priority) g s
   }"

subsection \<open>Receiving\<close>

definition msgQReceive_rest :: "kenv \<Rightarrow> nat \<Rightarrow> int \<times> u8 list \<Rightarrow> kstate \<Rightarrow> ((int \<times> u8 list) call_end \<times> kstate) option"
where
  "msgQReceive_rest e n result s = do { (st, s) \<leftarrow> taskUnlock e n s; Some (Done result, s) }"

definition msgQReceive_put ::
  "kenv \<Rightarrow> nat \<Rightarrow> STATUS \<Rightarrow> ptr \<Rightarrow> u32 \<Rightarrow> ptr \<Rightarrow> kstate \<Rightarrow> ((int \<times> u8 list) call_end \<times> kstate) option" where
  "msgQReceive_put e n junk msgQId maxBytes pMsg s = do {
     let len = min (mnLength (msgNodes s pMsg)) maxBytes;
     let result = (sint len, take (unat len) (mnData (msgNodes s pMsg)));
     (r, s) \<leftarrow> qMsgPut e n junk msgQId (FreeQ msgQId) pMsg 1 s;
     case r of
       Blocks \<Rightarrow> Some (InPut result, s)
     | Returns status \<Rightarrow> msgQReceive_rest e n result s
   }"

definition msgQReceive_got ::
  "kenv \<Rightarrow> nat \<Rightarrow> STATUS \<Rightarrow> ptr \<Rightarrow> u32 \<Rightarrow> (kstate \<Rightarrow> ((int \<times> u8 list) call_end \<times> kstate) option) \<Rightarrow>
    got_node \<Rightarrow> kstate \<Rightarrow> ((int \<times> u8 list) call_end \<times> kstate) option" where
  "msgQReceive_got e n junk msgQId maxBytes again g s =
     (case g of
        GNone \<Rightarrow> again s
      | GNull \<Rightarrow> do { (st, s) \<leftarrow> taskUnlock e n (no_node msgQId s); Some (Done (ERROR, []), s) }
      | GNode pMsg \<Rightarrow> msgQReceive_put e n junk msgQId maxBytes pMsg s)"

primrec msgQReceive_loop ::
  "kenv \<Rightarrow> nat \<Rightarrow> STATUS \<Rightarrow> nat \<Rightarrow> ptr \<Rightarrow> u32 \<Rightarrow> u32 \<Rightarrow> kstate \<Rightarrow>
    ((int \<times> u8 list) call_end \<times> kstate) option" where
  "msgQReceive_loop e n junk 0 msgQId maxBytes timeout s = None"
| "msgQReceive_loop e n junk (Suc m) msgQId maxBytes timeout s =
     (case MSG_VERIFY_ne_OK msgQId s of (bad, s) \<Rightarrow>
        if bad \<noteq> 0 then do { (st, s) \<leftarrow> taskUnlock e n s; Some (Done (ERROR, []), s) }
        else do {
          (r, s) \<leftarrow> qMsgGet e n m msgQId (MsgQ msgQId) timeout s;
          case r of
            Blocks \<Rightarrow> Some (InGet, s)
          | Returns g \<Rightarrow> msgQReceive_got e n junk msgQId maxBytes
              (msgQReceive_loop e n junk m msgQId maxBytes timeout) g s
        })"

text \<open>From an interrupt the call fails, but it has locked preemption for the interrupted task by then.\<close>

definition msgQReceive ::
  "kenv \<Rightarrow> nat \<Rightarrow> STATUS \<Rightarrow> nat \<Rightarrow> ptr \<Rightarrow> u32 \<Rightarrow> u32 \<Rightarrow> kstate \<Rightarrow>
    ((int \<times> u8 list) call_end \<times> kstate) option" where
  "msgQReceive e n junk m msgQId maxBytes timeout s =
     (if INT_RESTRICT s \<noteq> OK
      then Some (Done (ERROR, []), snd (taskLock (errnoSet S_intLib_NOT_ISR_CALLABLE s)))
      else msgQReceive_loop e n junk m msgQId maxBytes timeout (snd (taskLock s)))"

definition msgQReceive_resume ::
  "kenv \<Rightarrow> nat \<Rightarrow> STATUS \<Rightarrow> nat \<Rightarrow> ptr \<Rightarrow> u32 \<Rightarrow> u32 \<Rightarrow> STATUS \<Rightarrow> kstate \<Rightarrow>
    ((int \<times> u8 list) call_end \<times> kstate) option" where
  "msgQReceive_resume e n junk m msgQId maxBytes timeout v s = do {
     (r, s) \<leftarrow> qMsgGet_resume e n m msgQId (MsgQ msgQId) timeout v s;
     case r of
       Blocks \<Rightarrow> Some (InGet, s)
     | Returns g \<Rightarrow> msgQReceive_got e n junk msgQId maxBytes
         (msgQReceive_loop e n junk m msgQId maxBytes timeout) g s
   }"

definition msgQNumMsgs :: "ptr \<Rightarrow> kstate \<Rightarrow> int \<times> kstate" where
  "msgQNumMsgs msgQId s =
     (case MSG_VERIFY_ne_OK msgQId s of (bad, s) \<Rightarrow>
        (if bad \<noteq> 0 then ERROR else qmCount (qmsgs s (MsgQ msgQId)), s))"

subsection \<open>Destroying a message queue\<close>

text \<open>
  \<open>msgQDestroy\<close> collects all nodes before it ends the queues, so that it waits for those in use. The place
  where the call goes on: in the loop over the free nodes or over the messages, with the number of nodes
  found and the timeout, or after \<open>vmxExit\<close>.
\<close>

datatype drain_pc = DrainFree int u32 | DrainMsg int u32 | DrainEnd

definition drain_head :: "ptr \<Rightarrow> drain_pc \<Rightarrow> qref" where
  "drain_head msgQId pc = (case pc of DrainFree _ _ \<Rightarrow> FreeQ msgQId | _ \<Rightarrow> MsgQ msgQId)"

definition drain_timeout :: "drain_pc \<Rightarrow> u32" where
  "drain_timeout pc = (case pc of DrainFree _ t \<Rightarrow> t | DrainMsg _ t \<Rightarrow> t | DrainEnd \<Rightarrow> WAIT_NONE)"

definition drain_next :: "ptr \<Rightarrow> got_node \<Rightarrow> drain_pc \<Rightarrow> kstate \<Rightarrow> drain_pc" where
  "drain_next msgQId g pc s =
     (case (pc, g) of
        (DrainFree nMsg timeout, GNode p) \<Rightarrow> DrainFree (nMsg + 1) timeout
      | (DrainFree nMsg timeout, _) \<Rightarrow> DrainMsg nMsg timeout
      | (DrainMsg nMsg timeout, GNode p) \<Rightarrow> DrainMsg (nMsg + 1) timeout
      | (DrainMsg nMsg timeout, _) \<Rightarrow>
          (if nMsg < mqMaxMsg (msgqs s msgQId) then DrainFree nMsg 1 else DrainEnd)
      | (DrainEnd, _) \<Rightarrow> DrainEnd)"

text \<open>The loops up to a switch (then with the place they stand at) or to their end.\<close>

primrec drain_loop :: "kenv \<Rightarrow> nat \<Rightarrow> nat \<Rightarrow> ptr \<Rightarrow> drain_pc \<Rightarrow> kstate \<Rightarrow> (drain_pc \<times> kstate) option" where
  "drain_loop e n 0 msgQId pc s = None"
| "drain_loop e n (Suc m) msgQId pc s =
     (if pc = DrainEnd then Some (DrainEnd, s)
      else do {
        (r, s) \<leftarrow> qMsgGet e n m msgQId (drain_head msgQId pc) (drain_timeout pc) s;
        case r of
          Blocks \<Rightarrow> Some (pc, s)
        | Returns g \<Rightarrow> drain_loop e n m msgQId (drain_next msgQId g pc s) s
      })"

definition drain_resume ::
  "kenv \<Rightarrow> nat \<Rightarrow> nat \<Rightarrow> ptr \<Rightarrow> drain_pc \<Rightarrow> STATUS \<Rightarrow> kstate \<Rightarrow> (drain_pc \<times> kstate) option" where
  "drain_resume e n m msgQId pc v s = do {
     (r, s) \<leftarrow> qMsgGet_resume e n m msgQId (drain_head msgQId pc) (drain_timeout pc) v s;
     case r of
       Blocks \<Rightarrow> Some (pc, s)
     | Returns g \<Rightarrow> drain_loop e n m msgQId (drain_next msgQId g pc s) s
   }"

definition msgQDestroy_rest :: "kenv \<Rightarrow> nat \<Rightarrow> bool \<Rightarrow> kstate \<Rightarrow> (STATUS \<times> kstate) option" where
  "msgQDestroy_rest e n deallocate s =
     (let s = (if deallocate then snd (objFree MsgQClass s) else s)
      in do { (st, s) \<leftarrow> taskUnsafe e n s; Some (OK, s) })"

definition msgQDestroy_end :: "kenv \<Rightarrow> nat \<Rightarrow> ptr \<Rightarrow> int \<Rightarrow> bool \<Rightarrow> kstate \<Rightarrow> (STATUS after \<times> kstate) option" where
  "msgQDestroy_end e n msgQId errnoCopy deallocate s = do {
     (r, s) \<leftarrow> through_kernel e n
       (\<lambda>s. do {
          (st, s) \<leftarrow> qMsgTerminate (MsgQ msgQId) s;
          (st, s) \<leftarrow> qMsgTerminate (FreeQ msgQId) s;
          Some s
        }) (errnoSet errnoCopy s);
     case r of
       Blocks \<Rightarrow> Some (Blocks, s)
     | Returns v \<Rightarrow> do { (st, s) \<leftarrow> msgQDestroy_rest e n deallocate s; Some (Returns st, s) }
   }"

text \<open>The call from \<open>taskUnlock\<close> on; it blocks while a node is missing.\<close>

definition msgQDestroy_drain ::
  "kenv \<Rightarrow> nat \<Rightarrow> nat \<Rightarrow> ptr \<Rightarrow> bool \<Rightarrow> kstate \<Rightarrow> (STATUS after \<times> kstate) option" where
  "msgQDestroy_drain e n m msgQId deallocate s = do {
     let errnoCopy = errno s;
     (pc, s) \<leftarrow> drain_loop e n m msgQId
       (if 0 < mqMaxMsg (msgqs s msgQId) then DrainFree 0 WAIT_NONE else DrainEnd) s;
     if pc \<noteq> DrainEnd then Some (Blocks, s) else msgQDestroy_end e n msgQId errnoCopy deallocate s
   }"

definition msgQDestroy ::
  "kenv \<Rightarrow> nat \<Rightarrow> nat \<Rightarrow> ptr \<Rightarrow> bool \<Rightarrow> kstate \<Rightarrow> (STATUS after \<times> kstate) option" where
  "msgQDestroy e n m msgQId deallocate s =
     (if INT_RESTRICT s \<noteq> OK then Some (Returns ERROR, errnoSet S_intLib_NOT_ISR_CALLABLE s)
      else
        let s = snd (taskLock (snd (taskSafe s)))
        in case MSG_VERIFY_ne_OK msgQId s of (bad, s) \<Rightarrow>
          if bad \<noteq> 0
          then do { (st, s) \<leftarrow> taskUnlock e n s; (st, s) \<leftarrow> taskUnsafe e n s; Some (Returns ERROR, s) }
          else do {
            s \<leftarrow> objCoreTerminate (MsgQObj msgQId) s;
            (r, s) \<leftarrow> taskUnlock_run e n s;
            case r of
              Blocks \<Rightarrow> Some (Blocks, s)
            | Returns v \<Rightarrow> msgQDestroy_drain e n m msgQId deallocate s
          })"

text \<open>\<open>msgQDelete\<close> passes \<open>FALSE\<close> as \<open>msgQTerminate\<close> does: the memory is not given back.\<close>

definition msgQTerminate :: "kenv \<Rightarrow> nat \<Rightarrow> nat \<Rightarrow> ptr \<Rightarrow> kstate \<Rightarrow> (STATUS after \<times> kstate) option" where
  "msgQTerminate e n m msgQId s = msgQDestroy e n m msgQId False s"

definition msgQDelete :: "kenv \<Rightarrow> nat \<Rightarrow> nat \<Rightarrow> ptr \<Rightarrow> kstate \<Rightarrow> (STATUS after \<times> kstate) option" where
  "msgQDelete e n m msgQId s = msgQDestroy e n m msgQId False s"

end
