(* ===== verification/MsgQProps.thy ===== *)
theory MsgQProps
  imports MsgQLib
begin

text \<open>
  Message queues against a bounded list of messages. The calls are made by the running task; the nodes of a
  queue are those of a chain in \<open>msgNodes\<close>, and the two chains of a message queue hold all its nodes.
\<close>

subsection \<open>Frames\<close>

lemma msg_reads [kernel_simps]:
  "qmsgs (upd_qmsg h f s) h' = (if h' = h then f (qmsgs s h) else qmsgs s h')"
  "msgNodes (upd_qmsg h f s) = msgNodes s" "msgqs (upd_qmsg h f s) = msgqs s"
  "qmsgs (upd_node p g s) = qmsgs s" "msgqs (upd_node p g s) = msgqs s"
  "msgNodes (upd_node p g s) p' = (if p' = p then g (msgNodes s p) else msgNodes s p')"
  "qmsgs (upd_tcb t k s) = qmsgs s" "msgNodes (upd_tcb t k s) = msgNodes s" "msgqs (upd_tcb t k s) = msgqs s"
  "qmsgs (errnoSet v s) = qmsgs s" "msgNodes (errnoSet v s) = msgNodes s" "msgqs (errnoSet v s) = msgqs s"
  by (simp_all add: upd_qmsg_def upd_node_def upd_tcb_def errnoSet_def)

text \<open>A state that differs in the queues of messages and \<open>errno\<close> only.\<close>

definition msg_only :: "kstate \<Rightarrow> kstate \<Rightarrow> bool" where
  "msg_only s s' \<longleftrightarrow> s'\<lparr>qmsgs := qmsgs s, msgNodes := msgNodes s, errno := errno s\<rparr> = s"

lemma msg_only_refl [simp]: "msg_only s s"
  by (simp add: msg_only_def)

lemma msg_only_trans:
  assumes "msg_only s s1" and "msg_only s1 s2"
  shows "msg_only s s2"
proof -
  have "s2\<lparr>qmsgs := qmsgs s, msgNodes := msgNodes s, errno := errno s\<rparr> =
      s2\<lparr>qmsgs := qmsgs s1, msgNodes := msgNodes s1, errno := errno s1\<rparr>
        \<lparr>qmsgs := qmsgs s, msgNodes := msgNodes s, errno := errno s\<rparr>" by simp
  also have "\<dots> = s" using assms by (simp only: msg_only_def)
  finally show ?thesis by (simp add: msg_only_def)
qed

lemma msg_only_updates [simp]:
  "msg_only s (upd_qmsg h f s') = msg_only s s'" "msg_only s (upd_node p g s') = msg_only s s'"
  "msg_only s (errnoSet v s') = msg_only s s'"
  by (simp_all add: msg_only_def upd_qmsg_def upd_node_def errnoSet_def)

lemma msg_only_reads:
  assumes "msg_only s s'"
  shows "pendQs s' = pendQs s" "tcbs s' = tcbs s" "taskIdCurrent s' = taskIdCurrent s" "readyQ s' = readyQ s"
    "kernelState s' = kernelState s" "intCnt s' = intCnt s" "msgqs s' = msgqs s" "workQ s' = workQ s"
    "activeQ s' = activeQ s" "tickQ s' = tickQ s" "wdogs s' = wdogs s" "sysTicks s' = sysTicks s"
    "sysAbsTicks s' = sysAbsTicks s" "pendFirst r s' = pendFirst r s"
  using arg_cong [OF assms [unfolded msg_only_def], of pendQs]
    arg_cong [OF assms [unfolded msg_only_def], of tcbs]
    arg_cong [OF assms [unfolded msg_only_def], of taskIdCurrent]
    arg_cong [OF assms [unfolded msg_only_def], of readyQ]
    arg_cong [OF assms [unfolded msg_only_def], of kernelState]
    arg_cong [OF assms [unfolded msg_only_def], of intCnt]
    arg_cong [OF assms [unfolded msg_only_def], of msgqs]
    arg_cong [OF assms [unfolded msg_only_def], of workQ]
    arg_cong [OF assms [unfolded msg_only_def], of activeQ]
    arg_cong [OF assms [unfolded msg_only_def], of tickQ]
    arg_cong [OF assms [unfolded msg_only_def], of wdogs]
    arg_cong [OF assms [unfolded msg_only_def], of sysTicks]
    arg_cong [OF assms [unfolded msg_only_def], of sysAbsTicks]
  by (simp_all add: pendFirst_def)

text \<open>The running task is the most urgent one and nobody waits to delete it: leaving the kernel changes nothing.\<close>

definition undisturbed :: "kenv \<Rightarrow> kstate \<Rightarrow> bool" where
  "undisturbed e s \<longleftrightarrow> in_task e s \<and> taskIdCurrent s = readyFirst s \<and>
     pendFirst (SafetyQ (taskIdCurrent s)) s = NULL \<and> tLockCount (tcbs s (taskIdCurrent s)) \<noteq> - 1"

lemma undisturbed_msg: "msg_only s s' \<Longrightarrow> undisturbed e s' = undisturbed e s"
  using kok_parts [of s' s]
  by (auto simp: undisturbed_def in_task_def msg_only_reads live_def readyFirst_def)

lemma lock_unlock:
  assumes "undisturbed e s"
  shows "taskUnlock e (Suc n) (snd (taskLock s)) = Some (OK, s)"
proof -
  let ?t = "taskIdCurrent s" and ?l = "\<lambda>c. c\<lparr>tLockCount := tLockCount c + 1 - 1\<rparr>"
  note u = assms [unfolded undisturbed_def]
  have b: "upd_tcb ?t (\<lambda>c. c\<lparr>tLockCount := tLockCount c - 1\<rparr>) (snd (taskLock s)) = s"
    by (simp add: taskLock_def upd_tcb_def)
  have p: "0 < tLockCount (tcbs (snd (taskLock s)) ?t)"
    using conjunct2 [OF conjunct2 [OF conjunct2 [OF u]]]
    by (simp add: taskLock_def kernel_simps word_greater_zero_iff add_eq_0_iff2)
  have c: "taskIdCurrent (snd (taskLock s)) = ?t" by (simp add: taskLock_def kernel_simps)
  have "through_kernel e (Suc n) (flush_if (SafetyQ ?t)) s = Some (exited (s\<lparr>kernelState := True\<rparr>))"
    using u by (intro through_kernel_plain [where work = "flush_if (SafetyQ ?t)"])
      (auto simp: flush_if_def kernel_simps)
  also have "exited (s\<lparr>kernelState := True\<rparr>) = (Returns OK, s)"
    using u by (simp add: exited_def stays_def in_task_def)
  finally show ?thesis using b p unfolding taskUnlock_def taskUnlock_run_def Let_def c by simp
qed

lemma locked_commute:
  "upd_qmsg h f (snd (taskLock s)) = snd (taskLock (upd_qmsg h f s))"
  "upd_node p g (snd (taskLock s)) = snd (taskLock (upd_node p g s))"
  "errnoSet v (snd (taskLock s)) = snd (taskLock (errnoSet v s))"
  by (simp_all add: upd_qmsg_def upd_node_def errnoSet_def taskLock_def upd_tcb_def)

lemma locked_reads [simp]:
  "qmsgs (snd (taskLock s)) = qmsgs s" "msgNodes (snd (taskLock s)) = msgNodes s" "msgqs (snd (taskLock s)) = msgqs s"
  "pendFirst r (snd (taskLock s)) = pendFirst r s" "kernelState (snd (taskLock s)) = kernelState s"
  "intCnt (snd (taskLock s)) = intCnt s" "taskIdCurrent (snd (taskLock s)) = taskIdCurrent s"
  by (simp_all add: taskLock_def kernel_simps pendFirst_def)

lemma qMsg_link_locked: "qMsg_link h p k (snd (taskLock s)) = snd (taskLock (qMsg_link h p k s))"
  by (simp add: qMsg_link_def Let_def locked_commute kernel_simps)

lemma qMsg_unlink_locked: "qMsg_unlink h p (snd (taskLock s)) = snd (taskLock (qMsg_unlink h p s))"
  by (simp add: qMsg_unlink_def locked_commute)

subsection \<open>Chains of nodes\<close>

primrec chain :: "(ptr \<Rightarrow> MSG_NODE) \<Rightarrow> ptr \<Rightarrow> ptr list \<Rightarrow> bool" where
  "chain nodes p [] \<longleftrightarrow> p = NULL"
| "chain nodes p (x # xs) \<longleftrightarrow> p = x \<and> x \<noteq> NULL \<and> chain nodes (mnNext (nodes x)) xs"

lemma chain_other [simp]: "x \<notin> set ns \<Longrightarrow> chain (nodes(x := v)) p ns = chain nodes p ns"
  by (induction ns arbitrary: p) auto

lemma chain_next_only: "(\<And>x. mnNext (nodes' x) = mnNext (nodes x)) \<Longrightarrow> chain nodes' p ns = chain nodes p ns"
  by (induction ns arbitrary: p) auto

lemma chain_data [simp]:
  "mnNext v = mnNext (nodes x) \<Longrightarrow> chain (nodes(x := v)) p ns = chain nodes p ns"
  by (rule chain_next_only) simp

lemma chain_head: "chain nodes p ns \<Longrightarrow> p = (if ns = [] then NULL else hd ns)"
  by (cases ns) auto

lemma chain_snoc:
  "chain nodes p ns \<Longrightarrow> distinct ns \<Longrightarrow> ns \<noteq> [] \<Longrightarrow> x \<notin> set ns \<Longrightarrow> x \<noteq> NULL \<Longrightarrow> mnNext (nodes x) = NULL \<Longrightarrow>
   mnNext v = x \<Longrightarrow> chain (nodes(last ns := v)) p (ns @ [x])"
proof (induction ns arbitrary: p)
  case (Cons y ys)
  then show ?case by (cases "ys = []") auto
qed simp

definition holds :: "qref \<Rightarrow> ptr list \<Rightarrow> kstate \<Rightarrow> bool" where
  "holds h ns s \<longleftrightarrow> chain (msgNodes s) (qmFirst (qmsgs s h)) ns \<and> distinct ns \<and>
     (ns \<noteq> [] \<longrightarrow> qmLast (qmsgs s h) = last ns) \<and> qmCount (qmsgs s h) = int (length ns)"

lemma holds_first: "holds h ns s \<Longrightarrow> qmFirst (qmsgs s h) = (if ns = [] then NULL else hd ns)"
  using chain_head [of "msgNodes s" "qmFirst (qmsgs s h)" ns] by (simp add: holds_def)

lemma holds_node: "holds h ns s \<Longrightarrow> p \<in> set ns \<Longrightarrow> p \<noteq> NULL"
proof -
  have "chain nodes q ns \<Longrightarrow> p \<in> set ns \<Longrightarrow> p \<noteq> NULL" for nodes q
    by (induction ns arbitrary: q) auto
  then show "holds h ns s \<Longrightarrow> p \<in> set ns \<Longrightarrow> p \<noteq> NULL" by (auto simp: holds_def)
qed

text \<open>Linking puts the node at the end that the key says, unlinking takes the first one, and the data stay.\<close>

definition insert_node :: "u32 \<Rightarrow> 'a \<Rightarrow> 'a list \<Rightarrow> 'a list" where
  "insert_node key p ns = (if key = 0 then ns @ [p] else p # ns)"

lemma set_insert_node [simp]: "set (insert_node key p ns) = insert p (set ns)"
  and length_insert_node [simp]: "length (insert_node key p ns) = Suc (length ns)"
  and map_insert_node: "map f (insert_node key p ns) = insert_node key (f p) (map f ns)"
  by (auto simp: insert_node_def)

lemma link_holds:
  assumes "holds h ns s" and "p \<notin> set ns" and "p \<noteq> NULL"
  shows "holds h (insert_node key p ns) (qMsg_link h p key s)"
proof (cases "key = 0")
  case k: True
  show ?thesis
  proof (cases "ns = []")
    case True
    then show ?thesis using assms k
      by (simp add: holds_def insert_node_def qMsg_link_def Let_def kernel_simps)
  next
    case False
    then have l: "last ns \<in> set ns" "last ns \<noteq> p" using assms(2) by auto
    let ?nodes = "msgNodes (upd_node p (\<lambda>n. n\<lparr>mnNext := NULL\<rparr>) s)"
    have "chain ?nodes (qmFirst (qmsgs s h)) ns" using assms(1,2) by (simp add: holds_def upd_node_def)
    then have "chain (?nodes(last ns := (?nodes (last ns))\<lparr>mnNext := p\<rparr>)) (qmFirst (qmsgs s h)) (ns @ [p])"
      using assms False by (intro chain_snoc) (simp_all add: holds_def kernel_simps)
    then have "chain (msgNodes (qMsg_link h p key s)) (qmFirst (qmsgs s h)) (ns @ [p])"
      using assms False k holds_first [OF assms(1)] holds_node [OF assms(1), of "hd ns"]
      by (simp add: qMsg_link_def Let_def kernel_simps holds_def upd_node_def)
    then show ?thesis
      using assms False k holds_first [OF assms(1)] holds_node [OF assms(1), of "hd ns"]
      by (simp add: holds_def insert_node_def) (simp add: qMsg_link_def Let_def kernel_simps holds_def)
  qed
next
  case False
  have "ns \<noteq> [] \<Longrightarrow> hd ns \<noteq> NULL" using holds_node [OF assms(1), of "hd ns"] by simp
  then show ?thesis using False assms holds_first [OF assms(1)]
    by (auto simp: holds_def insert_node_def qMsg_link_def Let_def kernel_simps upd_node_def upd_qmsg_def)
qed

lemma link_other:
  assumes "holds h ns s" and "holds h' ms s" and "h' \<noteq> h" and "p \<notin> set ms" and "set ns \<inter> set ms = {}"
  shows "holds h' ms (qMsg_link h p key s)"
proof -
  have "ns \<noteq> [] \<Longrightarrow> qmLast (qmsgs s h) \<notin> set ms"
    using assms(1,5) last_in_set [of ns] by (auto simp: holds_def simp del: last_in_set)
  then show ?thesis using assms holds_first [OF assms(1)] 
    by (auto simp: holds_def qMsg_link_def Let_def kernel_simps upd_node_def upd_qmsg_def)
qed

lemma link_data [simp]:
  "mnData (msgNodes (qMsg_link h p key s) x) = mnData (msgNodes s x)"
  "mnLength (msgNodes (qMsg_link h p key s) x) = mnLength (msgNodes s x)"
  by (simp_all add: qMsg_link_def Let_def kernel_simps)

lemma unlink_holds: "holds h (p # ns) s \<Longrightarrow> holds h ns (qMsg_unlink h p s)"
  by (cases ns) (auto simp: holds_def qMsg_unlink_def kernel_simps)

lemma unlink_other: "holds h' ms s \<Longrightarrow> h' \<noteq> h \<Longrightarrow> holds h' ms (qMsg_unlink h p s)"
  by (simp add: holds_def qMsg_unlink_def kernel_simps)

lemma unlink_nodes [simp]: "msgNodes (qMsg_unlink h p s) = msgNodes s"
  by (simp add: qMsg_unlink_def kernel_simps)

lemma node_data_holds: "holds h ns (upd_node p (\<lambda>n. n\<lparr>mnLength := l, mnData := d\<rparr>) s) = holds h ns s"
  by (simp add: holds_def kernel_simps) (simp add: upd_node_def)

subsection \<open>The abstract message queue\<close>

definition contents :: "kstate \<Rightarrow> ptr list \<Rightarrow> u8 list list" where
  "contents s ms = map (\<lambda>p. mnData (msgNodes s p)) ms"

definition mq_rep :: "ptr \<Rightarrow> ptr list \<Rightarrow> ptr list \<Rightarrow> kstate \<Rightarrow> bool" where
  "mq_rep q ms fs s \<longleftrightarrow> mqIsMsgQ (msgqs s q) \<and> mqMaxMsgLength (msgqs s q) < 2 ^ 31 \<and>
     holds (MsgQ q) ms s \<and> holds (FreeQ q) fs s \<and> set ms \<inter> set fs = {} \<and>
     (\<forall>p\<in>set ms. length (mnData (msgNodes s p)) = unat (mnLength (msgNodes s p)) \<and>
       mnLength (msgNodes s p) \<le> mqMaxMsgLength (msgqs s q))"

text \<open>Nobody waits at either end of the queue.\<close>

definition no_waiters :: "ptr \<Rightarrow> kstate \<Rightarrow> bool" where
  "no_waiters q s \<longleftrightarrow> pendFirst (MsgQ q) s = NULL \<and> pendFirst (FreeQ q) s = NULL"

text \<open>Sending appends, or prepends an urgent message, while there is room; receiving takes the first one.\<close>

definition spec_send :: "nat \<Rightarrow> nat \<Rightarrow> u32 \<Rightarrow> u8 list \<Rightarrow> u8 list list \<Rightarrow> STATUS \<times> u8 list list" where
  "spec_send cap maxLength priority d xs =
     (if length d \<le> maxLength \<and> length xs < cap then (OK, insert_node priority d xs) else (ERROR, xs))"

definition spec_receive :: "nat \<Rightarrow> u8 list list \<Rightarrow> (int \<times> u8 list) \<times> u8 list list" where
  "spec_receive maxBytes xs =
     (case xs of [] \<Rightarrow> ((ERROR, []), []) | d # xs \<Rightarrow> ((int (min (length d) maxBytes), take maxBytes d), xs))"

lemma undisturbed_facts:
  assumes "undisturbed e s"
  shows "\<not> INT_CONTEXT s" "INT_RESTRICT s = OK" "\<not> kernelState s" "intCnt s = 0"
  using assms in_task_current [of e s] by (auto simp: undisturbed_def in_task_def INT_CONTEXT_def)

lemma msg_verify_ok:
  "mqIsMsgQ (msgqs s q) \<Longrightarrow> MSG_VERIFY_ne_OK q s = (OK, s)"
  by (simp add: MSG_VERIFY_ne_OK_def OBJ_VERIFY_ne_OK_def)

lemma unlock_in_task_locked:
  assumes "undisturbed e s"
  shows "unlock_in_task e (Suc n) (snd (taskLock s)) = Some s"
  using lock_unlock [OF assms] undisturbed_facts(4) [OF assms]
  by (simp add: unlock_in_task_def INT_CONTEXT_def)

lemma msg_only_link [simp]: "msg_only s (qMsg_link h p key s1) = msg_only s s1"
  by (simp add: qMsg_link_def Let_def)

lemma msg_only_unlink [simp]: "msg_only s (qMsg_unlink h p s1) = msg_only s s1"
  by (simp add: qMsg_unlink_def)

lemma no_node_other: "errno s \<noteq> S_objLib_TIMEOUT \<Longrightarrow> no_node q s = s"
  by (simp add: no_node_def)

lemma msgQSend_ok:
  assumes u: "undisturbed e s" and r: "mq_rep q ms fs s" and w: "no_waiters q s"
    and len: "length d = unat nBytes" and t: "fs \<noteq> [] \<or> timeout = WAIT_NONE"
  shows "\<exists>s' ms' fs'. msgQSend e (Suc n) junk (Suc (Suc m)) q d nBytes timeout priority s =
      Some (Done (fst (spec_send (length ms + length fs) (unat (mqMaxMsgLength (msgqs s q))) priority d
        (contents s ms))), s') \<and>
    msg_only s s' \<and> mq_rep q ms' fs' s' \<and> length ms' + length fs' = length ms + length fs \<and>
    contents s' ms' = snd (spec_send (length ms + length fs) (unat (mqMaxMsgLength (msgqs s q))) priority d
      (contents s ms))"
proof -
  let ?max = "mqMaxMsgLength (msgqs s q)" and ?l = "snd (taskLock s)"
  note f = undisturbed_facts [OF u]
  have v: "MSG_VERIFY_ne_OK q ?l = (OK, ?l)" using r by (simp add: msg_verify_ok mq_rep_def)
  have h: "holds (FreeQ q) fs s" "holds (MsgQ q) ms s" using r by (simp_all add: mq_rep_def)
  have sp: "spec_send (length ms + length fs) (unat ?max) priority d (contents s ms) =
      (if nBytes \<le> ?max \<and> fs \<noteq> [] then (OK, insert_node priority d (contents s ms)) else (ERROR, contents s ms))"
    by (simp add: spec_send_def len contents_def word_le_nat_alt)
  consider (long) "\<not> nBytes \<le> ?max" | (full) "nBytes \<le> ?max" "fs = []" | (put) p fs' where "nBytes \<le> ?max" "fs = p # fs'"
    by (cases fs) auto
  then show ?thesis
  proof cases
    case long
    let ?s = "errnoSet S_msgQLib_INVALID_MSG_LENGTH s"
    have "undisturbed e ?s" using u undisturbed_msg [of s ?s] by simp
    then have "msgQSend e (Suc n) junk (Suc (Suc m)) q d nBytes timeout priority s = Some (Done ERROR, ?s)"
      using long f v by (simp add: not_le msgQSend_def locked_commute unlock_in_task_locked)
    moreover have "mq_rep q ms fs ?s" "contents ?s ms = contents s ms"
      using r by (simp_all add: mq_rep_def holds_def kernel_simps contents_def)
    ultimately show ?thesis using sp long by (intro exI [of _ ?s] exI [of _ ms] exI [of _ fs]) simp
  next
    case full
    let ?s = "errnoSet S_msgQLib_INVALID_TIMEOUT s"
    have u': "undisturbed e ?s" using u undisturbed_msg [of s ?s] by simp
    have "errno ?s \<noteq> S_objLib_TIMEOUT" by (simp add: S_msgQLib_INVALID_TIMEOUT_def S_objLib_TIMEOUT_def)
    then have nn: "no_node q (snd (taskLock ?s)) = snd (taskLock ?s)"
      by (intro no_node_other) (simp add: taskLock_def upd_tcb_def)
    have "msgQSend e (Suc n) junk (Suc (Suc m)) q d nBytes timeout priority s = Some (Done ERROR, ?s)"
      using full t f v holds_first [OF h(1)] nn u'
      by (simp add: msgQSend_def msgQSend_got_def Let_def locked_commute unlock_in_task_locked)
    moreover have "mq_rep q ms fs ?s" "contents ?s ms = contents s ms"
      using r by (simp_all add: mq_rep_def holds_def kernel_simps contents_def)
    ultimately show ?thesis using sp full by (intro exI [of _ ?s] exI [of _ ms] exI [of _ fs]) simp
  next
    case put
    define s1 where "s1 = upd_node p (\<lambda>x. x\<lparr>mnLength := nBytes, mnData := d\<rparr>) (qMsg_unlink (FreeQ q) p s)"
    define s2 where "s2 = qMsg_link (MsgQ q) p priority s1"
    have only: "msg_only s s2" by (simp add: s2_def s1_def)
    have u': "undisturbed e s2" using u undisturbed_msg [OF only] by simp
    have p: "p \<noteq> NULL" "p \<notin> set ms" "p \<notin> set fs'" "distinct fs'"
      using h(1) holds_node [OF h(1)] r put(2) by (auto simp: mq_rep_def holds_def)
    have "pendFirst (MsgQ q) s2 = NULL" using w only by (simp add: no_waiters_def msg_only_reads)
    moreover have "\<not> kernelState s2" using f(3) only by (simp add: msg_only_reads)
    ultimately have "msgQSend e (Suc n) junk (Suc (Suc m)) q d nBytes timeout priority s = Some (Done OK, s2)"
      using put f v holds_first [OF h(1)] p(1) u' len
      by (simp add: msgQSend_def msgQSend_got_def msgQSend_put_def msgQSend_rest_def qMsgPut_def Let_def
          qMsg_link_locked qMsg_unlink_locked locked_commute unlock_in_task_locked s2_def s1_def)
    moreover have nd: "mnData (msgNodes s2 x) = (if x = p then d else mnData (msgNodes s x))"
        "mnLength (msgNodes s2 x) = (if x = p then nBytes else mnLength (msgNodes s x))" for x
      by (simp_all add: s2_def s1_def kernel_simps)
    moreover have "mq_rep q (insert_node priority p ms) fs' s2"
    proof -
      have a: "holds (MsgQ q) ms s1" "holds (FreeQ q) fs' s1"
        using h put(2) unlink_holds [of "FreeQ q" p fs' s] unlink_other [of "MsgQ q" ms s "FreeQ q" p]
        by (simp_all add: s1_def node_data_holds)
      have "holds (MsgQ q) (insert_node priority p ms) s2" "holds (FreeQ q) fs' s2"
        using link_holds [OF a(1)] link_other [OF a] p r put(2) by (auto simp: s2_def mq_rep_def)
      then show ?thesis using r p put only len nd by (auto simp: mq_rep_def msg_only_reads)
    qed
    moreover have "contents s2 (insert_node priority p ms) = insert_node priority d (contents s ms)"
    proof -
      have "map (\<lambda>x. mnData (msgNodes s2 x)) ms = map (\<lambda>x. mnData (msgNodes s x)) ms"
        using nd(1) p(2) by (intro map_cong) auto
      moreover have "mnData (msgNodes s2 p) = d" by (simp add: nd(1))
      ultimately show ?thesis unfolding contents_def map_insert_node by (simp only:)
    qed
    ultimately show ?thesis using sp put only
      by (intro exI [of _ s2] exI [of _ "insert_node priority p ms"] exI [of _ fs']) simp
  qed
qed

lemma msgQReceive_ok:
  assumes u: "undisturbed e s" and r: "mq_rep q ms fs s" and w: "no_waiters q s"
    and t: "ms \<noteq> [] \<or> timeout = WAIT_NONE"
  shows "\<exists>s' ms' fs'. msgQReceive e (Suc n) junk (Suc (Suc m)) q maxBytes timeout s =
      Some (Done (fst (spec_receive (unat maxBytes) (contents s ms))), s') \<and>
    msg_only s s' \<and> mq_rep q ms' fs' s' \<and> length ms' + length fs' = length ms + length fs \<and>
    contents s' ms' = snd (spec_receive (unat maxBytes) (contents s ms))"
proof -
  let ?l = "snd (taskLock s)"
  note f = undisturbed_facts [OF u]
  have v: "MSG_VERIFY_ne_OK q ?l = (OK, ?l)" using r by (simp add: msg_verify_ok mq_rep_def)
  have h: "holds (FreeQ q) fs s" "holds (MsgQ q) ms s" using r by (simp_all add: mq_rep_def)
  show ?thesis
  proof (cases ms)
    case Nil
    let ?s = "errnoSet S_msgQLib_INVALID_TIMEOUT s"
    have u': "undisturbed e ?s" using u undisturbed_msg [of s ?s] by simp
    have "errno ?s \<noteq> S_objLib_TIMEOUT" by (simp add: S_msgQLib_INVALID_TIMEOUT_def S_objLib_TIMEOUT_def)
    then have nn: "no_node q (snd (taskLock ?s)) = snd (taskLock ?s)"
      by (intro no_node_other) (simp add: taskLock_def upd_tcb_def)
    have "msgQReceive e (Suc n) junk (Suc (Suc m)) q maxBytes timeout s = Some (Done (ERROR, []), ?s)"
      using Nil t f v holds_first [OF h(2)] nn u'
      by (simp add: msgQReceive_def msgQReceive_got_def Let_def locked_commute lock_unlock)
    moreover have "mq_rep q [] fs ?s" using r Nil by (simp add: mq_rep_def holds_def kernel_simps)
    ultimately show ?thesis using Nil
      by (intro exI [of _ ?s] exI [of _ "[]"] exI [of _ fs]) (simp add: spec_receive_def contents_def)
  next
    case (Cons p ms')
    define s1 where "s1 = qMsg_unlink (MsgQ q) p s"
    define s2 where "s2 = qMsg_link (FreeQ q) p 1 s1"
    define len where "len = min (mnLength (msgNodes s p)) maxBytes"
    have only: "msg_only s s2" by (simp add: s2_def s1_def)
    have u': "undisturbed e s2" using u undisturbed_msg [OF only] by simp
    have p: "p \<noteq> NULL" "p \<notin> set ms'" "p \<notin> set fs" "distinct ms'"
      using h holds_node [OF h(2)] r Cons by (auto simp: mq_rep_def holds_def)
    have nd: "mnData (msgNodes s2 x) = mnData (msgNodes s x)" "mnLength (msgNodes s2 x) = mnLength (msgNodes s x)" for x
      by (simp_all add: s2_def s1_def)
    have ml: "unat (mnLength (msgNodes s p)) < 2 ^ 31" "length (mnData (msgNodes s p)) = unat (mnLength (msgNodes s p))"
    proof -
      have "mnLength (msgNodes s p) < 2 ^ 31" using r Cons by (auto simp: mq_rep_def)
      then show "unat (mnLength (msgNodes s p)) < 2 ^ 31" by (simp add: word_less_nat_alt)
      show "length (mnData (msgNodes s p)) = unat (mnLength (msgNodes s p))" using r Cons by (simp add: mq_rep_def)
    qed
    have ul: "unat len = min (unat (mnLength (msgNodes s p))) (unat maxBytes)"
      by (simp add: len_def min_def word_le_nat_alt)
    have "uint len < 2 ^ 31" using ul ml(1) by (simp add: uint_nat)
    moreover have "0 \<le> uint len" by simp
    ultimately have "signed_take_bit 31 (uint len) = uint len"
      by (intro signed_take_bit_int_eq_self) linarith+
    then have "sint len = uint len" by (simp add: sint_uint)
    then have res: "(sint len, take (unat len) (mnData (msgNodes s p))) =
        (int (min (length (mnData (msgNodes s p))) (unat maxBytes)), take (unat maxBytes) (mnData (msgNodes s p)))"
      using ul ml by (simp add: uint_nat min_def)
    have "pendFirst (FreeQ q) s2 = NULL" using w only by (simp add: no_waiters_def msg_only_reads)
    moreover have "\<not> kernelState s2" using f(3) only by (simp add: msg_only_reads)
    ultimately have "msgQReceive e (Suc n) junk (Suc (Suc m)) q maxBytes timeout s =
        Some (Done (sint len, take (unat len) (mnData (msgNodes s p))), s2)"
      using Cons f v holds_first [OF h(2)] p(1) u'
      by (simp add: msgQReceive_def msgQReceive_got_def msgQReceive_put_def msgQReceive_rest_def qMsgPut_def Let_def
          qMsg_link_locked qMsg_unlink_locked lock_unlock s2_def s1_def len_def)
    moreover have "mq_rep q ms' (p # fs) s2"
    proof -
      have a: "holds (MsgQ q) ms' s1" "holds (FreeQ q) fs s1"
        using h Cons unlink_holds [of "MsgQ q" p ms' s] unlink_other [of "FreeQ q" fs s "MsgQ q" p]
        by (simp_all add: s1_def)
      have "holds (FreeQ q) (p # fs) s2" "holds (MsgQ q) ms' s2"
        using link_holds [OF a(2), of p 1] link_other [OF a(2,1), of p 1] p r Cons
        by (auto simp: s2_def mq_rep_def insert_node_def)
      then show ?thesis using r p Cons only nd by (auto simp: mq_rep_def msg_only_reads)
    qed
    moreover have "contents s2 ms' = map (\<lambda>x. mnData (msgNodes s x)) ms'"
      by (simp add: contents_def nd)
    ultimately show ?thesis using Cons only
      by (intro exI [of _ s2] exI [of _ ms'] exI [of _ "p # fs"]) (simp add: spec_receive_def contents_def res)
  qed
qed

subsection \<open>Initialising a message queue\<close>

lemma qMsgPut_quiet:
  assumes "\<not> kernelState s" and "pendFirst h s = NULL"
  shows "qMsgPut e n junk q h p key s = Some (Returns OK, qMsg_link h p key s)"
proof -
  have m: "msg_only s (qMsg_link h p key s)" by simp
  show ?thesis using assms by (simp add: qMsgPut_def Let_def msg_only_reads [OF m])
qed

lemma fill_free_ok:
  assumes "\<not> kernelState s" and "pendFirst (FreeQ q) s = NULL" and "holds (FreeQ q) ns s" and "holds (MsgQ q) [] s"
    and "\<forall>p\<in>set ns. p < pool" and "pool \<noteq> NULL" and "0 < nodeSize"
  shows "\<exists>s' ns'. fill_free e n junk q nodeSize k pool s = Some s' \<and> msg_only s s' \<and> holds (FreeQ q) ns' s' \<and>
    holds (MsgQ q) [] s' \<and> length ns' = length ns + k"
  using assms
proof (induction k arbitrary: pool s ns)
  case 0
  then show ?case by (intro exI [of _ s] exI [of _ ns]) simp
next
  case (Suc k)
  let ?s = "qMsg_link (FreeQ q) pool 1 s"
  have m: "msg_only s ?s" by simp
  have "holds (FreeQ q) (pool # ns) ?s" "holds (MsgQ q) [] ?s"
    using link_holds [of "FreeQ q" ns s pool 1] link_other [of "FreeQ q" ns s "MsgQ q" "[]" pool 1] Suc.prems(3-6)
    by (auto simp: insert_node_def)
  moreover have "\<forall>p\<in>set (pool # ns). p < pool + nodeSize" using Suc.prems(5,7) by auto
  ultimately obtain s' ns' where "fill_free e n junk q nodeSize k (pool + nodeSize) ?s = Some s'" "msg_only ?s s'"
      "holds (FreeQ q) ns' s'" "holds (MsgQ q) [] s'" "length ns' = length (pool # ns) + k"
    using Suc.IH [of ?s "pool # ns" "pool + nodeSize"] Suc.prems(1,2,6,7) by (auto simp: msg_only_reads [OF m])
  moreover have "msg_only s s'" using m \<open>msg_only ?s s'\<close> by (rule msg_only_trans)
  ultimately show ?case
    by (intro exI [of _ s'] exI [of _ ns']) (simp add: qMsgPut_quiet [OF Suc.prems(1,2)])
qed

text \<open>An empty pend queue may change its class.\<close>

lemma kok_pend_class:
  assumes "kok s" and "pend_list (pendQs s r) = []"
  shows "kok (s\<lparr>pendQs := (pendQs s)(r := \<lparr>pend_class = Some c, pend_list = []\<rparr>)\<rparr>)"
proof -
  let ?s = "s\<lparr>pendQs := (pendQs s)(r := \<lparr>pend_class = Some c, pend_list = []\<rparr>)\<rparr>"
  have l: "pend_list (pendQs ?s r') = pend_list (pendQs s r')" for r' using assms(2) by simp
  have c: "pend_class (pendQs ?s r') = Some QPrioClass \<and> (k, t) \<in> set (pend_list (pendQs s r')) \<longleftrightarrow>
      pend_class (pendQs s r') = Some QPrioClass \<and> (k, t) \<in> set (pend_list (pendQs s r'))" for r' k t
    using assms(2) by simp
  have "task_ok ?s t = task_ok s t" for t
    unfolding task_ok_def Let_def l c by (simp del: fun_upd_apply)
  moreover have "queues_ok s \<Longrightarrow> queues_ok ?s" by (simp add: queues_ok_def pend_ok_def)
  moreover have "wdog_ok ?s w = wdog_ok s w" for w by (simp add: wdog_ok_def)
  ultimately show ?thesis using assms(1) by (simp add: kok_def kinv_def clock_ok_def tickGet_def)
qed

lemma kok_same_parts:
  "kok s \<Longrightarrow> readyQ s' = readyQ s \<Longrightarrow> tickQ s' = tickQ s \<Longrightarrow> activeQ s' = activeQ s \<Longrightarrow> pendQs s' = pendQs s \<Longrightarrow>
   tcbs s' = tcbs s \<Longrightarrow> wdogs s' = wdogs s \<Longrightarrow> sysTicks s' = sysTicks s \<Longrightarrow> sysAbsTicks s' = sysAbsTicks s \<Longrightarrow> kok s'"
  using kok_parts [of s' s] by simp

lemma undisturbed_change:
  assumes "undisturbed e s" and "kok s'" and "workQ s' = workQ s" "intCnt s' = intCnt s" "kernelState s' = kernelState s"
    "activeQ s' = activeQ s" "taskIdCurrent s' = taskIdCurrent s" "tcbs s' = tcbs s" "readyQ s' = readyQ s"
    "pendQs s' (SafetyQ (taskIdCurrent s)) = pendQs s (SafetyQ (taskIdCurrent s))"
  shows "undisturbed e s'"
  using assms by (auto simp: undisturbed_def in_task_def live_def readyFirst_def pendFirst_def)

lemma qMsgInit_ok:
  assumes "undisturbed e s" and "pend_list (pendQs s h) = []" and "h \<noteq> SafetyQ (taskIdCurrent s)"
  shows "fst (qMsgInit h ty s) = OK" and "undisturbed e (snd (qMsgInit h ty s))" and "holds h [] (snd (qMsgInit h ty s))"
    and "pend_list (pendQs (snd (qMsgInit h ty s)) r) = (if r = h then [] else pend_list (pendQs s r))"
    and "msgqs (snd (qMsgInit h ty s)) = msgqs s" "taskIdCurrent (snd (qMsgInit h ty s)) = taskIdCurrent s"
    and "h' \<noteq> h \<Longrightarrow> holds h' ns s \<Longrightarrow> holds h' ns (snd (qMsgInit h ty s))"
proof -
  have "kok s" using assms(1) by (simp add: undisturbed_def in_task_def)
  then have "kok (s\<lparr>pendQs := (pendQs s)(h := \<lparr>pend_class = Some ty, pend_list = []\<rparr>)\<rparr>)"
    by (rule kok_pend_class [OF _ assms(2)])
  then have "kok (snd (qMsgInit h ty s))"
    by (rule kok_same_parts) (simp_all add: qMsgInit_def upd_qmsg_def)
  then show "undisturbed e (snd (qMsgInit h ty s))"
    by (rule undisturbed_change [OF assms(1)]) (use assms(3) in \<open>simp_all add: qMsgInit_def upd_qmsg_def\<close>)
qed (simp_all add: qMsgInit_def upd_qmsg_def holds_def)

lemma node_size_positive:
  assumes "unat maxLength + 16 < 2 ^ 31"
  shows "0 < unat (MSG_NODE_SIZE maxLength)"
proof (rule ccontr)
  let ?x = "8 + maxLength + 3"
  have big: "unat ?x = unat maxLength + 11" using assms by (simp add: unat_word_ariths)
  assume "\<not> 0 < unat (MSG_NODE_SIZE maxLength)"
  then have z: "?x AND NOT 3 = 0" by (simp add: MSG_NODE_SIZE_def unat_eq_0)
  have "(?x AND 3) OR (?x AND NOT 3) = ?x"
    by (rule bit_word_eqI) (auto simp: bit_simps)
  then have "?x = ?x AND 3" using z by simp
  then have "?x \<le> 3" using word_and_le1 [of ?x 3] by simp
  then show False using big by (simp add: word_le_nat_alt)
qed

lemma msgQInit_ok:
  assumes u: "undisturbed e s" and "msgQLibInstalled s" and "pend_list (pendQs s (MsgQ q)) = []"
    and "pend_list (pendQs s (FreeQ q)) = []" and "pool \<noteq> NULL" and len: "unat maxLength + 16 < 2 ^ 31"
  shows "\<exists>s1 fs. msgQInit e (Suc n) junk q maxMsg maxLength options pool s = Some (OK, s1) \<and> undisturbed e s1 \<and>
    mq_rep q [] fs s1 \<and> length fs = nat maxMsg \<and> no_waiters q s1 \<and> mqMaxMsgLength (msgqs s1 q) = maxLength"
proof -
  define ty where "ty = (if options AND 1 = 0 then QFifoClass else QPrioClass)"
  define sa where "sa = upd_msgq q (\<lambda>_. \<lparr>mqIsMsgQ = False, mqOptions = 0, mqMaxMsg = 0, mqMaxMsgLength = 0,
    mqSendTimeouts = 0, mqReciveTimeouts = 0\<rparr>) s"
  have ua: "undisturbed e sa"
    by (rule undisturbed_change [OF u]) (use u in \<open>auto simp: sa_def upd_msgq_def undisturbed_def in_task_def intro: kok_same_parts\<close>)
  have a: "pend_list (pendQs sa r) = pend_list (pendQs s r)" for r by (simp add: sa_def upd_msgq_def)
  define sb where "sb = snd (qMsgInit (MsgQ q) ty sa)"
  note b = qMsgInit_ok [OF ua, where h = "MsgQ q" and ty = ty, folded sb_def, unfolded a, OF assms(3)]
  define sc where "sc = snd (qMsgInit (FreeQ q) ty sb)"
  have ub: "undisturbed e sb" "pend_list (pendQs sb (FreeQ q)) = []" using b(2,4) assms(4) by simp_all
  note c = qMsgInit_ok [OF ub(1), where h = "FreeQ q" and ty = ty, folded sc_def, OF ub(2)]
  have hc: "holds (FreeQ q) [] sc" "holds (MsgQ q) [] sc" using c(3,7) b(3) by simp_all
  have pc: "pendFirst (FreeQ q) sc = NULL" "pendFirst (MsgQ q) sc = NULL"
    using c(4) b(4) by (simp_all add: pendFirst_def)
  have size: "0 < unat (MSG_NODE_SIZE maxLength)"
    using node_size_positive [OF len] by simp
  obtain sd fs where d: "fill_free e (Suc n) junk q (unat (MSG_NODE_SIZE maxLength)) (nat maxMsg) pool sc = Some sd"
      "msg_only sc sd" "holds (FreeQ q) fs sd" "holds (MsgQ q) [] sd" "length fs = nat maxMsg"
    using fill_free_ok [OF undisturbed_facts(3) [OF c(2)] pc(1) hc(1,2) _ assms(5) size, of e "Suc n" junk "nat maxMsg"]
    by auto
  define se where "se = objCoreInit (MsgQObj q) MsgQClass (upd_msgq q (\<lambda>x. x\<lparr>mqOptions := uint options,
    mqMaxMsg := maxMsg, mqMaxMsgLength := maxLength\<rparr>) sd)"
  have "msgQInit e (Suc n) junk q maxMsg maxLength options pool s = Some (OK, se)"
    using assms(2) d(1) b(1) c(1)
    by (simp add: msgQInit_def Let_def sa_def [symmetric] ty_def [symmetric] case_prod_beta sb_def [symmetric]
        sc_def [symmetric] se_def)
  moreover have ud: "undisturbed e sd" using c(2) undisturbed_msg [OF d(2)] by simp
  then have "kok sd" by (simp add: undisturbed_def in_task_def)
  then have "kok se" by (rule kok_same_parts) (simp_all add: se_def objCoreInit_def upd_class_def upd_msgq_def)
  then have "undisturbed e se"
    by (rule undisturbed_change [OF ud]) (simp_all add: se_def objCoreInit_def upd_class_def upd_msgq_def)
  moreover have "mq_rep q [] fs se"
    using d(3,4) len by (simp add: mq_rep_def se_def objCoreInit_def upd_class_def upd_msgq_def holds_def
        word_less_nat_alt)
  moreover have "no_waiters q se"
    using c(4) b(4) by (simp add: no_waiters_def se_def objCoreInit_def upd_class_def upd_msgq_def pendFirst_def
        msg_only_reads [OF d(2)])
  moreover have "mqMaxMsgLength (msgqs se q) = maxLength"
    by (simp add: se_def objCoreInit_def upd_class_def upd_msgq_def)
  ultimately show ?thesis using d(5) by blast
qed

subsection \<open>A message queue is a bounded list\<close>

text \<open>A program of calls that do not wait, the results they return, and the same on a list.\<close>

datatype mq_op = MSend "u8 list" u32 | MReceive u32

primrec run_mq :: "kenv \<Rightarrow> nat \<Rightarrow> STATUS \<Rightarrow> ptr \<Rightarrow> mq_op list \<Rightarrow> kstate \<Rightarrow> ((int \<times> u8 list) list \<times> kstate) option" where
  "run_mq e n junk q [] s = Some ([], s)"
| "run_mq e n junk q (op # ops) s = do {
     (out, s) \<leftarrow> (case op of
         MSend d priority \<Rightarrow>
           (case msgQSend e n junk 2 q d (word_of_nat (length d)) WAIT_NONE priority s of
              Some (Done st, s) \<Rightarrow> Some ((st, []), s) | _ \<Rightarrow> None)
       | MReceive maxBytes \<Rightarrow>
           (case msgQReceive e n junk 2 q maxBytes WAIT_NONE s of
              Some (Done out, s) \<Rightarrow> Some (out, s) | _ \<Rightarrow> None));
     (outs, s) \<leftarrow> run_mq e n junk q ops s;
     Some (out # outs, s)
   }"

primrec spec_mq :: "nat \<Rightarrow> nat \<Rightarrow> mq_op list \<Rightarrow> u8 list list \<Rightarrow> (int \<times> u8 list) list \<times> u8 list list" where
  "spec_mq cap maxLength [] xs = ([], xs)"
| "spec_mq cap maxLength (op # ops) xs =
     (let (out, xs) = (case op of
          MSend d priority \<Rightarrow> (case spec_send cap maxLength priority d xs of (st, xs) \<Rightarrow> ((st, []), xs))
        | MReceive maxBytes \<Rightarrow> spec_receive (unat maxBytes) xs);
        (outs, xs) = spec_mq cap maxLength ops xs
      in (out # outs, xs))"

lemma run_mq_ok:
  assumes "undisturbed e s" and "mq_rep q ms fs s" and "no_waiters q s" and "\<forall>d p. MSend d p \<in> set ops \<longrightarrow> length d < 2 ^ 32"
  shows "\<exists>s' ms' fs'. run_mq e (Suc n) junk q ops s =
      Some (fst (spec_mq (length ms + length fs) (unat (mqMaxMsgLength (msgqs s q))) ops (contents s ms)), s') \<and>
    msg_only s s' \<and> mq_rep q ms' fs' s' \<and> length ms' + length fs' = length ms + length fs \<and>
    contents s' ms' = snd (spec_mq (length ms + length fs) (unat (mqMaxMsgLength (msgqs s q))) ops (contents s ms))"
  using assms
proof (induction ops arbitrary: s ms fs)
  case Nil
  then show ?case by (intro exI [of _ s] exI [of _ ms] exI [of _ fs]) simp
next
  case (Cons op ops)
  let ?cap = "length ms + length fs" and ?max = "unat (mqMaxMsgLength (msgqs s q))"
  define r where "r = (case op of
      MSend d priority \<Rightarrow> (case spec_send ?cap ?max priority d (contents s ms) of (st, xs) \<Rightarrow> ((st, []), xs))
    | MReceive maxBytes \<Rightarrow> spec_receive (unat maxBytes) (contents s ms))"
  have "\<exists>s1 ms1 fs1. run_mq e (Suc n) junk q [op] s = Some ([fst r], s1) \<and> msg_only s s1 \<and> mq_rep q ms1 fs1 s1 \<and>
      length ms1 + length fs1 = ?cap \<and> contents s1 ms1 = snd r"
  proof (cases op)
    case (MSend d priority)
    then have len: "length d = unat (word_of_nat (length d) :: u32)" using Cons.prems(4) by (simp add: unat_of_nat)
    obtain s1 ms1 fs1 where "msgQSend e (Suc n) junk (Suc (Suc 0)) q d (word_of_nat (length d)) WAIT_NONE priority s =
          Some (Done (fst (spec_send ?cap ?max priority d (contents s ms))), s1)" "msg_only s s1" "mq_rep q ms1 fs1 s1"
        "length ms1 + length fs1 = ?cap" "contents s1 ms1 = snd (spec_send ?cap ?max priority d (contents s ms))"
      using msgQSend_ok [OF Cons.prems(1-3) len, of WAIT_NONE n junk 0 priority] by blast
    then show ?thesis
      by (intro exI [of _ s1] exI [of _ ms1] exI [of _ fs1])
        (simp add: r_def MSend case_prod_beta numeral_2_eq_2 del: msgQSend_loop.simps)
  next
    case (MReceive maxBytes)
    obtain s1 ms1 fs1 where "msgQReceive e (Suc n) junk (Suc (Suc 0)) q maxBytes WAIT_NONE s =
          Some (Done (fst (spec_receive (unat maxBytes) (contents s ms))), s1)" "msg_only s s1" "mq_rep q ms1 fs1 s1"
        "length ms1 + length fs1 = ?cap" "contents s1 ms1 = snd (spec_receive (unat maxBytes) (contents s ms))"
      using msgQReceive_ok [OF Cons.prems(1-3), of WAIT_NONE n junk 0 maxBytes] by blast
    then show ?thesis
      by (intro exI [of _ s1] exI [of _ ms1] exI [of _ fs1])
        (simp add: r_def MReceive numeral_2_eq_2 del: msgQReceive_loop.simps)
  qed
  then obtain s1 ms1 fs1 where s1: "run_mq e (Suc n) junk q [op] s = Some ([fst r], s1)" "msg_only s s1"
      "mq_rep q ms1 fs1 s1" "length ms1 + length fs1 = ?cap" "contents s1 ms1 = snd r" by blast
  have q: "undisturbed e s1" "no_waiters q s1" "mqMaxMsgLength (msgqs s1 q) = mqMaxMsgLength (msgqs s q)"
    using Cons.prems(1,3) undisturbed_msg [OF s1(2)] msg_only_reads [OF s1(2)] by (simp_all add: no_waiters_def)
  have l: "\<forall>d p. MSend d p \<in> set ops \<longrightarrow> length d < 2 ^ 32" using Cons.prems(4) by simp
  obtain s2 ms2 fs2 where s2: "run_mq e (Suc n) junk q ops s1 = Some (fst (spec_mq ?cap ?max ops (snd r)), s2)"
      "msg_only s1 s2" "mq_rep q ms2 fs2 s2" "length ms2 + length fs2 = ?cap"
      "contents s2 ms2 = snd (spec_mq ?cap ?max ops (snd r))"
    using Cons.IH [OF q(1) s1(3) q(2) l] unfolding q(3) s1(4,5) by blast
  have "spec_mq ?cap ?max (op # ops) (contents s ms) =
      (fst r # fst (spec_mq ?cap ?max ops (snd r)), snd (spec_mq ?cap ?max ops (snd r)))"
    by (simp add: r_def [symmetric] case_prod_beta Let_def)
  moreover have "run_mq e (Suc n) junk q (op # ops) s = Some (fst r # fst (spec_mq ?cap ?max ops (snd r)), s2)"
    using s1(1) s2(1) by (auto split: bind_splits)
  ultimately show ?case using s2 msg_only_trans [OF s1(2) s2(2)]
    by (intro exI [of _ s2] exI [of _ ms2] exI [of _ fs2]) simp
qed

text \<open>C13. A message queue is a bounded list. After \<open>msgQInit\<close> any sequence of \<open>msgQSend\<close> and \<open>msgQReceive\<close> with
  \<open>WAIT_NONE\<close> by the running task returns what the list gives: a message longer than the limit or for a
  full queue is refused with \<open>ERROR\<close>, a normal one goes to the end and an urgent one to the front, and
  a receive takes the first message (at most as many bytes as asked for) or returns \<open>ERROR\<close>. No node is
  lost, and \<open>msgQNumMsgs\<close> is the length of the list.\<close>

theorem msgq_bounded_list:
  assumes "undisturbed e s" and "msgQLibInstalled s" and "pend_list (pendQs s (MsgQ q)) = []"
    and "pend_list (pendQs s (FreeQ q)) = []" and "pool \<noteq> NULL" and "unat maxLength + 16 < 2 ^ 31"
    and "\<forall>d p. MSend d p \<in> set ops \<longrightarrow> length d < 2 ^ 32"
  shows "\<exists>s1 s2. msgQInit e (Suc n) junk q maxMsg maxLength options pool s = Some (OK, s1) \<and>
    run_mq e (Suc n) junk q ops s1 = Some (fst (spec_mq (nat maxMsg) (unat maxLength) ops []), s2) \<and>
    fst (msgQNumMsgs q s2) = int (length (snd (spec_mq (nat maxMsg) (unat maxLength) ops []))) \<and>
    (\<exists>ms fs. mq_rep q ms fs s2 \<and> length ms + length fs = nat maxMsg \<and>
      contents s2 ms = snd (spec_mq (nat maxMsg) (unat maxLength) ops []))"
proof -
  obtain s1 fs where s1: "msgQInit e (Suc n) junk q maxMsg maxLength options pool s = Some (OK, s1)" "undisturbed e s1"
      "mq_rep q [] fs s1" "length fs = nat maxMsg" "no_waiters q s1" "mqMaxMsgLength (msgqs s1 q) = maxLength"
    using msgQInit_ok [OF assms(1-6)] by blast
  obtain s2 ms' fs' where s2: "run_mq e (Suc n) junk q ops s1 =
        Some (fst (spec_mq (nat maxMsg) (unat maxLength) ops []), s2)" "mq_rep q ms' fs' s2"
      "length ms' + length fs' = nat maxMsg" "contents s2 ms' = snd (spec_mq (nat maxMsg) (unat maxLength) ops [])"
    using run_mq_ok [OF s1(2,3,5) assms(7), of n junk] s1(4,6) by (auto simp: contents_def)
  have "fst (msgQNumMsgs q s2) = int (length (contents s2 ms'))"
    using s2(2) by (simp add: msgQNumMsgs_def msg_verify_ok mq_rep_def holds_def contents_def)
  then show ?thesis using s1(1) s2 by (intro exI [of _ s1] exI [of _ s2]) auto
qed

theorem msgq_bounded_list_witness:
  "\<exists>s1 s2. msgQInit demo_env 1 0 300 2 4 0 4096 demo_run = Some (OK, s1) \<and>
    run_mq demo_env 1 0 300 [MSend [1, 2] 0, MSend [3] 1, MSend [4] 0, MSend [1, 2, 3, 4, 5] 0, MReceive 8,
      MReceive 1, MReceive 8] s1 =
      Some ([(0, []), (0, []), (-1, []), (-1, []), (1, [3]), (1, [1]), (-1, [])], s2)"
proof -
  have u: "undisturbed demo_env demo_run"
    using demo_run_task by (simp add: undisturbed_def readyFirst_def pendFirst_def) (simp add: demo_def)
  have h: "msgQLibInstalled demo_run" "pend_list (pendQs demo_run (MsgQ 300)) = []"
      "pend_list (pendQs demo_run (FreeQ 300)) = []" "4096 \<noteq> NULL" "unat (4 :: u32) + 16 < 2 ^ 31"
    by (simp_all add: demo_run_def) (simp_all add: demo_def)
  let ?ops = "[MSend [1, 2] 0, MSend [3] 1, MSend [4] 0, MSend [1, 2, 3, 4, 5] 0, MReceive 8, MReceive 1, MReceive 8]"
  have l: "\<forall>d p. MSend d p \<in> set ?ops \<longrightarrow> length d < 2 ^ 32" by auto
  have o: "fst (spec_mq (nat 2) (unat (4 :: u32)) ?ops []) =
      [(0, []), (0, []), (-1, []), (-1, []), (1, [3]), (1, [1]), (-1, [])]"
    by (simp add: spec_send_def spec_receive_def insert_node_def)
  show ?thesis using msgq_bounded_list [OF u h l, of 0 0 2 0] unfolding o by auto
qed

text \<open>C14. A send or a receive whose wait timed out reports the wrong error: it returns \<open>ERROR\<close> with
  \<open>S_objLib_DELETED\<close> although the queue exists, and the timeout is not counted, because the comparison
  \<open>OBJ_VERIFY(msgQId, msgQClassId) == OK\<close> is always 0.\<close>

theorem msgq_timeout_reported_deleted:
  assumes "undisturbed e s" and "mqIsMsgQ (msgqs s q)" and "errno s = S_objLib_TIMEOUT"
  shows "\<exists>s'. msgQReceive_resume e (Suc n) junk m q maxBytes timeout ERROR (snd (taskLock s)) = Some (Done (ERROR, []), s') \<and>
      msgQSend_resume e (Suc n) junk m q d nBytes timeout priority ERROR (snd (taskLock s)) = Some (Done ERROR, s') \<and>
      errno s' = S_objLib_DELETED \<and> msgqs s' = msgqs s \<and> mqIsMsgQ (msgqs s' q)"
proof -
  let ?s = "errnoSet S_objLib_DELETED s"
  have u: "undisturbed e ?s" using assms(1) undisturbed_msg [of s ?s] by simp
  have e: "errno (snd (taskLock s)) = S_objLib_TIMEOUT" using assms(3) by (simp add: taskLock_def upd_tcb_def)
  have nn: "no_node q (snd (taskLock s)) = snd (taskLock ?s)"
    using assms(2) e by (simp add: no_node_def MSG_VERIFY_eq_OK_def OBJ_VERIFY_eq_OK_def locked_commute)
  show ?thesis
    using assms(2) nn lock_unlock [OF u] unlock_in_task_locked [OF u]
    by (intro exI [of _ ?s]) (simp add: msgQReceive_resume_def msgQSend_resume_def qMsgGet_resume_def qMsgGet_back_def
        msgQReceive_got_def msgQSend_got_def kernel_simps)
qed

definition demo_msgq :: kstate where
  "demo_msgq = errnoSet S_objLib_TIMEOUT (upd_msgq 300 (\<lambda>m. m\<lparr>mqIsMsgQ := True\<rparr>) demo_run)"

theorem msgq_timeout_reported_deleted_witness:
  "\<exists>s'. msgQReceive_resume demo_env 1 0 2 300 8 5 ERROR (snd (taskLock demo_msgq)) = Some (Done (ERROR, []), s') \<and>
    errno s' = S_objLib_DELETED \<and> mqIsMsgQ (msgqs s' 300)"
proof -
  have k: "kok demo_msgq"
    using demo_run_task by (auto simp: in_task_def demo_msgq_def upd_msgq_def intro: kok_same_parts)
  have u: "undisturbed demo_env demo_run"
    using demo_run_task by (simp add: undisturbed_def readyFirst_def pendFirst_def) (simp add: demo_def)
  have "undisturbed demo_env demo_msgq"
    by (rule undisturbed_change [OF u k]) (simp_all add: demo_msgq_def upd_msgq_def errnoSet_def)
  moreover have "mqIsMsgQ (msgqs demo_msgq 300)" "errno demo_msgq = S_objLib_TIMEOUT"
    by (simp_all add: demo_msgq_def upd_msgq_def errnoSet_def)
  ultimately show ?thesis
    using msgq_timeout_reported_deleted [of demo_env demo_msgq 300 0 0 2 8 5 "[]" 0 0] by auto
qed

end
