(* ===== verification/MemPartLib.thy ===== *)
theory MemPartLib
  imports DllLib "HOL-Library.Signed_Division" "HOL-Library.Monad_Syntax"
begin

text \<open>
  Memory partitions: \<open>src/os/memPartLib.c\<close> and \<open>src/os/memLib.c\<close>. A pool is cut into
  blocks, each after a header with its size in 16-bit words, a bit that says whether it is free, and the
  address of the header before it. The free blocks of a partition are linked through the words after
  their headers. Addresses are 32-bit words; headers and list nodes are kept in two maps, \<open>bhdrs\<close> and the
  store of \<open>dllLib\<close>, so that the bytes of one are not seen through the other. The semaphore of a partition
  is a flag; taking it twice has no result, as the task would wait for itself. The error functions, the
  suspension of the calling task and its options are parameters.
\<close>

type_synonym addr = u32

text \<open>The size is a bit field of 31 bits.\<close>

record BLOCK_HEADER =
  bhPrev :: addr
  bhWords :: u32
  bhFree :: bool

record PARTITION =
  mpIsPart :: bool
  mpSemFull :: bool
  mpTotalWords :: u32
  mpMinBlockWords :: u32
  mpOptions :: u32
  mpCurrBlocks :: u32
  mpCurrWords :: u32
  mpCumBlocks :: u32
  mpCumWords :: u32

record pmem = dmem +
  bhdrs :: "addr \<Rightarrow> BLOCK_HEADER"
  parts :: "ptr \<Rightarrow> PARTITION"
  perrno :: int

text \<open>What the library calls outside the partition.\<close>

record mp_env =
  me_allocError :: "ptr \<Rightarrow> u32 \<Rightarrow> pmem \<Rightarrow> pmem"
  me_blockError :: "ptr \<Rightarrow> addr \<Rightarrow> pmem \<Rightarrow> pmem"
  me_suspend :: "pmem \<Rightarrow> pmem"
  me_unbreakable :: bool
  me_optionsDefault :: u32

definition S_memPartLib_INVALID_NBYTES :: int where "S_memPartLib_INVALID_NBYTES = 9 * 65536 + 2"
definition S_memPartLib_BLOCK_ERROR :: int where "S_memPartLib_BLOCK_ERROR = 9 * 65536 + 4"
definition S_memPartLib_NOT_IMPLEMENTED :: int where "S_memPartLib_NOT_IMPLEMENTED = 9 * 65536 + 65535"
definition S_memPart_ID_ERROR :: int where "S_memPart_ID_ERROR = 6 * 65536 + 2"
definition ENOMEM :: int where "ENOMEM = 12"

abbreviation MEM_BLOCK_CHECK :: u32 where "MEM_BLOCK_CHECK \<equiv> 0x10"
abbreviation MEM_ALLOC_ERROR_SUSPEND_FLAG :: u32 where "MEM_ALLOC_ERROR_SUSPEND_FLAG \<equiv> 0x40"
abbreviation MEM_BLOCK_ERROR_LOG_FLAG :: u32 where "MEM_BLOCK_ERROR_LOG_FLAG \<equiv> 0x80"
abbreviation MEM_BLOCK_ERROR_SUSPEND_FLAG :: u32 where "MEM_BLOCK_ERROR_SUSPEND_FLAG \<equiv> 0x100"
abbreviation MEM_ALLOC_ERROR_LOG_FLAG :: u32 where "MEM_ALLOC_ERROR_LOG_FLAG \<equiv> 0x20"

text \<open>\<open>memLibInit\<close> sets the default options and the two error functions, which print a message.\<close>

definition memLibInit :: "bool \<Rightarrow> mp_env \<Rightarrow> (STATUS \<times> bool) \<times> mp_env" where
  "memLibInit memLibInstalled e =
     (if memLibInstalled then ((OK, True), e)
      else ((OK, True), e\<lparr>
        me_allocError := (\<lambda>partId nBytes m. m),
        me_blockError := (\<lambda>partId pBlock m. m),
        me_optionsDefault := MEM_ALLOC_ERROR_LOG_FLAG OR MEM_BLOCK_ERROR_LOG_FLAG OR
          MEM_ALLOC_ERROR_SUSPEND_FLAG OR MEM_BLOCK_CHECK\<rparr>))"

subsection \<open>Headers\<close>

definition NEXT_HEADER :: "pmem \<Rightarrow> addr \<Rightarrow> addr" where
  "NEXT_HEADER m pHeader = pHeader + 2 * bhWords (bhdrs m pHeader)"

definition PREV_HEADER :: "pmem \<Rightarrow> addr \<Rightarrow> addr" where
  "PREV_HEADER m pHeader = bhPrev (bhdrs m pHeader)"

definition HEADER_TO_BLOCK :: "addr \<Rightarrow> addr" where
  "HEADER_TO_BLOCK pHeader = pHeader + 8"

definition BLOCK_TO_HEADER :: "addr \<Rightarrow> addr" where
  "BLOCK_TO_HEADER pBlock = pBlock - 8"

definition HEADER_TO_NODE :: "addr \<Rightarrow> ptr" where
  "HEADER_TO_NODE pHeader = unat (pHeader + 8)"

definition NODE_TO_HEADER :: "ptr \<Rightarrow> addr" where
  "NODE_TO_HEADER pNode = word_of_nat pNode - 8"

definition ALIGNED :: "u32 \<Rightarrow> u32 \<Rightarrow> bool" where
  "ALIGNED x align \<longleftrightarrow> x AND (align - 1) = 0"

definition MEM_ROUND_UP :: "u32 \<Rightarrow> u32" where
  "MEM_ROUND_UP x = (x + 3) AND NOT 3"

definition MEM_ROUND_DOWN :: "u32 \<Rightarrow> u32" where
  "MEM_ROUND_DOWN x = x AND NOT 3"

definition upd_hdr :: "addr \<Rightarrow> (BLOCK_HEADER \<Rightarrow> BLOCK_HEADER) \<Rightarrow> pmem \<Rightarrow> pmem" where
  "upd_hdr h f m = m\<lparr>bhdrs := (bhdrs m)(h := f (bhdrs m h))\<rparr>"

definition upd_part :: "ptr \<Rightarrow> (PARTITION \<Rightarrow> PARTITION) \<Rightarrow> pmem \<Rightarrow> pmem" where
  "upd_part p f m = m\<lparr>parts := (parts m)(p := f (parts m p))\<rparr>"

definition mp_errno :: "int \<Rightarrow> pmem \<Rightarrow> pmem" where
  "mp_errno v m = m\<lparr>perrno := v\<rparr>"

text \<open>Storing a size keeps 31 bits.\<close>

definition set_words :: "addr \<Rightarrow> u32 \<Rightarrow> pmem \<Rightarrow> pmem" where
  "set_words h n = upd_hdr h (\<lambda>b. b\<lparr>bhWords := n AND 0x7fffffff\<rparr>)"

definition set_pprev :: "addr \<Rightarrow> addr \<Rightarrow> pmem \<Rightarrow> pmem" where
  "set_pprev h p = upd_hdr h (\<lambda>b. b\<lparr>bhPrev := p\<rparr>)"

definition set_free :: "addr \<Rightarrow> bool \<Rightarrow> pmem \<Rightarrow> pmem" where
  "set_free h f = upd_hdr h (\<lambda>b. b\<lparr>bhFree := f\<rparr>)"

text \<open>\<open>&partId->freeList\<close>, and the verification of the partition object.\<close>

definition FREE_LIST :: "ptr \<Rightarrow> ptr" where
  "FREE_LIST partId = partId + 4"

definition PART_VERIFY_ne_OK :: "ptr \<Rightarrow> pmem \<Rightarrow> bool \<times> pmem" where
  "PART_VERIFY_ne_OK partId m =
     (if mpIsPart (parts m partId) then (False, m) else (True, mp_errno S_memPart_ID_ERROR m))"

definition mp_take :: "ptr \<Rightarrow> pmem \<Rightarrow> pmem option" where
  "mp_take partId m =
     (if mpSemFull (parts m partId) then Some (upd_part partId (\<lambda>p. p\<lparr>mpSemFull := False\<rparr>) m) else None)"

definition mp_give :: "ptr \<Rightarrow> pmem \<Rightarrow> pmem" where
  "mp_give partId = upd_part partId (\<lambda>p. p\<lparr>mpSemFull := True\<rparr>)"

subsection \<open>Pools\<close>

text \<open>A wrong partition is noticed but the pool is added all the same.\<close>

definition memPartAddToPool :: "ptr \<Rightarrow> addr \<Rightarrow> u32 \<Rightarrow> pmem \<Rightarrow> (STATUS \<times> pmem) option" where
  "memPartAddToPool partId pPool poolSize m = do {
     let m = snd (PART_VERIFY_ne_OK partId m);
     let tmp = MEM_ROUND_UP pPool;
     let reducePool = tmp - pPool;
     let poolSize = (if poolSize \<ge> reducePool then poolSize - reducePool else 0);
     let poolSize = MEM_ROUND_DOWN poolSize;
     if poolSize < 8 * 3 + mpMinBlockWords (parts m partId) * 2
     then Some (ERROR, mp_errno S_memPartLib_INVALID_NBYTES m)
     else do {
       let pHeaderStart = tmp;
       let m = set_words pHeaderStart 4 (set_free pHeaderStart False (set_pprev pHeaderStart 0 m));
       let pHeaderMiddle = NEXT_HEADER m pHeaderStart;
       let m = set_words pHeaderMiddle (drop_bit 1 (poolSize - 2 * 8))
         (set_free pHeaderMiddle True (set_pprev pHeaderMiddle pHeaderStart m));
       let pHeaderEnd = NEXT_HEADER m pHeaderMiddle;
       let m = set_words pHeaderEnd 4 (set_free pHeaderEnd False (set_pprev pHeaderEnd pHeaderMiddle m));
       m \<leftarrow> mp_take partId m;
       let m = snd (dllInsert (FREE_LIST partId) NULL (HEADER_TO_NODE pHeaderMiddle) m);
       let m = upd_part partId (\<lambda>p. p\<lparr>mpTotalWords := mpTotalWords p + drop_bit 1 poolSize\<rparr>) m;
       Some (OK, mp_give partId m)
     }
   }"

definition memPartInit :: "mp_env \<Rightarrow> ptr \<Rightarrow> addr \<Rightarrow> u32 \<Rightarrow> pmem \<Rightarrow> (STATUS \<times> pmem) option" where
  "memPartInit e partId pPool poolSize m =
     (if partId = NULL then Some (ERROR, m)
      else do {
        let m = upd_part partId (\<lambda>_. \<lparr>mpIsPart = False, mpSemFull = True, mpTotalWords = 0,
          mpMinBlockWords = 8, mpOptions = me_optionsDefault e, mpCurrBlocks = 0, mpCurrWords = 0,
          mpCumBlocks = 0, mpCumWords = 0\<rparr>) m;
        let m = snd (dllInit (FREE_LIST partId) m);
        let m = upd_part partId (\<lambda>p. p\<lparr>mpIsPart := True\<rparr>) m;
        (st, m) \<leftarrow> memPartAddToPool partId pPool poolSize m;
        Some (OK, m)
      })"

text \<open>
  \<open>class_st\<close> is what \<open>classInit\<close> returns, and \<open>junk\<close> what the status variable holds, which is not set when all goes
  well; the result of \<open>memPartInit\<close> is ignored. \<open>pPart\<close> is what \<open>objAlloc\<close> returns.
\<close>

definition memPartLibInit ::
  "mp_env \<Rightarrow> STATUS \<Rightarrow> STATUS \<Rightarrow> ptr \<Rightarrow> bool \<Rightarrow> addr \<Rightarrow> u32 \<Rightarrow> pmem \<Rightarrow> ((STATUS \<times> bool) \<times> pmem) option" where
  "memPartLibInit e class_st junk memSysPartition memPartLibInstalled pPool poolSize m =
     (if memPartLibInstalled then Some ((OK, True), m)
      else if class_st \<noteq> OK then Some ((ERROR, False), m)
      else do {
        (st, m) \<leftarrow> memPartInit e memSysPartition pPool poolSize m;
        Some ((junk, True), m)
      })"

definition memPartCreate :: "mp_env \<Rightarrow> ptr \<Rightarrow> addr \<Rightarrow> u32 \<Rightarrow> pmem \<Rightarrow> (ptr \<times> pmem) option" where
  "memPartCreate e pPart pPool poolSize m =
     (if pPart = NULL then Some (NULL, m)
      else do {
        (st, m) \<leftarrow> memPartInit e pPart pPool poolSize m;
        Some (if st \<noteq> OK then NULL else pPart, m)
      })"

definition memPartDestroy :: "ptr \<Rightarrow> pmem \<Rightarrow> STATUS \<times> pmem" where
  "memPartDestroy partId m = (ERROR, mp_errno S_memPartLib_NOT_IMPLEMENTED m)"

definition memPartOptionsSet :: "bool \<Rightarrow> ptr \<Rightarrow> u32 \<Rightarrow> pmem \<Rightarrow> (STATUS \<times> pmem) option" where
  "memPartOptionsSet memLibInstalled partId options m =
     (if \<not> memLibInstalled then Some (ERROR, m)
      else case PART_VERIFY_ne_OK partId m of (bad, m) \<Rightarrow>
        if bad then Some (ERROR, m)
        else do {
          m \<leftarrow> mp_take partId m;
          let m = upd_part partId (\<lambda>p. p\<lparr>mpOptions := mpOptions p OR options\<rparr>) m;
          let m = (if options AND (MEM_BLOCK_ERROR_LOG_FLAG OR MEM_BLOCK_ERROR_SUSPEND_FLAG) \<noteq> 0
            then upd_part partId (\<lambda>p. p\<lparr>mpOptions := mpOptions p OR MEM_BLOCK_CHECK\<rparr>) m else m);
          Some (OK, mp_give partId m)
        })"

subsection \<open>Splitting and checking blocks\<close>

text \<open>The result is the header of the part cut off at the end, or 0. The difference of two pointers is a signed number.\<close>

definition memAlignedBlockSplit :: "ptr \<Rightarrow> addr \<Rightarrow> u32 \<Rightarrow> u32 \<Rightarrow> u32 \<Rightarrow> pmem \<Rightarrow> addr \<times> pmem" where
  "memAlignedBlockSplit partId pHeader nWords minWords alignment m =
     (let pEndOfBlock = pHeader + bhWords (bhdrs m pHeader) * 2;
          pNewBlock = (pEndOfBlock - (nWords - 4) * 2) AND NOT (alignment - 1);
          pNewHeader = BLOCK_TO_HEADER pNewBlock;
          blockSize = (word_of_int (sint (pNewHeader - pHeader) sdiv 2) :: u32);
          (pNewHeader, m) =
            (if blockSize < minWords
             then if pNewHeader = pHeader
                  then (pNewHeader, snd (dllRemove (FREE_LIST partId) (HEADER_TO_NODE pHeader) m))
                  else (0, m)
             else (pNewHeader, set_words pHeader blockSize (set_pprev pNewHeader pHeader m)))
      in if pNewHeader = 0 then (0, m)
         else if pEndOfBlock - pNewHeader - nWords * 2 < minWords * 2
         then let m = set_free pNewHeader True (set_words pNewHeader ((pEndOfBlock - pNewBlock + 8) div 2) m)
              in (pNewHeader, set_pprev (NEXT_HEADER m pNewHeader) pNewHeader m)
         else let m = set_free pNewHeader True (set_words pNewHeader nWords m);
                  pNextHeader = NEXT_HEADER m pNewHeader;
                  m = set_free pNextHeader True (set_pprev pNextHeader pNewHeader
                    (set_words pNextHeader ((pEndOfBlock - pNextHeader) div 2) m));
                  m = snd (dllAdd (FREE_LIST partId) (HEADER_TO_NODE pNextHeader) m)
              in (pNewHeader, set_pprev (NEXT_HEADER m pNextHeader) pNextHeader m))"

definition block_valid :: "ptr \<Rightarrow> addr \<Rightarrow> bool \<Rightarrow> pmem \<Rightarrow> bool" where
  "block_valid partId pHeader isFree m \<longleftrightarrow>
     ALIGNED pHeader 4 \<and> ALIGNED (2 * bhWords (bhdrs m pHeader)) 4 \<and>
     bhWords (bhdrs m pHeader) \<le> mpTotalWords (parts m partId) \<and> bhFree (bhdrs m pHeader) = isFree \<and>
     pHeader = PREV_HEADER m (NEXT_HEADER m pHeader) \<and> pHeader = NEXT_HEADER m (PREV_HEADER m pHeader)"

text \<open>The check runs with the semaphore given back in between.\<close>

definition memPartBlockValidate :: "ptr \<Rightarrow> addr \<Rightarrow> bool \<Rightarrow> pmem \<Rightarrow> (bool \<times> pmem) option" where
  "memPartBlockValidate partId pHeader isFree m = do {
     let m = mp_give partId m;
     let valid = block_valid partId pHeader isFree m;
     m \<leftarrow> mp_take partId m;
     Some (valid, m)
   }"

subsection \<open>Allocating\<close>

definition mp_suspend :: "mp_env \<Rightarrow> ptr \<Rightarrow> u32 \<Rightarrow> pmem \<Rightarrow> pmem" where
  "mp_suspend e partId flag m =
     (if mpOptions (parts m partId) AND flag \<noteq> 0 \<and> \<not> me_unbreakable e then me_suspend e m else m)"

definition alloc_failed :: "mp_env \<Rightarrow> ptr \<Rightarrow> u32 \<Rightarrow> pmem \<Rightarrow> pmem" where
  "alloc_failed e partId nBytes m =
     mp_suspend e partId MEM_ALLOC_ERROR_SUSPEND_FLAG (mp_errno ENOMEM (me_allocError e partId nBytes m))"

text \<open>A block is large enough with room for the alignment, or has the size exactly and is aligned.\<close>

definition block_fits :: "u32 \<Rightarrow> u32 \<Rightarrow> u32 \<Rightarrow> addr \<Rightarrow> pmem \<Rightarrow> bool" where
  "block_fits nWords nWordsPad alignment pHeader m \<longleftrightarrow>
     bhWords (bhdrs m pHeader) > nWordsPad \<or>
     bhWords (bhdrs m pHeader) = nWords \<and> ALIGNED (HEADER_TO_BLOCK pHeader) alignment"

text \<open>The two nested loops over the free list: on to the next block that fits, until one can be split.\<close>

partial_function (option) alloc_loop ::
  "ptr \<Rightarrow> u32 \<Rightarrow> u32 \<Rightarrow> u32 \<Rightarrow> ptr \<Rightarrow> pmem \<Rightarrow> (addr \<times> pmem) option" where
  "alloc_loop partId nWords nWordsPad alignment pNode m =
     (if pNode = NULL then Some (0, m)
      else if \<not> block_fits nWords nWordsPad alignment (NODE_TO_HEADER pNode) m
      then alloc_loop partId nWords nWordsPad alignment (DLL_NEXT m pNode) m
      else case memAlignedBlockSplit partId (NODE_TO_HEADER pNode) nWords
          (mpMinBlockWords (parts m partId)) alignment m of (pNewHeader, m) \<Rightarrow>
        if pNewHeader \<noteq> 0 then Some (pNewHeader, m)
        else alloc_loop partId nWords nWordsPad alignment (DLL_NEXT m pNode) m)"

definition count_alloc :: "ptr \<Rightarrow> u32 \<Rightarrow> pmem \<Rightarrow> pmem" where
  "count_alloc partId nWords = upd_part partId (\<lambda>p. p\<lparr>mpCurrBlocks := mpCurrBlocks p + 1,
     mpCumBlocks := mpCumBlocks p + 1, mpCurrWords := mpCurrWords p + nWords,
     mpCumWords := mpCumWords p + nWords\<rparr>)"

text \<open>The number of words is computed as an \<open>int\<close> and shifted with its sign.\<close>

definition alloc_words :: "u32 \<Rightarrow> u32" where
  "alloc_words nBytes = signed_drop_bit 1 (MEM_ROUND_UP (nBytes + 8))"

definition memPartAlignedAlloc :: "mp_env \<Rightarrow> ptr \<Rightarrow> u32 \<Rightarrow> u32 \<Rightarrow> pmem \<Rightarrow> (addr \<times> pmem) option" where
  "memPartAlignedAlloc e partId nBytes alignment m =
     (case PART_VERIFY_ne_OK partId m of (bad, m) \<Rightarrow>
        if bad then Some (0, m)
        else let nWords = alloc_words nBytes
        in if push_bit 1 nWords < nBytes then Some (0, alloc_failed e partId nBytes m)
           else do {
             let nWords = (if nWords < mpMinBlockWords (parts m partId)
               then mpMinBlockWords (parts m partId) else nWords);
             m \<leftarrow> mp_take partId m;
             let nWordsPad = nWords + alignment div 2;
             (pHeader, m) \<leftarrow> alloc_loop partId nWords nWordsPad alignment (DLL_HEAD m (FREE_LIST partId)) m;
             if pHeader = 0 then Some (0, alloc_failed e partId nBytes (mp_give partId m))
             else let m = set_free pHeader False m
                  in Some (HEADER_TO_BLOCK pHeader,
                       mp_give partId (count_alloc partId (bhWords (bhdrs m pHeader)) m))
           })"

definition memDefaultAlignment :: u32 where
  "memDefaultAlignment = 4"

definition memPartAlloc :: "mp_env \<Rightarrow> ptr \<Rightarrow> u32 \<Rightarrow> pmem \<Rightarrow> (addr \<times> pmem) option" where
  "memPartAlloc e partId nBytes m = memPartAlignedAlloc e partId nBytes memDefaultAlignment m"

subsection \<open>Freeing\<close>

text \<open>The block becomes part of the free block before it, or a free block of its own; then the free block after it, if there is one, is added.\<close>

definition join_prev :: "ptr \<Rightarrow> addr \<Rightarrow> u32 \<Rightarrow> pmem \<Rightarrow> addr \<times> pmem" where
  "join_prev partId pHeader nWords m =
     (if bhFree (bhdrs m (PREV_HEADER m pHeader))
      then let m = set_free pHeader False m;
               pHeader = PREV_HEADER m pHeader
           in (pHeader, set_words pHeader (bhWords (bhdrs m pHeader) + nWords) m)
      else (pHeader, snd (dllInsert (FREE_LIST partId) NULL (HEADER_TO_NODE pHeader) (set_free pHeader True m))))"

definition join_next :: "ptr \<Rightarrow> addr \<Rightarrow> pmem \<Rightarrow> pmem" where
  "join_next partId pHeader m =
     (let pNextHeader = NEXT_HEADER m pHeader;
          m = (if bhFree (bhdrs m pNextHeader)
               then snd (dllRemove (FREE_LIST partId) (HEADER_TO_NODE pNextHeader)
                 (set_words pHeader (bhWords (bhdrs m pHeader) + bhWords (bhdrs m pNextHeader)) m))
               else m)
      in set_pprev (NEXT_HEADER m pHeader) pHeader m)"

definition memPartFree :: "mp_env \<Rightarrow> ptr \<Rightarrow> addr \<Rightarrow> pmem \<Rightarrow> (STATUS \<times> pmem) option" where
  "memPartFree e partId pBlock m =
     (case PART_VERIFY_ne_OK partId m of (bad, m) \<Rightarrow>
        if bad then Some (ERROR, m)
        else if pBlock = 0 then Some (ERROR, m)
        else do {
          let pHeader = BLOCK_TO_HEADER pBlock;
          m \<leftarrow> mp_take partId m;
          (valid, m) \<leftarrow> (if mpOptions (parts m partId) AND MEM_BLOCK_CHECK \<noteq> 0
            then memPartBlockValidate partId pHeader False m else Some (True, m));
          if \<not> valid
          then Some (ERROR, mp_suspend e partId MEM_BLOCK_ERROR_SUSPEND_FLAG
            (mp_errno S_memPartLib_BLOCK_ERROR (me_blockError e partId pBlock (mp_give partId m))))
          else
            let nWords = bhWords (bhdrs m pHeader);
                (pHeader, m) = join_prev partId pHeader nWords m;
                m = join_next partId pHeader m;
                m = upd_part partId (\<lambda>p. p\<lparr>mpCurrBlocks := mpCurrBlocks p - 1,
                  mpCurrWords := mpCurrWords p - nWords\<rparr>) m
            in Some (OK, mp_give partId m)
        })"

subsection \<open>Resizing\<close>

text \<open>Copying the old contents to the new block is left out: the bytes of the blocks are not modelled. When the
  block is resized in place, and when it is found invalid, the result is a variable not set before on one
  path: \<open>junk\<close>.\<close>

definition memPartRealloc :: "mp_env \<Rightarrow> addr \<Rightarrow> ptr \<Rightarrow> addr \<Rightarrow> u32 \<Rightarrow> pmem \<Rightarrow> (addr \<times> pmem) option" where
  "memPartRealloc e junk partId p nBytes m =
     (case PART_VERIFY_ne_OK partId m of (bad, m) \<Rightarrow>
        if bad then Some (0, m)
        else if p = 0 then memPartAlloc e partId nBytes m
        else if nBytes = 0 then do { (st, m) \<leftarrow> memPartFree e partId p m; Some (0, m) }
        else do {
          let pHeader = BLOCK_TO_HEADER p;
          m \<leftarrow> mp_take partId m;
          let nWords = alloc_words nBytes;
          let nWords = (if nWords < mpMinBlockWords (parts m partId)
            then mpMinBlockWords (parts m partId) else nWords);
          (valid, m) \<leftarrow> (if mpOptions (parts m partId) AND MEM_BLOCK_CHECK \<noteq> 0
            then memPartBlockValidate partId pHeader False m else Some (True, m));
          if \<not> valid then Some (0, me_blockError e partId p (mp_give partId m))
          else do {
            let pNextHeader = NEXT_HEADER m pHeader;
            if nWords > bhWords (bhdrs m pHeader) \<and>
              (\<not> bhFree (bhdrs m pNextHeader) \<or>
               bhWords (bhdrs m pHeader) + bhWords (bhdrs m pNextHeader) < nWords)
            then do {
              (pNewBlock, m) \<leftarrow> memPartAlloc e partId nBytes (mp_give partId m);
              if pNewBlock \<noteq> 0
              then do { (st, m) \<leftarrow> memPartFree e partId p m; Some (pNewBlock, m) }
              else Some (pNewBlock, m)
            }
            else do {
              let m = (if nWords > bhWords (bhdrs m pHeader)
                then
                  let m = snd (dllRemove (FREE_LIST partId) (HEADER_TO_NODE pNextHeader) m);
                      more = bhWords (bhdrs m pNextHeader);
                      m = set_words pHeader (bhWords (bhdrs m pHeader) + more) m;
                      m = upd_part partId (\<lambda>p. p\<lparr>mpCurrWords := mpCurrWords p + more,
                        mpCumWords := mpCumWords p + more\<rparr>) m
                  in set_pprev (NEXT_HEADER m pHeader) pHeader m
                else m);
              let (pNextHeader, m) = memAlignedBlockSplit partId pHeader (bhWords (bhdrs m pHeader) - nWords)
                (mpMinBlockWords (parts m partId)) memDefaultAlignment m;
              let m = mp_give partId m;
              if pNextHeader \<noteq> 0
              then do {
                (st, m) \<leftarrow> memPartFree e partId (HEADER_TO_BLOCK pNextHeader) m;
                Some (junk, upd_part partId (\<lambda>p. p\<lparr>mpCurrBlocks := mpCurrBlocks p + 1\<rparr>) m)
              }
              else Some (junk, m)
            }
          }
        })"

end
