(* ===== verification/MemPartLayout.thy ===== *)
theory MemPartLayout
  imports MemPartLib
begin

text \<open>
  The layout of a memory partition: the headers of a pool cut it into blocks without gap or overlap,
  every header points back at the one before, the free list holds exactly the free blocks, no two free
  blocks are neighbours and the counters count the allocated blocks (\<open>mp_ok\<close>). Addresses are natural
  numbers here; the first lemmas take the code's 32-bit arithmetic to them.
\<close>

subsection \<open>Addresses as numbers\<close>

abbreviation ad :: "nat \<Rightarrow> u32" where "ad \<equiv> word_of_nat"

lemma unat_ad: "a < 2 ^ 32 \<Longrightarrow> unat (ad a) = a"
  by (simp add: unat_of_nat)

lemma ad_inj: "a < 2 ^ 32 \<Longrightarrow> b < 2 ^ 32 \<Longrightarrow> ad a = ad b \<longleftrightarrow> a = b"
  by (metis unat_ad)

lemma ad_less: "a < 2 ^ 32 \<Longrightarrow> b < 2 ^ 32 \<Longrightarrow> ad a < ad b \<longleftrightarrow> a < b"
  by (simp add: word_less_nat_alt unat_ad)

lemma ad_le: "a < 2 ^ 32 \<Longrightarrow> b < 2 ^ 32 \<Longrightarrow> ad a \<le> ad b \<longleftrightarrow> a \<le> b"
  by (simp add: word_le_nat_alt unat_ad)

lemma ad_0: "a < 2 ^ 32 \<Longrightarrow> ad a = 0 \<longleftrightarrow> a = 0"
  using ad_inj [of a 0] by simp

lemma ad_diff: "b \<le> a \<Longrightarrow> ad a - ad b = ad (a - b)"
  by (simp add: of_nat_diff)

lemma ad_half: "a < 2 ^ 32 \<Longrightarrow> ad a div 2 = ad (a div 2)"
  by (rule word_unat_eq_iff [THEN iffD2]) (simp add: unat_div unat_ad)

lemma ad_shift: "a < 2 ^ 32 \<Longrightarrow> drop_bit 1 (ad a) = ad (a div 2)"
  using ad_half [of a] by (simp add: drop_bit_eq_div)

lemma sint_ad: "a < 2 ^ 31 \<Longrightarrow> sint (ad a) = int a"
  by (simp add: sint_uint uint_nat unat_ad signed_take_bit_int_eq_self)

lemma ad_sdiv:
  assumes "a < 2 ^ 31"
  shows "(word_of_int (sint (ad a) sdiv 2) :: u32) = ad (a div 2)"
proof -
  have "sint (ad a) sdiv 2 = int (a div 2)"
    by (cases "a = 0") (simp_all add: sint_ad [OF assms] signed_divide_int_def zdiv_int)
  then show ?thesis by simp
qed

lemma ad_words: "n < 2 ^ 31 \<Longrightarrow> ad n AND 0x7fffffff = ad n"
proof -
  assume "n < 2 ^ 31"
  have "(0x7fffffff :: u32) = mask 31" by (simp add: mask_eq_exp_minus_1)
  then have "unat (ad n AND 0x7fffffff) = unat (ad n)"
    using \<open>n < 2 ^ 31\<close> by (simp only: take_bit_eq_mask [symmetric] unsigned_take_bit_eq)
      (simp add: unat_ad take_bit_nat_eq_self)
  then show ?thesis by (rule word_unat_eq_iff [THEN iffD2])
qed

text \<open>Clearing low bits rounds down to a multiple.\<close>

lemma and_not_low:
  fixes w :: u32
  shows "unat (w AND NOT (2 ^ k - 1)) = unat w - unat w mod 2 ^ k"
proof -
  have "w = (w AND NOT (mask k)) + (w AND mask k)"
    by (subst disjunctive_add) (auto simp: bit_simps intro: bit_word_eqI)
  then have "w AND NOT (mask k) = w - take_bit k w"
    by (simp add: take_bit_eq_mask algebra_simps)
  moreover have "take_bit k w \<le> w"
    by (simp add: word_le_nat_alt unsigned_take_bit_eq take_bit_nat_less_eq_self)
  ultimately show ?thesis
    by (simp add: mask_eq_exp_minus_1 [symmetric] unat_sub unsigned_take_bit_eq)
      (simp add: take_bit_eq_mod)
qed

lemma ad_align_down: "a < 2 ^ 32 \<Longrightarrow> ad a AND NOT (2 ^ k - 1) = ad (a - a mod 2 ^ k)"
  by (rule word_unat_eq_iff [THEN iffD2]) (simp only: and_not_low unat_ad less_imp_diff_less)

lemma ad_aligned:
  assumes "a < 2 ^ 32"
  shows "ALIGNED (ad a) (2 ^ k) \<longleftrightarrow> 2 ^ k dvd a"
proof -
  have "ALIGNED (ad a) (2 ^ k) \<longleftrightarrow> take_bit k (ad a) = 0"
    by (simp add: ALIGNED_def take_bit_eq_mask mask_eq_exp_minus_1)
  also have "\<dots> \<longleftrightarrow> a mod 2 ^ k = 0"
    using assms by (simp add: word_unat_eq_iff unsigned_take_bit_eq unat_ad) (simp add: take_bit_eq_mod)
  finally show ?thesis by (simp add: dvd_eq_mod_eq_0)
qed

lemma ad_round_up:
  assumes "a + 3 < 2 ^ 32"
  shows "MEM_ROUND_UP (ad a) = ad ((a + 3) - (a + 3) mod 4)"
  using ad_align_down [OF assms, of 2] by (simp add: MEM_ROUND_UP_def)

lemma ad_round_down: "a < 2 ^ 32 \<Longrightarrow> MEM_ROUND_DOWN (ad a) = ad (a - a mod 4)"
  using ad_align_down [of a 2] by (simp add: MEM_ROUND_DOWN_def)

subsection \<open>The blocks of a pool\<close>

text \<open>A block: the address of its header, its size in words with the header, and whether it is free.\<close>

type_synonym blk = "nat \<times> nat \<times> bool"

text \<open>
  \<open>tiles h p a bs z\<close>: the headers in \<open>h\<close> cut the bytes from \<open>a\<close> to \<open>z\<close> into the blocks \<open>bs\<close>, the first
  with \<open>p\<close> as the header before it.
\<close>

fun tiles :: "(addr \<Rightarrow> BLOCK_HEADER) \<Rightarrow> nat \<Rightarrow> nat \<Rightarrow> blk list \<Rightarrow> nat \<Rightarrow> bool" where
  "tiles h p a [] z \<longleftrightarrow> a = z"
| "tiles h p a ((b, n, f) # bs) z \<longleftrightarrow> b = a \<and> 4 \<le> n \<and> even n \<and>
     h (ad b) = \<lparr>bhPrev = ad p, bhWords = ad n, bhFree = f\<rparr> \<and> tiles h b (b + 2 * n) bs z"

definition last_hdr :: "nat \<Rightarrow> blk list \<Rightarrow> nat" where
  "last_hdr p bs = last (p # map fst bs)"

definition words_of :: "blk list \<Rightarrow> nat" where
  "words_of bs = sum_list (map (\<lambda>(b, n, f). n) bs)"

definition owned :: "blk list \<Rightarrow> blk list" where
  "owned bs = filter (\<lambda>(b, n, f). \<not> f) bs"

definition free_nodes :: "blk list \<Rightarrow> nat set" where
  "free_nodes bs = {b + 8 |b n. (b, n, True) \<in> set bs}"

definition apart :: "blk list \<Rightarrow> bool" where
  "apart bs \<longleftrightarrow> successively (\<lambda>(b, n, f) (b', n', f'). \<not> (f \<and> f')) bs"

lemma last_hdr_simps [simp]:
  "last_hdr p [] = p" "last_hdr p (xs @ [(b, n, f)]) = b" "last_hdr p ((b, n, f) # xs) = last_hdr b xs"
  "last_hdr p (xs @ (b, n, f) # ys) = last_hdr b ys"
  by (simp_all add: last_hdr_def)

lemma words_of_simps [simp]:
  "words_of [] = 0" "words_of ((b, n, f) # xs) = n + words_of xs"
  "words_of (xs @ ys) = words_of xs + words_of ys"
  by (simp_all add: words_of_def)

lemma owned_simps [simp]:
  "owned [] = []" "owned ((b, n, f) # xs) = (if f then owned xs else (b, n, f) # owned xs)"
  "owned (xs @ ys) = owned xs @ owned ys"
  by (simp_all add: owned_def)

lemma free_nodes_simps [simp]:
  "free_nodes [] = {}"
  "free_nodes ((b, n, f) # xs) = (if f then insert (b + 8) (free_nodes xs) else free_nodes xs)"
  "free_nodes (xs @ ys) = free_nodes xs \<union> free_nodes ys"
  by (auto simp: free_nodes_def)

lemma tiles_append:
  "tiles h p a (xs @ ys) z \<longleftrightarrow>
     tiles h p a xs (a + 2 * words_of xs) \<and> tiles h (last_hdr p xs) (a + 2 * words_of xs) ys z"
  by (induction xs arbitrary: p a) (auto simp: algebra_simps)

lemma tiles_end: "tiles h p a bs z \<Longrightarrow> z = a + 2 * words_of bs"
  by (induction bs arbitrary: p a) fastforce+

lemma tiles_bounds: "tiles h p a bs z \<Longrightarrow> (b, n, f) \<in> set bs \<Longrightarrow> a \<le> b \<and> b + 2 * n \<le> z \<and> 4 \<le> n \<and> even n"
proof (induction bs arbitrary: p a)
  case (Cons x bs)
  obtain b' n' f' where x: "x = (b', n', f')" by (cases x)
  have t: "tiles h b' (b' + 2 * n') bs z" "b' = a" "4 \<le> n'" "even n'" using Cons.prems(1) by (auto simp: x)
  show ?case
  proof (cases "(b, n, f) = x")
    case True
    then show ?thesis using t tiles_end [OF t(1)] by (auto simp: x)
  next
    case False
    then show ?thesis using Cons.IH [OF t(1)] Cons.prems(2) t by auto
  qed
qed simp

lemma tiles_cong:
  "(\<And>b n f. (b, n, f) \<in> set bs \<Longrightarrow> h' (ad b) = h (ad b)) \<Longrightarrow> tiles h' p a bs z = tiles h p a bs z"
  by (induction bs arbitrary: p a) (auto, metis+)

lemma tiles_aligned: "tiles h p a bs z \<Longrightarrow> 4 dvd a \<Longrightarrow> (b, n, f) \<in> set bs \<Longrightarrow> 4 dvd b"
proof (induction bs arbitrary: p a)
  case (Cons x bs)
  obtain b' n' f' where x: "x = (b', n', f')" by (cases x)
  have "4 dvd 2 * n'" if "even n'" using that by (metis dvd_times_left_cancel_iff mult_2 num_double numeral_times_numeral zero_neq_numeral)
  then have "4 dvd b' + 2 * n'" using Cons.prems by (auto simp: x)
  then show ?case using Cons by (auto simp: x)
qed simp

text \<open>Two different blocks do not overlap.\<close>

lemma tiles_disjoint:
  assumes "tiles h p a bs z" and "i < length bs" and "j < length bs" and "i \<noteq> j"
    and "bs ! i = (b, n, f)" and "bs ! j = (b', n', f')"
  shows "b + 2 * n \<le> b' \<or> b' + 2 * n' \<le> b"
proof -
  have *: "c + 2 * k \<le> c'" if "i' < j'" "j' < length bs" "bs ! i' = (c, k, g)" "bs ! j' = (c', k', g')"
    for i' j' c k g c' k' g'
  proof -
    have "bs = take i' bs @ (c, k, g) # drop (Suc i') bs"
      using that id_take_nth_drop [of i' bs] by simp
    then have "tiles h (last_hdr p (take i' bs)) (a + 2 * words_of (take i' bs)) ((c, k, g) # drop (Suc i') bs) z"
      using assms(1) tiles_append by metis
    then have "tiles h c (c + 2 * k) (drop (Suc i') bs) z" by (metis tiles.simps(2))
    moreover have "(c', k', g') \<in> set (drop (Suc i') bs)"
      using that nth_mem [of "j' - Suc i'" "drop (Suc i') bs"] by simp
    ultimately show ?thesis using tiles_bounds by blast
  qed
  show ?thesis using assms * [of i j b n f b' n' f'] * [of j i b' n' f' b n f] by linarith
qed

subsection \<open>A partition in order\<close>

text \<open>The pool from \<open>a0\<close> to \<open>z + 8\<close>: a header at each end, that is never freed, and the blocks between them.\<close>

definition whole :: "nat \<Rightarrow> blk list \<Rightarrow> nat \<Rightarrow> blk list" where
  "whole a0 bs z = (a0, 4, False) # bs @ [(z, 4, False)]"

definition part_counts :: "PARTITION \<Rightarrow> nat \<Rightarrow> blk list \<Rightarrow> nat \<Rightarrow> bool" where
  "part_counts P a0 bs z \<longleftrightarrow> mpIsPart P \<and> mpMinBlockWords P = 8 \<and>
     mpTotalWords P = ad ((z + 8 - a0) div 2) \<and>
     mpCurrBlocks P = ad (length (owned bs)) \<and> mpCurrWords P = ad (words_of (owned bs))"

definition pool_ok :: "(addr \<Rightarrow> BLOCK_HEADER) \<Rightarrow> nat \<Rightarrow> blk list \<Rightarrow> nat \<Rightarrow> bool" where
  "pool_ok h a0 bs z \<longleftrightarrow> 0 < a0 \<and> 4 dvd a0 \<and> z + 8 < 2 ^ 32 \<and> z + 8 - a0 < 2 ^ 31 \<and>
     tiles h 0 a0 (whole a0 bs z) (z + 8) \<and> (\<forall>(b, n, f) \<in> set bs. 8 \<le> n) \<and> apart bs"

definition frees_ok :: "pmem \<Rightarrow> ptr \<Rightarrow> blk list \<Rightarrow> bool" where
  "frees_ok m part bs \<longleftrightarrow> (\<exists>fl. dll_rep m (FREE_LIST part) fl \<and> set fl = free_nodes bs)"

definition mp_ok :: "ptr \<Rightarrow> pmem \<Rightarrow> nat \<Rightarrow> blk list \<Rightarrow> nat \<Rightarrow> bool" where
  "mp_ok part m a0 bs z \<longleftrightarrow> pool_ok (bhdrs m) a0 bs z \<and> frees_ok m part bs \<and>
     part_counts (parts m part) a0 bs z \<and> mpSemFull (parts m part)"

text \<open>What the updates leave alone.\<close>

lemma upd_reads [heap_simps]:
  "bhdrs (upd_hdr h f m) = (bhdrs m)(h := f (bhdrs m h))"
  "parts (upd_hdr h f m) = parts m"
  "dnodes (upd_hdr h f m) = dnodes m"
  "dlists (upd_hdr h f m) = dlists m"
  "perrno (upd_hdr h f m) = perrno m"
  "parts (upd_part p g m) = (parts m)(p := g (parts m p))"
  "bhdrs (upd_part p g m) = bhdrs m"
  "dnodes (upd_part p g m) = dnodes m"
  "dlists (upd_part p g m) = dlists m"
  "perrno (upd_part p g m) = perrno m"
  by (simp_all add: upd_hdr_def upd_part_def)

lemma more_reads [heap_simps]:
  "bhdrs (set_next n v m) = bhdrs m" "parts (set_next n v m) = parts m" "perrno (set_next n v m) = perrno m"
  "bhdrs (set_prev n v m) = bhdrs m" "parts (set_prev n v m) = parts m" "perrno (set_prev n v m) = perrno m"
  "bhdrs (set_head l v m) = bhdrs m" "parts (set_head l v m) = parts m" "perrno (set_head l v m) = perrno m"
  "bhdrs (set_tail l v m) = bhdrs m" "parts (set_tail l v m) = parts m" "perrno (set_tail l v m) = perrno m"
  by (simp_all add: store_defs)

lemma list_op_reads [heap_simps]:
  "bhdrs (snd (dllRemove l n m)) = bhdrs m" "parts (snd (dllRemove l n m)) = parts m"
  "bhdrs (snd (dllInsert l p n m)) = bhdrs m" "parts (snd (dllInsert l p n m)) = parts m"
  "bhdrs (snd (dllAdd l n m)) = bhdrs m" "parts (snd (dllAdd l n m)) = parts m"
  "bhdrs (snd (dllInit l m)) = bhdrs m" "parts (snd (dllInit l m)) = parts m"
  "perrno (snd (dllRemove l n m)) = perrno m" "perrno (snd (dllInsert l p n m)) = perrno m"
  "perrno (snd (dllAdd l n m)) = perrno m"
  by (simp_all add: dllRemove_def dllInsert_def dllAdd_def dllInit_def Let_def heap_simps)

lemma dll_rep_cong:
  "dnodes m' = dnodes m \<Longrightarrow> dlists m' = dlists m \<Longrightarrow> dll_rep m' l xs = dll_rep m l xs"
  by (rule dll_rep_frame) simp_all

lemma set_field_defs: "set_words h n m = upd_hdr h (\<lambda>b. b\<lparr>bhWords := n AND 0x7fffffff\<rparr>) m"
  "set_pprev h p m = upd_hdr h (\<lambda>b. b\<lparr>bhPrev := p\<rparr>) m"
  "set_free h g m = upd_hdr h (\<lambda>b. b\<lparr>bhFree := g\<rparr>) m"
  by (simp_all add: set_words_def set_pprev_def set_free_def)

lemma set_field_rep [simp]:
  "dll_rep (upd_hdr h f m) l xs = dll_rep m l xs"
  "dll_rep (set_words h n m) l xs = dll_rep m l xs" "dll_rep (set_pprev h p m) l xs = dll_rep m l xs"
  "dll_rep (set_free h g m) l xs = dll_rep m l xs" "dll_rep (upd_part k q m) l xs = dll_rep m l xs"
  by (simp_all add: set_field_defs upd_hdr_def upd_part_def cong: dll_rep_cong)

lemma node_of: "b + 8 < 2 ^ 32 \<Longrightarrow> HEADER_TO_NODE (ad b) = b + 8"
  using unat_ad [of "b + 8"] by (simp add: HEADER_TO_NODE_def)

lemma hdr_of: "NODE_TO_HEADER (b + 8) = ad b"
  by (simp add: NODE_TO_HEADER_def)

text \<open>A block of the pool between its neighbours.\<close>

lemma pool_split:
  assumes "pool_ok h a0 bs z" and "bs = L @ (b, n, f) # R"
  obtains L' pb pn pf c nc fc R' where
    "(a0, 4, False) # L = L' @ [(pb, pn, pf)]" and "R @ [(z, 4, False)] = (c, nc, fc) # R'"
    and "whole a0 bs z = L' @ (pb, pn, pf) # (b, n, f) # (c, nc, fc) # R'" and "c = b + 2 * n"
    and "b = pb + 2 * pn"
proof -
  obtain L' pb pn pf where L: "(a0, 4, False) # L = L' @ [(pb, pn, pf)]"
    by (metis append_butlast_last_id list.distinct(1) prod_cases3)
  obtain c nc fc R' where R: "R @ [(z, 4, False)] = (c, nc, fc) # R'"
    by (metis append_is_Nil_conv list.exhaust list.distinct(1) prod_cases3)
  have w: "whole a0 bs z = L' @ (pb, pn, pf) # (b, n, f) # (c, nc, fc) # R'"
    using assms(2) L R by (simp add: whole_def)
  then have "tiles h 0 a0 (L' @ (pb, pn, pf) # (b, n, f) # (c, nc, fc) # R') (z + 8)"
    using assms(1) by (simp add: pool_ok_def)
  then have "c = b + 2 * n" "b = pb + 2 * pn" by (simp_all only: tiles_append tiles.simps)
  with L R w show thesis using that by blast
qed

end
