(* ===== verification/MemPartAlloc.thy ===== *)
theory MemPartAlloc
  imports MemPartLayout
begin

text \<open>
  Allocating from a memory partition keeps its layout: where \<open>memAlignedBlockSplit\<close> puts a block, the pool
  after some blocks are replaced by others over the same bytes, the search of the free list, and the
  result of \<open>memPartAlignedAlloc\<close> (\<open>alloc_runs\<close>).
\<close>

subsection \<open>Splitting a block\<close>

text \<open>
  Where a block of \<open>N\<close> words goes in the block from \<open>b\<close> with \<open>n\<close> words: the header of the new block, as
  high as the alignment allows, and the free pieces left before and after it.
\<close>

definition new_hdr :: "nat \<Rightarrow> nat \<Rightarrow> nat \<Rightarrow> nat \<Rightarrow> nat" where
  "new_hdr N al b n = (let t = b + 2 * n - 2 * (N - 4) in t - t mod al - 8)"

definition piece_before :: "nat \<Rightarrow> nat \<Rightarrow> blk list" where
  "piece_before b nh = (if nh = b then [] else [(b, (nh - b) div 2, True)])"

definition words_new :: "nat \<Rightarrow> nat \<Rightarrow> nat \<Rightarrow> nat" where
  "words_new N nh e = (if e - nh - 2 * N < 16 then (e - nh) div 2 else N)"

definition piece_after :: "nat \<Rightarrow> nat \<Rightarrow> nat \<Rightarrow> blk list" where
  "piece_after N nh e = (if e - nh - 2 * N < 16 then [] else [(nh + 2 * N, (e - nh - 2 * N) div 2, True)])"

definition room :: "nat \<Rightarrow> nat \<Rightarrow> nat \<Rightarrow> nat \<Rightarrow> bool" where
  "room N k b n \<longleftrightarrow> 2 \<le> k \<and> k < 32 \<and> 8 \<le> N \<and> even N \<and> even n \<and> 4 dvd b \<and> 0 < b \<and> 8 \<le> n \<and>
     b + 2 * n < 2 ^ 32 \<and> 2 * n < 2 ^ 31 \<and> b + 2 * N \<le> b + 2 * n \<and>
     (let t = b + 2 * n - 2 * (N - 4) in b + 8 \<le> t - t mod 2 ^ k)"

lemma room_facts:
  assumes "room N k b n" and nh: "nh = new_hdr N (2 ^ k) b n"
  shows "b \<le> nh" "4 dvd nh" "nh + 2 * N \<le> b + 2 * n" "2 ^ k dvd nh + 8"
    "nh + 8 = (b + 2 * n - 2 * (N - 4)) - (b + 2 * n - 2 * (N - 4)) mod 2 ^ k"
proof -
  define t where "t = b + 2 * n - 2 * (N - 4)"
  have r: "2 \<le> k" "8 \<le> N" "b + 2 * N \<le> b + 2 * n" "b + 8 \<le> t - t mod 2 ^ k" "4 dvd b"
    using assms(1) by (simp_all add: room_def Let_def t_def)
  have nh8: "nh + 8 = t - t mod 2 ^ k" using r by (simp add: nh new_hdr_def Let_def t_def)
  then show "nh + 8 = (b + 2 * n - 2 * (N - 4)) - (b + 2 * n - 2 * (N - 4)) mod 2 ^ k"
    by (simp only: t_def)
  show "b \<le> nh" using nh8 r by linarith
  show "nh + 2 * N \<le> b + 2 * n" using nh8 r by (simp add: t_def)
  show al: "2 ^ k dvd nh + 8" by (simp add: nh8 dvd_minus_mod)
  have "(4 :: nat) dvd 2 ^ k" using r(1) power_le_dvd [of "2 :: nat" k "2 ^ k" 2] by simp
  then have "4 dvd nh + 8" using al dvd_trans by blast
  then show "4 dvd nh" using dvd_add_left_iff [of 4 8 nh] by presburger
qed

lemma split_unfold:
  assumes room: "room N k b n" and h: "bhdrs m (ad b) = \<lparr>bhPrev = ad p, bhWords = ad n, bhFree = True\<rparr>"
    and nh: "nh = new_hdr N (2 ^ k) b n" and e: "e = b + 2 * n"
  shows "memAlignedBlockSplit part (ad b) (ad N) 8 (2 ^ k) m =
    (if nh - b < 16 \<and> nh \<noteq> b then (0, m)
     else let m1 = (if nh = b then snd (dllRemove (FREE_LIST part) (b + 8) m)
                    else set_words (ad b) (ad ((nh - b) div 2)) (set_pprev (ad nh) (ad b) m))
     in if e - nh - 2 * N < 16
        then (ad nh, set_pprev (NEXT_HEADER (set_free (ad nh) True (set_words (ad nh) (ad ((e - nh) div 2)) m1)) (ad nh))
          (ad nh) (set_free (ad nh) True (set_words (ad nh) (ad ((e - nh) div 2)) m1)))
        else let m2 = set_free (ad nh) True (set_words (ad nh) (ad N) m1);
                 nx = NEXT_HEADER m2 (ad nh);
                 m3 = snd (dllAdd (FREE_LIST part) (HEADER_TO_NODE nx) (set_free nx True (set_pprev nx (ad nh)
                   (set_words nx ((ad e - nx) div 2) m2))))
             in (ad nh, set_pprev (NEXT_HEADER m3 nx) nx m3))"
proof -
  note F = room_facts [OF room nh]
  have r: "8 \<le> N" "8 \<le> n" "even n" "0 < b" "e < 2 ^ 32" "2 * n < 2 ^ 31" "k < 32"
    using room by (simp_all add: room_def e)
  have e1: "ad b + bhWords (bhdrs m (ad b)) * 2 = ad e" by (simp add: h e)
  define t where "t = b + 2 * n - 2 * (N - 4)"
  have N4: "(ad N - 4) * 2 = ad (2 * (N - 4))" using ad_diff [of 4 N] r(1) by simp
  have te: "ad e - (ad N - 4) * 2 = ad t"
    unfolding N4 using ad_diff [of "2 * (N - 4)" e] r(1) F(3) by (simp add: t_def e)
  have t32: "t < 2 ^ 32" and nh8: "nh + 8 = t - t mod 2 ^ k" using r(5) F(5) by (simp_all add: t_def e)
  have nb: "(ad e - (ad N - 4) * 2) AND NOT (2 ^ k - 1) = ad (nh + 8)"
    by (simp only: te ad_align_down [OF t32] nh8)
  have nb2: "BLOCK_TO_HEADER (ad (nh + 8)) = ad nh" by (simp add: BLOCK_TO_HEADER_def)
  have lt: "nh < 2 ^ 32" "nh - b < 2 ^ 31" "e - nh < 2 ^ 32" "nh \<noteq> 0" "b < 2 ^ 32" using F r by (auto simp: e)
  have dd: "even (nh - b)" using F(1,2) room by (auto simp: room_def elim!: dvdE)
  have bs: "(word_of_int (sint (ad nh - ad b) sdiv 2) :: u32) = ad ((nh - b) div 2)"
    using ad_sdiv [OF lt(2)] ad_diff [OF F(1)] by simp
  have c1: "ad ((nh - b) div 2) < 8 \<longleftrightarrow> nh - b < 16" using lt(2) dd ad_less [of "(nh - b) div 2" 8] by auto
  have c2: "ad nh = ad b \<longleftrightarrow> nh = b" and c3: "ad nh \<noteq> 0" using ad_inj ad_0 lt by auto
  have le: "nh \<le> e" "2 * N \<le> e - nh" using F(3) by (auto simp: e)
  have "ad e - ad nh - ad N * 2 = ad (e - nh - 2 * N)"
    using ad_diff [OF le(1)] ad_diff [OF le(2)] by (simp add: mult.commute)
  then have c4: "ad e - ad nh - ad N * 2 < 8 * 2 \<longleftrightarrow> e - nh - 2 * N < 16"
    using ad_less [of "e - nh - 2 * N" 16] lt(3) by simp
  have "ad e - ad (nh + 8) + 8 = ad (e - nh)" using ad_diff [OF le(1)] by (simp add: algebra_simps)
  then have c5: "(ad e - ad (nh + 8) + 8) div 2 = ad ((e - nh) div 2)" using ad_half [OF lt(3)] by simp
  have nd: "HEADER_TO_NODE (ad b) = b + 8" using r F(1) by (intro node_of) (simp add: e)
  show ?thesis
    unfolding memAlignedBlockSplit_def e1 Let_def nb nb2 bs c1 c2 c4 c5 nd
    using c3 c4 by (cases "nh = b") (simp_all add: c2)
qed

text \<open>The first step cuts the block in two, or takes the whole block off the free list.\<close>

definition split_start :: "ptr \<Rightarrow> nat \<Rightarrow> nat \<Rightarrow> pmem \<Rightarrow> pmem" where
  "split_start part b nh m =
     (if nh = b then snd (dllRemove (FREE_LIST part) (b + 8) m)
      else set_words (ad b) (ad ((nh - b) div 2)) (set_pprev (ad nh) (ad b) m))"

lemma dll_rep_remove:
  assumes "dll_rep m l fl" and "x \<in> set fl"
  shows "\<exists>fl'. dll_rep (snd (dllRemove l x m)) l fl' \<and> set fl' = set fl - {x}"
proof -
  obtain as bs where fl: "fl = as @ x # bs" using assms(2) split_list by fast
  have "distinct fl" using assms(1) by (simp add: dll_rep_def)
  then have "set (as @ bs) = set fl - {x}" using fl by auto
  then show ?thesis using dllRemove_rep [of m l as x bs] assms(1) fl by blast
qed

lemma split_start_spec:
  assumes room: "room N k b n" and h: "bhdrs m (ad b) = \<lparr>bhPrev = ad p, bhWords = ad n, bhFree = True\<rparr>"
    and nh: "nh = new_hdr N (2 ^ k) b n"
    and fl: "dll_rep m (FREE_LIST part) fl" "b + 8 \<in> set fl"
    and m1: "m1 = split_start part b nh m"
  shows "bhPrev (bhdrs m1 (ad nh)) = ad (last_hdr p (piece_before b nh))"
    and "nh \<noteq> b \<Longrightarrow> bhdrs m1 (ad b) = \<lparr>bhPrev = ad p, bhWords = ad ((nh - b) div 2), bhFree = True\<rparr>"
    and "x < 2 ^ 32 \<Longrightarrow> x \<noteq> b \<Longrightarrow> x \<noteq> nh \<Longrightarrow> bhdrs m1 (ad x) = bhdrs m (ad x)"
    and "parts m1 = parts m" and "perrno m1 = perrno m"
    and "\<exists>fl1. dll_rep m1 (FREE_LIST part) fl1 \<and> set fl1 = set fl - (if nh = b then {b + 8} else {})"
proof -
  note F = room_facts [OF room nh]
  have lt: "nh < 2 ^ 32" "b < 2 ^ 32" "(nh - b) div 2 < 2 ^ 31" using F room by (auto simp: room_def)
  have ne: "nh \<noteq> b \<Longrightarrow> ad nh \<noteq> ad b" using ad_inj lt by simp
  show "bhPrev (bhdrs m1 (ad nh)) = ad (last_hdr p (piece_before b nh))"
    using ne h by (auto simp: m1 split_start_def piece_before_def heap_simps set_field_defs)
  show "bhdrs m1 (ad b) = \<lparr>bhPrev = ad p, bhWords = ad ((nh - b) div 2), bhFree = True\<rparr>" if "nh \<noteq> b"
    using ne [OF that] that h ad_words [OF lt(3)] by (simp add: m1 split_start_def heap_simps set_field_defs)
  show "bhdrs m1 (ad x) = bhdrs m (ad x)" if "x < 2 ^ 32" "x \<noteq> b" "x \<noteq> nh"
    using that lt by (simp add: m1 split_start_def heap_simps set_field_defs ad_inj)
  show "parts m1 = parts m" "perrno m1 = perrno m"
    by (simp_all add: m1 split_start_def heap_simps set_field_defs)
  show "\<exists>fl1. dll_rep m1 (FREE_LIST part) fl1 \<and> set fl1 = set fl - (if nh = b then {b + 8} else {})"
    using dll_rep_remove [OF fl] fl(1) by (cases "nh = b") (auto simp: m1 split_start_def set_field_defs)
qed

text \<open>The second step writes the header of the new block, and of the piece after it.\<close>

definition split_end :: "ptr \<Rightarrow> nat \<Rightarrow> nat \<Rightarrow> nat \<Rightarrow> pmem \<Rightarrow> pmem" where
  "split_end part N nh e m1 =
     (if e - nh - 2 * N < 16
      then set_pprev (NEXT_HEADER (set_free (ad nh) True (set_words (ad nh) (ad ((e - nh) div 2)) m1)) (ad nh))
          (ad nh) (set_free (ad nh) True (set_words (ad nh) (ad ((e - nh) div 2)) m1))
      else let m2 = set_free (ad nh) True (set_words (ad nh) (ad N) m1);
               nx = NEXT_HEADER m2 (ad nh);
               m3 = snd (dllAdd (FREE_LIST part) (HEADER_TO_NODE nx) (set_free nx True (set_pprev nx (ad nh)
                 (set_words nx ((ad e - nx) div 2) m2))))
           in set_pprev (NEXT_HEADER m3 nx) nx m3)"

lemma split_eq:
  assumes "room N k b n" and "bhdrs m (ad b) = \<lparr>bhPrev = ad p, bhWords = ad n, bhFree = True\<rparr>"
    and "nh = new_hdr N (2 ^ k) b n" and "e = b + 2 * n"
  shows "memAlignedBlockSplit part (ad b) (ad N) 8 (2 ^ k) m =
    (if nh - b < 16 \<and> nh \<noteq> b then (0, m) else (ad nh, split_end part N nh e (split_start part b nh m)))"
  unfolding split_unfold [OF assms] by (simp add: split_start_def split_end_def Let_def)

lemma split_end_spec:
  assumes le: "nh + 2 * N \<le> e" "e < 2 ^ 32" "e - nh < 2 ^ 31" "4 dvd e - nh" "8 \<le> N" "even N" "0 < nh"
    and fl: "dll_rep m1 (FREE_LIST part) fl1" "16 \<le> e - nh - 2 * N \<Longrightarrow> nh + 2 * N + 8 \<notin> set fl1"
    and m': "m' = split_end part N nh e m1"
  shows "bhdrs m' (ad nh) = \<lparr>bhPrev = bhPrev (bhdrs m1 (ad nh)), bhWords = ad (words_new N nh e), bhFree = True\<rparr>"
    and "tiles (bhdrs m') nh (nh + 2 * words_new N nh e) (piece_after N nh e) e"
    and "bhdrs m' (ad e) = (bhdrs m1 (ad e))\<lparr>bhPrev := ad (last_hdr nh (piece_after N nh e))\<rparr>"
    and "x < 2 ^ 32 \<Longrightarrow> x < nh \<or> e < x \<Longrightarrow> bhdrs m' (ad x) = bhdrs m1 (ad x)"
    and "parts m' = parts m1" and "perrno m' = perrno m1"
    and "\<exists>fl'. dll_rep m' (FREE_LIST part) fl' \<and> set fl' = set fl1 \<union> free_nodes (piece_after N nh e)"
proof -
  have t: "bhdrs m' (ad nh) = \<lparr>bhPrev = bhPrev (bhdrs m1 (ad nh)), bhWords = ad (words_new N nh e), bhFree = True\<rparr> \<and>
    tiles (bhdrs m') nh (nh + 2 * words_new N nh e) (piece_after N nh e) e \<and>
    bhdrs m' (ad e) = (bhdrs m1 (ad e))\<lparr>bhPrev := ad (last_hdr nh (piece_after N nh e))\<rparr> \<and>
    (\<forall>x. x < 2 ^ 32 \<longrightarrow> x < nh \<or> e < x \<longrightarrow> bhdrs m' (ad x) = bhdrs m1 (ad x)) \<and>
    parts m' = parts m1 \<and> perrno m' = perrno m1 \<and>
    (\<exists>fl'. dll_rep m' (FREE_LIST part) fl' \<and> set fl' = set fl1 \<union> free_nodes (piece_after N nh e))"
  proof (cases "e - nh - 2 * N < 16")
    case True
    have w: "ad ((e - nh) div 2) AND 0x7fffffff = ad ((e - nh) div 2)" using le by (intro ad_words) simp
    have e: "ad nh + 2 * ad ((e - nh) div 2) = ad e"
    proof -
      have "even (e - nh)" by (rule dvd_trans [OF _ le(4)]) simp
      then have "nh + 2 * ((e - nh) div 2) = e" using le by simp
      then show ?thesis by (metis of_nat_add of_nat_mult of_nat_numeral)
    qed
    have ne: "ad e \<noteq> ad nh" using le ad_inj [of e nh] by simp
    have x: "ad x \<noteq> ad nh" "ad x \<noteq> ad e" if "x < 2 ^ 32" "x < nh \<or> e < x" for x
      using that le ad_inj [of x nh] ad_inj [of x e] by auto
    show ?thesis
      using True w e ne x le fl(1)
      by (auto simp: m' split_end_def words_new_def piece_after_def NEXT_HEADER_def heap_simps set_field_defs)
  next
    case False
    define nx where "nx = nh + 2 * N"
    define r where "r = e - nh - 2 * N"
    have r: "e = nx + r" "16 \<le> r" "r < 2 ^ 31" "N < 2 ^ 31" using False le by (auto simp: nx_def r_def)
    have "even (e - nh)" by (rule dvd_trans [OF _ le(4)]) simp
    then have r2: "even r" using le(1) by (simp add: r_def)
    have w: "ad N AND 0x7fffffff = ad N" "ad (r div 2) AND 0x7fffffff = ad (r div 2)"
      using r by (auto intro!: ad_words)
    have nx: "ad nh + 2 * ad N = ad nx" by (simp add: nx_def)
    have half: "(ad e - ad nx) div 2 = ad (r div 2)" using ad_diff [of nx e] ad_half [of r] r by simp
    have e: "ad nx + 2 * ad (r div 2) = ad e"
    proof -
      have "nx + 2 * (r div 2) = e" using r r2 by simp
      then show ?thesis by (metis of_nat_add of_nat_mult of_nat_numeral)
    qed
    have ne: "ad nx \<noteq> ad nh" "ad e \<noteq> ad nx" "ad e \<noteq> ad nh"
      using le r ad_inj [of nx nh] ad_inj [of e nx] ad_inj [of e nh] by (simp_all add: nx_def)
    have x: "ad x \<noteq> ad nh" "ad x \<noteq> ad nx" "ad x \<noteq> ad e" if "x < 2 ^ 32" "x < nh \<or> e < x" for x
      using that le r ad_inj [of x nh] ad_inj [of x nx] ad_inj [of x e] by (auto simp: nx_def)
    have nd: "HEADER_TO_NODE (ad nx) = nx + 8" using r le by (intro node_of) simp
    have "4 dvd 2 * N" using le(6) by (auto elim!: dvdE)
    then have "4 dvd r" unfolding r_def by (rule dvd_diff_nat [OF le(4)])
    then have four: "even (r div 2)" by (auto elim!: dvdE)
    define m2 where "m2 = set_free (ad nx) True (set_pprev (ad nx) (ad nh) (set_words (ad nx) (ad (r div 2))
      (set_free (ad nh) True (set_words (ad nh) (ad N) m1))))"
    have m'2: "m' = set_pprev (ad e) (ad nx) (snd (dllAdd (FREE_LIST part) (nx + 8) m2))"
      using False w nx half e ne nd
      by (simp add: m' split_end_def Let_def NEXT_HEADER_def heap_simps set_field_defs m2_def)
    have "dll_rep m2 (FREE_LIST part) fl1" using fl(1) by (simp add: m2_def)
    then have fl': "dll_rep m' (FREE_LIST part) (fl1 @ [nx + 8])"
      using dllAdd_rep [of m2 "FREE_LIST part" fl1 "nx + 8"] fl(2) False by (simp add: m'2 nx_def)
    show ?thesis
      using False w nx e ne x le r r2 four fl'
      by (auto simp: m'2 m2_def words_new_def piece_after_def NEXT_HEADER_def heap_simps set_field_defs
          r_def [symmetric] nx_def [symmetric])
  qed
  then show "bhdrs m' (ad nh) = \<lparr>bhPrev = bhPrev (bhdrs m1 (ad nh)), bhWords = ad (words_new N nh e), bhFree = True\<rparr>"
    and "tiles (bhdrs m') nh (nh + 2 * words_new N nh e) (piece_after N nh e) e"
    and "bhdrs m' (ad e) = (bhdrs m1 (ad e))\<lparr>bhPrev := ad (last_hdr nh (piece_after N nh e))\<rparr>"
    and "x < 2 ^ 32 \<Longrightarrow> x < nh \<or> e < x \<Longrightarrow> bhdrs m' (ad x) = bhdrs m1 (ad x)"
    and "parts m' = parts m1" and "perrno m' = perrno m1"
    and "\<exists>fl'. dll_rep m' (FREE_LIST part) fl' \<and> set fl' = set fl1 \<union> free_nodes (piece_after N nh e)"
    by blast+
qed

subsection \<open>Replacing blocks in a pool\<close>

text \<open>
  Some blocks in the middle of a pool are replaced by others over the same bytes: the headers outside
  are as before, but the one right after points back at the new last block.
\<close>

lemma tiles_replace:
  assumes t: "tiles h p0 a0 (X @ mid @ (c, nc, fc) # R') z" and X: "X \<noteq> []"
    and b: "b = a0 + 2 * words_of X" and z: "z < 2 ^ 32 + 2"
    and mid: "tiles h' (last_hdr p0 X) b mid' c"
    and hc: "h' (ad c) = (h (ad c))\<lparr>bhPrev := ad (last_hdr (last_hdr p0 X) mid')\<rparr>"
    and out: "\<And>x. x < 2 ^ 32 \<Longrightarrow> x < b \<or> c < x \<Longrightarrow> h' (ad x) = h (ad x)"
  shows "tiles h' p0 a0 (X @ mid' @ (c, nc, fc) # R') z"
proof -
  have tX: "tiles h p0 a0 X b" and tr: "tiles h (last_hdr (last_hdr p0 X) mid) c ((c, nc, fc) # R') z"
    using t b by (auto simp: tiles_append)
  have bnd: "x + 2 * n \<le> b" "4 \<le> n" if "(x, n, f) \<in> set X" for x n f using tiles_bounds [OF tX that] by auto
  have c: "b + 2 * words_of mid' = c" using tiles_end [OF mid] by simp
  have tR: "tiles h c (c + 2 * nc) R' z" and nc: "4 \<le> nc" "even nc"
    and hc0: "h (ad c) = \<lparr>bhPrev = ad (last_hdr (last_hdr p0 X) mid), bhWords = ad nc, bhFree = fc\<rparr>"
    using tr by auto
  have bR: "c < x \<and> x < 2 ^ 32" if "(x, n, f) \<in> set R'" for x n f
    using tiles_bounds [OF tR that] nc z by linarith
  have zc: "c + 2 * nc \<le> z" using tiles_end [OF tR] by simp
  have bc: "b \<le> c" using c by linarith
  have "h' (ad x) = h (ad x)" if "(x, n, f) \<in> set X" for x n f
    using out [of x] bnd [OF that] bc zc z nc by linarith
  then have "tiles h' p0 a0 X b" using tX tiles_cong [of X h' h p0 a0 b] by metis
  moreover have "tiles h' c (c + 2 * nc) R' z"
    using tR tiles_cong [of R' h' h c "c + 2 * nc" z] out bR by metis
  ultimately show ?thesis
    using mid c hc hc0 nc b by (simp add: tiles_append last_hdr_def)
qed

lemma apart_replace:
  assumes "apart (L @ (b, n, True) # R)" and "apart mid'" and "mid' \<noteq> []"
  shows "apart (L @ mid' @ R)"
proof -
  have "L \<noteq> [] \<Longrightarrow> \<not> snd (snd (last L))" and "R \<noteq> [] \<Longrightarrow> \<not> snd (snd (hd R))" and "apart L" "apart R"
    using assms(1) by (auto simp: apart_def successively_append_iff successively_Cons split: prod.splits)
  then show ?thesis
    using assms(2,3) by (auto simp: apart_def successively_append_iff split: prod.splits)
qed

lemma pool_replace:
  assumes ok: "pool_ok h a0 (L @ mid @ R) z"
    and b: "b = a0 + 8 + 2 * words_of L" and c: "c = b + 2 * words_of mid"
    and mid: "tiles h' (last_hdr a0 L) b mid' c"
    and hc: "h' (ad c) = (h (ad c))\<lparr>bhPrev := ad (last_hdr (last_hdr a0 L) mid')\<rparr>"
    and out: "\<And>x. x < 2 ^ 32 \<Longrightarrow> x < b \<or> c < x \<Longrightarrow> h' (ad x) = h (ad x)"
    and big: "\<forall>(b, n, f) \<in> set mid'. 8 \<le> n" and ap: "apart (L @ mid' @ R)"
  shows "pool_ok h' a0 (L @ mid' @ R) z"
proof -
  obtain c' nc fc R' where R: "R @ [(z, 4, False)] = (c', nc, fc) # R'"
    by (metis append_is_Nil_conv list.exhaust list.distinct(1) prod_cases3)
  have t: "tiles h 0 a0 (((a0, 4, False) # L) @ mid @ (c', nc, fc) # R') (z + 8)"
    using ok R by (simp add: pool_ok_def whole_def)
  then have "c' = c" using b c by (auto simp: tiles_append)
  have "tiles h' 0 a0 (((a0, 4, False) # L) @ mid' @ (c', nc, fc) # R') (z + 8)"
  proof (rule tiles_replace [OF t])
    show "z + 8 < 2 ^ 32 + 2" using ok by (simp add: pool_ok_def)
  qed (use b mid hc out \<open>c' = c\<close> in auto)
  moreover have "\<forall>(b, n, f) \<in> set (L @ mid' @ R). 8 \<le> n"
    using ok big unfolding pool_ok_def by (simp add: ball_Un)
  ultimately show ?thesis
    using ok ap R unfolding pool_ok_def whole_def by simp
qed

text \<open>Facts about one block of a pool.\<close>

lemma pool_block:
  assumes ok: "pool_ok h a0 (L @ (b, n, f) # R) z"
  shows "b = a0 + 8 + 2 * words_of L" "4 dvd b" "0 < b" "even n" "8 \<le> n" "b + 2 * n \<le> z" "z + 8 < 2 ^ 32"
    "2 * n < 2 ^ 31" "h (ad b) = \<lparr>bhPrev = ad (last_hdr a0 L), bhWords = ad n, bhFree = f\<rparr>"
    "z + 8 - a0 < 2 ^ 31" "a0 + 8 \<le> b"
proof -
  have t: "tiles h 0 a0 ((a0, 4, False) # L @ (b, n, f) # R @ [(z, 4, False)]) (z + 8)"
    and z: "z + 8 < 2 ^ 32" "z + 8 - a0 < 2 ^ 31" and a: "4 dvd a0" "0 < a0" and n: "8 \<le> n"
    using ok by (auto simp: pool_ok_def whole_def)
  have t2: "tiles h (last_hdr a0 L) (a0 + 8 + 2 * words_of L) ((b, n, f) # R @ [(z, 4, False)]) (z + 8)"
    using t by (auto simp: tiles_append)
  then have t3: "tiles h b (b + 2 * n) (R @ [(z, 4, False)]) (z + 8)" by auto
  show b: "b = a0 + 8 + 2 * words_of L" using t2 by simp
  show "even n" "h (ad b) = \<lparr>bhPrev = ad (last_hdr a0 L), bhWords = ad n, bhFree = f\<rparr>" using t2 by auto
  show bz: "b + 2 * n \<le> z" using tiles_end [OF t3] by simp
  show "4 dvd b" using tiles_aligned [OF t a(1), of b n f] by simp
  show "0 < b" "8 \<le> n" "z + 8 < 2 ^ 32" "z + 8 - a0 < 2 ^ 31" "a0 + 8 \<le> b" using a b n z by simp_all
  then show "2 * n < 2 ^ 31" using bz by linarith
qed

text \<open>No block starts inside another.\<close>

lemma pool_sides:
  assumes ok: "pool_ok h a0 (L @ (b, n, f) # R) z"
  shows "(x, n', f') \<in> set L \<Longrightarrow> x + 2 * n' \<le> b \<and> 4 \<le> n'" and "(x, n', f') \<in> set R \<Longrightarrow> b + 2 * n \<le> x"
proof -
  have t: "tiles h 0 a0 ((a0, 4, False) # L @ (b, n, f) # R @ [(z, 4, False)]) (z + 8)"
    using ok by (auto simp: pool_ok_def whole_def)
  then have "tiles h a0 (a0 + 8) L (a0 + 8 + 2 * words_of L)" and "b = a0 + 8 + 2 * words_of L"
    and "tiles h b (b + 2 * n) (R @ [(z, 4, False)]) (z + 8)"
    by (auto simp: tiles_append)
  then show "(x, n', f') \<in> set L \<Longrightarrow> x + 2 * n' \<le> b \<and> 4 \<le> n'" and "(x, n', f') \<in> set R \<Longrightarrow> b + 2 * n \<le> x"
    using tiles_bounds by fastforce+
qed

lemma pool_no_inside:
  assumes "pool_ok h a0 (L @ (b, n, f) # R) z" and "(x, n', f') \<in> set (L @ (b, n, f) # R)"
  shows "x = b \<or> x + 2 * n' \<le> b \<or> b + 2 * n \<le> x"
  using assms(2) pool_sides [OF assms(1)] by auto

lemma node_once:
  assumes ok: "pool_ok h a0 (L @ (b, n, f) # R) z"
  shows "b + 8 \<notin> free_nodes L" and "b + 8 \<notin> free_nodes R"
  using pool_sides [OF ok, of b] pool_block(5) [OF ok] by (fastforce simp: free_nodes_def)+

lemma room_pool:
  assumes ok: "pool_ok h a0 (L @ (b, n, f) # R) z" and N: "8 \<le> N" "even N" "2 \<le> k" "k < 32"
    and fit: "n > N + 2 ^ k div 2 \<or> n = N \<and> 2 ^ k dvd b + 8"
  shows "room N k b n"
proof -
  note P = pool_block [OF ok]
  define t where "t = b + 2 * n - 2 * (N - 4)"
  have k2: "2 * (2 ^ k div 2) = (2 :: nat) ^ k" using N(3) by (cases k) auto
  have "b + 8 \<le> t - t mod 2 ^ k"
    using fit
  proof
    assume *: "n > N + 2 ^ k div 2"
    have "t mod 2 ^ k < 2 ^ k" by simp
    moreover have "b + 8 + 2 ^ k \<le> t" using * k2 N(1) unfolding t_def by linarith
    ultimately show ?thesis by linarith
  next
    assume *: "n = N \<and> 2 ^ k dvd b + 8"
    then have "t = b + 8" using N(1) by (simp add: t_def)
    then show ?thesis using * by simp
  qed
  moreover have "N \<le> n" using fit by auto
  ultimately show ?thesis unfolding room_def Let_def t_def [symmetric] using P(2-8) N by simp
qed

text \<open>Giving out a block of at least \<open>N\<close> words from the free block at \<open>b\<close>.\<close>

lemma carve_ok:
  assumes ok: "pool_ok (bhdrs m) a0 (L @ (b, n, True) # R) z"
    and fl: "dll_rep m (FREE_LIST part) fl" "set fl = free_nodes (L @ (b, n, True) # R)"
    and room: "room N k b n" and nh: "nh = new_hdr N (2 ^ k) b n" and e: "e = b + 2 * n"
    and d: "\<not> (nh - b < 16 \<and> nh \<noteq> b)"
    and m': "m' = set_free (ad nh) False (split_end part N nh e (split_start part b nh m))"
    and mid': "mid' = piece_before b nh @ (nh, words_new N nh e, False) # piece_after N nh e"
  shows "pool_ok (bhdrs m') a0 (L @ mid' @ R) z" and "frees_ok m' part (L @ mid' @ R)"
    and "parts m' = parts m" and "perrno m' = perrno m"
    and "bhWords (bhdrs m' (ad nh)) = ad (words_new N nh e)"
proof -
  note P = pool_block [OF ok] and F = room_facts [OF room nh]
  define m1 where "m1 = split_start part b nh m"
  define m2 where "m2 = split_end part N nh e m1"
  have bb: "b + 8 \<in> set fl" using fl(2) by simp
  note S = split_start_spec [OF room P(9) nh fl(1) bb m1_def]
  obtain fl1 where fl1: "dll_rep m1 (FREE_LIST part) fl1" "set fl1 = set fl - (if nh = b then {b + 8} else {})"
    using S(6) by blast
  have N: "8 \<le> N" "even N" using room by (simp_all add: room_def)
  have four: "4 dvd 2 * n" using P(4) by (auto elim!: dvdE)
  have e4: "4 dvd e" unfolding e by (rule dvd_add [OF P(2) four])
  have le: "nh + 2 * N \<le> e" "e < 2 ^ 32" "e - nh < 2 ^ 31" "4 dvd e - nh" "8 \<le> N" "even N" "0 < nh"
    using F P N dvd_diff_nat [OF e4 F(2)] by (auto simp: e)
  have inside: "x = b \<or> x + 2 * k \<le> b \<or> e \<le> x" if "(x, k, f) \<in> set (L @ (b, n, True) # R)" for x k f
    using pool_no_inside [OF ok that] by (simp add: e)
  have nin: "nh + 2 * N + 8 \<notin> set fl1" if a: "16 \<le> e - nh - 2 * N"
  proof
    assume "nh + 2 * N + 8 \<in> set fl1"
    then obtain k where "(nh + 2 * N, k, True) \<in> set (L @ (b, n, True) # R)"
      using fl1(2) fl(2) by (auto simp: free_nodes_def)
    then show False using inside F(1) N(1) a by fastforce
  qed
  note E = split_end_spec [OF le fl1(1) nin m2_def]
  have m'': "m' = set_free (ad nh) False m2" by (simp add: m' m2_def m1_def)
  have reads: "bhdrs m' (ad nh) = \<lparr>bhPrev = ad (last_hdr (last_hdr a0 L) (piece_before b nh)),
      bhWords = ad (words_new N nh e), bhFree = False\<rparr>"
    "x < 2 ^ 32 \<Longrightarrow> x \<noteq> nh \<Longrightarrow> bhdrs m' (ad x) = bhdrs m2 (ad x)" for x
    using E(1) S(1) le ad_inj [of x nh] by (auto simp: m'' set_field_defs heap_simps)
  show "bhWords (bhdrs m' (ad nh)) = ad (words_new N nh e)" by (simp add: reads(1))
  show "parts m' = parts m" "perrno m' = perrno m"
    using E(5,6) S(4,5) by (simp_all add: m'' set_field_defs heap_simps)
  have w: "8 \<le> words_new N nh e" "even (words_new N nh e)" "nh + 2 * words_new N nh e \<le> e"
    using le by (auto simp: words_new_def elim!: dvdE)
  have "bhdrs m' (ad x) = bhdrs m2 (ad x)" if "(x, k, g) \<in> set (piece_after N nh e)" for x k g
    using tiles_bounds [OF E(2) that] reads(2) [of x] w(1) le(2) by linarith
  then have after: "tiles (bhdrs m') nh (nh + 2 * words_new N nh e) (piece_after N nh e) e"
    using E(2) tiles_cong [of "piece_after N nh e" "bhdrs m'" "bhdrs m2" nh "nh + 2 * words_new N nh e" e] by metis
  have b4: "4 dvd nh - b" using dvd_diff_nat [OF F(2) P(2)] .
  have rb: "bhdrs m' (ad b) = \<lparr>bhPrev = ad (last_hdr a0 L), bhWords = ad ((nh - b) div 2), bhFree = True\<rparr>" if "nh \<noteq> b"
    using S(2) [OF that] E(4) [of b] reads(2) [of b] that F(1) le by simp
  have before: "4 \<le> (nh - b) div 2" "even ((nh - b) div 2)" "b + 2 * ((nh - b) div 2) = nh" if "nh \<noteq> b"
    using that d b4 F(1) by (auto elim!: dvdE)
  have mid: "tiles (bhdrs m') (last_hdr a0 L) b mid' e"
    using rb before after reads(1) w by (auto simp: mid' piece_before_def)
  have last: "last_hdr (last_hdr a0 L) mid' = last_hdr nh (piece_after N nh e)" by (simp add: mid')
  show "pool_ok (bhdrs m') a0 (L @ mid' @ R) z"
  proof (rule pool_replace [where mid = "[(b, n, True)]", OF _ P(1)])
    show "pool_ok (bhdrs m) a0 (L @ [(b, n, True)] @ R) z" using ok by simp
    show "e = b + 2 * words_of [(b, n, True)]" by (simp add: e)
    show "tiles (bhdrs m') (last_hdr a0 L) b mid' e" by (rule mid)
    show "bhdrs m' (ad e) = (bhdrs m (ad e))\<lparr>bhPrev := ad (last_hdr (last_hdr a0 L) mid')\<rparr>"
      using E(3) S(3) [of e] reads(2) [of e] le F(1) P(5) by (simp add: last e)
    show "bhdrs m' (ad x) = bhdrs m (ad x)" if "x < 2 ^ 32" "x < b \<or> e < x" for x
      using E(4) [of x] S(3) [of x] reads(2) [of x] that le F(1) by auto
    show "\<forall>(b, n, f) \<in> set mid'. 8 \<le> n" using w before d F(1) le
      by (auto simp: mid' piece_before_def piece_after_def)
    show "apart (L @ mid' @ R)"
      by (rule apart_replace [of L b n R]) (use ok in \<open>auto simp: pool_ok_def mid' apart_def piece_before_def piece_after_def\<close>)
  qed
  obtain fl2 where fl2: "dll_rep m2 (FREE_LIST part) fl2" "set fl2 = set fl1 \<union> free_nodes (piece_after N nh e)"
    using E(7) by blast
  show "frees_ok m' part (L @ mid' @ R)"
    using fl2 fl1(2) fl(2) node_once [OF ok] unfolding frees_ok_def
    by (intro exI [of _ fl2]) (auto simp: m'' mid' piece_before_def)
qed

subsection \<open>Allocating\<close>

definition split_done :: "ptr \<Rightarrow> nat \<Rightarrow> nat \<Rightarrow> blk list \<Rightarrow> pmem \<Rightarrow> addr \<Rightarrow> pmem \<Rightarrow> bool" where
  "split_done part N k bs m r m' \<longleftrightarrow> (\<exists>L b n R nh. bs = L @ (b, n, True) # R \<and> room N k b n \<and>
     nh = new_hdr N (2 ^ k) b n \<and> \<not> (nh - b < 16 \<and> nh \<noteq> b) \<and> r = ad nh \<and>
     m' = split_end part N nh (b + 2 * n) (split_start part b nh m))"

text \<open>A free block of this size is never passed over.\<close>

lemma large_is_split:
  assumes "room N k b n" and "N + 2 ^ k div 2 + 8 \<le> n" and nh: "nh = new_hdr N (2 ^ k) b n"
  shows "16 \<le> nh - b"
proof -
  define t where "t = b + 2 * n - 2 * (N - 4)"
  have r: "2 \<le> k" "8 \<le> N" using assms(1) by (simp_all add: room_def)
  then have "2 * (2 ^ k div 2) = (2 :: nat) ^ k" by (cases k) auto
  then have "b + 24 + 2 ^ k \<le> t" using assms(2) r(2) by (simp add: t_def)
  moreover have "t mod 2 ^ k < 2 ^ k" by simp
  ultimately have "b + 24 \<le> t - t mod 2 ^ k" by linarith
  then show ?thesis by (simp add: nh new_hdr_def Let_def t_def [symmetric])
qed

lemma alloc_loop_spec:
  assumes ok: "pool_ok (bhdrs m) a0 bs z" and fl: "dll_rep m (FREE_LIST part) fl" "set fl = free_nodes bs"
    and N: "8 \<le> N" "even N" "2 \<le> k" "k < 32" "N + 2 ^ k div 2 < 2 ^ 32"
    and min: "mpMinBlockWords (parts m part) = 8" and sp: "fl = xs @ ys"
  shows "\<exists>r m'. alloc_loop part (ad N) (ad (N + 2 ^ k div 2)) (2 ^ k) (hd (ys @ [NULL])) m = Some (r, m') \<and>
    (r = 0 \<and> m' = m \<and> (\<forall>b n. (b, n, True) \<in> set bs \<longrightarrow> b + 8 \<in> set ys \<longrightarrow> n < N + 2 ^ k div 2 + 8) \<or>
     r \<noteq> 0 \<and> split_done part N k bs m r m')"
  using sp
proof (induction ys arbitrary: xs)
  case Nil
  then show ?case by (simp add: alloc_loop.simps)
next
  case (Cons y ys)
  have y0: "y \<noteq> NULL" and nxt: "DLL_NEXT m y = hd (ys @ [NULL])"
    using fl(1) Cons.prems by (simp_all add: dll_rep_def dseg_append heap_simps)
  obtain r m' where IH: "alloc_loop part (ad N) (ad (N + 2 ^ k div 2)) (2 ^ k) (DLL_NEXT m y) m = Some (r, m')"
    "r = 0 \<and> m' = m \<and> (\<forall>b n. (b, n, True) \<in> set bs \<longrightarrow> b + 8 \<in> set ys \<longrightarrow> n < N + 2 ^ k div 2 + 8) \<or>
     r \<noteq> 0 \<and> split_done part N k bs m r m'"
    using Cons.IH [of "xs @ [y]"] Cons.prems nxt by auto
  have "y \<in> free_nodes bs" using fl(2) Cons.prems by auto
  then obtain b n where y: "y = b + 8" and bn: "(b, n, True) \<in> set bs"
    unfolding free_nodes_def by blast
  obtain L R where bs: "bs = L @ (b, n, True) # R" using bn split_list by fast
  note ok' = ok [unfolded bs] and P = pool_block [OF ok [unfolded bs]]
  have only: "n' = n" if "(b, n', True) \<in> set bs" for n'
    using that pool_sides [OF ok', of b n' True] P(5) by (fastforce simp: bs)
  have hn: "NODE_TO_HEADER y = ad b" by (simp add: y hdr_of)
  have lt: "n < 2 ^ 32" "b + 8 < 2 ^ 32" "N < 2 ^ 32" "b < 2 ^ 32" using P N(5) by auto
  have fit: "block_fits (ad N) (ad (N + 2 ^ k div 2)) (2 ^ k) (ad b) m \<longleftrightarrow>
      N + 2 ^ k div 2 < n \<or> n = N \<and> 2 ^ k dvd b + 8"
    using P(9) ad_less [OF N(5) lt(1)] ad_inj [OF lt(1,3)] ad_aligned [OF lt(2), of k]
    by (simp add: block_fits_def HEADER_TO_BLOCK_def)
  show ?case
  proof (cases "N + 2 ^ k div 2 < n \<or> n = N \<and> 2 ^ k dvd b + 8")
    case False
    then have "alloc_loop part (ad N) (ad (N + 2 ^ k div 2)) (2 ^ k) y m = Some (r, m')"
      using y0 fit IH(1) hn by (simp add: alloc_loop.simps [of _ _ _ _ y])
    then show ?thesis using IH(2) False only by (auto simp: y)
  next
    case True
    define nh where "nh = new_hdr N (2 ^ k) b n"
    have room: "room N k b n" by (rule room_pool [OF ok' N(1-4) True])
    note F = room_facts [OF room nh_def] and eq = split_eq [OF room P(9) nh_def refl]
    show ?thesis
    proof (cases "nh - b < 16 \<and> nh \<noteq> b")
      case no: True
      then have "alloc_loop part (ad N) (ad (N + 2 ^ k div 2)) (2 ^ k) y m = Some (r, m')"
        using y0 fit IH(1) True hn by (simp add: alloc_loop.simps [of _ _ _ _ y] min eq)
      moreover have "n < N + 2 ^ k div 2 + 8" using large_is_split [OF room _ nh_def] no by fastforce
      ultimately show ?thesis using IH(2) only by (auto simp: y)
    next
      case yes: False
      have nz: "ad nh \<noteq> 0" using F P ad_0 [of nh] by auto
      then have "alloc_loop part (ad N) (ad (N + 2 ^ k div 2)) (2 ^ k) y m =
          Some (ad nh, split_end part N nh (b + 2 * n) (split_start part b nh m))"
        using y0 fit True yes hn by (auto simp add: alloc_loop.simps [of _ _ _ _ y] min eq)
      moreover have "split_done part N k bs m (ad nh) (split_end part N nh (b + 2 * n) (split_start part b nh m))"
        unfolding split_done_def using bs room nh_def yes by blast
      ultimately show ?thesis using nz by (simp add: y)
    qed
  qed
qed

text \<open>The memory handed out: the first byte of each allocated block and its length.\<close>

definition handed :: "blk list \<Rightarrow> (nat \<times> nat) set" where
  "handed bs = {(b + 8, 2 * n - 8) |b n. (b, n, False) \<in> set bs}"

lemma handed_simps [simp]:
  "handed [] = {}" "handed (xs @ ys) = handed xs \<union> handed ys"
  "handed ((b, n, f) # xs) = (if f then handed xs else insert (b + 8, 2 * n - 8) (handed xs))"
  by (auto simp: handed_def)

lemma handed_beside:
  assumes ok: "pool_ok h a0 (L @ (b, n, f) # R) z" and q: "(q, t) \<in> handed L \<union> handed R"
  shows "b + 2 * n \<le> q \<or> q + t \<le> b"
proof -
  obtain c k where c: "q = c + 8" "t = 2 * k - 8" "(c, k, False) \<in> set L \<or> (c, k, False) \<in> set R"
    using q by (auto simp: handed_def)
  then show ?thesis using pool_sides [OF ok, of c k False] by fastforce
qed

lemma alloc_words_eq:
  assumes "nb + 11 < 2 ^ 31"
  defines "W \<equiv> (nb + 11 - (nb + 11) mod 4) div 2"
  shows "alloc_words (ad nb) = ad W" "even W" "nb + 8 \<le> 2 * W" "2 * W < 2 ^ 31"
    "2 * W \<le> nb + 11" "\<not> push_bit 1 (alloc_words (ad nb)) < ad nb"
proof -
  have d: "4 dvd nb + 11 - (nb + 11) mod 4" by (rule dvd_minus_mod)
  have up: "MEM_ROUND_UP (ad nb + 8) = ad (nb + 11 - (nb + 11) mod 4)"
    using ad_round_up [of "nb + 8"] assms(1) by (simp add: add.commute)
  obtain j where j: "nb + 11 - (nb + 11) mod 4 = 4 * j" using d by (rule dvdE)
  define r where "r = (nb + 11) mod 4"
  have "r < 4" "r \<le> nb + 11" "nb + 11 - r = 4 * j" unfolding r_def by (simp, rule mod_less_eq_dividend, rule j)
  then have r: "nb + 11 = 4 * j + r" "r < 4" by linarith+
  have W: "W = 2 * j" unfolding W_def j by simp
  have W2: "2 * W = nb + 11 - (nb + 11) mod 4" unfolding j W by simp
  show "even W" by (simp add: W)
  show le: "nb + 8 \<le> 2 * W" "2 * W < 2 ^ 31" "2 * W \<le> nb + 11" using r assms(1) unfolding W by linarith+
  have "sint (alloc_words (ad nb)) = drop_bit 1 (int (2 * W))"
    by (simp only: alloc_words_def up sint_signed_drop_bit_eq sint_ad [OF le(2)] flip: W2)
  then have "sint (alloc_words (ad nb)) = sint (ad W)" using sint_ad [of W] le(2) by (simp add: drop_bit_eq_div)
  then show aw: "alloc_words (ad nb) = ad W" by (rule signed_word_eqI)
  have "unat (push_bit 1 (ad W)) = 2 * W" using le(2) by (simp add: push_bit_eq_mult unat_word_ariths unat_ad)
  then show "\<not> push_bit 1 (alloc_words (ad nb)) < ad nb"
    using le assms(1) by (simp add: aw word_less_nat_alt unat_ad)
qed

lemma give_take:
  assumes "mpSemFull (parts m part)"
  shows "mp_take part m = Some (upd_part part (\<lambda>p. p\<lparr>mpSemFull := False\<rparr>) m)"
    and "mp_give part (upd_part part (\<lambda>p. p\<lparr>mpSemFull := False\<rparr>) m) = m"
proof -
  show "mp_take part m = Some (upd_part part (\<lambda>p. p\<lparr>mpSemFull := False\<rparr>) m)"
    using assms by (simp add: mp_take_def)
  have "(parts m part)\<lparr>mpSemFull := True\<rparr> = parts m part" using assms by simp
  then show "mp_give part (upd_part part (\<lambda>p. p\<lparr>mpSemFull := False\<rparr>) m) = m"
    by (simp add: mp_give_def upd_part_def)
qed

text \<open>The free list and the headers do not see the semaphore and the counters.\<close>

lemma frees_cong: "dnodes m' = dnodes m \<Longrightarrow> dlists m' = dlists m \<Longrightarrow> frees_ok m' part bs = frees_ok m part bs"
  by (simp add: frees_ok_def dll_rep_cong [of m' m])

lemma alloc_result:
  assumes cnt: "part_counts (parts m part) a0 bs z" and ok: "pool_ok (bhdrs m) a0 bs z"
    and fl: "dll_rep m (FREE_LIST part) fl" "set fl = free_nodes bs"
    and sd: "split_done part N k bs m r m'"
    and m2: "m2 = mp_give part (count_alloc part (bhWords (bhdrs (set_free r False m') r)) (set_free r False m'))"
  shows "\<exists>bs' s. mp_ok part m2 a0 bs' z \<and> handed bs' = insert (unat r + 8, s) (handed bs) \<and>
    (\<forall>(q, t) \<in> handed bs. unat r + 8 + s \<le> q \<or> q + t \<le> unat r + 8) \<and> 2 * N - 8 \<le> s \<and> 2 ^ k dvd unat r + 8 \<and>
    unat r + 8 < 2 ^ 32"
proof -
  obtain L b n R nh where bs: "bs = L @ (b, n, True) # R" and room: "room N k b n"
    and nh: "nh = new_hdr N (2 ^ k) b n" and d: "\<not> (nh - b < 16 \<and> nh \<noteq> b)" and r: "r = ad nh"
    and m': "m' = split_end part N nh (b + 2 * n) (split_start part b nh m)"
    using sd unfolding split_done_def by blast
  define e where "e = b + 2 * n"
  define w where "w = words_new N nh e"
  define mid' where "mid' = piece_before b nh @ (nh, w, False) # piece_after N nh e"
  define m1 where "m1 = set_free r False m'"
  have m1e: "m1 = set_free (ad nh) False (split_end part N nh e (split_start part b nh m))"
    by (simp add: m1_def m' r e_def)
  note ok' = ok [unfolded bs] and fl' = fl(2) [unfolded bs]
  note C = carve_ok [OF ok' fl(1) fl' room nh e_def d m1e mid'_def [unfolded w_def]]
  note P = pool_block [OF ok'] and F = room_facts [OF room nh]
  have nh32: "nh < 2 ^ 32" using P F by simp
  have w: "2 * w \<le> e - nh" "2 * N \<le> 2 * w"
    using F(3) by (auto simp: w_def words_new_def e_def)
  have own: "owned (L @ mid' @ R) = owned L @ (nh, w, False) # owned R"
    by (simp add: mid'_def piece_before_def piece_after_def)
  have "bhWords (bhdrs m1 r) = ad w" using C(5) by (simp add: r w_def)
  then have parts: "parts m2 part = (parts m part)\<lparr>mpCurrBlocks := mpCurrBlocks (parts m part) + 1,
     mpCumBlocks := mpCumBlocks (parts m part) + 1, mpCurrWords := mpCurrWords (parts m part) + ad w,
     mpCumWords := mpCumWords (parts m part) + ad w, mpSemFull := True\<rparr>"
    using C(3) by (simp add: m2 m1_def [symmetric] mp_give_def count_alloc_def heap_simps)
  have same: "bhdrs m2 = bhdrs m1" "dnodes m2 = dnodes m1" "dlists m2 = dlists m1"
    by (simp_all add: m2 m1_def mp_give_def count_alloc_def heap_simps)
  have "mp_ok part m2 a0 (L @ mid' @ R) z"
    using C(1,2) cnt own unfolding mp_ok_def frees_cong [OF same(2,3)] same(1)
    by (simp add: parts part_counts_def bs)
  moreover have "handed (L @ mid' @ R) = insert (unat r + 8, 2 * w - 8) (handed bs)"
    using nh32 by (simp add: mid'_def piece_before_def piece_after_def bs r unat_ad)
  moreover have "unat r + 8 + (2 * w - 8) \<le> q \<or> q + t \<le> unat r + 8" if "(q, t) \<in> handed bs" for q t
    using handed_beside [OF ok', of q t] that F w nh32 by (fastforce simp: bs r unat_ad e_def)
  moreover have "nh + 8 < 2 ^ 32" using P F by simp
  ultimately show ?thesis
    using w F nh32 by (intro exI [of _ "L @ mid' @ R"] exI [of _ "2 * w - 8"]) (auto simp: r unat_ad)
qed

lemma alloc_runs:
  assumes ok: "mp_ok part m a0 bs z" and nb: "unat nBytes + 11 < 2 ^ 31" and k: "2 \<le> k" "k \<le> 30"
  defines "N \<equiv> max 8 (unat (alloc_words nBytes))"
  shows "memPartAlignedAlloc e part nBytes (2 ^ k) m = Some (0, alloc_failed e part nBytes m) \<and>
      (\<forall>b n. (b, n, True) \<in> set bs \<longrightarrow> n < N + 2 ^ k div 2 + 8) \<or>
    (\<exists>r m2 bs' s. memPartAlignedAlloc e part nBytes (2 ^ k) m = Some (r, m2) \<and> mp_ok part m2 a0 bs' z \<and>
      handed bs' = insert (unat r, s) (handed bs) \<and>
      (\<forall>(q, t) \<in> handed bs. unat r + s \<le> q \<or> q + t \<le> unat r) \<and>
      unat nBytes \<le> s \<and> 2 ^ k dvd unat r \<and> r \<noteq> 0)"
proof -
  define nB where "nB = unat nBytes"
  have nBy: "nBytes = ad nB" by (simp add: nB_def)
  note A = alloc_words_eq [OF nb [folded nB_def]]
  define W where "W = (nB + 11 - (nB + 11) mod 4) div 2"
  have W: "alloc_words nBytes = ad W" "even W" "nB + 8 \<le> 2 * W" "2 * W < 2 ^ 31"
    "\<not> push_bit 1 (alloc_words nBytes) < nBytes"
    using A unfolding nBy W_def by blast+
  have N: "N = max 8 W" "8 \<le> N" "even N" "W \<le> N" "N < 2 ^ 30"
    using W(1,2,4) by (auto simp: N_def unat_ad max_def)
  have Nw: "(if ad W < 8 then 8 else ad W) = ad N"
    using ad_less [of W 8] W(4) by (auto simp: N(1) max_def)
  have k2: "(2 ^ k :: nat) div 2 \<le> 2 ^ 29" using power_increasing [OF k(2), of "2 :: nat"] by simp
  have "(2 ^ k :: nat) < 2 ^ 32" using k(2) power_strict_increasing [of k 32 "2 :: nat"] by simp
  then have "(2 ^ k :: u32) div 2 = ad (2 ^ k div 2)" using ad_half [of "2 ^ k"] by simp
  then have pad: "ad N + 2 ^ k div 2 = ad (N + 2 ^ k div 2)" by simp
  have pool: "pool_ok (bhdrs m) a0 bs z" and cnt: "part_counts (parts m part) a0 bs z"
    and sem: "mpSemFull (parts m part)" and "frees_ok m part bs"
    using ok by (simp_all add: mp_ok_def)
  then obtain fl where fl: "dll_rep m (FREE_LIST part) fl" "set fl = free_nodes bs" by (auto simp: frees_ok_def)
  define mt where "mt = upd_part part (\<lambda>p. p\<lparr>mpSemFull := False\<rparr>) m"
  note T = give_take [OF sem, folded mt_def]
  have t: "pool_ok (bhdrs mt) a0 bs z" "dll_rep mt (FREE_LIST part) fl" "part_counts (parts mt part) a0 bs z"
    "mpMinBlockWords (parts mt part) = 8" "mpMinBlockWords (parts m part) = 8" "mpIsPart (parts m part)"
    using pool fl cnt by (simp_all add: mt_def heap_simps part_counts_def)
  have head: "DLL_HEAD mt (FREE_LIST part) = hd (fl @ [NULL])"
    using t(2) by (simp add: dll_rep_def heap_simps)
  have k32: "k < 32" and pad32: "N + 2 ^ k div 2 < 2 ^ 32" using k N(5) k2 by simp_all
  obtain r m' where L: "alloc_loop part (ad N) (ad (N + 2 ^ k div 2)) (2 ^ k) (hd (fl @ [NULL])) mt = Some (r, m')"
    and R: "r = 0 \<and> m' = mt \<and> (\<forall>b n. (b, n, True) \<in> set bs \<longrightarrow> b + 8 \<in> set fl \<longrightarrow> n < N + 2 ^ k div 2 + 8) \<or>
      r \<noteq> 0 \<and> split_done part N k bs mt r m'"
    using alloc_loop_spec [OF t(1,2) fl(2) N(2,3) k(1) k32 pad32 t(4), of "[]" fl] by (metis append_Nil)
  have L': "alloc_loop part (ad N) (ad N + 2 ^ k div 2) (2 ^ k) (hd (fl @ [NULL])) mt = Some (r, m')"
    using L by (simp only: pad)
  have v: "PART_VERIFY_ne_OK part m = (False, m)" using t(6) by (simp add: PART_VERIFY_ne_OK_def)
  have run: "memPartAlignedAlloc e part nBytes (2 ^ k) m =
     (if r = 0 then Some (0, alloc_failed e part nBytes (mp_give part m'))
      else Some (HEADER_TO_BLOCK r, mp_give part
        (count_alloc part (bhWords (bhdrs (set_free r False m') r)) (set_free r False m'))))"
    unfolding memPartAlignedAlloc_def v prod.case if_False Let_def W(1) t(5) Nw T(1)
    using W(5) L' head by (simp add: W(1) Let_def)
  show ?thesis
  proof (cases "r = 0")
    case True
    then have "n < N + 2 ^ k div 2 + 8" if "(b, n, True) \<in> set bs" for b n
      using R that fl(2) by (auto simp: free_nodes_def)
    then show ?thesis using True R run T(2) by auto
  next
    case False
    then have sd: "split_done part N k bs mt r m'" using R by simp
    define m2 where "m2 = mp_give part (count_alloc part (bhWords (bhdrs (set_free r False m') r)) (set_free r False m'))"
    obtain bs' s where res: "mp_ok part m2 a0 bs' z" "handed bs' = insert (unat r + 8, s) (handed bs)"
      "\<forall>(q, t) \<in> handed bs. unat r + 8 + s \<le> q \<or> q + t \<le> unat r + 8" "2 * N - 8 \<le> s" "2 ^ k dvd unat r + 8"
      "unat r + 8 < 2 ^ 32"
      using alloc_result [OF t(3,1,2) fl(2) sd m2_def] by blast
    have r8: "unat (HEADER_TO_BLOCK r) = unat r + 8"
      using res(6) by (simp add: HEADER_TO_BLOCK_def unat_word_ariths)
    then have "HEADER_TO_BLOCK r \<noteq> 0" by (metis add_is_0 unat_0 zero_neq_numeral)
    moreover have "unat nBytes \<le> s" using res(4) N(4) W(3) by (simp add: nB_def)
    moreover have "memPartAlignedAlloc e part nBytes (2 ^ k) m = Some (HEADER_TO_BLOCK r, m2)"
      using run False by (simp add: m2_def)
    ultimately show ?thesis using res(1,2,3,5) unfolding r8 [symmetric] by blast
  qed
qed

end
