(* ===== verification/MemPartFree.thy ===== *)
theory MemPartFree
  imports MemPartAlloc
begin

text \<open>
  Freeing a block keeps the layout: the block is joined with the free blocks on either side (\<open>free_runs\<close>).
  Then what every layout has: blocks handed out do not overlap, a pool with nothing handed out is one free
  block, and \<open>memPartInit\<close> makes such a pool.
\<close>

subsection \<open>Freeing\<close>

text \<open>The headers around a block.\<close>

lemma pool_next:
  assumes ok: "pool_ok h a0 (L @ (b, n, f) # R) z" and c: "(c, nc, fc) = hd (R @ [(z, 4, False)])"
  shows "c = b + 2 * n" "h (ad c) = \<lparr>bhPrev = ad b, bhWords = ad nc, bhFree = fc\<rparr>" "c + 2 * nc \<le> z + 8" "4 \<le> nc"
proof -
  obtain R' where R: "R @ [(z, 4, False)] = (c, nc, fc) # R'"
    using c by (metis append_is_Nil_conv list.collapse list.distinct(1))
  have "tiles h 0 a0 (((a0, 4, False) # L) @ [(b, n, f)] @ (c, nc, fc) # R') (z + 8)"
    using ok R by (simp add: pool_ok_def whole_def)
  then have t: "tiles h b (b + 2 * n) ((c, nc, fc) # R') (z + 8)" by (auto simp: tiles_append)
  then show "c = b + 2 * n" "h (ad c) = \<lparr>bhPrev = ad b, bhWords = ad nc, bhFree = fc\<rparr>" "4 \<le> nc" by auto
  show "c + 2 * nc \<le> z + 8" using tiles_end [OF t] \<open>c = b + 2 * n\<close> by simp
qed

lemma pool_prev:
  assumes ok: "pool_ok h a0 (L @ (b, n, f) # R) z" and p: "(pb, pn, pf) = last ((a0, 4, False) # L)"
  shows "pb = last_hdr a0 L" "b = pb + 2 * pn" "bhWords (h (ad pb)) = ad pn" "bhFree (h (ad pb)) = pf" "4 \<le> pn"
proof -
  obtain L' where L: "(a0, 4, False) # L = L' @ [(pb, pn, pf)]"
    using p by (metis append_butlast_last_id list.distinct(1))
  have "tiles h 0 a0 (((a0, 4, False) # L) @ (b, n, f) # R @ [(z, 4, False)]) (z + 8)"
    using ok by (simp add: pool_ok_def whole_def)
  then have "tiles h 0 a0 (L' @ (pb, pn, pf) # (b, n, f) # R @ [(z, 4, False)]) (z + 8)" unfolding L by simp
  then show "b = pb + 2 * pn" "bhWords (h (ad pb)) = ad pn" "bhFree (h (ad pb)) = pf" "4 \<le> pn"
    by (auto simp: tiles_append)
  have "last_hdr a0 L = last_hdr 0 ((a0, 4, False) # L)" by simp
  then show "pb = last_hdr a0 L" unfolding L by simp
qed

text \<open>An allocated block passes the check made before it is freed.\<close>

lemma owned_valid:
  assumes ok: "pool_ok (bhdrs m) a0 (L @ (b, n, False) # R) z"
    and tot: "mpTotalWords (parts m part) = ad ((z + 8 - a0) div 2)"
  shows "block_valid part (ad b) False m"
proof -
  note P = pool_block [OF ok]
  obtain pb pn pf where p: "(pb, pn, pf) = last ((a0, 4, False) # L)" by (metis prod_cases3)
  obtain c nc fc where c: "(c, nc, fc) = hd (R @ [(z, 4, False)])" by (metis prod_cases3)
  have four: "4 dvd 2 * n" using P(4) by (auto elim!: dvdE)
  have "2 * ad n = ad (2 * n)" by simp
  then have "ALIGNED (2 * ad n) (2 ^ 2)" using ad_aligned [of "2 * n" 2] four P by simp
  moreover have "ALIGNED (ad b) (2 ^ 2)" using ad_aligned [of b 2] P by simp
  moreover have "n \<le> (z + 8 - a0) div 2" and "(z + 8 - a0) div 2 < 2 ^ 32" and "n < 2 ^ 32" using P by auto
  then have "ad n \<le> ad ((z + 8 - a0) div 2)" by (simp add: ad_le)
  ultimately show ?thesis
    using pool_prev(1,2,3) [OF ok p] pool_next(1,2) [OF ok c] P(9)
    by (simp add: block_valid_def tot PREV_HEADER_def NEXT_HEADER_def)
qed

lemma apart_sides:
  assumes "apart (L @ (b, n, f) # R)"
  shows "apart L" "apart R" "f \<Longrightarrow> L \<noteq> [] \<Longrightarrow> \<not> snd (snd (last L))" "f \<Longrightarrow> R \<noteq> [] \<Longrightarrow> \<not> snd (snd (hd R))"
  using assms by (auto simp: apart_def successively_append_iff successively_Cons split: prod.splits)

lemma apart_free_between:
  assumes "apart L" "apart R" "L \<noteq> [] \<Longrightarrow> \<not> snd (snd (last L))" "R \<noteq> [] \<Longrightarrow> \<not> snd (snd (hd R))"
  shows "apart (L @ (b, n, f) # R)"
  using assms by (auto simp: apart_def successively_append_iff successively_Cons split: prod.splits)

text \<open>What is left of the blocks before the one freed, and the free block that now ends where it ended.\<close>

definition joined_prev :: "ptr \<Rightarrow> nat \<Rightarrow> blk list \<Rightarrow> nat \<Rightarrow> blk list \<Rightarrow> pmem \<Rightarrow> blk list \<Rightarrow> nat \<Rightarrow> nat \<Rightarrow> pmem \<Rightarrow> bool" where
  "joined_prev part a0 L e R m L0 s w m1 \<longleftrightarrow>
     s = a0 + 8 + 2 * words_of L0 \<and> s + 2 * w = e \<and> 8 \<le> w \<and> even w \<and>
     (\<exists>pre. L = L0 @ pre) \<and> owned L0 = owned L \<and> handed L0 = handed L \<and>
     apart L0 \<and> (L0 \<noteq> [] \<longrightarrow> \<not> snd (snd (last L0))) \<and>
     bhdrs m1 (ad s) = \<lparr>bhPrev = ad (last_hdr a0 L0), bhWords = ad w, bhFree = True\<rparr> \<and>
     (\<forall>x. x < 2 ^ 32 \<longrightarrow> x < s \<or> e \<le> x \<longrightarrow> bhdrs m1 (ad x) = bhdrs m (ad x)) \<and> parts m1 = parts m \<and>
     (\<exists>fl1. dll_rep m1 (FREE_LIST part) fl1 \<and> set fl1 = insert (s + 8) (free_nodes L0 \<union> free_nodes R))"

lemma join_prev_spec:
  assumes ok: "pool_ok (bhdrs m) a0 (L @ (b, n, False) # R) z"
    and fl: "dll_rep m (FREE_LIST part) fl" "set fl = free_nodes (L @ (b, n, False) # R)"
  shows "\<exists>L0 s w m1. join_prev part (ad b) (ad n) m = (ad s, m1) \<and>
    joined_prev part a0 L (b + 2 * n) R m L0 s w m1 \<and> (s = b \<or> s < b \<and> bhPrev (bhdrs m1 (ad b)) = ad s)"
proof -
  note P = pool_block [OF ok]
  have ap: "apart L" using ok apart_sides(1) [of L b n False R] by (simp add: pool_ok_def)
  obtain pb pn pf where p: "(pb, pn, pf) = last ((a0, 4, False) # L)" by (metis prod_cases3)
  note Q = pool_prev [OF ok p]
  have prev: "PREV_HEADER m (ad b) = ad pb" using P(9) Q(1) by (simp add: PREV_HEADER_def)
  have ne: "ad pb \<noteq> ad b" using Q P ad_inj [of pb b] by simp
  show ?thesis
  proof (cases pf)
    case False
    define m1 where "m1 = snd (dllInsert (FREE_LIST part) NULL (b + 8) (set_free (ad b) True m))"
    have run: "join_prev part (ad b) (ad n) m = (ad b, m1)"
      using False prev Q(4) node_of [of b] P by (simp add: join_prev_def m1_def)
    have rep: "dll_rep m1 (FREE_LIST part) ((b + 8) # fl)"
      using dllInsert_rep [of "set_free (ad b) True m" "FREE_LIST part" "[]" fl "b + 8"] fl node_once [OF ok]
      by (simp add: m1_def)
    have lst: "L \<noteq> [] \<longrightarrow> \<not> snd (snd (last L))" using False p by (cases "L = []") (auto, metis snd_conv)
    have out: "\<forall>x. x < 2 ^ 32 \<longrightarrow> x < b \<or> b + 2 * n \<le> x \<longrightarrow> bhdrs m1 (ad x) = bhdrs m (ad x)"
    proof (intro allI impI)
      fix x :: nat assume "x < 2 ^ 32" "x < b \<or> b + 2 * n \<le> x"
      then have "ad x \<noteq> ad b" using P ad_inj [of x b] by auto
      then show "bhdrs m1 (ad x) = bhdrs m (ad x)" by (simp add: m1_def heap_simps set_field_defs)
    qed
    have own: "bhdrs m1 (ad b) = \<lparr>bhPrev = ad (last_hdr a0 L), bhWords = ad n, bhFree = True\<rparr>" "parts m1 = parts m"
      using P(9) by (simp_all add: m1_def heap_simps set_field_defs)
    have "joined_prev part a0 L (b + 2 * n) R m L b n m1"
      unfolding joined_prev_def
    proof (intro conjI)
      show "\<exists>fl1. dll_rep m1 (FREE_LIST part) fl1 \<and> set fl1 = insert (b + 8) (free_nodes L \<union> free_nodes R)"
        using rep fl(2) by (intro exI [of _ "(b + 8) # fl"]) simp
    qed (rule P(1) refl P(4,5) ap lst own out | simp)+
    then show ?thesis using run by blast
  next
    case True
    define m1 where "m1 = set_words (ad pb) (ad pn + ad n) (set_free (ad b) False m)"
    have "L \<noteq> []" using True p by auto
    moreover from this have "last L = (pb, pn, True)" using True p by simp
    ultimately have L: "L = butlast L @ [(pb, pn, True)]" using append_butlast_last_id [of L] by simp
    define L0 where "L0 = butlast L"
    note L = L [folded L0_def]
    have "L @ (b, n, False) # R = L0 @ (pb, pn, True) # (b, n, False) # R" by (subst L) simp
    then have ok2: "pool_ok (bhdrs m) a0 (L0 @ (pb, pn, True) # (b, n, False) # R) z" using ok by simp
    note P2 = pool_block [OF ok2]
    have "pn + n < 2 ^ 31" using P P2 Q(2) by linarith
    then have w: "(ad pn + ad n) AND 0x7fffffff = ad (pn + n)" using ad_words [of "pn + n"] by simp
    have run: "join_prev part (ad b) (ad n) m = (ad pb, m1)"
      using True prev Q(3,4) ne by (simp add: join_prev_def m1_def Let_def PREV_HEADER_def heap_simps set_field_defs)
    have out: "\<forall>x. x < 2 ^ 32 \<longrightarrow> x < pb \<or> b + 2 * n \<le> x \<longrightarrow> bhdrs m1 (ad x) = bhdrs m (ad x)"
    proof (intro allI impI)
      fix x :: nat assume "x < 2 ^ 32" "x < pb \<or> b + 2 * n \<le> x"
      then have "ad x \<noteq> ad b" "ad x \<noteq> ad pb" using P Q(2,5) P2(5) ad_inj [of x b] ad_inj [of x pb] by auto
      then show "bhdrs m1 (ad x) = bhdrs m (ad x)" by (simp add: m1_def heap_simps set_field_defs)
    qed
    have own: "bhdrs m1 (ad pb) = \<lparr>bhPrev = ad (last_hdr a0 L0), bhWords = ad (pn + n), bhFree = True\<rparr>"
      "parts m1 = parts m"
      using P2(9) ne w by (simp_all add: m1_def heap_simps set_field_defs)
    have ap0: "apart L0" "L0 \<noteq> [] \<longrightarrow> \<not> snd (snd (last L0))"
      using apart_sides [of L0 pb pn True "[]"] ap [unfolded L] by auto
    have rep: "dll_rep m1 (FREE_LIST part) fl" using fl(1) by (simp add: m1_def)
    have bk: "pb < b \<and> bhPrev (bhdrs m1 (ad b)) = ad pb"
      using P(9) Q(1,2,5) ne by (simp add: m1_def heap_simps set_field_defs)
    have "joined_prev part a0 L (b + 2 * n) R m L0 pb (pn + n) m1"
      unfolding joined_prev_def
    proof (intro conjI)
      show "\<exists>fl1. dll_rep m1 (FREE_LIST part) fl1 \<and> set fl1 = insert (pb + 8) (free_nodes L0 \<union> free_nodes R)"
        using rep fl(2) by (intro exI [of _ fl]) (subst (asm) L, simp)
      show "\<exists>pre. L = L0 @ pre" "owned L0 = owned L" "handed L0 = handed L" by (rule exI, rule L) (subst L, simp)+
      show "pb + 2 * (pn + n) = b + 2 * n" "8 \<le> pn + n" "even (pn + n)" using Q(2) P(4,5) P2(4) by simp_all
    qed (rule P2(1) ap0 own out)+
    then show ?thesis using run bk by blast
  qed
qed

text \<open>The free block reaches to the end of the free block after it, if there is one.\<close>

definition joined_next :: "ptr \<Rightarrow> nat \<Rightarrow> blk list \<Rightarrow> nat \<Rightarrow> blk list \<Rightarrow> pmem \<Rightarrow> pmem \<Rightarrow> blk list \<Rightarrow> nat \<Rightarrow> pmem \<Rightarrow> bool" where
  "joined_next part e L0 s R m m1 R0 w m2 \<longleftrightarrow>
     (\<exists>post. R = post @ R0 \<and> s + 2 * w = e + 2 * words_of post) \<and> 8 \<le> w \<and> even w \<and>
     owned R0 = owned R \<and> handed R0 = handed R \<and> apart R0 \<and> (R0 \<noteq> [] \<longrightarrow> \<not> snd (snd (hd R0))) \<and>
     bhdrs m2 (ad s) = \<lparr>bhPrev = bhPrev (bhdrs m1 (ad s)), bhWords = ad w, bhFree = True\<rparr> \<and>
     bhdrs m2 (ad (s + 2 * w)) = (bhdrs m (ad (s + 2 * w)))\<lparr>bhPrev := ad s\<rparr> \<and>
     (\<forall>x. x < 2 ^ 32 \<longrightarrow> x < s \<or> s + 2 * w < x \<longrightarrow> bhdrs m2 (ad x) = bhdrs m (ad x)) \<and> parts m2 = parts m1 \<and>
     (\<exists>fl2. dll_rep m2 (FREE_LIST part) fl2 \<and> set fl2 = insert (s + 8) (free_nodes L0 \<union> free_nodes R0))"

lemma join_next_spec:
  assumes ok: "pool_ok (bhdrs m) a0 (L @ (b, n, False) # R) z"
    and j: "joined_prev part a0 L (b + 2 * n) R m L0 s w m1" and sb: "s \<le> b" "a0 + 8 \<le> s"
  shows "\<exists>R0 w'. joined_next part (b + 2 * n) L0 s R m m1 R0 w' (join_next part (ad s) m1) \<and>
    (\<forall>x. x < 2 ^ 32 \<longrightarrow> x \<noteq> s \<longrightarrow> x \<noteq> s + 2 * w' \<longrightarrow> bhdrs (join_next part (ad s) m1) (ad x) = bhdrs m1 (ad x))"
proof -
  note P = pool_block [OF ok]
  have ap: "apart R" using ok apart_sides(2) [of L b n False R] by (simp add: pool_ok_def)
  obtain c nc fc where c: "(c, nc, fc) = hd (R @ [(z, 4, False)])" by (metis prod_cases3)
  note Q = pool_next [OF ok c]
  have sw: "s + 2 * w = c" "8 \<le> w" "even w" and h1: "bhdrs m1 (ad s) = \<lparr>bhPrev = ad (last_hdr a0 L0), bhWords = ad w, bhFree = True\<rparr>"
    and same: "\<And>x. x < 2 ^ 32 \<Longrightarrow> x < s \<or> c \<le> x \<Longrightarrow> bhdrs m1 (ad x) = bhdrs m (ad x)"
    using j Q(1) by (auto simp: joined_prev_def)
  obtain fl1 where fl1: "dll_rep m1 (FREE_LIST part) fl1" "set fl1 = insert (s + 8) (free_nodes L0 \<union> free_nodes R)"
    using j by (auto simp: joined_prev_def)
  have lt: "c + 2 * nc < 2 ^ 32" "s < 2 ^ 32" using Q P sb by auto
  have next1: "ad s + 2 * ad w = ad c" using sw(1) by (metis of_nat_add of_nat_mult of_nat_numeral)
  have hc: "bhdrs m1 (ad c) = \<lparr>bhPrev = ad b, bhWords = ad nc, bhFree = fc\<rparr>" using same [of c] Q(2) lt by simp
  have ne: "ad c \<noteq> ad s" using sw lt ad_inj [of c s] by simp
  show ?thesis
  proof (cases fc)
    case False
    define m2 where "m2 = set_pprev (ad c) (ad s) m1"
    have run: "join_next part (ad s) m1 = m2"
      using False hc h1 next1 by (simp add: join_next_def NEXT_HEADER_def m2_def)
    have out: "\<forall>x. x < 2 ^ 32 \<longrightarrow> x < s \<or> s + 2 * w < x \<longrightarrow> bhdrs m2 (ad x) = bhdrs m (ad x)"
    proof (intro allI impI)
      fix x :: nat assume x: "x < 2 ^ 32" "x < s \<or> s + 2 * w < x"
      then have "ad x \<noteq> ad c" using sw lt ad_inj [of x c] by auto
      moreover have "x < s \<or> c \<le> x" using x(2) sw(1) by auto
      then have "bhdrs m1 (ad x) = bhdrs m (ad x)" by (rule same [OF x(1)])
      ultimately show "bhdrs m2 (ad x) = bhdrs m (ad x)" by (simp add: m2_def heap_simps set_field_defs)
    qed
    have mid: "\<forall>x. x < 2 ^ 32 \<longrightarrow> x \<noteq> s \<longrightarrow> x \<noteq> s + 2 * w \<longrightarrow> bhdrs m2 (ad x) = bhdrs m1 (ad x)"
    proof (intro allI impI)
      fix x :: nat assume "x < 2 ^ 32" "x \<noteq> s" "x \<noteq> s + 2 * w"
      then have "ad x \<noteq> ad c" using sw(1) lt ad_inj [of x c] by auto
      then show "bhdrs m2 (ad x) = bhdrs m1 (ad x)" by (simp add: m2_def heap_simps set_field_defs)
    qed
    have hs: "bhdrs m2 (ad s) = \<lparr>bhPrev = bhPrev (bhdrs m1 (ad s)), bhWords = ad w, bhFree = True\<rparr>"
      "bhdrs m2 (ad (s + 2 * w)) = (bhdrs m (ad (s + 2 * w)))\<lparr>bhPrev := ad s\<rparr>" "parts m2 = parts m1"
      using ne h1 hc Q(2) unfolding sw(1) by (simp_all add: m2_def heap_simps set_field_defs)
    have "R \<noteq> [] \<longrightarrow> \<not> snd (snd (hd R))" using False c by (cases R) auto
    then have "joined_next part (b + 2 * n) L0 s R m m1 R w m2"
      unfolding joined_next_def
    proof (intro conjI)
      show "\<exists>post. R = post @ R \<and> s + 2 * w = b + 2 * n + 2 * words_of post" using sw Q(1) by simp
      show "\<exists>fl2. dll_rep m2 (FREE_LIST part) fl2 \<and> set fl2 = insert (s + 8) (free_nodes L0 \<union> free_nodes R)"
        using fl1 by (intro exI [of _ fl1]) (simp add: m2_def)
    qed (rule sw ap hs out refl | assumption)+
    then show ?thesis using run mid by blast
  next
    case True
    have "R \<noteq> []" using True c by auto
    moreover from this have "hd R = (c, nc, True)" using True c by simp
    ultimately have R: "R = (c, nc, True) # tl R" using list.collapse [of R] by simp
    define R0 where "R0 = tl R"
    note R = R [folded R0_def]
    have "L @ (b, n, False) # R = (L @ [(b, n, False)]) @ (c, nc, True) # R0" by (subst R) simp
    then have ok2: "pool_ok (bhdrs m) a0 ((L @ [(b, n, False)]) @ (c, nc, True) # R0) z" using ok by simp
    note P2 = pool_block [OF ok2]
    obtain g ng fg where g: "(g, ng, fg) = hd (R0 @ [(z, 4, False)])" by (metis prod_cases3)
    note G = pool_next [OF ok2 g]
    have lim: "w + nc < 2 ^ 31" using P2 sw(1) sb by linarith
    then have wk: "(ad w + ad nc) AND 0x7fffffff = ad (w + nc)" using ad_words [of "w + nc"] by simp
    have next2: "ad s + 2 * ad (w + nc) = ad g" using sw(1) G(1) by (metis distrib_left add.assoc of_nat_add of_nat_mult of_nat_numeral)
    have gs: "s + 2 * (w + nc) = g" using sw(1) G(1) by simp
    have nd: "HEADER_TO_NODE (ad c) = c + 8" using P2 by (intro node_of) simp
    define mw where "mw = set_words (ad s) (ad w + ad nc) m1"
    define m2 where "m2 = set_pprev (ad g) (ad s) (snd (dllRemove (FREE_LIST part) (c + 8) mw))"
    have run: "join_next part (ad s) m1 = m2"
      using True hc h1 next1 next2 wk nd
      by (simp add: join_next_def NEXT_HEADER_def m2_def mw_def Let_def heap_simps set_field_defs)
    have ne2: "ad g \<noteq> ad s" using gs sw lt G(3) P(7) ad_inj [of g s] by simp
    have out: "\<forall>x. x < 2 ^ 32 \<longrightarrow> x < s \<or> s + 2 * (w + nc) < x \<longrightarrow> bhdrs m2 (ad x) = bhdrs m (ad x)"
    proof (intro allI impI)
      fix x :: nat assume x: "x < 2 ^ 32" "x < s \<or> s + 2 * (w + nc) < x"
      then have "ad x \<noteq> ad g" "ad x \<noteq> ad s" using gs lt G(3) P(7) sw ad_inj [of x g] ad_inj [of x s] by auto
      moreover have "x < s \<or> c \<le> x" using x(2) sw(1) by auto
      then have "bhdrs m1 (ad x) = bhdrs m (ad x)" by (rule same [OF x(1)])
      ultimately show "bhdrs m2 (ad x) = bhdrs m (ad x)" by (simp add: m2_def mw_def heap_simps set_field_defs)
    qed
    have mid: "\<forall>x. x < 2 ^ 32 \<longrightarrow> x \<noteq> s \<longrightarrow> x \<noteq> s + 2 * (w + nc) \<longrightarrow> bhdrs m2 (ad x) = bhdrs m1 (ad x)"
    proof (intro allI impI)
      fix x :: nat assume "x < 2 ^ 32" "x \<noteq> s" "x \<noteq> s + 2 * (w + nc)"
      then have "ad x \<noteq> ad g" "ad x \<noteq> ad s" using gs lt G(3) P(7) ad_inj [of x g] ad_inj [of x s] by auto
      then show "bhdrs m2 (ad x) = bhdrs m1 (ad x)" by (simp add: m2_def mw_def heap_simps set_field_defs)
    qed
    have "bhdrs m1 (ad g) = bhdrs m (ad g)" using same [of g] gs sw(1) G(3) P(7) by simp
    then have hs: "bhdrs m2 (ad s) = \<lparr>bhPrev = bhPrev (bhdrs m1 (ad s)), bhWords = ad (w + nc), bhFree = True\<rparr>"
      "bhdrs m2 (ad (s + 2 * (w + nc))) = (bhdrs m (ad (s + 2 * (w + nc))))\<lparr>bhPrev := ad s\<rparr>" "parts m2 = parts m1"
      using ne2 h1 wk unfolding gs by (simp_all add: m2_def mw_def heap_simps set_field_defs)
    have ap0: "apart R0" "R0 \<noteq> [] \<longrightarrow> \<not> snd (snd (hd R0))"
      using apart_sides [of "[]" c nc True R0] ap [unfolded R] by auto
    have rep: "dll_rep mw (FREE_LIST part) fl1" using fl1(1) by (simp add: mw_def)
    have "c + 8 \<in> set fl1" unfolding fl1(2) by (subst R) simp
    then obtain fl2 where fl2: "dll_rep (snd (dllRemove (FREE_LIST part) (c + 8) mw)) (FREE_LIST part) fl2"
      "set fl2 = set fl1 - {c + 8}" using dll_rep_remove [OF rep] by blast
    have nin: "c + 8 \<notin> free_nodes L0" "c + 8 \<notin> free_nodes R0" "c \<noteq> s"
      using node_once [OF ok2] j sw by (auto simp: joined_prev_def)
    have "joined_next part (b + 2 * n) L0 s R m m1 R0 (w + nc) m2"
      unfolding joined_next_def
    proof (intro conjI)
      show "\<exists>post. R = post @ R0 \<and> s + 2 * (w + nc) = b + 2 * n + 2 * words_of post"
        using gs G(1) Q(1) by (intro exI [of _ "[(c, nc, True)]"] conjI) (subst R, simp_all)
      show "8 \<le> w + nc" "even (w + nc)" using sw P2(4) by simp_all
      show "owned R0 = owned R" "handed R0 = handed R" by (subst R, simp)+
      have "set fl2 = insert (s + 8) (free_nodes L0 \<union> free_nodes R0)"
        unfolding fl2(2) fl1(2) using nin by (subst R) auto
      then show "\<exists>fl2. dll_rep m2 (FREE_LIST part) fl2 \<and> set fl2 = insert (s + 8) (free_nodes L0 \<union> free_nodes R0)"
        using fl2(1) by (intro exI [of _ fl2]) (simp add: m2_def)
    qed (rule hs out ap0)+
    then show ?thesis using run mid by blast
  qed
qed

lemma free_joined:
  assumes ok: "pool_ok (bhdrs m) a0 (L @ (b, n, False) # R) z"
    and fl: "dll_rep m (FREE_LIST part) fl" "set fl = free_nodes (L @ (b, n, False) # R)"
  shows "\<exists>s m1 L0 R0 w. join_prev part (ad b) (ad n) m = (ad s, m1) \<and>
    pool_ok (bhdrs (join_next part (ad s) m1)) a0 (L0 @ (s, w, True) # R0) z \<and>
    frees_ok (join_next part (ad s) m1) part (L0 @ (s, w, True) # R0) \<and>
    parts (join_next part (ad s) m1) = parts m \<and>
    owned L0 = owned L \<and> owned R0 = owned R \<and> handed L0 = handed L \<and> handed R0 = handed R \<and>
    \<not> block_valid part (ad b) False (join_next part (ad s) m1)"
proof -
  note P = pool_block [OF ok]
  obtain L0 s w m1 where bk: "s = b \<or> s < b \<and> bhPrev (bhdrs m1 (ad b)) = ad s" and j: "join_prev part (ad b) (ad n) m = (ad s, m1)"
    and J: "joined_prev part a0 L (b + 2 * n) R m L0 s w m1"
    using join_prev_spec [OF ok fl] by blast
  obtain pre where pre: "L = L0 @ pre" using J by (auto simp: joined_prev_def)
  have s: "s = a0 + 8 + 2 * words_of L0" and hs: "bhdrs m1 (ad s) = \<lparr>bhPrev = ad (last_hdr a0 L0), bhWords = ad w, bhFree = True\<rparr>"
    using J by (auto simp: joined_prev_def)
  then have sb: "s \<le> b" "a0 + 8 \<le> s" using P(1) pre by simp_all
  define m2 where "m2 = join_next part (ad s) m1"
  obtain R0 w' where K: "joined_next part (b + 2 * n) L0 s R m m1 R0 w' m2"
    and mid2: "\<forall>x. x < 2 ^ 32 \<longrightarrow> x \<noteq> s \<longrightarrow> x \<noteq> s + 2 * w' \<longrightarrow> bhdrs m2 (ad x) = bhdrs m1 (ad x)"
    using join_next_spec [OF ok J sb] unfolding m2_def by blast
  obtain post where post: "R = post @ R0" "s + 2 * w' = b + 2 * n + 2 * words_of post"
    using K unfolding joined_next_def by blast
  have w8: "8 \<le> w'" "even w'" using K by (simp_all add: joined_next_def)
  have "tiles (bhdrs m) 0 a0 ((a0, 4, False) # L @ (b, n, False) # R @ [(z, 4, False)]) (z + 8)"
    using ok by (simp add: pool_ok_def whole_def)
  from tiles_end [OF this] have bz: "b + 2 * n + 2 * words_of post \<le> z" using P(1) by (simp add: post(1))
  define mid where "mid = pre @ (b, n, False) # post"
  have bs: "L @ (b, n, False) # R = L0 @ mid @ R0" by (simp add: mid_def pre post(1))
  have out: "bhdrs m2 (ad x) = bhdrs m (ad x)" if "x < 2 ^ 32" "x < s \<or> s + 2 * w' < x" for x
    using K that unfolding joined_next_def by blast
  have "pool_ok (bhdrs m2) a0 (L0 @ [(s, w', True)] @ R0) z"
  proof (rule pool_replace [OF ok [unfolded bs] s _ _ _ out])
    show "s + 2 * w' = s + 2 * words_of mid" using post(2) s P(1) pre by (simp add: mid_def)
    show "tiles (bhdrs m2) (last_hdr a0 L0) s [(s, w', True)] (s + 2 * w')"
      using K hs w8 by (simp add: joined_next_def)
    show "bhdrs m2 (ad (s + 2 * w')) = (bhdrs m (ad (s + 2 * w')))\<lparr>bhPrev := ad (last_hdr (last_hdr a0 L0) [(s, w', True)])\<rparr>"
      using K by (simp add: joined_next_def)
    show "\<forall>(b, n, f) \<in> set [(s, w', True)]. 8 \<le> n" using w8 by simp
    have "apart (L0 @ (s, w', True) # R0)"
      using J K by (intro apart_free_between) (auto simp: joined_prev_def joined_next_def)
    then show "apart (L0 @ [(s, w', True)] @ R0)" by simp
  qed
  moreover have "frees_ok m2 part (L0 @ (s, w', True) # R0)"
    using K by (auto simp: frees_ok_def joined_next_def)
  moreover have "parts m2 = parts m" using J K by (simp add: joined_prev_def joined_next_def)
  moreover have "owned L0 = owned L \<and> owned R0 = owned R \<and> handed L0 = handed L \<and> handed R0 = handed R"
    using J K unfolding joined_prev_def joined_next_def by blast
  moreover have "\<not> block_valid part (ad b) False m2"
    using bk
  proof
    assume "s = b"
    then have "bhFree (bhdrs m2 (ad b))" using K by (simp add: joined_next_def)
    then show ?thesis by (simp add: block_valid_def)
  next
    assume s: "s < b \<and> bhPrev (bhdrs m1 (ad b)) = ad s"
    have e: "b + 2 * n \<le> s + 2 * w'" "s + 2 * w' < 2 ^ 32" using post(2) bz P(7) by linarith+
    then have "bhPrev (bhdrs m2 (ad b)) = ad s" using mid2 s P(5) by simp
    moreover have "bhWords (bhdrs m2 (ad s)) = ad w'" using K by (simp add: joined_next_def)
    then have "NEXT_HEADER m2 (ad s) = ad (s + 2 * w')" by (simp add: NEXT_HEADER_def)
    moreover have "ad (s + 2 * w') \<noteq> ad b" using e P(5) ad_inj [of "s + 2 * w'" b] by simp
    ultimately show ?thesis by (auto simp: block_valid_def PREV_HEADER_def)
  qed
  ultimately show ?thesis
    unfolding m2_def using j by (intro exI [of _ s] exI [of _ m1] exI [of _ L0] exI [of _ R0] exI [of _ w']) simp
qed

lemma free_runs:
  assumes ok: "mp_ok part m a0 bs z" and h: "(unat pBlock, s) \<in> handed bs"
  shows "\<exists>m2 bs'. memPartFree e part pBlock m = Some (OK, m2) \<and> mp_ok part m2 a0 bs' z \<and>
    handed bs' = handed bs - {(unat pBlock, s)} \<and> \<not> block_valid part (BLOCK_TO_HEADER pBlock) False m2 \<and>
    mpOptions (parts m2 part) = mpOptions (parts m part)"
proof -
  obtain b n where b: "unat pBlock = b + 8" "s = 2 * n - 8" and bn: "(b, n, False) \<in> set bs"
    using h by (auto simp: handed_def)
  obtain L R where bs: "bs = L @ (b, n, False) # R" using bn split_list by fast
  have pool: "pool_ok (bhdrs m) a0 (L @ (b, n, False) # R) z" and cnt: "part_counts (parts m part) a0 bs z"
    and sem: "mpSemFull (parts m part)" and "frees_ok m part (L @ (b, n, False) # R)"
    using ok by (simp_all add: mp_ok_def bs)
  then obtain fl where fl: "dll_rep m (FREE_LIST part) fl" "set fl = free_nodes (L @ (b, n, False) # R)"
    by (auto simp: frees_ok_def)
  note P = pool_block [OF pool]
  define mt where "mt = upd_part part (\<lambda>p. p\<lparr>mpSemFull := False\<rparr>) m"
  note T = give_take [OF sem, folded mt_def]
  have t: "pool_ok (bhdrs mt) a0 (L @ (b, n, False) # R) z" "dll_rep mt (FREE_LIST part) fl"
    "parts mt part = (parts m part)\<lparr>mpSemFull := False\<rparr>" "bhdrs mt = bhdrs m"
    using pool fl by (simp_all add: mt_def heap_simps)
  have "pBlock = ad (unat pBlock)" by simp
  then have "pBlock = ad (b + 8)" by (simp only: b(1))
  then have pb: "BLOCK_TO_HEADER pBlock = ad b" "pBlock \<noteq> 0"
    using P ad_0 [of "b + 8"] by (simp_all add: BLOCK_TO_HEADER_def)
  have valid: "block_valid part (ad b) False m"
    using owned_valid [OF pool] cnt by (simp add: part_counts_def)
  have chk: "memPartBlockValidate part (ad b) False mt = Some (True, mt)"
    by (simp add: memPartBlockValidate_def T Let_def valid)
  obtain s' m1 L0 R0 w where j: "join_prev part (ad b) (ad n) mt = (ad s', m1)"
    and J: "pool_ok (bhdrs (join_next part (ad s') m1)) a0 (L0 @ (s', w, True) # R0) z"
      "frees_ok (join_next part (ad s') m1) part (L0 @ (s', w, True) # R0)"
      "parts (join_next part (ad s') m1) = parts mt"
      "owned L0 = owned L" "owned R0 = owned R" "handed L0 = handed L" "handed R0 = handed R"
      "\<not> block_valid part (ad b) False (join_next part (ad s') m1)"
    using free_joined [OF t(1,2) fl(2)] by blast
  define m2 where "m2 = join_next part (ad s') m1"
  define m3 where "m3 = mp_give part (upd_part part (\<lambda>p. p\<lparr>mpCurrBlocks := mpCurrBlocks p - 1,
    mpCurrWords := mpCurrWords p - ad n\<rparr>) m2)"
  have v: "PART_VERIFY_ne_OK part m = (False, m)" using cnt by (simp add: PART_VERIFY_ne_OK_def part_counts_def)
  have "memPartFree e part pBlock m = Some (OK, m3)"
    unfolding memPartFree_def v prod.case if_False pb(1) T(1) Let_def
    using pb(2) chk P(9) by (simp add: Let_def t(3,4) j m3_def m2_def)
  moreover have parts3: "parts m3 part = (parts m part)\<lparr>mpCurrBlocks := mpCurrBlocks (parts m part) - 1,
      mpCurrWords := mpCurrWords (parts m part) - ad n, mpSemFull := True\<rparr>"
    and same: "bhdrs m3 = bhdrs m2" "dnodes m3 = dnodes m2" "dlists m3 = dlists m2"
    using J(3) t(3) by (simp_all add: m3_def m2_def mp_give_def heap_simps)
  have "mp_ok part m3 a0 (L0 @ (s', w, True) # R0) z"
    using J(1,2,4,5) cnt unfolding mp_ok_def frees_cong [OF same(2,3)] same(1) m2_def [symmetric]
    by (simp add: parts3 part_counts_def bs)
  moreover have "(unat pBlock, s) \<notin> handed L \<union> handed R"
    using handed_beside [OF pool, of "unat pBlock" s] b P(5) by auto
  then have "handed (L0 @ (s', w, True) # R0) = handed bs - {(unat pBlock, s)}"
    using J(6,7) by (auto simp: bs b)
  moreover have "\<not> block_valid part (ad b) False m3"
    using J(8) J(3) t(3) unfolding m2_def [symmetric]
    by (simp add: block_valid_def NEXT_HEADER_def PREV_HEADER_def same(1) parts3)
  moreover have "mpOptions (parts m3 part) = mpOptions (parts m part)" by (simp add: parts3)
  ultimately show ?thesis unfolding pb(1) by blast
qed

subsection \<open>Facts about every layout\<close>

lemma handed_split:
  assumes ok: "pool_ok h a0 bs z" and q: "(q, s) \<in> handed bs"
  obtains L b n R where "bs = L @ (b, n, False) # R" "q = b + 8" "s = 2 * n - 8" "8 \<le> s" "a0 + 16 \<le> q" "q + s \<le> z"
    "z + 8 < 2 ^ 32" "handed bs = insert (q, s) (handed L \<union> handed R)"
proof -
  obtain b n where b: "q = b + 8" "s = 2 * n - 8" "(b, n, False) \<in> set bs" using q by (auto simp: handed_def)
  obtain L R where bs: "bs = L @ (b, n, False) # R" using b(3) split_list by fast
  note P = pool_block [OF ok [unfolded bs]]
  show thesis using that [OF bs b(1,2)] P b(1,2) by (simp add: bs)
qed

lemma handed_ge: "pool_ok h a0 bs z \<Longrightarrow> (q, s) \<in> handed bs \<Longrightarrow> 8 \<le> s"
  by (rule handed_split)

lemma handed_disjoint:
  assumes ok: "pool_ok h a0 bs z" and "(q, s) \<in> handed bs" and "(q', s') \<in> handed bs" and "(q, s) \<noteq> (q', s')"
  shows "q + s \<le> q' \<or> q' + s' \<le> q"
proof -
  obtain L b n R where *: "bs = L @ (b, n, False) # R" "q = b + 8" "s = 2 * n - 8" "8 \<le> s"
    "handed bs = insert (q, s) (handed L \<union> handed R)"
    using handed_split [OF ok assms(2)] by metis
  then have "(q', s') \<in> handed L \<union> handed R" using assms(3,4) by auto
  from handed_beside [OF ok [unfolded *(1)] this] show ?thesis using * by auto
qed

lemma handed_unique:
  assumes "pool_ok h a0 bs z" and "(q, s) \<in> handed bs" and "(q, s') \<in> handed bs"
  shows "s = s'"
  using handed_disjoint [OF assms] handed_split [OF assms(1,2)] handed_split [OF assms(1,3)]
  by (metis add_le_same_cancel1 le_zero_eq prod.inject not_numeral_le_zero)

text \<open>When nothing is handed out, all of the pool is one free block.\<close>

lemma nothing_handed:
  assumes ok: "pool_ok h a0 bs z" and "handed bs = {}" and "a0 + 8 \<noteq> z"
  shows "bs = [(a0 + 8, (z - a0 - 8) div 2, True)]"
proof -
  have f: "f" if "(b, n, f) \<in> set bs" for b n f using that assms(2) by (cases f) (auto simp: handed_def)
  have ap: "apart bs" and t: "tiles h 0 a0 ((a0, 4, False) # bs @ [(z, 4, False)]) (z + 8)"
    using ok by (simp_all add: pool_ok_def whole_def)
  show ?thesis
  proof (cases bs)
    case Nil
    then show ?thesis using t assms(3) by auto
  next
    case (Cons x bs')
    obtain b n g where x: "x = (b, n, g)" by (cases x)
    have "bs' = []"
    proof (rule ccontr)
      assume "bs' \<noteq> []"
      then obtain y ys where y: "bs' = y # ys" by (cases bs') auto
      obtain b' n' g' where y': "y = (b', n', g')" by (cases y)
      have "g" "g'" using f by (auto simp: Cons x y y')
      then show False using ap by (simp add: apart_def Cons x y y' successively_Cons)
    qed
    then show ?thesis using t f [of b n g] by (auto simp: Cons x)
  qed
qed

lemma pool_init:
  assumes "0 < a0" "4 dvd a0" "4 dvd S" "40 \<le> S" "S < 2 ^ 31" "a0 + S < 2 ^ 32"
    and "h (ad a0) = \<lparr>bhPrev = 0, bhWords = 4, bhFree = False\<rparr>"
    and "h (ad (a0 + 8)) = \<lparr>bhPrev = ad a0, bhWords = ad ((S - 16) div 2), bhFree = True\<rparr>"
    and "h (ad (a0 + S - 8)) = \<lparr>bhPrev = ad (a0 + 8), bhWords = 4, bhFree = False\<rparr>"
  shows "pool_ok h a0 [(a0 + 8, (S - 16) div 2, True)] (a0 + S - 8)"
proof -
  obtain j where j: "S = 4 * j" using assms(3) by (rule dvdE)
  have "a0 + 8 + 2 * ((S - 16) div 2) = a0 + S - 8" "even ((S - 16) div 2)" "8 \<le> (S - 16) div 2"
    using assms(4) unfolding j by simp_all presburger+
  then show ?thesis using assms by (simp add: pool_ok_def whole_def apart_def)
qed

text \<open>Making a partition leaves one free block of all the pool.\<close>

lemma init_runs:
  assumes part: "part \<noteq> NULL" and p: "0 < p" "p + n < 2 ^ 32" "n < 2 ^ 31"
    and a0: "a0 = p + 3 - (p + 3) mod 4" and S: "S = n - (a0 - p) - (n - (a0 - p)) mod 4" "40 \<le> S"
  shows "\<exists>m'. memPartInit e part (ad p) (ad n) m = Some (OK, m') \<and>
    mp_ok part m' a0 [(a0 + 8, (S - 16) div 2, True)] (a0 + S - 8)"
proof -
  have a: "p \<le> a0" "a0 \<le> p + 3" "4 dvd a0" unfolding a0 by (simp_all add: dvd_minus_mod)
  have Sn: "4 dvd S" "S \<le> n - (a0 - p)" unfolding S(1) by (rule dvd_minus_mod, rule diff_le_self)
  then have s: "4 dvd S" "a0 - p \<le> n" "a0 + S \<le> p + n" "S \<le> n" using S(2) a by linarith+
  have lt: "a0 + S < 2 ^ 32" "S < 2 ^ 31" using s p by linarith+
  obtain j where j: "S = 4 * j" using s(1) by (rule dvdE)
  have up: "MEM_ROUND_UP (ad p) = ad a0" using ad_round_up [of p] a lt S(2) a0 by simp
  have red: "ad a0 - ad p = ad (a0 - p)" by (rule ad_diff [OF a(1)])
  have ge: "ad (a0 - p) \<le> ad n" using ad_le [of "a0 - p" n] s p a by simp
  have size: "ad n - ad (a0 - p) = ad (n - (a0 - p))" by (rule ad_diff [OF s(2)])
  have dn: "MEM_ROUND_DOWN (ad (n - (a0 - p))) = ad S" using ad_round_down [of "n - (a0 - p)"] p S(1) by simp
  have big: "\<not> ad S < 40" using ad_less [of S 40] lt S(2) by simp
  define w where "w = (S - 16) div 2"
  have w: "16 + 2 * w = S" "w < 2 ^ 31" using j S(2) lt by (auto simp: w_def)
  have "ad S - 16 = ad (2 * w)" unfolding w(1) [symmetric] by simp
  then have half: "drop_bit 1 (ad S - 16) = ad w" using ad_shift [of "2 * w"] w lt by (simp only:) simp
  have wk: "ad w AND 0x7fffffff = ad w" "(4 :: u32) AND 0x7fffffff = 4" using ad_words [OF w(2)] ad_words [of 4] by simp_all
  define H1 where "H1 = ad (a0 + 8)"
  define H2 where "H2 = ad (a0 + S - 8)"
  have n1: "ad a0 + 8 = H1" by (simp add: H1_def)
  have "a0 + 8 + 2 * w = a0 + S - 8" using w(1) by simp
  then have n2: "H1 + 2 * ad w = H2" unfolding H1_def H2_def by (metis of_nat_add of_nat_mult of_nat_numeral)
  have ne: "ad a0 \<noteq> H1" "ad a0 \<noteq> H2" "H1 \<noteq> H2" "H1 \<noteq> ad a0" "H2 \<noteq> ad a0" "H2 \<noteq> H1"
    using lt S(2) ad_inj [of a0 "a0 + 8"] ad_inj [of a0 "a0 + S - 8"] ad_inj [of "a0 + 8" "a0 + S - 8"]
    by (simp_all add: H1_def H2_def)
  have nd: "HEADER_TO_NODE H1 = a0 + 16" using node_of [of "a0 + 8"] lt S(2) by (simp add: H1_def)
  define mi where "mi = upd_part part (\<lambda>p. p\<lparr>mpIsPart := True\<rparr>) (snd (dllInit (FREE_LIST part)
    (upd_part part (\<lambda>_. \<lparr>mpIsPart = False, mpSemFull = True, mpTotalWords = 0, mpMinBlockWords = 8,
      mpOptions = me_optionsDefault e, mpCurrBlocks = 0, mpCurrWords = 0, mpCumBlocks = 0, mpCumWords = 0\<rparr>) m)))"
  have P: "parts mi part = \<lparr>mpIsPart = True, mpSemFull = True, mpTotalWords = 0, mpMinBlockWords = 8,
      mpOptions = me_optionsDefault e, mpCurrBlocks = 0, mpCurrWords = 0, mpCumBlocks = 0, mpCumWords = 0\<rparr>"
    by (simp add: mi_def heap_simps)
  have rep: "dll_rep mi (FREE_LIST part) []"
    by (simp add: mi_def FREE_LIST_def dllInit_rep [THEN conjunct2])
  define mh where "mh = upd_hdr H2 (\<lambda>_. \<lparr>bhPrev = H1, bhWords = 4, bhFree = False\<rparr>)
    (upd_hdr H1 (\<lambda>_. \<lparr>bhPrev = ad a0, bhWords = ad w, bhFree = True\<rparr>)
    (upd_hdr (ad a0) (\<lambda>_. \<lparr>bhPrev = 0, bhWords = 4, bhFree = False\<rparr>) mi))"
  have hdr: "set_words h k (set_free h f (set_pprev h q m)) =
      upd_hdr h (\<lambda>_. \<lparr>bhPrev = q, bhWords = k AND 0x7fffffff, bhFree = f\<rparr>) m" for h k f q m
    by (cases "bhdrs m h") (simp add: set_field_defs upd_hdr_def)
  define m' where "m' = mp_give part (upd_part part (\<lambda>p. p\<lparr>mpTotalWords := mpTotalWords p + drop_bit 1 (ad S)\<rparr>)
    (snd (dllInsert (FREE_LIST part) NULL (a0 + 16) (upd_part part (\<lambda>p. p\<lparr>mpSemFull := False\<rparr>) mh))))"
  have add: "memPartAddToPool part (ad p) (ad n) mi = Some (OK, m')"
    unfolding memPartAddToPool_def PART_VERIFY_ne_OK_def Let_def up red size dn
    using ge big P half wk n1 n2 ne nd
    by (simp add: hdr NEXT_HEADER_def heap_simps mp_take_def mh_def m'_def dn)
  have "memPartInit e part (ad p) (ad n) m = Some (OK, m')"
    using part by (simp add: memPartInit_def Let_def add flip: mi_def)
  moreover have "dll_rep m' (FREE_LIST part) [a0 + 16]"
    using dllInsert_rep [of "upd_part part (\<lambda>p. p\<lparr>mpSemFull := False\<rparr>) mh" "FREE_LIST part" "[]" "[]" "a0 + 16"] rep
    by (simp add: m'_def mh_def mp_give_def)
  moreover have "pool_ok (bhdrs m') a0 [(a0 + 8, (S - 16) div 2, True)] (a0 + S - 8)"
  proof (rule pool_init)
    show "bhdrs m' (ad a0) = \<lparr>bhPrev = 0, bhWords = 4, bhFree = False\<rparr>"
      "bhdrs m' (ad (a0 + 8)) = \<lparr>bhPrev = ad a0, bhWords = ad ((S - 16) div 2), bhFree = True\<rparr>"
      "bhdrs m' (ad (a0 + S - 8)) = \<lparr>bhPrev = ad (a0 + 8), bhWords = 4, bhFree = False\<rparr>"
      unfolding H1_def [symmetric] H2_def [symmetric] w_def [symmetric]
      using ne by (simp_all add: m'_def mh_def mp_give_def heap_simps)
    show "0 < a0" using a(1) p(1) by linarith
  qed (rule a s S lt)+
  moreover have "drop_bit 1 (ad S) = ad (S div 2)" using lt by (intro ad_shift) simp
  then have "part_counts (parts m' part) a0 [(a0 + 8, (S - 16) div 2, True)] (a0 + S - 8) \<and> mpSemFull (parts m' part)"
    using P S(2) by (simp add: part_counts_def m'_def mh_def mp_give_def heap_simps)
  ultimately show ?thesis by (auto simp: mp_ok_def frees_ok_def intro!: exI [of _ m'])
qed

end
