(* ===== verification/MemPartProps.thy ===== *)
theory MemPartProps
  imports MemPartFree
begin

text \<open>
  What memory partitions guarantee: any session of allocations and frees is safe and loses no memory, a
  second free of a block is noticed; and the calls that destroy a pool.
\<close>

subsection \<open>Sessions\<close>

text \<open>
  A client allocates with a size and an alignment, and frees one of the blocks it holds. It keeps the
  address, the size asked for and the alignment of each.
\<close>

datatype mp_call = MAlloc u32 nat | MFree nat

type_synonym mp_held = "(addr \<times> u32 \<times> nat) list"

fun run_mp :: "mp_env \<Rightarrow> ptr \<Rightarrow> mp_call list \<Rightarrow> mp_held \<Rightarrow> pmem \<Rightarrow> (mp_held \<times> pmem) option" where
  "run_mp e part [] held m = Some (held, m)"
| "run_mp e part (MAlloc nBytes k # cs) held m =
     (case memPartAlignedAlloc e part nBytes (2 ^ k) m of
        None \<Rightarrow> None
      | Some (r, m) \<Rightarrow> run_mp e part cs (if r = 0 then held else held @ [(r, nBytes, k)]) m)"
| "run_mp e part (MFree i # cs) held m =
     (if i < length held
      then case memPartFree e part (fst (held ! i)) m of
             None \<Rightarrow> None
           | Some (st, m) \<Rightarrow> run_mp e part cs (take i held @ drop (Suc i) held) m
      else run_mp e part cs held m)"

fun call_ok :: "mp_call \<Rightarrow> bool" where
  "call_ok (MAlloc nBytes k) \<longleftrightarrow> unat nBytes + 11 < 2 ^ 31 \<and> 2 \<le> k \<and> k \<le> 30"
| "call_ok (MFree i) \<longleftrightarrow> True"

text \<open>The functions called on an error do not touch the partition.\<close>

definition env_quiet :: "mp_env \<Rightarrow> bool" where
  "env_quiet e \<longleftrightarrow> (\<forall>p n m. me_allocError e p n m = m) \<and>
     (\<forall>p b m. me_blockError e p b m = m) \<and> (\<forall>m. me_suspend e m = m)"

definition held_ok :: "mp_held \<Rightarrow> blk list \<Rightarrow> bool" where
  "held_ok held bs \<longleftrightarrow> distinct (map fst held) \<and> fst ` handed bs = (unat \<circ> fst) ` set held \<and>
     (\<forall>(r, n, k) \<in> set held. r \<noteq> 0 \<and> 2 ^ k dvd unat r \<and> (\<exists>s. (unat r, s) \<in> handed bs \<and> unat n \<le> s))"

lemma alloc_failed_ok:
  assumes "mp_ok part m a0 bs z" and "env_quiet e"
  shows "mp_ok part (alloc_failed e part nBytes m) a0 bs z"
proof -
  have "alloc_failed e part nBytes m = m\<lparr>perrno := ENOMEM\<rparr>"
    using assms(2) by (simp add: alloc_failed_def mp_suspend_def mp_errno_def env_quiet_def)
  then show ?thesis using assms(1) by (simp add: mp_ok_def frees_cong [of "m\<lparr>perrno := ENOMEM\<rparr>" m])
qed

lemma held_alloc:
  assumes ok: "held_ok held bs" "pool_ok h a0 bs z" "pool_ok h' a0 bs' z"
    and r: "handed bs' = insert (unat r, s) (handed bs)" "\<forall>(q, t) \<in> handed bs. unat r + s \<le> q \<or> q + t \<le> unat r"
      "unat n \<le> s" "2 ^ k dvd unat r" "r \<noteq> 0"
  shows "held_ok (held @ [(r, n, k)]) bs'"
proof -
  have s8: "8 \<le> s" using handed_ge [OF ok(3), of "unat r" s] r(1) by simp
  have "unat r \<notin> fst ` handed bs"
  proof
    assume "unat r \<in> fst ` handed bs"
    then obtain t where t: "(unat r, t) \<in> handed bs" by auto
    then have "8 \<le> t" by (rule handed_ge [OF ok(2)])
    then show False using r(2) t s8 by auto
  qed
  then have "r \<notin> fst ` set held" using ok(1) by (auto simp: held_ok_def image_iff)
  then show ?thesis using ok(1) r by (auto simp: held_ok_def)
qed

lemma fst_image_remove:
  assumes "\<And>t. (x, t) \<in> H \<Longrightarrow> t = s"
  shows "fst ` (H - {(x, s)}) = fst ` H - {x}"
proof (intro set_eqI iffI)
  fix q assume "q \<in> fst ` H - {x}"
  then obtain t where "(q, t) \<in> H" "q \<noteq> x" by auto
  then have "(q, t) \<in> H - {(x, s)}" by simp
  then show "q \<in> fst ` (H - {(x, s)})" by (metis fst_conv imageI)
qed (use assms in auto)

lemma held_free:
  assumes ok: "held_ok held bs" "pool_ok h a0 bs z" and i: "i < length held" "held ! i = (r, n, k)"
    and s: "(unat r, s) \<in> handed bs" and r: "handed bs' = handed bs - {(unat r, s)}"
  shows "held_ok (take i held @ drop (Suc i) held) bs'"
proof -
  have held: "held = take i held @ (r, n, k) # drop (Suc i) held" using i by (metis id_take_nth_drop)
  define rest where "rest = take i held @ drop (Suc i) held"
  have set: "set held = insert (r, n, k) (set rest)" by (subst held) (auto simp: rest_def)
  have d: "distinct (map fst rest)" "r \<notin> fst ` set rest"
  proof -
    have "distinct (map fst (take i held @ (r, n, k) # drop (Suc i) held))"
      using ok(1) held by (simp add: held_ok_def)
    then show "distinct (map fst rest)" "r \<notin> fst ` set rest" by (auto simp: rest_def)
  qed
  have all: "\<forall>(r, n, k) \<in> set held. r \<noteq> 0 \<and> 2 ^ k dvd unat r \<and> (\<exists>s. (unat r, s) \<in> handed bs \<and> unat n \<le> s)"
    using ok(1) by (simp add: held_ok_def)
  have only: "t = s" if "(unat r, t) \<in> handed bs" for t using handed_unique [OF ok(2) that s] .
  then have "fst ` handed bs' = fst ` handed bs - {unat r}" unfolding r by (rule fst_image_remove)
  also have "\<dots> = (unat \<circ> fst) ` set rest" 
  proof -
    have "unat r \<notin> (unat \<circ> fst) ` set rest" using d(2) by (auto simp: image_iff simp flip: word_unat_eq_iff)
    then show ?thesis using ok(1) by (simp add: held_ok_def set)
  qed
  finally have im: "fst ` handed bs' = (unat \<circ> fst) ` set rest" .
  have ex: "\<exists>t. (unat r', t) \<in> handed bs' \<and> unat n' \<le> t" if m: "(r', n', k') \<in> set rest" for r' n' k'
  proof -
    have "r' \<noteq> r" using d(2) m by force
    then have "unat r' \<noteq> unat r" by (simp add: word_unat_eq_iff)
    moreover obtain t where "(unat r', t) \<in> handed bs" "unat n' \<le> t"
      using bspec [OF all, of "(r', n', k')"] m by (auto simp: set)
    ultimately show ?thesis unfolding r by (intro exI [of _ t]) simp
  qed
  have al: "r' \<noteq> 0 \<and> 2 ^ k' dvd unat r'" if m: "(r', n', k') \<in> set rest" for r' n' k'
    using bspec [OF all, of "(r', n', k')"] m by (simp add: set)
  have "\<forall>(r', n', k') \<in> set rest. r' \<noteq> 0 \<and> 2 ^ k' dvd unat r' \<and> (\<exists>s. (unat r', s) \<in> handed bs' \<and> unat n' \<le> s)"
    using ex al by (auto simp: Ball_def)
  then show ?thesis using d(1) im by (simp only: held_ok_def flip: rest_def)
qed

lemma run_mp_ok:
  assumes "env_quiet e" and "list_all call_ok cs" and "mp_ok part m a0 bs z" and "held_ok held bs"
  shows "\<exists>held' m' bs'. run_mp e part cs held m = Some (held', m') \<and> mp_ok part m' a0 bs' z \<and> held_ok held' bs'"
  using assms(2-4)
proof (induction cs arbitrary: held m bs)
  case Nil
  then show ?case by auto
next
  case (Cons c cs)
  have pool: "pool_ok (bhdrs m) a0 bs z" using Cons.prems(2) by (simp add: mp_ok_def)
  show ?case
  proof (cases c)
    case (MAlloc n k)
    then have c: "unat n + 11 < 2 ^ 31" "2 \<le> k" "k \<le> 30" using Cons.prems(1) by simp_all
    from alloc_runs [OF Cons.prems(2) c, of e] consider
      "memPartAlignedAlloc e part n (2 ^ k) m = Some (0, alloc_failed e part n m)"
    | r m2 bs' s where "memPartAlignedAlloc e part n (2 ^ k) m = Some (r, m2)" "mp_ok part m2 a0 bs' z"
        "handed bs' = insert (unat r, s) (handed bs)" "\<forall>(q, t) \<in> handed bs. unat r + s \<le> q \<or> q + t \<le> unat r"
        "unat n \<le> s" "2 ^ k dvd unat r" "r \<noteq> 0"
      by blast
    then show ?thesis
    proof cases
      case 1
      then show ?thesis using Cons.IH [OF _ alloc_failed_ok [OF Cons.prems(2) assms(1), of n] Cons.prems(3)] Cons.prems(1) by (simp add: MAlloc)
    next
      case (2 r m2 bs' s)
      have "held_ok (held @ [(r, n, k)]) bs'"
        using held_alloc [OF Cons.prems(3) pool _ 2(3-7)] 2(2) unfolding mp_ok_def by blast
      then show ?thesis using Cons.IH [OF _ 2(2)] Cons.prems(1) 2(1,7) by (simp add: MAlloc)
    qed
  next
    case (MFree i)
    show ?thesis
    proof (cases "i < length held")
      case True
      obtain r n k where hi: "held ! i = (r, n, k)" by (metis prod_cases3)
      then have "(r, n, k) \<in> set held" using True by (metis nth_mem)
      then obtain s where s: "(unat r, s) \<in> handed bs" using Cons.prems(3) by (fastforce simp: held_ok_def)
      obtain m2 bs' where f: "memPartFree e part r m = Some (OK, m2)" "mp_ok part m2 a0 bs' z"
        "handed bs' = handed bs - {(unat r, s)}"
        using free_runs [OF Cons.prems(2) s, of e] by blast
      have "held_ok (take i held @ drop (Suc i) held) bs'" by (rule held_free [OF Cons.prems(3) pool True hi s f(3)])
      then show ?thesis using Cons.IH [OF _ f(2)] Cons.prems(1) True hi f(1) by (simp add: MFree)
    next
      case False
      then show ?thesis using Cons.IH [OF _ Cons.prems(2,3)] Cons.prems(1) by (simp add: MFree)
    qed
  qed
qed

lemma invalid_refused:
  assumes "mpIsPart (parts m part)" and sem: "mpSemFull (parts m part)" and "pBlock \<noteq> 0"
    and opt: "mpOptions (parts m part) AND MEM_BLOCK_CHECK \<noteq> 0"
    and bad: "\<not> block_valid part (BLOCK_TO_HEADER pBlock) False m"
  shows "memPartFree e part pBlock m = Some (ERROR, mp_suspend e part MEM_BLOCK_ERROR_SUSPEND_FLAG
    (mp_errno S_memPartLib_BLOCK_ERROR (me_blockError e part pBlock m)))"
proof -
  note T = give_take [OF sem]
  have v: "PART_VERIFY_ne_OK part m = (False, m)" using assms(1) by (simp add: PART_VERIFY_ne_OK_def)
  have chk: "memPartBlockValidate part (BLOCK_TO_HEADER pBlock) False (upd_part part (\<lambda>p. p\<lparr>mpSemFull := False\<rparr>) m) =
      Some (False, upd_part part (\<lambda>p. p\<lparr>mpSemFull := False\<rparr>) m)"
    by (simp add: memPartBlockValidate_def T Let_def bad)
  have opt': "mpOptions (parts (upd_part part (\<lambda>p. p\<lparr>mpSemFull := False\<rparr>) m) part) AND MEM_BLOCK_CHECK \<noteq> 0"
    using opt by (simp add: heap_simps)
  show ?thesis
    unfolding memPartFree_def v prod.case if_False T(1) Let_def
    using assms(3) opt' chk T(2) by (simp add: Let_def)
qed

subsection \<open>The partition is safe to use\<close>

text \<open>Where a pool of a partition begins and ends.\<close>

lemma pool_cut:
  assumes "a0 = p + 3 - (p + 3) mod 4" and "S = sz - (a0 - p) - (sz - (a0 - p)) mod (4 :: nat)"
    and "z = a0 + S - 8" and "46 \<le> sz"
  shows "40 \<le> S" and "p \<le> a0" and "z + 8 \<le> p + sz" and "a0 + 8 \<noteq> z"
proof -
  have a: "p \<le> a0" "a0 \<le> p + 3" unfolding assms(1) by simp_all
  have "(sz - (a0 - p)) mod 4 < 4" by (rule mod_less_divisor) simp
  then show S: "40 \<le> S" using a assms(4) unfolding assms(2) by linarith
  show "p \<le> a0" by (rule a(1))
  show "z + 8 \<le> p + sz" "a0 + 8 \<noteq> z" using S a unfolding assms(2,3) by linarith+
qed

text \<open>The blocks a session holds lie in the pool, at the alignment asked for, and apart from each other.\<close>

lemma held_block:
  assumes "held_ok held bs" and "(r, n, k) \<in> set held"
  obtains s where "(unat r, s) \<in> handed bs" "unat n \<le> s" "2 ^ k dvd unat r"
  using assms by (fastforce simp: held_ok_def)

lemma held_inside:
  assumes "pool_ok h a0 bs z" and "held_ok held bs" and "p \<le> a0" and "z + 8 \<le> p + sz"
  shows "\<forall>(r, n, k) \<in> set held. p \<le> unat r \<and> unat r + unat n \<le> p + sz \<and> 2 ^ k dvd unat r"
proof -
  have "p \<le> unat r \<and> unat r + unat n \<le> p + sz \<and> 2 ^ k dvd unat r" if m: "(r, n, k) \<in> set held" for r n k
  proof -
    obtain s where s: "(unat r, s) \<in> handed bs" "unat n \<le> s" "2 ^ k dvd unat r"
      using held_block [OF assms(2) m] by blast
    have "a0 + 16 \<le> unat r \<and> unat r + s \<le> z" by (rule handed_split [OF assms(1) s(1)]) simp
    then show ?thesis using s assms(3,4) by linarith
  qed
  then show ?thesis by blast
qed

lemma held_apart:
  assumes "pool_ok h a0 bs z" and "held_ok held bs"
  shows "\<forall>(r, n, k) \<in> set held. \<forall>(r', n', k') \<in> set held.
    (r, n, k) = (r', n', k') \<or> unat r + unat n \<le> unat r' \<or> unat r' + unat n' \<le> unat r"
proof -
  have same: "x = y" if "x \<in> set held" "y \<in> set held" "fst x = fst y" for x y
    using assms(2) that unfolding held_ok_def by (metis distinct_map inj_on_eq_iff)
  have "(r, n, k) = (r', n', k') \<or> unat r + unat n \<le> unat r' \<or> unat r' + unat n' \<le> unat r"
    if m: "(r, n, k) \<in> set held" "(r', n', k') \<in> set held" for r n k r' n' k'
  proof (cases "r = r'")
    case True
    then show ?thesis using same [OF m] by simp
  next
    case False
    obtain s s' where s: "(unat r, s) \<in> handed bs" "unat n \<le> s" "(unat r', s') \<in> handed bs" "unat n' \<le> s'"
      using held_block [OF assms(2) m(1)] held_block [OF assms(2) m(2)] by metis
    have "(unat r, s) \<noteq> (unat r', s')" using False by (simp add: word_unat_eq_iff)
    then show ?thesis using handed_disjoint [OF assms(1) s(1,3)] s(2,4) by linarith
  qed
  then show ?thesis by blast
qed

text \<open>C9. Memory partitions are safe and lose nothing, for requests that are not huge: in a new partition of 46 bytes
  or more in a pool below \<open>2 ^ 31\<close> bytes, at an address that is not null and from where it does not wrap the address
  space, with error functions that leave the partition alone, and for any sequence of frees of blocks held and of allocations of less than \<open>2 ^ 31 - 11\<close> bytes at an
  alignment of \<open>2 ^ k\<close> with \<open>k\<close> from 2 to 30: each call returns, the blocks held lie in the pool, are aligned as asked,
  are as long as asked and do not overlap, and when every block has been freed the pool is again one
  free block, with the counters at zero. (For sizes near \<open>2 ^ 32\<close> this is false, see \<open>mem_huge_alloc\<close>.)
\<close>

theorem mem_session:
  assumes part: "part \<noteq> NULL" and quiet: "env_quiet e" and calls: "list_all call_ok cs"
    and p: "0 < unat pPool" "unat pPool + unat poolSize < 2 ^ 32" "unat poolSize < 2 ^ 31" "46 \<le> unat poolSize"
  shows "\<exists>m0 m held a0 z. memPartInit e part pPool poolSize mem = Some (OK, m0) \<and>
    run_mp e part cs [] m0 = Some (held, m) \<and>
    (\<forall>(r, n, k) \<in> set held. unat pPool \<le> unat r \<and> unat r + unat n \<le> unat pPool + unat poolSize \<and> 2 ^ k dvd unat r) \<and>
    (\<forall>(r, n, k) \<in> set held. \<forall>(r', n', k') \<in> set held.
       (r, n, k) = (r', n', k') \<or> unat r + unat n \<le> unat r' \<or> unat r' + unat n' \<le> unat r) \<and>
    (held = [] \<longrightarrow> mp_ok part m a0 [(a0 + 8, (z - a0 - 8) div 2, True)] z)"
proof -
  define a0 where "a0 = unat pPool + 3 - (unat pPool + 3) mod 4"
  define S where "S = unat poolSize - (a0 - unat pPool) - (unat poolSize - (a0 - unat pPool)) mod 4"
  define z where "z = a0 + S - 8"
  note c = pool_cut [OF a0_def S_def z_def p(4)]
  obtain m0 where m0: "memPartInit e part pPool poolSize mem = Some (OK, m0)"
    "mp_ok part m0 a0 [(a0 + 8, (S - 16) div 2, True)] z"
    using init_runs [OF part p(1-3) a0_def S_def c(1), of e mem] unfolding z_def by auto
  have "held_ok [] [(a0 + 8, (S - 16) div 2, True)]" by (simp add: held_ok_def)
  then obtain held m bs where run: "run_mp e part cs [] m0 = Some (held, m)" "mp_ok part m a0 bs z" "held_ok held bs"
    using run_mp_ok [OF quiet calls m0(2)] by blast
  have pool: "pool_ok (bhdrs m) a0 bs z" using run(2) by (simp add: mp_ok_def)
  have "mp_ok part m a0 [(a0 + 8, (z - a0 - 8) div 2, True)] z" if "held = []"
  proof -
    have "handed bs = {}" using run(3) that by (simp add: held_ok_def)
    then have "bs = [(a0 + 8, (z - a0 - 8) div 2, True)]" by (rule nothing_handed [OF pool _ c(4)])
    then show ?thesis using run(2) by simp
  qed
  then show ?thesis
    using m0(1) run(1) held_inside [OF pool run(3) c(2,3)] held_apart [OF pool run(3)]
    by (intro exI [of _ m0] exI [of _ m] exI [of _ held] exI [of _ a0] exI [of _ z] conjI) simp_all
qed

definition quiet_env :: mp_env where
  "quiet_env = \<lparr>me_allocError = \<lambda>p n m. m, me_blockError = \<lambda>p b m. m, me_suspend = \<lambda>m. m,
     me_unbreakable = False, me_optionsDefault = MEM_BLOCK_ERROR_SUSPEND_FLAG OR MEM_BLOCK_CHECK\<rparr>"

definition no_memory :: pmem where
  "no_memory = \<lparr>dnodes = \<lambda>_. \<lparr>dl_prev = NULL, dl_next = NULL\<rparr>, dlists = \<lambda>_. \<lparr>dl_head = NULL, dl_tail = NULL\<rparr>,
     bhdrs = \<lambda>_. \<lparr>bhPrev = 0, bhWords = 0, bhFree = False\<rparr>,
     parts = \<lambda>_. \<lparr>mpIsPart = False, mpSemFull = False, mpTotalWords = 0, mpMinBlockWords = 0, mpOptions = 0,
       mpCurrBlocks = 0, mpCurrWords = 0, mpCumBlocks = 0, mpCumWords = 0\<rparr>,
     perrno = 0\<rparr>"

theorem mem_session_witness:
  "\<exists>m0 m held a0 z. memPartInit quiet_env 100 4097 1000 no_memory = Some (OK, m0) \<and>
    run_mp quiet_env 100 [MAlloc 100 6, MAlloc 24 2, MAlloc 2000 2, MFree 0, MFree 0] [] m0 = Some (held, m) \<and>
    (\<forall>(r, n, k) \<in> set held. unat (4097 :: u32) \<le> unat r \<and> unat r + unat n \<le> unat (4097 :: u32) + unat (1000 :: u32) \<and>
       2 ^ k dvd unat r) \<and>
    (\<forall>(r, n, k) \<in> set held. \<forall>(r', n', k') \<in> set held.
       (r, n, k) = (r', n', k') \<or> unat r + unat n \<le> unat r' \<or> unat r' + unat n' \<le> unat r) \<and>
    (held = [] \<longrightarrow> mp_ok 100 m a0 [(a0 + 8, (z - a0 - 8) div 2, True)] z)"
  by (rule mem_session) (simp_all add: env_quiet_def quiet_env_def)

text \<open>C10. A block freed twice is noticed: with the block check on, \<open>memPartFree\<close> of a block that is handed out returns
  \<open>OK\<close>, and a second \<open>memPartFree\<close> of the same address returns \<open>ERROR\<close> with \<open>S_memPartLib_BLOCK_ERROR\<close>, also when the
  block has been joined with free neighbours; but for \<open>errno\<close> and what the error functions do the partition
  is as it was.\<close>

theorem mem_double_free:
  assumes ok: "mp_ok part m a0 bs z" and h: "(unat pBlock, s) \<in> handed bs"
    and opt: "mpOptions (parts m part) AND MEM_BLOCK_CHECK \<noteq> 0"
  shows "\<exists>m2 bs'. memPartFree e part pBlock m = Some (OK, m2) \<and> mp_ok part m2 a0 bs' z \<and>
    handed bs' = handed bs - {(unat pBlock, s)} \<and>
    memPartFree e part pBlock m2 = Some (ERROR, mp_suspend e part MEM_BLOCK_ERROR_SUSPEND_FLAG
      (mp_errno S_memPartLib_BLOCK_ERROR (me_blockError e part pBlock m2)))"
proof -
  obtain m2 bs' where f: "memPartFree e part pBlock m = Some (OK, m2)" "mp_ok part m2 a0 bs' z"
    "handed bs' = handed bs - {(unat pBlock, s)}" "\<not> block_valid part (BLOCK_TO_HEADER pBlock) False m2"
    "mpOptions (parts m2 part) = mpOptions (parts m part)"
    using free_runs [OF ok h, of e] by blast
  have "pBlock \<noteq> 0"
  proof
    assume "pBlock = 0"
    moreover have "a0 + 16 \<le> unat pBlock" using ok h by (auto simp: mp_ok_def elim: handed_split)
    ultimately show False by simp
  qed
  moreover have "mpIsPart (parts m2 part)" "mpSemFull (parts m2 part)"
    using f(2) by (simp_all add: mp_ok_def part_counts_def)
  moreover have "mpOptions (parts m2 part) AND MEM_BLOCK_CHECK \<noteq> 0" using opt by (simp only: f(5)) simp
  ultimately have "memPartFree e part pBlock m2 = Some (ERROR, mp_suspend e part MEM_BLOCK_ERROR_SUSPEND_FLAG
      (mp_errno S_memPartLib_BLOCK_ERROR (me_blockError e part pBlock m2)))"
    using invalid_refused f(4) by blast
  then show ?thesis using f(1-3) by blast
qed

subsection \<open>Calls that destroy a pool\<close>


text \<open>Two cuttings of a pool agree as long as the headers have the same sizes.\<close>

lemma tiles_walk:
  assumes "tiles h p a X c" and "tiles h' p' a ws z'" and "c < z'" and "z' \<le> 2 ^ 32"
    and "\<And>x k g. (x, k, g) \<in> set X \<Longrightarrow> bhWords (h' (ad x)) = ad k"
  shows "\<exists>q ws'. tiles h' q c ws' z'"
  using assms
proof (induction X arbitrary: p p' a ws)
  case Nil
  then show ?case by auto
next
  case (Cons x X)
  obtain n f where x: "x = (a, n, f)" using Cons.prems(1) by (cases x) auto
  have t: "tiles h a (a + 2 * n) X c" and n: "4 \<le> n" using Cons.prems(1) by (auto simp: x)
  have cz: "a + 2 * n \<le> c" using tiles_end [OF t] by simp
  then obtain w ws' where ws: "ws = w # ws'" using Cons.prems(2,3) n by (cases ws) auto
  obtain n' f' where w: "w = (a, n', f')" using Cons.prems(2) ws by (cases w) auto
  have t': "tiles h' a (a + 2 * n') ws' z'" and hn: "bhWords (h' (ad a)) = ad n'"
    using Cons.prems(2) by (auto simp: ws w)
  have "a + 2 * n' \<le> z'" using tiles_end [OF t'] by simp
  moreover have "ad n' = ad n" using hn Cons.prems(5) [of a n f] by (simp add: x)
  ultimately have "n' = n" using ad_inj [of n' n] cz Cons.prems(3,4) n by simp
  show ?case
  proof (rule Cons.IH [OF t t' [unfolded \<open>n' = n\<close>] Cons.prems(3,4)])
    show "bhWords (h' (ad x')) = ad k" if "(x', k, g) \<in> set X" for x' k g using Cons.prems(5) [of x' k g] that by simp
  qed
qed

lemma tiles_first:
  assumes t: "tiles h q c ws z" and c: "c < z" "z \<le> 2 ^ 32"
  shows "\<exists>n. bhWords (h (ad c)) = ad n \<and> 4 \<le> n \<and> c + 2 * n \<le> z"
proof -
  obtain w ws' where ws: "ws = w # ws'" using assms by (cases ws) auto
  obtain n f where w: "w = (c, n, f)" using t ws by (cases w) auto
  have t': "tiles h c (c + 2 * n) ws' z" and h: "bhWords (h (ad c)) = ad n" "4 \<le> n" using t by (auto simp: ws w)
  have "c + 2 * n \<le> z" using tiles_end [OF t'] by simp
  then show ?thesis using h by blast
qed

text \<open>Up to a block, the pool of a changed store would have to be cut as before.\<close>

lemma pool_walk:
  assumes ok: "pool_ok h a0 (L @ (b, n, f) # R) z" and ok': "pool_ok h' a0 bs' z"
    and same: "\<And>x. x < b \<Longrightarrow> bhWords (h' (ad x)) = bhWords (h (ad x))"
  shows "\<exists>q ws. tiles h' q b ws (z + 8)"
proof -
  note P = pool_block [OF ok]
  have t: "tiles h 0 a0 (((a0, 4, False) # L) @ (b, n, f) # R @ [(z, 4, False)]) (z + 8)"
    using ok by (simp add: pool_ok_def whole_def)
  then have tX: "tiles h 0 a0 ((a0, 4, False) # L) b" using P(1) by (auto simp: tiles_append)
  have w: "bhWords (h' (ad x)) = ad k" if m: "(x, k, g) \<in> set ((a0, 4, False) # L)" for x k g
  proof -
    have "x < b" using tiles_bounds [OF tX m] by linarith
    moreover have "bhWords (h (ad x)) = ad k" using m
    proof (cases "(x, k, g) = (a0, 4, False)")
      case True
      then show ?thesis using tX by simp
    next
      case False
      then obtain L1 L2 where "L = L1 @ (x, k, g) # L2" using m split_list [of "(x, k, g)" L] by auto
      then show ?thesis using pool_block(9) [of h a0 L1 x k g "L2 @ (b, n, f) # R" z] ok by simp
    qed
    ultimately show ?thesis using same by simp
  qed
  have "tiles h' 0 a0 (whole a0 bs' z) (z + 8)" using ok' by (simp add: pool_ok_def)
  from tiles_walk [OF tX this _ _ w] show ?thesis using P by simp
qed

text \<open>The split of a block for 0 words, as when a block keeps its size.\<close>

lemma split_nothing:
  assumes ok: "pool_ok (bhdrs m) a0 (L @ (b, n, f) # R) z" and c: "c = b + 2 * n"
  shows "memAlignedBlockSplit part (ad b) 0 8 4 m = (ad c, set_pprev (ad c) (ad c)
    (set_free (ad c) True (set_words (ad c) 0 (set_words (ad b) (ad n) (set_pprev (ad c) (ad b) m)))))"
proof -
  note P = pool_block [OF ok]
  have four: "4 dvd 2 * n" using P(4) by (auto elim!: dvdE)
  have c4: "4 dvd c" unfolding c by (rule dvd_add [OF P(2) four])
  have lt: "c + 8 < 2 ^ 32" "c < 2 ^ 32" "2 * n < 2 ^ 31" "n < 2 ^ 31" using P by (auto simp: c)
  have e1: "ad b + bhWords (bhdrs m (ad b)) * 2 = ad c" using P(9) by (simp add: c)
  have nb: "(ad c - (0 - 4) * 2) AND NOT (4 - 1) = ad (c + 8)"
    using ad_align_down [OF lt(1), of 2] c4 by (simp add: dvd_add)
  have nb2: "BLOCK_TO_HEADER (ad (c + 8)) = ad c" by (simp add: BLOCK_TO_HEADER_def)
  have "ad c - ad b = ad (2 * n)" using ad_diff [of b c] by (simp add: c)
  then have bs: "(word_of_int (sint (ad c - ad b) sdiv 2) :: u32) = ad n" using ad_sdiv [OF lt(3)] by simp
  have big: "\<not> ad n < 8" using ad_less [of n 8] lt P(5) by simp
  have c0: "ad c \<noteq> 0" using ad_0 [OF lt(2)] P(3,5) by (simp add: c)
  have z0: "(ad c - ad (c + 8) + 8) div 2 = 0" by simp
  have nx: "NEXT_HEADER (set_free (ad c) True (set_words (ad c) 0 m')) (ad c) = ad c" for m'
    by (simp add: NEXT_HEADER_def set_field_defs heap_simps)
  show ?thesis
    unfolding memAlignedBlockSplit_def e1 Let_def nb nb2 bs z0
    using big c0 by (simp add: nx)
qed

text \<open>A header with no words ends the cutting of the pool where it stands.\<close>

lemma no_words_no_cut:
  assumes ok: "pool_ok h a0 (L @ (b, n, f) # R) z" and c: "c = b + 2 * n"
    and same: "\<And>x. x < c \<Longrightarrow> bhWords (h' (ad x)) = bhWords (h (ad x))" and zero: "bhWords (h' (ad c)) = 0"
  shows "\<not> pool_ok h' a0 bs' z"
proof
  assume ok': "pool_ok h' a0 bs' z"
  note P = pool_block [OF ok]
  obtain q ws where w: "tiles h' q b ws (z + 8)"
    using pool_walk [OF ok ok' same] P(5) by (auto simp: c)
  have "tiles h (last_hdr a0 L) b [(b, n, f)] c" using P(4,5,9) P(10) by (simp add: c)
  from tiles_walk [OF this w] obtain q' ws' where "tiles h' q' c ws' (z + 8)"
    using P same [of b] by (auto simp: c)
  from tiles_first [OF this] obtain k where k: "0 = ad k" "4 \<le> k" "c + 2 * k \<le> z + 8"
    using P zero by (auto simp: c)
  then show False using ad_0 [of k] P(7) by simp
qed

text \<open>C11. Resizing a block to the size it has destroys the pool, in a partition that checks its blocks and whose error
  functions leave it alone: for a block that is handed out, \<open>memPartRealloc\<close> with
  a size that needs just the words the block has returns whatever was in an unset variable (\<open>junk\<close>), and
  has overwritten the header that follows the block, which now has no words, is marked free and points back at itself;
  no cutting of the pool into blocks fits the headers any more, whatever the counters and the free list say.\<close>

theorem mem_realloc_same_size:
  assumes ok: "mp_ok part m a0 bs z" and h: "(unat p, s) \<in> handed bs" and "env_quiet e"
    and opt: "mpOptions (parts m part) AND MEM_BLOCK_CHECK \<noteq> 0"
    and nb: "0 < unat nBytes" "2 * max 8 (unat (alloc_words nBytes)) - 8 = s"
  shows "\<exists>m'. memPartRealloc e junk part p nBytes m = Some (junk, m') \<and>
    bhdrs m' (ad (unat p + s)) = \<lparr>bhPrev = ad (unat p + s), bhWords = 0, bhFree = True\<rparr> \<and>
    (\<forall>bs'. \<not> pool_ok (bhdrs m') a0 bs' z)"
proof -
  have pool: "pool_ok (bhdrs m) a0 bs z" and cnt: "part_counts (parts m part) a0 bs z" and sem: "mpSemFull (parts m part)"
    using ok by (simp_all add: mp_ok_def)
  obtain L b n R where bs: "bs = L @ (b, n, False) # R" and b: "unat p = b + 8" "s = 2 * n - 8" "8 \<le> s"
    using handed_split [OF pool h] by metis
  note ok' = pool [unfolded bs] and P = pool_block [OF pool [unfolded bs]]
  define c where "c = b + 2 * n"
  define N where "N = max 8 (unat (alloc_words nBytes))"
  have "N = n" using nb(2) b P(5) by (auto simp: N_def)
  have "p = ad (unat p)" by simp
  then have "p = ad (b + 8)" by (simp only: b(1))
  then have pb: "BLOCK_TO_HEADER p = ad b" "p \<noteq> 0" using P ad_0 [of "b + 8"] by (simp_all add: BLOCK_TO_HEADER_def)
  have Nw: "(if alloc_words nBytes < 8 then 8 else alloc_words nBytes) = ad n"
    using \<open>N = n\<close> by (auto simp: N_def word_less_nat_alt max_def split: if_splits)
  define mt where "mt = upd_part part (\<lambda>p. p\<lparr>mpSemFull := False\<rparr>) m"
  note T = give_take [OF sem, folded mt_def]
  have t: "mpMinBlockWords (parts mt part) = 8" "mpOptions (parts mt part) AND MEM_BLOCK_CHECK \<noteq> 0"
    "bhdrs mt = bhdrs m" "mpIsPart (parts m part)" "parts mt part = (parts m part)\<lparr>mpSemFull := False\<rparr>"
    using cnt opt by (simp_all add: mt_def heap_simps part_counts_def)
  have valid: "block_valid part (ad b) False m" using owned_valid [OF ok'] cnt by (simp add: part_counts_def)
  have chk: "memPartBlockValidate part (ad b) False mt = Some (True, mt)"
    by (simp add: memPartBlockValidate_def T Let_def valid)
  define m1 where "m1 = set_pprev (ad c) (ad c)
    (set_free (ad c) True (set_words (ad c) 0 (set_words (ad b) (ad n) (set_pprev (ad c) (ad b) mt))))"
  have sp: "memAlignedBlockSplit part (ad b) 0 8 4 mt = (ad c, m1)"
    unfolding m1_def using split_nothing [of mt a0 L b n False R z c part] ok' t(3) by (simp add: c_def)
  have lt: "c < 2 ^ 32" "n < 2 ^ 31" using P by (auto simp: c_def)
  have c0: "ad c \<noteq> 0" using ad_0 [OF lt(1)] P(3,5) by (simp add: c_def)
  have cb: "ad c \<noteq> ad b" using ad_inj [of c b] lt P by (simp add: c_def)
  have hc: "bhdrs m1 (ad c) = \<lparr>bhPrev = ad c, bhWords = 0, bhFree = True\<rparr>"
    by (simp add: m1_def set_field_defs heap_simps)
  have same: "bhWords (bhdrs m1 (ad x)) = bhWords (bhdrs m (ad x))" if "x < c" for x
    using that lt cb ad_words [OF lt(2)] ad_inj [of x c] P(9) t(3) by (auto simp: m1_def set_field_defs heap_simps)
  have p1: "parts m1 = parts mt" by (simp add: m1_def set_field_defs heap_simps)
  define m2 where "m2 = mp_give part m1"
  have g2: "parts m2 part = parts m part" "bhdrs m2 = bhdrs m1"
    using sem t(5) by (simp_all add: m2_def mp_give_def heap_simps p1)
  have hb: "HEADER_TO_BLOCK (ad c) \<noteq> 0" "BLOCK_TO_HEADER (HEADER_TO_BLOCK (ad c)) = ad c"
    using ad_0 [of "c + 8"] P by (simp_all add: HEADER_TO_BLOCK_def BLOCK_TO_HEADER_def c_def)
  have "\<not> block_valid part (BLOCK_TO_HEADER (HEADER_TO_BLOCK (ad c))) False m2"
    by (simp add: block_valid_def hb g2 hc)
  from invalid_refused [OF _ _ hb(1) _ this, of e] have fr: "memPartFree e part (HEADER_TO_BLOCK (ad c)) m2 =
      Some (ERROR, mp_suspend e part MEM_BLOCK_ERROR_SUSPEND_FLAG (mp_errno S_memPartLib_BLOCK_ERROR m2))"
    using opt sem t(4) assms(3) by (simp add: g2 env_quiet_def)
  define m3 where "m3 = upd_part part (\<lambda>p. p\<lparr>mpCurrBlocks := mpCurrBlocks p + 1\<rparr>)
    (mp_suspend e part MEM_BLOCK_ERROR_SUSPEND_FLAG (mp_errno S_memPartLib_BLOCK_ERROR m2))"
  have v: "PART_VERIFY_ne_OK part m = (False, m)" using t(4) by (simp add: PART_VERIFY_ne_OK_def)
  have nz: "nBytes \<noteq> 0" using nb(1) by auto
  have hbn: "bhWords (bhdrs mt (ad b)) = ad n" using P(9) t(3) by simp
  have run: "memPartRealloc e junk part p nBytes m = Some (junk, m3)"
    unfolding memPartRealloc_def v prod.case if_False pb(1) T(1) Let_def Option.bind.bind_lunit t(1) Nw
    using pb(2) nz t(2) chk c0 fr by (simp add: Let_def t(1) Nw hbn sp m2_def m3_def memDefaultAlignment_def)
  have b3: "bhdrs m3 = bhdrs m1" using assms(3)
    by (simp add: m3_def mp_suspend_def mp_errno_def heap_simps g2(2) env_quiet_def)
  have "\<not> pool_ok (bhdrs m3) a0 bs' z" for bs' unfolding b3
    by (rule no_words_no_cut [OF ok' c_def same]) (simp_all add: hc)
  moreover have "unat p + s = c" using b P(5) by (simp add: c_def)
  ultimately show ?thesis using run hc by (auto simp: b3)
qed

text \<open>A request of \<open>2 ^ 32 - 12\<close> bytes: the words asked for with the room for alignment wrap to 0.\<close>

definition HUGE :: u32 where "HUGE = 0xFFFFFFF4"

lemma huge_words:
  "alloc_words HUGE = 0xFFFFFFFE" "\<not> push_bit 1 (0xFFFFFFFE :: u32) < HUGE"
  by (simp_all add: alloc_words_def MEM_ROUND_UP_def HUGE_def)

lemma split_huge:
  assumes ok: "pool_ok (bhdrs m) a0 (L @ (b, n, True) # R) z" and c: "c = b + 2 * n" and z: "z + 12 < 2 ^ 32"
  shows "memAlignedBlockSplit part (ad b) 0xFFFFFFFE 8 4 m = (ad (c + 4), set_pprev (ad c) (ad (c + 4))
    (set_free (ad (c + 4)) True (set_words (ad (c + 4)) 0x7FFFFFFE
      (set_words (ad b) (ad (n + 2)) (set_pprev (ad (c + 4)) (ad b) m)))))"
proof -
  note P = pool_block [OF ok]
  have four: "4 dvd 2 * n" using P(4) by (auto elim!: dvdE)
  have c4: "4 dvd c" unfolding c by (rule dvd_add [OF P(2) four])
  have lt: "c + 12 < 2 ^ 32" "2 * n + 4 < 2 ^ 31" "n + 2 < 2 ^ 31" using P z by (auto simp: c)
  have e1: "ad b + bhWords (bhdrs m (ad b)) * 2 = ad c" using P(9) by (simp add: c)
  have t12: "ad c - (0xFFFFFFFE - 4) * 2 = ad (c + 12)" by simp
  have "4 dvd c + 12" using c4 by (simp add: dvd_add)
  then have nb: "(ad c - (0xFFFFFFFE - 4) * 2) AND NOT (4 - 1) = ad (c + 12)"
    unfolding t12 using ad_align_down [OF lt(1), of 2] by simp
  have nb2: "BLOCK_TO_HEADER (ad (c + 12)) = ad (c + 4)" by (simp add: BLOCK_TO_HEADER_def)
  have d: "ad (c + 4) - ad b = ad (2 * n + 4)" by (simp add: c)
  have "(2 * n + 4) div 2 = n + 2" by simp
  then have bs: "(word_of_int (sint (ad (c + 4) - ad b) sdiv 2) :: u32) = ad (n + 2)"
    unfolding d ad_sdiv [OF lt(2)] by (rule arg_cong)
  have big: "\<not> ad (n + 2) < 8" using ad_less [of "n + 2" 8] lt P(5) by simp
  have c0: "ad (c + 4) \<noteq> 0" using ad_0 [of "c + 4"] lt by simp
  have left: "ad c - ad (c + 4) - 0xFFFFFFFE * 2 < 8 * 2" by simp
  have w: "(ad c - ad (c + 12) + 8) div 2 = 0x7FFFFFFE" by simp
  have nx: "NEXT_HEADER (set_free (ad (c + 4)) True (set_words (ad (c + 4)) 0x7FFFFFFE m')) (ad (c + 4)) = ad c" for m'
    by (simp add: NEXT_HEADER_def set_field_defs heap_simps)
  show ?thesis
    unfolding memAlignedBlockSplit_def e1 Let_def nb nb2 bs w
    using big c0 left by (simp add: nx del: of_nat_add)
qed

text \<open>Nor can the pool be cut when the block after a free one is said to reach beyond its end.\<close>

lemma huge_no_cut:
  assumes ok: "pool_ok h a0 (L @ (b, n, True) # R) z" and c: "c = b + 2 * n" and c12: "c + 12 < 2 ^ 32"
    and same: "\<And>x. x < b \<Longrightarrow> bhWords (h' (ad x)) = bhWords (h (ad x))"
    and words: "bhWords (h' (ad b)) = ad (n + 2)" "bhWords (h' (ad (c + 4))) = 0x7FFFFFFE"
  shows "\<not> pool_ok h' a0 bs' z"
proof
  assume ok': "pool_ok h' a0 bs' z"
  note P = pool_block [OF ok]
  obtain q ws where w: "tiles h' q b ws (z + 8)" using pool_walk [OF ok ok' same] by blast
  have one: "tiles (\<lambda>_. \<lparr>bhPrev = ad q, bhWords = ad (n + 2), bhFree = True\<rparr>) q b [(b, n + 2, True)] (c + 4)"
    using P(4,5) by (simp add: c)
  have "\<exists>q' ws'. tiles h' q' (c + 4) ws' (z + 8)"
    by (rule tiles_walk [OF one w]) (use P words(1) in \<open>auto simp: c\<close>)
  then obtain q' ws' where "tiles h' q' (c + 4) ws' (z + 8)" by blast
  from tiles_first [OF this] obtain k where k: "ad k = 0x7FFFFFFE" "c + 4 + 2 * k \<le> z + 8"
    using P words(2) by (auto simp: c)
  have "k < 2 ^ 32" using k(2) P(7) by simp
  then have "k = 0x7FFFFFFE" using k(1) unat_ad [of k] by simp
  then show False using k(2) P(7) by simp
qed

text \<open>C12. A huge request is granted and destroys the pool: in a partition with a free block, whose last header lies more
  than 12 bytes below \<open>2 ^ 32\<close>, \<open>memPartAlloc\<close> of \<open>2 ^ 32 - 12\<close> bytes does not fail, as its check for overflow misses a size that wraps with the alignment
  added. It returns the address 12 bytes past the end of the first block of the free list, and no cutting of the pool
  into blocks fits the headers any more, whatever the counters and the free list say.\<close>

theorem mem_huge_alloc:
  assumes ok: "mp_ok part m a0 bs z" and free: "free_nodes bs \<noteq> {}" and z: "z + 12 < 2 ^ 32"
  shows "\<exists>r m' b n. memPartAlloc e part HUGE m = Some (r, m') \<and>
    DLL_HEAD m (FREE_LIST part) = b + 8 \<and> (b, n, True) \<in> set bs \<and> unat r = b + 2 * n + 12 \<and>
    (\<forall>bs'. \<not> pool_ok (bhdrs m') a0 bs' z)"
proof -
  have pool: "pool_ok (bhdrs m) a0 bs z" and cnt: "part_counts (parts m part) a0 bs z" and sem: "mpSemFull (parts m part)"
    and fr: "frees_ok m part bs"
    using ok by (simp_all add: mp_ok_def)
  obtain fl where fl: "dll_rep m (FREE_LIST part) fl" "set fl = free_nodes bs" using fr by (auto simp: frees_ok_def)
  then obtain y ys where y: "fl = y # ys" using free by (cases fl) auto
  then have "y \<in> free_nodes bs" using fl(2) by auto
  then obtain b n where b: "y = b + 8" "(b, n, True) \<in> set bs" unfolding free_nodes_def by blast
  obtain L R where bs: "bs = L @ (b, n, True) # R" using b(2) split_list by fast
  note ok' = pool [unfolded bs] and P = pool_block [OF pool [unfolded bs]]
  define c where "c = b + 2 * n"
  define mt where "mt = upd_part part (\<lambda>p. p\<lparr>mpSemFull := False\<rparr>) m"
  note T = give_take [OF sem, folded mt_def]
  have t: "bhdrs mt = bhdrs m" "mpMinBlockWords (parts mt part) = 8" "mpMinBlockWords (parts m part) = 8"
    "mpIsPart (parts m part)" "DLL_HEAD mt (FREE_LIST part) = y"
    using cnt fl(1) by (simp_all add: mt_def heap_simps part_counts_def dll_rep_def y)
  define m1 where "m1 = set_pprev (ad c) (ad (c + 4))
    (set_free (ad (c + 4)) True (set_words (ad (c + 4)) 0x7FFFFFFE
      (set_words (ad b) (ad (n + 2)) (set_pprev (ad (c + 4)) (ad b) mt))))"
  have sp: "memAlignedBlockSplit part (ad b) 0xFFFFFFFE 8 4 mt = (ad (c + 4), m1)"
    unfolding m1_def using split_huge [of mt a0 L b n R z c part] ok' z by (simp add: t(1) c_def)
  have lt: "c + 12 < 2 ^ 32" "n + 2 < 2 ^ 31" using P z by (auto simp: c_def)
  have c0: "ad (c + 4) \<noteq> 0" using ad_0 [of "c + 4"] lt by simp
  have n0: "ad n \<noteq> 0" using ad_0 [of n] P by auto
  have fit: "block_fits 0xFFFFFFFE 0 4 (ad b) mt" using P(9) n0 by (simp add: block_fits_def t(1) word_gt_0)
  have y0: "y \<noteq> NULL" by (simp add: b)
  have loop: "alloc_loop part 0xFFFFFFFE 0 4 y mt = Some (ad (c + 4), m1)"
    using y0 fit c0 sp by (subst alloc_loop.simps) (simp only: b(1) hdr_of t(2) if_False not_True_eq_False prod.case if_True simp_thms)
  define m2 where "m2 = mp_give part (count_alloc part (bhWords (bhdrs (set_free (ad (c + 4)) False m1) (ad (c + 4))))
    (set_free (ad (c + 4)) False m1))"
  have v: "PART_VERIFY_ne_OK part m = (False, m)" using t(4) by (simp add: PART_VERIFY_ne_OK_def)
  have pad: "(0xFFFFFFFE :: u32) + 4 div 2 = 0" by simp
  have small: "(if (0xFFFFFFFE :: u32) < 8 then 8 else 0xFFFFFFFE) = (0xFFFFFFFE :: u32)" by simp
  have run: "memPartAlloc e part HUGE m = Some (HEADER_TO_BLOCK (ad (c + 4)), m2)"
    unfolding memPartAlloc_def memDefaultAlignment_def memPartAlignedAlloc_def v prod.case if_False Let_def
      huge_words(1) t(3) small T(1) pad Option.bind.bind_lunit t(5) loop
    using huge_words(2) c0 by (simp add: m2_def Let_def)
  have r0: "unat (HEADER_TO_BLOCK (ad (c + 4))) = c + 12"
  proof -
    have "HEADER_TO_BLOCK (ad (c + 4)) = ad (c + 12)" by (simp add: HEADER_TO_BLOCK_def add.commute)
    then show ?thesis using unat_ad [OF lt(1)] by (simp del: of_nat_add)
  qed
  have first: "DLL_HEAD m (FREE_LIST part) = b + 8" using fl(1) by (simp add: y b(1) heap_simps dll_rep_def)
  have ne: "ad (c + 4) \<noteq> ad b" "ad (c + 4) \<noteq> ad c" "ad c \<noteq> ad b" "ad b \<noteq> ad (c + 4)" "ad b \<noteq> ad c" "ad c \<noteq> ad (c + 4)"
    using ad_inj [of "c + 4" b] ad_inj [of "c + 4" c] ad_inj [of c b] lt P(5) by (simp_all add: c_def)
  define h' where "h' = bhdrs m2"
  have hw: "h' x = (bhdrs (set_free (ad (c + 4)) False m1)) x" for x
    by (simp add: h'_def m2_def mp_give_def count_alloc_def heap_simps)
  have hb: "bhWords (h' (ad b)) = ad (n + 2)" and hc: "bhWords (h' (ad (c + 4))) = 0x7FFFFFFE"
    using ne ad_words [OF lt(2)] by (simp_all add: hw m1_def set_field_defs heap_simps)
  have same: "bhWords (h' (ad x)) = bhWords (bhdrs m (ad x))" if "x < b" for x
    using that lt P ad_inj [of x b] ad_inj [of x "c + 4"] ad_inj [of x c]
    by (simp add: hw m1_def set_field_defs heap_simps t(1) c_def)
  have "\<not> pool_ok (bhdrs m2) a0 bs' z" for bs'
    by (rule huge_no_cut [OF ok' c_def lt(1) same hb hc, unfolded h'_def])
  then show ?thesis using run r0 first b(2) by (auto simp: c_def)
qed

text \<open>A small pool with one block handed out and one free block.\<close>

definition demo_heap :: pmem where
  "demo_heap = \<lparr>dnodes = \<lambda>_. \<lparr>dl_prev = NULL, dl_next = NULL\<rparr>, dlists = \<lambda>_. \<lparr>dl_head = 4152, dl_tail = 4152\<rparr>,
     bhdrs = (\<lambda>_. \<lparr>bhPrev = 0, bhWords = 0, bhFree = False\<rparr>)
       (4096 := \<lparr>bhPrev = 0, bhWords = 4, bhFree = False\<rparr>, 4104 := \<lparr>bhPrev = 4096, bhWords = 20, bhFree = False\<rparr>,
        4144 := \<lparr>bhPrev = 4104, bhWords = 20, bhFree = True\<rparr>, 4184 := \<lparr>bhPrev = 4144, bhWords = 4, bhFree = False\<rparr>),
     parts = \<lambda>_. \<lparr>mpIsPart = True, mpSemFull = True, mpTotalWords = 48, mpMinBlockWords = 8,
       mpOptions = MEM_BLOCK_CHECK, mpCurrBlocks = 1, mpCurrWords = 20, mpCumBlocks = 1, mpCumWords = 20\<rparr>,
     perrno = 0\<rparr>"

lemma demo_heap_ok: "mp_ok 100 demo_heap 4096 [(4104, 20, False), (4144, 20, True)] 4184"
proof -
  have "dll_rep demo_heap (FREE_LIST 100) [4152]" by (simp add: dll_rep_def demo_heap_def FREE_LIST_def)
  then have "frees_ok demo_heap 100 [(4104, 20, False), (4144, 20, True)]"
    unfolding frees_ok_def by (intro exI [of _ "[4152]"]) simp
  then show ?thesis
    by (simp add: mp_ok_def pool_ok_def whole_def apart_def part_counts_def demo_heap_def)
qed

theorem mem_double_free_witness:
  "\<exists>m2 bs'. memPartFree quiet_env 100 4112 demo_heap = Some (OK, m2) \<and> mp_ok 100 m2 4096 bs' 4184 \<and>
    handed bs' = handed [(4104, 20, False), (4144, 20, True)] - {(unat (4112 :: u32), 32)} \<and>
    memPartFree quiet_env 100 4112 m2 = Some (ERROR, mp_suspend quiet_env 100 MEM_BLOCK_ERROR_SUSPEND_FLAG
      (mp_errno S_memPartLib_BLOCK_ERROR (me_blockError quiet_env 100 4112 m2)))"
  by (rule mem_double_free [OF demo_heap_ok]) (simp_all add: demo_heap_def)

theorem mem_realloc_same_size_witness:
  "\<exists>m'. memPartRealloc quiet_env 77 100 4112 32 demo_heap = Some (77, m') \<and>
    bhdrs m' 4144 = \<lparr>bhPrev = 4144, bhWords = 0, bhFree = True\<rparr> \<and> (\<forall>bs'. \<not> pool_ok (bhdrs m') 4096 bs' 4184)"
proof -
  have "\<exists>m'. memPartRealloc quiet_env 77 100 4112 32 demo_heap = Some (77, m') \<and>
    bhdrs m' (ad (unat (4112 :: u32) + 32)) = \<lparr>bhPrev = ad (unat (4112 :: u32) + 32), bhWords = 0, bhFree = True\<rparr> \<and>
    (\<forall>bs'. \<not> pool_ok (bhdrs m') 4096 bs' 4184)"
    by (rule mem_realloc_same_size [OF demo_heap_ok, where s = 32])
      (simp_all add: demo_heap_def env_quiet_def quiet_env_def alloc_words_def MEM_ROUND_UP_def)
  then show ?thesis by simp
qed

theorem mem_huge_alloc_witness:
  "\<exists>r m'. memPartAlloc quiet_env 100 HUGE demo_heap = Some (r, m') \<and> unat r = 4196 \<and>
    (\<forall>bs'. \<not> pool_ok (bhdrs m') 4096 bs' 4184)"
proof -
  have "\<exists>r m' b n. memPartAlloc quiet_env 100 HUGE demo_heap = Some (r, m') \<and>
    DLL_HEAD demo_heap (FREE_LIST 100) = b + 8 \<and> (b, n, True) \<in> set [(4104, 20, False), (4144, 20, True)] \<and>
    unat r = b + 2 * n + 12 \<and> (\<forall>bs'. \<not> pool_ok (bhdrs m') 4096 bs' 4184)"
    by (rule mem_huge_alloc [OF demo_heap_ok]) simp_all
  then show ?thesis by (elim ex_forward exE conjE) simp
qed

end
