(* ===== verification/SllLib.thy ===== *)
theory SllLib
  imports NodeList
begin

text \<open>
  The singly linked list library \<open>src/util/sllLib.c\<close>: the store, the operations as the code's
  pointer writes, the relation to HOL lists, and the interpretation of the list contract.
  Two functions read an uninitialised local. In \<open>sllCount\<close> the walk starts at that local, which
  is a parameter of the model; in \<open>sllPrevious\<close> it is the value returned for a null list, which
  is \<open>None\<close>.
\<close>

subsection \<open>The store and the operations\<close>

record SL_LIST =
  sl_head :: ptr
  sl_tail :: ptr

record smem =
  snext :: "ptr \<Rightarrow> ptr"
  slists :: "ptr \<Rightarrow> SL_LIST"

definition SLL_NEXT :: "'a smem_scheme \<Rightarrow> ptr \<Rightarrow> ptr" where
  "SLL_NEXT m node = snext m node"

definition SLL_HEAD :: "'a smem_scheme \<Rightarrow> ptr \<Rightarrow> ptr" where
  "SLL_HEAD m list = sl_head (slists m list)"

definition SLL_TAIL :: "'a smem_scheme \<Rightarrow> ptr \<Rightarrow> ptr" where
  "SLL_TAIL m list = sl_tail (slists m list)"

definition sset_next :: "ptr \<Rightarrow> ptr \<Rightarrow> 'a smem_scheme \<Rightarrow> 'a smem_scheme" where
  "sset_next n v m = m\<lparr>snext := (snext m)(n := v)\<rparr>"

definition sset_head :: "ptr \<Rightarrow> ptr \<Rightarrow> 'a smem_scheme \<Rightarrow> 'a smem_scheme" where
  "sset_head l v m = m\<lparr>slists := (slists m)(l := (slists m l)\<lparr>sl_head := v\<rparr>)\<rparr>"

definition sset_tail :: "ptr \<Rightarrow> ptr \<Rightarrow> 'a smem_scheme \<Rightarrow> 'a smem_scheme" where
  "sset_tail l v m = m\<lparr>slists := (slists m)(l := (slists m l)\<lparr>sl_tail := v\<rparr>)\<rparr>"

definition sllInit :: "ptr \<Rightarrow> 'a smem_scheme \<Rightarrow> STATUS \<times> 'a smem_scheme" where
  "sllInit pList m =
     (if pList = NULL then (ERROR, m)
      else (OK, sset_tail pList NULL (sset_head pList NULL m)))"

definition sllPutAtHead :: "ptr \<Rightarrow> ptr \<Rightarrow> 'a smem_scheme \<Rightarrow> STATUS \<times> 'a smem_scheme" where
  "sllPutAtHead pList pNode m =
     (if pList = NULL \<or> pNode = NULL then (ERROR, m)
      else
        let m1 = sset_next pNode (SLL_HEAD m pList) m;
            m2 = (if SLL_HEAD m1 pList = NULL
                  then sset_tail pList pNode (sset_head pList pNode m1)
                  else sset_head pList pNode m1)
        in (OK, m2))"

definition sllPutAtTail :: "ptr \<Rightarrow> ptr \<Rightarrow> 'a smem_scheme \<Rightarrow> STATUS \<times> 'a smem_scheme" where
  "sllPutAtTail pList pNode m =
     (if pList = NULL \<or> pNode = NULL then (ERROR, m)
      else
        let m1 = sset_next pNode NULL m;
            m2 = (if SLL_HEAD m1 pList = NULL
                  then sset_head pList pNode (sset_tail pList pNode m1)
                  else sset_tail pList pNode (sset_next (SLL_TAIL m1 pList) pNode m1))
        in (OK, m2))"

partial_function (option) sllPrevious_loop :: "'a smem_scheme \<Rightarrow> ptr \<Rightarrow> ptr \<Rightarrow> ptr option" where
  "sllPrevious_loop m pLocalNode pNode =
     (if SLL_NEXT m pLocalNode \<noteq> NULL
      then if SLL_NEXT m pLocalNode = pNode then Some pLocalNode
           else sllPrevious_loop m (SLL_NEXT m pLocalNode) pNode
      else Some NULL)"

definition sllPrevious :: "ptr \<Rightarrow> ptr \<Rightarrow> 'a smem_scheme \<Rightarrow> ptr option" where
  "sllPrevious pList pNode m =
     (if pList = NULL then None
      else
        let pLocalNode = SLL_HEAD m pList
        in if pLocalNode = NULL \<or> pLocalNode = pNode then Some NULL
           else sllPrevious_loop m pLocalNode pNode)"

definition sllAdd :: "ptr \<Rightarrow> ptr \<Rightarrow> 'a smem_scheme \<Rightarrow> STATUS \<times> 'a smem_scheme" where
  "sllAdd pList pNode m =
     (if pList = NULL \<or> pNode = NULL then (ERROR, m)
      else
        let m1 = (if SLL_HEAD m pList = NULL then sset_head pList pNode m else m);
            pTail = SLL_TAIL m1 pList;
            m2 = (if pTail \<noteq> NULL then sset_next pTail pNode m1 else m1);
            m3 = sset_next pNode NULL m2;
            m4 = sset_tail pList pNode m3
        in (OK, m4))"

definition sllRemove :: "ptr \<Rightarrow> ptr \<Rightarrow> ptr \<Rightarrow> 'a smem_scheme \<Rightarrow> STATUS \<times> 'a smem_scheme" where
  "sllRemove pList pPrev pNode m =
     (if pList = NULL \<or> pNode = NULL then (ERROR, m)
      else
        let pNext = SLL_NEXT m pNode;
            m1 = (if pPrev = NULL then sset_head pList pNext m else sset_next pPrev pNext m);
            m2 = (if pNext = NULL then sset_tail pList pPrev m1 else m1)
        in (OK, m2))"

definition sllInsert :: "ptr \<Rightarrow> ptr \<Rightarrow> ptr \<Rightarrow> 'a smem_scheme \<Rightarrow> STATUS \<times> 'a smem_scheme" where
  "sllInsert pList pPrev pNode m =
     (if pList = NULL \<or> pNode = NULL then (ERROR, m)
      else
        let pNext = (if pPrev = NULL then SLL_HEAD m pList else SLL_NEXT m pPrev);
            m1 = (if pPrev = NULL then sset_head pList pNode m else sset_next pPrev pNode m);
            m2 = (if pNext = NULL then sset_tail pList pNode m1 else m1);
            m3 = sset_next pNode pNext m2
        in (OK, m3))"

definition sllGet :: "ptr \<Rightarrow> 'a smem_scheme \<Rightarrow> ptr \<times> 'a smem_scheme" where
  "sllGet pList m =
     (if pList = NULL then (NULL, m)
      else
        let pNode = SLL_HEAD m pList
        in if pNode \<noteq> NULL
           then let m1 = sset_head pList (SLL_NEXT m pNode) m;
                    m2 = (if SLL_NEXT m1 pNode = NULL then sset_tail pList NULL m1 else m1)
                in (pNode, m2)
           else (pNode, m))"

partial_function (option) sllCount_loop :: "'a smem_scheme \<Rightarrow> ptr \<Rightarrow> int \<Rightarrow> int option" where
  "sllCount_loop m pNode count =
     (if pNode \<noteq> NULL then sllCount_loop m (SLL_NEXT m pNode) (count + 1) else Some count)"

definition sllCount :: "ptr \<Rightarrow> ptr \<Rightarrow> 'a smem_scheme \<Rightarrow> int option" where
  "sllCount uninit pList m =
     (if pList = NULL then Some 0 else sllCount_loop m uninit 0)"

text \<open>
  \<open>sllEach\<close> reads the successor before it calls the function, which may change the store; it
  stops at the node for which the function returned \<open>FALSE\<close>.
\<close>

partial_function (option) sllEach_loop ::
    "(ptr \<Rightarrow> 'a smem_scheme \<Rightarrow> bool \<times> 'a smem_scheme) \<Rightarrow> ptr \<Rightarrow> 'a smem_scheme \<Rightarrow>
     (ptr \<times> 'a smem_scheme) option" where
  "sllEach_loop func pCurrNode m =
     (if pCurrNode \<noteq> NULL
      then let pNextNode = SLL_NEXT m pCurrNode; r = func pCurrNode m
           in if \<not> fst r then Some (pCurrNode, snd r) else sllEach_loop func pNextNode (snd r)
      else Some (pCurrNode, m))"

definition sllEach ::
    "ptr \<Rightarrow> (ptr \<Rightarrow> 'a smem_scheme \<Rightarrow> bool \<times> 'a smem_scheme) option \<Rightarrow> 'a smem_scheme \<Rightarrow>
     (ptr \<times> 'a smem_scheme) option" where
  "sllEach pList func m =
     (case func of None \<Rightarrow> Some (NULL, m)
      | Some f \<Rightarrow> if pList = NULL then Some (NULL, m)
                  else sllEach_loop f (SLL_HEAD m pList) m)"

lemmas sll_store_defs = sset_next_def sset_head_def sset_tail_def SLL_NEXT_def SLL_HEAD_def
  SLL_TAIL_def

subsection \<open>The list a head holds\<close>

fun sseg :: "'a smem_scheme \<Rightarrow> ptr list \<Rightarrow> ptr \<Rightarrow> bool" where
  "sseg m [] q = True"
| "sseg m (x # xs) q = (x \<noteq> NULL \<and> snext m x = hd (xs @ [q]) \<and> sseg m xs q)"

definition sll_rep :: "'a smem_scheme \<Rightarrow> ptr \<Rightarrow> ptr list \<Rightarrow> bool" where
  "sll_rep m l xs \<longleftrightarrow> l \<noteq> NULL \<and> distinct xs \<and> sseg m xs NULL \<and>
     sl_head (slists m l) = hd (xs @ [NULL]) \<and> sl_tail (slists m l) = last (NULL # xs)"

lemma sseg_append: "sseg m (xs @ ys) q \<longleftrightarrow> sseg m xs (hd (ys @ [q])) \<and> sseg m ys q"
  by (induction xs) (auto simp: hd_append)

lemma sseg_not_NULL: "sseg m xs q \<Longrightarrow> NULL \<notin> set xs"
  by (induction xs) auto

lemma sll_rep_NULL: "sll_rep m l xs \<Longrightarrow> NULL \<notin> set xs"
  by (auto simp: sll_rep_def sseg_not_NULL)

lemma sseg_upd: "n \<notin> set xs \<Longrightarrow> sseg (m\<lparr>snext := (snext m)(n := v)\<rparr>) xs q = sseg m xs q"
  by (induction xs) auto

lemma sseg_upd_last:
  "sseg m xs q \<Longrightarrow> distinct xs \<Longrightarrow> xs \<noteq> [] \<Longrightarrow>
     sseg (m\<lparr>snext := (snext m)(last xs := v)\<rparr>) xs v"
proof (induction xs)
  case (Cons x xs)
  then show ?case by (cases "xs = []") (auto simp: hd_append_last)
qed simp

lemma sseg_slists [simp]: "sseg (m\<lparr>slists := ls\<rparr>) xs q = sseg m xs q"
  by (induction xs) auto

lemma sseg_slists_snext [simp]: "sseg (m\<lparr>slists := ls, snext := f\<rparr>) xs q = sseg (m\<lparr>snext := f\<rparr>) xs q"
  by (induction xs) auto

lemma sll_rep_frame:
  assumes "\<And>x. x \<in> set xs \<Longrightarrow> snext m' x = snext m x" and "slists m' l = slists m l"
  shows "sll_rep m' l xs = sll_rep m l xs"
proof -
  have "sseg m' ys q = sseg m ys q" if "set ys \<subseteq> set xs" for ys q
    using that assms(1) by (induction ys) auto
  with assms(2) show ?thesis by (simp add: sll_rep_def)
qed

subsection \<open>Every operation implements its list operation\<close>

lemma sllInit_rep [rep_intros]: "l \<noteq> NULL \<Longrightarrow> sll_rep (snd (sllInit l m)) l []"
  by (simp add: sllInit_def sll_rep_def sll_store_defs)

lemma sllInsert_rep:
  assumes rep: "sll_rep m l (as @ bs)" and n: "n \<noteq> NULL" "n \<notin> set (as @ bs)"
  shows "sll_rep (snd (sllInsert l (last (NULL # as)) n m)) l (as @ n # bs)"
proof (cases as rule: rev_cases)
  case Nil
  with assms show ?thesis
    using sll_rep_NULL [OF rep]
    by (cases bs) (auto simp: sll_rep_def sllInsert_def sll_store_defs Let_def sseg_upd hd_append_last)
next
  case (snoc as' p)
  then have p: "p \<noteq> NULL" "p \<notin> set bs" "p \<notin> set as'" "p \<noteq> n" "snext m p = hd (bs @ [NULL])"
    and s: "sseg m as' p" "sseg m bs NULL"
    using assms by (auto simp: sll_rep_def sseg_append)
  have b0: "hd (bs @ [NULL]) = NULL \<longleftrightarrow> bs = []" using sll_rep_NULL [OF rep] by (cases bs) auto
  show ?thesis
    using assms snoc p s b0
    by (auto simp: sll_rep_def sllInsert_def sll_store_defs Let_def sseg_upd sseg_append hd_append)
qed

lemma sllRemove_rep:
  assumes rep: "sll_rep m l (as @ n # bs)"
  shows "sll_rep (snd (sllRemove l (last (NULL # as)) n m)) l (as @ bs)"
proof (cases as rule: rev_cases)
  case Nil
  with assms show ?thesis
    using sll_rep_NULL [OF rep]
    by (cases bs) (auto simp: sll_rep_def sllRemove_def sll_store_defs Let_def sseg_upd)
next
  case (snoc as' p)
  then have p: "p \<noteq> NULL" "p \<notin> set bs" "p \<notin> set as'" "p \<noteq> n"
    and n: "n \<noteq> NULL" "snext m n = hd (bs @ [NULL])"
    and s: "sseg m as' p" "sseg m bs NULL"
    using assms by (auto simp: sll_rep_def sseg_append)
  have b0: "hd (bs @ [NULL]) = NULL \<longleftrightarrow> bs = []" using sll_rep_NULL [OF rep] by (cases bs) auto
  show ?thesis
    using assms snoc p s b0 n
    by (auto simp: sll_rep_def sllRemove_def sll_store_defs Let_def sseg_upd sseg_append hd_append)
qed

lemma sllPutAtHead_eq_insert: "sll_rep m l xs \<Longrightarrow> sllPutAtHead l n m = sllInsert l NULL n m"
  by (auto simp: sllPutAtHead_def sllInsert_def Let_def sll_store_defs sll_rep_def
      intro!: smem.equality SL_LIST.equality)

lemma sll_tail_next:
  assumes "sll_rep m l xs" and "sl_tail (slists m l) = t" and "t \<noteq> NULL"
  shows "snext m t = NULL" and "sl_head (slists m l) \<noteq> NULL"
proof -
  obtain as where xs: "xs = as @ [t]"
    using assms by (cases xs rule: rev_cases) (auto simp: sll_rep_def)
  with assms show "snext m t = NULL" by (auto simp: sll_rep_def sseg_append)
  have "sl_head (slists m l) \<in> set xs"
    using assms xs by (cases as) (auto simp: sll_rep_def)
  then show "sl_head (slists m l) \<noteq> NULL" using sll_rep_NULL [OF assms(1)] by metis
qed

lemma sll_tail_head:
  "sll_rep m l xs \<Longrightarrow> sl_tail (slists m l) = NULL \<Longrightarrow> sl_head (slists m l) = NULL"
  using sll_rep_NULL [of m l xs] by (cases xs rule: rev_cases) (auto simp: sll_rep_def)

lemma sllAdd_eq_insert:
  assumes "sll_rep m l xs"
  shows "sllAdd l n m = sllInsert l (SLL_TAIL m l) n m"
  using sll_tail_next [OF assms refl] sll_tail_head [OF assms]
  by (auto simp: sllAdd_def sllInsert_def Let_def sll_store_defs
      intro!: smem.equality SL_LIST.equality)

lemma sllPutAtTail_eq_add:
  assumes "sll_rep m l xs" and "n \<notin> set xs"
  shows "sllPutAtTail l n m = sllAdd l n m"
proof -
  have "SLL_TAIL m l \<noteq> n \<or> n = NULL"
    using assms by (cases xs rule: rev_cases) (auto simp: sll_rep_def SLL_TAIL_def)
  then show ?thesis
    using sll_tail_next [OF assms(1) refl] sll_tail_head [OF assms(1)]
    by (auto simp: sllPutAtTail_def sllAdd_def Let_def sll_store_defs fun_upd_twist
        intro!: smem.equality SL_LIST.equality)
qed

lemma sllAdd_rep:
  assumes rep: "sll_rep m l xs" and "n \<noteq> NULL" "n \<notin> set xs"
  shows "sll_rep (snd (sllAdd l n m)) l (xs @ [n])"
proof -
  have "SLL_TAIL m l = last (NULL # xs)" using rep by (simp add: sll_rep_def SLL_TAIL_def)
  then show ?thesis
    using sllInsert_rep [of m l xs "[]" n] assms by (simp add: sllAdd_eq_insert [OF rep])
qed

lemma sllGet_eq_remove:
  assumes "sll_rep m l (x # xs)"
  shows "sllGet l m = (x, snd (sllRemove l NULL x m))"
  using assms by (auto simp: sllGet_def sllRemove_def Let_def sll_store_defs sll_rep_def)

lemma sllGet_empty: "sll_rep m l [] \<Longrightarrow> sllGet l m = (NULL, m)"
  by (simp add: sllGet_def sll_rep_def SLL_HEAD_def)

interpretation sll: node_list sll_rep
  "\<lambda>l n m. snd (sllAdd l n m)" "\<lambda>l n m. snd (sllPutAtHead l n m)" sllGet
proof unfold_locales
  fix m :: "'a smem_scheme" and l n x xs
  show "sll_rep m l xs \<Longrightarrow> distinct xs \<and> NULL \<notin> set xs"
    using sll_rep_NULL [of m l xs] by (auto simp: sll_rep_def)
  show "sll_rep m l xs \<Longrightarrow> n \<noteq> NULL \<Longrightarrow> n \<notin> set xs \<Longrightarrow>
      sll_rep (snd (sllAdd l n m)) l (xs @ [n])"
    by (rule sllAdd_rep)
  show "sll_rep m l xs \<Longrightarrow> n \<noteq> NULL \<Longrightarrow> n \<notin> set xs \<Longrightarrow>
      sll_rep (snd (sllPutAtHead l n m)) l (n # xs)"
    using sllInsert_rep [of m l "[]" xs n] by (simp add: sllPutAtHead_eq_insert)
  show "sll_rep m l (x # xs) \<Longrightarrow> fst (sllGet l m) = x \<and> sll_rep (snd (sllGet l m)) l xs"
    using sllRemove_rep [of m l "[]" x xs] by (simp add: sllGet_eq_remove)
  show "sll_rep m l [] \<Longrightarrow> sllGet l m = (NULL, m)" by (rule sllGet_empty)
qed

subsection \<open>Searching and visiting\<close>

lemma sllPrevious_loop_found:
  "sseg m (as @ p # n # bs) NULL \<Longrightarrow> n \<notin> set as \<Longrightarrow> n \<noteq> p \<Longrightarrow>
     sllPrevious_loop m (hd (as @ [p])) n = Some p"
proof (induction as)
  case Nil
  then show ?case by (simp add: sllPrevious_loop.simps SLL_NEXT_def)
next
  case (Cons a as)
  then have "snext m a = hd (as @ [p])" "snext m a \<noteq> NULL" "snext m a \<noteq> n"
    by (cases as; auto)+
  with Cons show ?case by (simp add: sllPrevious_loop.simps [of m a] SLL_NEXT_def)
qed

lemma sllPrevious_loop_missing:
  "sseg m (x # xs) NULL \<Longrightarrow> n \<notin> set xs \<Longrightarrow> sllPrevious_loop m x n = Some NULL"
proof (induction xs arbitrary: x)
  case Nil
  then show ?case by (simp add: sllPrevious_loop.simps SLL_NEXT_def)
next
  case (Cons y ys)
  then have "sllPrevious_loop m y n = Some NULL" and "snext m x = y" and "y \<noteq> NULL" and "y \<noteq> n"
    by auto
  then show ?case by (simp add: sllPrevious_loop.simps [of m x] SLL_NEXT_def)
qed

lemma sllPrevious_rep:
  assumes "sll_rep m l (as @ n # bs)"
  shows "sllPrevious l n m = Some (last (NULL # as))"
proof (cases as rule: rev_cases)
  case Nil
  with assms show ?thesis by (simp add: sllPrevious_def sll_rep_def SLL_HEAD_def)
next
  case (snoc as' p)
  with assms have "sllPrevious_loop m (hd (as' @ [p])) n = Some p"
    by (intro sllPrevious_loop_found [where bs = bs]) (auto simp: sll_rep_def)
  moreover have "SLL_HEAD m l = hd (as' @ [p])" "hd (as' @ [p]) \<in> set (as' @ [p])" "l \<noteq> NULL"
    using assms snoc by (auto simp: sll_rep_def SLL_HEAD_def hd_append intro: hd_in_set)
  moreover have "n \<notin> set (as' @ [p])" "NULL \<notin> set (as' @ [p])"
    using assms snoc sll_rep_NULL [OF assms] by (auto simp: sll_rep_def)
  ultimately have "hd (as' @ [p]) \<noteq> NULL" "hd (as' @ [p]) \<noteq> n" "l \<noteq> NULL"
    "SLL_HEAD m l = hd (as' @ [p])" "sllPrevious_loop m (hd (as' @ [p])) n = Some p"
    by metis+
  then show ?thesis
    using snoc by (simp add: sllPrevious_def Let_def)
qed

lemma sllPrevious_absent:
  assumes "sll_rep m l xs" and "n \<notin> set xs"
  shows "sllPrevious l n m = Some NULL"
  using assms sllPrevious_loop_missing [of m "hd xs" "tl xs" n]
  by (cases xs) (auto simp: sllPrevious_def sll_rep_def SLL_HEAD_def Let_def)

lemma sllCount_loop_sseg:
  "sseg m xs NULL \<Longrightarrow> sllCount_loop m (hd (xs @ [NULL])) c = Some (c + int (length xs))"
proof (induction xs arbitrary: c)
  case Nil
  then show ?case by (simp add: sllCount_loop.simps)
next
  case (Cons x xs)
  then show ?case
    using Cons.IH [of "c + 1"] by (simp add: sllCount_loop.simps [of m x] SLL_NEXT_def)
qed

text \<open>A visit with a function that keeps the store: the first node it rejects, or \<open>NULL\<close>.\<close>

lemma sllEach_loop_find:
  "sseg m xs NULL \<Longrightarrow> (\<And>x. x \<in> set xs \<Longrightarrow> func x m = (P x, m)) \<Longrightarrow>
     sllEach_loop func (hd (xs @ [NULL])) m =
       Some (case find (\<lambda>x. \<not> P x) xs of None \<Rightarrow> NULL | Some x \<Rightarrow> x, m)"
proof (induction xs)
  case Nil
  then show ?case by (simp add: sllEach_loop.simps)
next
  case (Cons x xs)
  then show ?case
    by (auto simp: sllEach_loop.simps [of func x] SLL_NEXT_def Let_def)
qed

subsection \<open>Properties\<close>

text \<open>Unlinking any node of a singly linked list: \<open>sllPrevious\<close> finds its predecessor (\<open>NULL\<close> for the
  first node), and \<open>sllRemove\<close> with it takes exactly this node out; for a node that is not in the list
  \<open>sllPrevious\<close> returns \<open>NULL\<close>.\<close>

theorem sll_unlink:
  assumes "sll_rep m l xs"
  shows "(\<forall>as n bs. xs = as @ n # bs \<longrightarrow>
      (\<exists>pPrev m'. sllPrevious l n m = Some pPrev \<and> sllRemove l pPrev n m = (OK, m') \<and> sll_rep m' l (as @ bs))) \<and>
    (\<forall>n. n \<notin> set xs \<longrightarrow> sllPrevious l n m = Some NULL)"
proof (intro conjI allI impI)
  fix as n bs
  assume xs: "xs = as @ n # bs"
  have "n \<noteq> NULL" "l \<noteq> NULL" using assms sll_rep_NULL [OF assms] xs by (auto simp: sll_rep_def)
  then have "fst (sllRemove l (last (NULL # as)) n m) = OK" by (simp add: sllRemove_def Let_def)
  with sllPrevious_rep sllRemove_rep assms xs
  show "\<exists>pPrev m'. sllPrevious l n m = Some pPrev \<and> sllRemove l pPrev n m = (OK, m') \<and> sll_rep m' l (as @ bs)"
    by (metis prod.collapse)
qed (rule sllPrevious_absent [OF assms])

theorem sll_unlink_witness:
  "\<exists>pPrev m'. sllPrevious 1 11 \<lparr>snext = (\<lambda>n. if n = 10 then 11 else 0),
      slists = (\<lambda>l. \<lparr>sl_head = 10, sl_tail = 11\<rparr>)\<rparr> = Some pPrev \<and>
    sllRemove 1 pPrev 11 \<lparr>snext = (\<lambda>n. if n = 10 then 11 else 0),
      slists = (\<lambda>l. \<lparr>sl_head = 10, sl_tail = 11\<rparr>)\<rparr> = (OK, m') \<and> sll_rep m' 1 [10]"
proof -
  have "sll_rep \<lparr>snext = (\<lambda>n. if n = 10 then 11 else 0), slists = (\<lambda>l. \<lparr>sl_head = 10, sl_tail = 11\<rparr>)\<rparr> 1
      [10, 11]" by (simp add: sll_rep_def)
  from sll_unlink [OF this, THEN conjunct1, rule_format, of "[10]" 11 "[]"] show ?thesis by simp
qed

text \<open>A list filled at its tail is emptied from its head in the same order, and one filled at its head
  in the opposite order; the next get returns \<open>NULL\<close>.\<close>

theorem sll_fill_drain:
  assumes "sll_rep m l []" and "distinct ns" and "NULL \<notin> set ns"
  shows "let m1 = fold (\<lambda>n m. snd (sllAdd l n m)) ns m; m2 = fold (\<lambda>n m. snd (sllPutAtHead l n m)) ns m in
    fst (drain (sllGet l) (length ns) m1) = ns \<and>
    fst (sllGet l (snd (drain (sllGet l) (length ns) m1))) = NULL \<and>
    fst (drain (sllGet l) (length ns) m2) = rev ns"
proof -
  note f = sll.fill_rep [of m l "[]" ns, simplified, OF assms]
  note s = sll.stack_rep [of m l "[]" ns, simplified, OF assms]
  show ?thesis using sll.drain_rep [OF f, of "length ns"] sll.drain_rep [OF s, of "length ns"]
      sll.drain_more [OF f] by (simp add: Let_def)
qed

theorem sll_fill_drain_witness:
  "fst (drain (sllGet 1) 3 (fold (\<lambda>n m. snd (sllPutAtHead 1 n m)) [5, 6, 7]
     \<lparr>snext = (\<lambda>n. 0), slists = (\<lambda>l. \<lparr>sl_head = 0, sl_tail = 0\<rparr>)\<rparr>)) = [7, 6, 5]"
  using sll_fill_drain [of "\<lparr>snext = (\<lambda>n. 0), slists = (\<lambda>l. \<lparr>sl_head = 0, sl_tail = 0\<rparr>)\<rparr>" 1 "[5, 6, 7]"]
  by (simp add: sll_rep_def Let_def numeral_3_eq_3)

end
