(* ===== verification/HashLib.thy ===== *)
theory HashLib
  imports SllLib ObjLib "HOL-Library.Word" "HOL-Library.Monad_Syntax"
begin

text \<open>
  Hash tables: \<open>src/util/hashLib.c\<close>. A table is an array of singly linked lists, 8 bytes each, in the store of
  \<open>sllLib\<close>. The compare and key functions are code of the client: a table keeps their addresses, and what
  they compute is the parameter \<open>hash_funs\<close>. What \<open>objAllocPad\<close> returns is a parameter, and the class
  pointer of a table is a flag.
\<close>

record HASH_TABLE =
  htIsTable :: bool
  htNum :: int
  htCmp :: nat
  htKey :: nat
  htArg :: int
  htTable :: ptr

record hmem = smem +
  htabs :: "ptr \<Rightarrow> HASH_TABLE"
  herrno :: int

record hash_funs =
  hf_key :: "nat \<Rightarrow> int \<Rightarrow> ptr \<Rightarrow> int \<Rightarrow> int"
  hf_cmp :: "nat \<Rightarrow> ptr \<Rightarrow> ptr \<Rightarrow> int \<Rightarrow> bool"

definition S_hash_ID_ERROR :: int where "S_hash_ID_ERROR = 6 * 65536 + 2"

definition HASH_VERIFY_ne_OK :: "ptr \<Rightarrow> hmem \<Rightarrow> bool \<times> hmem" where
  "HASH_VERIFY_ne_OK hashId m =
     (if htIsTable (htabs m hashId) then (False, m) else (True, m\<lparr>herrno := S_hash_ID_ERROR\<rparr>))"

text \<open>\<open>&hashId->pHashTable[i]\<close>\<close>

definition bucket :: "hmem \<Rightarrow> ptr \<Rightarrow> int \<Rightarrow> ptr" where
  "bucket m hashId i = nat (int (htTable (htabs m hashId)) + 8 * i)"

text \<open>The index the key function of a table gives a node.\<close>

definition key_index :: "hash_funs \<Rightarrow> ptr \<Rightarrow> ptr \<Rightarrow> hmem \<Rightarrow> int" where
  "key_index F hashId pNode m =
     (let h = htabs m hashId in hf_key F (htKey h) (htNum h) pNode (htArg h))"

definition upd_htab :: "ptr \<Rightarrow> (HASH_TABLE \<Rightarrow> HASH_TABLE) \<Rightarrow> hmem \<Rightarrow> hmem" where
  "upd_htab h f m = m\<lparr>htabs := (htabs m)(h := f (htabs m h))\<rparr>"

definition table_size :: "nat \<Rightarrow> int" where
  "table_size log2Size = sint (push_bit log2Size (1 :: 32 word))"

primrec init_buckets :: "ptr \<Rightarrow> nat \<Rightarrow> hmem \<Rightarrow> hmem" where
  "init_buckets hashId 0 m = m"
| "init_buckets hashId (Suc i) m = snd (sllInit (bucket m hashId (int i)) (init_buckets hashId i m))"

definition hashTableInit :: "ptr \<Rightarrow> ptr \<Rightarrow> nat \<Rightarrow> nat \<Rightarrow> nat \<Rightarrow> int \<Rightarrow> hmem \<Rightarrow> STATUS \<times> hmem" where
  "hashTableInit hashId pList log2Size cmpFunc keyFunc keyArg m =
     (if hashId = NULL then (ERROR, m)
      else
        let m = upd_htab hashId (\<lambda>h. h\<lparr>htNum := table_size log2Size, htCmp := cmpFunc, htKey := keyFunc,
              htArg := keyArg, htTable := pList\<rparr>) m;
            m = init_buckets hashId (nat (htNum (htabs m hashId))) m
        in (OK, upd_htab hashId (\<lambda>h. h\<lparr>htIsTable := True\<rparr>) m))"

text \<open>The class of the tables, at the address \<open>hashClass\<close>; \<open>installed\<close> is the variable \<open>hashLibInstalled\<close>.\<close>

definition hashLibInit ::
  "ptr \<Rightarrow> u32 \<Rightarrow> int \<Rightarrow> ptr \<Rightarrow> nat option \<Rightarrow> nat option \<Rightarrow> nat option \<Rightarrow> bool \<Rightarrow> kstate \<Rightarrow> STATUS \<times> bool \<times> kstate" where
  "hashLibInit hashClass sz offset memSysPartId createFunc initFunc destroyFunc installed s =
     (if installed then (OK, installed, s)
      else case classInit (OtherClass hashClass) sz offset memSysPartId createFunc initFunc destroyFunc s of (st, s) \<Rightarrow>
        if st \<noteq> OK then (ERROR, installed, s) else (OK, True, s))"

text \<open>\<open>pMem\<close> is what \<open>objAllocPad\<close> returned, \<open>pList\<close> the padding after the object. \<open>hashTableInit\<close> cannot fail then.\<close>

definition hashTableCreate :: "ptr \<Rightarrow> ptr \<Rightarrow> nat \<Rightarrow> nat \<Rightarrow> nat \<Rightarrow> int \<Rightarrow> hmem \<Rightarrow> ptr \<times> hmem" where
  "hashTableCreate pMem pList log2Size cmpFunc keyFunc keyArg m =
     (if pMem = NULL then (NULL, m)
      else case hashTableInit pMem pList log2Size cmpFunc keyFunc keyArg m of (st, m) \<Rightarrow>
        if st \<noteq> OK then (NULL, m) else (pMem, m))"

text \<open>\<open>freed\<close> is what \<open>objFree\<close> returns.\<close>

definition hashTableDestroy :: "STATUS \<Rightarrow> ptr \<Rightarrow> bool \<Rightarrow> hmem \<Rightarrow> STATUS \<times> hmem" where
  "hashTableDestroy freed hashId dealloc m =
     (case HASH_VERIFY_ne_OK hashId m of (bad, m) \<Rightarrow>
        if bad then (ERROR, m)
        else let m = upd_htab hashId (\<lambda>h. h\<lparr>htIsTable := False\<rparr>) m
             in if dealloc then (freed, m) else (OK, m))"

definition hashTableTerminate :: "STATUS \<Rightarrow> ptr \<Rightarrow> hmem \<Rightarrow> STATUS \<times> hmem" where
  "hashTableTerminate freed hashId m = hashTableDestroy freed hashId False m"

definition hashTableDelete :: "STATUS \<Rightarrow> ptr \<Rightarrow> hmem \<Rightarrow> STATUS \<times> hmem" where
  "hashTableDelete freed hashId m = hashTableDestroy freed hashId True m"

definition hashTablePut :: "hash_funs \<Rightarrow> ptr \<Rightarrow> ptr \<Rightarrow> hmem \<Rightarrow> STATUS \<times> hmem" where
  "hashTablePut F hashId pHashNode m =
     (case HASH_VERIFY_ne_OK hashId m of (bad, m) \<Rightarrow>
        if bad then (ERROR, m)
        else let i = key_index F hashId pHashNode m
             in (OK, snd (sllPutAtHead (bucket m hashId i) pHashNode m)))"

text \<open>The walk along a bucket; on a list that runs into itself it may not return, which is \<open>None\<close>.\<close>

partial_function (option) find_loop :: "(ptr \<Rightarrow> bool) \<Rightarrow> hmem \<Rightarrow> ptr \<Rightarrow> ptr option" where
  "find_loop match m pHashNode =
     (if pHashNode \<noteq> NULL \<and> \<not> match pHashNode then find_loop match m (SLL_NEXT m pHashNode)
      else Some pHashNode)"

definition hashTableFind :: "hash_funs \<Rightarrow> ptr \<Rightarrow> ptr \<Rightarrow> int \<Rightarrow> hmem \<Rightarrow> (ptr \<times> hmem) option" where
  "hashTableFind F hashId pMatchNode cmpArg m =
     (case HASH_VERIFY_ne_OK hashId m of (bad, m) \<Rightarrow>
        if bad then Some (NULL, m)
        else do {
          let i = key_index F hashId pMatchNode m;
          p \<leftarrow> find_loop (\<lambda>x. hf_cmp F (htCmp (htabs m hashId)) pMatchNode x cmpArg) m
            (SLL_HEAD m (bucket m hashId i));
          Some (p, m)
        })"

text \<open>Visiting: bucket after bucket, until a call has returned \<open>FALSE\<close>. \<open>k\<close> buckets are left from \<open>i\<close> on.\<close>

primrec each_bucket ::
  "(ptr \<Rightarrow> hmem \<Rightarrow> bool \<times> hmem) option \<Rightarrow> ptr \<Rightarrow> nat \<Rightarrow> int \<Rightarrow> ptr \<Rightarrow> hmem \<Rightarrow> (ptr \<times> hmem) option" where
  "each_bucket func hashId 0 i pHashNode m = Some (pHashNode, m)"
| "each_bucket func hashId (Suc k) i pHashNode m =
     (if pHashNode = NULL
      then do {
        (p, m) \<leftarrow> sllEach (bucket m hashId i) func m;
        each_bucket func hashId k (i + 1) p m
      }
      else Some (pHashNode, m))"

definition hashTableEach :: "ptr \<Rightarrow> (ptr \<Rightarrow> hmem \<Rightarrow> bool \<times> hmem) option \<Rightarrow> hmem \<Rightarrow> (ptr \<times> hmem) option" where
  "hashTableEach hashId func m =
     (case HASH_VERIFY_ne_OK hashId m of (bad, m) \<Rightarrow>
        if bad then Some (NULL, m) else each_bucket func hashId (nat (htNum (htabs m hashId))) 0 NULL m)"

text \<open>The second and the third argument of \<open>sllRemove\<close> are the predecessor and the node; here they come the other way round.\<close>

definition hashTableRemove :: "hash_funs \<Rightarrow> ptr \<Rightarrow> ptr \<Rightarrow> hmem \<Rightarrow> (STATUS \<times> hmem) option" where
  "hashTableRemove F hashId pHashNode m =
     (case HASH_VERIFY_ne_OK hashId m of (bad, m) \<Rightarrow>
        if bad then Some (ERROR, m)
        else do {
          let i = key_index F hashId pHashNode m;
          pPrevNode \<leftarrow> sllPrevious (bucket m hashId i) pHashNode m;
          Some (OK, snd (sllRemove (bucket m hashId i) pHashNode pPrevNode m))
        })"

text \<open>The two compare functions of the library, on the key fields of the nodes.\<close>

definition hashKeyCmp :: "(ptr \<Rightarrow> int) \<Rightarrow> ptr \<Rightarrow> ptr \<Rightarrow> int \<Rightarrow> bool" where
  "hashKeyCmp key pMatchNode pHashNode keyCmpArg = (key pHashNode = key pMatchNode)"

definition hashStringCmp :: "(ptr \<Rightarrow> string) \<Rightarrow> ptr \<Rightarrow> ptr \<Rightarrow> int \<Rightarrow> bool" where
  "hashStringCmp str pMatchNode pHashNode keyCmpArg = (str pHashNode = str pMatchNode)"

end
