(* ===== verification/SymLib.thy ===== *)
theory SymLib
  imports HashLib FfsLib
begin

text \<open>
  Symbol tables: \<open>src/os/symLib.c\<close>. A symbol starts with its hash node, so that both have one address; a name
  is the list of its characters before the zero, and \<open>None\<close> is a null name. The table of a symbol table is a
  hash table whose key and compare functions, \<open>sym_funs\<close>, read the symbols. The mutex of a table is kept as
  its owner and nesting depth; \<open>tid\<close> is the calling task, and a call that has to wait for another task has no
  result. What the allocators and \<open>semMInit\<close> return, and the address of the key on the stack, are parameters.
\<close>

type_synonym sym_name = "u8 list"

record SYMBOL =
  syName :: sym_name
  syValue :: u32
  syGroup :: u16
  syType :: u8

record SYMTAB =
  stIsTab :: bool
  stHash :: ptr
  stOwner :: ptr
  stRecurse :: nat
  stPart :: ptr
  stSameOk :: bool
  stNum :: int

record symmem =
  sm_hash :: hmem
  syms :: "ptr \<Rightarrow> SYMBOL"
  symtabs :: "ptr \<Rightarrow> SYMTAB"

abbreviation (input) SYM_MASK_EXACT :: int where "SYM_MASK_EXACT \<equiv> 0x1ff"
abbreviation (input) SYM_MASK_EXACT_TYPE :: int where "SYM_MASK_EXACT_TYPE \<equiv> 0xff"
abbreviation (input) SYM_MASK_ANY_TYPE :: int where "SYM_MASK_ANY_TYPE \<equiv> 0"

definition SYM_HASH_FUNC_SEED :: int where "SYM_HASH_FUNC_SEED = 1370364821"

definition upd_symbol :: "ptr \<Rightarrow> (SYMBOL \<Rightarrow> SYMBOL) \<Rightarrow> symmem \<Rightarrow> symmem" where
  "upd_symbol p f S = S\<lparr>syms := (syms S)(p := f (syms S p))\<rparr>"

definition upd_symtab :: "ptr \<Rightarrow> (SYMTAB \<Rightarrow> SYMTAB) \<Rightarrow> symmem \<Rightarrow> symmem" where
  "upd_symtab t f S = S\<lparr>symtabs := (symtabs S)(t := f (symtabs S t))\<rparr>"

definition SYM_VERIFY_ne_OK :: "ptr \<Rightarrow> symmem \<Rightarrow> bool \<times> symmem" where
  "SYM_VERIFY_ne_OK t S =
     (if stIsTab (symtabs S t) then (False, S)
      else (True, S\<lparr>sm_hash := (sm_hash S)\<lparr>herrno := S_hash_ID_ERROR\<rparr>\<rparr>))"

definition sym_take :: "ptr \<Rightarrow> ptr \<Rightarrow> symmem \<Rightarrow> symmem option" where
  "sym_take tid t S =
     (if stOwner (symtabs S t) = NULL then Some (upd_symtab t (\<lambda>r. r\<lparr>stOwner := tid\<rparr>) S)
      else if stOwner (symtabs S t) = tid
      then Some (upd_symtab t (\<lambda>r. r\<lparr>stRecurse := stRecurse r + 1\<rparr>) S)
      else None)"

definition sym_give :: "ptr \<Rightarrow> ptr \<Rightarrow> symmem \<Rightarrow> symmem" where
  "sym_give tid t S =
     (if stOwner (symtabs S t) \<noteq> tid then S
      else if stRecurse (symtabs S t) > 0
      then upd_symtab t (\<lambda>r. r\<lparr>stRecurse := stRecurse r - 1\<rparr>) S
      else upd_symtab t (\<lambda>r. r\<lparr>stOwner := NULL\<rparr>) S)"

subsection \<open>The functions of the hash table\<close>

definition symHashKeyCmpName :: "(ptr \<Rightarrow> SYMBOL) \<Rightarrow> ptr \<Rightarrow> ptr \<Rightarrow> int \<Rightarrow> bool" where
  "symHashKeyCmpName sy matchSymId symId msk =
     (if msk = SYM_MASK_EXACT then matchSymId = symId
      else let symMask = (word_of_int msk :: u8)
           in syType (sy symId) AND symMask = syType (sy matchSymId) AND symMask \<and>
              syName (sy matchSymId) = syName (sy symId))"

text \<open>Characters are signed, the product wraps around, and the shift of the sum is arithmetic.\<close>

definition symHashFuncName :: "(ptr \<Rightarrow> SYMBOL) \<Rightarrow> int \<Rightarrow> ptr \<Rightarrow> int \<Rightarrow> int" where
  "symHashFuncName sy numElements symId seed =
     (let key = foldl (\<lambda>key c. key + (scast c :: u32)) 0 (syName (sy symId));
          hash = key * word_of_int seed;
          hash = signed_drop_bit (33 - ffsMsb (word_of_int numElements)) hash
      in sint (hash AND (word_of_int (numElements - 1))))"

definition sym_funs :: "(ptr \<Rightarrow> SYMBOL) \<Rightarrow> hash_funs" where
  "sym_funs sy =
     \<lparr>hf_key = (\<lambda>f numElements symId seed. symHashFuncName sy numElements symId seed),
      hf_cmp = (\<lambda>f matchSymId symId msk. symHashKeyCmpName sy matchSymId symId msk)\<rparr>"

subsection \<open>Tables\<close>

definition symLibInit ::
  "ptr \<Rightarrow> u32 \<Rightarrow> int \<Rightarrow> ptr \<Rightarrow> nat option \<Rightarrow> nat option \<Rightarrow> nat option \<Rightarrow> bool \<Rightarrow> kstate \<Rightarrow> STATUS \<times> bool \<times> kstate" where
  "symLibInit symTableClass sz offset memSysPartId createFunc initFunc destroyFunc installed s =
     (if installed then (OK, installed, s)
      else case classInit (OtherClass symTableClass) sz offset memSysPartId createFunc initFunc destroyFunc s of (st, s) \<Rightarrow>
        if st \<noteq> OK then (ERROR, installed, s) else (OK, True, s))"

definition symTableInit :: "STATUS \<Rightarrow> ptr \<Rightarrow> bool \<Rightarrow> ptr \<Rightarrow> ptr \<Rightarrow> symmem \<Rightarrow> STATUS \<times> symmem" where
  "symTableInit semMInitResult t sameNameOk partId nameHashId S =
     (case HASH_VERIFY_ne_OK nameHashId (sm_hash S) of (bad, h) \<Rightarrow>
        let S = S\<lparr>sm_hash := h\<rparr>
        in if bad then (ERROR, S)
           else if semMInitResult \<noteq> OK then (ERROR, S)
           else
             let S = upd_symtab t (\<lambda>r. r\<lparr>stOwner := NULL, stRecurse := 0\<rparr>) S;
                 S = upd_symtab t (\<lambda>r. r\<lparr>stHash := nameHashId, stSameOk := sameNameOk, stNum := 0, stPart := partId\<rparr>) S
             in (OK, upd_symtab t (\<lambda>r. r\<lparr>stIsTab := True\<rparr>) S))"

text \<open>\<open>pTab\<close> is what \<open>objAlloc\<close> returned, \<open>pHash\<close> and \<open>pList\<close> the memory of the hash table.\<close>

definition symTableCreate ::
  "STATUS \<Rightarrow> ptr \<Rightarrow> ptr \<Rightarrow> ptr \<Rightarrow> nat \<Rightarrow> bool \<Rightarrow> ptr \<Rightarrow> symmem \<Rightarrow> ptr \<times> symmem" where
  "symTableCreate semMInitResult pTab pHash pList log2Size sameNameOk partId S =
     (if pTab = NULL then (NULL, S)
      else case hashTableCreate pHash pList log2Size 1 2 SYM_HASH_FUNC_SEED (sm_hash S) of (nameHashId, h) \<Rightarrow>
        let S = S\<lparr>sm_hash := h\<rparr>
        in if nameHashId = NULL then (NULL, S)
           else case symTableInit semMInitResult pTab sameNameOk partId nameHashId S of (st, S) \<Rightarrow>
             if st \<noteq> OK
             then (NULL, S\<lparr>sm_hash := snd (hashTableDelete OK nameHashId (sm_hash S))\<rparr>)
             else (pTab, S))"

definition symTableDestroy :: "STATUS \<Rightarrow> ptr \<Rightarrow> ptr \<Rightarrow> bool \<Rightarrow> symmem \<Rightarrow> (STATUS \<times> symmem) option" where
  "symTableDestroy freed tid t dealloc S =
     (case SYM_VERIFY_ne_OK t S of (bad, S) \<Rightarrow>
        if bad then Some (ERROR, S)
        else do {
          S \<leftarrow> sym_take tid t S;
          if stNum (symtabs S t) > 0 then Some (ERROR, sym_give tid t S)
          else do {
            let S = upd_symtab t (\<lambda>r. r\<lparr>stIsTab := False\<rparr>) S;
            let S = S\<lparr>sm_hash := snd (hashTableDestroy freed (stHash (symtabs S t)) dealloc (sm_hash S))\<rparr>;
            Some (if dealloc then (freed, S) else (OK, S))
          }
        })"

definition symTableDelete :: "STATUS \<Rightarrow> ptr \<Rightarrow> ptr \<Rightarrow> symmem \<Rightarrow> (STATUS \<times> symmem) option" where
  "symTableDelete freed tid t S = symTableDestroy freed tid t True S"

definition symTableTerminate :: "STATUS \<Rightarrow> ptr \<Rightarrow> ptr \<Rightarrow> symmem \<Rightarrow> (STATUS \<times> symmem) option" where
  "symTableTerminate freed tid t S = symTableDestroy freed tid t False S"

subsection \<open>Symbols\<close>

definition symInit :: "ptr \<Rightarrow> sym_name \<Rightarrow> u32 \<Rightarrow> u8 \<Rightarrow> u16 \<Rightarrow> symmem \<Rightarrow> STATUS \<times> symmem" where
  "symInit symId name value type grp S =
     (OK, upd_symbol symId (\<lambda>y. y\<lparr>syName := name, syValue := value, syType := type, syGroup := grp\<rparr>) S)"

text \<open>A wrong table is noticed, but the function goes on all the same. \<open>pMem\<close> is what \<open>memPartAlloc\<close> returned.\<close>

definition symCreate ::
  "ptr \<Rightarrow> ptr \<Rightarrow> sym_name option \<Rightarrow> u32 \<Rightarrow> u8 \<Rightarrow> u16 \<Rightarrow> symmem \<Rightarrow> ptr \<times> symmem" where
  "symCreate pMem t name value type grp S =
     (let S = snd (SYM_VERIFY_ne_OK t S)
      in case name of
           None \<Rightarrow> (NULL, S)
         | Some nm \<Rightarrow>
             let symId = pMem
             in if symId \<noteq> NULL then (symId, snd (symInit symId nm value type grp S)) else (symId, S))"

text \<open>\<open>freed\<close> is what \<open>memPartFree\<close> returns.\<close>

definition symDestroy :: "STATUS \<Rightarrow> ptr \<Rightarrow> ptr \<Rightarrow> symmem \<Rightarrow> STATUS \<times> symmem" where
  "symDestroy freed t symId S =
     (case SYM_VERIFY_ne_OK t S of (bad, S) \<Rightarrow> if bad then (ERROR, S) else (freed, S))"

text \<open>Calls of the hash table of a symbol table.\<close>

definition sym_find :: "ptr \<Rightarrow> ptr \<Rightarrow> int \<Rightarrow> symmem \<Rightarrow> (ptr \<times> symmem) option" where
  "sym_find t p msk S =
     map_option (\<lambda>(n, h). (n, S\<lparr>sm_hash := h\<rparr>))
       (hashTableFind (sym_funs (syms S)) (stHash (symtabs S t)) p msk (sm_hash S))"

definition sym_put :: "ptr \<Rightarrow> ptr \<Rightarrow> symmem \<Rightarrow> STATUS \<times> symmem" where
  "sym_put t p S =
     (case hashTablePut (sym_funs (syms S)) (stHash (symtabs S t)) p (sm_hash S) of (st, h) \<Rightarrow>
        (st, S\<lparr>sm_hash := h\<rparr>))"

text \<open>The put of \<open>symTableAdd\<close>, and the count.\<close>

definition put_count :: "ptr \<Rightarrow> ptr \<Rightarrow> symmem \<Rightarrow> STATUS \<times> symmem" where
  "put_count t symId S =
     (case sym_put t symId S of (st, S) \<Rightarrow>
        if st \<noteq> OK then (ERROR, S) else (OK, upd_symtab t (\<lambda>r. r\<lparr>stNum := stNum r + 1\<rparr>) S))"

text \<open>A table without duplicates gives its mutex back only when the symbol was there already.\<close>

definition symTableAdd :: "ptr \<Rightarrow> ptr \<Rightarrow> ptr \<Rightarrow> symmem \<Rightarrow> (STATUS \<times> symmem) option" where
  "symTableAdd tid t symId S =
     (case SYM_VERIFY_ne_OK t S of (bad, S) \<Rightarrow>
        if bad then Some (ERROR, S)
        else do {
          S \<leftarrow> sym_take tid t S;
          if \<not> stSameOk (symtabs S t)
          then do {
            (p, S) \<leftarrow> sym_find t symId SYM_MASK_EXACT_TYPE S;
            Some (if p \<noteq> NULL then (ERROR, sym_give tid t S) else put_count t symId S)
          }
          else (case put_count t symId S of (st, S) \<Rightarrow> Some (st, sym_give tid t S))
        })"

definition symAdd ::
  "STATUS \<Rightarrow> ptr \<Rightarrow> ptr \<Rightarrow> ptr \<Rightarrow> sym_name option \<Rightarrow> u32 \<Rightarrow> u8 \<Rightarrow> u16 \<Rightarrow> symmem \<Rightarrow> (STATUS \<times> symmem) option" where
  "symAdd freed pMem tid t name value type grp S =
     (case symCreate pMem t name value type grp S of (symId, S) \<Rightarrow>
        if symId = NULL then Some (ERROR, S)
        else do {
          (st, S) \<leftarrow> symTableAdd tid t symId S;
          Some (if st \<noteq> OK then (ERROR, snd (symDestroy freed t symId S)) else (OK, S))
        })"

subsection \<open>Searching\<close>

text \<open>
  The search by value: \<open>found\<close> is what was stored through \<open>pSymId\<close>, if anything. A symbol with the value
  ends the walk along its bucket, after the mutex has been given back; the walk over the buckets goes on.
\<close>

type_synonym close = "ptr option \<times> ptr \<times> u32 \<times> symmem"

partial_function (option) value_walk ::
  "ptr \<Rightarrow> ptr \<Rightarrow> u32 \<Rightarrow> u8 \<Rightarrow> u8 \<Rightarrow> ptr \<Rightarrow> close \<Rightarrow> close option" where
  "value_walk tid t value type msk pSym acc =
     (case acc of (found, pCloseSym, closeValue, S) \<Rightarrow>
        if pSym \<noteq> NULL
        then
          let y = syms S pSym; fits = (syType y AND msk = type AND msk)
          in if fits \<and> syValue y = value then Some (Some pSym, pCloseSym, closeValue, sym_give tid t S)
             else
               let (pCloseSym, closeValue) =
                 (if fits \<and> syValue y \<le> value \<and> syValue y > closeValue then (pSym, syValue y)
                  else (pCloseSym, closeValue))
               in value_walk tid t value type msk (SLL_NEXT (sm_hash S) pSym) (found, pCloseSym, closeValue, S)
        else Some acc)"

primrec value_buckets ::
  "ptr \<Rightarrow> ptr \<Rightarrow> u32 \<Rightarrow> u8 \<Rightarrow> u8 \<Rightarrow> nat \<Rightarrow> int \<Rightarrow> close \<Rightarrow> close option" where
  "value_buckets tid t value type msk 0 i acc = Some acc"
| "value_buckets tid t value type msk (Suc k) i acc = do {
     let S = snd (snd (snd acc));
     let pSym = SLL_HEAD (sm_hash S) (bucket (sm_hash S) (stHash (symtabs S t)) i);
     acc \<leftarrow> value_walk tid t value type msk pSym acc;
     value_buckets tid t value type msk k (i + 1) acc
   }"

text \<open>\<open>pKey\<close> is the address of \<open>keySym\<close>. The result is the status and what was stored through \<open>pSymId\<close>.\<close>

definition symFindSymbol ::
  "ptr \<Rightarrow> ptr \<Rightarrow> ptr \<Rightarrow> sym_name option \<Rightarrow> u32 \<Rightarrow> u8 \<Rightarrow> u8 \<Rightarrow> symmem \<Rightarrow>
    (STATUS \<times> ptr option \<times> symmem) option" where
  "symFindSymbol pKey tid t name value type msk S =
     (case SYM_VERIFY_ne_OK t S of (bad, S) \<Rightarrow>
        if bad then Some (ERROR, None, S)
        else case name of
          Some nm \<Rightarrow> do {
            let S = upd_symbol pKey (\<lambda>y. y\<lparr>syName := nm, syType := type\<rparr>) S;
            S \<leftarrow> sym_take tid t S;
            (p, S) \<leftarrow> sym_find t pKey (uint msk) S;
            let S = sym_give tid t S;
            Some (if p = NULL then (ERROR, None, S) else (OK, Some p, S))
          }
        | None \<Rightarrow> do {
            S \<leftarrow> sym_take tid t S;
            (found, pCloseSym, closeValue, S) \<leftarrow>
              value_buckets tid t value type msk
                (nat (htNum (htabs (sm_hash S) (stHash (symtabs S t))))) 0 (None, NULL, 0, S);
            let S = sym_give tid t S;
            Some (if closeValue = 0 \<or> pCloseSym = NULL then (ERROR, found, S) else (OK, Some pCloseSym, S))
          })"

text \<open>The value and the type of the symbol found are stored where the caller asked for them.\<close>

definition symFindByNameAndType ::
  "ptr \<Rightarrow> ptr \<Rightarrow> ptr \<Rightarrow> sym_name option \<Rightarrow> u8 \<Rightarrow> u8 \<Rightarrow> symmem \<Rightarrow>
    (STATUS \<times> (u32 \<times> u8) option \<times> symmem) option" where
  "symFindByNameAndType pKey tid t name sType msk S = do {
     (st, found, S) \<leftarrow> symFindSymbol pKey tid t name 0 sType msk S;
     if st \<noteq> OK then Some (ERROR, None, S)
     else case found of
       None \<Rightarrow> None
     | Some symId \<Rightarrow> Some (OK, Some (syValue (syms S symId), syType (syms S symId)), S)
   }"

definition symFindByName ::
  "ptr \<Rightarrow> ptr \<Rightarrow> ptr \<Rightarrow> sym_name option \<Rightarrow> symmem \<Rightarrow> (STATUS \<times> (u32 \<times> u8) option \<times> symmem) option" where
  "symFindByName pKey tid t name S =
     symFindByNameAndType pKey tid t name (word_of_int SYM_MASK_ANY_TYPE) (word_of_int SYM_MASK_ANY_TYPE) S"

text \<open>\<open>dst\<close> says whether the caller gave an address for the result.\<close>

definition symNameGet :: "ptr \<Rightarrow> bool \<Rightarrow> symmem \<Rightarrow> STATUS \<times> sym_name option" where
  "symNameGet symId dst S = (if \<not> dst then (ERROR, None) else (OK, Some (syName (syms S symId))))"

definition symValueGet :: "ptr \<Rightarrow> bool \<Rightarrow> symmem \<Rightarrow> STATUS \<times> u32 option" where
  "symValueGet symId dst S = (if \<not> dst then (ERROR, None) else (OK, Some (syValue (syms S symId))))"

definition symTypeGet :: "ptr \<Rightarrow> bool \<Rightarrow> symmem \<Rightarrow> STATUS \<times> u8 option" where
  "symTypeGet symId dst S = (if \<not> dst then (ERROR, None) else (OK, Some (syType (syms S symId))))"

subsection \<open>Visiting and removing\<close>

text \<open>The function visits a symbol with its name, value, type and group; it may change the links.\<close>

definition symEachFunc ::
  "(sym_name \<Rightarrow> u32 \<Rightarrow> u8 \<Rightarrow> u16 \<Rightarrow> ptr \<Rightarrow> hmem \<Rightarrow> bool \<times> hmem) \<Rightarrow> (ptr \<Rightarrow> SYMBOL) \<Rightarrow> ptr \<Rightarrow> hmem \<Rightarrow> bool \<times> hmem" where
  "symEachFunc func sy pSym h =
     func (syName (sy pSym)) (syValue (sy pSym)) (syType (sy pSym)) (syGroup (sy pSym)) pSym h"

definition symEach ::
  "(sym_name \<Rightarrow> u32 \<Rightarrow> u8 \<Rightarrow> u16 \<Rightarrow> ptr \<Rightarrow> hmem \<Rightarrow> bool \<times> hmem) \<Rightarrow> ptr \<Rightarrow> ptr \<Rightarrow> symmem \<Rightarrow> (ptr \<times> symmem) option" where
  "symEach func tid t S =
     (case SYM_VERIFY_ne_OK t S of (bad, S) \<Rightarrow>
        if bad then Some (NULL, S)
        else do {
          S \<leftarrow> sym_take tid t S;
          (p, h) \<leftarrow> hashTableEach (stHash (symtabs S t)) (Some (symEachFunc func (syms S))) (sm_hash S);
          Some (p, sym_give tid t (S\<lparr>sm_hash := h\<rparr>))
        })"

definition symTableRemove :: "ptr \<Rightarrow> ptr \<Rightarrow> ptr \<Rightarrow> symmem \<Rightarrow> (STATUS \<times> symmem) option" where
  "symTableRemove tid t symId S =
     (case SYM_VERIFY_ne_OK t S of (bad, S) \<Rightarrow>
        if bad then Some (ERROR, S)
        else do {
          S \<leftarrow> sym_take tid t S;
          (p, S) \<leftarrow> sym_find t symId SYM_MASK_EXACT S;
          if p = NULL then Some (ERROR, sym_give tid t S)
          else do {
            (st, h) \<leftarrow> hashTableRemove (sym_funs (syms S)) (stHash (symtabs S t)) p (sm_hash S);
            let S = upd_symtab t (\<lambda>r. r\<lparr>stNum := stNum r - 1\<rparr>) (S\<lparr>sm_hash := h\<rparr>);
            Some (OK, sym_give tid t S)
          }
        })"

definition symRemove ::
  "STATUS \<Rightarrow> ptr \<Rightarrow> ptr \<Rightarrow> ptr \<Rightarrow> sym_name option \<Rightarrow> u8 \<Rightarrow> symmem \<Rightarrow> (STATUS \<times> symmem) option" where
  "symRemove freed pKey tid t name type S = do {
     (st, found, S) \<leftarrow> symFindSymbol pKey tid t name 0 type (word_of_int SYM_MASK_EXACT_TYPE) S;
     if st \<noteq> OK then Some (ERROR, S)
     else case found of
       None \<Rightarrow> None
     | Some symId \<Rightarrow> do {
         (st, S) \<leftarrow> symTableRemove tid t symId S;
         Some (if st \<noteq> OK then (ERROR, S) else symDestroy freed t symId S)
       }
   }"

end
