(* ===== verification/HashProps.thy ===== *)
theory HashProps
  imports HashLib
begin

text \<open>
  What the hash tables guarantee: the relation between a table and the sequence of its nodes, latest first,
  that every operation but the removal keeps; searching and visiting; and what the removal really does.
\<close>

subsection \<open>The nodes of a table\<close>

definition hash_rep :: "hash_funs \<Rightarrow> hmem \<Rightarrow> ptr \<Rightarrow> ptr list \<Rightarrow> bool" where
  "hash_rep F m h xs \<longleftrightarrow> htIsTable (htabs m h) \<and> distinct xs \<and>
     (\<forall>x \<in> set xs. 0 \<le> key_index F h x m \<and> key_index F h x m < htNum (htabs m h)) \<and>
     (\<forall>i. 0 \<le> i \<and> i < htNum (htabs m h) \<longrightarrow>
        sll_rep m (bucket m h i) (filter (\<lambda>x. key_index F h x m = i) xs))"

lemma htabs_store [simp]:
  "htabs (sset_next n v m) = htabs m" "htabs (sset_head l v m) = htabs m" "htabs (sset_tail l v m) = htabs m"
  by (simp_all add: sll_store_defs)

lemma htabs_sllPutAtHead [simp]: "htabs (snd (sllPutAtHead l n m)) = htabs m"
  by (simp add: sllPutAtHead_def Let_def)

lemma htabs_sllInit [simp]: "htabs (snd (sllInit l m)) = htabs m"
  by (simp add: sllInit_def)

lemma bucket_inj: "0 \<le> i \<Longrightarrow> 0 \<le> j \<Longrightarrow> bucket m h i = bucket m h j \<longleftrightarrow> i = j"
  by (auto simp: bucket_def)

lemma bucket_cong: "htabs m' = htabs m \<Longrightarrow> bucket m' h i = bucket m h i"
  by (simp add: bucket_def)

lemma key_index_cong: "htabs m' = htabs m \<Longrightarrow> key_index F h x m' = key_index F h x m"
  by (simp add: key_index_def)

subsection \<open>Putting\<close>

lemma sllPutAtHead_frame:
  "snext (snd (sllPutAtHead l n m)) x = (if x = n \<and> l \<noteq> NULL \<and> n \<noteq> NULL then SLL_HEAD m l else snext m x)"
  "l' \<noteq> l \<Longrightarrow> slists (snd (sllPutAtHead l n m)) l' = slists m l'"
  by (auto simp: sllPutAtHead_def Let_def sll_store_defs)

lemma hashTablePut_eq:
  "htIsTable (htabs m h) \<Longrightarrow>
     hashTablePut F h n m = (OK, snd (sllPutAtHead (bucket m h (key_index F h n m)) n m))"
  by (simp add: hashTablePut_def HASH_VERIFY_ne_OK_def)

lemma htabs_hashTablePut [simp]: "htabs (snd (hashTablePut F h n m)) = htabs m"
  by (simp add: hashTablePut_def HASH_VERIFY_ne_OK_def)

lemma hashTablePut_rep:
  assumes rep: "hash_rep F m h xs" and n: "n \<noteq> NULL" "n \<notin> set xs"
    and k: "0 \<le> key_index F h n m" "key_index F h n m < htNum (htabs m h)"
  shows "hash_rep F (snd (hashTablePut F h n m)) h (n # xs)"
proof -
  let ?m = "snd (hashTablePut F h n m)" and ?k = "key_index F h n m"
  have t: "htabs ?m = htabs m" by simp
  have e: "?m = snd (sllPutAtHead (bucket m h ?k) n m)"
    using rep by (simp add: hash_rep_def hashTablePut_eq)
  have "sll_rep ?m (bucket m h i) (filter (\<lambda>x. key_index F h x m = i) (n # xs))"
    if i: "0 \<le> i" "i < htNum (htabs m h)" for i
  proof -
    have r: "sll_rep m (bucket m h i) (filter (\<lambda>x. key_index F h x m = i) xs)"
      using rep i by (simp add: hash_rep_def)
    show ?thesis
    proof (cases "?k = i")
      case True
      with sll.push_law [OF r, of n] n e show ?thesis by simp
    next
      case False
      then have "sll_rep ?m (bucket m h i) (filter (\<lambda>x. key_index F h x m = i) xs) =
          sll_rep m (bucket m h i) (filter (\<lambda>x. key_index F h x m = i) xs)"
        using n i k unfolding e
        by (intro sll_rep_frame) (auto simp: sllPutAtHead_frame bucket_inj)
      with r False show ?thesis by simp
    qed
  qed
  with rep n k show ?thesis
    by (auto simp: hash_rep_def bucket_cong [OF t] key_index_cong [OF t])
qed

lemma hashTablePut_fold_rep:
  assumes "hash_rep F m h xs" and "distinct (ns @ xs)" and "NULL \<notin> set ns"
    and "\<And>x. x \<in> set ns \<Longrightarrow> 0 \<le> key_index F h x m \<and> key_index F h x m < htNum (htabs m h)"
  shows "hash_rep F (fold (\<lambda>n m. snd (hashTablePut F h n m)) ns m) h (rev ns @ xs) \<and>
    htabs (fold (\<lambda>n m. snd (hashTablePut F h n m)) ns m) = htabs m"
  using assms
proof (induction ns arbitrary: m xs)
  case Nil
  then show ?case by simp
next
  case (Cons n ns)
  have t: "htabs (snd (hashTablePut F h n m)) = htabs m" by simp
  have "hash_rep F (snd (hashTablePut F h n m)) h (n # xs)"
    using Cons.prems by (intro hashTablePut_rep) auto
  with Cons.IH [of "snd (hashTablePut F h n m)" "n # xs"] Cons.prems show ?case
    by (simp add: key_index_cong [OF t])
qed

subsection \<open>Initialisation\<close>

lemma htabs_init_buckets [simp]: "htabs (init_buckets h n m) = htabs m"
  by (induction n) simp_all

lemma init_buckets_rep:
  "(\<And>i. i < n \<Longrightarrow> bucket m h (int i) \<noteq> NULL) \<Longrightarrow> j < n \<Longrightarrow>
     sll_rep (init_buckets h n m) (bucket m h (int j)) []"
proof (induction n)
  case (Suc n)
  let ?m = "init_buckets h n m" and ?b = "bucket m h (int n)"
  have b: "bucket ?m h (int n) = ?b" by (intro bucket_cong) simp
  show ?case
  proof (cases "j = n")
    case True
    with Suc.prems show ?thesis by (simp add: b sllInit_rep)
  next
    case False
    then have "sll_rep ?m (bucket m h (int j)) []" using Suc by simp
    moreover have "bucket m h (int j) \<noteq> ?b" using False by (simp add: bucket_inj)
    ultimately show ?thesis
      by (simp add: b sll_rep_def sllInit_def sll_store_defs)
  qed
qed simp

lemma table_size_pow:
  assumes "k < 31"
  shows "table_size k = 2 ^ k"
proof -
  have "k \<in> set [0..<31]" using assms by simp
  then show ?thesis unfolding table_size_def by (auto simp: upt_conv_Cons)
qed

lemma hashTableInit_rep:
  assumes "h \<noteq> NULL" and "pList \<noteq> NULL"
    and "hashTableInit h pList k cmp key arg m0 = (st, m)"
  shows "st = OK \<and> hash_rep F m h [] \<and> htNum (htabs m h) = table_size k \<and> htCmp (htabs m h) = cmp \<and>
    htKey (htabs m h) = key \<and> htArg (htabs m h) = arg"
proof -
  let ?u = "upd_htab h (\<lambda>h. h\<lparr>htNum := table_size k, htCmp := cmp, htKey := key, htArg := arg, htTable := pList\<rparr>) m0"
  have n: "htNum (htabs ?u h) = table_size k" by (simp add: upd_htab_def)
  have m: "m = upd_htab h (\<lambda>h. h\<lparr>htIsTable := True\<rparr>) (init_buckets h (nat (table_size k)) ?u)" and st: "st = OK"
    using assms n by (simp_all add: hashTableInit_def Let_def)
  have b: "bucket m h i = bucket ?u h i" for i by (simp add: m bucket_def upd_htab_def)
  have nz: "bucket ?u h (int i) \<noteq> NULL" for i
    using assms(2) by (simp add: bucket_def upd_htab_def)
  have "sll_rep m (bucket ?u h i) []" if "0 \<le> i" "i < table_size k" for i
  proof -
    have "sll_rep (init_buckets h (nat (table_size k)) ?u) (bucket ?u h (int (nat i))) []"
      by (rule init_buckets_rep) (use nz that in auto)
    with that show ?thesis by (simp add: m sll_rep_def upd_htab_def)
  qed
  then show ?thesis
    unfolding st hash_rep_def b by (simp add: m n) (simp add: upd_htab_def)
qed

subsection \<open>Searching and visiting\<close>

lemma find_loop_sseg:
  "sseg m xs NULL \<Longrightarrow>
     find_loop P m (hd (xs @ [NULL])) = Some (case find P xs of None \<Rightarrow> NULL | Some x \<Rightarrow> x)"
proof (induction xs)
  case Nil
  then show ?case by (simp add: find_loop.simps)
next
  case (Cons x xs)
  then show ?case by (simp add: find_loop.simps [of P m x] SLL_NEXT_def)
qed

lemma find_filter: "(\<And>x. x \<in> set xs \<Longrightarrow> P x \<Longrightarrow> Q x) \<Longrightarrow> find P (filter Q xs) = find P xs"
  by (induction xs) auto

lemma hashTableFind_rep:
  assumes rep: "hash_rep F m h xs"
    and k: "0 \<le> key_index F h q m" "key_index F h q m < htNum (htabs m h)"
    and c: "\<And>x. x \<in> set xs \<Longrightarrow> hf_cmp F (htCmp (htabs m h)) q x a \<Longrightarrow> key_index F h x m = key_index F h q m"
  shows "hashTableFind F h q a m =
    Some (case find (\<lambda>x. hf_cmp F (htCmp (htabs m h)) q x a) xs of None \<Rightarrow> NULL | Some x \<Rightarrow> x, m)"
proof -
  let ?b = "bucket m h (key_index F h q m)" and ?ys = "filter (\<lambda>x. key_index F h x m = key_index F h q m) xs"
  have "sll_rep m ?b ?ys" using rep k by (simp add: hash_rep_def)
  then have "sseg m ?ys NULL" "SLL_HEAD m ?b = hd (?ys @ [NULL])" by (auto simp: sll_rep_def SLL_HEAD_def)
  with rep c show ?thesis
    by (simp add: hashTableFind_def HASH_VERIFY_ne_OK_def hash_rep_def Let_def find_loop_sseg find_filter)
qed

lemma each_bucket_stop: "p \<noteq> NULL \<Longrightarrow> each_bucket f h k i p m = Some (p, m)"
  by (cases k) simp_all

lemma find_ends:
  "find P xs = None \<and> (\<forall>x \<in> set xs. \<not> P x) \<or> (\<exists>x \<in> set xs. find P xs = Some x \<and> P x)"
  by (induction xs) auto

lemma each_bucket_rep:
  assumes "\<And>j. i \<le> j \<Longrightarrow> j < i + int k \<Longrightarrow> sll_rep m (bucket m h j) (filter (\<lambda>x. ix x = j) xs)"
    and "\<And>x. x \<in> set xs \<Longrightarrow> f x m = (P x, m)"
  shows "\<exists>r. each_bucket (Some f) h k i NULL m = Some (r, m) \<and>
    (if r = NULL then \<forall>x \<in> set xs. i \<le> ix x \<and> ix x < i + int k \<longrightarrow> P x else r \<in> set xs \<and> \<not> P r)"
  using assms
proof (induction k arbitrary: i)
  case 0
  show ?case by (rule exI [of _ NULL]) auto
next
  case (Suc k)
  let ?ys = "filter (\<lambda>x. ix x = i) xs"
  let ?r = "case find (\<lambda>x. \<not> P x) ?ys of None \<Rightarrow> NULL | Some x \<Rightarrow> x"
  have s: "sll_rep m (bucket m h i) ?ys" using Suc.prems(1) [of i] by simp
  then have "sllEach (bucket m h i) (Some f) m = Some (?r, m)"
    using sllEach_loop_find [of m ?ys f P] Suc.prems(2)
    by (simp add: sllEach_def sll_rep_def SLL_HEAD_def)
  then have e: "each_bucket (Some f) h (Suc k) i NULL m = each_bucket (Some f) h k (i + 1) ?r m" by simp
  from find_ends [of "\<lambda>x. \<not> P x" ?ys] show ?case
  proof
    assume a: "find (\<lambda>x. \<not> P x) ?ys = None \<and> (\<forall>x \<in> set ?ys. \<not> \<not> P x)"
    obtain r where r: "each_bucket (Some f) h k (i + 1) NULL m = Some (r, m)"
      "if r = NULL then \<forall>x \<in> set xs. i + 1 \<le> ix x \<and> ix x < i + 1 + int k \<longrightarrow> P x else r \<in> set xs \<and> \<not> P r"
      using Suc.IH [of "i + 1"] Suc.prems by force
    have "\<forall>x \<in> set xs. i \<le> ix x \<and> ix x < i + int (Suc k) \<longrightarrow> P x" if "r = NULL"
    proof (intro ballI impI)
      fix x assume x: "x \<in> set xs" "i \<le> ix x \<and> ix x < i + int (Suc k)"
      show "P x"
      proof (cases "ix x = i")
        case True
        with a x(1) show ?thesis by simp
      next
        case False
        with x r(2) that show ?thesis by simp
      qed
    qed
    with r(2) have "if r = NULL then \<forall>x \<in> set xs. i \<le> ix x \<and> ix x < i + int (Suc k) \<longrightarrow> P x else r \<in> set xs \<and> \<not> P r"
      by presburger
    with a r(1) e show ?thesis by (intro exI [of _ r]) simp
  next
    assume "\<exists>x \<in> set ?ys. find (\<lambda>x. \<not> P x) ?ys = Some x \<and> \<not> P x"
    then obtain x where x0: "x \<in> set ?ys" "find (\<lambda>x. \<not> P x) ?ys = Some x" "\<not> P x" by blast
    have "?r = x" by (simp only: x0(2) option.case)
    note x = x0(1) this x0(3)
    have nz: "x \<noteq> NULL"
    proof
      assume "x = NULL"
      with x(1) sll_rep_NULL [OF s] show False by simp
    qed
    have "each_bucket (Some f) h (Suc k) i NULL m = Some (x, m)"
      by (simp only: e x(2) each_bucket_stop [OF nz])
    moreover have "x \<in> set xs" using x(1) by simp
    ultimately show ?thesis using nz x(3) by (intro exI [of _ x]) (simp only: if_False simp_thms)
  qed
qed

lemma hashTableEach_rep:
  assumes rep: "hash_rep F m h xs" and f: "\<And>x. x \<in> set xs \<Longrightarrow> f x m = (P x, m)"
  shows "\<exists>r. hashTableEach h (Some f) m = Some (r, m) \<and>
    (if r = NULL then \<forall>x \<in> set xs. P x else r \<in> set xs \<and> \<not> P r)"
proof -
  let ?k = "nat (htNum (htabs m h))" and ?ix = "\<lambda>x. key_index F h x m"
  have "\<exists>r. each_bucket (Some f) h ?k 0 NULL m = Some (r, m) \<and>
    (if r = NULL then \<forall>x \<in> set xs. 0 \<le> ?ix x \<and> ?ix x < 0 + int ?k \<longrightarrow> P x else r \<in> set xs \<and> \<not> P r)"
    by (rule each_bucket_rep) (use rep f in \<open>auto simp: hash_rep_def split: if_splits\<close>)
  then obtain r where r: "each_bucket (Some f) h ?k 0 NULL m = Some (r, m)"
    "if r = NULL then \<forall>x \<in> set xs. 0 \<le> ?ix x \<and> ?ix x < 0 + int ?k \<longrightarrow> P x else r \<in> set xs \<and> \<not> P r"
    by blast
  have in_range: "0 \<le> ?ix x \<and> ?ix x < 0 + int ?k" if "x \<in> set xs" for x
    using rep that by (force simp: hash_rep_def)
  have "hashTableEach h (Some f) m = Some (r, m)"
    using rep r(1) by (simp add: hashTableEach_def HASH_VERIFY_ne_OK_def hash_rep_def)
  moreover have "if r = NULL then \<forall>x \<in> set xs. P x else r \<in> set xs \<and> \<not> P r"
    using r(2) in_range by (simp split: if_splits)
  ultimately show ?thesis by blast
qed

subsection \<open>The functions of a client\<close>

text \<open>What a client's key and compare functions owe the library: an index inside the table, and the same index for
  nodes that compare equal. Under this contract a table is a stack of nodes that is searched from the top.\<close>

definition hash_tab :: "hash_funs \<Rightarrow> nat \<Rightarrow> nat \<Rightarrow> int \<Rightarrow> hmem \<Rightarrow> ptr \<Rightarrow> nat \<Rightarrow> ptr list \<Rightarrow> bool" where
  "hash_tab F key cmp arg m h k xs \<longleftrightarrow> hash_rep F m h xs \<and> k < 31 \<and> htNum (htabs m h) = 2 ^ k \<and>
     htCmp (htabs m h) = cmp \<and> htKey (htabs m h) = key \<and> htArg (htabs m h) = arg"

locale hash_functions =
  fixes F :: hash_funs and key cmp :: nat and arg :: int
  assumes range_law: "k < 31 \<Longrightarrow> 0 \<le> hf_key F key (2 ^ k) x arg \<and> hf_key F key (2 ^ k) x arg < 2 ^ k"
    and cmp_law: "k < 31 \<Longrightarrow> hf_cmp F cmp x y a \<Longrightarrow>
      hf_key F key (2 ^ k) x arg = hf_key F key (2 ^ k) y arg"
begin

lemma tab_key_index: "hash_tab F key cmp arg m h k xs \<Longrightarrow> key_index F h x m = hf_key F key (2 ^ k) x arg"
  by (simp add: hash_tab_def key_index_def)

lemma tab_put:
  assumes "hash_tab F key cmp arg m h k xs" and "n \<noteq> NULL" and "n \<notin> set xs"
  shows "\<exists>m'. hashTablePut F h n m = (OK, m') \<and> hash_tab F key cmp arg m' h k (n # xs)"
proof -
  have "fst (hashTablePut F h n m) = OK"
    using assms(1) by (simp add: hash_tab_def hash_rep_def hashTablePut_eq)
  moreover have "hash_tab F key cmp arg (snd (hashTablePut F h n m)) h k (n # xs)"
    using hashTablePut_rep [of F m h xs n] assms range_law [of k n] tab_key_index [OF assms(1)]
    by (simp add: hash_tab_def)
  ultimately show ?thesis by (metis prod.collapse)
qed

lemma tab_find:
  assumes "hash_tab F key cmp arg m h k xs"
  shows "hashTableFind F h q a m =
    Some (case find (\<lambda>x. hf_cmp F cmp q x a) xs of None \<Rightarrow> NULL | Some x \<Rightarrow> x, m)"
  using hashTableFind_rep [of F m h xs q a] assms range_law [of k q] cmp_law [of k q]
    tab_key_index [OF assms] by (simp add: hash_tab_def)

end

lemma hash_tab_cong:
  assumes "\<And>x. x \<in> set xs \<Longrightarrow> hf_key F' key (2 ^ k) x arg = hf_key F key (2 ^ k) x arg"
  shows "hash_tab F' key cmp arg m h k xs = hash_tab F key cmp arg m h k xs"
proof (cases "htNum (htabs m h) = 2 ^ k \<and> htKey (htabs m h) = key \<and> htArg (htabs m h) = arg")
  case True
  then have i: "key_index F' h x m = key_index F h x m" if "x \<in> set xs" for x
    using assms [OF that] by (simp add: key_index_def)
  then have "filter (\<lambda>x. key_index F' h x m = i) xs = filter (\<lambda>x. key_index F h x m = i) xs" for i
    by (intro filter_cong) auto
  with i show ?thesis by (simp add: hash_tab_def hash_rep_def)
qed (auto simp: hash_tab_def)

lemma hash_tab_init:
  assumes "hashTableInit h pList k cmp key arg m0 = (st, m)" and "h \<noteq> NULL" and "pList \<noteq> NULL" and "k < 31"
  shows "st = OK \<and> hash_tab F key cmp arg m h k []"
  using hashTableInit_rep [OF assms(2,3,1)] table_size_pow [OF assms(4)] assms(4) by (auto simp: hash_tab_def)

subsection \<open>Removing\<close>

text \<open>A search that reaches a node which is its own successor and does not match never returns.\<close>

lemma find_loop_stuck:
  assumes "snext m n = n" and "n \<noteq> NULL" and "\<not> P n"
  shows "find_loop P m n = None"
proof -
  have "snext m n = n \<longrightarrow> \<not> P n \<longrightarrow> p \<noteq> n" if "find_loop P m p = Some y" for p y
  proof (rule find_loop.raw_induct [where P = "\<lambda>P m p y. snext m n = n \<longrightarrow> \<not> P n \<longrightarrow> p \<noteq> n", OF _ that])
    fix loop P m p y
    assume ih: "\<And>P m p y. loop P m p = Some y \<Longrightarrow> snext m n = n \<longrightarrow> \<not> P n \<longrightarrow> p \<noteq> n"
      and e: "(if p \<noteq> NULL \<and> \<not> P p then loop P m (SLL_NEXT m p) else Some p) = Some y"
    show "snext m n = n \<longrightarrow> \<not> P n \<longrightarrow> p \<noteq> n"
      using e ih [of P m n y] assms(2) by (auto simp: SLL_NEXT_def split: if_splits)
  qed
  with assms have "find_loop P m n \<noteq> Some y" for y by blast
  then show ?thesis by (metis not_None_eq)
qed

lemma find_loop_skip:
  "sseg m as q \<Longrightarrow> (\<And>x. x \<in> set as \<Longrightarrow> \<not> P x) \<Longrightarrow> find_loop P m (hd (as @ [q])) = find_loop P m q"
proof (induction as)
  case (Cons a as)
  then show ?case by (simp add: find_loop.simps [of P m a] SLL_NEXT_def)
qed simp

lemma hashTableRemove_first:
  assumes rep: "hash_rep F m h xs"
    and xs: "filter (\<lambda>x. key_index F h x m = key_index F h n m) xs = n # bs"
  shows "hashTableRemove F h n m = Some (OK, m)"
proof -
  have "n \<in> set xs" using xs by (metis filter_is_subset list.set_intros(1) subsetD)
  with rep xs have "sll_rep m (bucket m h (key_index F h n m)) ([] @ n # bs)" by (force simp: hash_rep_def)
  from sllPrevious_rep [OF this] rep show ?thesis
    by (simp add: hashTableRemove_def HASH_VERIFY_ne_OK_def hash_rep_def Let_def sllRemove_def)
qed

lemma hashTableRemove_later:
  assumes rep: "hash_rep F m h xs"
    and xs: "filter (\<lambda>x. key_index F h x m = key_index F h n m) xs = as @ p # n # bs"
  shows "hashTableRemove F h n m = Some (OK, sset_next n n m)"
proof -
  have "n \<in> set xs" using xs by (metis filter_is_subset in_set_conv_decomp append_Cons append_assoc self_append_conv2 subsetD append.assoc)
  with rep xs have s: "sll_rep m (bucket m h (key_index F h n m)) ((as @ [p]) @ n # bs)" by (force simp: hash_rep_def)
  then have "p \<noteq> NULL" "n \<noteq> NULL" "snext m p = n" "bucket m h (key_index F h n m) \<noteq> NULL"
    using sll_rep_NULL [OF s] by (auto simp: sll_rep_def sseg_append)
  with sllPrevious_rep [OF s] rep show ?thesis
    by (simp add: hashTableRemove_def HASH_VERIFY_ne_OK_def hash_rep_def Let_def sllRemove_def SLL_NEXT_def)
qed

lemma hashTableFind_stuck:
  assumes rep: "hash_rep F m h xs" and q: "key_index F h q m = key_index F h n m"
    and xs: "filter (\<lambda>x. key_index F h x m = key_index F h n m) xs = as @ n # bs"
    and c: "\<And>x. x \<in> set (as @ [n]) \<Longrightarrow> \<not> hf_cmp F (htCmp (htabs m h)) q x a"
  shows "hashTableFind F h q a (sset_next n n m) = None"
proof -
  let ?m = "sset_next n n m" and ?b = "bucket m h (key_index F h n m)"
    and ?P = "\<lambda>x. hf_cmp F (htCmp (htabs m h)) q x a"
  have t: "htabs ?m = htabs m" by simp
  have n: "n \<in> set xs" using xs by (metis filter_is_subset in_set_conv_decomp subsetD)
  with rep xs have s: "sll_rep m ?b (as @ n # bs)" by (force simp: hash_rep_def)
  then have "sseg m as n" "n \<notin> set as" "SLL_HEAD m ?b = hd (as @ [n])" "n \<noteq> NULL"
    using sll_rep_NULL [OF s] by (auto simp: sll_rep_def SLL_HEAD_def sseg_append hd_append)
  then have "sseg ?m as n" "SLL_HEAD ?m ?b = hd (as @ [n])" "snext ?m n = n" "n \<noteq> NULL"
    by (simp_all add: sll_store_defs sseg_upd)
  then have "find_loop ?P ?m (SLL_HEAD ?m ?b) = None"
    using find_loop_skip [of ?m as n ?P] find_loop_stuck [of ?m n ?P] c by simp
  with rep q show ?thesis
    by (simp add: hashTableFind_def HASH_VERIFY_ne_OK_def hash_rep_def Let_def key_index_cong [OF t] bucket_cong [OF t])
qed

subsection \<open>Properties\<close>

text \<open>C40. A hash table of \<open>2 ^ k\<close> buckets, from its initialisation on. After any sequence of puts, finding
  returns the node put last among those the compare function accepts, and \<open>NULL\<close> when there is none, provided
  the key function puts the nodes it accepts into the bucket of the key looked for; visiting stops at a node for
  which the visitor returned \<open>FALSE\<close>, and only then, having seen every node of every bucket otherwise. Neither
  changes the table.\<close>

theorem hash_find_latest:
  assumes "hashTableInit h pList k cmp key arg m0 = (st, m)" and "h \<noteq> NULL" and "pList \<noteq> NULL" and "k < 31"
    and "distinct ns" and "NULL \<notin> set ns"
    and "\<forall>x \<in> set (q # ns). 0 \<le> hf_key F key (2 ^ k) x arg \<and> hf_key F key (2 ^ k) x arg < 2 ^ k"
    and "\<forall>x \<in> set ns. hf_cmp F cmp q x a \<longrightarrow> hf_key F key (2 ^ k) x arg = hf_key F key (2 ^ k) q arg"
    and "\<forall>x \<in> set ns. \<forall>m. f x m = (P x, m)"
  shows "let t = fold (\<lambda>n m. snd (hashTablePut F h n m)) ns m in st = OK \<and>
    hashTableFind F h q a t =
      Some (case find (\<lambda>x. hf_cmp F cmp q x a) (rev ns) of None \<Rightarrow> NULL | Some x \<Rightarrow> x, t) \<and>
    (\<exists>r. hashTableEach h (Some f) t = Some (r, t) \<and>
      (if r = NULL then \<forall>x \<in> set ns. P x else r \<in> set ns \<and> \<not> P r))"
proof -
  let ?t = "fold (\<lambda>n m. snd (hashTablePut F h n m)) ns m"
  have i: "st = OK" "hash_rep F m h []" "htNum (htabs m h) = 2 ^ k" "htCmp (htabs m h) = cmp"
    "htKey (htabs m h) = key" "htArg (htabs m h) = arg"
    using hashTableInit_rep [OF assms(2,3,1)] table_size_pow [OF assms(4)] by auto
  have ki: "key_index F h x m' = hf_key F key (2 ^ k) x arg" if "htabs m' = htabs m" for x m'
    using that i by (simp add: key_index_def)
  have "hash_rep F ?t h (rev ns @ []) \<and> htabs ?t = htabs m"
    by (rule hashTablePut_fold_rep [OF i(2)]) (use assms i ki [of m] in auto)
  then have t: "hash_rep F ?t h (rev ns)" "htabs ?t = htabs m" by auto
  have "hashTableFind F h q a ?t = Some (case find (\<lambda>x. hf_cmp F (htCmp (htabs ?t h)) q x a) (rev ns) of
      None \<Rightarrow> NULL | Some x \<Rightarrow> x, ?t)"
    by (rule hashTableFind_rep [OF t(1)]) (use assms i t(2) ki [OF t(2)] in auto)
  moreover have "\<exists>r. hashTableEach h (Some f) ?t = Some (r, ?t) \<and>
      (if r = NULL then \<forall>x \<in> set (rev ns). P x else r \<in> set (rev ns) \<and> \<not> P r)"
    by (rule hashTableEach_rep [OF t(1)]) (use assms in auto)
  ultimately show ?thesis unfolding Let_def set_rev i(4) t(2) using i(1) by (intro conjI)
qed

theorem hash_find_latest_witness:
  "let F = \<lparr>hf_key = (\<lambda>fn size x arg. int x mod size), hf_cmp = (\<lambda>fn x y arg. x mod 100 = y mod 100)\<rparr>;
     t = fold (\<lambda>n m. snd (hashTablePut F 1 n m)) [204, 103, 104, 301] (snd (hashTableInit 1 8 2 0 0 0
       \<lparr>snext = (\<lambda>n. 0), slists = (\<lambda>l. \<lparr>sl_head = 0, sl_tail = 0\<rparr>),
        htabs = (\<lambda>h. \<lparr>htIsTable = False, htNum = 0, htCmp = 0, htKey = 0, htArg = 0, htTable = 0\<rparr>), herrno = 0\<rparr>))
   in hashTableFind F 1 4 0 t = Some (104, t)"
  using hash_find_latest [of 1 8 2 0 0 0 _ _ _ "[204, 103, 104, 301]" 4
      "\<lparr>hf_key = (\<lambda>fn size x arg. int x mod size), hf_cmp = (\<lambda>fn x y arg. x mod 100 = y mod 100)\<rparr>" 0
      "\<lambda>x m. (True, m)" "\<lambda>x. True", OF prod.collapse [symmetric]]
  by (simp add: Let_def)

text \<open>What \<open>hashTableRemove\<close> does, because it hands its node and the predecessor to \<open>sllRemove\<close> the wrong
  way round. It always returns \<open>OK\<close>; the first node of a bucket stays in the table; any other node becomes its
  own successor, and from then on a search in that bucket for a key that does not occur up to this node never
  returns.\<close>

theorem hash_remove_broken:
  assumes "hash_rep F m h xs"
    and "filter (\<lambda>x. key_index F h x m = key_index F h n m) xs = as @ n # bs"
  shows "(as = [] \<longrightarrow> hashTableRemove F h n m = Some (OK, m)) \<and>
    (as \<noteq> [] \<longrightarrow> (\<exists>m'. hashTableRemove F h n m = Some (OK, m') \<and> SLL_NEXT m' n = n \<and>
       (\<forall>q a. key_index F h q m = key_index F h n m \<longrightarrow>
          (\<forall>x \<in> set (as @ [n]). \<not> hf_cmp F (htCmp (htabs m h)) q x a) \<longrightarrow>
          hashTableFind F h q a m' = None)))"
proof (intro conjI impI)
  assume "as = []"
  with assms show "hashTableRemove F h n m = Some (OK, m)" by (simp add: hashTableRemove_first)
next
  assume "as \<noteq> []"
  then obtain as' p where "as = as' @ [p]" by (cases as rule: rev_cases) auto
  with assms have "hashTableRemove F h n m = Some (OK, sset_next n n m)"
    using hashTableRemove_later [of F m h xs n as' p bs] by simp
  moreover have "SLL_NEXT (sset_next n n m) n = n" by (simp add: sll_store_defs)
  moreover have "hashTableFind F h q a (sset_next n n m) = None"
    if "key_index F h q m = key_index F h n m" "\<forall>x \<in> set (as @ [n]). \<not> hf_cmp F (htCmp (htabs m h)) q x a" for q a
    using hashTableFind_stuck [OF assms(1) that(1) assms(2)] that(2) by blast
  ultimately show "\<exists>m'. hashTableRemove F h n m = Some (OK, m') \<and> SLL_NEXT m' n = n \<and>
       (\<forall>q a. key_index F h q m = key_index F h n m \<longrightarrow>
          (\<forall>x \<in> set (as @ [n]). \<not> hf_cmp F (htCmp (htabs m h)) q x a) \<longrightarrow>
          hashTableFind F h q a m' = None)" by blast
qed

theorem hash_remove_broken_witness:
  "let F = \<lparr>hf_key = (\<lambda>fn size x arg. 0), hf_cmp = (\<lambda>fn x y arg. x = y)\<rparr>;
     m = \<lparr>snext = (\<lambda>n. if n = 20 then 21 else 0), slists = (\<lambda>l. \<lparr>sl_head = 20, sl_tail = 21\<rparr>),
        htabs = (\<lambda>h. \<lparr>htIsTable = True, htNum = 1, htCmp = 0, htKey = 0, htArg = 0, htTable = 8\<rparr>), herrno = 0\<rparr>
   in \<exists>m'. hashTableRemove F 1 21 m = Some (OK, m') \<and> hashTableFind F 1 30 0 m' = None"
proof -
  let ?F = "\<lparr>hf_key = (\<lambda>fn size x arg. 0), hf_cmp = (\<lambda>fn x y arg. x = y)\<rparr> :: hash_funs"
  let ?m = "\<lparr>snext = (\<lambda>n. if n = 20 then 21 else 0), slists = (\<lambda>l. \<lparr>sl_head = 20, sl_tail = 21\<rparr>),
        htabs = (\<lambda>h. \<lparr>htIsTable = True, htNum = 1, htCmp = 0, htKey = 0, htArg = 0, htTable = 8\<rparr>), herrno = 0\<rparr> :: hmem"
  have "hash_rep ?F ?m 1 [20, 21]"
    by (auto simp: hash_rep_def key_index_def sll_rep_def bucket_def)
  from hash_remove_broken [OF this, of 21 "[20]" "[]"] show ?thesis
    by (auto simp: key_index_def Let_def)
qed

end
