(* ===== verification/SymProps.thy ===== *)
theory SymProps
  imports SymLib HashProps
begin

text \<open>
  Symbol tables against a list of entries, latest first: the key and compare functions of \<open>symLib\<close> satisfy the
  contract of the hash tables, adding and finding implement the list, and what goes wrong with the mutex and
  with removal.
\<close>

subsection \<open>The functions of the library meet the contract of the hash tables\<close>

lemma symHashFuncName_range:
  assumes "k < 31"
  shows "0 \<le> symHashFuncName sy (2 ^ k) p seed \<and> symHashFuncName sy (2 ^ k) p seed < 2 ^ k"
proof -
  have m: "(word_of_int (2 ^ k - 1) :: u32) = mask k" by (simp add: mask_eq_exp_minus_1)
  have u: "uint (w AND mask k :: u32) < 2 ^ k" for w
    by (simp add: unsigned_take_bit_eq flip: take_bit_eq_mask)
  have "sint (w AND mask k :: u32) = uint (w AND mask k)" for w
  proof -
    have "uint (w AND mask k :: u32) < 2 ^ 31"
      using u [of w] power_strict_increasing [of k 31 "2 :: int"] assms by linarith
    moreover have "- (2 ^ 31) \<le> uint (w AND mask k :: u32)" by (rule order_trans [OF _ uint_ge_0]) simp
    ultimately have "signed_take_bit 31 (uint (w AND mask k :: u32)) = uint (w AND mask k)"
      by (intro signed_take_bit_int_eq_self)
    then show ?thesis by (simp add: sint_uint)
  qed
  with u show ?thesis by (simp only: symHashFuncName_def m Let_def uint_ge_0 simp_thms)
qed

lemma symHashFuncName_cong: "syName (sy p) = syName (sy' q) \<Longrightarrow> symHashFuncName sy n p s = symHashFuncName sy' n q s"
  by (simp add: symHashFuncName_def)

interpretation symf: hash_functions "sym_funs sy" 2 1 SYM_HASH_FUNC_SEED
proof unfold_locales
  fix k :: nat and x y :: ptr and a :: int
  assume k: "k < 31"
  show "0 \<le> hf_key (sym_funs sy) 2 (2 ^ k) x SYM_HASH_FUNC_SEED \<and>
      hf_key (sym_funs sy) 2 (2 ^ k) x SYM_HASH_FUNC_SEED < 2 ^ k"
    using symHashFuncName_range [OF k] by (simp add: sym_funs_def)
  assume "hf_cmp (sym_funs sy) 1 x y a"
  then have "syName (sy x) = syName (sy y)"
    by (auto simp: sym_funs_def symHashKeyCmpName_def Let_def split: if_splits)
  then show "hf_key (sym_funs sy) 2 (2 ^ k) x SYM_HASH_FUNC_SEED = hf_key (sym_funs sy) 2 (2 ^ k) y SYM_HASH_FUNC_SEED"
    by (simp add: sym_funs_def) (rule symHashFuncName_cong)
qed

subsection \<open>The symbols of a table\<close>

definition sym_tab :: "symmem \<Rightarrow> ptr \<Rightarrow> nat \<Rightarrow> ptr list \<Rightarrow> bool" where
  "sym_tab S t k xs \<longleftrightarrow> stIsTab (symtabs S t) \<and>
     hash_tab (sym_funs (syms S)) 2 1 SYM_HASH_FUNC_SEED (sm_hash S) (stHash (symtabs S t)) k xs"

definition sym_rep :: "symmem \<Rightarrow> ptr \<Rightarrow> nat \<Rightarrow> ptr list \<Rightarrow> bool" where
  "sym_rep S t k xs \<longleftrightarrow> sym_tab S t k xs \<and> stNum (symtabs S t) = int (length xs)"

text \<open>The calling task has the mutex or can have it.\<close>

definition sym_mine :: "ptr \<Rightarrow> ptr \<Rightarrow> symmem \<Rightarrow> bool" where
  "sym_mine tid t S \<longleftrightarrow> stOwner (symtabs S t) = NULL \<or> stOwner (symtabs S t) = tid"

type_synonym entry = "sym_name \<times> u8 \<times> u32 \<times> u16"

definition entry_of :: "symmem \<Rightarrow> ptr \<Rightarrow> entry" where
  "entry_of S p = (syName (syms S p), syType (syms S p), syValue (syms S p), syGroup (syms S p))"

lemma sym_tab_upd_symbol [simp]:
  "p \<notin> set xs \<Longrightarrow> sym_tab (upd_symbol p f S) t k xs = sym_tab S t k xs"
  unfolding sym_tab_def upd_symbol_def
  by (simp, subst hash_tab_cong [where F = "sym_funs (syms S)"])
    (auto simp: sym_funs_def intro!: symHashFuncName_cong)

lemma sym_rep_upd_symbol [simp]:
  "p \<notin> set xs \<Longrightarrow> sym_rep (upd_symbol p f S) t k xs = sym_rep S t k xs"
  by (simp add: sym_rep_def) (simp add: upd_symbol_def)

lemma sym_rep_take:
  "sym_take tid t S = Some S' \<Longrightarrow> sym_tab S' t k xs = sym_tab S t k xs \<and>
     sym_rep S' t k xs = sym_rep S t k xs \<and> syms S' = syms S \<and>
     sm_hash S' = sm_hash S \<and> stSameOk (symtabs S' t) = stSameOk (symtabs S t)"
  by (auto simp: sym_take_def sym_rep_def sym_tab_def upd_symtab_def split: if_splits)

lemma sym_rep_give [simp]:
  "sym_rep (sym_give tid t S) t k xs = sym_rep S t k xs" "sym_tab (sym_give tid t S) t k xs = sym_tab S t k xs"
  "syms (sym_give tid t S) = syms S"
  "stSameOk (symtabs (sym_give tid t S) t) = stSameOk (symtabs S t)"
  "sm_hash (sym_give tid t S) = sm_hash S"
  by (auto simp: sym_give_def sym_rep_def sym_tab_def upd_symtab_def)

lemma sym_mine_take:
  assumes "sym_mine tid t S"
  shows "\<exists>S'. sym_take tid t S = Some S' \<and> stOwner (symtabs S' t) = tid"
  using assms by (auto simp: sym_mine_def sym_take_def upd_symtab_def)

lemma sym_mine_give [simp]: "stOwner (symtabs S t) = tid \<Longrightarrow> sym_mine tid t (sym_give tid t S)"
  by (simp add: sym_mine_def sym_give_def upd_symtab_def)

lemma sym_rep_tab: "sym_rep S t k xs \<Longrightarrow> sym_tab S t k xs"
  by (simp add: sym_rep_def)

lemma sym_verify [simp]:
  "sym_tab S t k xs \<Longrightarrow> SYM_VERIFY_ne_OK t S = (False, S)"
  "sym_rep S t k xs \<Longrightarrow> SYM_VERIFY_ne_OK t S = (False, S)"
  by (auto simp: SYM_VERIFY_ne_OK_def sym_rep_def sym_tab_def)

lemma sym_find_rep:
  assumes "sym_tab S t k xs"
  shows "sym_find t q a S =
    Some (case find (\<lambda>x. symHashKeyCmpName (syms S) q x a) xs of None \<Rightarrow> NULL | Some x \<Rightarrow> x, S)"
proof -
  have "hash_tab (sym_funs (syms S)) 2 1 SYM_HASH_FUNC_SEED (sm_hash S) (stHash (symtabs S t)) k xs"
    using assms by (simp add: sym_tab_def)
  from symf.tab_find [OF this, of q a] show ?thesis
    by (simp add: sym_find_def sym_funs_def)
qed

lemma sym_tab_nodes: "sym_tab S t k xs \<Longrightarrow> NULL \<notin> set xs \<and> distinct xs"
proof -
  assume r: "sym_tab S t k xs"
  let ?F = "sym_funs (syms S)" and ?h = "stHash (symtabs S t)" and ?m = "sm_hash S"
  have h: "hash_rep ?F ?m ?h xs" using r by (simp add: sym_tab_def hash_tab_def)
  have "NULL \<notin> set xs"
  proof
    assume n: "NULL \<in> set xs"
    let ?i = "key_index ?F ?h NULL ?m"
    have "sll_rep ?m (bucket ?m ?h ?i) (filter (\<lambda>x. key_index ?F ?h x ?m = ?i) xs)"
      using h n by (simp add: hash_rep_def)
    from sll_rep_NULL [OF this] n show False by simp
  qed
  with h show ?thesis by (simp add: hash_rep_def)
qed

lemma put_count_rep:
  assumes "sym_rep S t k xs" and "p \<noteq> NULL" and "p \<notin> set xs"
  shows "\<exists>S'. put_count t p S = (OK, S') \<and> sym_rep S' t k (p # xs) \<and> syms S' = syms S \<and>
    stOwner (symtabs S' t) = stOwner (symtabs S t) \<and> stSameOk (symtabs S' t) = stSameOk (symtabs S t)"
proof -
  let ?F = "sym_funs (syms S)"
  have "hash_tab ?F 2 1 SYM_HASH_FUNC_SEED (sm_hash S) (stHash (symtabs S t)) k xs"
    using assms(1) by (simp add: sym_rep_def sym_tab_def)
  from symf.tab_put [OF this assms(2,3)] obtain h where
    h: "hashTablePut ?F (stHash (symtabs S t)) p (sm_hash S) = (OK, h)"
    "hash_tab ?F 2 1 SYM_HASH_FUNC_SEED h (stHash (symtabs S t)) k (p # xs)" by blast
  with assms(1) show ?thesis
    by (auto simp: put_count_def sym_put_def upd_symtab_def sym_rep_def sym_tab_def)
qed

subsection \<open>Adding\<close>

lemma find_NULL_iff:
  assumes "NULL \<notin> set xs"
  shows "(case find P xs of None \<Rightarrow> NULL | Some x \<Rightarrow> x) \<noteq> NULL \<longleftrightarrow> (\<exists>x \<in> set xs. P x)"
  using find_ends [of P xs] assms by (auto split: option.splits intro: gr0I)

lemma u8_and_255: "(w :: u8) AND 255 = w"
proof -
  have "(255 :: u8) = - 1" by simp
  then show ?thesis by (metis and.right_neutral)
qed

lemma symTableAdd_rep:
  assumes rep: "sym_rep S t k xs" and mine: "sym_mine tid t S" and p: "p \<noteq> NULL" "p \<notin> set xs"
  shows "\<exists>S'. syms S' = syms S \<and> sym_mine tid t S' \<and> stSameOk (symtabs S' t) = stSameOk (symtabs S t) \<and>
    (if \<not> stSameOk (symtabs S t) \<and>
        (\<exists>x \<in> set xs. syName (syms S x) = syName (syms S p) \<and> syType (syms S x) = syType (syms S p))
     then symTableAdd tid t p S = Some (ERROR, S') \<and> sym_rep S' t k xs
     else symTableAdd tid t p S = Some (OK, S') \<and> sym_rep S' t k (p # xs) \<and>
       (\<not> stSameOk (symtabs S t) \<longrightarrow> stOwner (symtabs S' t) = tid))"
proof -
  obtain T where T: "sym_take tid t S = Some T" "stOwner (symtabs T t) = tid"
    using sym_mine_take [OF mine] by blast
  note t = sym_rep_take [OF T(1), of k xs]
  have repT: "sym_rep T t k xs" using t rep by simp
  obtain U where U: "put_count t p T = (OK, U)" "sym_rep U t k (p # xs)" "syms U = syms T"
    "stOwner (symtabs U t) = tid" "stSameOk (symtabs U t) = stSameOk (symtabs T t)"
    using put_count_rep [OF repT p] T(2) by blast
  have c: "symHashKeyCmpName (syms T) p x 255 \<longleftrightarrow>
      syName (syms S x) = syName (syms S p) \<and> syType (syms S x) = syType (syms S p)" for x
    using t by (auto simp: symHashKeyCmpName_def Let_def u8_and_255)
  have nz: "NULL \<notin> set xs" using sym_tab_nodes [OF sym_rep_tab [OF rep]] by simp
  show ?thesis
  proof (cases "stSameOk (symtabs S t)")
    case True
    then have "symTableAdd tid t p S = Some (OK, sym_give tid t U)"
      using rep T t U by (simp add: symTableAdd_def)
    with True U t show ?thesis by (intro exI [of _ "sym_give tid t U"]) simp
  next
    case False
    show ?thesis
    proof (cases "\<exists>x \<in> set xs. symHashKeyCmpName (syms T) p x 255")
      case dup: True
      then have "symTableAdd tid t p S = Some (ERROR, sym_give tid t T)"
        using rep T t False find_NULL_iff [OF nz, of "\<lambda>x. symHashKeyCmpName (syms T) p x 255"]
        by (simp add: symTableAdd_def sym_find_rep [OF sym_rep_tab [OF repT]])
      with dup c False T t repT show ?thesis by (intro exI [of _ "sym_give tid t T"]) auto
    next
      case new: False
      then have "symTableAdd tid t p S = Some (OK, U)"
        using rep T t U False find_NULL_iff [OF nz, of "\<lambda>x. symHashKeyCmpName (syms T) p x 255"]
        by (simp add: symTableAdd_def sym_find_rep [OF sym_rep_tab [OF repT]])
      with new c False U t show ?thesis by (intro exI [of _ U]) (auto simp: sym_mine_def)
    qed
  qed
qed

text \<open>The abstract table: a list of entries, latest first.\<close>

definition abs_add :: "bool \<Rightarrow> entry \<Rightarrow> entry list \<Rightarrow> STATUS \<times> entry list" where
  "abs_add sameOk e es =
     (if \<not> sameOk \<and> (\<exists>e' \<in> set es. fst e' = fst e \<and> fst (snd e') = fst (snd e)) then (ERROR, es) else (OK, e # es))"

lemma entry_of_upd: "p \<notin> set xs \<Longrightarrow> map (entry_of (upd_symbol p f S)) xs = map (entry_of S) xs"
  by (auto simp: entry_of_def upd_symbol_def)

lemma entry_of_syms: "syms S' = syms S \<Longrightarrow> entry_of S' = entry_of S"
  by (simp add: entry_of_def fun_eq_iff)

lemma symAdd_rep:
  assumes rep: "sym_rep S t k xs" and mine: "sym_mine tid t S" and p: "p \<noteq> NULL" "p \<notin> set xs"
  shows "\<exists>S' xs'. symAdd freed p tid t (Some nm) v ty g S =
      Some (fst (abs_add (stSameOk (symtabs S t)) (nm, ty, v, g) (map (entry_of S) xs)), S') \<and>
    sym_rep S' t k xs' \<and> sym_mine tid t S' \<and> stSameOk (symtabs S' t) = stSameOk (symtabs S t) \<and>
    map (entry_of S') xs' = snd (abs_add (stSameOk (symtabs S t)) (nm, ty, v, g) (map (entry_of S) xs)) \<and>
    set xs' \<subseteq> insert p (set xs)"
proof -
  let ?T = "upd_symbol p (\<lambda>y. y\<lparr>syName := nm, syValue := v, syType := ty, syGroup := g\<rparr>) S"
  let ?dup = "\<not> stSameOk (symtabs S t) \<and> (\<exists>x \<in> set xs. syName (syms S x) = nm \<and> syType (syms S x) = ty)"
  have T: "sym_rep ?T t k xs" "sym_mine tid t ?T" "stSameOk (symtabs ?T t) = stSameOk (symtabs S t)"
    using rep p mine by (simp_all add: sym_mine_def) (simp_all add: upd_symbol_def)
  have p': "syName (syms ?T p) = nm" "syType (syms ?T p) = ty" "entry_of ?T p = (nm, ty, v, g)"
    by (simp_all add: upd_symbol_def entry_of_def)
  have x: "syms ?T x = syms S x" if "x \<in> set xs" for x
    using that p by (auto simp: upd_symbol_def)
  have D: "(\<exists>x \<in> set xs. syName (syms ?T x) = nm \<and> syType (syms ?T x) = ty) =
      (\<exists>x \<in> set xs. syName (syms S x) = nm \<and> syType (syms S x) = ty)"
    by (rule bex_cong) (simp_all add: x)
  obtain S' where S': "syms S' = syms ?T" "sym_mine tid t S'" "stSameOk (symtabs S' t) = stSameOk (symtabs S t)"
    "if ?dup then symTableAdd tid t p ?T = Some (ERROR, S') \<and> sym_rep S' t k xs
     else symTableAdd tid t p ?T = Some (OK, S') \<and> sym_rep S' t k (p # xs) \<and>
       (\<not> stSameOk (symtabs S t) \<longrightarrow> stOwner (symtabs S' t) = tid)"
    using symTableAdd_rep [OF T(1,2) p] unfolding p' T(3) D by blast
  have e: "symAdd freed p tid t (Some nm) v ty g S = do {
      (st, S) \<leftarrow> symTableAdd tid t p ?T;
      Some (if st \<noteq> OK then (ERROR, snd (symDestroy freed t p S)) else (OK, S)) }"
    using rep p by (simp add: symAdd_def symCreate_def symInit_def Let_def)
  have m: "map (entry_of S') xs = map (entry_of S) xs" "entry_of S' p = (nm, ty, v, g)"
    using entry_of_syms [OF S'(1)] entry_of_upd [OF p(2)] p' by auto
  have d: "abs_add (stSameOk (symtabs S t)) (nm, ty, v, g) (map (entry_of S) xs) =
      (if ?dup then (ERROR, map (entry_of S) xs) else (OK, (nm, ty, v, g) # map (entry_of S) xs))"
    by (auto simp: abs_add_def entry_of_def)
  show ?thesis
  proof (cases ?dup)
    case True
    have f: "fst (abs_add (stSameOk (symtabs S t)) (nm, ty, v, g) (map (entry_of S) xs)) = ERROR"
      "snd (abs_add (stSameOk (symtabs S t)) (nm, ty, v, g) (map (entry_of S) xs)) = map (entry_of S) xs"
      using d True by simp_all
    have "symTableAdd tid t p ?T = Some (ERROR, S')" "sym_rep S' t k xs" using S'(4) True by simp_all
    then show ?thesis unfolding f using e m S'(2,3)
      by (intro exI [of _ S'] exI [of _ xs]) (auto simp: symDestroy_def)
  next
    case False
    have f: "fst (abs_add (stSameOk (symtabs S t)) (nm, ty, v, g) (map (entry_of S) xs)) = OK"
      "snd (abs_add (stSameOk (symtabs S t)) (nm, ty, v, g) (map (entry_of S) xs)) = (nm, ty, v, g) # map (entry_of S) xs"
      using d False by simp_all
    have "symTableAdd tid t p ?T = Some (OK, S')" "sym_rep S' t k (p # xs)" using S'(4) False by simp_all
    then show ?thesis unfolding f using e m S'(2,3)
      by (intro exI [of _ S'] exI [of _ "p # xs"]) auto
  qed
qed

text \<open>A sequence of additions, each with the memory its symbol gets, on both sides.\<close>

primrec sym_adds :: "ptr \<Rightarrow> ptr \<Rightarrow> (entry \<times> ptr) list \<Rightarrow> symmem \<Rightarrow> (STATUS list \<times> symmem) option" where
  "sym_adds tid t [] S = Some ([], S)"
| "sym_adds tid t (a # as) S = do {
     (st, S) \<leftarrow> (case a of ((nm, ty, v, g), p) \<Rightarrow> symAdd OK p tid t (Some nm) v ty g S);
     (sts, S) \<leftarrow> sym_adds tid t as S;
     Some (st # sts, S)
   }"

primrec abs_adds :: "bool \<Rightarrow> entry list \<Rightarrow> entry list \<Rightarrow> STATUS list \<times> entry list" where
  "abs_adds sameOk [] es = ([], es)"
| "abs_adds sameOk (a # as) es =
     (let (st, es) = abs_add sameOk a es; (sts, es) = abs_adds sameOk as es in (st # sts, es))"

lemma sym_adds_rep:
  assumes "sym_rep S t k xs" and "sym_mine tid t S" and "distinct (map snd as)"
    and "set (map snd as) \<inter> insert NULL (set xs) = {}"
  shows "\<exists>S' xs'. sym_adds tid t as S =
      Some (fst (abs_adds (stSameOk (symtabs S t)) (map fst as) (map (entry_of S) xs)), S') \<and>
    sym_rep S' t k xs' \<and> sym_mine tid t S' \<and>
    map (entry_of S') xs' = snd (abs_adds (stSameOk (symtabs S t)) (map fst as) (map (entry_of S) xs)) \<and>
    set xs' \<subseteq> set (map snd as) \<union> set xs"
  using assms
proof (induction as arbitrary: S xs)
  case Nil
  then show ?case by auto
next
  case (Cons a as)
  obtain nm ty v g p where a: "a = ((nm, ty, v, g), p)" by (cases a) auto
  have p: "p \<noteq> NULL" "p \<notin> set xs" using Cons.prems(4) a by auto
  let ?A = "abs_add (stSameOk (symtabs S t)) (nm, ty, v, g) (map (entry_of S) xs)"
  obtain T ys where T: "symAdd OK p tid t (Some nm) v ty g S = Some (fst ?A, T)" "sym_rep T t k ys"
    "sym_mine tid t T" "stSameOk (symtabs T t) = stSameOk (symtabs S t)" "map (entry_of T) ys = snd ?A"
    "set ys \<subseteq> insert p (set xs)"
    using symAdd_rep [OF Cons.prems(1,2) p] by blast
  have d: "distinct (map snd as)" "set (map snd as) \<inter> insert NULL (set ys) = {}"
  proof -
    show "distinct (map snd as)" using Cons.prems(3) by simp
    have "p \<notin> set (map snd as)" "set (map snd as) \<inter> insert NULL (set xs) = {}"
      using Cons.prems(3,4) a by auto
    with T(6) show "set (map snd as) \<inter> insert NULL (set ys) = {}" by blast
  qed
  obtain S' xs' where S': "sym_adds tid t as T =
      Some (fst (abs_adds (stSameOk (symtabs S t)) (map fst as) (snd ?A)), S')"
    "sym_rep S' t k xs'" "sym_mine tid t S'"
    "map (entry_of S') xs' = snd (abs_adds (stSameOk (symtabs S t)) (map fst as) (snd ?A))"
    "set xs' \<subseteq> set (map snd as) \<union> set ys"
    using Cons.IH [OF T(2,3) d] T(4,5) by auto
  show ?case
  proof (intro exI conjI)
    show "sym_adds tid t (a # as) S =
        Some (fst (abs_adds (stSameOk (symtabs S t)) (map fst (a # as)) (map (entry_of S) xs)), S')"
      using T(1) S'(1) by (simp add: a split_beta Let_def)
    show "map (entry_of S') xs' = snd (abs_adds (stSameOk (symtabs S t)) (map fst (a # as)) (map (entry_of S) xs))"
      using S'(4) by (simp add: a split_beta Let_def)
    show "set xs' \<subseteq> set (map snd (a # as)) \<union> set xs" using S'(5) T(6) a by auto
  qed (use S' in auto)
qed

subsection \<open>Finding\<close>

lemma symFindByName_rep:
  assumes rep: "sym_tab S t k xs" and mine: "sym_mine tid t S" and key: "pKey \<notin> set xs"
  shows "\<exists>S'. symFindByName pKey tid t (Some nm) S =
      Some (case find (\<lambda>e. fst e = nm) (map (entry_of S) xs) of
          None \<Rightarrow> (ERROR, None, S') | Some e \<Rightarrow> (OK, Some (fst (snd (snd e)), fst (snd e)), S')) \<and>
    sym_tab S' t k xs \<and> sym_mine tid t S' \<and> map (entry_of S') xs = map (entry_of S) xs"
proof -
  let ?T = "upd_symbol pKey (\<lambda>y. y\<lparr>syName := nm, syType := 0\<rparr>) S"
  have T: "sym_tab ?T t k xs" "sym_mine tid t ?T" "syName (syms ?T pKey) = nm"
    using rep key mine by (simp_all add: sym_mine_def) (simp_all add: upd_symbol_def)
  obtain U where U: "sym_take tid t ?T = Some U" "stOwner (symtabs U t) = tid"
    using sym_mine_take [OF T(2)] by blast
  note u = sym_rep_take [OF U(1), of k xs]
  let ?S = "sym_give tid t U"
  have x: "syms U x = syms S x" if "x \<in> set xs" for x
    using that key u by (auto simp: upd_symbol_def)
  have c: "symHashKeyCmpName (syms U) pKey x 0 \<longleftrightarrow> syName (syms U x) = nm" for x
    using T(3) u by (auto simp: symHashKeyCmpName_def Let_def)
  have f: "find (\<lambda>e. fst e = nm) (map (entry_of S) xs) =
      map_option (entry_of U) (find (\<lambda>x. symHashKeyCmpName (syms U) pKey x 0) xs)"
    unfolding c using x by (induction xs) (auto simp: entry_of_def)
  have nz: "NULL \<notin> set xs" using sym_tab_nodes [OF rep] by simp
  have repU: "sym_tab U t k xs" using u T(1) by simp
  have e: "symFindSymbol pKey tid t (Some nm) 0 0 0 S =
      (let p = (case find (\<lambda>x. symHashKeyCmpName (syms U) pKey x 0) xs of None \<Rightarrow> NULL | Some x \<Rightarrow> x)
       in Some (if p = NULL then (ERROR, None, ?S) else (OK, Some p, ?S)))"
    using rep U by (simp add: symFindSymbol_def sym_find_rep [OF repU] Let_def)
  have "symFindByName pKey tid t (Some nm) S =
      Some (case find (\<lambda>e. fst e = nm) (map (entry_of S) xs) of
          None \<Rightarrow> (ERROR, None, ?S) | Some e \<Rightarrow> (OK, Some (fst (snd (snd e)), fst (snd e)), ?S))"
    using find_ends [of "\<lambda>x. symHashKeyCmpName (syms U) pKey x 0" xs]
  proof
    assume "find (\<lambda>x. symHashKeyCmpName (syms U) pKey x 0) xs = None \<and>
        (\<forall>x \<in> set xs. \<not> symHashKeyCmpName (syms U) pKey x 0)"
    then show ?thesis unfolding f by (simp add: symFindByName_def symFindByNameAndType_def e)
  next
    assume "\<exists>x \<in> set xs. find (\<lambda>x. symHashKeyCmpName (syms U) pKey x 0) xs = Some x \<and>
        symHashKeyCmpName (syms U) pKey x 0"
    then obtain y where y: "y \<in> set xs" "find (\<lambda>x. symHashKeyCmpName (syms U) pKey x 0) xs = Some y" by blast
    then have "y \<noteq> NULL" using nz by metis
    with y show ?thesis unfolding f
      by (simp add: symFindByName_def symFindByNameAndType_def e entry_of_def)
  qed
  moreover have "map (entry_of ?S) xs = map (entry_of S) xs"
    using x by (simp add: entry_of_def)
  ultimately show ?thesis using repU U(2) by (intro exI [of _ ?S]) simp
qed

subsection \<open>A new table, and removing\<close>

lemma symTableCreate_rep:
  assumes "symTableCreate OK pTab pHash pList k sameOk part S0 = (t, S)" and "t \<noteq> NULL" and "pList \<noteq> NULL" and "k < 31"
  shows "sym_rep S t k [] \<and> stOwner (symtabs S t) = NULL \<and> stSameOk (symtabs S t) = sameOk"
proof -
  have nz: "pTab \<noteq> NULL" "pHash \<noteq> NULL"
    using assms(1,2) by (auto simp: symTableCreate_def hashTableCreate_def split: if_splits)
  obtain st h where h: "hashTableInit pHash pList k 1 2 SYM_HASH_FUNC_SEED (sm_hash S0) = (st, h)"
    by (cases "hashTableInit pHash pList k 1 2 SYM_HASH_FUNC_SEED (sm_hash S0)") auto
  note i = hash_tab_init [OF h nz(2) assms(3,4)]
  then have "hash_tab F 2 1 SYM_HASH_FUNC_SEED h pHash k []" for F by simp
  moreover from this have "htIsTable (htabs h pHash)" by (simp add: hash_tab_def hash_rep_def)
  ultimately show ?thesis
    using assms(1) nz i h
    by (auto simp: symTableCreate_def hashTableCreate_def symTableInit_def HASH_VERIFY_ne_OK_def upd_symtab_def
        sym_rep_def sym_tab_def Let_def)
qed

lemma find_exact: "y \<in> set xs \<Longrightarrow> find (\<lambda>x. symHashKeyCmpName sy y x 0x1ff) xs = Some y"
  by (induction xs) (auto simp: symHashKeyCmpName_def)

text \<open>The latest symbol is the first of its bucket: removing it leaves the links as they are.\<close>

lemma symTableRemove_latest:
  assumes tab: "sym_tab S t k (y # ys)" and mine: "sym_mine tid t S"
  shows "\<exists>S'. symTableRemove tid t y S = Some (OK, S') \<and> sym_tab S' t k (y # ys) \<and> syms S' = syms S \<and>
    sym_mine tid t S' \<and> stNum (symtabs S' t) = stNum (symtabs S t) - 1"
proof -
  obtain T where T: "sym_take tid t S = Some T" "stOwner (symtabs T t) = tid"
    using sym_mine_take [OF mine] by blast
  note u = sym_rep_take [OF T(1), of k "y # ys"]
  have n: "stNum (symtabs T t) = stNum (symtabs S t)"
    using T(1) by (auto simp: sym_take_def upd_symtab_def split: if_splits)
  have tabT: "sym_tab T t k (y # ys)" using u tab by simp
  let ?F = "sym_funs (syms T)" and ?h = "stHash (symtabs T t)"
  have r: "hash_rep ?F (sm_hash T) ?h (y # ys)" using tabT by (simp add: sym_tab_def hash_tab_def)
  have "hashTableRemove ?F ?h y (sm_hash T) = Some (OK, sm_hash T)"
    by (rule hashTableRemove_first [OF r]) simp
  moreover have "y \<noteq> NULL" using sym_tab_nodes [OF tabT] by auto
  ultimately have e: "symTableRemove tid t y S =
      Some (OK, sym_give tid t (upd_symtab t (\<lambda>r. r\<lparr>stNum := stNum r - 1\<rparr>) T))"
    using tab T sym_find_rep [OF tabT, of y "0x1ff"] find_exact [of y "y # ys"]
    by (simp add: symTableRemove_def)
  let ?U = "upd_symtab t (\<lambda>r. r\<lparr>stNum := stNum r - 1\<rparr>) T"
  have U: "sym_tab ?U t k (y # ys)" "syms ?U = syms T" "stOwner (symtabs ?U t) = tid"
    "stNum (symtabs ?U t) = stNum (symtabs T t) - 1"
    using tabT T(2) by (simp_all add: upd_symtab_def sym_tab_def)
  have "stNum (symtabs (sym_give tid t ?U) t) = stNum (symtabs ?U t)"
    by (auto simp: sym_give_def upd_symtab_def)
  with e U u n show ?thesis by (intro exI [of _ "sym_give tid t ?U"]) simp
qed

lemma symTableCreate_fst:
  "pTab \<noteq> NULL \<Longrightarrow> pHash \<noteq> NULL \<Longrightarrow> fst (symTableCreate OK pTab pHash pList k sameOk part S0) = pTab"
  by (simp add: symTableCreate_def hashTableCreate_def hashTableInit_def symTableInit_def HASH_VERIFY_ne_OK_def
      upd_htab_def Let_def)

text \<open>A store with nothing in it, for concrete runs, and a new table of 8 buckets at 100 in it.\<close>

definition sym_blank :: symmem where
  "sym_blank = \<lparr>sm_hash = \<lparr>snext = (\<lambda>n. 0), slists = (\<lambda>l. \<lparr>sl_head = 0, sl_tail = 0\<rparr>),
      htabs = (\<lambda>h. \<lparr>htIsTable = False, htNum = 0, htCmp = 0, htKey = 0, htArg = 0, htTable = 0\<rparr>), herrno = 0\<rparr>,
     syms = (\<lambda>p. \<lparr>syName = [], syValue = 0, syGroup = 0, syType = 0\<rparr>),
     symtabs = (\<lambda>t. \<lparr>stIsTab = False, stHash = 0, stOwner = 0, stRecurse = 0, stPart = 0, stSameOk = False, stNum = 0\<rparr>)\<rparr>"

definition sym_new :: "bool \<Rightarrow> symmem" where
  "sym_new sameOk = snd (symTableCreate OK 100 200 208 3 sameOk 0 sym_blank)"

lemma sym_new_create: "symTableCreate OK 100 200 208 3 sameOk 0 sym_blank = (100, sym_new sameOk)"
  using symTableCreate_fst [of 100 200 208 3 sameOk 0 sym_blank] by (simp add: sym_new_def prod_eq_iff)

lemmas sym_new_rep = symTableCreate_rep [OF sym_new_create, simplified]

lemma sym_new_add:
  "\<exists>S'. symAdd OK 1000 7 100 (Some [97]) 10 4 0 (sym_new sameOk) = Some (OK, S') \<and> sym_rep S' 100 3 [1000] \<and>
     sym_mine 7 100 S' \<and> entry_of S' 1000 = ([97], 4, 10, 0)"
proof -
  have "sym_rep (sym_new sameOk) 100 3 []" "sym_mine 7 100 (sym_new sameOk)"
    using sym_new_rep [of sameOk] by (simp_all add: sym_mine_def)
  from symAdd_rep [OF this, where p = 1000 and nm = "[97]" and v = 10 and ty = 4 and g = 0 and freed = OK] obtain S' xs where
    S': "symAdd OK 1000 7 100 (Some [97]) 10 4 0 (sym_new sameOk) = Some (OK, S')" "sym_rep S' 100 3 xs"
    "sym_mine 7 100 S'" "map (entry_of S') xs = [([97], 4, 10, 0)]" "set xs \<subseteq> {1000}"
    by (auto simp: abs_add_def)
  have "xs = [1000]" using S'(4,5) by auto
  with S' show ?thesis by auto
qed

subsection \<open>Properties\<close>



text \<open>C31. After a successful \<open>symAdd\<close> to a table that refuses duplicates the mutex is never given back: the task
  that added owns it, and every other task that uses the table waits, to find by name or by value, to add, to visit
  and to destroy.\<close>

theorem sym_add_keeps_mutex:
  assumes "sym_rep S t k xs" and "stOwner (symtabs S t) = NULL" and "\<not> stSameOk (symtabs S t)"
    and "p \<noteq> NULL" and "p \<notin> set xs" and "tid \<noteq> NULL" and "tid' \<noteq> tid"
    and "symAdd freed p tid t (Some nm) v ty g S = Some (OK, S')"
  shows "stOwner (symtabs S' t) = tid \<and>
    symFindByName pKey tid' t nm' S' = None \<and>
    (p' \<noteq> NULL \<longrightarrow> symAdd freed' p' tid' t (Some nm'') v' ty' g' S' = None) \<and>
    symEach f tid' t S' = None \<and> symTableDestroy freed' tid' t dealloc S' = None"
proof -
  let ?T = "upd_symbol p (\<lambda>y. y\<lparr>syName := nm, syValue := v, syType := ty, syGroup := g\<rparr>) S"
  have T: "sym_rep ?T t k xs" "sym_mine tid t ?T" "stSameOk (symtabs ?T t) = stSameOk (symtabs S t)"
    using assms by (simp_all add: sym_mine_def) (simp_all add: upd_symbol_def)
  have "symAdd freed p tid t (Some nm) v ty g S = do {
      (st, S) \<leftarrow> symTableAdd tid t p ?T;
      Some (if st \<noteq> OK then (ERROR, snd (symDestroy freed t p S)) else (OK, S)) }"
    using assms(1,4) by (simp add: symAdd_def symCreate_def symInit_def Let_def)
  with assms(3,8) symTableAdd_rep [OF T(1,2) assms(4,5)] have o: "stOwner (symtabs S' t) = tid" and
    r: "sym_rep S' t k (p # xs)" unfolding T(3) by (auto split: if_splits)
  have take: "sym_take tid' t R = None" if "stOwner (symtabs R t) = tid" for R
    using that assms(6,7) by (simp add: sym_take_def)
  have u: "symtabs (upd_symbol q ff R) = symtabs R" for q ff R by (simp add: upd_symbol_def)
  have v: "SYM_VERIFY_ne_OK t (upd_symbol q ff S') = (False, upd_symbol q ff S')" for q ff
    using r by (simp add: SYM_VERIFY_ne_OK_def u sym_rep_def sym_tab_def)
  show ?thesis
    using o r by (simp add: symFindByName_def symFindByNameAndType_def symFindSymbol_def symAdd_def symCreate_def
        symInit_def symTableAdd_def symEach_def symTableDestroy_def take u v Let_def split: option.split)
qed

theorem sym_add_keeps_mutex_witness:
  "\<exists>S'. symAdd OK 1000 7 100 (Some [97]) 10 4 0 (sym_new False) = Some (OK, S') \<and>
    stOwner (symtabs S' 100) = 7 \<and> symFindByName 5000 8 100 (Some [97]) S' = None"
proof -
  obtain S' where S': "symAdd OK 1000 7 100 (Some [97]) 10 4 0 (sym_new False) = Some (OK, S')"
    using sym_new_add [of False] by blast
  have "sym_rep (sym_new False) 100 3 []" "stOwner (symtabs (sym_new False) 100) = NULL"
    "\<not> stSameOk (symtabs (sym_new False) 100)" using sym_new_rep [of False] by simp_all
  from sym_add_keeps_mutex [OF this _ _ _ _ S', where tid' = 8 and pKey = 5000 and nm' = "Some [97]"] S' show ?thesis by simp
qed

text \<open>Removing the symbol added last: \<open>symRemove\<close> returns \<open>OK\<close>, has given the symbol's memory to
  \<open>memPartFree\<close> and counts one symbol less, but the symbol is still in the table and \<open>symFindByName\<close> still
  finds it: the table holds freed memory.\<close>

theorem sym_remove_dangling:
  assumes "sym_rep S t k (y # ys)" and "sym_mine tid t S" and "pKey \<notin> set (y # ys)"
  shows "\<exists>S' S''. symRemove OK pKey tid t (Some (syName (syms S y))) (syType (syms S y)) S = Some (OK, S') \<and>
    stNum (symtabs S' t) = int (length ys) \<and>
    symFindByName pKey tid t (Some (syName (syms S y))) S' = Some (OK, Some (syValue (syms S y), syType (syms S y)), S'')"
proof -
  let ?nm = "syName (syms S y)" and ?ty = "syType (syms S y)"
  let ?T = "upd_symbol pKey (\<lambda>y. y\<lparr>syName := ?nm, syType := ?ty\<rparr>) S"
  have T: "sym_rep ?T t k (y # ys)" "sym_mine tid t ?T" "syName (syms ?T pKey) = ?nm" "syType (syms ?T pKey) = ?ty"
    using assms by (simp_all add: sym_mine_def) (simp_all add: upd_symbol_def)
  obtain U where U: "sym_take tid t ?T = Some U" "stOwner (symtabs U t) = tid"
    using sym_mine_take [OF T(2)] by blast
  note u = sym_rep_take [OF U(1), of k "y # ys"]
  let ?S = "sym_give tid t U"
  have repU: "sym_rep U t k (y # ys)" using u T(1) by simp
  have y: "syms U y = syms S y" using u assms(3) by (auto simp: upd_symbol_def)
  have "symHashKeyCmpName (syms U) pKey y 255" using T(3,4) u y by (simp add: symHashKeyCmpName_def Let_def)
  moreover have "y \<noteq> NULL" using sym_tab_nodes [OF sym_rep_tab [OF assms(1)]] by auto
  ultimately have e: "symFindSymbol pKey tid t (Some ?nm) 0 ?ty 0xff S = Some (OK, Some y, ?S)"
    using assms(1) U by (simp add: symFindSymbol_def sym_find_rep [OF sym_rep_tab [OF repU]] Let_def)
  have G: "sym_rep ?S t k (y # ys)" "sym_mine tid t ?S" "syms ?S y = syms S y"
    using repU U(2) y by simp_all
  obtain V where V: "symTableRemove tid t y ?S = Some (OK, V)" "sym_tab V t k (y # ys)" "syms V = syms ?S"
    "sym_mine tid t V" "stNum (symtabs V t) = stNum (symtabs ?S t) - 1"
    using symTableRemove_latest [OF sym_rep_tab [OF G(1)] G(2)] by blast
  have "symRemove OK pKey tid t (Some ?nm) ?ty S = Some (OK, V)"
    using e V by (simp add: symRemove_def symDestroy_def)
  moreover have "stNum (symtabs V t) = int (length ys)" using V(5) G(1) by (simp add: sym_rep_def)
  moreover have "\<exists>S''. symFindByName pKey tid t (Some ?nm) V = Some (OK, Some (syValue (syms S y), ?ty), S'')"
    using symFindByName_rep [OF V(2,4) assms(3), of ?nm] V(3) G(3) by (auto simp: entry_of_def)
  ultimately show ?thesis by blast
qed

theorem sym_remove_dangling_witness:
  "\<exists>S S' S''. symAdd OK 1000 7 100 (Some [97]) 10 4 0 (sym_new True) = Some (OK, S) \<and>
    symRemove OK 5000 7 100 (Some [97]) 4 S = Some (OK, S') \<and> stNum (symtabs S' 100) = 0 \<and>
    symFindByName 5000 7 100 (Some [97]) S' = Some (OK, Some (10, 4), S'')"
proof -
  obtain S where S: "symAdd OK 1000 7 100 (Some [97]) 10 4 0 (sym_new True) = Some (OK, S)"
    "sym_rep S 100 3 [1000]" "sym_mine 7 100 S" "entry_of S 1000 = ([97], 4, 10, 0)"
    using sym_new_add [of True] by blast
  from sym_remove_dangling [OF S(2,3), where pKey = 5000] S(1,4) show ?thesis by (auto simp: entry_of_def)
qed

end
