(* ===== verification/IosLib.thy ===== *)
theory IosLib
  imports DllLib "HOL-Library.Monad_Syntax"
begin

text \<open>
  The I/O system: \<open>src/os/iosLib.c\<close>. Drivers are entries of a table of method addresses, devices are nodes of a
  doubly linked list with a name and a driver number, and open files are entries of a table that names the device
  and a value of the driver. The semaphore of the library is a flag: taking it twice has no result, as the task
  would wait for itself. The methods of the drivers, the hooks and the standard descriptors of a task
  (\<open>ioTaskStdGet\<close>) are the parameter \<open>ios_env\<close>, what \<open>malloc\<close> and \<open>semBInit\<close> return are arguments. A name an entry
  points to is either that of a device or an own copy, and the calls of \<open>free\<close> are recorded.
\<close>

record DEV_HEADER =
  dhName :: string
  dhDrv :: int

datatype name_ptr = DevName ptr | OwnName string

record FD_ENTRY =
  fdDev :: ptr
  fdValue :: u32
  fdName :: "name_ptr option"
  fdUsed :: bool
  fdObsolete :: bool

record DRV_ENTRY =
  dev_create :: nat
  dev_delete :: nat
  dev_open :: nat
  dev_close :: nat
  dev_read :: nat
  dev_write :: nat
  dev_ioctl :: nat
  dev_used :: bool

record ios = dmem +
  iosDevs :: "ptr \<Rightarrow> DEV_HEADER"
  iosFdTable :: "FD_ENTRY list"
  iosDrvTable :: "DRV_ENTRY list"
  iosMaxFd :: int
  iosMaxDrv :: int
  iosDefaultPath :: string
  iosSemFull :: bool
  iosFreed :: "name_ptr list"
  ioserrno :: int
  iosLibInstalled :: bool

datatype drv_call =
    CreateCall ptr string int "string option"
  | DeleteCall ptr string int
  | OpenCall ptr string int int
  | CloseCall u32
  | ReadCall u32 ptr int
  | WriteCall u32 ptr int
  | IoctlCall u32 int u32

record ios_env =
  ie_std :: "int \<Rightarrow> ios \<Rightarrow> int"
  ie_driver :: "nat \<Rightarrow> drv_call \<Rightarrow> ios \<Rightarrow> int \<times> ios"
  ie_newHook :: "(int \<Rightarrow> ios \<Rightarrow> ios) option"
  ie_freeHook :: "(int \<Rightarrow> ios \<Rightarrow> ios) option"

definition S_iosLib_DRIVER_GLUT :: int where "S_iosLib_DRIVER_GLUT = 4 * 65536 + 1"
definition S_iosLib_DUPLICATE_DEVICE_NAME :: int where "S_iosLib_DUPLICATE_DEVICE_NAME = 4 * 65536 + 2"
definition S_iosLib_DEVICE_NOT_FOUND :: int where "S_iosLib_DEVICE_NOT_FOUND = 4 * 65536 + 3"
definition S_iosLib_INVALID_FILE_DESCRIPTOR :: int where "S_iosLib_INVALID_FILE_DESCRIPTOR = 4 * 65536 + 4"
definition S_iosLib_TO_MANY_OPEN_FILES :: int where "S_iosLib_TO_MANY_OPEN_FILES = 4 * 65536 + 5"
definition S_iosLib_NULL_DRIVER_METHOD :: int where "S_iosLib_NULL_DRIVER_METHOD = 4 * 65536 + 6"
definition FIOGETNAME :: int where "FIOGETNAME = 18"

text \<open>The address of the list head \<open>iosDevList\<close>.\<close>

abbreviation (input) iosDevList :: ptr where "iosDevList \<equiv> 1"

definition iosErrnoSet :: "int \<Rightarrow> ios \<Rightarrow> ios" where
  "iosErrnoSet v s = s\<lparr>ioserrno := v\<rparr>"

definition ios_free :: "name_ptr \<Rightarrow> ios \<Rightarrow> ios" where
  "ios_free p s = s\<lparr>iosFreed := iosFreed s @ [p]\<rparr>"

definition upd_fd :: "nat \<Rightarrow> (FD_ENTRY \<Rightarrow> FD_ENTRY) \<Rightarrow> ios \<Rightarrow> ios" where
  "upd_fd i f s = s\<lparr>iosFdTable := (iosFdTable s)[i := f (iosFdTable s ! i)]\<rparr>"

definition upd_drv :: "nat \<Rightarrow> (DRV_ENTRY \<Rightarrow> DRV_ENTRY) \<Rightarrow> ios \<Rightarrow> ios" where
  "upd_drv i f s = s\<lparr>iosDrvTable := (iosDrvTable s)[i := f (iosDrvTable s ! i)]\<rparr>"

definition upd_dev :: "ptr \<Rightarrow> (DEV_HEADER \<Rightarrow> DEV_HEADER) \<Rightarrow> ios \<Rightarrow> ios" where
  "upd_dev d f s = s\<lparr>iosDevs := (iosDevs s)(d := f (iosDevs s d))\<rparr>"

definition iosLock :: "ios \<Rightarrow> ios option" where
  "iosLock s = (if iosSemFull s then Some (s\<lparr>iosSemFull := False\<rparr>) else None)"

definition iosUnlock :: "ios \<Rightarrow> ios" where
  "iosUnlock s = s\<lparr>iosSemFull := True\<rparr>"

definition STD_FIX :: "int \<Rightarrow> int" where "STD_FIX fd = fd + 3"
definition STD_UNFIX :: "int \<Rightarrow> int" where "STD_UNFIX fd = fd - 3"

definition STD_MAP :: "ios_env \<Rightarrow> int \<Rightarrow> ios \<Rightarrow> int" where
  "STD_MAP E fd s = STD_UNFIX (if 0 \<le> fd \<and> fd < 3 then ie_std E fd s else fd)"

text \<open>The index of the entry, if there is one.\<close>

definition FD_CHECK :: "int \<Rightarrow> ios \<Rightarrow> nat option" where
  "FD_CHECK fd s =
     (if 0 \<le> fd \<and> fd < iosMaxFd s \<and> fdUsed (iosFdTable s ! nat fd) \<and> \<not> fdObsolete (iosFdTable s ! nat fd)
      then Some (nat fd) else None)"

text \<open>Reading an entry outside the driver table, and calling a null pointer, have no result.\<close>

definition drv_entry :: "int \<Rightarrow> ios \<Rightarrow> DRV_ENTRY option" where
  "drv_entry n s = (if 0 \<le> n \<and> n < int (length (iosDrvTable s)) then Some (iosDrvTable s ! nat n) else None)"

definition call_driver :: "ios_env \<Rightarrow> nat \<Rightarrow> drv_call \<Rightarrow> ios \<Rightarrow> (int \<times> ios) option" where
  "call_driver E func c s = (if func = 0 then None else Some (ie_driver E func c s))"

subsection \<open>Devices\<close>

text \<open>The walk over the devices: the longest name that the name starts with, the first of these.\<close>

partial_function (option) match_loop :: "string \<Rightarrow> ptr \<Rightarrow> ptr \<Rightarrow> int \<Rightarrow> ios \<Rightarrow> ptr option" where
  "match_loop name pDevHeader pBest maxLen s =
     (if pDevHeader \<noteq> NULL
      then
        let dn = dhName (iosDevs s pDevHeader);
            better = (take (length dn) name = dn \<and> int (length dn) > maxLen)
        in match_loop name (DLL_NEXT s pDevHeader) (if better then pDevHeader else pBest)
             (if better then int (length dn) else maxLen) s
      else Some pBest)"

definition iosDevMatch :: "string \<Rightarrow> ios \<Rightarrow> (ptr \<times> ios) option" where
  "iosDevMatch name s = do {
     s \<leftarrow> iosLock s;
     d \<leftarrow> match_loop name (DLL_HEAD s iosDevList) NULL 0 s;
     Some (d, iosUnlock s)
   }"

text \<open>\<open>alloc\<close> says whether \<open>malloc\<close> returned memory.\<close>

definition iosDevAdd :: "bool \<Rightarrow> ptr \<Rightarrow> string \<Rightarrow> int \<Rightarrow> ios \<Rightarrow> (STATUS \<times> ios) option" where
  "iosDevAdd alloc pDevHeader name drvNumber s = do {
     (pMatch, s) \<leftarrow> iosDevMatch name s;
     if pMatch \<noteq> NULL \<and> dhName (iosDevs s pMatch) = name
     then Some (ERROR, iosErrnoSet S_iosLib_DUPLICATE_DEVICE_NAME s)
     else if \<not> alloc then Some (ERROR, s)
     else do {
       let s = upd_dev pDevHeader (\<lambda>d. d\<lparr>dhDrv := drvNumber, dhName := name\<rparr>) s;
       s \<leftarrow> iosLock s;
       Some (OK, iosUnlock (snd (dllAdd iosDevList pDevHeader s)))
     }
   }"

definition iosDevDelete :: "ptr \<Rightarrow> ios \<Rightarrow> ios option" where
  "iosDevDelete pDevHeader s = do {
     s \<leftarrow> iosLock s;
     let s = ios_free (DevName pDevHeader) s;
     Some (iosUnlock (snd (dllRemove iosDevList pDevHeader s)))
   }"

definition iosDefaultPathSet :: "string \<Rightarrow> ios \<Rightarrow> ios" where
  "iosDefaultPathSet name s = s\<lparr>iosDefaultPath := name\<rparr>"

text \<open>The second result is the rest of the name that is stored through \<open>pNameTail\<close>.\<close>

definition iosDevFind :: "string \<Rightarrow> ios \<Rightarrow> (ptr \<times> string \<times> ios) option" where
  "iosDevFind name s = do {
     (pDevHeader, s) \<leftarrow> iosDevMatch name s;
     if pDevHeader \<noteq> NULL
     then Some (pDevHeader, drop (length (dhName (iosDevs s pDevHeader))) name, s)
     else do {
       (pDevHeader, s) \<leftarrow> iosDevMatch (iosDefaultPath s) s;
       Some (pDevHeader, name, if pDevHeader = NULL then iosErrnoSet S_iosLib_DEVICE_NOT_FOUND s else s)
     }
   }"

definition iosNextDevGet :: "ptr \<Rightarrow> ios \<Rightarrow> ptr" where
  "iosNextDevGet pDevHeader s = (if pDevHeader = NULL then DLL_HEAD s iosDevList else DLL_NEXT s pDevHeader)"

subsection \<open>File descriptors\<close>

definition iosFdValue :: "ios_env \<Rightarrow> int \<Rightarrow> ios \<Rightarrow> u32 \<times> ios" where
  "iosFdValue E fd s =
     (let f = STD_MAP E fd s
      in if 0 \<le> f \<and> f < iosMaxFd s \<and> fdUsed (iosFdTable s ! nat f) then (fdValue (iosFdTable s ! nat f), s)
         else (0, iosErrnoSet S_iosLib_INVALID_FILE_DESCRIPTOR s))"

definition iosFdDevFind :: "ios_env \<Rightarrow> int \<Rightarrow> ios \<Rightarrow> ptr \<times> ios" where
  "iosFdDevFind E fd s =
     (let f = STD_MAP E fd s
      in if 0 \<le> f \<and> f < iosMaxFd s \<and> fdUsed (iosFdTable s ! nat f) then (fdDev (iosFdTable s ! nat f), s)
         else (NULL, iosErrnoSet S_iosLib_INVALID_FILE_DESCRIPTOR s))"

text \<open>The name of an entry is freed unless it is the name of the entry's own device, which must exist then.\<close>

definition drop_name :: "FD_ENTRY \<Rightarrow> ptr \<Rightarrow> ios \<Rightarrow> ios option" where
  "drop_name e pDevHeader s =
     (case fdName e of
        None \<Rightarrow> Some s
      | Some p \<Rightarrow> if pDevHeader = NULL then None
                  else if p \<noteq> DevName pDevHeader then Some (ios_free p s) else Some s)"

definition iosFdFree :: "ios_env \<Rightarrow> int \<Rightarrow> ios \<Rightarrow> ios option" where
  "iosFdFree E fd s =
     (case FD_CHECK (STD_MAP E fd s) s of
        None \<Rightarrow> Some s
      | Some i \<Rightarrow> do {
          s \<leftarrow> drop_name (iosFdTable s ! i) (fdDev (iosFdTable s ! i)) s;
          let s = upd_fd i (\<lambda>e. e\<lparr>fdName := None\<rparr>) s;
          let s = (case ie_freeHook E of None \<Rightarrow> s | Some hook \<Rightarrow> hook fd s);
          Some (upd_fd i (\<lambda>e. e\<lparr>fdUsed := False\<rparr>) s)
        })"

definition iosFdSet :: "bool \<Rightarrow> int \<Rightarrow> ptr \<Rightarrow> string option \<Rightarrow> u32 \<Rightarrow> ios \<Rightarrow> (STATUS \<times> ios) option" where
  "iosFdSet alloc fd pDevHeader name value s =
     (if fd < 3 \<or> fd \<ge> iosMaxFd s then Some (ERROR, s)
      else
        let i = nat (STD_UNFIX fd)
        in if \<not> fdUsed (iosFdTable s ! i) then Some (ERROR, s)
           else if name \<noteq> None \<and> pDevHeader = NULL then None
           else do {
             s \<leftarrow> drop_name (iosFdTable s ! i) pDevHeader s;
             let (st, s) =
               (case name of
                  None \<Rightarrow> (OK, upd_fd i (\<lambda>e. e\<lparr>fdName := None\<rparr>) s)
                | Some nm \<Rightarrow>
                    if nm = dhName (iosDevs s pDevHeader)
                    then (OK, upd_fd i (\<lambda>e. e\<lparr>fdName := Some (DevName pDevHeader)\<rparr>) s)
                    else if \<not> alloc then (ERROR, upd_fd i (\<lambda>e. e\<lparr>fdName := None\<rparr>) s)
                    else (OK, upd_fd i (\<lambda>e. e\<lparr>fdName := Some (OwnName nm)\<rparr>) s));
             Some (if st = OK then (st, upd_fd i (\<lambda>e. e\<lparr>fdDev := pDevHeader, fdValue := value\<rparr>) s) else (st, s))
           })"

text \<open>The first entry that is not used, or the size of the table.\<close>

definition first_free_fd :: "ios \<Rightarrow> nat" where
  "first_free_fd s =
     (case find (\<lambda>i. \<not> fdUsed (iosFdTable s ! i)) [0..<nat (iosMaxFd s)] of None \<Rightarrow> nat (iosMaxFd s) | Some i \<Rightarrow> i)"

text \<open>The entry found is marked as used before the descriptor is compared with the limit.\<close>

definition iosFdNew ::
  "ios_env \<Rightarrow> bool \<Rightarrow> ptr \<Rightarrow> string option \<Rightarrow> u32 \<Rightarrow> ios \<Rightarrow> (int \<times> ios) option" where
  "iosFdNew E alloc pDevHeader name value s = do {
     s \<leftarrow> iosLock s;
     let i = first_free_fd s;
     let s = (if int i < iosMaxFd s then upd_fd i (\<lambda>e. e\<lparr>fdUsed := True, fdObsolete := False, fdName := None\<rparr>) s else s);
     let s = iosUnlock s;
     let fd = STD_FIX (int i);
     if fd \<ge> iosMaxFd s then Some (ERROR, iosErrnoSet S_iosLib_TO_MANY_OPEN_FILES s)
     else do {
       (st, s) \<leftarrow> iosFdSet alloc fd pDevHeader name value s;
       if st \<noteq> OK then Some (ERROR, s)
       else Some (fd, case ie_newHook E of None \<Rightarrow> s | Some hook \<Rightarrow> hook fd s)
     }
   }"

subsection \<open>Calls of the drivers\<close>

definition iosCreate ::
  "ios_env \<Rightarrow> ptr \<Rightarrow> string \<Rightarrow> int \<Rightarrow> string option \<Rightarrow> ios \<Rightarrow> (int \<times> ios) option" where
  "iosCreate E pDevHeader filename mode symlink s = do {
     e \<leftarrow> drv_entry (dhDrv (iosDevs s pDevHeader)) s;
     call_driver E (dev_create e) (CreateCall pDevHeader filename mode symlink) s
   }"

definition iosDelete :: "ios_env \<Rightarrow> ptr \<Rightarrow> string \<Rightarrow> int \<Rightarrow> ios \<Rightarrow> (int \<times> ios) option" where
  "iosDelete E pDevHeader filename mode s = do {
     e \<leftarrow> drv_entry (dhDrv (iosDevs s pDevHeader)) s;
     call_driver E (dev_delete e) (DeleteCall pDevHeader filename mode) s
   }"

definition iosOpen :: "ios_env \<Rightarrow> ptr \<Rightarrow> string \<Rightarrow> int \<Rightarrow> int \<Rightarrow> ios \<Rightarrow> (int \<times> ios) option" where
  "iosOpen E pDevHeader filename flags mode s = do {
     e \<leftarrow> drv_entry (dhDrv (iosDevs s pDevHeader)) s;
     call_driver E (dev_open e) (OpenCall pDevHeader filename flags mode) s
   }"

text \<open>The device of an entry; following a null pointer has no result.\<close>

definition fd_driver :: "nat \<Rightarrow> ios \<Rightarrow> DRV_ENTRY option" where
  "fd_driver i s =
     (let d = fdDev (iosFdTable s ! i) in if d = NULL then None else drv_entry (dhDrv (iosDevs s d)) s)"

definition iosClose :: "ios_env \<Rightarrow> int \<Rightarrow> ios \<Rightarrow> (int \<times> ios) option" where
  "iosClose E fd s =
     (let fDesc = STD_MAP E fd s
      in case FD_CHECK fDesc s of
           None \<Rightarrow> Some (ERROR, s)
         | Some i \<Rightarrow> do {
             e \<leftarrow> fd_driver i s;
             (st, s) \<leftarrow> call_driver E (dev_close e) (CloseCall (fdValue (iosFdTable s ! i))) s;
             s \<leftarrow> iosFdFree E (STD_FIX fDesc) s;
             Some (st, s)
           })"

definition iosRead :: "ios_env \<Rightarrow> int \<Rightarrow> ptr \<Rightarrow> int \<Rightarrow> ios \<Rightarrow> (int \<times> ios) option" where
  "iosRead E fd buffer maxBytes s =
     (case FD_CHECK (STD_MAP E fd s) s of
        None \<Rightarrow> Some (ERROR, s)
      | Some i \<Rightarrow> do {
          e \<leftarrow> fd_driver i s;
          call_driver E (dev_read e) (ReadCall (fdValue (iosFdTable s ! i)) buffer maxBytes) s
        })"

definition iosWrite :: "ios_env \<Rightarrow> int \<Rightarrow> ptr \<Rightarrow> int \<Rightarrow> ios \<Rightarrow> (int \<times> ios) option" where
  "iosWrite E fd buffer maxBytes s =
     (case FD_CHECK (STD_MAP E fd s) s of
        None \<Rightarrow> Some (ERROR, s)
      | Some i \<Rightarrow> do {
          e \<leftarrow> fd_driver i s;
          call_driver E (dev_write e) (WriteCall (fdValue (iosFdTable s ! i)) buffer maxBytes) s
        })"

text \<open>The name of an entry is copied to the caller, the last result; there may be none to copy.\<close>

definition iosIoctl :: "ios_env \<Rightarrow> int \<Rightarrow> int \<Rightarrow> u32 \<Rightarrow> ios \<Rightarrow> (int \<times> string option \<times> ios) option" where
  "iosIoctl E fd function arg s =
     (case FD_CHECK (STD_MAP E fd s) s of
        None \<Rightarrow> Some (ERROR, None, s)
      | Some i \<Rightarrow>
          if function = FIOGETNAME
          then (case fdName (iosFdTable s ! i) of
                  None \<Rightarrow> None
                | Some (DevName d) \<Rightarrow> Some (OK, Some (dhName (iosDevs s d)), s)
                | Some (OwnName nm) \<Rightarrow> Some (OK, Some nm, s))
          else do {
            e \<leftarrow> fd_driver i s;
            (st, s) \<leftarrow> call_driver E (dev_ioctl e) (IoctlCall (fdValue (iosFdTable s ! i)) function arg) s;
            Some (st, None, s)
          })"

subsection \<open>Drivers\<close>

text \<open>When the table is full the pointer to the entry was never set: unless it happens to be null
  (\<open>junk_null\<close>), the methods are written somewhere, which has no result.\<close>

definition iosDrvInstall ::
  "bool \<Rightarrow> nat \<Rightarrow> nat \<Rightarrow> nat \<Rightarrow> nat \<Rightarrow> nat \<Rightarrow> nat \<Rightarrow> nat \<Rightarrow> ios \<Rightarrow> (int \<times> ios) option" where
  "iosDrvInstall junk_null createM deleteM openM closeM readM writeM ioctlM s =
     (if createM = 0 \<or> deleteM = 0 \<or> openM = 0 \<or> closeM = 0 \<or> readM = 0 \<or> writeM = 0 \<or> ioctlM = 0
      then Some (ERROR, iosErrnoSet S_iosLib_NULL_DRIVER_METHOD s)
      else do {
        s \<leftarrow> iosLock s;
        case find (\<lambda>i. \<not> dev_used (iosDrvTable s ! i)) [1..<nat (iosMaxDrv s)] of
          None \<Rightarrow>
            if junk_null then Some (ERROR, iosUnlock (iosErrnoSet S_iosLib_DRIVER_GLUT s)) else None
        | Some i \<Rightarrow>
            let s = upd_drv i (\<lambda>e. \<lparr>dev_create = createM, dev_delete = deleteM, dev_open = openM, dev_close = closeM,
                  dev_read = readM, dev_write = writeM, dev_ioctl = ioctlM, dev_used = True\<rparr>) s
            in Some (int i, iosUnlock s)
      })"

text \<open>The files of a driver that is removed: the \<open>k\<close> entries from \<open>i\<close> on.\<close>

primrec close_files ::
  "ios_env \<Rightarrow> int \<Rightarrow> bool \<Rightarrow> nat \<Rightarrow> nat \<Rightarrow> nat \<Rightarrow> ios \<Rightarrow> (STATUS \<times> ios) option" where
  "close_files E drvNumber forceClose drvClose 0 i s = Some (OK, s)"
| "close_files E drvNumber forceClose drvClose (Suc k) i s =
     (let e = iosFdTable s ! i
      in if fdUsed e \<and> fdDev e = NULL then None
         else if fdUsed e \<and> dhDrv (iosDevs s (fdDev e)) = drvNumber
         then if \<not> forceClose then Some (ERROR, iosUnlock s)
              else do {
                (st, s) \<leftarrow> call_driver E drvClose (CloseCall (fdValue e)) s;
                s \<leftarrow> iosFdFree E (STD_FIX (int i)) s;
                close_files E drvNumber forceClose drvClose k (Suc i) s
              }
         else close_files E drvNumber forceClose drvClose k (Suc i) s)"

text \<open>Its devices; the successor of a node is read after the node has been unlinked.\<close>

partial_function (option) remove_devs :: "int \<Rightarrow> ptr \<Rightarrow> ios \<Rightarrow> ios option" where
  "remove_devs drvNumber pDevHeader s =
     (if pDevHeader \<noteq> NULL
      then
        let s = (if dhDrv (iosDevs s pDevHeader) = drvNumber
                 then snd (dllRemove iosDevList pDevHeader (ios_free (DevName pDevHeader) s)) else s)
        in remove_devs drvNumber (DLL_NEXT s pDevHeader) s
      else Some s)"

definition iosDrvRemove :: "ios_env \<Rightarrow> int \<Rightarrow> bool \<Rightarrow> ios \<Rightarrow> (STATUS \<times> ios) option" where
  "iosDrvRemove E drvNumber forceClose s = do {
     e \<leftarrow> drv_entry drvNumber s;
     let drvClose = dev_close e;
     s \<leftarrow> iosLock s;
     (st, s) \<leftarrow> close_files E drvNumber forceClose drvClose (nat (iosMaxFd s)) 0 s;
     if st \<noteq> OK then Some (st, s)
     else do {
       s \<leftarrow> remove_devs drvNumber (DLL_HEAD s iosDevList) s;
       let s = upd_drv (nat drvNumber) (\<lambda>e. \<lparr>dev_create = 0, dev_delete = 0, dev_open = 0, dev_close = 0, dev_read = 0,
             dev_write = 0, dev_ioctl = 0, dev_used = False\<rparr>) s;
       Some (OK, iosUnlock s)
     }
   }"

subsection \<open>Initialisation\<close>

abbreviation (input) no_fd :: FD_ENTRY where
  "no_fd \<equiv> \<lparr>fdDev = NULL, fdValue = 0, fdName = None, fdUsed = False, fdObsolete = False\<rparr>"

abbreviation (input) no_drv :: DRV_ENTRY where
  "no_drv \<equiv> \<lparr>dev_create = 0, dev_delete = 0, dev_open = 0, dev_close = 0, dev_read = 0, dev_write = 0,
     dev_ioctl = 0, dev_used = False\<rparr>"

text \<open>\<open>fdMem\<close>, \<open>drvMem\<close> and \<open>nameMem\<close> say whether \<open>malloc\<close> returned memory for the two tables and for the name of the
  null device, \<open>semSt\<close> is the result of \<open>semBInit\<close> and \<open>null_drv\<close> holds the methods of the null device. The entry
  of a driver keeps its flag, which the null device does not set. Freeing an entry that is not used does nothing.\<close>

primrec free_fds :: "ios_env \<Rightarrow> nat \<Rightarrow> ios \<Rightarrow> ios option" where
  "free_fds E 0 s = Some s"
| "free_fds E (Suc i) s = do { s \<leftarrow> free_fds E i s; iosFdFree E (STD_FIX (int i)) s }"

definition iosLibInit ::
  "ios_env \<Rightarrow> bool \<Rightarrow> bool \<Rightarrow> bool \<Rightarrow> STATUS \<Rightarrow> DRV_ENTRY \<Rightarrow> ptr \<Rightarrow> int \<Rightarrow> int \<Rightarrow> string \<Rightarrow> ios \<Rightarrow> (STATUS \<times> ios) option" where
  "iosLibInit E fdMem drvMem nameMem semSt null_drv iosNullDevHeader max_drv max_fd nullDevName s =
     (if iosLibInstalled s then Some (OK, s)
      else
        let s = s\<lparr>iosMaxDrv := max_drv, iosMaxFd := max_fd, iosDefaultPath := []\<rparr>
        in if \<not> fdMem then Some (ERROR, s)
           else do {
             s \<leftarrow> free_fds E (nat max_fd) (s\<lparr>iosFdTable := replicate (nat max_fd) no_fd\<rparr>);
             if \<not> drvMem then Some (ERROR, s)
             else
               let s = s\<lparr>iosDrvTable := replicate (nat max_drv) no_drv\<rparr>
               in if semSt \<noteq> OK then Some (ERROR, s)
                  else
                    let s = s\<lparr>iosSemFull := True\<rparr>
                    in case dllInit iosDevList s of (st, s) \<Rightarrow>
                      if st \<noteq> OK then Some (ERROR, s)
                      else do {
                        let s = upd_drv 0 (\<lambda>e. null_drv\<lparr>dev_used := dev_used e\<rparr>) s;
                        (st, s) \<leftarrow> iosDevAdd nameMem iosNullDevHeader nullDevName 0 s;
                        Some (OK, s\<lparr>iosLibInstalled := True\<rparr>)
                      }
           })"

end
