(* ===== verification/PathLib.thy ===== *)
theory PathLib
  imports IosLib "HOL-Library.Sublist"
begin

text \<open>
  Path names: \<open>src/os/pathLib.c\<close>, on the devices of \<open>iosLib\<close>. A path is the list of its characters before the
  zero; a pointer into it is the rest of the list from there. A buffer is given by its size in bytes, and a
  function that writes past the end of one has no result. The current directory is the state \<open>pathCwd\<close>.
\<close>

definition PATH_MAX :: nat where "PATH_MAX = 1024"

definition EINVAL :: int where "EINVAL = 22"
definition ERANGE :: int where "ERANGE = 38"

definition is_sep :: "char \<Rightarrow> bool" where
  "is_sep c \<longleftrightarrow> c = CHR ''/'' \<or> c = CHR 0x5c"

text \<open>Copying or appending to a buffer of \<open>cap\<close> bytes; the string ends with a zero.\<close>

definition str_fits :: "nat \<Rightarrow> string \<Rightarrow> string option" where
  "str_fits cap s = (if length s < cap then Some s else None)"

subsection \<open>Splitting\<close>

text \<open>The path from its last separator on, \<open>None\<close> for a null pointer.\<close>

definition pathSlashLastIndex :: "string \<Rightarrow> nat option" where
  "pathSlashLastIndex str =
     (case find (\<lambda>i. is_sep (str ! i)) (rev [0..<length str]) of None \<Rightarrow> None | Some i \<Rightarrow> Some i)"

definition pathSplit :: "string option \<Rightarrow> string \<times> string" where
  "pathSplit path =
     (case path of
        None \<Rightarrow> ([], [])
      | Some path \<Rightarrow>
          (case pathSlashLastIndex path of
             None \<Rightarrow> ([], path)
           | Some n \<Rightarrow> (take n path, drop (n + 1) path)))"

subsection \<open>Condensing\<close>

text \<open>The names of a path: the walk from \<open>p0\<close>, where \<open>p1\<close> starts at \<open>p0\<close> in each round.\<close>

function parse_loop :: "string \<Rightarrow> string list" where
  "parse_loop p0 =
     (if p0 = [] then []
      else
        let nm = takeWhile (\<lambda>c. \<not> is_sep c) p0; p1 = dropWhile (\<lambda>c. \<not> is_sep c) p0
        in if nm = [] then parse_loop (tl p0) else nm # parse_loop (if p1 \<noteq> [] then tl p1 else p1))"

  by pat_completeness auto

termination
proof (relation "measure length")
  fix p0 :: string
  assume "p0 \<noteq> []"
  then show "(tl p0, p0) \<in> measure length" by simp
next
  fix p0 nm p1 :: string
  assume "nm = takeWhile (\<lambda>c. \<not> is_sep c) p0" "p1 = dropWhile (\<lambda>c. \<not> is_sep c) p0" "nm \<noteq> []"
  moreover have "length p0 = length (takeWhile (\<lambda>c. \<not> is_sep c) p0) + length (dropWhile (\<lambda>c. \<not> is_sep c) p0)"
    by (metis length_append takeWhile_dropWhile_id)
  ultimately have "length p1 < length p0" by simp
  then show "(if p1 \<noteq> [] then tl p1 else p1, p0) \<in> measure length" by (cases p1) auto
qed simp

declare parse_loop.simps [simp del]

text \<open>The array has room for ten pointers, the last of them null, and the buffer for the names with their zeros.\<close>

definition pathParse :: "string \<Rightarrow> string list option" where
  "pathParse longname =
     (let names = parse_loop longname; names = (if names = [] then [''.''] else names)
      in if length names \<ge> 10 \<or> sum_list (map (\<lambda>n. length n + 1) names) > PATH_MAX then None else Some names)"

text \<open>A name is removed by making it empty; \<open>done\<close> are the names before, the nearest first.\<close>

primrec blank_prev :: "string list \<Rightarrow> string list" where
  "blank_prev [] = []"
| "blank_prev (n # ns) = (if n = [] then n # blank_prev ns else [] # ns)"

primrec reduce_loop :: "string list \<Rightarrow> string list \<Rightarrow> string list" where
  "reduce_loop prev [] = rev prev"
| "reduce_loop prev (n # ns) =
     (if n = ''.'' then reduce_loop ([] # prev) ns
      else if n = ''..'' then reduce_loop ([] # blank_prev prev) ns
      else reduce_loop (n # prev) ns)"

definition pathArrayReduce :: "string list \<Rightarrow> string list" where
  "pathArrayReduce namearray = reduce_loop [] namearray"

text \<open>The loop of \<open>pathBuild\<close>: the result so far, its length as counted, and whether it ends with an added slash.\<close>

primrec build_loop :: "nat \<Rightarrow> string list \<Rightarrow> string \<Rightarrow> nat \<Rightarrow> bool \<Rightarrow> (STATUS \<times> string \<times> bool) option" where
  "build_loop cap [] result len slashEnd = Some (OK, result, slashEnd)"
| "build_loop cap (n # ns) result len slashEnd =
     (if n \<noteq> []
      then
        let newlen = len + length n + 1
        in if newlen > PATH_MAX then Some (ERROR, result, slashEnd)
           else do {
             result \<leftarrow> str_fits cap (result @ n @ ''/'');
             build_loop cap ns result newlen True
           }
      else build_loop cap ns result len slashEnd)"

definition pathBuild :: "nat \<Rightarrow> string list \<Rightarrow> string \<Rightarrow> (STATUS \<times> string) option" where
  "pathBuild cap namearray result =
     (let len = length result
      in if len \<ge> PATH_MAX then Some (ERROR, result)
         else do {
           let add = (len > 0 \<and> \<not> is_sep (last result));
           result \<leftarrow> (if add then str_fits cap (result @ ''/'') else Some result);
           (status, result, slashEnd) \<leftarrow> build_loop cap namearray result len add;
           Some (status, if status = OK \<and> slashEnd then butlast result else result)
         })"

text \<open>The new path is never longer than the old one, so that copying it back fits (\<open>newPath\<close> has \<open>PATH_MAX\<close> bytes).\<close>

definition pathCondense :: "string \<Rightarrow> ios \<Rightarrow> (string \<times> ios) option" where
  "pathCondense path s = do {
     (pDev, pTail, s) \<leftarrow> iosDevFind path s;
     names \<leftarrow> pathParse pTail;
     let names = pathArrayReduce names;
     let newPath = (if pTail \<noteq> [] \<and> is_sep (hd pTail) then [hd pTail] else []);
     (status, newPath) \<leftarrow> pathBuild PATH_MAX names newPath;
     Some (take (length path - length pTail) path @ newPath, s)
   }"


subsection \<open>The current directory\<close>

record path_state =
  pa_ios :: ios
  pathCwd :: string
  pathLibInitialized :: bool
  patherrno :: int

text \<open>\<open>junk\<close> is what the status variable held: the first call does not set it.\<close>

definition pathLibInit :: "STATUS \<Rightarrow> path_state \<Rightarrow> STATUS \<times> path_state" where
  "pathLibInit junk S =
     (if pathLibInitialized S then (OK, S) else (junk, S\<lparr>pathCwd := [], pathLibInitialized := True\<rparr>))"

text \<open>\<open>iosDevFind\<close> with the rest of the name; a rest as long as the name is the name itself.\<close>

definition dev_find :: "string \<Rightarrow> path_state \<Rightarrow> (ptr \<times> string \<times> path_state) option" where
  "dev_find name S = do {
     (d, rest, s) \<leftarrow> iosDevFind name (pa_ios S);
     Some (d, rest, S\<lparr>pa_ios := s\<rparr>)
   }"

definition ioDefPathSet :: "string \<Rightarrow> path_state \<Rightarrow> (STATUS \<times> path_state) option" where
  "ioDefPathSet path S = do {
     (d, pTail, S) \<leftarrow> dev_find path S;
     Some (if d = NULL then (ERROR, S)
           else if length pTail = length path then (ERROR, S)
           else if length path > PATH_MAX then (ERROR, S)
           else (OK, S\<lparr>pathCwd := path\<rparr>))
   }"

definition ioDefPathGet :: "path_state \<Rightarrow> string" where
  "ioDefPathGet S = pathCwd S"

text \<open>\<open>result\<close> is a buffer of \<open>cap\<close> bytes, and \<open>strncat\<close> appends at most \<open>PATH_MAX\<close> characters.\<close>

definition str_ncat :: "nat \<Rightarrow> string \<Rightarrow> string \<Rightarrow> string option" where
  "str_ncat cap result x = str_fits cap (result @ take PATH_MAX x)"

definition pathCat :: "nat \<Rightarrow> string option \<Rightarrow> string option \<Rightarrow> path_state \<Rightarrow> (STATUS \<times> string \<times> path_state) option" where
  "pathCat cap dirname filename S =
     (if filename = None \<or> filename = Some []
      then (case dirname of None \<Rightarrow> None
            | Some dir \<Rightarrow> do { r \<leftarrow> str_fits cap dir; Some (OK, r, S) })
      else
        let file = the filename
        in if dirname = None \<or> dirname = Some []
           then do { r \<leftarrow> str_fits cap file; Some (OK, r, S) }
           else do {
             let dir = the dirname;
             (d, pTail, S) \<leftarrow> dev_find file S;
             if length pTail \<noteq> length file then do { r \<leftarrow> str_fits cap file; Some (OK, r, S) }
             else do {
               (r, dir, S) \<leftarrow>
                 (if hd dir \<noteq> CHR ''/''
                  then do {
                    (d, pTail, S) \<leftarrow> dev_find dir S;
                    let pTail = (if d = NULL then dir else pTail);
                    if length pTail \<noteq> length dir
                    then do { r \<leftarrow> str_fits cap (take (length dir - length pTail) dir); Some (r, pTail, S) }
                    else Some ([], dir, S)
                  }
                  else Some ([], dir, S));
               r \<leftarrow>
                 (if hd file \<notin> {CHR ''/'', CHR 0x5c, CHR ''~'', CHR ''$''} \<and> dir \<noteq> []
                  then do {
                    r \<leftarrow> str_ncat cap r dir;
                    if last dir \<noteq> CHR ''/'' then str_ncat cap r ''/'' else Some r
                  }
                  else Some r);
               r \<leftarrow> str_ncat cap r file;
               Some (OK, r, S)
             }
           })"

text \<open>The buffer \<open>newpath\<close> has room for \<open>PATH_MAX\<close> characters.\<close>

definition ioDefPathCat :: "string option \<Rightarrow> path_state \<Rightarrow> (STATUS \<times> path_state) option" where
  "ioDefPathCat path S = do {
     (st, newpath, S) \<leftarrow> pathCat (PATH_MAX + 1) (Some (pathCwd S)) path S;
     if st \<noteq> OK then Some (ERROR, S)
     else do {
       (d, pTail, S) \<leftarrow> dev_find newpath S;
       if length pTail = length newpath then Some (ERROR, S)
       else do {
         (newpath, s) \<leftarrow> pathCondense newpath (pa_ios S);
         Some (OK, S\<lparr>pa_ios := s, pathCwd := take PATH_MAX newpath\<rparr>)
       }
     }
   }"

definition chdir :: "string \<Rightarrow> path_state \<Rightarrow> (STATUS \<times> path_state) option" where
  "chdir path S = ioDefPathSet path S"

text \<open>\<open>size\<close> is the size of the caller's buffer; a path of exactly this length is copied with its zero.\<close>

definition getcwd :: "nat \<Rightarrow> path_state \<Rightarrow> (string option \<times> path_state) option" where
  "getcwd sz S =
     (if sz = 0 then Some (None, S\<lparr>patherrno := EINVAL\<rparr>)
      else if length (pathCwd S) > sz then Some (None, S\<lparr>patherrno := ERANGE\<rparr>)
      else do { r \<leftarrow> str_fits sz (pathCwd S); Some (Some r, S) })"

definition pathCwdLen :: "path_state \<Rightarrow> nat" where
  "pathCwdLen S = length (pathCwd S)"

definition pathPrependCwd :: "nat \<Rightarrow> string option \<Rightarrow> path_state \<Rightarrow> (STATUS \<times> string \<times> path_state) option" where
  "pathPrependCwd cap filename S = pathCat cap (Some (pathCwd S)) filename S"

end
