(* ===== verification/IosProps.thy ===== *)
theory IosProps
  imports IosLib "HOL-Library.Sublist"
begin

text \<open>
  The I/O system: looking a device up finds the longest matching name, the table of open files is a map from
  descriptors to devices and values, and what happens when it is full.
\<close>

subsection \<open>Looking up a device\<close>

text \<open>The reference: the first of the devices whose name is not empty, begins the name and is longest.\<close>

definition longest_prefix :: "('d \<Rightarrow> 'c list) \<Rightarrow> 'c list \<Rightarrow> 'd list \<Rightarrow> 'd option" where
  "longest_prefix nm name ds =
     (let fs = filter (\<lambda>d. nm d \<noteq> [] \<and> prefix (nm d) name) ds
      in find (\<lambda>d. \<forall>d' \<in> set fs. length (nm d') \<le> length (nm d)) fs)"

text \<open>The walk of the code keeps the first longest of those seen so far.\<close>

primrec best_of :: "('d \<Rightarrow> 'c list) \<Rightarrow> 'c list \<Rightarrow> 'd list \<Rightarrow> 'd option \<Rightarrow> 'd option" where
  "best_of nm name [] b = b"
| "best_of nm name (d # ds) b =
     best_of nm name ds
       (if prefix (nm d) name \<and> length (nm d) > (case b of None \<Rightarrow> 0 | Some x \<Rightarrow> length (nm x)) then Some d else b)"

lemma take_prefix: "take (length xs) ys = xs \<longleftrightarrow> prefix xs ys"
  by (metis append_eq_conv_conj prefix_def take_is_prefix)

lemma find_snoc: "find P (xs @ [y]) = (case find P xs of None \<Rightarrow> if P y then Some y else None | Some x \<Rightarrow> Some x)"
  by (induction xs) auto

lemma find_cong_on: "(\<And>x. x \<in> set xs \<Longrightarrow> P x = Q x) \<Longrightarrow> find P xs = find Q xs"
  by (induction xs) auto

lemma find_None_on: "(\<And>x. x \<in> set xs \<Longrightarrow> \<not> P x) \<Longrightarrow> find P xs = None"
  by (induction xs) auto

lemma find_longest:
  assumes "xs \<noteq> []"
  shows "\<exists>x \<in> set xs. find (\<lambda>d. \<forall>d' \<in> set xs. f d' \<le> (f d :: nat)) xs = Some x \<and> (\<forall>d' \<in> set xs. f d' \<le> f x)"
proof -
  have "\<exists>x \<in> set xs. \<forall>d' \<in> set xs. f d' \<le> f x"
    using assms Max_in [of "f ` set xs"] Max_ge [of "f ` set xs"] by fastforce
  then have "find (\<lambda>d. \<forall>d' \<in> set xs. f d' \<le> f d) xs \<noteq> None" by (auto simp: find_None_iff)
  then obtain x where x: "find (\<lambda>d. \<forall>d' \<in> set xs. f d' \<le> f d) xs = Some x" by blast
  then have "x \<in> set xs \<and> (\<forall>d' \<in> set xs. f d' \<le> f x)" by (auto simp: find_Some_iff)
  with x show ?thesis by blast
qed

lemma find_longest_snoc:
  fixes f :: "'d \<Rightarrow> nat"
  defines "L \<equiv> \<lambda>xs. find (\<lambda>d. \<forall>d' \<in> set xs. f d' \<le> f d) xs"
  shows "L (xs @ [d]) = (case L xs of None \<Rightarrow> Some d | Some x \<Rightarrow> if f d > f x then Some d else Some x)"
proof (cases "xs = []")
  case True
  then show ?thesis by (simp add: L_def)
next
  case False
  from find_longest [OF this] obtain x where x: "x \<in> set xs" "L xs = Some x" "\<forall>d' \<in> set xs. f d' \<le> f x"
    unfolding L_def by blast
  show ?thesis
  proof (cases "f d > f x")
    case True
    have "find (\<lambda>y. \<forall>d' \<in> set (xs @ [d]). f d' \<le> f y) xs = None"
      by (rule find_None_on) (use True x(3) in force)
    moreover have "\<forall>d' \<in> set (xs @ [d]). f d' \<le> f d" using True x(3) by force
    ultimately show ?thesis using True x(2) by (simp add: L_def find_snoc)
  next
    case ge: False
    have "find (\<lambda>y. \<forall>d' \<in> set (xs @ [d]). f d' \<le> f y) xs = L xs"
      unfolding L_def by (rule find_cong_on) (use ge x in force)
    with ge x(2) show ?thesis by (simp add: L_def find_snoc)
  qed
qed

lemma longest_prefix_snoc:
  "longest_prefix nm name (ds @ [d]) =
    (if prefix (nm d) name \<and> length (nm d) > (case longest_prefix nm name ds of None \<Rightarrow> 0 | Some x \<Rightarrow> length (nm x))
     then Some d else longest_prefix nm name ds)"
proof (cases "nm d \<noteq> [] \<and> prefix (nm d) name")
  case True
  then have "longest_prefix nm name (ds @ [d]) = (case longest_prefix nm name ds of None \<Rightarrow> Some d
      | Some x \<Rightarrow> if length (nm d) > length (nm x) then Some d else Some x)"
    using find_longest_snoc [where f = "\<lambda>x. length (nm x)" and d = d and
        xs = "filter (\<lambda>d. nm d \<noteq> [] \<and> prefix (nm d) name) ds"]
    by (simp add: longest_prefix_def)
  with True show ?thesis by (auto split: option.split)
next
  case False
  then have "longest_prefix nm name (ds @ [d]) = longest_prefix nm name ds"
    by (auto simp: longest_prefix_def)
  with False show ?thesis by auto
qed

lemma longest_prefix_Nil [simp]: "longest_prefix nm name [] = None"
  by (simp add: longest_prefix_def)

lemma best_of_longest:
  "best_of nm name ds (longest_prefix nm name cs) = longest_prefix nm name (cs @ ds)"
proof (induction ds arbitrary: cs)
  case (Cons d ds)
  from Cons [of "cs @ [d]"] show ?case by (simp add: longest_prefix_snoc)
qed simp

lemma longest_prefix_cases:
  obtains "longest_prefix nm name ds = None" "\<forall>d \<in> set ds. prefix (nm d) name \<longrightarrow> nm d = []"
  | d where "longest_prefix nm name ds = Some d" "d \<in> set ds" "nm d \<noteq> []" "prefix (nm d) name"
      "\<forall>d' \<in> set ds. prefix (nm d') name \<longrightarrow> length (nm d') \<le> length (nm d)"
proof (cases "filter (\<lambda>d. nm d \<noteq> [] \<and> prefix (nm d) name) ds = []")
  case True
  then have "longest_prefix nm name ds = None" by (simp add: longest_prefix_def)
  moreover have "\<forall>d \<in> set ds. prefix (nm d) name \<longrightarrow> nm d = []" using True by (auto simp: filter_empty_conv)
  ultimately show ?thesis by (rule that(1))
next
  case False
  from find_longest [OF this, of "\<lambda>d. length (nm d)"] obtain d where
    d: "d \<in> set ds" "nm d \<noteq> []" "prefix (nm d) name" "longest_prefix nm name ds = Some d"
    and m: "\<forall>d' \<in> set ds. nm d' \<noteq> [] \<and> prefix (nm d') name \<longrightarrow> length (nm d') \<le> length (nm d)"
    by (auto simp: longest_prefix_def Let_def)
  have "\<forall>d' \<in> set ds. prefix (nm d') name \<longrightarrow> length (nm d') \<le> length (nm d)"
    using m by (metis le0 list.size(3))
  with d show ?thesis by (intro that(2))
qed

lemma match_loop_dseg:
  assumes "dseg s p ds NULL" and "pb = (case b of None \<Rightarrow> NULL | Some d \<Rightarrow> d)"
    and "ml = int (case b of None \<Rightarrow> 0 | Some d \<Rightarrow> length (dhName (iosDevs s d)))"
  shows "match_loop name (hd (ds @ [NULL])) pb ml s =
    Some (case best_of (\<lambda>d. dhName (iosDevs s d)) name ds b of None \<Rightarrow> NULL | Some d \<Rightarrow> d)"
  using assms
proof (induction ds arbitrary: p pb ml b)
  case Nil
  then show ?case by (simp add: match_loop.simps)
next
  case (Cons d ds)
  let ?nm = "\<lambda>d. dhName (iosDevs s d)"
  let ?better = "prefix (?nm d) name \<and> length (?nm d) > (case b of None \<Rightarrow> 0 | Some x \<Rightarrow> length (?nm x))"
  let ?b = "if ?better then Some d else b"
  have d: "d \<noteq> NULL" "DLL_NEXT s d = hd (ds @ [NULL])" "dseg s d ds NULL"
    using Cons.prems(1) by (simp_all add: DLL_NEXT_def)
  have bt: "(take (length (?nm d)) name = ?nm d \<and> ml < int (length (?nm d))) = ?better"
    using Cons.prems(3) by (simp add: take_prefix)
  show ?case
  proof (cases ?better)
    case True
    have "match_loop name (hd (ds @ [NULL])) d (int (length (?nm d))) s =
        Some (case best_of ?nm name ds (Some d) of None \<Rightarrow> NULL | Some d \<Rightarrow> d)"
      by (rule Cons.IH [OF d(3)]) simp_all
    moreover have "take (length (?nm d)) name = ?nm d" "ml < int (length (?nm d))" using bt True by blast+
    ultimately show ?thesis using d True by (subst match_loop.simps) (simp add: Let_def)
  next
    case False
    have "match_loop name (hd (ds @ [NULL])) pb ml s =
        Some (case best_of ?nm name ds b of None \<Rightarrow> NULL | Some d \<Rightarrow> d)"
      by (rule Cons.IH [OF d(3) Cons.prems(2,3)])
    moreover have "\<not> (take (length (?nm d)) name = ?nm d \<and> ml < int (length (?nm d)))" using bt False by blast
    ultimately show ?thesis using d False
      by (subst match_loop.simps) (simp only: Let_def if_False if_True not_False_eq_True best_of.simps list.sel append_Cons)
  qed
qed

definition dev_rep :: "ios \<Rightarrow> ptr list \<Rightarrow> bool" where
  "dev_rep s ds \<longleftrightarrow> dll_rep s iosDevList ds \<and> iosSemFull s"

abbreviation (input) dev_name :: "ios \<Rightarrow> ptr \<Rightarrow> string" where
  "dev_name s d \<equiv> dhName (iosDevs s d)"

lemma lock_reads [simp]:
  "iosSemFull s \<Longrightarrow> iosLock s = Some (s\<lparr>iosSemFull := False\<rparr>)"
  "iosSemFull (iosUnlock s)" "iosDevs (iosUnlock s) = iosDevs s"
  "iosFdTable (iosUnlock s) = iosFdTable s" "iosMaxFd (iosUnlock s) = iosMaxFd s"
  "iosDrvTable (iosUnlock s) = iosDrvTable s"
  "dnodes (iosUnlock s) = dnodes s" "dlists (iosUnlock s) = dlists s"
  by (simp_all add: iosLock_def iosUnlock_def)

lemma iosDevMatch_rep:
  assumes "dev_rep s ds"
  shows "iosDevMatch name s =
    Some (case longest_prefix (dev_name s) name ds of None \<Rightarrow> NULL | Some d \<Rightarrow> d, s)"
proof -
  let ?s = "s\<lparr>iosSemFull := False\<rparr>"
  have l: "dseg ?s NULL ds NULL" "DLL_HEAD ?s iosDevList = hd (ds @ [NULL])" "iosSemFull s"
    using assms dseg_cong [of ds ?s s] by (simp_all add: dev_rep_def dll_rep_def DLL_HEAD_def)
  have u: "iosUnlock ?s = s" using l(3) by (simp add: iosUnlock_def)
  have "match_loop name (hd (ds @ [NULL])) NULL 0 ?s =
      Some (case best_of (dev_name s) name ds None of None \<Rightarrow> NULL | Some d \<Rightarrow> d)"
    using match_loop_dseg [OF l(1), of NULL None 0 name] by simp
  with best_of_longest [of "dev_name s" name ds "[]"] l(2,3) u show ?thesis
    by (simp add: iosDevMatch_def)
qed

lemma iosDevAdd_rep:
  assumes rep: "dev_rep s ds" and d: "d \<noteq> NULL" "d \<notin> set ds"
  shows "if name \<noteq> [] \<and> name \<in> dev_name s ` set ds
     then iosDevAdd alloc d name drv s = Some (ERROR, iosErrnoSet S_iosLib_DUPLICATE_DEVICE_NAME s)
     else if \<not> alloc then iosDevAdd alloc d name drv s = Some (ERROR, s)
     else \<exists>s'. iosDevAdd alloc d name drv s = Some (OK, s') \<and> dev_rep s' (ds @ [d]) \<and>
       iosDevs s' = (iosDevs s)(d := \<lparr>dhName = name, dhDrv = drv\<rparr>) \<and>
       iosFdTable s' = iosFdTable s \<and> iosMaxFd s' = iosMaxFd s \<and> iosDrvTable s' = iosDrvTable s"
proof -
  have nz: "NULL \<notin> set ds" using rep dll_rep_NULL by (auto simp: dev_rep_def)
  let ?m = "case longest_prefix (dev_name s) name ds of None \<Rightarrow> NULL | Some d \<Rightarrow> d"
  have dup: "?m \<noteq> NULL \<and> dev_name s ?m = name \<longleftrightarrow> name \<noteq> [] \<and> name \<in> dev_name s ` set ds"
  proof (cases rule: longest_prefix_cases [of "dev_name s" name ds])
    case 1
    then have "\<not> (name \<noteq> [] \<and> name \<in> dev_name s ` set ds)" by fastforce
    with 1 show ?thesis by simp
  next
    case (2 x)
    then have xz: "x \<noteq> NULL" using nz by metis
    have "dev_name s x = name" if "y \<in> set ds" "dev_name s y = name" for y
    proof -
      have "length name \<le> length (dev_name s x)" using 2(5) that by auto
      with 2(4) show ?thesis by (auto simp: prefix_def)
    qed
    with 2 xz show ?thesis by auto
  qed
  show ?thesis
  proof (cases "name \<noteq> [] \<and> name \<in> dev_name s ` set ds")
    case True
    with dup show ?thesis by (simp add: iosDevAdd_def iosDevMatch_rep [OF rep])
  next
    case False
    let ?u = "upd_dev d (\<lambda>x. x\<lparr>dhDrv := drv, dhName := name\<rparr>) s"
    let ?l = "?u\<lparr>iosSemFull := False\<rparr>"
    have "dll_rep ?l iosDevList ds"
      using rep dll_rep_frame [of ds ?l s iosDevList] by (simp add: dev_rep_def upd_dev_def)
    then have a: "dll_rep (snd (dllAdd iosDevList d ?l)) iosDevList (ds @ [d])" by (rule dllAdd_rep [OF _ d])
    have i: "iosDevs (snd (dllAdd iosDevList d ?l)) = iosDevs ?u"
      "iosFdTable (snd (dllAdd iosDevList d ?l)) = iosFdTable s" "iosMaxFd (snd (dllAdd iosDevList d ?l)) = iosMaxFd s"
      "iosDrvTable (snd (dllAdd iosDevList d ?l)) = iosDrvTable s"
      by (simp_all add: dllAdd_def Let_def store_defs upd_dev_def)
    have f: "iosSemFull ?u" using rep by (simp add: dev_rep_def upd_dev_def)
    have "dev_rep (iosUnlock (snd (dllAdd iosDevList d ?l))) (ds @ [d])"
      using a dll_rep_frame [of "ds @ [d]" "iosUnlock (snd (dllAdd iosDevList d ?l))" "snd (dllAdd iosDevList d ?l)" iosDevList]
      by (simp add: dev_rep_def)
    moreover have "iosDevs ?u = (iosDevs s)(d := \<lparr>dhName = name, dhDrv = drv\<rparr>)"
      by (cases "iosDevs s d") (simp add: upd_dev_def)
    ultimately show ?thesis
      using False dup f i by (auto simp: iosDevAdd_def iosDevMatch_rep [OF rep])
  qed
qed

subsection \<open>The table of open files\<close>

text \<open>The abstract table: descriptors to devices and values, in a range; a new file gets the lowest descriptor.\<close>

type_synonym open_files = "int \<Rightarrow> (ptr \<times> u32) option"

datatype fd_op = FdNew ptr "string option" u32 | FdClose int

definition abs_new :: "int \<Rightarrow> ptr \<Rightarrow> u32 \<Rightarrow> open_files \<Rightarrow> int \<times> open_files" where
  "abs_new mx d v A =
     (case find (\<lambda>fd. A fd = None) [3..mx - 1] of None \<Rightarrow> (ERROR, A) | Some fd \<Rightarrow> (fd, A(fd \<mapsto> (d, v))))"

definition abs_close :: "(ptr \<Rightarrow> u32 \<Rightarrow> int) \<Rightarrow> int \<Rightarrow> open_files \<Rightarrow> int \<times> open_files" where
  "abs_close ret fd A =
     (case A fd of None \<Rightarrow> (ERROR, A) | Some (d, v) \<Rightarrow> (ret d v, A(fd := None)))"

primrec abs_fd :: "int \<Rightarrow> (ptr \<Rightarrow> u32 \<Rightarrow> int) \<Rightarrow> fd_op list \<Rightarrow> open_files \<Rightarrow> int list \<times> open_files" where
  "abs_fd mx ret [] A = ([], A)"
| "abs_fd mx ret (op # ops) A =
     (let (r, A) = (case op of FdNew d nm v \<Rightarrow> abs_new mx d v A | FdClose fd \<Rightarrow> abs_close ret fd A);
          (rs, A) = abs_fd mx ret ops A
      in (r # rs, A))"

primrec run_fd :: "ios_env \<Rightarrow> fd_op list \<Rightarrow> ios \<Rightarrow> (int list \<times> ios) option" where
  "run_fd E [] s = Some ([], s)"
| "run_fd E (op # ops) s = do {
     (r, s) \<leftarrow> (case op of FdNew d nm v \<Rightarrow> iosFdNew E True d nm v s | FdClose fd \<Rightarrow> iosClose E fd s);
     (rs, s) \<leftarrow> run_fd E ops s;
     Some (r # rs, s)
   }"

text \<open>The device of an entry has a driver that can close files.\<close>

definition dev_closes :: "ios \<Rightarrow> ptr \<Rightarrow> bool" where
  "dev_closes s d \<longleftrightarrow> d \<noteq> NULL \<and> (case drv_entry (dhDrv (iosDevs s d)) s of None \<Rightarrow> False | Some e \<Rightarrow> dev_close e \<noteq> 0)"

definition fd_entry_ok :: "ios \<Rightarrow> FD_ENTRY \<Rightarrow> (ptr \<times> u32) option \<Rightarrow> bool" where
  "fd_entry_ok s e a =
     (case a of None \<Rightarrow> \<not> fdUsed e
      | Some (d, v) \<Rightarrow> fdUsed e \<and> \<not> fdObsolete e \<and> fdDev e = d \<and> fdValue e = v \<and> dev_closes s d)"

definition fd_rep :: "ios \<Rightarrow> open_files \<Rightarrow> bool" where
  "fd_rep s A \<longleftrightarrow> iosSemFull s \<and> length (iosFdTable s) = nat (iosMaxFd s) \<and>
     (\<forall>fd. if 3 \<le> fd \<and> fd < iosMaxFd s then fd_entry_ok s (iosFdTable s ! nat (fd - 3)) (A fd) else A fd = None)"

text \<open>A driver that leaves the tables alone, and no hooks.\<close>

definition quiet_env :: "ios_env \<Rightarrow> (nat \<Rightarrow> drv_call \<Rightarrow> int) \<Rightarrow> bool" where
  "quiet_env E r \<longleftrightarrow> ie_newHook E = None \<and> ie_freeHook E = None \<and> (\<forall>f c s. ie_driver E f c s = (r f c, s))"

definition close_result :: "(nat \<Rightarrow> drv_call \<Rightarrow> int) \<Rightarrow> ios \<Rightarrow> ptr \<Rightarrow> u32 \<Rightarrow> int" where
  "close_result r s d v =
     (case drv_entry (dhDrv (iosDevs s d)) s of None \<Rightarrow> ERROR | Some e \<Rightarrow> r (dev_close e) (CloseCall v))"

text \<open>What a call of a file operation leaves alone.\<close>

definition same_devs :: "ios \<Rightarrow> ios \<Rightarrow> bool" where
  "same_devs s s' \<longleftrightarrow> iosDevs s' = iosDevs s \<and> iosDrvTable s' = iosDrvTable s \<and> iosMaxFd s' = iosMaxFd s"

lemma same_devs_cong:
  assumes "same_devs s s'"
  shows "dev_closes s' d = dev_closes s d" "fd_entry_ok s' e a = fd_entry_ok s e a"
    "close_result r s' = close_result r s"
  using assms by (simp_all add: same_devs_def dev_closes_def drv_entry_def fd_entry_ok_def close_result_def
      fun_eq_iff split: option.split)

lemma fd_rep_upd:
  assumes rep: "fd_rep s A" and sd: "same_devs s s'" and f: "iosSemFull s'"
    and t: "iosFdTable s' = (iosFdTable s)[nat (fd - 3) := e]" and fd: "3 \<le> fd"
    and ok: "if fd < iosMaxFd s then fd_entry_ok s e a \<and> A' = A(fd := a) else A' = A"
  shows "fd_rep s' A'"
  unfolding fd_rep_def
proof (intro conjI allI)
  have m: "iosMaxFd s' = iosMaxFd s" using sd by (simp add: same_devs_def)
  have l: "length (iosFdTable s) = nat (iosMaxFd s)" using rep by (simp add: fd_rep_def)
  show "iosSemFull s'" by (rule f)
  show "length (iosFdTable s') = nat (iosMaxFd s')" using l t m by simp
  fix g
  have old: "if 3 \<le> g \<and> g < iosMaxFd s then fd_entry_ok s (iosFdTable s ! nat (g - 3)) (A g) else A g = None"
    using rep by (simp add: fd_rep_def)
  show "if 3 \<le> g \<and> g < iosMaxFd s' then fd_entry_ok s' (iosFdTable s' ! nat (g - 3)) (A' g) else A' g = None"
  proof (cases "g = fd")
    case True
    have "nat (fd - 3) < length (iosFdTable s)" if "fd < iosMaxFd s" using that fd l by simp
    with True old ok fd show ?thesis
      by (auto simp: m t same_devs_cong [OF sd] split: if_splits)
  next
    case False
    then have "nat (g - 3) \<noteq> nat (fd - 3)" if "3 \<le> g" using that fd by auto
    with False old ok show ?thesis
      by (auto simp: m t same_devs_cong [OF sd] split: if_splits)
  qed
qed

lemma upd_fd_reads [simp]:
  "iosFdTable (upd_fd i f s) = (iosFdTable s)[i := f (iosFdTable s ! i)]" "iosMaxFd (upd_fd i f s) = iosMaxFd s"
  "iosDevs (upd_fd i f s) = iosDevs s" "iosDrvTable (upd_fd i f s) = iosDrvTable s" "iosSemFull (upd_fd i f s) = iosSemFull s"
  by (simp_all add: upd_fd_def)

lemma upd_fd_twice: "i < length (iosFdTable s) \<Longrightarrow> upd_fd i f (upd_fd i g s) = upd_fd i (\<lambda>e. f (g e)) s"
  by (simp add: upd_fd_def)

lemma find_upto: "find P [a..b] = Some x \<longleftrightarrow> a \<le> x \<and> x \<le> b \<and> P x \<and> (\<forall>y. a \<le> y \<and> y < x \<longrightarrow> \<not> P y)"
proof
  assume "find P [a..b] = Some x"
  then obtain i where i: "i < length [a..b]" "P ([a..b] ! i)" "x = [a..b] ! i" "\<forall>j < i. \<not> P ([a..b] ! j)"
    by (auto simp: find_Some_iff)
  then have x: "x = a + int i" "x \<le> b" by auto
  have "\<not> P y" if "a \<le> y" "y < x" for y
  proof -
    have "\<not> P ([a..b] ! nat (y - a))" using i(4) that x by (metis add.commute diff_less_eq nat_less_iff zero_le_imp_eq_int diff_ge_0_iff_ge)
    moreover have "[a..b] ! nat (y - a) = y" using that x by (subst nth_upto) auto
    ultimately show ?thesis by simp
  qed
  with x i(2,3) show "a \<le> x \<and> x \<le> b \<and> P x \<and> (\<forall>y. a \<le> y \<and> y < x \<longrightarrow> \<not> P y)" by auto
next
  assume r: "a \<le> x \<and> x \<le> b \<and> P x \<and> (\<forall>y. a \<le> y \<and> y < x \<longrightarrow> \<not> P y)"
  show "find P [a..b] = Some x"
    unfolding find_Some_iff
  proof (intro exI [of _ "nat (x - a)"] conjI allI impI)
    show "nat (x - a) < length [a..b]" using r by auto
    show "P ([a..b] ! nat (x - a))" "x = [a..b] ! nat (x - a)" using r by (simp_all add: nth_upto)
    fix j assume "j < nat (x - a)"
    then have "[a..b] ! j = a + int j" "a \<le> a + int j" "a + int j < x" using r by (auto simp: nth_upto)
    with r show "\<not> P ([a..b] ! j)" by metis
  qed
qed

lemma fd_rep_used:
  assumes "fd_rep s A" and "3 \<le> fd" and "fd < iosMaxFd s"
  shows "fdUsed (iosFdTable s ! nat (fd - 3)) \<longleftrightarrow> A fd \<noteq> None"
  using assms by (auto simp: fd_rep_def fd_entry_ok_def split: option.splits dest!: spec [of _ fd])

lemma first_free_new:
  assumes rep: "fd_rep s A" and f: "find (\<lambda>fd. A fd = None) [3..iosMaxFd s - 1] = Some fd"
  shows "first_free_fd s = nat (fd - 3)"
proof -
  have fd: "3 \<le> fd" "fd < iosMaxFd s" "A fd = None" "\<And>y. 3 \<le> y \<Longrightarrow> y < fd \<Longrightarrow> A y \<noteq> None"
    using f by (auto simp: find_upto)
  have "fdUsed (iosFdTable s ! j)" if "j < nat (fd - 3)" for j
    using fd_rep_used [OF rep, of "int j + 3"] fd(2,4) that by auto
  moreover have "\<not> fdUsed (iosFdTable s ! nat (fd - 3))" using fd_rep_used [OF rep] fd by simp
  ultimately have "find (\<lambda>i. \<not> fdUsed (iosFdTable s ! i)) [0..<nat (iosMaxFd s)] = Some (nat (fd - 3))"
    using fd(1,2) by (auto simp: find_upt)
  then show ?thesis by (simp add: first_free_fd_def)
qed

lemma first_free_none:
  assumes rep: "fd_rep s A" and f: "find (\<lambda>fd. A fd = None) [3..iosMaxFd s - 1] = None"
  shows "int (first_free_fd s) + 3 \<ge> iosMaxFd s"
proof (rule ccontr)
  assume c: "\<not> int (first_free_fd s) + 3 \<ge> iosMaxFd s"
  then have "find (\<lambda>i. \<not> fdUsed (iosFdTable s ! i)) [0..<nat (iosMaxFd s)] = Some (first_free_fd s)"
    by (auto simp: first_free_fd_def split: option.splits if_splits)
  then have "\<not> fdUsed (iosFdTable s ! first_free_fd s)" by (simp add: find_upt)
  then have "A (int (first_free_fd s) + 3) = None" using fd_rep_used [OF rep, of "int (first_free_fd s) + 3"] c
    by (simp del: not_None_eq)
  moreover from f have "\<forall>x \<in> set [3..iosMaxFd s - 1]. A x \<noteq> None" by (simp add: find_None_iff)
  ultimately show False using c by (metis atLeastAtMost_iff add_increasing not_le of_nat_0_le_iff order_refl
        set_upto zle_diff1_eq add.commute)
qed

lemma iosFdSet_new:
  assumes "3 \<le> fd" and "fd < iosMaxFd s" and "nat (fd - 3) < length (iosFdTable s)"
    and "fdUsed (iosFdTable s ! nat (fd - 3))" and "fdName (iosFdTable s ! nat (fd - 3)) = None" and "d \<noteq> NULL"
  shows "\<exists>nm'. iosFdSet True fd d nm v s =
    Some (OK, upd_fd (nat (fd - 3)) (\<lambda>e. e\<lparr>fdName := nm', fdDev := d, fdValue := v\<rparr>) s)"
  using assms by (cases nm) (auto simp: iosFdSet_def STD_UNFIX_def drop_name_def upd_fd_twice Let_def)

lemma iosFdNew_rep:
  assumes rep: "fd_rep s A" and q: "quiet_env E r" and d: "dev_closes s d"
  shows "\<exists>s'. iosFdNew E True d nm v s = Some (fst (abs_new (iosMaxFd s) d v A), s') \<and>
    fd_rep s' (snd (abs_new (iosMaxFd s) d v A)) \<and> same_devs s s'"
proof -
  let ?i = "first_free_fd s" and ?mark = "\<lambda>e. e\<lparr>fdUsed := True, fdObsolete := False, fdName := None\<rparr>"
  have sem: "iosSemFull s" and len: "length (iosFdTable s) = nat (iosMaxFd s)" using rep by (simp_all add: fd_rep_def)
  have ff: "first_free_fd (s\<lparr>iosSemFull := b\<rparr>) = ?i" for b
    by (simp add: first_free_fd_def split: option.split)
  show ?thesis
  proof (cases "find (\<lambda>fd. A fd = None) [3..iosMaxFd s - 1]")
    case None
    let ?s = "iosErrnoSet S_iosLib_TO_MANY_OPEN_FILES (iosUnlock
        (if int ?i < iosMaxFd s then upd_fd ?i ?mark (s\<lparr>iosSemFull := False\<rparr>) else s\<lparr>iosSemFull := False\<rparr>))"
    have full: "int ?i + 3 \<ge> iosMaxFd s" by (rule first_free_none [OF rep None])
    then have e: "iosFdNew E True d nm v s = Some (ERROR, ?s)"
      using sem by (simp add: iosFdNew_def ff STD_FIX_def)
    have sd: "same_devs s ?s" by (simp add: same_devs_def iosErrnoSet_def)
    have "fd_rep ?s A"
    proof (cases "int ?i < iosMaxFd s")
      case True
      then show ?thesis
        using full sd by (intro fd_rep_upd [OF rep sd, of "int ?i + 3"]) (auto simp: iosErrnoSet_def)
    next
      case False
      have "iosFdTable ?s = (iosFdTable s)[nat ((int ?i + 3) - 3) := no_fd]"
        using False list_update_beyond [of "iosFdTable s" ?i] len by (simp add: iosErrnoSet_def)
      then show ?thesis
        by (rule fd_rep_upd [OF rep sd, rotated]) (use full in \<open>auto simp: iosErrnoSet_def\<close>)
    qed
    with e sd None show ?thesis by (intro exI [of _ ?s]) (simp add: abs_new_def)
  next
    case (Some fd)
    then have fd: "3 \<le> fd" "fd < iosMaxFd s" by (auto simp: find_upto)
    have i: "?i = nat (fd - 3)" by (rule first_free_new [OF rep Some])
    let ?s1 = "iosUnlock (upd_fd ?i ?mark (s\<lparr>iosSemFull := False\<rparr>))"
    have il: "nat (fd - 3) < length (iosFdTable s)" using fd len by simp
    obtain nm' where nm': "iosFdSet True fd d nm v ?s1 =
        Some (OK, upd_fd (nat (fd - 3)) (\<lambda>e. e\<lparr>fdName := nm', fdDev := d, fdValue := v\<rparr>) ?s1)"
      using iosFdSet_new [of fd ?s1 d nm v] fd il i d by (auto simp: dev_closes_def)
    let ?s2 = "upd_fd (nat (fd - 3)) (\<lambda>e. e\<lparr>fdName := nm', fdDev := d, fdValue := v\<rparr>) ?s1"
    have e: "iosFdNew E True d nm v s = Some (fd, ?s2)"
      using sem fd i nm' q by (simp add: iosFdNew_def ff STD_FIX_def quiet_env_def Let_def)
    have sd: "same_devs s ?s2" by (simp add: same_devs_def)
    have "fd_rep ?s2 (A(fd \<mapsto> (d, v)))"
      by (rule fd_rep_upd [OF rep sd, where fd = fd and a = "Some (d, v)"])
        (use fd il i d in \<open>auto simp: fd_entry_ok_def\<close>)
    with e sd Some show ?thesis by (intro exI [of _ ?s2]) (simp add: abs_new_def)
  qed
qed

lemma iosClose_rep:
  assumes rep: "fd_rep s A" and q: "quiet_env E r" and fd: "3 \<le> fd" "fd < iosMaxFd s"
  shows "\<exists>s'. iosClose E fd s = Some (fst (abs_close (close_result r s) fd A), s') \<and>
    fd_rep s' (snd (abs_close (close_result r s) fd A)) \<and> same_devs s s'"
proof -
  let ?i = "nat (fd - 3)"
  have map: "STD_MAP E fd t = fd - 3" for t using fd by (simp add: STD_MAP_def STD_UNFIX_def)
  have ok: "fd_entry_ok s (iosFdTable s ! ?i) (A fd)" and len: "length (iosFdTable s) = nat (iosMaxFd s)"
    using rep fd by (auto simp: fd_rep_def dest: spec [of _ fd])
  have il: "?i < length (iosFdTable s)" using fd len by simp
  show ?thesis
  proof (cases "A fd")
    case None
    then have "iosClose E fd s = Some (ERROR, s)"
      using ok by (simp add: iosClose_def map FD_CHECK_def fd_entry_ok_def)
    with None rep show ?thesis by (intro exI [of _ s]) (simp add: abs_close_def same_devs_def)
  next
    case (Some dv)
    obtain d v where dv: "dv = (d, v)" by (cases dv)
    have e: "fdUsed (iosFdTable s ! ?i)" "\<not> fdObsolete (iosFdTable s ! ?i)" "fdDev (iosFdTable s ! ?i) = d"
      "fdValue (iosFdTable s ! ?i) = v" "dev_closes s d" using ok Some dv by (auto simp: fd_entry_ok_def)
    from e(5) obtain de where de: "d \<noteq> NULL" "drv_entry (dhDrv (iosDevs s d)) s = Some de" "dev_close de \<noteq> 0"
      by (auto simp: dev_closes_def split: option.splits)
    have chk: "FD_CHECK (fd - 3) s = Some ?i" using e fd by (simp add: FD_CHECK_def)
    obtain s1 where s1: "drop_name (iosFdTable s ! ?i) d s = Some s1" "iosFdTable s1 = iosFdTable s"
      "same_devs s s1" "iosSemFull s1"
    proof (cases "fdName (iosFdTable s ! ?i)")
      case None
      with rep show ?thesis by (intro that [of s]) (simp_all add: drop_name_def same_devs_def fd_rep_def)
    next
      case (Some p)
      with rep de(1) show ?thesis
        by (intro that [of "if p \<noteq> DevName d then ios_free p s else s"])
          (simp_all add: drop_name_def ios_free_def same_devs_def fd_rep_def)
    qed
    let ?s = "upd_fd ?i (\<lambda>e. e\<lparr>fdUsed := False\<rparr>) (upd_fd ?i (\<lambda>e. e\<lparr>fdName := None\<rparr>) s1)"
    have "iosFdFree E (STD_FIX (fd - 3)) s = Some ?s"
      using q chk s1(1) e(3) by (simp add: iosFdFree_def STD_FIX_def map quiet_env_def)
    then have c: "iosClose E fd s = Some (r (dev_close de) (CloseCall v), ?s)"
      using chk e de q by (simp add: iosClose_def map fd_driver_def call_driver_def quiet_env_def Let_def)
    have sd: "same_devs s ?s" using s1(3) by (simp add: same_devs_def)
    have "fd_rep ?s (A(fd := None))"
      by (rule fd_rep_upd [OF rep sd, where fd = fd and a = None])
        (use fd il s1 in \<open>auto simp: fd_entry_ok_def\<close>)
    with c sd Some dv de show ?thesis
      by (intro exI [of _ ?s]) (simp add: abs_close_def close_result_def)
  qed
qed

definition fd_op_ok :: "ios \<Rightarrow> fd_op \<Rightarrow> bool" where
  "fd_op_ok s op = (case op of FdNew d nm v \<Rightarrow> dev_closes s d | FdClose fd \<Rightarrow> 3 \<le> fd \<and> fd < iosMaxFd s)"

lemma run_fd_rep:
  assumes "quiet_env E r" and "fd_rep s A" and "\<forall>op \<in> set ops. fd_op_ok s op"
  shows "\<exists>s'. run_fd E ops s = Some (fst (abs_fd (iosMaxFd s) (close_result r s) ops A), s') \<and>
    fd_rep s' (snd (abs_fd (iosMaxFd s) (close_result r s) ops A)) \<and> same_devs s s'"
  using assms(2,3)
proof (induction ops arbitrary: s A)
  case Nil
  then show ?case by (simp add: same_devs_def)
next
  case (Cons op ops)
  let ?call = "case op of FdNew d nm v \<Rightarrow> iosFdNew E True d nm v s | FdClose fd \<Rightarrow> iosClose E fd s"
    and ?abs = "case op of FdNew d nm v \<Rightarrow> abs_new (iosMaxFd s) d v A | FdClose fd \<Rightarrow> abs_close (close_result r s) fd A"
  have "\<exists>t. ?call = Some (fst ?abs, t) \<and> fd_rep t (snd ?abs) \<and> same_devs s t"
    using Cons.prems iosFdNew_rep [OF Cons.prems(1) assms(1)] iosClose_rep [OF Cons.prems(1) assms(1)]
    by (auto simp: fd_op_ok_def split: fd_op.split)
  then obtain t where t: "?call = Some (fst ?abs, t)" "fd_rep t (snd ?abs)" "same_devs s t" by blast
  note sd = same_devs_cong [OF t(3)]
  have m: "iosMaxFd t = iosMaxFd s" using t(3) by (simp add: same_devs_def)
  have "\<forall>op \<in> set ops. fd_op_ok t op"
    using Cons.prems(2) by (auto simp: fd_op_ok_def m sd split: fd_op.split)
  from Cons.IH [OF t(2) this] obtain s' where s':
    "run_fd E ops t = Some (fst (abs_fd (iosMaxFd s) (close_result r s) ops (snd ?abs)), s')"
    "fd_rep s' (snd (abs_fd (iosMaxFd s) (close_result r s) ops (snd ?abs)))" "same_devs t s'"
    unfolding m sd by blast
  have "same_devs s s'" using t(3) s'(3) by (simp add: same_devs_def)
  moreover have "run_fd E (op # ops) s = Some (fst ?abs # fst (abs_fd (iosMaxFd s) (close_result r s) ops (snd ?abs)), s')"
    using t(1) s'(1) by simp
  moreover have "abs_fd (iosMaxFd s) (close_result r s) (op # ops) A =
      (fst ?abs # fst (abs_fd (iosMaxFd s) (close_result r s) ops (snd ?abs)),
       snd (abs_fd (iosMaxFd s) (close_result r s) ops (snd ?abs)))"
    by (simp only: abs_fd.simps Let_def split_beta)
  ultimately show ?case using s'(2) by auto
qed

lemma fd_rep_value:
  assumes "fd_rep s A" and "3 \<le> fd" and "fd < iosMaxFd s"
  shows "iosFdValue E fd s = (case A fd of None \<Rightarrow> (0, iosErrnoSet S_iosLib_INVALID_FILE_DESCRIPTOR s) | Some (d, v) \<Rightarrow> (v, s))"
    and "iosFdDevFind E fd s = (case A fd of None \<Rightarrow> (NULL, iosErrnoSet S_iosLib_INVALID_FILE_DESCRIPTOR s) | Some (d, v) \<Rightarrow> (d, s))"
proof -
  have "fd_entry_ok s (iosFdTable s ! nat (fd - 3)) (A fd)"
    using assms by (auto simp: fd_rep_def dest: spec [of _ fd])
  then show "iosFdValue E fd s = (case A fd of None \<Rightarrow> (0, iosErrnoSet S_iosLib_INVALID_FILE_DESCRIPTOR s) | Some (d, v) \<Rightarrow> (v, s))"
    "iosFdDevFind E fd s = (case A fd of None \<Rightarrow> (NULL, iosErrnoSet S_iosLib_INVALID_FILE_DESCRIPTOR s) | Some (d, v) \<Rightarrow> (d, s))"
    using assms(2,3) by (auto simp: iosFdValue_def iosFdDevFind_def STD_MAP_def STD_UNFIX_def fd_entry_ok_def Let_def
        split: option.splits)
qed

subsection \<open>Initialisation\<close>

lemma free_fds_unused:
  "(\<And>i. i < n \<Longrightarrow> \<not> fdUsed (iosFdTable s ! i)) \<Longrightarrow> free_fds E n s = Some s"
  by (induction n) (simp_all add: iosFdFree_def FD_CHECK_def STD_MAP_def STD_UNFIX_def STD_FIX_def)

lemma iosLibInit_rep:
  assumes "\<not> iosLibInstalled s0" and "iosNullDevHeader \<noteq> NULL" and "nullDevName \<noteq> []" and "0 \<le> max_fd"
    and "0 < max_drv" and "dev_close null_drv \<noteq> 0"
  shows "\<exists>s. iosLibInit E True True True OK null_drv iosNullDevHeader max_drv max_fd nullDevName s0 = Some (OK, s) \<and>
    fd_rep s (\<lambda>fd. None) \<and> dev_rep s [iosNullDevHeader] \<and> dev_name s iosNullDevHeader = nullDevName \<and>
    dev_closes s iosNullDevHeader \<and> iosMaxFd s = max_fd \<and> iosFdTable s = replicate (nat max_fd) no_fd"
proof -
  let ?s1 = "s0\<lparr>iosMaxDrv := max_drv, iosMaxFd := max_fd, iosDefaultPath := [],
      iosFdTable := replicate (nat max_fd) no_fd\<rparr>"
  let ?s2 = "?s1\<lparr>iosDrvTable := replicate (nat max_drv) no_drv, iosSemFull := True\<rparr>"
  let ?s3 = "upd_drv 0 (\<lambda>e. null_drv\<lparr>dev_used := dev_used e\<rparr>) (set_tail iosDevList NULL (set_head iosDevList NULL ?s2))"
  have free: "free_fds E (nat max_fd) ?s1 = Some ?s1" by (rule free_fds_unused) simp
  have i: "dllInit iosDevList ?s2 = (OK, set_tail iosDevList NULL (set_head iosDevList NULL ?s2))" by (simp add: dllInit_def)
  have d3: "dev_rep ?s3 []"
    by (simp add: dev_rep_def dll_rep_def upd_drv_def dllInit_def store_defs)
  have fields: "iosFdTable ?s3 = replicate (nat max_fd) no_fd" "iosMaxFd ?s3 = max_fd"
    "iosDrvTable ?s3 = (replicate (nat max_drv) no_drv)[0 := null_drv\<lparr>dev_used := False\<rparr>]"
    using assms(5) by (simp_all add: upd_drv_def dllInit_def store_defs)
  obtain s4 where s4: "iosDevAdd True iosNullDevHeader nullDevName 0 ?s3 = Some (OK, s4)"
    "dev_rep s4 [iosNullDevHeader]" "iosDevs s4 = (iosDevs ?s3)(iosNullDevHeader := \<lparr>dhName = nullDevName, dhDrv = 0\<rparr>)"
    and keep: "iosFdTable s4 = iosFdTable ?s3" "iosMaxFd s4 = iosMaxFd ?s3" "iosDrvTable s4 = iosDrvTable ?s3"
    using iosDevAdd_rep [OF d3 assms(2), of nullDevName True 0] by auto
  let ?s = "s4\<lparr>iosLibInstalled := True\<rparr>"
  have "iosLibInit E True True True OK null_drv iosNullDevHeader max_drv max_fd nullDevName s0 = Some (OK, ?s)"
    using assms(1) free i s4(1) by (simp add: iosLibInit_def Let_def)
  moreover have "dev_rep ?s [iosNullDevHeader]"
    using s4(2) dll_rep_frame [of "[iosNullDevHeader]" ?s s4 iosDevList] by (simp add: dev_rep_def)
  moreover have "fd_rep ?s (\<lambda>fd. None)"
    using s4(2) keep fields by (auto simp: fd_rep_def fd_entry_ok_def dev_rep_def)
  moreover have "dev_closes ?s iosNullDevHeader"
    using assms s4(3) keep fields by (simp add: dev_closes_def drv_entry_def)
  ultimately show ?thesis using s4(3) keep fields by (intro exI [of _ ?s]) simp
qed

subsection \<open>A full table\<close>

lemma close_files_null:
  assumes "i < k" and "fdUsed (iosFdTable s ! (j + i))" and "fdDev (iosFdTable s ! (j + i)) = NULL"
    and "\<And>x. x < i \<Longrightarrow> fdDev (iosFdTable s ! (j + x)) \<noteq> NULL \<and>
      dhDrv (iosDevs s (fdDev (iosFdTable s ! (j + x)))) \<noteq> n"
  shows "close_files E n force c k j s = None"
  using assms
proof (induction k arbitrary: i j)
  case (Suc k)
  show ?case
  proof (cases i)
    case 0
    with Suc.prems show ?thesis by simp
  next
    case (Suc i')
    have "close_files E n force c k (Suc j) s = None"
    proof (rule Suc.IH [of i' "Suc j"])
      fix x assume "x < i'"
      with Suc.prems(4) [of "Suc x"] Suc show "fdDev (iosFdTable s ! (Suc j + x)) \<noteq> NULL \<and>
          dhDrv (iosDevs s (fdDev (iosFdTable s ! (Suc j + x)))) \<noteq> n" by simp
    qed (use Suc Suc.prems(1-3) in simp_all)
    with Suc.prems(4) [of 0] Suc show ?thesis by simp
  qed
qed simp

lemma full_table_marked:
  assumes rep: "fd_rep s A" and full: "\<forall>fd. 3 \<le> fd \<and> fd < iosMaxFd s \<longrightarrow> A fd \<noteq> None" and mx: "3 \<le> iosMaxFd s"
    and free: "\<not> fdUsed (iosFdTable s ! nat (iosMaxFd s - 3))"
  defines "i \<equiv> nat (iosMaxFd s - 3)"
  defines "s' \<equiv> iosErrnoSet S_iosLib_TO_MANY_OPEN_FILES (iosUnlock (upd_fd i
    (\<lambda>e. e\<lparr>fdUsed := True, fdObsolete := False, fdName := None\<rparr>) (s\<lparr>iosSemFull := False\<rparr>)))"
  shows "iosFdNew E alloc d nm v s = Some (ERROR, s')"
proof -
  have "fdUsed (iosFdTable s ! j)" if "j < i" for j
    using fd_rep_used [OF rep, of "int j + 3"] full that by (auto simp: i_def)
  then have "find (\<lambda>j. \<not> fdUsed (iosFdTable s ! j)) [0..<nat (iosMaxFd s)] = Some i"
    using mx free by (auto simp: find_upt i_def)
  then have "first_free_fd (s\<lparr>iosSemFull := False\<rparr>) = i" by (simp add: first_free_fd_def)
  then show ?thesis
    using rep mx by (simp add: iosFdNew_def fd_rep_def STD_FIX_def s'_def i_def Let_def)
qed

text \<open>A system with the null device alone, and a driver whose methods return 0, for concrete runs.\<close>

definition ios_blank :: ios where
  "ios_blank = \<lparr>dnodes = (\<lambda>n. \<lparr>dl_prev = 0, dl_next = 0\<rparr>), dlists = (\<lambda>l. \<lparr>dl_head = 0, dl_tail = 0\<rparr>),
     iosDevs = (\<lambda>d. \<lparr>dhName = [], dhDrv = 0\<rparr>), iosFdTable = [], iosDrvTable = [], iosMaxFd = 0, iosMaxDrv = 0,
     iosDefaultPath = [], iosSemFull = False, iosFreed = [], ioserrno = 0, iosLibInstalled = False\<rparr>"

definition ios_demo_env :: ios_env where
  "ios_demo_env = \<lparr>ie_std = (\<lambda>fd s. 0), ie_driver = (\<lambda>f c s. (0, s)), ie_newHook = None, ie_freeHook = None\<rparr>"

definition ios_demo :: "int \<Rightarrow> ios" where
  "ios_demo max_fd = snd (the (iosLibInit ios_demo_env True True True OK (no_drv\<lparr>dev_close := 9\<rparr>) 50 2 max_fd ''/null'' ios_blank))"

lemma ios_demo_rep:
  assumes "0 \<le> max_fd"
  shows "fd_rep (ios_demo max_fd) (\<lambda>fd. None)" "dev_rep (ios_demo max_fd) [50]" "dev_name (ios_demo max_fd) 50 = ''/null''"
    "dev_closes (ios_demo max_fd) 50" "iosMaxFd (ios_demo max_fd) = max_fd"
    "iosFdTable (ios_demo max_fd) = replicate (nat max_fd) no_fd"
proof -
  have b: "\<not> iosLibInstalled ios_blank" by (simp add: ios_blank_def)
  obtain s where s: "iosLibInit ios_demo_env True True True OK (no_drv\<lparr>dev_close := 9\<rparr>) 50 2 max_fd ''/null'' ios_blank =
      Some (OK, s)" and r: "fd_rep s (\<lambda>fd. None)" "dev_rep s [50]" "dev_name s 50 = ''/null''" "dev_closes s 50"
      "iosMaxFd s = max_fd" "iosFdTable s = replicate (nat max_fd) no_fd"
    using iosLibInit_rep [OF b, of 50 "''/null''" max_fd 2 "no_drv\<lparr>dev_close := 9\<rparr>" ios_demo_env] assms by auto
  have d: "ios_demo max_fd = s" using s by (simp add: ios_demo_def)
  show "fd_rep (ios_demo max_fd) (\<lambda>fd. None)" "dev_rep (ios_demo max_fd) [50]" "dev_name (ios_demo max_fd) 50 = ''/null''"
    "dev_closes (ios_demo max_fd) 50" "iosMaxFd (ios_demo max_fd) = max_fd"
    "iosFdTable (ios_demo max_fd) = replicate (nat max_fd) no_fd"
    unfolding d by (rule r)+
qed

lemma ios_demo_quiet: "quiet_env ios_demo_env (\<lambda>f c. 0)"
  by (simp add: quiet_env_def ios_demo_env_def)

subsection \<open>Properties\<close>

text \<open>C32. The table of open files is a map from descriptors to devices and values, with room for \<open>iosMaxFd - 3\<close>
  files. When no open or close hook is installed, the drivers leave the tables alone, there is memory for the names of
  the files, every file is opened on a device whose driver can close, and only descriptors from 3 to \<open>iosMaxFd - 1\<close> are
  closed (\<open>ios_full_table\<close> shows what happens at \<open>iosMaxFd\<close>): any sequence of \<open>iosFdNew\<close> and \<open>iosClose\<close> returns
  what the map gives,
  the lowest free descriptor or \<open>ERROR\<close> when there is none, and what the driver's close method returns or
  \<open>ERROR\<close> for a descriptor of this range that is not open; and \<open>iosFdValue\<close> and \<open>iosFdDevFind\<close> then read the map in
  this range.\<close>

theorem ios_open_files:
  assumes "fd_rep s A" and "quiet_env E r" and "\<forall>op \<in> set ops. fd_op_ok s op"
  shows "\<exists>s'. run_fd E ops s = Some (fst (abs_fd (iosMaxFd s) (close_result r s) ops A), s') \<and>
    (\<forall>fd. 3 \<le> fd \<and> fd < iosMaxFd s \<longrightarrow>
      (case snd (abs_fd (iosMaxFd s) (close_result r s) ops A) fd of
         None \<Rightarrow> iosFdValue E fd s' = (0, iosErrnoSet S_iosLib_INVALID_FILE_DESCRIPTOR s') \<and> fst (iosFdDevFind E fd s') = NULL
       | Some (d, v) \<Rightarrow> iosFdValue E fd s' = (v, s') \<and> iosFdDevFind E fd s' = (d, s')))"
proof -
  from run_fd_rep [OF assms(2,1,3)] obtain s' where
    s': "run_fd E ops s = Some (fst (abs_fd (iosMaxFd s) (close_result r s) ops A), s')"
    "fd_rep s' (snd (abs_fd (iosMaxFd s) (close_result r s) ops A))" "iosMaxFd s' = iosMaxFd s"
    by (auto simp: same_devs_def)
  show ?thesis
    using s'(1) fd_rep_value [OF s'(2)] s'(3) by (intro exI [of _ s']) (auto split: option.split)
qed

theorem ios_open_files_witness:
  "\<exists>s'. run_fd ios_demo_env [FdNew 50 None 7, FdNew 50 None 8, FdNew 50 None 9, FdClose 3, FdNew 50 (Some ''/null'') 10]
      (ios_demo 5) = Some ([3, 4, ERROR, 0, 3], s') \<and> iosFdValue ios_demo_env 3 s' = (10, s')"
proof -
  let ?ops = "[FdNew 50 None 7, FdNew 50 None 8, FdNew 50 None 9, FdClose 3, FdNew 50 (Some ''/null'') 10]"
  note d = ios_demo_rep [of 5, simplified]
  have c: "close_result (\<lambda>f c. 0) (ios_demo 5) 50 v = 0" for v
    using d(4) by (auto simp: close_result_def dev_closes_def split: option.splits)
  have "\<forall>op \<in> set ?ops. fd_op_ok (ios_demo 5) op" using d(4,5) by (simp add: fd_op_ok_def)
  from ios_open_files [OF d(1) ios_demo_quiet this] show ?thesis
    by (fastforce simp: d(5) c abs_new_def abs_close_def upto.simps dest: spec [of _ 3])
qed

text \<open>C33. Looking a device up: \<open>iosDevFind\<close> returns, of the devices whose name is not empty, the one with the longest
  name that begins the name given,
  the one added first if there are several, and the rest of the name; without one it returns the device of the
  default path and the whole name, or \<open>NULL\<close> and an errno. \<open>iosDevAdd\<close> of a device that is not in the list refuses
  exactly the names that are taken and not empty; an empty name it accepts however often it is taken. It returns
  \<open>ERROR\<close> when there is no memory for the name, and otherwise the device comes last.\<close>

theorem ios_device_lookup:
  assumes "dev_rep s ds"
  shows "iosDevFind name s =
      Some (case longest_prefix (dev_name s) name ds of
          Some d \<Rightarrow> (d, drop (length (dev_name s d)) name, s)
        | None \<Rightarrow> (case longest_prefix (dev_name s) (iosDefaultPath s) ds of
            Some d \<Rightarrow> (d, name, s) | None \<Rightarrow> (NULL, name, iosErrnoSet S_iosLib_DEVICE_NOT_FOUND s)))
    \<and> (d \<noteq> NULL \<and> d \<notin> set ds \<longrightarrow>
        (if nm \<noteq> [] \<and> nm \<in> dev_name s ` set ds
         then iosDevAdd alloc d nm drv s = Some (ERROR, iosErrnoSet S_iosLib_DUPLICATE_DEVICE_NAME s)
         else if \<not> alloc then iosDevAdd alloc d nm drv s = Some (ERROR, s)
         else \<exists>s'. iosDevAdd alloc d nm drv s = Some (OK, s') \<and> dev_rep s' (ds @ [d]) \<and>
           iosDevs s' = (iosDevs s)(d := \<lparr>dhName = nm, dhDrv = drv\<rparr>)))"
proof
  have nz: "NULL \<notin> set ds" using assms dll_rep_NULL by (auto simp: dev_rep_def)
  have found: "d \<noteq> NULL" if "longest_prefix (dev_name s) n ds = Some d" for n d
  proof (cases rule: longest_prefix_cases [of "dev_name s" n ds])
    case (2 x)
    with that nz show ?thesis by (metis option.inject)
  qed (use that in simp)
  show "iosDevFind name s =
      Some (case longest_prefix (dev_name s) name ds of
          Some d \<Rightarrow> (d, drop (length (dev_name s d)) name, s)
        | None \<Rightarrow> (case longest_prefix (dev_name s) (iosDefaultPath s) ds of
            Some d \<Rightarrow> (d, name, s) | None \<Rightarrow> (NULL, name, iosErrnoSet S_iosLib_DEVICE_NOT_FOUND s)))"
    using found by (auto simp: iosDevFind_def iosDevMatch_rep [OF assms] split: option.split)
  show "d \<noteq> NULL \<and> d \<notin> set ds \<longrightarrow>
        (if nm \<noteq> [] \<and> nm \<in> dev_name s ` set ds
         then iosDevAdd alloc d nm drv s = Some (ERROR, iosErrnoSet S_iosLib_DUPLICATE_DEVICE_NAME s)
         else if \<not> alloc then iosDevAdd alloc d nm drv s = Some (ERROR, s)
         else \<exists>s'. iosDevAdd alloc d nm drv s = Some (OK, s') \<and> dev_rep s' (ds @ [d]) \<and>
           iosDevs s' = (iosDevs s)(d := \<lparr>dhName = nm, dhDrv = drv\<rparr>))"
    using iosDevAdd_rep [OF assms, of d nm alloc drv] by (auto split: if_splits)
qed

theorem ios_device_lookup_witness:
  "iosDevFind ''/null/x'' (ios_demo 5) = Some (50, ''/x'', ios_demo 5)"
  using ios_device_lookup [OF ios_demo_rep(2) [of 5, simplified], of "''/null/x''" 60 "''/a''" True 0] ios_demo_rep(3) [of 5]
  by (simp add: longest_prefix_def)

text \<open>C34. The first open too many: \<open>iosFdNew\<close> returns \<open>ERROR\<close>, but it has marked the first of the three entries no
  descriptor is given for as used, without a device. Closing the descriptor of that entry follows a null
  pointer, and so does \<open>iosDrvRemove\<close> of any driver that has no file open.\<close>

theorem ios_full_table:
  assumes "fd_rep s A" and "\<forall>fd. 3 \<le> fd \<and> fd < iosMaxFd s \<longrightarrow> A fd \<noteq> None" and "3 \<le> iosMaxFd s"
    and "\<not> fdUsed (iosFdTable s ! nat (iosMaxFd s - 3))" and "fdDev (iosFdTable s ! nat (iosMaxFd s - 3)) = NULL"
    and "\<forall>fd d v. A fd = Some (d, v) \<longrightarrow> dhDrv (iosDevs s d) \<noteq> drv"
  shows "\<exists>s'. iosFdNew E alloc d nm v s = Some (ERROR, s') \<and> ioserrno s' = S_iosLib_TO_MANY_OPEN_FILES \<and>
    iosClose E (iosMaxFd s) s' = None \<and> iosDrvRemove E drv force s' = None"
proof -
  let ?i = "nat (iosMaxFd s - 3)"
  let ?s = "iosErrnoSet S_iosLib_TO_MANY_OPEN_FILES (iosUnlock (upd_fd ?i
    (\<lambda>e. e\<lparr>fdUsed := True, fdObsolete := False, fdName := None\<rparr>) (s\<lparr>iosSemFull := False\<rparr>)))"
  have new: "iosFdNew E alloc d nm v s = Some (ERROR, ?s)"
    by (rule full_table_marked [OF assms(1-4)])
  have il: "?i < length (iosFdTable s)" using assms(1,3) by (simp add: fd_rep_def)
  have fields: "iosFdTable ?s = (iosFdTable s)[?i := (iosFdTable s ! ?i)\<lparr>fdUsed := True, fdObsolete := False, fdName := None\<rparr>]"
    "iosMaxFd ?s = iosMaxFd s" "iosDevs ?s = iosDevs s" "iosSemFull ?s"
    by (simp_all add: iosErrnoSet_def)
  have i: "fdUsed (iosFdTable ?s ! ?i)" "\<not> fdObsolete (iosFdTable ?s ! ?i)" "fdDev (iosFdTable ?s ! ?i) = NULL"
    using il assms(5) by (simp_all add: fields)
  have "iosClose E (iosMaxFd s) ?s = None"
    using assms(3) i by (simp add: iosClose_def STD_MAP_def STD_UNFIX_def FD_CHECK_def fields(2) fd_driver_def)
  moreover have "close_files E drv force c (nat (iosMaxFd s)) 0 (?s\<lparr>iosSemFull := False\<rparr>) = None" for c
  proof (rule close_files_null [of ?i])
    fix x assume x: "x < ?i"
    have "fd_entry_ok s (iosFdTable s ! x) (A (int x + 3))" "A (int x + 3) \<noteq> None"
    proof -
      have r: "3 \<le> int x + 3" "int x + 3 < iosMaxFd s" using x by auto
      have "if 3 \<le> int x + 3 \<and> int x + 3 < iosMaxFd s
          then fd_entry_ok s (iosFdTable s ! nat (int x + 3 - 3)) (A (int x + 3)) else A (int x + 3) = None"
        using assms(1) unfolding fd_rep_def by blast
      with r show "fd_entry_ok s (iosFdTable s ! x) (A (int x + 3))" by simp
      from assms(2) r show "A (int x + 3) \<noteq> None" by blast
    qed
    then obtain d' v' where a: "A (int x + 3) = Some (d', v')" "fdDev (iosFdTable s ! x) = d'" "d' \<noteq> NULL"
      by (auto simp: fd_entry_ok_def dev_closes_def)
    then have "dhDrv (iosDevs s d') \<noteq> drv" using assms(6) by blast
    with a x show "fdDev (iosFdTable (?s\<lparr>iosSemFull := False\<rparr>) ! (0 + x)) \<noteq> NULL \<and>
        dhDrv (iosDevs (?s\<lparr>iosSemFull := False\<rparr>) (fdDev (iosFdTable (?s\<lparr>iosSemFull := False\<rparr>) ! (0 + x)))) \<noteq> drv"
      by (simp add: fields)
  qed (use assms(3) i in \<open>simp_all add: fields\<close>)
  then have "iosDrvRemove E drv force ?s = None"
    using fields(2,4) by (simp add: iosDrvRemove_def split: Option.bind_split)
  ultimately show ?thesis using new by (intro exI [of _ ?s]) (simp add: iosErrnoSet_def)
qed

theorem ios_full_table_witness:
  "\<exists>s'. iosFdNew ios_demo_env True 50 None 7 (ios_demo 3) = Some (ERROR, s') \<and>
    iosClose ios_demo_env 3 s' = None \<and> iosDrvRemove ios_demo_env 1 True s' = None"
  using ios_full_table [OF ios_demo_rep(1) [of 3, simplified], of 1 ios_demo_env True 50 None 7 True]
    ios_demo_rep(5,6) [of 3] by auto

end
