(* ===== verification/PathProps.thy ===== *)
theory PathProps
  imports PathLib IosProps
begin

text \<open>
  What condensing a path does, against the usual reading of a path as a list of names, and the paths it writes
  beyond its arrays for.
\<close>

subsection \<open>The reference\<close>

primrec split_seps :: "string \<Rightarrow> string list" where
  "split_seps [] = [[]]"
| "split_seps (c # cs) =
     (if is_sep c then [] # split_seps cs else (c # hd (split_seps cs)) # tl (split_seps cs))"

definition components :: "string \<Rightarrow> string list" where
  "components p = filter (\<lambda>n. n \<noteq> []) (split_seps p)"

definition resolve_step :: "string list \<Rightarrow> string \<Rightarrow> string list" where
  "resolve_step st n = (if n = ''.'' then st else if n = ''..'' then butlast st else st @ [n])"

definition resolve :: "string list \<Rightarrow> string list" where
  "resolve ns = foldl resolve_step [] ns"

fun join_names :: "string list \<Rightarrow> string" where
  "join_names [] = []"
| "join_names [n] = n"
| "join_names (n # ns) = n @ ''/'' @ join_names ns"

definition lead :: "string \<Rightarrow> string" where
  "lead p = (if p \<noteq> [] \<and> is_sep (hd p) then [hd p] else [])"

definition canonical :: "string \<Rightarrow> string" where
  "canonical p = lead p @ join_names (resolve (components p))"

subsection \<open>Parsing\<close>

lemma split_seps_not_Nil [simp]: "split_seps p \<noteq> []"
  by (cases p) auto

lemma split_seps_first:
  "split_seps p = takeWhile (\<lambda>c. \<not> is_sep c) p #
    (if dropWhile (\<lambda>c. \<not> is_sep c) p = [] then [] else split_seps (tl (dropWhile (\<lambda>c. \<not> is_sep c) p)))"
  by (induction p) auto

lemma components_Nil [simp]: "components [] = []"
  by (simp add: components_def)

lemma components_step:
  "components p = (let nm = takeWhile (\<lambda>c. \<not> is_sep c) p; r = dropWhile (\<lambda>c. \<not> is_sep c) p
    in (if nm = [] then [] else [nm]) @ (if r = [] then [] else components (tl r)))"
  unfolding components_def by (subst split_seps_first) (simp add: Let_def)

lemma parse_loop_components: "parse_loop p = components p"
proof (induction p rule: parse_loop.induct)
  case (1 p)
  show ?case
  proof (cases "p = []")
    case False
    let ?nm = "takeWhile (\<lambda>c. \<not> is_sep c) p" and ?r = "dropWhile (\<lambda>c. \<not> is_sep c) p"
    show ?thesis
    proof (cases "?nm = []")
      case True
      then have "?r = p" by (metis append_Nil takeWhile_dropWhile_id)
      with True False 1(1) [OF False refl refl] show ?thesis
        by (subst parse_loop.simps, subst components_step) (simp add: Let_def)
    next
      case nm: False
      have "parse_loop (if ?r \<noteq> [] then tl ?r else ?r) = components (if ?r \<noteq> [] then tl ?r else ?r)"
        by (rule 1(2) [OF False refl refl nm])
      then have "parse_loop p = ?nm # components (if ?r \<noteq> [] then tl ?r else ?r)"
        using nm False by (subst parse_loop.simps) (simp only: Let_def if_False)
      also have "\<dots> = components p"
      proof (cases ?r)
        case Nil
        then show ?thesis unfolding components_step [of p] Let_def Nil using nm by simp
      next
        case (Cons c q)
        then show ?thesis unfolding components_step [of p] Let_def Cons using nm by simp
      qed
      finally show ?thesis .
    qed
  qed (simp add: parse_loop.simps)
qed

lemma components_names: "n \<in> set (components p) \<Longrightarrow> n \<noteq> [] \<and> (\<forall>c \<in> set n. \<not> is_sep c)"
proof -
  have "\<forall>n \<in> set (split_seps p). \<forall>c \<in> set n. \<not> is_sep c"
  proof (induction p)
    case (Cons c p)
    have "hd (split_seps p) \<in> set (split_seps p)" "set (tl (split_seps p)) \<subseteq> set (split_seps p)"
      by (simp_all add: list.set_sel(2) subset_iff)
    with Cons show ?case by (auto split: if_splits)
  qed simp
  then show "n \<in> set (components p) \<Longrightarrow> n \<noteq> [] \<and> (\<forall>c \<in> set n. \<not> is_sep c)" by (auto simp: components_def)
qed

lemma components_length: "sum_list (map (\<lambda>n. length n + 1) (components p)) \<le> length p + 1"
proof -
  have "sum_list (map (\<lambda>n. length n + 1) (split_seps p)) = length p + 1"
  proof (induction p)
    case (Cons c p)
    then show ?case by (cases "split_seps p") auto
  qed simp
  moreover have "sum_list (map f (filter P xs)) \<le> sum_list (map f xs)" for f :: "string \<Rightarrow> nat" and P xs
    by (induction xs) auto
  ultimately show ?thesis unfolding components_def by metis
qed

lemma components_lead_length:
  "length (lead p) + sum_list (map (\<lambda>n. length n + 1) (components p)) \<le> length p + 1"
proof (cases "p \<noteq> [] \<and> is_sep (hd p)")
  case True
  then obtain c q where "p = c # q" "is_sep c" by (cases p) auto
  with components_length [of q] show ?thesis by (simp add: components_def lead_def)
next
  case False
  with components_length [of p] show ?thesis by (auto simp: lead_def)
qed

subsection \<open>Reducing\<close>

lemma blank_prev_filter:
  "filter (\<lambda>n. n \<noteq> []) (rev (blank_prev prev)) = butlast (filter (\<lambda>n. n \<noteq> []) (rev prev))"
  by (induction prev) (auto simp: butlast_append)

lemma reduce_loop_resolve:
  "[] \<notin> set ns \<Longrightarrow>
    filter (\<lambda>n. n \<noteq> []) (reduce_loop prev ns) = foldl resolve_step (filter (\<lambda>n. n \<noteq> []) (rev prev)) ns"
  by (induction ns arbitrary: prev) (auto simp: resolve_step_def blank_prev_filter)

lemma reduce_resolve: "[] \<notin> set ns \<Longrightarrow> filter (\<lambda>n. n \<noteq> []) (pathArrayReduce ns) = resolve ns"
  by (simp add: pathArrayReduce_def resolve_def reduce_loop_resolve)

lemma resolve_names: "set (resolve ns) \<subseteq> set ns - {''.'', ''..''}"
proof -
  have "set (foldl resolve_step st ns) \<subseteq> set st \<union> (set ns - {''.'', ''..''})" for st
  proof (induction ns arbitrary: st)
    case (Cons n ns)
    have "set (resolve_step st n) \<subseteq> set st \<union> ({n} - {''.'', ''..''})"
      by (auto simp: resolve_step_def dest: in_set_butlastD)
    with Cons [of "resolve_step st n"] show ?case by auto
  qed simp
  from this [of "[]"] show ?thesis by (simp add: resolve_def)
qed

lemma resolve_plain: "''.'' \<notin> set ns \<Longrightarrow> ''..'' \<notin> set ns \<Longrightarrow> resolve ns = ns"
proof -
  have "''.'' \<notin> set ns \<Longrightarrow> ''..'' \<notin> set ns \<Longrightarrow> foldl resolve_step st ns = st @ ns" for st
    by (induction ns arbitrary: st) (auto simp: resolve_step_def)
  from this [of "[]"] show "''.'' \<notin> set ns \<Longrightarrow> ''..'' \<notin> set ns \<Longrightarrow> resolve ns = ns" by (simp add: resolve_def)
qed

lemma resolve_idem: "resolve (resolve ns) = resolve ns"
  using resolve_names [of ns] by (intro resolve_plain) auto

lemma resolve_sum:
  "sum_list (map (f :: string \<Rightarrow> nat) (resolve ns)) \<le> sum_list (map f ns)"
proof -
  have b: "sum_list (map f (butlast xs)) \<le> sum_list (map f xs)" for xs
    by (cases xs rule: rev_cases) auto
  have "sum_list (map f (foldl resolve_step st ns)) \<le> sum_list (map f st) + sum_list (map f ns)" for st
  proof (induction ns arbitrary: st)
    case (Cons n ns)
    have "sum_list (map f (resolve_step st n)) \<le> sum_list (map f st) + f n"
      using b [of st] by (auto simp: resolve_step_def)
    with Cons [of "resolve_step st n"] show ?case by simp
  qed simp
  from this [of "[]"] show ?thesis by (simp add: resolve_def)
qed

subsection \<open>Building\<close>

abbreviation (input) names_size :: "string list \<Rightarrow> nat" where
  "names_size ns \<equiv> sum_list (map (\<lambda>n. length n + 1) ns)"

lemma build_loop_ok:
  assumes "length result + names_size (filter (\<lambda>n. n \<noteq> []) ns) < PATH_MAX"
  shows "build_loop PATH_MAX ns result (length result) e =
    Some (OK, result @ concat (map (\<lambda>n. n @ ''/'') (filter (\<lambda>n. n \<noteq> []) ns)), e \<or> filter (\<lambda>n. n \<noteq> []) ns \<noteq> [])"
  using assms
proof (induction ns arbitrary: result e)
  case (Cons n ns)
  show ?case
  proof (cases "n = []")
    case True
    with Cons show ?thesis by simp
  next
    case False
    have "build_loop PATH_MAX ns (result @ n @ ''/'') (length (result @ n @ ''/'')) True =
        Some (OK, (result @ n @ ''/'') @ concat (map (\<lambda>n. n @ ''/'') (filter (\<lambda>n. n \<noteq> []) ns)),
          True \<or> filter (\<lambda>n. n \<noteq> []) ns \<noteq> [])"
      by (rule Cons.IH) (use Cons.prems False in simp)
    with False Cons.prems show ?thesis by (simp add: str_fits_def Let_def)
  qed
qed simp

lemma build_loop_over:
  assumes "length result + names_size (filter (\<lambda>n. n \<noteq> []) ns) = PATH_MAX" and "length result < PATH_MAX"
  shows "build_loop PATH_MAX ns result (length result) e = None"
  using assms
proof (induction ns arbitrary: result e)
  case (Cons n ns)
  show ?case
  proof (cases "n = []")
    case True
    with Cons show ?thesis by simp
  next
    case False
    let ?r = "result @ n @ ''/''"
    show ?thesis
    proof (cases "length ?r < PATH_MAX")
      case True
      have "build_loop PATH_MAX ns ?r (length ?r) True = None"
        by (rule Cons.IH) (use Cons.prems False True in simp_all)
      with False True show ?thesis by (simp add: str_fits_def Let_def)
    next
      case long: False
      with False Cons.prems show ?thesis by (simp add: str_fits_def Let_def)
    qed
  qed
qed simp

lemma butlast_names: "cs \<noteq> [] \<Longrightarrow> butlast (r @ concat (map (\<lambda>n. n @ ''/'') cs)) = r @ join_names cs"
proof (induction cs arbitrary: r rule: join_names.induct)
  case (3 n m ns)
  from 3(1) [of "r @ n @ ''/''"] show ?case by simp
qed (simp_all add: butlast_append)

lemma join_names_length: "length (join_names ns) = names_size ns - 1"
  by (induction ns rule: join_names.induct) auto

lemma lead_facts: "length (lead p) \<le> 1" "lead p = [] \<or> is_sep (last (lead p))"
  by (auto simp: lead_def)

lemma pathBuild_ok:
  assumes "length (lead p) + names_size (filter (\<lambda>n. n \<noteq> []) ns) < PATH_MAX"
  shows "pathBuild PATH_MAX ns (lead p) = Some (OK, lead p @ join_names (filter (\<lambda>n. n \<noteq> []) ns))"
proof -
  have l: "length (lead p) < PATH_MAX" "\<not> (length (lead p) > 0 \<and> \<not> is_sep (last (lead p)))"
    using lead_facts [of p] by (auto simp: PATH_MAX_def)
  then show ?thesis
    using build_loop_ok [OF assms, of False] butlast_names [of "filter (\<lambda>n. n \<noteq> []) ns" "lead p"]
    by (cases "filter (\<lambda>n. n \<noteq> []) ns = []") (auto simp: pathBuild_def Let_def)
qed

lemma pathBuild_over:
  assumes "length (lead p) + names_size (filter (\<lambda>n. n \<noteq> []) ns) = PATH_MAX"
  shows "pathBuild PATH_MAX ns (lead p) = None"
proof -
  have l: "length (lead p) < PATH_MAX" "\<not> (length (lead p) > 0 \<and> \<not> is_sep (last (lead p)))"
    using lead_facts [of p] by (auto simp: PATH_MAX_def)
  then show ?thesis using build_loop_over [OF assms l(1), of False] by (auto simp: pathBuild_def Let_def)
qed

lemma pathParse_ok:
  assumes "length (components p) < 10" and "names_size (components p) \<le> PATH_MAX"
  shows "\<exists>ns. pathParse p = Some ns \<and> [] \<notin> set ns \<and> resolve ns = resolve (components p) \<and>
    filter (\<lambda>n. n \<noteq> []) (pathArrayReduce ns) = resolve (components p)"
proof (cases "components p = []")
  case True
  have "resolve [''.''] = resolve (components p)" unfolding True by (simp add: resolve_def resolve_step_def)
  moreover have "pathParse p = Some [''.'']"
    using True by (simp add: pathParse_def parse_loop_components PATH_MAX_def)
  ultimately show ?thesis using reduce_resolve [of "[''.'']"] by (intro exI [of _ "[''.'']"]) simp
next
  case False
  have "[] \<notin> set (components p)" using components_names [of "[]" p] by blast
  moreover have "pathParse p = Some (components p)"
    using assms False by (simp add: pathParse_def parse_loop_components Let_def)
  ultimately show ?thesis using reduce_resolve by (intro exI [of _ "components p"]) simp
qed

lemma pathCondense_eq:
  assumes "iosDevFind path s = Some (d, tail, s')" and "pathParse tail = Some ns"
  shows "pathCondense path s = do {
    (st, new) \<leftarrow> pathBuild PATH_MAX (pathArrayReduce ns) (lead tail);
    Some (take (length path - length tail) path @ new, s') }"
  using assms by (simp add: pathCondense_def lead_def)

subsection \<open>Condensing twice\<close>

lemma components_join:
  assumes "\<forall>n \<in> set cs. n \<noteq> [] \<and> (\<forall>c \<in> set n. \<not> is_sep c)" and "cs \<noteq> []"
  shows "split_seps (join_names cs) = cs"
  using assms
proof (induction cs rule: join_names.induct)
  case (2 n)
  then have "takeWhile (\<lambda>c. \<not> is_sep c) n = n" "dropWhile (\<lambda>c. \<not> is_sep c) n = []"
    by (simp_all add: takeWhile_eq_all_conv)
  then show ?case by (subst split_seps_first) simp
next
  case (3 n m ns)
  have "is_sep CHR ''/''" by (simp add: is_sep_def)
  then have "takeWhile (\<lambda>c. \<not> is_sep c) (n @ ''/'' @ join_names (m # ns)) = n"
    "dropWhile (\<lambda>c. \<not> is_sep c) (n @ ''/'' @ join_names (m # ns)) = ''/'' @ join_names (m # ns)"
    using 3(2) by (simp_all add: takeWhile_append dropWhile_append takeWhile_eq_all_conv)
  then show ?case using 3 by (subst split_seps_first) simp
qed simp

lemma canonical_components: "components (canonical p) = resolve (components p)"
proof -
  let ?cs = "resolve (components p)"
  have cs: "\<forall>n \<in> set ?cs. n \<noteq> [] \<and> (\<forall>c \<in> set n. \<not> is_sep c)"
    using resolve_names [of "components p"] components_names [of _ p] by blast
  have j: "components (join_names ?cs) = ?cs"
  proof (cases "?cs = []")
    case False
    have "filter (\<lambda>n. n \<noteq> []) ?cs = ?cs" using cs by (simp add: filter_id_conv)
    with components_join [OF cs False] show ?thesis by (simp add: components_def)
  qed simp
  show ?thesis
  proof (cases "lead p = []")
    case False
    then obtain c where "lead p = [c]" "is_sep c" by (auto simp: lead_def split: if_splits)
    then have "components (canonical p) = components (join_names ?cs)"
      by (simp add: canonical_def components_def)
    with j show ?thesis by simp
  qed (simp add: canonical_def j)
qed

lemma canonical_lead: "lead (canonical p) = lead p"
proof (cases "lead p = []")
  case True
  let ?cs = "resolve (components p)"
  have cs: "\<forall>n \<in> set ?cs. n \<noteq> [] \<and> (\<forall>c \<in> set n. \<not> is_sep c)"
    using resolve_names [of "components p"] components_names [of _ p] by blast
  have "\<not> is_sep (hd (join_names ?cs))" if "join_names ?cs \<noteq> []"
  proof (cases ?cs rule: join_names.cases)
    case (2 n)
    with cs show ?thesis by (auto simp: hd_in_set)
  next
    case (3 n m ns)
    with cs show ?thesis by (auto simp: hd_append hd_in_set)
  qed (use that in simp)
  with True show ?thesis by (auto simp: canonical_def lead_def)
next
  case False
  then show ?thesis by (auto simp: canonical_def lead_def split: if_splits)
qed

lemma canonical_idem: "canonical (canonical p) = canonical p"
  unfolding canonical_def [of "canonical p"] canonical_components canonical_lead resolve_idem
  by (simp add: canonical_def)

subsection \<open>Properties\<close>

lemma demo_find:
  "iosDevFind (''/null'' @ t) (ios_demo 5) = Some (50, t, ios_demo 5)"
proof -
  note d = ios_demo_rep [of 5, simplified]
  have "longest_prefix (dev_name (ios_demo 5)) (''/null'' @ t) [50] = Some 50"
    by (simp add: longest_prefix_def d(3))
  then show ?thesis using iosDevMatch_rep [OF d(2), of "''/null'' @ t"] d(3)
    by (simp add: iosDevFind_def)
qed

lemma pathCondense_canonical:
  assumes "iosDevFind path s = Some (d, rest, s')" and "length (components rest) < 10"
    and "length rest + 1 < PATH_MAX"
  shows "pathCondense path s = Some (take (length path - length rest) path @ canonical rest, s')"
    and "length (canonical rest) \<le> length rest"
proof -
  have l: "length (lead rest) + names_size (components rest) \<le> length rest + 1" by (rule components_lead_length)
  obtain ns where ns: "pathParse rest = Some ns"
      "filter (\<lambda>n. n \<noteq> []) (pathArrayReduce ns) = resolve (components rest)"
    using pathParse_ok [OF assms(2)] l assms(3) by auto
  have r: "names_size (resolve (components rest)) \<le> names_size (components rest)" by (rule resolve_sum)
  have "pathBuild PATH_MAX (pathArrayReduce ns) (lead rest) = Some (OK, canonical rest)"
    using pathBuild_ok [of rest "pathArrayReduce ns"] ns(2) l r assms(3) by (simp add: canonical_def)
  then show "pathCondense path s = Some (take (length path - length rest) path @ canonical rest, s')"
    using pathCondense_eq [OF assms(1) ns(1)] by simp
  show "length (canonical rest) \<le> length rest"
    using l r join_names_length [of "resolve (components rest)"]
    by (cases "resolve (components rest)") (auto simp: canonical_def lead_def Suc_le_eq split: if_splits)
qed

lemma canonical_count: "length (components (canonical p)) \<le> length (components p)"
  using resolve_sum [of "\<lambda>_. 1" "components p"] by (simp add: canonical_components sum_list_triv)

text \<open>C35. Condensing a path leaves the device's name and replaces the rest by its canonical form: the leading
  separator if there was one, then the names with every \<open>.\<close> gone and every \<open>..\<close> taken away with the name before
  it, joined by single slashes. This holds for every rest with fewer than ten names that is shorter than
  \<open>PATH_MAX - 1\<close>. The result is never longer than the path was, and condensing it again changes nothing as long as
  the device found in it leaves the same rest (with devices \<open>/n\<close> and \<open>/n/x\<close>, the result for \<open>/n/./x..\<close> is
  \<open>/n/x..\<close>, whose rest is another one).\<close>

theorem path_condense_canonical:
  assumes "iosDevFind path s = Some (d, rest, s')" and "length (components rest) < 10"
    and "length rest + 1 < PATH_MAX"
  shows "\<exists>result. pathCondense path s = Some (result, s')
    \<and> result = take (length path - length rest) path @ canonical rest
    \<and> length (canonical rest) \<le> length rest
    \<and> set (components (canonical rest)) \<subseteq> set (components rest) - {''.'', ''..''}
    \<and> (\<forall>d' s''. iosDevFind result s' = Some (d', canonical rest, s'') \<longrightarrow> pathCondense result s' = Some (result, s''))"
proof -
  note c = pathCondense_canonical [OF assms]
  let ?r = "take (length path - length rest) path @ canonical rest"
  have few: "length (components (canonical rest)) < 10" using canonical_count [of rest] assms(2) by linarith
  have short: "length (canonical rest) + 1 < PATH_MAX" using c(2) assms(3) by linarith
  have "pathCondense ?r s' = Some (?r, s'')" if "iosDevFind ?r s' = Some (d', canonical rest, s'')" for d' s''
    using pathCondense_canonical(1) [OF that few short] by (simp add: canonical_idem)
  then show ?thesis using c resolve_names canonical_components by simp
qed

theorem path_condense_canonical_witness:
  "pathCondense ''/null/a/./b/../c'' (ios_demo 5) = Some (''/null/a/c'', ios_demo 5)"
proof -
  have "iosDevFind ''/null/a/./b/../c'' (ios_demo 5) = Some (50, ''/a/./b/../c'', ios_demo 5)"
    using demo_find [of "''/a/./b/../c''"] by simp
  moreover have "length (components ''/a/./b/../c'') < 10" by (simp add: components_def is_sep_def)
  moreover have "length ''/a/./b/../c'' + 1 < PATH_MAX" by (simp add: PATH_MAX_def)
  ultimately have "pathCondense ''/null/a/./b/../c'' (ios_demo 5) = Some (''/null'' @ canonical ''/a/./b/../c'', ios_demo 5)"
    by (rule path_condense_canonical [THEN exE]) simp
  moreover have "canonical ''/a/./b/../c'' = ''/a/c''"
    by (simp add: canonical_def lead_def components_def is_sep_def resolve_def resolve_step_def)
  ultimately show ?thesis by simp
qed

text \<open>C36. The paths that condensing writes beyond its arrays for: one with ten names or more, which need more than the
  ten pointers of \<open>nameArray\<close>, and one without \<open>.\<close> and \<open>..\<close> whose names with their slashes take exactly
  \<open>PATH_MAX\<close> bytes, which the test of \<open>pathBuild\<close> lets through without a byte for the zero.\<close>

theorem path_condense_overflow:
  assumes "iosDevFind path s = Some (d, rest, s')"
    and "length (components rest) \<ge> 10 \<or>
      length (lead rest) + names_size (components rest) = PATH_MAX
      \<and> ''.'' \<notin> set (components rest) \<and> ''..'' \<notin> set (components rest)"
  shows "pathCondense path s = None"
proof (cases "pathParse rest")
  case None
  then show ?thesis using assms(1) by (simp add: pathCondense_def)
next
  case (Some ns)
  then have f: "length (components rest) < 10"
    by (auto simp: pathParse_def parse_loop_components Let_def split: if_splits)
  with assms(2) have e: "length (lead rest) + names_size (components rest) = PATH_MAX"
    "''.'' \<notin> set (components rest)" "''..'' \<notin> set (components rest)" by auto
  then have "names_size (components rest) \<le> PATH_MAX" by linarith
  from pathParse_ok [OF f this] Some e(2,3)
  have "filter (\<lambda>n. n \<noteq> []) (pathArrayReduce ns) = components rest" by (simp add: resolve_plain)
  then have "pathBuild PATH_MAX (pathArrayReduce ns) (lead rest) = None"
    using pathBuild_over [of rest "pathArrayReduce ns"] e(1) by simp
  then show ?thesis using pathCondense_eq [OF assms(1) Some] by simp
qed

theorem path_condense_overflow_witness:
  "pathCondense ''/null/1/2/3/4/5/6/7/8/9/10'' (ios_demo 5) = None"
proof -
  have "iosDevFind ''/null/1/2/3/4/5/6/7/8/9/10'' (ios_demo 5) = Some (50, ''/1/2/3/4/5/6/7/8/9/10'', ios_demo 5)"
    using demo_find [of "''/1/2/3/4/5/6/7/8/9/10''"] by simp
  then show ?thesis
    by (rule path_condense_overflow) (simp add: components_def is_sep_def)
qed

end
