(* ===== verification/TaskHookLib.thy ===== *)
theory TaskHookLib
  imports TaskLib
begin

text \<open>
  Task hooks: \<open>src/os/taskHookLib.c\<close>, and the code of \<open>src/arch/i386/vmxALib.s\<close> that calls the hooks of a task
  switch. A hook is the address of a function, and what a call of one does is the parameter \<open>call\<close>. The tables
  have one entry more than the number of hooks, which stays null. The fields of a task are those of the kernel's
  state, \<open>hkern\<close>; \<open>e\<close> and \<open>n\<close> are the environment and the fuel of the reschedule in \<open>taskUnlock\<close>.
\<close>

definition MAX_TASK_CREATE_HOOKS :: nat where "MAX_TASK_CREATE_HOOKS = 16"
definition MAX_TASK_SWITCH_HOOKS :: nat where "MAX_TASK_SWITCH_HOOKS = 16"
definition MAX_TASK_DELETE_HOOKS :: nat where "MAX_TASK_DELETE_HOOKS = 16"
definition MAX_TASK_SWAP_HOOKS :: nat where "MAX_TASK_SWAP_HOOKS = 16"

lemmas max_hooks =
  MAX_TASK_CREATE_HOOKS_def MAX_TASK_SWITCH_HOOKS_def MAX_TASK_DELETE_HOOKS_def MAX_TASK_SWAP_HOOKS_def

definition S_taskLib_TASK_HOOK_TABLE_FULL :: int where "S_taskLib_TASK_HOOK_TABLE_FULL = 12 * 65536 + 5"
definition S_taskLib_TASK_HOOK_NOT_FOUND :: int where "S_taskLib_TASK_HOOK_NOT_FOUND = 12 * 65536 + 6"
definition S_taskLib_TASK_SWAP_HOOK_REFERENCED :: int where "S_taskLib_TASK_SWAP_HOOK_REFERENCED = 12 * 65536 + 7"
definition S_taskLib_TASK_SWAP_HOOK_SET :: int where "S_taskLib_TASK_SWAP_HOOK_SET = 12 * 65536 + 8"
definition S_taskLib_TASK_SWAP_HOOK_CLEAR :: int where "S_taskLib_TASK_SWAP_HOOK_CLEAR = 12 * 65536 + 9"

record hook_state =
  hkern :: kstate
  taskCreateHooks :: "ptr list"
  taskSwitchHooks :: "ptr list"
  taskDeleteHooks :: "ptr list"
  taskSwapHooks :: "ptr list"
  taskHookLibInstalled :: bool

definition on_kern :: "(kstate \<Rightarrow> kstate) \<Rightarrow> 'a hook_state_scheme \<Rightarrow> 'a hook_state_scheme" where
  "on_kern f S = S\<lparr>hkern := f (hkern S)\<rparr>"

definition hook_lock :: "'a hook_state_scheme \<Rightarrow> 'a hook_state_scheme" where
  "hook_lock = on_kern (\<lambda>k. snd (taskLock k))"

definition hook_unlock :: "kenv \<Rightarrow> nat \<Rightarrow> 'a hook_state_scheme \<Rightarrow> 'a hook_state_scheme option" where
  "hook_unlock e n S = do { (st, k) \<leftarrow> taskUnlock e n (hkern S); Some (S\<lparr>hkern := k\<rparr>) }"

definition hook_errno :: "int \<Rightarrow> 'a hook_state_scheme \<Rightarrow> 'a hook_state_scheme" where
  "hook_errno v = on_kern (errnoSet v)"

definition hook_tcb :: "ptr \<Rightarrow> 'a hook_state_scheme \<Rightarrow> ptr \<times> 'a hook_state_scheme" where
  "hook_tcb taskId S = (case taskTcb taskId (hkern S) of (t, k) \<Rightarrow> (t, S\<lparr>hkern := k\<rparr>))"

definition upd_reference :: "nat \<Rightarrow> (int \<Rightarrow> int) \<Rightarrow> 'a hook_state_scheme \<Rightarrow> 'a hook_state_scheme" where
  "upd_reference i f =
     on_kern (\<lambda>k. k\<lparr>taskSwapReference := (taskSwapReference k)[i := f (taskSwapReference k ! i)]\<rparr>)"

subsection \<open>The tables\<close>

definition taskHookLibInit :: "'a hook_state_scheme \<Rightarrow> STATUS \<times> 'a hook_state_scheme" where
  "taskHookLibInit S =
     (if taskHookLibInstalled S then (OK, S)
      else
        let S = S\<lparr>taskCreateHooks := replicate MAX_TASK_CREATE_HOOKS NULL @ drop MAX_TASK_CREATE_HOOKS (taskCreateHooks S),
                  taskSwitchHooks := replicate MAX_TASK_SWITCH_HOOKS NULL @ drop MAX_TASK_SWITCH_HOOKS (taskSwitchHooks S),
                  taskDeleteHooks := replicate MAX_TASK_DELETE_HOOKS NULL @ drop MAX_TASK_DELETE_HOOKS (taskDeleteHooks S),
                  taskSwapHooks := replicate MAX_TASK_SWAP_HOOKS NULL @ drop MAX_TASK_SWAP_HOOKS (taskSwapHooks S)\<rparr>;
            S = on_kern (\<lambda>k. k\<lparr>taskSwapReference :=
                  replicate MAX_TASK_SWAP_HOOKS 0 @ drop MAX_TASK_SWAP_HOOKS (taskSwapReference k)\<rparr>) S
        in (OK, S\<lparr>taskHookLibInstalled := True\<rparr>))"

datatype hook_table = CreateHooks | SwitchHooks | DeleteHooks

primrec table_of :: "hook_table \<Rightarrow> 'a hook_state_scheme \<Rightarrow> ptr list" where
  "table_of CreateHooks S = taskCreateHooks S"
| "table_of SwitchHooks S = taskSwitchHooks S"
| "table_of DeleteHooks S = taskDeleteHooks S"

primrec table_set :: "hook_table \<Rightarrow> ptr list \<Rightarrow> 'a hook_state_scheme \<Rightarrow> 'a hook_state_scheme" where
  "table_set CreateHooks t S = S\<lparr>taskCreateHooks := t\<rparr>"
| "table_set SwitchHooks t S = S\<lparr>taskSwitchHooks := t\<rparr>"
| "table_set DeleteHooks t S = S\<lparr>taskDeleteHooks := t\<rparr>"

definition taskHookAdd ::
  "kenv \<Rightarrow> nat \<Rightarrow> ptr \<Rightarrow> hook_table \<Rightarrow> nat \<Rightarrow> 'a hook_state_scheme \<Rightarrow> (STATUS \<times> 'a hook_state_scheme) option" where
  "taskHookAdd e n hook table mx S = do {
     let S = hook_lock S;
     let free = find (\<lambda>i. table_of table S ! i = NULL) [0..<mx];
     let S = (case free of None \<Rightarrow> S | Some i \<Rightarrow> table_set table ((table_of table S)[i := hook]) S);
     S \<leftarrow> hook_unlock e n S;
     Some (if free = None then (ERROR, hook_errno S_taskLib_TASK_HOOK_TABLE_FULL S) else (OK, S))
   }"

text \<open>The loop that moves the hooks up; the index is the same in every round, so that it may not end.\<close>

partial_function (option) move_up :: "nat \<Rightarrow> ptr list \<Rightarrow> ptr list option" where
  "move_up i table =
     (let table = table[i := table ! (i + 1)]
      in if table ! i \<noteq> NULL then move_up i table else Some table)"

definition taskHookDelete ::
  "kenv \<Rightarrow> nat \<Rightarrow> ptr \<Rightarrow> hook_table \<Rightarrow> nat \<Rightarrow> 'a hook_state_scheme \<Rightarrow> (STATUS \<times> 'a hook_state_scheme) option" where
  "taskHookDelete e n hook table mx S = do {
     let S = hook_lock S;
     let found = find (\<lambda>i. table_of table S ! i = hook) [0..<mx];
     S \<leftarrow> (case found of None \<Rightarrow> Some S
       | Some i \<Rightarrow> do { t \<leftarrow> move_up i (table_of table S); Some (table_set table t S) });
     S \<leftarrow> hook_unlock e n S;
     Some (if found = None then (ERROR, hook_errno S_taskLib_TASK_HOOK_NOT_FOUND S) else (OK, S))
   }"

definition taskCreateHookAdd :: "kenv \<Rightarrow> nat \<Rightarrow> ptr \<Rightarrow> 'a hook_state_scheme \<Rightarrow> (STATUS \<times> 'a hook_state_scheme) option" where
  "taskCreateHookAdd e n hook S = taskHookAdd e n hook CreateHooks MAX_TASK_CREATE_HOOKS S"

definition taskCreateHookDelete :: "kenv \<Rightarrow> nat \<Rightarrow> ptr \<Rightarrow> 'a hook_state_scheme \<Rightarrow> (STATUS \<times> 'a hook_state_scheme) option" where
  "taskCreateHookDelete e n hook S = taskHookDelete e n hook CreateHooks MAX_TASK_CREATE_HOOKS S"

definition taskSwitchHookAdd :: "kenv \<Rightarrow> nat \<Rightarrow> ptr \<Rightarrow> 'a hook_state_scheme \<Rightarrow> (STATUS \<times> 'a hook_state_scheme) option" where
  "taskSwitchHookAdd e n hook S = taskHookAdd e n hook SwitchHooks MAX_TASK_SWITCH_HOOKS S"

definition taskSwitchHookDelete :: "kenv \<Rightarrow> nat \<Rightarrow> ptr \<Rightarrow> 'a hook_state_scheme \<Rightarrow> (STATUS \<times> 'a hook_state_scheme) option" where
  "taskSwitchHookDelete e n hook S = taskHookDelete e n hook SwitchHooks MAX_TASK_SWITCH_HOOKS S"

definition taskDeleteHookAdd :: "kenv \<Rightarrow> nat \<Rightarrow> ptr \<Rightarrow> 'a hook_state_scheme \<Rightarrow> (STATUS \<times> 'a hook_state_scheme) option" where
  "taskDeleteHookAdd e n hook S = taskHookAdd e n hook DeleteHooks MAX_TASK_DELETE_HOOKS S"

definition taskDeleteHookDelete :: "kenv \<Rightarrow> nat \<Rightarrow> ptr \<Rightarrow> 'a hook_state_scheme \<Rightarrow> (STATUS \<times> 'a hook_state_scheme) option" where
  "taskDeleteHookDelete e n hook S = taskHookDelete e n hook DeleteHooks MAX_TASK_DELETE_HOOKS S"

subsection \<open>Swap hooks\<close>

definition find_swap :: "ptr \<Rightarrow> 'a hook_state_scheme \<Rightarrow> nat option" where
  "find_swap hook S = find (\<lambda>i. taskSwapHooks S ! i = hook) [0..<MAX_TASK_SWAP_HOOKS]"

definition taskSwapHookAdd :: "kenv \<Rightarrow> nat \<Rightarrow> ptr \<Rightarrow> 'a hook_state_scheme \<Rightarrow> (STATUS \<times> 'a hook_state_scheme) option" where
  "taskSwapHookAdd e n hook S = do {
     let S = hook_lock S;
     let free = find_swap NULL S;
     let S = (case free of None \<Rightarrow> S
       | Some i \<Rightarrow> upd_reference i (\<lambda>r. 0) (S\<lparr>taskSwapHooks := (taskSwapHooks S)[i := hook]\<rparr>));
     S \<leftarrow> hook_unlock e n S;
     Some (if free = None then (ERROR, hook_errno S_taskLib_TASK_HOOK_TABLE_FULL S) else (OK, S))
   }"

definition index_bit :: "nat \<Rightarrow> u16" where
  "index_bit index = push_bit (15 - index) 1"

definition mask_has :: "bool \<Rightarrow> u16 \<Rightarrow> u16 \<Rightarrow> bool" where
  "mask_has swap m b \<longleftrightarrow> swap \<and> m AND b \<noteq> 0"

definition taskSwapMaskSet ::
  "ptr \<Rightarrow> nat \<Rightarrow> bool \<Rightarrow> bool \<Rightarrow> 'a hook_state_scheme \<Rightarrow> STATUS \<times> 'a hook_state_scheme" where
  "taskSwapMaskSet taskId index swapIn swapOut S =
     (case hook_tcb taskId S of (tcbId, S) \<Rightarrow>
        if tcbId = NULL then (ERROR, S)
        else
          let b = index_bit index; c = tcbs (hkern S) tcbId
          in if mask_has swapIn (tSwapInMask c) b \<or> mask_has swapOut (tSwapOutMask c) b
             then (ERROR, hook_errno S_taskLib_TASK_SWAP_HOOK_SET S)
             else (OK, on_kern (upd_tcb tcbId (\<lambda>c. c\<lparr>
               tSwapInMask := (if swapIn then tSwapInMask c OR b else tSwapInMask c),
               tSwapOutMask := (if swapOut then tSwapOutMask c OR b else tSwapOutMask c)\<rparr>)) S))"

definition taskSwapMaskClear ::
  "ptr \<Rightarrow> nat \<Rightarrow> bool \<Rightarrow> bool \<Rightarrow> 'a hook_state_scheme \<Rightarrow> STATUS \<times> 'a hook_state_scheme" where
  "taskSwapMaskClear taskId index swapIn swapOut S =
     (case hook_tcb taskId S of (tcbId, S) \<Rightarrow>
        if tcbId = NULL then (ERROR, S)
        else
          let b = index_bit index; c = tcbs (hkern S) tcbId
          in if mask_has swapIn (tSwapInMask c) b \<or> mask_has swapOut (tSwapOutMask c) b
             then (ERROR, hook_errno S_taskLib_TASK_SWAP_HOOK_CLEAR S)
             else (OK, on_kern (upd_tcb tcbId (\<lambda>c. c\<lparr>
               tSwapInMask := (if swapIn then tSwapInMask c AND NOT b else tSwapInMask c),
               tSwapOutMask := (if swapOut then tSwapOutMask c AND NOT b else tSwapOutMask c)\<rparr>)) S))"

definition swaps :: "bool \<Rightarrow> bool \<Rightarrow> int" where
  "swaps swapIn swapOut = (if swapIn then 1 else 0) + (if swapOut then 1 else 0)"

definition taskSwapHookAttach ::
  "kenv \<Rightarrow> nat \<Rightarrow> ptr \<Rightarrow> ptr \<Rightarrow> bool \<Rightarrow> bool \<Rightarrow> 'a hook_state_scheme \<Rightarrow> (STATUS \<times> 'a hook_state_scheme) option" where
  "taskSwapHookAttach e n hook taskId swapIn swapOut S = do {
     let S = hook_lock S;
     let found = find_swap hook S;
     let (status, S) = (case found of None \<Rightarrow> (ERROR, S)
       | Some i \<Rightarrow> (case taskSwapMaskSet taskId i swapIn swapOut S of (st, S) \<Rightarrow>
           if st \<noteq> OK then (ERROR, S) else (OK, upd_reference i (\<lambda>r. r + swaps swapIn swapOut) S)));
     S \<leftarrow> hook_unlock e n S;
     Some (status, if status \<noteq> OK \<and> found = None then hook_errno S_taskLib_TASK_HOOK_NOT_FOUND S else S)
   }"

definition taskSwapHookDetach ::
  "kenv \<Rightarrow> nat \<Rightarrow> ptr \<Rightarrow> ptr \<Rightarrow> bool \<Rightarrow> bool \<Rightarrow> 'a hook_state_scheme \<Rightarrow> (STATUS \<times> 'a hook_state_scheme) option" where
  "taskSwapHookDetach e n hook taskId swapIn swapOut S = do {
     let S = hook_lock S;
     let found = find_swap hook S;
     let (status, S) = (case found of None \<Rightarrow> (ERROR, S)
       | Some i \<Rightarrow> (case taskSwapMaskClear taskId i swapIn swapOut S of (st, S) \<Rightarrow>
           if st \<noteq> OK then (ERROR, S) else (OK, upd_reference i (\<lambda>r. r - swaps swapIn swapOut) S)));
     S \<leftarrow> hook_unlock e n S;
     Some (status, if status \<noteq> OK \<and> found = None then hook_errno S_taskLib_TASK_HOOK_NOT_FOUND S else S)
   }"

definition taskSwapHookDelete :: "kenv \<Rightarrow> nat \<Rightarrow> ptr \<Rightarrow> 'a hook_state_scheme \<Rightarrow> (STATUS \<times> 'a hook_state_scheme) option" where
  "taskSwapHookDelete e n hook S = do {
     let S = hook_lock S;
     let found = find_swap hook S;
     let (status, S) = (case found of None \<Rightarrow> (ERROR, S)
       | Some i \<Rightarrow>
           if taskSwapReference (hkern S) ! i \<noteq> 0 then (ERROR, hook_errno S_taskLib_TASK_SWAP_HOOK_REFERENCED S)
           else (OK, S\<lparr>taskSwapHooks := (taskSwapHooks S)[i := NULL]\<rparr>));
     S \<leftarrow> hook_unlock e n S;
     Some (status, if status \<noteq> OK \<and> found = None then hook_errno S_taskLib_TASK_HOOK_NOT_FOUND S else S)
   }"

subsection \<open>Calling the hooks\<close>

type_synonym 'a switch_call = "ptr \<Rightarrow> ptr \<Rightarrow> ptr \<Rightarrow> 'a hook_state_scheme \<Rightarrow> 'a hook_state_scheme option"

text \<open>
  The swap hooks: bit 15 of the mask is the first hook. The mask is that of the new task for swapping in and that
  of the old one for swapping out; no hook of the table is tested, a null entry is called.
\<close>

function taskHookSwap ::
  "'a switch_call \<Rightarrow> ptr \<Rightarrow> ptr \<Rightarrow> nat \<Rightarrow> u16 \<Rightarrow> 'a hook_state_scheme \<Rightarrow> 'a hook_state_scheme option" where
  "taskHookSwap call old new i bx S =
     (if bx = 0 then Some S
      else do {
        S \<leftarrow> (if bx AND 0x8000 \<noteq> 0
             then (if taskSwapHooks S ! i = NULL then None else call (taskSwapHooks S ! i) old new S)
             else Some S);
        taskHookSwap call old new (i + 1) (push_bit 1 bx) S
      })"
  by pat_completeness auto

termination
  by (relation "measure (\<lambda>(call, old, new, i, bx, S). bits_left bx)")
    (simp_all add: bits_left_shift [unfolded One_nat_def] del: push_bit_Suc push_bit_of_1)

declare taskHookSwap.simps [simp del]

text \<open>The switch hooks, from the first entry of the table to the first null one.\<close>

primrec switch_loop :: "'a switch_call \<Rightarrow> ptr \<Rightarrow> ptr \<Rightarrow> nat list \<Rightarrow> 'a hook_state_scheme \<Rightarrow> 'a hook_state_scheme option" where
  "switch_loop call old new [] S = None"
| "switch_loop call old new (i # is) S =
     (let f = taskSwitchHooks S ! i
      in if f = NULL then Some S else do { S \<leftarrow> call f old new S; switch_loop call old new is S })"

definition taskHookSwitch :: "'a switch_call \<Rightarrow> ptr \<Rightarrow> ptr \<Rightarrow> 'a hook_state_scheme \<Rightarrow> 'a hook_state_scheme option" where
  "taskHookSwitch call old new S = switch_loop call old new [0..<MAX_TASK_SWITCH_HOOKS + 1] S"

text \<open>
  A task switch with its hooks, as in \<open>switchTasks\<close> of the scheduler's theory: the new task becomes the current
  one, then the swap hooks run if a mask asks for one, then the switch hooks.
\<close>

definition switch_hooks :: "'a switch_call \<Rightarrow> ptr \<Rightarrow> ptr \<Rightarrow> 'a hook_state_scheme \<Rightarrow> 'a hook_state_scheme option" where
  "switch_hooks call old new S = do {
     let S = on_kern (\<lambda>k. k\<lparr>taskIdCurrent := new\<rparr>) S;
     let bx = tSwapInMask (tcbs (hkern S) new) OR tSwapOutMask (tcbs (hkern S) old);
     S \<leftarrow> (if bx \<noteq> 0 then taskHookSwap call old new 0 bx S else Some S);
     taskHookSwitch call old new S
   }"

text \<open>The create and delete hooks, called by \<open>taskInit\<close> and \<open>taskDestroy\<close>: every entry that is not null.\<close>

primrec hooks_loop ::
  "(ptr \<Rightarrow> ptr \<Rightarrow> 'a hook_state_scheme \<Rightarrow> 'a hook_state_scheme option) \<Rightarrow> hook_table \<Rightarrow> ptr \<Rightarrow> nat list
    \<Rightarrow> 'a hook_state_scheme \<Rightarrow> 'a hook_state_scheme option" where
  "hooks_loop call table tcbId [] S = Some S"
| "hooks_loop call table tcbId (i # is) S = do {
     S \<leftarrow> (if table_of table S ! i \<noteq> NULL then call (table_of table S ! i) tcbId S else Some S);
     hooks_loop call table tcbId is S
   }"

definition create_hooks ::
  "(ptr \<Rightarrow> ptr \<Rightarrow> 'a hook_state_scheme \<Rightarrow> 'a hook_state_scheme option) \<Rightarrow> ptr \<Rightarrow> 'a hook_state_scheme
    \<Rightarrow> 'a hook_state_scheme option" where
  "create_hooks call tcbId S = hooks_loop call CreateHooks tcbId [0..<MAX_TASK_CREATE_HOOKS] S"

definition delete_hooks ::
  "(ptr \<Rightarrow> ptr \<Rightarrow> 'a hook_state_scheme \<Rightarrow> 'a hook_state_scheme option) \<Rightarrow> ptr \<Rightarrow> 'a hook_state_scheme
    \<Rightarrow> 'a hook_state_scheme option" where
  "delete_hooks call tcbId S = hooks_loop call DeleteHooks tcbId [0..<MAX_TASK_DELETE_HOOKS] S"

end
