(* ===== verification/TaskHookProps.thy ===== *)
theory TaskHookProps
  imports MsgQProps TaskHookLib
begin

text \<open>
  What the tables of hooks hold, and what becomes of a swap hook that was attached to a task.
\<close>

subsection \<open>The tables of hooks\<close>

definition hooks_in :: "hook_table \<Rightarrow> ptr list \<Rightarrow> 'a hook_state_scheme \<Rightarrow> bool" where
  "hooks_in T hs S \<longleftrightarrow> table_of T S = hs @ replicate (17 - length hs) NULL \<and> NULL \<notin> set hs \<and> length hs \<le> 16"

lemma hooks_nth:
  assumes "hooks_in T hs S" and "i < 17"
  shows "table_of T S ! i = (if i < length hs then hs ! i else NULL)"
  using assms by (auto simp: hooks_in_def nth_append)

lemma hook_locked [simp]: "table_of T (hook_lock S) = table_of T S"
  by (cases T) (simp_all add: hook_lock_def on_kern_def)

lemma hook_unlock_eq:
  assumes "undisturbed e k" and "hkern S = snd (taskLock k)"
  shows "hook_unlock e (Suc n) S = Some (S\<lparr>hkern := k\<rparr>)"
  using lock_unlock [OF assms(1)] assms(2) by (simp add: hook_unlock_def)

lemma unlocked_state: "(hook_lock S)\<lparr>hkern := hkern S\<rparr> = S"
  by (simp add: hook_lock_def on_kern_def)

lemma table_set_kern: "(table_set T t S)\<lparr>hkern := k\<rparr> = table_set T t (S\<lparr>hkern := k\<rparr>)"
  and table_set_hkern: "hkern (table_set T t S) = hkern S"
  and hook_lock_hkern: "hkern (hook_lock S) = snd (taskLock (hkern S))"
  by (cases T; simp add: hook_lock_def on_kern_def)+

lemma taskHookAdd_rep:
  assumes "undisturbed e (hkern S)" and "hooks_in T hs S" and "hook \<noteq> NULL"
  shows "taskHookAdd e (Suc n) hook T 16 S = Some
    (if length hs < 16 then (OK, table_set T ((hs @ [hook]) @ replicate (17 - length (hs @ [hook])) NULL) S)
     else (ERROR, hook_errno S_taskLib_TASK_HOOK_TABLE_FULL S))"
proof (cases "length hs < 16")
  case True
  have nz: "\<not> table_of T S ! j = NULL" if "j < length hs" for j
  proof -
    have "hs ! j \<in> set hs" "NULL \<notin> set hs" using that assms(2) by (auto simp: hooks_in_def)
    then have "hs ! j \<noteq> NULL" by metis
    with hooks_nth [OF assms(2), of j] that True show ?thesis by simp
  qed
  have f: "find (\<lambda>i. table_of T S ! i = NULL) [0..<16] = Some (length hs)"
    by (rule find_first) (use True hooks_nth [OF assms(2), of "length hs"] nz in auto)
  have "replicate (17 - length hs) NULL = NULL # replicate (16 - length hs) NULL"
    using True by (simp add: replicate_Suc [symmetric] Suc_diff_le del: replicate_Suc)
  then have t: "(table_of T S)[length hs := hook] = (hs @ [hook]) @ replicate (17 - length (hs @ [hook])) NULL"
    using assms(2) by (simp add: hooks_in_def)
  have "taskHookAdd e (Suc n) hook T 16 S = Some (OK, table_set T ((table_of T S)[length hs := hook]) S)"
    using f hook_unlock_eq [OF assms(1), of "table_set T ((table_of T S)[length hs := hook]) (hook_lock S)" n]
    by (simp add: taskHookAdd_def Let_def table_set_hkern hook_lock_hkern table_set_kern unlocked_state)
  with True show ?thesis unfolding t by simp
next
  case False
  have nz: "\<not> table_of T S ! j = NULL" if "j < 16" for j
  proof -
    have "hs ! j \<in> set hs" "NULL \<notin> set hs" using that assms(2) False by (auto simp: hooks_in_def)
    then have "hs ! j \<noteq> NULL" by metis
    with hooks_nth [OF assms(2), of j] that False show ?thesis by simp
  qed
  have "find (\<lambda>i. table_of T S ! i = NULL) [0..<16] = None" by (rule find_none) (use nz in auto)
  with False show ?thesis
    using hook_unlock_eq [OF assms(1), of "hook_lock S" n]
    by (simp add: taskHookAdd_def hook_lock_hkern unlocked_state)
qed

lemma move_up_stops:
  "i < length t \<Longrightarrow> t ! (i + 1) = NULL \<Longrightarrow> move_up i t = Some (t[i := NULL])"
  by (subst move_up.simps) (simp add: Let_def)

lemma move_up_ends: 
  assumes "move_up i t = Some t'"
  shows "i < length t \<longrightarrow> t ! (i + 1) = NULL"
proof (rule move_up.raw_induct [where P = "\<lambda>i t t'. i < length t \<longrightarrow> t ! (i + 1) = NULL", OF _ assms])
  fix loop i t t'
  assume ih: "\<And>i t t'. loop i t = Some t' \<Longrightarrow> i < length t \<longrightarrow> t ! (i + 1) = NULL"
    and e: "(let t = t[i := t ! (i + 1)] in if t ! i \<noteq> NULL then loop i t else Some t) = Some t'"
  show "i < length t \<longrightarrow> t ! (i + 1) = NULL"
  proof (cases "i < length t \<and> t ! (i + 1) \<noteq> NULL")
    case True
    then have "loop i (t[i := t ! (i + 1)]) = Some t'" using e by (simp add: Let_def)
    from ih [OF this] show ?thesis by simp
  qed simp
qed

lemma move_up_hangs: "i < length t \<Longrightarrow> t ! (i + 1) \<noteq> NULL \<Longrightarrow> move_up i t = None"
  using move_up_ends by (cases "move_up i t") auto

lemma taskHookDelete_rep:
  assumes "undisturbed e (hkern S)" and "hooks_in T hs S" and "hook \<noteq> NULL"
  shows "taskHookDelete e (Suc n) hook T 16 S =
    (if hook \<notin> set hs then Some (ERROR, hook_errno S_taskLib_TASK_HOOK_NOT_FOUND S)
     else if hook \<notin> set (butlast hs) then Some (OK, table_set T (butlast hs @ replicate (17 - length (butlast hs)) NULL) S)
     else None)"
proof (cases "hook \<in> set hs")
  case False
  have n: "\<not> table_of T S ! j = hook" if "j < 16" for j
    using False hooks_nth [OF assms(2), of j] that assms(3) nth_mem [of j hs] by (cases "j < length hs") auto
  have "find (\<lambda>i. table_of T S ! i = hook) [0..<16] = None" by (rule find_none) (use n in auto)
  with False show ?thesis
    using hook_unlock_eq [OF assms(1), of "hook_lock S" n]
    by (simp add: taskHookDelete_def hook_lock_hkern unlocked_state)
next
  case True
  have len: "length hs \<le> 16" "table_of T S = hs @ replicate (17 - length hs) NULL" "NULL \<notin> set hs"
    using assms(2) by (auto simp: hooks_in_def)
  from True obtain ys zs where s: "hs = ys @ hook # zs" "hook \<notin> set ys" by (meson split_list_first)
  let ?i = "length ys"
  have n: "\<not> table_of T S ! j = hook" if "j < ?i" for j
  proof -
    have "ys ! j \<in> set ys" using that by simp
    with s(2) have "ys ! j \<noteq> hook" by metis
    with that show ?thesis by (simp add: len(2) s(1) nth_append)
  qed
  have i: "?i < length (table_of T S)" and i': "?i < 16" using len(1,2) s(1) by auto
  have f: "find (\<lambda>i. table_of T S ! i = hook) [0..<16] = Some ?i"
    by (rule find_first) (use i' n in \<open>auto simp: len(2) s(1)\<close>)
  show ?thesis
  proof (cases "zs = []")
    case zs: True
    then have hs: "hs = ys @ [hook]" using s(1) by simp
    have r: "replicate (17 - ?i) NULL = NULL # replicate (16 - ?i) NULL"
      using i' by (simp add: replicate_Suc [symmetric] Suc_diff_le del: replicate_Suc)
    have "table_of T S ! (?i + 1) = NULL" using hooks_nth [OF assms(2), of "?i + 1"] i' hs by simp
    from move_up_stops [OF i this] have m: "move_up ?i (table_of T S) = Some (ys @ replicate (17 - ?i) NULL)"
      using r by (simp add: len(2) hs)
    have "taskHookDelete e (Suc n) hook T 16 S = Some (OK, table_set T (ys @ replicate (17 - ?i) NULL) S)"
      using f m hook_unlock_eq [OF assms(1), of "table_set T (ys @ replicate (17 - ?i) NULL) (hook_lock S)" n]
      by (simp add: taskHookDelete_def Let_def table_set_hkern hook_lock_hkern table_set_kern unlocked_state)
    with s(2) show ?thesis by (simp add: hs)
  next
    case False
    then obtain z zs' where "zs = z # zs'" by (cases zs) auto
    then have "table_of T S ! (?i + 1) = z" "z \<noteq> NULL" using len(2,3) s(1) by (auto simp: nth_append)
    with move_up_hangs [OF i] have "move_up ?i (table_of T S) = None" by simp
    moreover have "hook \<in> set (butlast hs)" using s(1) False by (simp add: butlast_append)
    ultimately show ?thesis using f True by (simp add: taskHookDelete_def)
  qed
qed

lemma demo_undisturbed: "undisturbed demo_env demo_run"
  using demo_run_task by (simp add: undisturbed_def readyFirst_def pendFirst_def) (simp add: demo_def)

definition hook_demo :: hook_state where
  "hook_demo = \<lparr>hkern = demo_run, taskCreateHooks = replicate 17 NULL, taskSwitchHooks = replicate 17 NULL,
     taskDeleteHooks = replicate 17 NULL, taskSwapHooks = 30 # replicate 16 NULL, taskHookLibInstalled = True\<rparr>"

definition with_hooks :: "hook_table \<Rightarrow> ptr list \<Rightarrow> 'a hook_state_scheme \<Rightarrow> 'a hook_state_scheme" where
  "with_hooks T hs S = table_set T (hs @ replicate (17 - length hs) NULL) S"

text \<open>C38. The tables of create, switch and delete hooks hold their hooks in the order they were added. With fewer than
  16, adding one appends it, and a full table is refused with its errno. Deleting a hook that is not there is refused;
  the last hook is removed; deleting any other hook never returns, because the loop that should move the later hooks
  up does not advance, and it spins with the preemption lock taken.\<close>

theorem task_hook_tables:
  assumes "undisturbed e (hkern S)" and "hooks_in T hs S" and "hook \<noteq> NULL"
  shows "taskHookAdd e (Suc n) hook T 16 S = Some
      (if length hs < 16 then (OK, with_hooks T (hs @ [hook]) S) else (ERROR, hook_errno S_taskLib_TASK_HOOK_TABLE_FULL S))
    \<and> taskHookDelete e (Suc n) hook T 16 S =
      (if hook \<notin> set hs then Some (ERROR, hook_errno S_taskLib_TASK_HOOK_NOT_FOUND S)
       else if hook \<notin> set (butlast hs) then Some (OK, with_hooks T (butlast hs) S) else None)
    \<and> hooks_in T (butlast hs) (with_hooks T (butlast hs) S)
    \<and> (length hs < 16 \<longrightarrow> hooks_in T (hs @ [hook]) (with_hooks T (hs @ [hook]) S))"
proof -
  have "table_of T (table_set T u S) = u" for u by (cases T) simp_all
  moreover have "set (butlast hs) \<subseteq> set hs" by (auto dest: in_set_butlastD)
  ultimately show ?thesis using taskHookAdd_rep [OF assms] taskHookDelete_rep [OF assms] assms(2,3)
    unfolding with_hooks_def hooks_in_def by auto
qed

theorem task_hook_tables_witness:
  "taskHookDelete demo_env 1 7 SwitchHooks 16 (hook_demo\<lparr>taskSwitchHooks := [7, 9] @ replicate 15 NULL\<rparr>) = None
    \<and> taskHookDelete demo_env 1 9 SwitchHooks 16 (hook_demo\<lparr>taskSwitchHooks := [7, 9] @ replicate 15 NULL\<rparr>)
      = Some (OK, hook_demo\<lparr>taskSwitchHooks := [7] @ replicate 16 NULL\<rparr>)"
proof -
  let ?S = "hook_demo\<lparr>taskSwitchHooks := [7, 9] @ replicate 15 NULL\<rparr>"
  have u: "undisturbed demo_env (hkern ?S)" using demo_undisturbed by (simp add: hook_demo_def)
  have h: "hooks_in SwitchHooks [7, 9] ?S" by (simp add: hooks_in_def)
  from task_hook_tables [OF u h, of 7 0] task_hook_tables [OF u h, of 9 0] show ?thesis
    by (simp add: with_hooks_def hook_demo_def)
qed

lemma masks_undisturbed:
  assumes "undisturbed e s"
  shows "undisturbed e ((upd_tcb t (\<lambda>c. c\<lparr>tSwapInMask := f c, tSwapOutMask := g c\<rparr>) s)\<lparr>taskSwapReference := rs\<rparr>)"
proof -
  let ?s = "(upd_tcb t (\<lambda>c. c\<lparr>tSwapInMask := f c, tSwapOutMask := g c\<rparr>) s)\<lparr>taskSwapReference := rs\<rparr>"
  have r: "readyQ ?s = readyQ s" "tickQ ?s = tickQ s" "activeQ ?s = activeQ s" "pendQs ?s = pendQs s" "wdogs ?s = wdogs s"
    "sysTicks ?s = sysTicks s" "sysAbsTicks ?s = sysAbsTicks s"
    by (simp_all add: upd_tcb_def)
  have c: "tStatus (tcbs ?s x) = tStatus (tcbs s x)" "tPendQ (tcbs ?s x) = tPendQ (tcbs s x)"
    "tPriority (tcbs ?s x) = tPriority (tcbs s x)" "tUnpendHandler (tcbs ?s x) = tUnpendHandler (tcbs s x)"
    "tLockCount (tcbs ?s x) = tLockCount (tcbs s x)" for x
    by (simp_all add: upd_tcb_def)
  have "task_ok ?s x = task_ok s x" for x by (simp only: task_ok_def Let_def r c)
  moreover have "queues_ok ?s = queues_ok s" "wdog_ok ?s w = wdog_ok s w" "clock_ok ?s = clock_ok s" for w
    by (simp_all only: queues_ok_def wdog_ok_def clock_ok_def tickGet_def r)
  ultimately have k1: "kok ?s = kok s" by (simp only: kok_def kinv_def)
  have k2: "live ?s = live s" "readyFirst ?s = readyFirst s" "pendFirst q ?s = pendFirst q s"
    "taskIdCurrent ?s = taskIdCurrent s" "workQ ?s = workQ s" "intCnt ?s = intCnt s" "kernelState ?s = kernelState s" for q
    by (simp_all add: fun_eq_iff live_def readyFirst_def pendFirst_def r) (simp_all add: upd_tcb_def)
  show ?thesis using assms unfolding undisturbed_def in_task_def k1 k2 c .
qed

text \<open>The masks and the reference count of an attached hook, and that they do not meet the lock.\<close>

definition attach_masks :: "u16 \<Rightarrow> bool \<Rightarrow> bool \<Rightarrow> TCB \<Rightarrow> TCB" where
  "attach_masks b swapIn swapOut c = c\<lparr>
     tSwapInMask := (if swapIn then tSwapInMask c OR b else tSwapInMask c),
     tSwapOutMask := (if swapOut then tSwapOutMask c OR b else tSwapOutMask c)\<rparr>"

definition attached :: "ptr \<Rightarrow> u16 \<Rightarrow> bool \<Rightarrow> bool \<Rightarrow> int list \<Rightarrow> kstate \<Rightarrow> kstate" where
  "attached t b swapIn swapOut rs s = (upd_tcb t (attach_masks b swapIn swapOut) s)\<lparr>taskSwapReference := rs\<rparr>"

lemma attached_locked: "snd (taskLock (attached t b i o' rs s)) = attached t b i o' rs (snd (taskLock s))"
  by (auto simp: attached_def taskLock_def upd_tcb_def attach_masks_def fun_eq_iff)

lemma attached_undisturbed: "undisturbed e s \<Longrightarrow> undisturbed e (attached t b i o' rs s)"
  unfolding attached_def attach_masks_def by (rule masks_undisturbed)

lemma errno_undisturbed: "undisturbed e s \<Longrightarrow> undisturbed e (errnoSet v s)"
  using undisturbed_msg [of s "errnoSet v s"] by simp

lemma index_bit_nz: "index_bit i \<noteq> 0"
proof -
  have "bit (index_bit i) (15 - i)" by (simp add: index_bit_def bit_push_bit_iff del: push_bit_of_1)
  then show ?thesis by auto
qed

lemma locked_tcb: "tIsTask (tcbs (hkern S) t) \<Longrightarrow> t \<noteq> NULL \<Longrightarrow> hook_tcb t (hook_lock S) = (t, hook_lock S)"
  by (auto simp: hook_tcb_def taskTcb_def TASK_ID_VERIFY_ne_OK_def OBJ_VERIFY_ne_OK_def hook_lock_def on_kern_def
      taskLock_def upd_tcb_def)

lemma locked_masks:
  "tSwapInMask (tcbs (hkern (hook_lock S)) t) = tSwapInMask (tcbs (hkern S) t)"
  "tSwapOutMask (tcbs (hkern (hook_lock S)) t) = tSwapOutMask (tcbs (hkern S) t)"
  "taskSwapReference (hkern (hook_lock S)) = taskSwapReference (hkern S)" "find_swap h (hook_lock S) = find_swap h S"
  "taskSwapHooks (hook_lock S) = taskSwapHooks S"
  by (simp_all add: hook_lock_def on_kern_def taskLock_def upd_tcb_def find_swap_def)


lemma undisturbed_refs: "undisturbed e s \<Longrightarrow> undisturbed e (s\<lparr>taskSwapReference := rs\<rparr>)"
  using attached_undisturbed [of e s t 0 False False rs for t] by (simp add: attached_def attach_masks_def upd_tcb_def)

lemma hook_errno_unlock:
  assumes "undisturbed e (hkern S)"
  shows "hook_unlock e (Suc n) (hook_errno v (hook_lock S)) = Some (hook_errno v S)"
proof -
  have "hkern (hook_errno v (hook_lock S)) = snd (taskLock (errnoSet v (hkern S)))"
    by (simp add: hook_errno_def hook_lock_def on_kern_def locked_commute)
  from hook_unlock_eq [OF errno_undisturbed [OF assms] this] show ?thesis
    by (simp add: hook_errno_def hook_lock_def on_kern_def)
qed

lemma upd_tcb_same: "f (tcbs k t) = tcbs k t \<Longrightarrow> upd_tcb t f k = k"
  by (simp add: upd_tcb_def fun_upd_idem)

lemma same_masks: "x = tSwapInMask c \<Longrightarrow> y = tSwapOutMask c \<Longrightarrow> c\<lparr>tSwapInMask := x, tSwapOutMask := y\<rparr> = c"
  by simp

text \<open>Detaching tests the bits the wrong way round: what is attached is refused, and what is not is counted off.\<close>

lemma swap_detach:
  assumes u: "undisturbed e (hkern S)" and f: "find_swap hook S = Some i" and t: "tIsTask (tcbs (hkern S) t)" "t \<noteq> NULL"
  shows "taskSwapHookDetach e (Suc n) hook t dIn dOut S = Some
    (if mask_has dIn (tSwapInMask (tcbs (hkern S) t)) (index_bit i) \<or> mask_has dOut (tSwapOutMask (tcbs (hkern S) t)) (index_bit i)
     then (ERROR, hook_errno S_taskLib_TASK_SWAP_HOOK_CLEAR S) else (OK, upd_reference i (\<lambda>r. r - swaps dIn dOut) S))"
proof (cases "mask_has dIn (tSwapInMask (tcbs (hkern S) t)) (index_bit i) \<or>
    mask_has dOut (tSwapOutMask (tcbs (hkern S) t)) (index_bit i)")
  case True
  then have "taskSwapMaskClear t i dIn dOut (hook_lock S) = (ERROR, hook_errno S_taskLib_TASK_SWAP_HOOK_CLEAR (hook_lock S))"
    using t locked_tcb [of S t] by (simp add: taskSwapMaskClear_def Let_def locked_masks)
  with True show ?thesis using f hook_errno_unlock [OF u] by (simp add: taskSwapHookDetach_def locked_masks)
next
  case False
  let ?c = "tcbs (hkern S) t" and ?g = "\<lambda>r. r - swaps dIn dOut"
  have clear: "m AND NOT b = m" if "m AND b = 0" for m b :: u16 using that by (auto simp: bit_eq_iff bit_simps)
  have "(if dIn then tSwapInMask ?c AND NOT (index_bit i) else tSwapInMask ?c) = tSwapInMask ?c"
    "(if dOut then tSwapOutMask ?c AND NOT (index_bit i) else tSwapOutMask ?c) = tSwapOutMask ?c"
    using False clear by (auto simp: mask_has_def)
  note masks = this
  have "upd_tcb t (\<lambda>c. c\<lparr>
      tSwapInMask := (if dIn then tSwapInMask c AND NOT (index_bit i) else tSwapInMask c),
      tSwapOutMask := (if dOut then tSwapOutMask c AND NOT (index_bit i) else tSwapOutMask c)\<rparr>) (hkern (hook_lock S)) =
      hkern (hook_lock S)"
    by (rule upd_tcb_same, rule same_masks) (simp_all only: locked_masks masks)
  then have "on_kern (upd_tcb t (\<lambda>c. c\<lparr>
      tSwapInMask := (if dIn then tSwapInMask c AND NOT (index_bit i) else tSwapInMask c),
      tSwapOutMask := (if dOut then tSwapOutMask c AND NOT (index_bit i) else tSwapOutMask c)\<rparr>)) (hook_lock S) = hook_lock S"
    by (simp add: on_kern_def)
  then have m: "taskSwapMaskClear t i dIn dOut (hook_lock S) = (OK, hook_lock S)"
    using False t locked_tcb [of S t] by (simp add: taskSwapMaskClear_def Let_def locked_masks)
  have "hkern (upd_reference i ?g (hook_lock S)) = snd (taskLock (hkern (upd_reference i ?g S)))"
    by (simp add: upd_reference_def on_kern_def hook_lock_def taskLock_def upd_tcb_def)
  moreover have "undisturbed e (hkern (upd_reference i ?g S))"
    using undisturbed_refs [OF u] by (simp add: upd_reference_def on_kern_def)
  ultimately have "hook_unlock e (Suc n) (upd_reference i ?g (hook_lock S)) = Some (upd_reference i ?g S)"
    using hook_unlock_eq [of e "hkern (upd_reference i ?g S)" "upd_reference i ?g (hook_lock S)" n]
    by (simp add: upd_reference_def on_kern_def hook_lock_def)
  with False m show ?thesis using f by (simp add: taskSwapHookDetach_def locked_masks)
qed

lemma swap_delete:
  assumes u: "undisturbed e (hkern S)" and f: "find_swap hook S = Some i"
  shows "taskSwapHookDelete e (Suc n) hook S = Some
    (if taskSwapReference (hkern S) ! i \<noteq> 0 then (ERROR, hook_errno S_taskLib_TASK_SWAP_HOOK_REFERENCED S)
     else (OK, S\<lparr>taskSwapHooks := (taskSwapHooks S)[i := NULL]\<rparr>))"
proof -
  have "hook_unlock e (Suc n) ((hook_lock S)\<lparr>taskSwapHooks := hs\<rparr>) = Some (S\<lparr>taskSwapHooks := hs\<rparr>)" for hs
    using hook_unlock_eq [OF u, of "(hook_lock S)\<lparr>taskSwapHooks := hs\<rparr>" n]
    by (simp add: hook_lock_def on_kern_def)
  then show ?thesis using f hook_errno_unlock [OF u] by (simp add: taskSwapHookDelete_def locked_masks)
qed

text \<open>C39. A swap hook that was attached to a task cannot be detached from it in a direction in which it is attached:
  when the hook is in the table with a count that is not negative, the task exists and does not have the hook in the
  directions asked for, and the call switches no tasks, \<open>taskSwapHookAttach\<close> sets the bits of the task's
  masks and counts the references. \<open>taskSwapHookDetach\<close> then takes a bit that is set for an error: for every pair of
  directions that names an attached one it returns \<open>ERROR\<close> with \<open>S_taskLib_TASK_SWAP_HOOK_CLEAR\<close> and changes nothing but
  the errno, and \<open>taskSwapHookDelete\<close> finds the hook referenced. Directions in which the hook is not attached are
  detached with \<open>OK\<close>, and the count goes down with the masks as they were: when it gets to 0 this way, the hook can be
  deleted, and the task's masks name an empty entry of the table.\<close>

theorem swap_hook_stuck:
  assumes "undisturbed e (hkern S)" and "find_swap hook S = Some i" and "i < length (taskSwapReference (hkern S))"
    and "taskSwapReference (hkern S) ! i \<ge> 0" and "tIsTask (tcbs (hkern S) t)" and "t \<noteq> NULL" and "swapIn \<or> swapOut"
    and "\<not> mask_has swapIn (tSwapInMask (tcbs (hkern S) t)) (index_bit i)"
    and "\<not> mask_has swapOut (tSwapOutMask (tcbs (hkern S) t)) (index_bit i)"
  shows "\<exists>S1. taskSwapHookAttach e (Suc n) hook t swapIn swapOut S = Some (OK, S1)
    \<and> taskSwapReference (hkern S1) ! i = taskSwapReference (hkern S) ! i + swaps swapIn swapOut
    \<and> mask_has swapIn (tSwapInMask (tcbs (hkern S1) t)) (index_bit i) = swapIn
    \<and> mask_has swapOut (tSwapOutMask (tcbs (hkern S1) t)) (index_bit i) = swapOut
    \<and> taskSwapHookDelete e (Suc n) hook S1 = Some (ERROR, hook_errno S_taskLib_TASK_SWAP_HOOK_REFERENCED S1)
    \<and> (\<forall>dIn dOut.
        if mask_has dIn (tSwapInMask (tcbs (hkern S1) t)) (index_bit i) \<or> mask_has dOut (tSwapOutMask (tcbs (hkern S1) t)) (index_bit i)
        then taskSwapHookDetach e (Suc n) hook t dIn dOut S1 = Some (ERROR, hook_errno S_taskLib_TASK_SWAP_HOOK_CLEAR S1)
        else let S2 = upd_reference i (\<lambda>r. r - swaps dIn dOut) S1
          in taskSwapHookDetach e (Suc n) hook t dIn dOut S1 = Some (OK, S2) \<and>
             (taskSwapReference (hkern S1) ! i = swaps dIn dOut \<longrightarrow>
               taskSwapHookDelete e (Suc n) hook S2 = Some (OK, S2\<lparr>taskSwapHooks := (taskSwapHooks S2)[i := NULL]\<rparr>)))"
proof -
  let ?b = "index_bit i" and ?r = "taskSwapReference (hkern S)"
  define rs where "rs = ?r[i := ?r ! i + swaps swapIn swapOut]"
  define k1 where "k1 = attached t ?b swapIn swapOut rs (hkern S)"
  define S1 where "S1 = S\<lparr>hkern := k1\<rparr>"
  have f: "find_swap hook S1 = Some i" using assms(2) by (simp add: find_swap_def S1_def)
  have k: "hkern S1 = k1" "taskSwapReference k1 = rs" "tIsTask (tcbs k1 t)" "i < length rs"
    "tSwapInMask (tcbs k1 t) = (if swapIn then tSwapInMask (tcbs (hkern S) t) OR ?b else tSwapInMask (tcbs (hkern S) t))"
    "tSwapOutMask (tcbs k1 t) = (if swapOut then tSwapOutMask (tcbs (hkern S) t) OR ?b else tSwapOutMask (tcbs (hkern S) t))"
    using assms(3,5) by (simp_all add: S1_def k1_def attached_def upd_tcb_def attach_masks_def rs_def)
  have u1: "undisturbed e (hkern S1)" unfolding k(1) k1_def by (rule attached_undisturbed [OF assms(1)])
  have bit: "(m OR ?b) AND ?b = ?b" for m :: u16 by (simp add: bit_simps bit_eq_iff)
  have has: "mask_has swapIn (tSwapInMask (tcbs k1 t)) ?b = swapIn" "mask_has swapOut (tSwapOutMask (tcbs k1 t)) ?b = swapOut"
    using bit index_bit_nz by (auto simp: mask_has_def k(5,6))
  have ri: "rs ! i = ?r ! i + swaps swapIn swapOut" using assms(3) by (simp add: rs_def)
  have "taskSwapMaskSet t i swapIn swapOut (hook_lock S) =
      (OK, on_kern (upd_tcb t (attach_masks ?b swapIn swapOut)) (hook_lock S))"
    using assms(6,8,9) locked_tcb [OF assms(5,6)]
    by (simp add: taskSwapMaskSet_def Let_def locked_masks attach_masks_def [abs_def])
  moreover have "upd_reference i (\<lambda>r. r + swaps swapIn swapOut) (on_kern (upd_tcb t (attach_masks ?b swapIn swapOut)) (hook_lock S))
      = S\<lparr>hkern := snd (taskLock k1)\<rparr>"
    unfolding k1_def attached_locked
    by (simp add: upd_reference_def on_kern_def hook_lock_def attached_def rs_def taskLock_def upd_tcb_def)
  moreover have "hook_unlock e (Suc n) (S\<lparr>hkern := snd (taskLock k1)\<rparr>) = Some S1"
    using hook_unlock_eq [OF u1, of "S\<lparr>hkern := snd (taskLock k1)\<rparr>"] by (simp add: S1_def)
  ultimately have att: "taskSwapHookAttach e (Suc n) hook t swapIn swapOut S = Some (OK, S1)"
    using assms(2) by (simp add: taskSwapHookAttach_def locked_masks)
  have "rs ! i \<noteq> 0" using ri assms(4,7) by (auto simp: swaps_def)
  then have del: "taskSwapHookDelete e (Suc n) hook S1 = Some (ERROR, hook_errno S_taskLib_TASK_SWAP_HOOK_REFERENCED S1)"
    using swap_delete [OF u1 f] k(1,2) by simp
  have gone: "taskSwapHookDelete e (Suc n) hook S2 = Some (OK, S2\<lparr>taskSwapHooks := (taskSwapHooks S2)[i := NULL]\<rparr>)"
    if "S2 = upd_reference i (\<lambda>r. r - w) S1" "rs ! i = w" for S2 w
  proof -
    have "undisturbed e (hkern S2)" "find_swap hook S2 = Some i" "taskSwapReference (hkern S2) ! i = 0"
      using undisturbed_refs [OF u1] f k(1,2,4) that by (simp_all add: upd_reference_def on_kern_def find_swap_def)
    from swap_delete [OF this(1,2)] this(3) show ?thesis by simp
  qed
  note det = swap_detach [OF u1 f, of t n, unfolded k(1), OF k(3) assms(6)]
  show ?thesis
    using att del ri has det gone by (intro exI [of _ S1]) (simp add: k(1,2) Let_def)
qed

theorem swap_hook_stuck_witness:
  "\<exists>S1. taskSwapHookAttach demo_env 1 30 2 True False (on_kern (\<lambda>k. k\<lparr>taskSwapReference := replicate 17 0\<rparr>) hook_demo)
      = Some (OK, S1) \<and> taskSwapReference (hkern S1) ! 0 = 1
    \<and> taskSwapHookDetach demo_env 1 30 2 True False S1 = Some (ERROR, hook_errno S_taskLib_TASK_SWAP_HOOK_CLEAR S1)"
proof -
  let ?S = "on_kern (\<lambda>k. k\<lparr>taskSwapReference := replicate 17 0\<rparr>) hook_demo"
  have h: "hkern ?S = demo_run\<lparr>taskSwapReference := replicate 17 0\<rparr>" "taskSwapHooks ?S = 30 # replicate 16 NULL"
    by (simp_all add: on_kern_def hook_demo_def)
  have "kok (hkern ?S)" using demo_run_task unfolding h by (auto simp: in_task_def intro: kok_same_parts)
  then have u: "undisturbed demo_env (hkern ?S)"
    by (rule undisturbed_change [OF demo_undisturbed]) (simp_all add: h)
  have "find_swap 30 ?S = Some 0" unfolding find_swap_def by (rule find_first) (simp_all add: h max_hooks)
  moreover have "0 < length (taskSwapReference (hkern ?S))" "0 \<le> taskSwapReference (hkern ?S) ! 0"
    "tIsTask (tcbs (hkern ?S) 2)" "(2 :: ptr) \<noteq> NULL" "True \<or> False"
    "\<not> mask_has True (tSwapInMask (tcbs (hkern ?S) 2)) (index_bit 0)"
    "\<not> mask_has False (tSwapOutMask (tcbs (hkern ?S) 2)) (index_bit 0)"
    by (simp_all add: h mask_has_def demo_tcb_def)
  ultimately show ?thesis using swap_hook_stuck [OF u, of 30 0 2 True False 0] by (auto simp: h swaps_def)
qed

end
