(* ===== verification/TaskVarLib.thy ===== *)
theory TaskVarLib
  imports TaskHookLib
begin

text \<open>
  Task variables: \<open>src/os/taskVarLib.c\<close>, on the task hooks. The memory of the program is a store of words apart
  from the nodes of the lists of variables; a walk of a list has no result when the list does not end. Locked
  interrupts leave nothing to model here, since each function is one step.
\<close>

definition S_taskLib_TASK_VAR_NOT_FOUND :: int where "S_taskLib_TASK_VAR_NOT_FOUND = 12 * 65536 + 10"

record TASK_VAR =
  tvNext :: ptr
  tvAddr :: ptr
  tvValue :: u32

record tv_state = hook_state +
  taskVars :: "ptr \<Rightarrow> TASK_VAR"
  pTaskVar :: "ptr \<Rightarrow> ptr"
  pmem :: "ptr \<Rightarrow> u32"
  tvFreed :: "ptr set"
  taskVarLibInstalled :: bool

text \<open>The addresses of the two hooks.\<close>

definition SWITCH_HOOK :: ptr where "SWITCH_HOOK = 1"
definition DELETE_HOOK :: ptr where "DELETE_HOOK = 2"

definition poke :: "ptr \<Rightarrow> u32 \<Rightarrow> tv_state \<Rightarrow> tv_state" where
  "poke a v S = S\<lparr>pmem := (pmem S)(a := v)\<rparr>"

definition upd_var :: "ptr \<Rightarrow> (TASK_VAR \<Rightarrow> TASK_VAR) \<Rightarrow> tv_state \<Rightarrow> tv_state" where
  "upd_var p f S = S\<lparr>taskVars := (taskVars S)(p := f (taskVars S p))\<rparr>"

definition taskVarLibInit :: "kenv \<Rightarrow> nat \<Rightarrow> tv_state \<Rightarrow> (STATUS \<times> tv_state) option" where
  "taskVarLibInit e n S =
     (if taskVarLibInstalled S then Some (OK, S)
      else do {
        (st, S) \<leftarrow> taskSwitchHookAdd e n SWITCH_HOOK S;
        if st \<noteq> OK then Some (ERROR, S)
        else do {
          (st, S) \<leftarrow> taskDeleteHookAdd e n DELETE_HOOK S;
          if st \<noteq> OK
          then do { (st, S) \<leftarrow> taskSwitchHookDelete e n SWITCH_HOOK S; Some (ERROR, S) }
          else Some (OK, S\<lparr>taskVarLibInstalled := True\<rparr>)
        }
      })"

text \<open>\<open>pNewVar\<close> is what \<open>malloc\<close> returns.\<close>

definition taskVarAdd :: "ptr \<Rightarrow> ptr \<Rightarrow> ptr \<Rightarrow> tv_state \<Rightarrow> STATUS \<times> tv_state" where
  "taskVarAdd pNewVar taskId pVar S =
     (if \<not> taskVarLibInstalled S then (ERROR, S)
      else case hook_tcb taskId S of (tcbId, S) \<Rightarrow>
        if tcbId = NULL then (ERROR, S)
        else if pNewVar = NULL then (ERROR, S)
        else
          let S = upd_var pNewVar (\<lambda>v. v\<lparr>tvAddr := pVar, tvValue := pmem S pVar\<rparr>) S;
              S = upd_var pNewVar (\<lambda>v. v\<lparr>tvNext := pTaskVar S tcbId\<rparr>) S
          in (OK, S\<lparr>pTaskVar := (pTaskVar S)(tcbId := pNewVar)\<rparr>))"

text \<open>The loop of \<open>taskVarSet\<close> and \<open>taskVarGet\<close> up to the variable, \<open>NULL\<close> if there is none.\<close>

partial_function (option) var_find :: "ptr \<Rightarrow> ptr \<Rightarrow> tv_state \<Rightarrow> ptr option" where
  "var_find p pVar S =
     (if p = NULL then Some NULL
      else if tvAddr (taskVars S p) = pVar then Some p
      else var_find (tvNext (taskVars S p)) pVar S)"

definition taskVarSet :: "ptr \<Rightarrow> ptr \<Rightarrow> u32 \<Rightarrow> tv_state \<Rightarrow> (STATUS \<times> tv_state) option" where
  "taskVarSet taskId pVar val S =
     (case hook_tcb taskId S of (tcbId, S) \<Rightarrow>
        if tcbId = NULL then Some (ERROR, S)
        else do {
          p \<leftarrow> var_find (pTaskVar S tcbId) pVar S;
          if p = NULL then Some (ERROR, hook_errno S_taskLib_TASK_VAR_NOT_FOUND S)
          else if tcbId = taskIdCurrent (hkern S) then Some (OK, poke pVar val S)
          else Some (OK, upd_var p (\<lambda>v. v\<lparr>tvValue := val\<rparr>) S)
        })"

text \<open>The result is an \<open>int\<close>; \<open>ERROR\<close> is the word \<open>- 1\<close>.\<close>

definition taskVarGet :: "ptr \<Rightarrow> ptr \<Rightarrow> tv_state \<Rightarrow> (u32 \<times> tv_state) option" where
  "taskVarGet taskId pVar S =
     (case hook_tcb taskId S of (tcbId, S) \<Rightarrow>
        if tcbId = NULL then Some (- 1, S)
        else do {
          p \<leftarrow> var_find (pTaskVar S tcbId) pVar S;
          if p = NULL then Some (- 1, hook_errno S_taskLib_TASK_VAR_NOT_FOUND S)
          else if tcbId = taskIdCurrent (hkern S) then Some (pmem S pVar, S)
          else Some (tvValue (taskVars S p), S)
        })"

text \<open>The variables copied to the array, at most as many as it has room for.\<close>

fun info_loop :: "ptr \<Rightarrow> nat \<Rightarrow> tv_state \<Rightarrow> TASK_VAR list" where
  "info_loop p 0 S = []"
| "info_loop p (Suc m) S = (if p = NULL then [] else taskVars S p # info_loop (tvNext (taskVars S p)) m S)"

definition taskVarInfo ::
  "kenv \<Rightarrow> nat \<Rightarrow> ptr \<Rightarrow> bool \<Rightarrow> int \<Rightarrow> tv_state \<Rightarrow> ((int \<times> TASK_VAR list) \<times> tv_state) option" where
  "taskVarInfo e n taskId have_list mx S =
     (case hook_tcb taskId S of (tcbId, S) \<Rightarrow>
        if tcbId = NULL then Some ((ERROR, []), S)
        else do {
          let S = hook_lock S;
          let vs = info_loop (pTaskVar S tcbId) (nat mx) S;
          S \<leftarrow> hook_unlock e n S;
          Some ((int (length vs), if have_list then vs else []), S)
        })"

text \<open>The loop of \<open>taskVarDelete\<close>: the variable and the node before it, \<open>NULL\<close> for the pointer in the TCB.\<close>

partial_function (option) var_find_link :: "ptr \<Rightarrow> ptr \<Rightarrow> ptr \<Rightarrow> tv_state \<Rightarrow> (ptr \<times> ptr) option" where
  "var_find_link prev p pVar S =
     (if p = NULL then Some (prev, NULL)
      else if tvAddr (taskVars S p) = pVar then Some (prev, p)
      else var_find_link p (tvNext (taskVars S p)) pVar S)"

definition taskVarDelete :: "ptr \<Rightarrow> ptr \<Rightarrow> tv_state \<Rightarrow> (STATUS \<times> tv_state) option" where
  "taskVarDelete taskId pVar S =
     (if taskVarLibInstalled S then Some (ERROR, S)
      else case hook_tcb taskId S of (tcbId, S) \<Rightarrow>
        if tcbId = NULL then Some (ERROR, S)
        else do {
          (prev, p) \<leftarrow> var_find_link NULL (pTaskVar S tcbId) pVar S;
          if p = NULL then Some (ERROR, hook_errno S_taskLib_TASK_VAR_NOT_FOUND S)
          else
            let S = (if tcbId = taskIdCurrent (hkern S) then poke pVar (tvValue (taskVars S p)) S else S);
                next = tvNext (taskVars S p);
                S = (if prev = NULL then S\<lparr>pTaskVar := (pTaskVar S)(tcbId := next)\<rparr>
                     else upd_var prev (\<lambda>v. v\<lparr>tvNext := next\<rparr>) S)
            in Some (OK, S\<lparr>tvFreed := insert p (tvFreed S)\<rparr>)
        })"

subsection \<open>The hooks\<close>

definition swap_var :: "ptr \<Rightarrow> tv_state \<Rightarrow> tv_state" where
  "swap_var p S =
     (let v = taskVars S p
      in poke (tvAddr v) (tvValue v) (upd_var p (\<lambda>w. w\<lparr>tvValue := pmem S (tvAddr v)\<rparr>) S))"

partial_function (option) swap_vars :: "ptr \<Rightarrow> tv_state \<Rightarrow> tv_state option" where
  "swap_vars p S =
     (if p = NULL then Some S
      else let S = swap_var p S in swap_vars (tvNext (taskVars S p)) S)"

definition taskVarSwitchHook :: "ptr \<Rightarrow> ptr \<Rightarrow> tv_state \<Rightarrow> tv_state option" where
  "taskVarSwitchHook oldTcbId newTcbId S =
     (case TASK_ID_VERIFY_eq_OK oldTcbId (hkern S) of (eq, k) \<Rightarrow> do {
        let S = S\<lparr>hkern := k\<rparr>;
        S \<leftarrow> (if eq \<noteq> 0 then swap_vars (pTaskVar S oldTcbId) S else Some S);
        swap_vars (pTaskVar S newTcbId) S
      })"

partial_function (option) free_vars :: "ptr \<Rightarrow> tv_state \<Rightarrow> tv_state option" where
  "free_vars p S =
     (if p = NULL then Some S
      else let pTaskVarNext = tvNext (taskVars S p)
           in free_vars pTaskVarNext (S\<lparr>tvFreed := insert p (tvFreed S)\<rparr>))"

definition taskVarDeleteHook :: "ptr \<Rightarrow> tv_state \<Rightarrow> tv_state option" where
  "taskVarDeleteHook tcbId S = free_vars (pTaskVar S tcbId) S"

text \<open>The calls of the switch and delete hooks when these are the only functions installed.\<close>

definition call_switch :: "ptr \<Rightarrow> ptr \<Rightarrow> ptr \<Rightarrow> tv_state \<Rightarrow> tv_state option" where
  "call_switch f old new S = (if f = SWITCH_HOOK then taskVarSwitchHook old new S else None)"

definition call_delete :: "ptr \<Rightarrow> ptr \<Rightarrow> tv_state \<Rightarrow> tv_state option" where
  "call_delete f tcbId S = (if f = DELETE_HOOK then taskVarDeleteHook tcbId S else None)"

end
