(* ===== verification/TaskVarProps.thy ===== *)
theory TaskVarProps
  imports TaskHookProps TaskVarLib
begin

text \<open>
  Task variables against private copies of the variables, and what a task that ends leaves behind.
\<close>

subsection \<open>The list of a task's variables\<close>

primrec tvseg :: "tv_state \<Rightarrow> ptr \<Rightarrow> ptr list \<Rightarrow> bool" where
  "tvseg S p [] \<longleftrightarrow> p = NULL"
| "tvseg S p (x # xs) \<longleftrightarrow> p = x \<and> x \<noteq> NULL \<and> tvseg S (tvNext (taskVars S x)) xs"

abbreviation (input) var_addr :: "tv_state \<Rightarrow> ptr \<Rightarrow> ptr" where
  "var_addr S x \<equiv> tvAddr (taskVars S x)"

abbreviation (input) var_val :: "tv_state \<Rightarrow> ptr \<Rightarrow> u32" where
  "var_val S x \<equiv> tvValue (taskVars S x)"

definition own :: "tv_state \<Rightarrow> ptr list \<Rightarrow> ptr \<Rightarrow> ptr option" where
  "own S xs a = find (\<lambda>x. var_addr S x = a) xs"

lemma own_simps [simp]:
  "own S [] a = None"
  "own S (x # xs) a = (if var_addr S x = a then Some x else own S xs a)"
  by (simp_all add: own_def)

lemma own_None: "own S xs a = None \<longleftrightarrow> a \<notin> var_addr S ` set xs"
  by (induction xs) auto

lemma own_Some: "own S xs a = Some x \<Longrightarrow> x \<in> set xs \<and> var_addr S x = a"
  by (induction xs) (auto split: if_splits)

lemma own_at: "distinct (map (var_addr S) xs) \<Longrightarrow> x \<in> set xs \<Longrightarrow> own S xs (var_addr S x) = Some x"
  by (induction xs) (auto simp: image_iff)

lemma tvseg_frame: "tvseg S p xs \<Longrightarrow> (\<And>x. x \<in> set xs \<Longrightarrow> tvNext (taskVars S' x) = tvNext (taskVars S x)) \<Longrightarrow> tvseg S' p xs"
  by (induction xs arbitrary: p) auto

lemma own_frame: "(\<And>x. x \<in> set xs \<Longrightarrow> var_addr S' x = var_addr S x) \<Longrightarrow> own S' xs a = own S xs a"
  by (induction xs) auto

lemma var_find_seg: "tvseg S p xs \<Longrightarrow> var_find p a S = Some (case own S xs a of None \<Rightarrow> NULL | Some x \<Rightarrow> x)"
proof (induction xs arbitrary: p)
  case Nil
  then show ?case by (subst var_find.simps) simp
next
  case (Cons x xs)
  then show ?case by (subst var_find.simps) auto
qed

subsection \<open>Swapping\<close>

definition swapped :: "ptr list \<Rightarrow> tv_state \<Rightarrow> tv_state" where
  "swapped xs S = S\<lparr>
     pmem := (\<lambda>a. case own S xs a of None \<Rightarrow> pmem S a | Some x \<Rightarrow> var_val S x),
     taskVars := (\<lambda>x. if x \<in> set xs then (taskVars S x)\<lparr>tvValue := pmem S (var_addr S x)\<rparr> else taskVars S x)\<rparr>"

lemma swap_var_fields:
  "var_addr (swap_var x S) y = var_addr S y" "tvNext (taskVars (swap_var x S) y) = tvNext (taskVars S y)"
  by (simp_all add: swap_var_def Let_def poke_def upd_var_def)

lemma swapped_Cons:
  assumes "distinct (map (var_addr S) (x # xs))"
  shows "swapped xs (swap_var x S) = swapped (x # xs) S"
proof -
  have n: "own S xs (var_addr S x) = None" "x \<notin> set xs" using assms by (auto simp: own_None)
  have o: "own (swap_var x S) xs a = own S xs a" for a by (rule own_frame) (simp add: swap_var_fields)
  have p: "pmem (swap_var x S) = (pmem S)(var_addr S x := var_val S x)"
    and t: "taskVars (swap_var x S) = (taskVars S)(x := (taskVars S x)\<lparr>tvValue := pmem S (var_addr S x)\<rparr>)"
    and r: "\<And>P T. (swap_var x S)\<lparr>pmem := P, taskVars := T\<rparr> = S\<lparr>pmem := P, taskVars := T\<rparr>"
    by (simp_all add: swap_var_def Let_def poke_def upd_var_def)
  have m: "(\<lambda>a. case own S xs a of None \<Rightarrow> pmem (swap_var x S) a | Some y \<Rightarrow> var_val (swap_var x S) y) =
      (\<lambda>a. case own S (x # xs) a of None \<Rightarrow> pmem S a | Some y \<Rightarrow> var_val S y)"
  proof
    fix a
    show "(case own S xs a of None \<Rightarrow> pmem (swap_var x S) a | Some y \<Rightarrow> var_val (swap_var x S) y) =
        (case own S (x # xs) a of None \<Rightarrow> pmem S a | Some y \<Rightarrow> var_val S y)"
    proof (cases "own S xs a")
      case (Some y)
      then have "y \<noteq> x" "var_addr S x \<noteq> a" using own_Some [OF Some] n by auto
      with Some show ?thesis by (simp add: p t)
    qed (auto simp: p)
  qed
  have d: "var_addr S y \<noteq> var_addr S x" if "y \<in> set xs" for y
    using n(1) imageI [OF that, of "var_addr S"] unfolding own_None by metis
  have "(\<lambda>y. if y \<in> set xs then (taskVars (swap_var x S) y)\<lparr>tvValue := pmem (swap_var x S) (var_addr (swap_var x S) y)\<rparr>
        else taskVars (swap_var x S) y) =
      (\<lambda>y. if y \<in> set (x # xs) then (taskVars S y)\<lparr>tvValue := pmem S (var_addr S y)\<rparr> else taskVars S y)"
    using n(2) d by (intro ext) (auto simp: p t)
  then show ?thesis unfolding swapped_def o m r by simp
qed

lemma swap_vars_seg:
  "tvseg S p xs \<Longrightarrow> distinct (map (var_addr S) xs) \<Longrightarrow> swap_vars p S = Some (swapped xs S)"
proof (induction xs arbitrary: p S)
  case Nil
  then show ?case by (subst swap_vars.simps) (simp add: swapped_def)
next
  case (Cons x xs)
  have "tvseg (swap_var x S) (tvNext (taskVars S x)) xs"
    using Cons.prems(1) by (auto intro: tvseg_frame simp: swap_var_fields)
  moreover have "distinct (map (var_addr (swap_var x S)) xs)" using Cons.prems(2) by (simp add: swap_var_fields)
  ultimately have "swap_vars (tvNext (taskVars S x)) (swap_var x S) = Some (swapped (x # xs) S)"
    using Cons.IH swapped_Cons [OF Cons.prems(2)] by simp
  with Cons.prems(1) show ?case by (subst swap_vars.simps) (simp add: Let_def swap_var_fields)
qed


subsection \<open>Private variables\<close>

record tv_abs =
  ta_cur :: ptr
  ta_shared :: "ptr \<Rightarrow> u32"
  ta_priv :: "ptr \<Rightarrow> ptr \<Rightarrow> u32 option"
  ta_nodes :: "ptr set"

definition tv_lists :: "tv_state \<Rightarrow> (ptr \<Rightarrow> ptr list) \<Rightarrow> bool" where
  "tv_lists S ns \<longleftrightarrow>
     (\<forall>t. tvseg S (pTaskVar S t) (ns t) \<and> distinct (map (var_addr S) (ns t)))
     \<and> (\<forall>t t'. t \<noteq> t' \<longrightarrow> set (ns t) \<inter> set (ns t') = {})"

text \<open>What the tasks own when the variables of the task in \<open>c\<close> are in memory; \<open>None\<close> in the middle of a switch.\<close>

definition vars_in :: "tv_state \<Rightarrow> (ptr \<Rightarrow> ptr list) \<Rightarrow> ptr option \<Rightarrow> tv_abs \<Rightarrow> bool" where
  "vars_in S ns c A \<longleftrightarrow>
     (\<forall>t a. ta_priv A t a = map_option (\<lambda>x. if c = Some t then pmem S a else var_val S x) (own S (ns t) a))
     \<and> (\<forall>a. ta_shared A a = (case c of None \<Rightarrow> pmem S a
          | Some t \<Rightarrow> (case own S (ns t) a of None \<Rightarrow> pmem S a | Some x \<Rightarrow> var_val S x)))"

lemma swapped_var: "taskVars (swapped xs S) x =
    (if x \<in> set xs then (taskVars S x)\<lparr>tvValue := pmem S (var_addr S x)\<rparr> else taskVars S x)"
  by (simp add: swapped_def)

lemma swapped_mem: "pmem (swapped xs S) a = (case own S xs a of None \<Rightarrow> pmem S a | Some x \<Rightarrow> var_val S x)"
  by (simp add: swapped_def)

lemma swapped_fields:
  "var_addr (swapped xs S) x = var_addr S x" "tvNext (taskVars (swapped xs S) x) = tvNext (taskVars S x)"
  "own (swapped xs S) ys a = own S ys a" "pTaskVar (swapped xs S) = pTaskVar S" "hkern (swapped xs S) = hkern S"
  "taskSwitchHooks (swapped xs S) = taskSwitchHooks S" "taskVarLibInstalled (swapped xs S) = taskVarLibInstalled S"
proof -
  show a: "var_addr (swapped xs S) x = var_addr S x" for x by (simp add: swapped_var)
  show "own (swapped xs S) ys a = own S ys a" by (rule own_frame) (rule a)
qed (simp_all add: swapped_def)

lemma swapped_lists: "tv_lists S ns \<Longrightarrow> tv_lists (swapped xs S) ns"
  by (auto simp: tv_lists_def swapped_fields intro: tvseg_frame)

lemma swap_out:
  assumes "tv_lists S ns" and "vars_in S ns (Some c) A"
  shows "vars_in (swapped (ns c) S) ns None A"
  unfolding vars_in_def swapped_fields
proof (intro conjI allI)
  fix t a
  have p: "ta_priv A t a = map_option (\<lambda>x. if Some c = Some t then pmem S a else var_val S x) (own S (ns t) a)"
    using assms(2) by (simp add: vars_in_def)
  show "ta_priv A t a =
      map_option (\<lambda>x. if None = Some t then pmem (swapped (ns c) S) a else var_val (swapped (ns c) S) x) (own S (ns t) a)"
  proof (cases "own S (ns t) a")
    case (Some x)
    then have x: "x \<in> set (ns t)" "var_addr S x = a" using own_Some by auto
    have "x \<notin> set (ns c)" if "t \<noteq> c" using assms(1) x(1) that by (auto simp: tv_lists_def)
    then show ?thesis using p Some x by (auto simp: swapped_var)
  qed (use p in simp)
next
  fix a
  show "ta_shared A a = (case None of None \<Rightarrow> pmem (swapped (ns c) S) a | Some t \<Rightarrow>
      (case own S (ns t) a of None \<Rightarrow> pmem (swapped (ns c) S) a | Some x \<Rightarrow> var_val (swapped (ns c) S) x))"
    using assms(2) by (simp add: vars_in_def swapped_mem)
qed

lemma swap_in:
  assumes "tv_lists S ns" and "vars_in S ns None A"
  shows "vars_in (swapped (ns c) S) ns (Some c) A"
  unfolding vars_in_def swapped_fields
proof (intro conjI allI)
  fix t a
  have p: "ta_priv A t a = map_option (\<lambda>x. var_val S x) (own S (ns t) a)"
    using assms(2) by (simp add: vars_in_def)
  show "ta_priv A t a =
      map_option (\<lambda>x. if Some c = Some t then pmem (swapped (ns c) S) a else var_val (swapped (ns c) S) x) (own S (ns t) a)"
  proof (cases "own S (ns t) a")
    case (Some x)
    then have x: "x \<in> set (ns t)" using own_Some by auto
    have "x \<notin> set (ns c)" if "t \<noteq> c" using assms(1) x that by (auto simp: tv_lists_def)
    then show ?thesis using p Some by (auto simp: swapped_var swapped_mem)
  qed (use p in simp)
next
  fix a
  have s: "ta_shared A a = pmem S a" using assms(2) by (simp add: vars_in_def)
  show "ta_shared A a = (case Some c of None \<Rightarrow> pmem (swapped (ns c) S) a | Some t \<Rightarrow>
      (case own S (ns t) a of None \<Rightarrow> pmem (swapped (ns c) S) a | Some x \<Rightarrow> var_val (swapped (ns c) S) x))"
  proof (cases "own S (ns c) a")
    case (Some x)
    then have x: "x \<in> set (ns c)" "var_addr S x = a" using own_Some by auto
    then show ?thesis using s Some by (simp add: swapped_var)
  qed (simp add: s swapped_mem)
qed

definition tv_rep :: "ptr set \<Rightarrow> tv_state \<Rightarrow> tv_abs \<Rightarrow> bool" where
  "tv_rep T S A \<longleftrightarrow> (\<exists>ns. tv_lists S ns \<and> vars_in S ns (Some (ta_cur A)) A \<and> ta_nodes A = (\<Union>t. set (ns t)))
     \<and> taskIdCurrent (hkern S) = ta_cur A \<and> ta_cur A \<in> T \<and> NULL \<notin> T
     \<and> (\<forall>t \<in> T. tIsTask (tcbs (hkern S) t) \<and> tSwapInMask (tcbs (hkern S) t) = 0 \<and> tSwapOutMask (tcbs (hkern S) t) = 0)
     \<and> taskSwitchHooks S = SWITCH_HOOK # replicate 16 NULL \<and> taskVarLibInstalled S"

text \<open>What programs and the library do: a task switch, a program that writes or reads a variable, and the calls.\<close>

datatype tv_op = TSwitch ptr | TPoke ptr u32 | TPeek ptr | TAdd ptr ptr ptr | TSet ptr ptr u32 | TGet ptr ptr | TDel ptr ptr

primrec tv_step :: "tv_op \<Rightarrow> tv_state \<Rightarrow> (u32 \<times> tv_state) option" where
  "tv_step (TSwitch t) S = do { S \<leftarrow> switch_hooks call_switch (taskIdCurrent (hkern S)) t S; Some (0, S) }"
| "tv_step (TPoke a v) S = Some (0, poke a v S)"
| "tv_step (TPeek a) S = Some (pmem S a, S)"
| "tv_step (TAdd p t a) S = (case taskVarAdd p t a S of (st, S) \<Rightarrow> Some (of_int st, S))"
| "tv_step (TSet t a v) S = do { (st, S) \<leftarrow> taskVarSet t a v S; Some (of_int st, S) }"
| "tv_step (TGet t a) S = taskVarGet t a S"
| "tv_step (TDel t a) S = do { (st, S) \<leftarrow> taskVarDelete t a S; Some (of_int st, S) }"

definition ta_put :: "ptr \<Rightarrow> ptr \<Rightarrow> u32 \<Rightarrow> tv_abs \<Rightarrow> tv_abs" where
  "ta_put t a v A = A\<lparr>ta_priv := (ta_priv A)(t := (ta_priv A t)(a \<mapsto> v))\<rparr>"

definition ta_view :: "tv_abs \<Rightarrow> ptr \<Rightarrow> u32" where
  "ta_view A a = (case ta_priv A (ta_cur A) a of None \<Rightarrow> ta_shared A a | Some v \<Rightarrow> v)"

primrec ta_step :: "tv_op \<Rightarrow> tv_abs \<Rightarrow> u32 \<times> tv_abs" where
  "ta_step (TSwitch t) A = (0, A\<lparr>ta_cur := t\<rparr>)"
| "ta_step (TPoke a v) A =
     (0, if ta_priv A (ta_cur A) a = None then A\<lparr>ta_shared := (ta_shared A)(a := v)\<rparr> else ta_put (ta_cur A) a v A)"
| "ta_step (TPeek a) A = (ta_view A a, A)"
| "ta_step (TAdd p t a) A = (0, (ta_put t a (ta_view A a) A)\<lparr>ta_nodes := insert p (ta_nodes A)\<rparr>)"
| "ta_step (TSet t a v) A = (if ta_priv A t a = None then (- 1, A) else (0, ta_put t a v A))"
| "ta_step (TGet t a) A = (case ta_priv A t a of None \<Rightarrow> - 1 | Some v \<Rightarrow> v, A)"
| "ta_step (TDel t a) A = (- 1, A)"

text \<open>The contract: the tasks exist, memory handed out is new, and a task adds a variable once.\<close>

primrec tv_ok :: "ptr set \<Rightarrow> tv_op \<Rightarrow> tv_abs \<Rightarrow> bool" where
  "tv_ok T (TSwitch t) A \<longleftrightarrow> t \<in> T"
| "tv_ok T (TPoke a v) A \<longleftrightarrow> True"
| "tv_ok T (TPeek a) A \<longleftrightarrow> True"
| "tv_ok T (TAdd p t a) A \<longleftrightarrow> t \<in> T \<and> p \<noteq> NULL \<and> p \<notin> ta_nodes A \<and> ta_priv A t a = None"
| "tv_ok T (TSet t a v) A \<longleftrightarrow> t \<in> T"
| "tv_ok T (TGet t a) A \<longleftrightarrow> t \<in> T"
| "tv_ok T (TDel t a) A \<longleftrightarrow> t \<in> T"

primrec tv_run :: "tv_op list \<Rightarrow> tv_state \<Rightarrow> (u32 list \<times> tv_state) option" where
  "tv_run [] S = Some ([], S)"
| "tv_run (op # ops) S = do { (r, S) \<leftarrow> tv_step op S; (rs, S) \<leftarrow> tv_run ops S; Some (r # rs, S) }"

primrec ta_run :: "tv_op list \<Rightarrow> tv_abs \<Rightarrow> u32 list \<times> tv_abs" where
  "ta_run [] A = ([], A)"
| "ta_run (op # ops) A = (let (r, A) = ta_step op A; (rs, A) = ta_run ops A in (r # rs, A))"

primrec tv_run_ok :: "ptr set \<Rightarrow> tv_op list \<Rightarrow> tv_abs \<Rightarrow> bool" where
  "tv_run_ok T [] A \<longleftrightarrow> True"
| "tv_run_ok T (op # ops) A \<longleftrightarrow> tv_ok T op A \<and> tv_run_ok T ops (snd (ta_step op A))"

subsection \<open>The steps\<close>

lemma hook_tcb_ok:
  assumes "tv_rep T S A" and "t \<in> T"
  shows "hook_tcb t S = (t, S)" and "t \<noteq> NULL"
proof -
  have "NULL \<notin> T" "tIsTask (tcbs (hkern S) t)" using assms by (auto simp: tv_rep_def)
  with assms(2) show nz: "t \<noteq> NULL" by metis
  show "hook_tcb t S = (t, S)"
    using nz \<open>tIsTask (tcbs (hkern S) t)\<close>
    by (simp add: hook_tcb_def taskTcb_def TASK_ID_VERIFY_ne_OK_def OBJ_VERIFY_ne_OK_def)
qed

lemma switch_two:
  assumes "taskSwitchHooks S = SWITCH_HOOK # replicate 16 NULL" and "taskVarSwitchHook old new S = Some S'"
    and "taskSwitchHooks S' = taskSwitchHooks S"
  shows "taskHookSwitch call_switch old new S = Some S'"
proof -
  have "[0..<17] = 0 # 1 # [2..<17]" by (simp add: upt_rec)
  then show ?thesis using assms by (simp add: taskHookSwitch_def max_hooks call_switch_def SWITCH_HOOK_def)
qed

lemma lists_cong:
  "taskVars S' = taskVars S \<Longrightarrow> pTaskVar S' = pTaskVar S \<Longrightarrow> tv_lists S ns \<Longrightarrow> tv_lists S' ns"
  by (auto simp: tv_lists_def intro: tvseg_frame)

lemma vars_in_cong:
  assumes "taskVars S' = taskVars S" and "pmem S' = pmem S"
  shows "vars_in S' ns c A = vars_in S ns c A"
proof -
  have o: "own S' = own S" by (intro ext own_frame) (simp add: assms)
  show ?thesis unfolding vars_in_def assms o ..
qed

lemma vars_in_cur: "vars_in S ns c (A\<lparr>ta_cur := t\<rparr>) = vars_in S ns c A"
  by (simp add: vars_in_def)

lemma switch_rep:
  assumes "tv_rep T S A" and "t \<in> T"
  shows "\<exists>S'. switch_hooks call_switch (taskIdCurrent (hkern S)) t S = Some S' \<and> tv_rep T S' (A\<lparr>ta_cur := t\<rparr>)"
proof -
  let ?c = "ta_cur A"
  obtain ns where ns: "tv_lists S ns" "vars_in S ns (Some ?c) A" "ta_nodes A = (\<Union>t. set (ns t))"
    using assms(1) by (auto simp: tv_rep_def)
  have r: "taskIdCurrent (hkern S) = ?c" "?c \<in> T" "taskSwitchHooks S = SWITCH_HOOK # replicate 16 NULL"
    and k: "\<forall>t \<in> T. tIsTask (tcbs (hkern S) t) \<and> tSwapInMask (tcbs (hkern S) t) = 0 \<and> tSwapOutMask (tcbs (hkern S) t) = 0"
    using assms(1) by (auto simp: tv_rep_def)
  define S0 where "S0 = on_kern (\<lambda>k. k\<lparr>taskIdCurrent := t\<rparr>) S"
  have f: "taskVars S0 = taskVars S" "pTaskVar S0 = pTaskVar S" "pmem S0 = pmem S"
    "hkern S0 = (hkern S)\<lparr>taskIdCurrent := t\<rparr>" "taskSwitchHooks S0 = taskSwitchHooks S"
    "taskVarLibInstalled S0 = taskVarLibInstalled S"
    by (simp_all add: S0_def on_kern_def)
  have l0: "tv_lists S0 ns" by (rule lists_cong [OF f(1,2) ns(1)])
  let ?S1 = "swapped (ns ?c) S0" and ?S2 = "swapped (ns t) (swapped (ns ?c) S0)"
  have l1: "tv_lists ?S1 ns" by (rule swapped_lists [OF l0])
  have s1: "swap_vars (pTaskVar S ?c) S0 = Some ?S1"
    using swap_vars_seg [of S0 "pTaskVar S0 ?c" "ns ?c"] l0 f(2) by (auto simp: tv_lists_def)
  have s2: "swap_vars (pTaskVar S t) ?S1 = Some ?S2"
    using swap_vars_seg [of ?S1 "pTaskVar ?S1 t" "ns t"] l1 f(2) by (auto simp: tv_lists_def swapped_fields)
  have "TASK_ID_VERIFY_eq_OK ?c (hkern S0) = (1, hkern S0)"
    using k r(2) by (simp add: TASK_ID_VERIFY_eq_OK_def OBJ_VERIFY_ne_OK_def f(4))
  then have "taskVarSwitchHook ?c t S0 = Some ?S2"
    using s1 s2 f(2) by (simp add: taskVarSwitchHook_def swapped_fields)
  then have "taskHookSwitch call_switch ?c t S0 = Some ?S2"
    by (intro switch_two) (simp_all add: f(5) r(3) swapped_fields)
  moreover have "tSwapInMask (tcbs (hkern S0) t) OR tSwapOutMask (tcbs (hkern S0) ?c) = 0"
    using k r(2) assms(2) by (simp add: f(4))
  ultimately have "switch_hooks call_switch ?c t S = Some ?S2"
    by (simp add: switch_hooks_def S0_def [symmetric] Let_def)
  moreover have "vars_in S0 ns (Some ?c) A" using ns(2) vars_in_cong [OF f(1,3)] by simp
  then have "vars_in ?S2 ns (Some t) A" by (intro swap_in l1 swap_out l0)
  then have "tv_rep T ?S2 (A\<lparr>ta_cur := t\<rparr>)"
    using assms swapped_lists [OF l1] ns(3)
    by (auto simp: tv_rep_def swapped_fields f vars_in_cur)
  ultimately show ?thesis unfolding r(1) by blast
qed

text \<open>Everything of the representation but the variables.\<close>

lemma tv_rep_vars:
  assumes "tv_rep T S A" and "tv_lists S' ns" and "vars_in S' ns (Some (ta_cur A)) A'"
    and "ta_nodes A' = (\<Union>t. set (ns t))" and "ta_cur A' = ta_cur A"
    and "hkern S' = hkern S \<or> (\<exists>v. hkern S' = errnoSet v (hkern S))" and "taskSwitchHooks S' = taskSwitchHooks S"
    and "taskVarLibInstalled S' = taskVarLibInstalled S"
  shows "tv_rep T S' A'"
proof -
  have "tcbs (hkern S') = tcbs (hkern S)" "taskIdCurrent (hkern S') = taskIdCurrent (hkern S)"
    using assms(6) by (auto simp: errnoSet_def)
  with assms show ?thesis unfolding tv_rep_def by auto
qed

lemma tv_rep_read:
  assumes "tv_rep T S A"
  shows "pmem S a = ta_view A a"
    and "t \<in> T \<Longrightarrow> taskVarGet t a S =
      Some (case ta_priv A t a of None \<Rightarrow> (- 1, hook_errno S_taskLib_TASK_VAR_NOT_FOUND S) | Some v \<Rightarrow> (v, S))"
proof -
  obtain ns where ns: "tv_lists S ns" "vars_in S ns (Some (ta_cur A)) A"
    and c: "taskIdCurrent (hkern S) = ta_cur A" using assms by (auto simp: tv_rep_def)
  have p: "ta_priv A t a = map_option (\<lambda>x. if ta_cur A = t then pmem S a else var_val S x) (own S (ns t) a)" for t
    using ns(2) by (simp add: vars_in_def)
  show "pmem S a = ta_view A a"
    using ns(2) p [of "ta_cur A"] by (cases "own S (ns (ta_cur A)) a") (auto simp: vars_in_def ta_view_def)
  assume t: "t \<in> T"
  have s: "tvseg S (pTaskVar S t) (ns t)" using ns(1) by (simp add: tv_lists_def)
  have nz: "x \<noteq> NULL" if "own S (ns t) a = Some x" for x
  proof -
    have "tvseg S q xs \<Longrightarrow> x \<in> set xs \<Longrightarrow> x \<noteq> NULL" for q xs by (induction xs arbitrary: q) auto
    with s own_Some [OF that] show ?thesis by blast
  qed
  show "taskVarGet t a S =
      Some (case ta_priv A t a of None \<Rightarrow> (- 1, hook_errno S_taskLib_TASK_VAR_NOT_FOUND S) | Some v \<Rightarrow> (v, S))"
    using hook_tcb_ok [OF assms t] var_find_seg [OF s, of a] p [of t] nz c
    by (cases "own S (ns t) a") (auto simp: taskVarGet_def)
qed

lemma poke_fields [simp]:
  "taskVars (poke a v S) = taskVars S" "pTaskVar (poke a v S) = pTaskVar S" "hkern (poke a v S) = hkern S"
  "taskSwitchHooks (poke a v S) = taskSwitchHooks S" "taskVarLibInstalled (poke a v S) = taskVarLibInstalled S"
  "pmem (poke a v S) = (pmem S)(a := v)"
  by (simp_all add: poke_def)

lemma own_poke [simp]: "own (poke a v S) = own S"
  by (intro ext own_frame) simp

lemma own_other: "own S xs a = Some x \<Longrightarrow> own S xs b = Some x \<Longrightarrow> a = b"
  using own_Some by metis

lemma vars_poke_shared:
  assumes "vars_in S ns (Some c) A" and "own S (ns c) a = None"
  shows "vars_in (poke a v S) ns (Some c) (A\<lparr>ta_shared := (ta_shared A)(a := v)\<rparr>)"
  unfolding vars_in_def own_poke
proof (intro conjI allI)
  fix t b
  have "ta_priv A t b = map_option (\<lambda>x. if Some c = Some t then pmem S b else var_val S x) (own S (ns t) b)"
    using assms(1) by (simp add: vars_in_def)
  then show "ta_priv (A\<lparr>ta_shared := (ta_shared A)(a := v)\<rparr>) t b =
      map_option (\<lambda>x. if Some c = Some t then pmem (poke a v S) b else var_val (poke a v S) x) (own S (ns t) b)"
    using assms(2) by (cases "own S (ns t) b") auto
next
  fix b
  have "ta_shared A b = (case own S (ns c) b of None \<Rightarrow> pmem S b | Some x \<Rightarrow> var_val S x)"
    using assms(1) by (simp add: vars_in_def)
  then show "ta_shared (A\<lparr>ta_shared := (ta_shared A)(a := v)\<rparr>) b = (case Some c of None \<Rightarrow> pmem (poke a v S) b
      | Some t \<Rightarrow> (case own S (ns t) b of None \<Rightarrow> pmem (poke a v S) b | Some x \<Rightarrow> var_val (poke a v S) x))"
    using assms(2) by (cases "own S (ns c) b") auto
qed

lemma vars_poke_own:
  assumes "vars_in S ns (Some c) A" and "own S (ns c) a = Some x"
  shows "vars_in (poke a v S) ns (Some c) (ta_put c a v A)"
  unfolding vars_in_def own_poke
proof (intro conjI allI)
  fix t b
  have "ta_priv A t b = map_option (\<lambda>x. if Some c = Some t then pmem S b else var_val S x) (own S (ns t) b)"
    using assms(1) by (simp add: vars_in_def)
  then show "ta_priv (ta_put c a v A) t b =
      map_option (\<lambda>x. if Some c = Some t then pmem (poke a v S) b else var_val (poke a v S) x) (own S (ns t) b)"
    using assms(2) by (cases "own S (ns t) b") (auto simp: ta_put_def)
next
  fix b
  have "ta_shared A b = (case own S (ns c) b of None \<Rightarrow> pmem S b | Some x \<Rightarrow> var_val S x)"
    using assms(1) by (simp add: vars_in_def)
  then show "ta_shared (ta_put c a v A) b = (case Some c of None \<Rightarrow> pmem (poke a v S) b
      | Some t \<Rightarrow> (case own S (ns t) b of None \<Rightarrow> pmem (poke a v S) b | Some x \<Rightarrow> var_val (poke a v S) x))"
    using assms(2) by (cases "own S (ns c) b") (auto simp: ta_put_def)
qed

definition set_val :: "ptr \<Rightarrow> u32 \<Rightarrow> tv_state \<Rightarrow> tv_state" where
  "set_val x v = upd_var x (\<lambda>w. w\<lparr>tvValue := v\<rparr>)"

lemma set_val_fields [simp]:
  "var_addr (set_val x v S) y = var_addr S y" "tvNext (taskVars (set_val x v S) y) = tvNext (taskVars S y)"
  "var_val (set_val x v S) y = (if y = x then v else var_val S y)" "pTaskVar (set_val x v S) = pTaskVar S"
  "hkern (set_val x v S) = hkern S" "pmem (set_val x v S) = pmem S" "taskSwitchHooks (set_val x v S) = taskSwitchHooks S"
  "taskVarLibInstalled (set_val x v S) = taskVarLibInstalled S"
  by (simp_all add: set_val_def upd_var_def)

lemma own_set_val [simp]: "own (set_val x v S) = own S"
  by (intro ext own_frame) simp

lemma lists_set_val: "tv_lists S ns \<Longrightarrow> tv_lists (set_val x v S) ns"
  by (auto simp: tv_lists_def intro: tvseg_frame)

lemma vars_set_val:
  assumes "tv_lists S ns" and "vars_in S ns (Some c) A" and "own S (ns t) a = Some x" and "t \<noteq> c"
  shows "vars_in (set_val x v S) ns (Some c) (ta_put t a v A)"
  unfolding vars_in_def own_set_val
proof (intro conjI allI)
  fix s b
  have p: "ta_priv A s b = map_option (\<lambda>x. if Some c = Some s then pmem S b else var_val S x) (own S (ns s) b)"
    using assms(2) by (simp add: vars_in_def)
  show "ta_priv (ta_put t a v A) s b =
      map_option (\<lambda>y. if Some c = Some s then pmem (set_val x v S) b else var_val (set_val x v S) y) (own S (ns s) b)"
  proof (cases "own S (ns s) b")
    case None
    then have "\<not> (s = t \<and> b = a)" using assms(3) by auto
    then show ?thesis using p None by (auto simp: ta_put_def)
  next
    case (Some y)
    have "y \<noteq> x" if "s \<noteq> t" using assms(1,3) own_Some [OF Some] own_Some [OF assms(3)] that by (auto simp: tv_lists_def)
    moreover have "y \<noteq> x" if "s = t" "b \<noteq> a" using own_other [of S "ns t" a x b] assms(3) Some that by auto
    moreover have "y = x" if "s = t" "b = a" using assms(3) Some that by simp
    ultimately show ?thesis using p Some assms(4) by (auto simp: ta_put_def)
  qed
next
  fix b
  have s: "ta_shared A b = (case own S (ns c) b of None \<Rightarrow> pmem S b | Some x \<Rightarrow> var_val S x)"
    using assms(2) by (simp add: vars_in_def)
  have "y \<noteq> x" if "own S (ns c) b = Some y" for y
    using assms(1,4) own_Some [OF that] own_Some [OF assms(3)] by (auto simp: tv_lists_def)
  then show "ta_shared (ta_put t a v A) b = (case Some c of None \<Rightarrow> pmem (set_val x v S) b
      | Some t \<Rightarrow> (case own S (ns t) b of None \<Rightarrow> pmem (set_val x v S) b | Some y \<Rightarrow> var_val (set_val x v S) y))"
    using s by (cases "own S (ns c) b") (auto simp: ta_put_def)
qed

lemma tv_rep_poke:
  assumes "tv_rep T S A"
  shows "tv_rep T (poke a v S) (snd (ta_step (TPoke a v) A))"
proof -
  let ?c = "ta_cur A"
  obtain ns where ns: "tv_lists S ns" "vars_in S ns (Some ?c) A" "ta_nodes A = (\<Union>t. set (ns t))"
    using assms by (auto simp: tv_rep_def)
  have p: "ta_priv A ?c a = map_option (\<lambda>x. pmem S a) (own S (ns ?c) a)" using ns(2) by (simp add: vars_in_def)
  have l: "tv_lists (poke a v S) ns" by (rule lists_cong [OF _ _ ns(1)]) simp_all
  show ?thesis
  proof (cases "own S (ns ?c) a")
    case None
    from vars_poke_shared [OF ns(2) None] show ?thesis using p None ns(3)
      by (intro tv_rep_vars [OF assms l]) auto
  next
    case (Some x)
    from vars_poke_own [OF ns(2) Some] show ?thesis using p Some ns(3)
      by (intro tv_rep_vars [OF assms l]) (auto simp: ta_put_def)
  qed
qed

lemma tv_rep_set:
  assumes "tv_rep T S A" and "t \<in> T"
  shows "\<exists>S'. tv_step (TSet t a v) S = Some (fst (ta_step (TSet t a v) A), S') \<and> tv_rep T S' (snd (ta_step (TSet t a v) A))"
proof -
  let ?c = "ta_cur A"
  obtain ns where ns: "tv_lists S ns" "vars_in S ns (Some ?c) A" "ta_nodes A = (\<Union>t. set (ns t))"
    and c: "taskIdCurrent (hkern S) = ?c" using assms(1) by (auto simp: tv_rep_def)
  have p: "ta_priv A t a = map_option (\<lambda>x. if Some ?c = Some t then pmem S a else var_val S x) (own S (ns t) a)"
    using ns(2) by (simp add: vars_in_def)
  have s: "tvseg S (pTaskVar S t) (ns t)" using ns(1) by (simp add: tv_lists_def)
  have f: "var_find (pTaskVar S t) a S = Some (case own S (ns t) a of None \<Rightarrow> NULL | Some x \<Rightarrow> x)"
    by (rule var_find_seg [OF s])
  note h = hook_tcb_ok [OF assms]
  show ?thesis
  proof (cases "own S (ns t) a")
    case None
    let ?S = "hook_errno S_taskLib_TASK_VAR_NOT_FOUND S"
    have "tv_rep T ?S A"
      by (rule tv_rep_vars [OF assms(1), where ns = ns])
        (use ns in \<open>auto simp: hook_errno_def on_kern_def intro: lists_cong vars_in_cong [THEN iffD2]\<close>)
    with None p f h show ?thesis by (auto simp: taskVarSet_def)
  next
    case (Some x)
    have "tvseg S q xs \<Longrightarrow> x \<in> set xs \<Longrightarrow> x \<noteq> NULL" for q xs by (induction xs arbitrary: q) auto
    with s own_Some [OF Some] have nz: "x \<noteq> NULL" by blast
    show ?thesis
    proof (cases "t = ?c")
      case True
      have "ta_step (TSet t a v) A = ta_step (TPoke a v) A" using p Some True by auto
      moreover have "tv_step (TSet t a v) S = Some (0, poke a v S)"
        using f h nz c Some True by (simp add: taskVarSet_def)
      ultimately show ?thesis using tv_rep_poke [OF assms(1), of a v] by simp
    next
      case False
      have "tv_step (TSet t a v) S = Some (0, set_val x v S)"
        using f h nz c Some False by (simp add: taskVarSet_def set_val_def)
      moreover have "tv_rep T (set_val x v S) (ta_put t a v A)"
        by (rule tv_rep_vars [OF assms(1) lists_set_val [OF ns(1)] vars_set_val [OF ns(1,2) Some False]])
          (use ns(3) in \<open>simp_all add: ta_put_def\<close>)
      ultimately show ?thesis using p Some by simp
    qed
  qed
qed

definition add_var :: "ptr \<Rightarrow> ptr \<Rightarrow> ptr \<Rightarrow> tv_state \<Rightarrow> tv_state" where
  "add_var p t a S = S\<lparr>
     taskVars := (taskVars S)(p := \<lparr>tvNext = pTaskVar S t, tvAddr = a, tvValue = pmem S a\<rparr>),
     pTaskVar := (pTaskVar S)(t := p)\<rparr>"

lemma add_var_fields [simp]:
  "taskVars (add_var p t a S) y = (if y = p then \<lparr>tvNext = pTaskVar S t, tvAddr = a, tvValue = pmem S a\<rparr> else taskVars S y)"
  "pTaskVar (add_var p t a S) u = (if u = t then p else pTaskVar S u)"
  "hkern (add_var p t a S) = hkern S" "pmem (add_var p t a S) = pmem S"
  "taskSwitchHooks (add_var p t a S) = taskSwitchHooks S" "taskVarLibInstalled (add_var p t a S) = taskVarLibInstalled S"
  by (simp_all add: add_var_def)

lemma taskVarAdd_eq:
  assumes "tv_rep T S A" and "t \<in> T" and "p \<noteq> NULL"
  shows "taskVarAdd p t a S = (OK, add_var p t a S)"
proof -
  have "taskVarLibInstalled S" using assms(1) by (simp add: tv_rep_def)
  then show ?thesis using hook_tcb_ok [OF assms(1,2)] assms(3)
    by (cases "taskVars S p") (simp add: taskVarAdd_def Let_def add_var_def upd_var_def)
qed

lemma own_add: "p \<notin> set xs \<Longrightarrow> own (add_var p t a S) xs b = own S xs b"
  by (rule own_frame) auto

lemma lists_add:
  assumes "tv_lists S ns" and "p \<noteq> NULL" and "p \<notin> (\<Union>t. set (ns t))" and "own S (ns t) a = None"
  shows "tv_lists (add_var p t a S) (ns(t := p # ns t))"
proof -
  let ?S = "add_var p t a S" and ?ns = "ns(t := p # ns t)"
  have n: "p \<notin> set (ns u)" for u using assms(3) by auto
  have s: "tvseg ?S (pTaskVar S u) (ns u)" and d: "distinct (map (var_addr ?S) (ns u))" for u
  proof -
    have x: "x \<noteq> p" if "x \<in> set (ns u)" for x using n [of u] that by auto
    show "tvseg ?S (pTaskVar S u) (ns u)"
      by (rule tvseg_frame [of S]) (use assms(1) x in \<open>auto simp: tv_lists_def\<close>)
    have m: "map (var_addr ?S) (ns u) = map (var_addr S) (ns u)" using x by auto
    show "distinct (map (var_addr ?S) (ns u))" unfolding m using assms(1) by (simp add: tv_lists_def)
  qed
  have a: "a \<notin> var_addr ?S ` set (ns t)"
    using assms(4) n [of t] unfolding own_None by (auto simp: image_iff)
  have "tvseg ?S (pTaskVar ?S u) (?ns u) \<and> distinct (map (var_addr ?S) (?ns u))" for u
    using s [of u] d [of u] a n [of t] assms(2) by auto
  moreover have "set (?ns u) \<inter> set (?ns u') = {}" if "u \<noteq> u'" for u u'
    using assms(1) n [of u] n [of u'] that by (auto simp: tv_lists_def)
  ultimately show ?thesis unfolding tv_lists_def by blast
qed

lemma vars_add:
  assumes "vars_in S ns (Some c) A" and "p \<notin> (\<Union>t. set (ns t))" and "own S (ns t) a = None" and "pmem S a = ta_view A a"
    and "ta_cur A = c"
  shows "vars_in (add_var p t a S) (ns(t := p # ns t)) (Some c) (ta_put t a (ta_view A a) A)"
proof -
  let ?S = "add_var p t a S" and ?ns = "ns(t := p # ns t)"
  have o: "own ?S (?ns u) b = (if u = t \<and> b = a then Some p else own S (ns u) b)" for u b
    using assms(2) own_add [of p "ns u" t a S b] by auto
  have x: "own S (ns u) b \<noteq> Some p" for u b using assms(2) own_Some by fastforce
  have p: "ta_priv A u b = map_option (\<lambda>x. if Some c = Some u then pmem S b else var_val S x) (own S (ns u) b)"
    and s: "ta_shared A b = (case own S (ns c) b of None \<Rightarrow> pmem S b | Some x \<Rightarrow> var_val S x)" for u b
    using assms(1) by (simp_all add: vars_in_def)
  have "ta_priv (ta_put t a (ta_view A a) A) u b =
      map_option (\<lambda>x. if Some c = Some u then pmem ?S b else var_val ?S x) (own ?S (?ns u) b)" for u b
  proof (cases "u = t \<and> b = a")
    case True
    then show ?thesis using o [of u b] assms(4) by (simp add: ta_put_def)
  next
    case False
    then show ?thesis using p [of u b] o [of u b] x [of u b]
      by (cases "own S (ns u) b") (auto simp: ta_put_def)
  qed
  moreover have "ta_shared (ta_put t a (ta_view A a) A) b =
      (case own ?S (?ns c) b of None \<Rightarrow> pmem ?S b | Some x \<Rightarrow> var_val ?S x)" for b
    using s [of b] o [of c b] x [of c b] assms(3) by (cases "own S (ns c) b") (auto simp: ta_put_def)
  ultimately show ?thesis unfolding vars_in_def by simp
qed

lemma tv_rep_add:
  assumes "tv_rep T S A" and "tv_ok T (TAdd p t a) A"
  shows "tv_rep T (add_var p t a S) (snd (ta_step (TAdd p t a) A))"
proof -
  let ?c = "ta_cur A"
  obtain ns where ns: "tv_lists S ns" "vars_in S ns (Some ?c) A" "ta_nodes A = (\<Union>t. set (ns t))"
    using assms(1) by (auto simp: tv_rep_def)
  have "own S (ns t) a = None" using ns(2) assms(2) by (auto simp: vars_in_def)
  note l = lists_add [OF ns(1) _ _ this, of p] and v = vars_add [OF ns(2) _ this, of p]
  have p: "p \<notin> (\<Union>t. set (ns t))" "p \<noteq> NULL" using assms(2) ns(3) by auto
  have nodes: "(\<Union>u. set ((ns(t := p # ns t)) u)) = insert p (\<Union>t. set (ns t))"
    by (auto split: if_splits)
  have v': "vars_in (add_var p t a S) (ns(t := p # ns t)) (Some ?c) (snd (ta_step (TAdd p t a) A))"
    using v [OF p(1) tv_rep_read(1) [OF assms(1)] refl] by (simp add: vars_in_def)
  show ?thesis
    by (rule tv_rep_vars [OF assms(1) l [OF p(2,1)] v']) (use nodes ns(3) in \<open>simp_all add: ta_put_def\<close>)
qed

lemma tv_step_ok:
  assumes "tv_rep T S A" and "tv_ok T op A"
  shows "\<exists>S'. tv_step op S = Some (fst (ta_step op A), S') \<and> tv_rep T S' (snd (ta_step op A))"
proof (cases op)
  case (TSwitch t)
  with switch_rep [OF assms(1)] assms(2) show ?thesis by force
next
  case (TPoke a v)
  with tv_rep_poke [OF assms(1)] show ?thesis by simp
next
  case (TPeek a)
  with tv_rep_read(1) [OF assms(1)] assms(1) show ?thesis by simp
next
  case (TAdd p t a)
  with assms tv_rep_add [OF assms(1)] taskVarAdd_eq [OF assms(1), of t p] show ?thesis by simp
next
  case (TSet t a v)
  with tv_rep_set [OF assms(1)] assms(2) show ?thesis by simp
next
  case (TGet t a)
  obtain ns where ns: "tv_lists S ns" "vars_in S ns (Some (ta_cur A)) A" "ta_nodes A = (\<Union>t. set (ns t))"
    using assms(1) by (auto simp: tv_rep_def)
  have "tv_rep T (hook_errno S_taskLib_TASK_VAR_NOT_FOUND S) A"
    by (rule tv_rep_vars [OF assms(1), where ns = ns])
      (use ns in \<open>auto simp: hook_errno_def on_kern_def intro: lists_cong vars_in_cong [THEN iffD2]\<close>)
  with TGet tv_rep_read(2) [OF assms(1)] assms show ?thesis by (cases "ta_priv A t a") auto
next
  case (TDel t a)
  with assms(1) show ?thesis by (simp add: taskVarDelete_def tv_rep_def)
qed

subsection \<open>Runs\<close>

lemma tv_run_rep:
  "tv_rep T S A \<Longrightarrow> tv_run_ok T ops A \<Longrightarrow>
    \<exists>S'. tv_run ops S = Some (fst (ta_run ops A), S') \<and> tv_rep T S' (snd (ta_run ops A))"
proof (induction ops arbitrary: S A)
  case (Cons op ops)
  from Cons.prems have ok: "tv_ok T op A" "tv_run_ok T ops (snd (ta_step op A))" by auto
  obtain S1 where S1: "tv_step op S = Some (fst (ta_step op A), S1)" "tv_rep T S1 (snd (ta_step op A))"
    using tv_step_ok [OF Cons.prems(1) ok(1)] by blast
  from Cons.IH [OF S1(2) ok(2)] S1(1) show ?case by (auto simp: case_prod_unfold Let_def)
qed simp

subsection \<open>Initialising the library\<close>

definition tv_start :: "tv_state \<Rightarrow> tv_abs" where
  "tv_start S = \<lparr>ta_cur = taskIdCurrent (hkern S), ta_shared = pmem S, ta_priv = \<lambda>t a. None, ta_nodes = {}\<rparr>"

definition tv_fresh :: "kenv \<Rightarrow> ptr set \<Rightarrow> tv_state \<Rightarrow> bool" where
  "tv_fresh e T S \<longleftrightarrow> undisturbed e (hkern S) \<and> hooks_in SwitchHooks [] S \<and> hooks_in DeleteHooks [] S
     \<and> \<not> taskVarLibInstalled S \<and> (\<forall>t. pTaskVar S t = NULL) \<and> taskIdCurrent (hkern S) \<in> T \<and> NULL \<notin> T
     \<and> (\<forall>t \<in> T. tIsTask (tcbs (hkern S) t) \<and> tSwapInMask (tcbs (hkern S) t) = 0 \<and> tSwapOutMask (tcbs (hkern S) t) = 0)"

lemma tv_init:
  assumes "tv_fresh e T S"
  shows "\<exists>S'. taskVarLibInit e (Suc n) S = Some (OK, S') \<and> tv_rep T S' (tv_start S)"
proof -
  note f = assms [unfolded tv_fresh_def]
  let ?S1 = "S\<lparr>taskSwitchHooks := SWITCH_HOOK # replicate 16 NULL\<rparr>"
  let ?S2 = "?S1\<lparr>taskDeleteHooks := DELETE_HOOK # replicate 16 NULL\<rparr>"
  let ?S3 = "?S2\<lparr>taskVarLibInstalled := True\<rparr>"
  have "taskSwitchHookAdd e (Suc n) SWITCH_HOOK S = Some (OK, ?S1)"
    using taskHookAdd_rep [of e S SwitchHooks "[]" SWITCH_HOOK n] f
    by (simp add: taskSwitchHookAdd_def max_hooks SWITCH_HOOK_def)
  moreover have "hooks_in DeleteHooks [] ?S1" using f by (simp add: hooks_in_def)
  then have "taskDeleteHookAdd e (Suc n) DELETE_HOOK ?S1 = Some (OK, ?S2)"
    using taskHookAdd_rep [of e ?S1 DeleteHooks "[]" DELETE_HOOK n] f
    by (simp add: taskDeleteHookAdd_def max_hooks DELETE_HOOK_def)
  ultimately have "taskVarLibInit e (Suc n) S = Some (OK, ?S3)"
    using f by (simp add: taskVarLibInit_def)
  moreover have "tv_lists ?S3 (\<lambda>t. [])" "vars_in ?S3 (\<lambda>t. []) (Some (ta_cur (tv_start S))) (tv_start S)"
    using f by (simp_all add: tv_lists_def vars_in_def tv_start_def)
  then have "tv_rep T ?S3 (tv_start S)"
    unfolding tv_rep_def using f by (intro conjI exI [of _ "\<lambda>t. []"]) (auto simp: tv_start_def)
  ultimately show ?thesis by blast
qed

subsection \<open>A task that ends\<close>

lemma free_vars_seg:
  "tvseg S p xs \<Longrightarrow> free_vars p S = Some (S\<lparr>tvFreed := set xs \<union> tvFreed S\<rparr>)"
proof (induction xs arbitrary: p S)
  case Nil
  then show ?case by (subst free_vars.simps) simp
next
  case (Cons x xs)
  let ?S = "S\<lparr>tvFreed := insert x (tvFreed S)\<rparr>"
  have "tvseg ?S (tvNext (taskVars S x)) xs" using Cons.prems by (auto intro: tvseg_frame)
  from Cons.IH [OF this] Cons.prems show ?case
    by (subst free_vars.simps) (simp add: Let_def Un_commute Un_left_commute)
qed

text \<open>The object core of a task is cleared when it is deleted; then another task is switched to.\<close>

definition end_task :: "ptr \<Rightarrow> tv_state \<Rightarrow> tv_state" where
  "end_task c = on_kern (set_pObjClass (TaskObj c) None)"

subsection \<open>Properties\<close>

text \<open>C37. Task variables are private, to the tasks of a set \<open>T\<close>, the running one among them, with no swap hooks attached, when the library is
  the first to install a switch and a delete hook, no task has variables yet, the call does not switch tasks, and a
  task adds a variable only once, with memory that no variable uses yet (a variable added twice has two copies, and
  is not private). From \<open>taskVarLibInit\<close> on, any sequence of switches between these tasks, writes and reads of
  the program, and calls of \<open>taskVarAdd\<close>, \<open>taskVarSet\<close>, \<open>taskVarGet\<close> and \<open>taskVarDelete\<close> for them then returns what
  it returns in
  a machine where each task has its own copy of the variables it added and all others share theirs: the hook of
  the task switch, called through the table, exchanges the copies in time. \<open>taskVarDelete\<close> always refuses.\<close>

theorem task_var_private:
  assumes "tv_fresh e T S" and "tv_run_ok T ops (tv_start S)"
  shows "\<exists>S1 S2. taskVarLibInit e (Suc n) S = Some (OK, S1)
    \<and> tv_run ops S1 = Some (fst (ta_run ops (tv_start S)), S2)
    \<and> (\<forall>a. pmem S2 a = ta_view (snd (ta_run ops (tv_start S))) a)"
proof -
  obtain S1 where S1: "taskVarLibInit e (Suc n) S = Some (OK, S1)" "tv_rep T S1 (tv_start S)"
    using tv_init [OF assms(1)] by blast
  obtain S2 where S2: "tv_run ops S1 = Some (fst (ta_run ops (tv_start S)), S2)"
      "tv_rep T S2 (snd (ta_run ops (tv_start S)))"
    using tv_run_rep [OF S1(2) assms(2)] by blast
  from S1(1) S2(1) tv_rep_read(1) [OF S2(2)] show ?thesis by blast
qed

definition tv_demo :: tv_state where
  "tv_demo = \<lparr>hkern = demo_run, taskCreateHooks = replicate 17 NULL, taskSwitchHooks = replicate 17 NULL,
     taskDeleteHooks = replicate 17 NULL, taskSwapHooks = replicate 17 NULL, taskHookLibInstalled = True,
     taskVars = (\<lambda>p. \<lparr>tvNext = 0, tvAddr = 0, tvValue = 0\<rparr>), pTaskVar = (\<lambda>t. NULL), pmem = (\<lambda>a. 5), tvFreed = {},
     taskVarLibInstalled = False\<rparr>"

lemma tv_demo_fresh: "tv_fresh demo_env {1, 2} tv_demo"
  using demo_undisturbed by (auto simp: tv_fresh_def tv_demo_def hooks_in_def demo_tcb_def)

theorem task_var_private_witness:
  "\<exists>S1 S2. taskVarLibInit demo_env 1 tv_demo = Some (OK, S1) \<and>
    tv_run [TAdd 900 1 40, TPoke 40 7, TPeek 40, TSwitch 2, TPeek 40, TGet 1 40, TPoke 40 6, TSet 1 40 8, TSwitch 1,
      TPeek 40, TSwitch 2, TPeek 40, TDel 1 40] S1 = Some ([0, 0, 7, 0, 5, 7, 0, 0, 0, 8, 0, 6, - 1], S2)"
proof -
  let ?ops = "[TAdd 900 1 40, TPoke 40 7, TPeek 40, TSwitch 2, TPeek 40, TGet 1 40, TPoke 40 6, TSet 1 40 8, TSwitch 1,
      TPeek 40, TSwitch 2, TPeek 40, TDel 1 40]"
  have "tv_run_ok {1, 2} ?ops (tv_start tv_demo)"
    by (simp add: tv_start_def tv_demo_def ta_put_def ta_view_def)
  from task_var_private [OF tv_demo_fresh this, of 0]
  show ?thesis by (fastforce simp: tv_start_def tv_demo_def ta_put_def ta_view_def Let_def)
qed

text \<open>A task that ends leaves its private values behind. When the running task is deleted, the delete hook
  frees its variables without putting the shared values back, and the switch hook skips a task that is gone: the
  next task, which did not add the variable, reads what the dead task had in it and the shared value is lost.\<close>

theorem task_var_exit_leaks:
  assumes "tv_rep T S A" and "ta_priv A (ta_cur A) a = Some v" and "t \<in> T" and "t \<noteq> ta_cur A" and "ta_priv A t a = None"
  shows "\<exists>S1 S2. taskVarDeleteHook (ta_cur A) S = Some S1
    \<and> switch_hooks call_switch (ta_cur A) t (end_task (ta_cur A) S1) = Some S2
    \<and> pmem S2 a = v \<and> pTaskVar S2 (ta_cur A) \<in> tvFreed S2"
proof -
  let ?c = "ta_cur A"
  obtain ns where ns: "tv_lists S ns" "vars_in S ns (Some ?c) A" and h: "taskSwitchHooks S = SWITCH_HOOK # replicate 16 NULL"
    and k: "\<forall>t \<in> T. tIsTask (tcbs (hkern S) t) \<and> tSwapInMask (tcbs (hkern S) t) = 0 \<and> tSwapOutMask (tcbs (hkern S) t) = 0"
    and c: "?c \<in> T"
    using assms(1) by (auto simp: tv_rep_def)
  obtain x where x: "own S (ns ?c) a = Some x" using ns(2) assms(2) by (auto simp: vars_in_def)
  have n: "own S (ns t) a = None" using ns(2) assms(5) by (auto simp: vars_in_def)
  have v: "pmem S a = v" using tv_rep_read(1) [OF assms(1), of a] assms(2) by (simp add: ta_view_def)
  define S1 where "S1 = S\<lparr>tvFreed := set (ns ?c) \<union> tvFreed S\<rparr>"
  have d: "taskVarDeleteHook ?c S = Some S1"
    using free_vars_seg [of S "pTaskVar S ?c" "ns ?c"] ns(1) by (simp add: taskVarDeleteHook_def S1_def tv_lists_def)
  define S0 where "S0 = on_kern (\<lambda>k. k\<lparr>taskIdCurrent := t\<rparr>) (end_task ?c S1)"
  define S2 where "S2 = swapped (ns t) (hook_errno S_objLib_ID_ERROR S0)"
  have f: "taskVars S0 = taskVars S" "pTaskVar S0 = pTaskVar S" "pmem S0 = pmem S" "taskSwitchHooks S0 = taskSwitchHooks S"
    "tvFreed S0 = set (ns ?c) \<union> tvFreed S"
    "tcbs (hkern S0) = (tcbs (hkern S))(?c := (tcbs (hkern S) ?c)\<lparr>tIsTask := False\<rparr>)"
    by (simp_all add: S0_def S1_def end_task_def on_kern_def upd_tcb_def)
  have g: "taskVars (hook_errno w S0) = taskVars S" "pTaskVar (hook_errno w S0) = pTaskVar S" "pmem (hook_errno w S0) = pmem S"
    "taskSwitchHooks (hook_errno w S0) = taskSwitchHooks S" "tvFreed (hook_errno w S0) = tvFreed S0" for w
    by (simp_all add: hook_errno_def on_kern_def f)
  have l: "tv_lists (hook_errno S_objLib_ID_ERROR S0) ns" by (rule lists_cong [OF g(1,2) ns(1)])
  then have "swap_vars (pTaskVar S t) (hook_errno S_objLib_ID_ERROR S0) = Some S2"
    using swap_vars_seg [of "hook_errno S_objLib_ID_ERROR S0" "pTaskVar S t" "ns t"] g(2)
    by (simp add: tv_lists_def S2_def)
  moreover have "TASK_ID_VERIFY_eq_OK ?c (hkern S0) = (0, errnoSet S_objLib_ID_ERROR (hkern S0))"
    by (simp add: TASK_ID_VERIFY_eq_OK_def OBJ_VERIFY_ne_OK_def f(6))
  ultimately have "taskVarSwitchHook ?c t S0 = Some S2"
    using g(2) by (simp add: taskVarSwitchHook_def hook_errno_def on_kern_def)
  then have "taskHookSwitch call_switch ?c t S0 = Some S2"
    by (intro switch_two) (simp_all add: f(4) h S2_def swapped_fields g(4))
  moreover have "tSwapInMask (tcbs (hkern S0) t) OR tSwapOutMask (tcbs (hkern S0) ?c) = 0"
    using k c assms(3,4) by (simp add: f(6))
  ultimately have sw: "switch_hooks call_switch ?c t (end_task ?c S1) = Some S2"
    by (simp add: switch_hooks_def S0_def [symmetric] Let_def)
  have "own (hook_errno S_objLib_ID_ERROR S0) (ns t) a = None" unfolding own_def g(1) using n by (simp add: own_def)
  then have m: "pmem S2 a = v" by (simp add: S2_def swapped_mem g(3) v)
  have "tvseg S (pTaskVar S ?c) (ns ?c)" using ns(1) by (simp add: tv_lists_def)
  then have "pTaskVar S ?c \<in> set (ns ?c)" using own_Some [OF x] by (cases "ns ?c") auto
  then have "pTaskVar S2 ?c \<in> tvFreed S2" by (simp add: S2_def swapped_fields g(2)) (simp add: swapped_def g(5) f(5))
  with d sw m show ?thesis by blast
qed

end
