(* ===== verification/KernelInit.thy ===== *)
theory KernelInit
  imports TaskHookLib MsgQLib SemLib
begin

text \<open>
  Starting the kernel: \<open>usrKernelInit\<close> of \<open>src/build/all/usrKernel.c\<close>, which installs the libraries and sets up the
  queues, and \<open>kernelInit\<close> of \<open>src/vmx/kernelLib.c\<close>, which makes the root task at the end of the memory pool and
  switches to it. The show libraries print and are left out; the classes' sizes, offsets and methods are the
  parameter \<open>cls\<close>, the size of a TCB is \<open>tcb_size\<close>. The fill of the interrupt stack, the interrupt lock level and
  the arguments of the root task are not part of the model.
\<close>

record class_args =
  ca_size :: "class_id \<Rightarrow> u32"
  ca_offset :: "class_id \<Rightarrow> int"
  ca_part :: ptr

definition usrKernelInit :: "class_args \<Rightarrow> 'a hook_state_scheme \<Rightarrow> 'a hook_state_scheme" where
  "usrKernelInit cls S =
     (let S = on_kern (\<lambda>k. snd (classLibInit (ca_size cls RootClass) (ca_offset cls RootClass) (ca_part cls) 1 2 3 k)) S;
          S = on_kern (\<lambda>k. snd (taskLibInit (ca_size cls TaskClass) (ca_offset cls TaskClass) (ca_part cls) k)) S;
          S = snd (taskHookLibInit S);
          S = on_kern (\<lambda>k. snd (semLibInit (ca_size cls SemClass) (ca_offset cls SemClass) (ca_part cls) k)) S;
          S = on_kern (\<lambda>k. snd (semBLibInit k)) S;
          S = on_kern (\<lambda>k. snd (semMLibInit k)) S;
          S = on_kern (\<lambda>k. snd (semCLibInit k)) S;
          S = on_kern (\<lambda>k. snd (msgQLibInit (ca_size cls MsgQClass) (ca_offset cls MsgQClass) (ca_part cls)
                (Some 1) (Some 2) (Some 3) k)) S;
          S = on_kern (\<lambda>k. k\<lparr>activeQ := []\<rparr>) S;
          S = on_kern (\<lambda>k. k\<lparr>tickQ := []\<rparr>) S;
          S = on_kern (\<lambda>k. k\<lparr>readyQ := []\<rparr>) S;
          S = on_kern (\<lambda>k. k\<lparr>workQ := snd (workQLibInit (workQ k))\<rparr>) S
      in on_kern tickLibInit S)"

definition MEM_BLOCK_HEADER_SIZE :: u32 where "MEM_BLOCK_HEADER_SIZE = STACK_ROUND_UP 8"
definition MEM_FREE_BLOCK_SIZE :: u32 where "MEM_FREE_BLOCK_SIZE = STACK_ROUND_UP 16"
definition MEM_BASE_BLOCK_SIZE :: u32 where "MEM_BASE_BLOCK_SIZE = MEM_BLOCK_HEADER_SIZE + MEM_FREE_BLOCK_SIZE"
definition MEM_TOTAL_BLOCK_SIZE :: u32 where "MEM_TOTAL_BLOCK_SIZE = 2 * MEM_BLOCK_HEADER_SIZE + MEM_FREE_BLOCK_SIZE"

definition TASK_OPTIONS_UNBREAKABLE :: u32 where "TASK_OPTIONS_UNBREAKABLE = 0x0002"

text \<open>The temporary TCB on the stack, cleared.\<close>

definition zero_tcb :: TCB where
  "zero_tcb = \<lparr>tStatus = 0, tLockCount = 0, tPriority = 0, tOptions = 0, tTimeSlice = 0, tPendQ = None,
     tUnpendHandler = None, tObj = NULL, tObjInfo = 0, tSafeCount = 0, tErrorStatus = 0, tExitCode = 0, tEax = 0,
     tErrno = 0, tSwapInMask = 0, tSwapOutMask = 0, tIsTask = False, tName = None, tId = 0, tEntry = 0,
     tStackBase = 0, tStackLimit = 0, tStackEnd = 0\<rparr>"

text \<open>The global variables of \<open>kernelLib.c\<close> about memory, and the pool that is left for the root task.\<close>

record root_mem =
  pRootMemStart :: u32
  rootMemNBytes :: u32
  rootTaskId :: ptr
  pExcStackBase :: u32
  pExcStackEnd :: u32
  rmPoolStart :: u32
  rmPoolSize :: u32

definition root_layout :: "u32 \<Rightarrow> u32 \<Rightarrow> u32 \<Rightarrow> u32 \<Rightarrow> u32 \<Rightarrow> root_mem \<times> u32 \<times> u32" where
  "root_layout tcb_size rootMemSize pMemPoolStart pMemPoolEnd excStackSize =
     (let pMemPoolStart = STACK_ROUND_UP pMemPoolStart;
          pMemPoolEnd = STACK_ROUND_UP pMemPoolEnd;
          excStackSize = STACK_ROUND_UP excStackSize;
          nBytes = STACK_ROUND_UP rootMemSize;
          excBase = pMemPoolStart + excStackSize;
          rootStackSize = nBytes - STACK_ROUND_UP tcb_size - MEM_TOTAL_BLOCK_SIZE;
          rootStart = pMemPoolEnd - nBytes;
          pRootStackBase = rootStart + rootStackSize + MEM_BASE_BLOCK_SIZE
      in (\<lparr>pRootMemStart = rootStart, rootMemNBytes = nBytes, rootTaskId = unat pRootStackBase, pExcStackBase = excBase,
            pExcStackEnd = pMemPoolStart, rmPoolStart = excBase, rmPoolSize = rootStart - excBase\<rparr>,
          pRootStackBase, rootStackSize))"

text \<open>\<open>initTcb\<close> is the address of the temporary TCB.\<close>

definition kernelInit ::
  "kenv \<Rightarrow> nat \<Rightarrow> (ptr \<Rightarrow> kstate \<Rightarrow> kstate option) \<Rightarrow> u32 \<Rightarrow> ptr \<Rightarrow> nat \<Rightarrow> u32 \<Rightarrow> u32 \<Rightarrow> u32 \<Rightarrow> u32 \<Rightarrow> kstate \<Rightarrow>
    (root_mem \<times> kstate) option" where
  "kernelInit e n createHooks tcb_size initTcb rootFunc rootMemSize pMemPoolStart pMemPoolEnd excStackSize s =
     (case root_layout tcb_size rootMemSize pMemPoolStart pMemPoolEnd excStackSize of
        (rm, pRootStackBase, rootStackSize) \<Rightarrow> do {
          let tcbId = rootTaskId rm;
          let s = s\<lparr>kernelState := False, roundRobinOn := False, roundRobinSlice := 0\<rparr>;
          let s = s\<lparr>taskIdCurrent := NULL\<rparr>;
          let s = upd_tcb initTcb (\<lambda>c. zero_tcb) s;
          (st, s) \<leftarrow> taskInit createHooks tcbId (Some ''tRootTask'') 0 TASK_OPTIONS_UNBREAKABLE
            pRootStackBase rootStackSize rootFunc s;
          let s = s\<lparr>taskIdCurrent := initTcb\<rparr>;
          (st, s) \<leftarrow> taskActivate e n tcbId s;
          Some (rm, s)
        })"

definition kernelVersion :: string where
  "kernelVersion = ''vmx pre-alpha''"

end
