(* ===== verification/BootProps.thy ===== *)
theory BootProps
  imports KernelInit MsgQProps
begin

text \<open>
  The state the kernel starts in: from memory where nothing is installed and no queue is in use, the two
  initialisation functions end in the root task, with the invariant of the kernel.
\<close>

definition cold :: "kstate \<Rightarrow> bool" where
  "cold k \<longleftrightarrow> \<not> taskLibInstalled k \<and> intCnt k = 0
     \<and> (\<forall>r. pend_list (pendQs k r) = []) \<and> (\<forall>w. wdStatus (wdogs k w) \<noteq> WDOG_IN_Q)"

text \<open>What no library's initialisation touches.\<close>

definition keeps :: "kstate \<Rightarrow> kstate \<Rightarrow> bool" where
  "keeps k k' \<longleftrightarrow> intCnt k' = intCnt k \<and> pendQs k' = pendQs k \<and> wdogs k' = wdogs k
     \<and> (taskLibInstalled k \<longrightarrow> taskLibInstalled k')"

lemma keeps_trans: "keeps k k' \<Longrightarrow> keeps k' k'' \<Longrightarrow> keeps k k''"
  by (simp add: keeps_def)

lemma classInit_keeps: "keeps k (snd (classInit c sz off part a b d k))"
  by (simp add: classInit_def Let_def keeps_def objCoreInit_def upd_class_def)

lemma classInit_ok: "classInit c sz off part a b d k = (OK, snd (classInit c sz off part a b d k))"
  by (simp add: classInit_def Let_def)

lemma lib_keeps:
  "keeps k (snd (classLibInit sz off part a b d k))" "keeps k (snd (taskLibInit sz off part k))"
  "keeps k (snd (semLibInit sz off part k))" "keeps k (snd (semBLibInit k))" "keeps k (snd (semMLibInit k))"
  "keeps k (snd (semCLibInit k))" "keeps k (snd (msgQLibInit sz off part ma mb mc k))"
proof -
  note c = classInit_ok and kc = classInit_keeps
  show "keeps k (snd (classLibInit sz off part a b d k))"
    using kc by (subst classLibInit_def, subst c) simp
  show "keeps k (snd (taskLibInit sz off part k))"
    using kc [of k TaskClass] by (subst taskLibInit_def, subst c) (simp add: keeps_def)
  show "keeps k (snd (semLibInit sz off part k))"
    using kc [of k SemClass] by (subst semLibInit_def, subst c) (simp add: keeps_def)
  show "keeps k (snd (msgQLibInit sz off part ma mb mc k))"
    using kc [of k MsgQClass] by (subst msgQLibInit_def, subst c) (simp add: keeps_def)
qed (simp_all add: semBLibInit_def semMLibInit_def semCLibInit_def keeps_def)

lemma taskLibInit_installed: "taskLibInstalled (snd (taskLibInit sz off part k))"
  by (subst taskLibInit_def, subst classInit_ok) simp

lemma hkern_on_kern [simp]: "hkern (on_kern f S) = f (hkern S)"
  by (simp add: on_kern_def)

lemma hook_init_keeps: "keeps (hkern S) (hkern (snd (taskHookLibInit S)))"
  by (simp add: taskHookLibInit_def Let_def keeps_def on_kern_def)

text \<open>The libraries first, then the queues and the clock.\<close>

definition libs_init :: "class_args \<Rightarrow> 'a hook_state_scheme \<Rightarrow> kstate" where
  "libs_init cls S =
     (let S = on_kern (\<lambda>k. snd (classLibInit (ca_size cls RootClass) (ca_offset cls RootClass) (ca_part cls) 1 2 3 k)) S;
          S = on_kern (\<lambda>k. snd (taskLibInit (ca_size cls TaskClass) (ca_offset cls TaskClass) (ca_part cls) k)) S;
          k = hkern (snd (taskHookLibInit S));
          k = snd (semLibInit (ca_size cls SemClass) (ca_offset cls SemClass) (ca_part cls) k);
          k = snd (semCLibInit (snd (semMLibInit (snd (semBLibInit k)))))
      in snd (msgQLibInit (ca_size cls MsgQClass) (ca_offset cls MsgQClass) (ca_part cls) (Some 1) (Some 2) (Some 3) k))"

lemma usrKernelInit_hkern:
  "hkern (usrKernelInit cls S) = tickLibInit ((libs_init cls S)
     \<lparr>activeQ := [], tickQ := [], readyQ := [], workQ := snd (workQLibInit (workQ (libs_init cls S)))\<rparr>)"
proof -
  have q: "k\<lparr>activeQ := []\<rparr>\<lparr>tickQ := []\<rparr>\<lparr>readyQ := []\<rparr>\<lparr>workQ := snd (workQLibInit (workQ (k\<lparr>activeQ := []\<rparr>\<lparr>tickQ := []\<rparr>\<lparr>readyQ := []\<rparr>)))\<rparr>
      = k\<lparr>activeQ := [], tickQ := [], readyQ := [], workQ := snd (workQLibInit (workQ k))\<rparr>" for k :: kstate
    by simp
  show ?thesis unfolding usrKernelInit_def libs_init_def Let_def hkern_on_kern q ..
qed

lemma libs_init_keeps: "keeps (hkern S) (libs_init cls S)" "taskLibInstalled (libs_init cls S)"
proof -
  let ?S1 = "on_kern (\<lambda>k. snd (classLibInit (ca_size cls RootClass) (ca_offset cls RootClass) (ca_part cls) 1 2 3 k)) S"
  let ?S2 = "on_kern (\<lambda>k. snd (taskLibInit (ca_size cls TaskClass) (ca_offset cls TaskClass) (ca_part cls) k)) ?S1"
  have a: "keeps (hkern S) (hkern ?S2)" unfolding hkern_on_kern by (rule keeps_trans [OF lib_keeps(1) lib_keeps(2)])
  have b: "keeps (hkern ?S2) (libs_init cls S)"
    unfolding libs_init_def Let_def
    by (rule keeps_trans [OF hook_init_keeps keeps_trans [OF lib_keeps(3) keeps_trans [OF lib_keeps(4)
        keeps_trans [OF lib_keeps(5) keeps_trans [OF lib_keeps(6) lib_keeps(7)]]]]])
  show "keeps (hkern S) (libs_init cls S)" by (rule keeps_trans [OF a b])
  have "taskLibInstalled (hkern ?S2)" unfolding hkern_on_kern by (rule taskLibInit_installed)
  with b show "taskLibInstalled (libs_init cls S)" by (simp add: keeps_def)
qed

text \<open>A kernel with its libraries, no task and nothing in any queue.\<close>

definition empty_kernel :: "kstate \<Rightarrow> bool" where
  "empty_kernel k \<longleftrightarrow> taskLibInstalled k \<and> intCnt k = 0 \<and> (\<forall>r. pend_list (pendQs k r) = [])
     \<and> (\<forall>w. wdStatus (wdogs k w) \<noteq> WDOG_IN_Q) \<and> activeQ k = [] \<and> readyQ k = [] \<and> tickQ k = []
     \<and> workQIsEmpty (workQ k) \<and> sysTicks k = 0 \<and> sysAbsTicks k = 0"

lemma usrKernelInit_empty:
  assumes "cold (hkern S)"
  shows "empty_kernel (hkern (usrKernelInit cls S))"
  using libs_init_keeps [where S = S and cls = cls] assms
  by (simp add: usrKernelInit_hkern empty_kernel_def tickLibInit_def workQLibInit_def keeps_def cold_def)

subsection \<open>The root task\<close>

lemma task_name_shape:
  assumes "tIsTask (tcbs s t)" and "t \<noteq> NULL"
  shows "\<exists>c v. task_name t (Some nm) s = (upd_tcb t (\<lambda>_. c) s)\<lparr>errno := v\<rparr> \<and> tStatus c = tStatus (tcbs s t)
    \<and> tPriority c = tPriority (tcbs s t) \<and> tIsTask c \<and> tOptions c = tOptions (tcbs s t)"
proof -
  let ?n = "STACK_ROUND_UP (word_of_nat (length nm + 1))" and ?c = "tcbs s t"
  have tcb: "taskTcb t s = (t, s)"
    using assms by (simp add: taskTcb_def TASK_ID_VERIFY_ne_OK_def OBJ_VERIFY_ne_OK_def)
  show ?thesis
  proof (cases "?n > (tStackLimit ?c - tStackBase ?c) * (- 1)")
    case True
    let ?d = "?c\<lparr>tName := None\<rparr>"
    have "taskStackAllot t (word_of_nat (length nm + 1)) s = (None, errnoSet S_taskLib_STACK_OVERFLOW s)"
      unfolding taskStackAllot_def tcb Let_def prod.case using assms(2) True by (simp only: if_True if_False)
    then have "task_name t (Some nm) s = (upd_tcb t (\<lambda>_. ?d) s)\<lparr>errno := S_taskLib_STACK_OVERFLOW\<rparr>"
      unfolding task_name_def option.case by (simp only: prod.case option.map) (simp add: upd_tcb_def errnoSet_def)
    then show ?thesis using assms(1)
      by (intro exI [of _ ?d] exI [of _ S_taskLib_STACK_OVERFLOW]) simp
  next
    case False
    let ?d = "?c\<lparr>tStackLimit := tStackLimit ?c + ?n, tName := Some nm\<rparr>"
    have "taskStackAllot t (word_of_nat (length nm + 1)) s =
        (Some (tStackLimit ?c), upd_tcb t (\<lambda>c. c\<lparr>tStackLimit := tStackLimit c + ?n\<rparr>) s)"
      unfolding taskStackAllot_def tcb Let_def prod.case using assms(2) False by (simp only: if_True if_False)
    then have "task_name t (Some nm) s = (upd_tcb t (\<lambda>_. ?d) s)\<lparr>errno := errno s\<rparr>"
      unfolding task_name_def option.case by (simp only: prod.case option.map) (simp add: upd_tcb_def)
    then show ?thesis using assms(1)
      by (intro exI [of _ ?d] exI [of _ "errno s"]) simp
  qed
qed

text \<open>The kernel with one task, which is not ready yet.\<close>

definition one_task :: "ptr \<Rightarrow> kstate \<Rightarrow> bool" where
  "one_task t k \<longleftrightarrow> intCnt k = 0 \<and> (\<forall>r. pend_list (pendQs k r) = [])
     \<and> (\<forall>w. wdStatus (wdogs k w) \<noteq> WDOG_IN_Q) \<and> activeQ k = [t] \<and> readyQ k = [] \<and> tickQ k = []
     \<and> workQIsEmpty (workQ k) \<and> sysTicks k = 0 \<and> sysAbsTicks k = 0
     \<and> tStatus (tcbs k t) = TASK_SUSPEND \<and> tPriority (tcbs k t) = 0 \<and> tIsTask (tcbs k t)"

lemma taskInit_first:
  assumes "empty_kernel k" and "t \<noteq> NULL"
  shows "\<exists>k'. taskInit (\<lambda>t s. Some s) t (Some nm) 0 options base sz func k = Some (OK, k') \<and> one_task t k'
    \<and> tOptions (tcbs k' t) = options \<and> kernelState k' = kernelState k \<and> (\<forall>u. u \<noteq> t \<longrightarrow> tcbs k' u = tcbs k u)"
proof -
  note ek = assms(1) [unfolded empty_kernel_def]
  define k1 where "k1 = upd_tcb t (tcb_init (taskNewId k) 0 options base sz func) (k\<lparr>taskNewId := taskNewId k + 1\<rparr>)"
  define k2 where "k2 = objCoreInit (TaskObj t) TaskClass
    (k1\<lparr>pendQs := (pendQs k1)(SafetyQ t := \<lparr>pend_class = Some QPrioClass, pend_list = []\<rparr>)\<rparr>)"
  have f: "intCnt k2 = intCnt k" "wdogs k2 = wdogs k" "activeQ k2 = activeQ k" "readyQ k2 = readyQ k"
    "tickQ k2 = tickQ k" "workQ k2 = workQ k" "sysTicks k2 = sysTicks k" "sysAbsTicks k2 = sysAbsTicks k"
    "kernelState k2 = kernelState k"
    "pendQs k2 = (pendQs k)(SafetyQ t := \<lparr>pend_class = Some QPrioClass, pend_list = []\<rparr>)"
    by (simp_all add: k1_def k2_def objCoreInit_def upd_class_def upd_tcb_def)
  have c: "tStatus (tcbs k2 t) = TASK_SUSPEND" "tPriority (tcbs k2 t) = 0" "tIsTask (tcbs k2 t)"
    "tOptions (tcbs k2 t) = options" "\<And>u. u \<noteq> t \<Longrightarrow> tcbs k2 u = tcbs k u"
    by (simp_all add: k1_def k2_def objCoreInit_def upd_class_def upd_tcb_def tcb_init_def)
  obtain d v where d: "task_name t (Some nm) k2 = (upd_tcb t (\<lambda>_. d) k2)\<lparr>errno := v\<rparr>" "tStatus d = TASK_SUSPEND"
      "tPriority d = 0" "tIsTask d" "tOptions d = options"
    using task_name_shape [OF c(3) assms(2)] unfolding c by blast
  define k3 where "k3 = (upd_tcb t (\<lambda>_. d) k2)\<lparr>errno := v\<rparr>"
  have k3: "intCnt k3 = intCnt k2" "wdogs k3 = wdogs k2" "activeQ k3 = activeQ k2" "readyQ k3 = readyQ k2"
    "tickQ k3 = tickQ k2" "workQ k3 = workQ k2" "sysTicks k3 = sysTicks k2" "sysAbsTicks k3 = sysAbsTicks k2"
    "kernelState k3 = kernelState k2" "pendQs k3 = pendQs k2" "tcbs k3 = (tcbs k2)(t := d)"
    by (simp_all add: k3_def upd_tcb_def)
  define k4 where "k4 = k3\<lparr>activeQ := activeQ k3 @ [t]\<rparr>"
  have "vmxSpawn t k3 = Some k4"
    using ek assms(2) unfolding vmxSpawn_def activePut_def k4_def k3 f by simp
  moreover have "task_name t (Some nm) k2 = k3" using d(1) by (simp add: k3_def)
  ultimately have "taskInit (\<lambda>t s. Some s) t (Some nm) 0 options base sz func k = Some (OK, k4)"
    using ek by (simp add: taskInit_def Let_def INT_RESTRICT_def k1_def [symmetric] k2_def [symmetric])
  moreover have "one_task t k4"
    using ek d(2-4) unfolding one_task_def by (simp add: k4_def k3 f)
  moreover have "tOptions (tcbs k4 t) = options" "kernelState k4 = kernelState k" "\<forall>u. u \<noteq> t \<longrightarrow> tcbs k4 u = tcbs k u"
    using d(5) c(5) by (simp_all add: k4_def k3 f)
  ultimately show ?thesis by blast
qed

lemma first_activation:
  assumes "one_task t k" and "taskIdCurrent k = c" and "c \<noteq> NULL" and "c \<noteq> t" and "t \<noteq> NULL" and "\<not> kernelState k"
    and "tLockCount (tcbs k c) = 0" and "e_hooks e = no_hooks"
  shows "\<exists>k'. taskActivate e (Suc n) t k = Some (OK, k') \<and> in_task e k' \<and> taskIdCurrent k' = t \<and> activeQ k' = [t]
    \<and> readyQ k' = [(0, t)] \<and> tickQ k' = [] \<and> tPriority (tcbs k' t) = 0 \<and> tOptions (tcbs k' t) = tOptions (tcbs k t)"
proof -
  note o = assms(1) [unfolded one_task_def]
  define k1 where "k1 = status_clear t TASK_SUSPEND (k\<lparr>kernelState := True, readyQ := [(0, t)]\<rparr>)"
  define k2 where "k2 = (upd_tcb c (\<lambda>r. r\<lparr>tEax := 0, tErrno := errno k1\<rparr>) k1)\<lparr>kernelIsIdle := False, taskIdCurrent := t\<rparr>"
  define k3 where "k3 = k2\<lparr>errno := tErrno (tcbs k2 t), kernelState := False\<rparr>"
  have r: "vmxResume t (k\<lparr>kernelState := True\<rparr>) = Some k1"
    using o assms(5) by (simp add: vmxResume_def rdyPut_def k1_def pq_nodes_def)
  have f: "readyQ k1 = [(0, t)]" "taskIdCurrent k1 = c" "intCnt k1 = 0" "workQ k1 = workQ k" "tcbs k1 c = tcbs k c"
    using o assms(2,4) by (simp_all add: k1_def status_clear_def upd_tcb_def)
  have w: "workQIsEmpty (workQ k2)" using o f(4) by (simp add: k2_def upd_tcb_def)
  have "saveTaskContext e n k1 = Some k3"
    using f assms(5,8) w
    by (simp add: saveTaskContext_def vmxTaskReschedule_def readyFirst_def switchTasks_def no_hooks_def dispatch_def
        Let_def k2_def k3_def upd_tcb_def)
  then have "vmxExit e (Suc n) k1 = Some (Blocks, k3)"
    using f assms(3,4,7) by (simp add: vmxExit_def Let_def readyFirst_def)
  then have a: "taskActivate e (Suc n) t k = Some (OK, k3)"
    using r o assms(5,6)
    by (simp add: taskActivate_def taskResume_def TASK_ID_VERIFY_ne_OK_def OBJ_VERIFY_ne_OK_def through_kernel_def)
  have g: "activeQ k3 = [t]" "readyQ k3 = [(0, t)]" "tickQ k3 = []" "pendQs k3 = pendQs k" "wdogs k3 = wdogs k"
    "sysTicks k3 = 0" "sysAbsTicks k3 = 0" "workQ k3 = workQ k" "intCnt k3 = 0" "\<not> kernelState k3" "taskIdCurrent k3 = t"
    "tStatus (tcbs k3 t) = TASK_READY" "tPriority (tcbs k3 t) = 0" "tOptions (tcbs k3 t) = tOptions (tcbs k t)"
    using o assms(4) by (simp_all add: k3_def k2_def k1_def status_clear_def upd_tcb_def clear_flag_def)
  have "queues_ok k3" using o g by (simp add: queues_ok_def pend_ok_def pq_sorted_def)
  moreover have "task_ok k3 u" for u
    using o g assms(5) by (auto simp: task_ok_def Let_def pq_nodes_def has_flag_def status_ok_def)
  moreover have "wdog_ok k3 x" for x using o g by (simp add: wdog_ok_def pq_nodes_def)
  ultimately have "kok k3" using g by (simp add: kok_def kinv_def clock_ok_def tickGet_def)
  then have "in_task e k3" using g o assms(8) by (simp add: in_task_def live_def)
  with a g show ?thesis by blast
qed

subsection \<open>Properties\<close>

text \<open>C2. The kernel starts. From memory where no library is installed and no queue is in use, \<open>usrKernelInit\<close> and
  \<open>kernelInit\<close> end with the root task running: it is the current task and the only one, it is ready with priority 0,
  its TCB lies where \<open>kernelInit\<close> says, the work queue is empty, the kernel is left, and the invariant of the kernel,
  which all its routines keep, holds.\<close>

theorem kernel_boot:
  assumes "cold (hkern S)" and "e_hooks e = no_hooks"
    and "root_layout tcb_size rootMemSize pStart pEnd excSize = (rm, base, sz)" and "rootTaskId rm \<noteq> NULL"
    and "initTcb \<noteq> NULL" and "initTcb \<noteq> rootTaskId rm"
  shows "\<exists>k. kernelInit e (Suc n) (\<lambda>t s. Some s) tcb_size initTcb rootFunc rootMemSize pStart pEnd excSize
      (hkern (usrKernelInit cls S)) = Some (rm, k)
    \<and> in_task e k \<and> kok k \<and> taskIdCurrent k = rootTaskId rm \<and> activeQ k = [rootTaskId rm]
    \<and> readyQ k = [(0, rootTaskId rm)] \<and> tickQ k = [] \<and> tOptions (tcbs k (rootTaskId rm)) = TASK_OPTIONS_UNBREAKABLE"
proof -
  let ?t = "rootTaskId rm"
  let ?k0 = "upd_tcb initTcb (\<lambda>c. zero_tcb) ((hkern (usrKernelInit cls S))
    \<lparr>kernelState := False, roundRobinOn := False, roundRobinSlice := 0, taskIdCurrent := NULL\<rparr>)"
  have e0: "empty_kernel ?k0"
    using usrKernelInit_empty [OF assms(1), of cls] by (simp add: empty_kernel_def upd_tcb_def)
  obtain k1 where k1: "taskInit (\<lambda>t s. Some s) ?t (Some ''tRootTask'') 0 TASK_OPTIONS_UNBREAKABLE base sz rootFunc ?k0 =
        Some (OK, k1)" "one_task ?t k1" "tOptions (tcbs k1 ?t) = TASK_OPTIONS_UNBREAKABLE"
      "kernelState k1 = kernelState ?k0" "\<forall>u. u \<noteq> ?t \<longrightarrow> tcbs k1 u = tcbs ?k0 u"
    using taskInit_first [OF e0 assms(4)] by blast
  let ?k2 = "k1\<lparr>taskIdCurrent := initTcb\<rparr>"
  have "one_task ?t ?k2" using k1(2) by (simp add: one_task_def)
  moreover have "tLockCount (tcbs ?k2 initTcb) = 0"
    using k1(5) assms(6) by (simp add: upd_tcb_def zero_tcb_def)
  moreover have "\<not> kernelState ?k2" using k1(4) by (simp add: upd_tcb_def)
  ultimately obtain k where k: "taskActivate e (Suc n) ?t ?k2 = Some (OK, k)" "in_task e k" "taskIdCurrent k = ?t"
      "activeQ k = [?t]" "readyQ k = [(0, ?t)]" "tickQ k = []" "tOptions (tcbs k ?t) = TASK_OPTIONS_UNBREAKABLE"
    using first_activation [of ?t ?k2 initTcb e n] assms(2,4-6) k1(3) by auto
  have "kernelInit e (Suc n) (\<lambda>t s. Some s) tcb_size initTcb rootFunc rootMemSize pStart pEnd excSize
      (hkern (usrKernelInit cls S)) = Some (rm, k)"
    using k1(1) k(1) by (simp add: kernelInit_def assms(3) Let_def)
  with k show ?thesis by (auto simp: in_task_def)
qed

definition boot_demo :: hook_state where
  "boot_demo = \<lparr>hkern = demo\<lparr>taskLibInstalled := False, pendQs := (\<lambda>r. \<lparr>pend_class = None, pend_list = []\<rparr>)\<rparr>,
     taskCreateHooks = replicate 17 NULL, taskSwitchHooks = replicate 17 NULL, taskDeleteHooks = replicate 17 NULL,
     taskSwapHooks = replicate 17 NULL, taskHookLibInstalled = False\<rparr>"

lemma boot_demo_layout:
  "\<exists>rm. root_layout 200 0x4000 0x100000 0x500000 0x1000 = (rm, 0x4FFF30, 0x3F18) \<and> rootTaskId rm = 0x4FFF30
    \<and> rmPoolStart rm = 0x101000 \<and> rmPoolSize rm = 0x3FB000"
  unfolding root_layout_def STACK_ROUND_UP_def MEM_TOTAL_BLOCK_SIZE_def MEM_BASE_BLOCK_SIZE_def
    MEM_BLOCK_HEADER_SIZE_def MEM_FREE_BLOCK_SIZE_def Let_def
  by simp

theorem kernel_boot_witness:
  "\<exists>rm k. kernelInit demo_env 1 (\<lambda>t s. Some s) 200 64 7 0x4000 0x100000 0x500000 0x1000
      (hkern (usrKernelInit \<lparr>ca_size = \<lambda>c. 0, ca_offset = \<lambda>c. 0, ca_part = 0\<rparr> boot_demo)) = Some (rm, k)
    \<and> kok k \<and> taskIdCurrent k = 0x4FFF30 \<and> readyQ k = [(0, 0x4FFF30)]"
proof -
  obtain rm where rm: "root_layout 200 0x4000 0x100000 0x500000 0x1000 = (rm, 0x4FFF30, 0x3F18)"
      "rootTaskId rm = 0x4FFF30" using boot_demo_layout by blast
  have "cold (hkern boot_demo)" by (simp add: cold_def boot_demo_def demo_wdog_def)
  moreover have "e_hooks demo_env = no_hooks" using demo_run_task by (simp add: in_task_def)
  ultimately show ?thesis
    using kernel_boot [OF _ _ rm(1), of boot_demo demo_env 64 0 7 "\<lparr>ca_size = \<lambda>c. 0, ca_offset = \<lambda>c. 0, ca_part = 0\<rparr>"]
    by (auto simp: rm(2))
qed

end
