(* ===== verification/TaskRestart.thy ===== *)
theory TaskRestart
  imports KernelInit
begin

text \<open>
  Restarting a task, \<open>taskRestart\<close> of \<open>src/vmx/taskLib.c\<close>, and its registers, \<open>taskRegsGet\<close> of
  \<open>src/vmx/taskInfo.c\<close>. The call of \<open>taskRestart\<close> goes through \<open>taskTerminate\<close>, so that it is in
  two parts: what it does before that call, with the data of the task it keeps, and what it does with the status that
  comes back. \<open>nameMem\<close> says whether \<open>malloc\<close> gave memory for the name; the arguments of the task are not modelled.
\<close>

definition TASK_OPTIONS_NO_STACK_FILL :: u32 where "TASK_OPTIONS_NO_STACK_FILL = 0x0100"

definition restartTaskName :: string where "restartTaskName = ''tRestart''"
definition restartTaskPriority :: u32 where "restartTaskPriority = 0"
definition restartTaskStackSize :: u32 where "restartTaskStackSize = 6000"
definition restartTaskOptions :: u32 where
  "restartTaskOptions = TASK_OPTIONS_UNBREAKABLE OR TASK_OPTIONS_NO_STACK_FILL"

record restart_data =
  rsName :: "string option"
  rsPriority :: u32
  rsOptions :: u32
  rsEntry :: nat
  rsStackBase :: u32
  rsStackSize :: u32

datatype restart_next = R_suspend | R_terminate ptr restart_data | R_ret STATUS

text \<open>The loop that should make the task unsafe: it counts up, and ends when the counter wraps to zero.\<close>

function safe_loop :: "u32 \<Rightarrow> u32" where
  "safe_loop safeCount = (if safeCount > 0 then safe_loop (safeCount + 1) else safeCount)"
  by pat_completeness auto

termination
proof (relation "measure (\<lambda>c. if c = 0 then 0 else 2 ^ 32 - unat (c :: u32))")
  fix c :: u32
  assume "c > 0"
  then have "c \<noteq> 0" by auto
  moreover have "unat (c + 1) = unat c + 1" if "c + 1 \<noteq> 0"
    using unatSuc [of c] that by (simp add: add.commute)
  moreover have "unat c < 2 ^ 32" using unsigned_less [of c, where ?'a = nat] by simp
  ultimately show "(c + 1, c) \<in> measure (\<lambda>c. if c = 0 then 0 else 2 ^ 32 - unat (c :: u32))" by auto
qed simp

declare safe_loop.simps [simp del]

definition taskRestart ::
  "kenv \<Rightarrow> nat \<Rightarrow> (ptr \<Rightarrow> kstate \<Rightarrow> kstate option) \<Rightarrow> ptr \<Rightarrow> nat \<Rightarrow> bool \<Rightarrow> ptr \<Rightarrow> kstate \<Rightarrow> (restart_next \<times> kstate) option"
where
  "taskRestart e n createHooks pMem restartFunc nameMem taskId s =
     (if INT_RESTRICT s \<noteq> OK then Some (R_ret ERROR, errnoSet S_intLib_NOT_ISR_CALLABLE s)
      else if taskId = 0 \<or> taskId = taskIdCurrent s
      then do {
        let s = upd_tcb (taskIdCurrent s) (\<lambda>c. c\<lparr>tSafeCount := safe_loop (tSafeCount c)\<rparr>) s;
        (p, s) \<leftarrow> taskSpawn e n createHooks pMem (Some restartTaskName) restartTaskPriority restartTaskOptions
          restartTaskStackSize restartFunc s;
        Some (R_suspend, s)
      }
      else case taskTcb taskId s of (tcbId, s) \<Rightarrow>
        if tcbId = NULL then Some (R_ret ERROR, s)
        else
          let c = tcbs s tcbId;
              d = \<lparr>rsName = (if nameMem then tName c else None), rsPriority = tPriority c, rsOptions = tOptions c,
                rsEntry = tEntry c, rsStackBase = tStackBase c, rsStackSize = (tStackEnd c - tStackBase c) * (- 1)\<rparr>
          in Some (R_terminate tcbId d, snd (taskSafe s)))"

text \<open>The call waits for its restart: \<open>taskSuspend (0)\<close> for ever.\<close>

definition taskRestart_wait :: "kenv \<Rightarrow> nat \<Rightarrow> kstate \<Rightarrow> (restart_next \<times> kstate) option" where
  "taskRestart_wait e n s = do { (r, s) \<leftarrow> taskSuspend_run e n 0 s; Some (R_suspend, s) }"

definition taskRestart_end ::
  "kenv \<Rightarrow> nat \<Rightarrow> (ptr \<Rightarrow> kstate \<Rightarrow> kstate option) \<Rightarrow> ptr \<Rightarrow> restart_data \<Rightarrow> STATUS \<Rightarrow> kstate \<Rightarrow> (STATUS \<times> kstate) option" where
  "taskRestart_end e n createHooks tcbId d terminated s =
     (if terminated \<noteq> OK
      then do { (r, s) \<leftarrow> taskUnsafe_run e n s; Some (ERROR, s) }
      else do {
        (st, s) \<leftarrow> taskInit createHooks tcbId (rsName d) (rsPriority d) (rsOptions d) (rsStackBase d) (rsStackSize d)
          (rsEntry d) s;
        if st \<noteq> OK then Some (ERROR, s)
        else do {
          (st, s) \<leftarrow> taskActivate e n tcbId s;
          if st \<noteq> OK then Some (ERROR, s)
          else do { (r, s) \<leftarrow> taskUnsafe_run e n s; Some (OK, s) }
        }
      })"

text \<open>The counter of a safe task: \<open>2 ^ 32 - c\<close> calls of \<open>taskSafe\<close>, where \<open>c\<close> calls of \<open>taskUnsafe\<close> were meant.\<close>

lemma safe_loop_wraps: "safe_loop c = 0"
  by (induction c rule: safe_loop.induct) (subst safe_loop.simps, auto simp: word_greater_zero_iff)

text \<open>The registers a task has in its \<open>TCB\<close>, and those \<open>pExcRegSet\<close> points to when it is not null, for any type of
  register sets.\<close>

record 'r task_regs =
  trRegs :: "ptr \<Rightarrow> 'r"
  trExc :: "ptr \<Rightarrow> 'r option"

definition taskRegsGet :: "ptr \<Rightarrow> kstate \<Rightarrow> 'r task_regs \<Rightarrow> (STATUS \<times> 'r option) \<times> kstate \<times> 'r task_regs" where
  "taskRegsGet taskId s R =
     (case taskTcb taskId s of (tcbId, s) \<Rightarrow>
        if tcbId = NULL then ((ERROR, None), s, R)
        else
          let R = (case trExc R tcbId of None \<Rightarrow> R
                   | Some r \<Rightarrow> R\<lparr>trRegs := (trRegs R)(tcbId := r), trExc := (trExc R)(tcbId := None)\<rparr>)
          in ((OK, Some (trRegs R tcbId)), s, R))"

end
