(* ===== verification/ListLib.thy ===== *)
theory ListLib
  imports DllLib
begin

text \<open>
  The counted list library \<open>src/util/listLib.c\<close>. A \<open>LIST_NODE\<close> has the two links of a \<open>DL_NODE\<close>
  and a \<open>LIST\<close> the two ends of a \<open>DL_LIST\<close> and a counter, so the store is that of \<open>DllLib\<close>
  with one counter per list. The counter is a signed 32-bit number kept as an \<open>int\<close>: every
  counted node occupies memory, so it stays far below its bound.
  The library is shown to be \<open>dllLib\<close> plus the counter, and \<open>list_rep\<close> adds to \<open>dll_rep\<close> that
  the counter is the length.
\<close>

record lmem = dmem +
  lcount :: "ptr \<Rightarrow> int"

definition set_count :: "ptr \<Rightarrow> int \<Rightarrow> 'a lmem_scheme \<Rightarrow> 'a lmem_scheme" where
  "set_count l c m = m\<lparr>lcount := (lcount m)(l := c)\<rparr>"

definition listInit :: "ptr \<Rightarrow> 'a lmem_scheme \<Rightarrow> STATUS \<times> 'a lmem_scheme" where
  "listInit pList m =
     (if pList = NULL then (ERROR, m)
      else (OK, set_count pList 0 (set_tail pList NULL (set_head pList NULL m))))"

definition listInsert :: "ptr \<Rightarrow> ptr \<Rightarrow> ptr \<Rightarrow> 'a lmem_scheme \<Rightarrow> STATUS \<times> 'a lmem_scheme" where
  "listInsert pList pPrev pNode m =
     (if pList = NULL \<or> pNode = NULL then (ERROR, m)
      else
        let pNext = (if pPrev = NULL then DLL_HEAD m pList else DLL_NEXT m pPrev);
            m1 = (if pPrev = NULL then set_head pList pNode m else set_next pPrev pNode m);
            m2 = (if pNext = NULL then set_tail pList pNode m1 else set_prev pNext pNode m1);
            m3 = set_next pNode pNext m2;
            m4 = set_prev pNode pPrev m3
        in (OK, set_count pList (lcount m4 pList + 1) m4))"

text \<open>
  \<open>listAdd\<close> reads \<open>pList->tail\<close> before \<open>listInsert\<close> tests the pointer: a null list is a fault.
\<close>

definition listAdd :: "ptr \<Rightarrow> ptr \<Rightarrow> 'a lmem_scheme \<Rightarrow> (STATUS \<times> 'a lmem_scheme) option" where
  "listAdd pList pNode m =
     (if pList = NULL then None else Some (listInsert pList (DLL_TAIL m pList) pNode m))"

definition listGet :: "ptr \<Rightarrow> 'a lmem_scheme \<Rightarrow> ptr \<times> 'a lmem_scheme" where
  "listGet pList m =
     (if pList \<noteq> NULL
      then
        let pNode = DLL_HEAD m pList
        in if pNode \<noteq> NULL
           then let m1 = set_head pList (DLL_NEXT m pNode) m;
                    m2 = (if DLL_NEXT m1 pNode = NULL then set_tail pList NULL m1
                          else set_prev (DLL_NEXT m1 pNode) NULL m1)
                in (pNode, set_count pList (lcount m2 pList - 1) m2)
           else (pNode, m)
      else (NULL, m))"

definition listRemove :: "ptr \<Rightarrow> ptr \<Rightarrow> 'a lmem_scheme \<Rightarrow> STATUS \<times> 'a lmem_scheme" where
  "listRemove pList pNode m =
     (if pList = NULL \<or> pNode = NULL then (ERROR, m)
      else
        let m1 = (if DLL_PREV m pNode = NULL then set_head pList (DLL_NEXT m pNode) m
                  else set_next (DLL_PREV m pNode) (DLL_NEXT m pNode) m);
            m2 = (if DLL_NEXT m1 pNode = NULL then set_tail pList (DLL_PREV m1 pNode) m1
                  else set_prev (DLL_NEXT m1 pNode) (DLL_PREV m1 pNode) m1)
        in (OK, set_count pList (lcount m2 pList - 1) m2))"

definition listCount :: "ptr \<Rightarrow> 'a lmem_scheme \<Rightarrow> int" where
  "listCount pList m = (if pList = NULL then 0 else lcount m pList)"

subsection \<open>The counted list is the plain list and its length\<close>

definition list_rep :: "'a lmem_scheme \<Rightarrow> ptr \<Rightarrow> ptr list \<Rightarrow> bool" where
  "list_rep m l xs \<longleftrightarrow> dll_rep m l xs \<and> lcount m l = int (length xs)"

lemma set_count_reads [heap_simps]:
  "dnodes (set_count l c m) = dnodes m" "dlists (set_count l c m) = dlists m"
  "lcount (set_count l c m) l' = (if l' = l then c else lcount m l')"
  by (simp_all add: set_count_def)

lemma lcount_writes [heap_simps]:
  "lcount (set_next n v m) = lcount m" "lcount (set_prev n v m) = lcount m"
  "lcount (set_head n v m) = lcount m" "lcount (set_tail n v m) = lcount m"
  by (simp_all add: store_defs)

lemma dll_rep_set_count [simp]: "dll_rep (set_count l c m) l' xs = dll_rep m l' xs"
  by (rule dll_rep_frame) (simp_all add: heap_simps)

lemma listInsert_eq:
  assumes "l \<noteq> NULL" and "n \<noteq> NULL"
  shows "dnodes (snd (listInsert l p n m)) = dnodes (snd (dllInsert l p n m))"
    and "dlists (snd (listInsert l p n m)) = dlists (snd (dllInsert l p n m))"
    and "lcount (snd (listInsert l p n m)) l = lcount m l + 1"
  using assms
  by (auto simp: listInsert_def dllInsert_def Let_def store_defs set_count_def
      intro!: ext DL_NODE.equality)

lemma listRemove_eq:
  assumes "l \<noteq> NULL" and "n \<noteq> NULL" and "DLL_PREV m n \<noteq> n"
  shows "dnodes (snd (listRemove l n m)) = dnodes (snd (dllRemove l n m))"
    and "dlists (snd (listRemove l n m)) = dlists (snd (dllRemove l n m))"
    and "lcount (snd (listRemove l n m)) l = lcount m l - 1"
  using assms
  by (auto simp: listRemove_def dllRemove_def Let_def store_defs set_count_def)

lemma listInsert_rep:
  assumes "list_rep m l (as @ bs)" and "n \<noteq> NULL" "n \<notin> set (as @ bs)"
  shows "list_rep (snd (listInsert l (last (NULL # as)) n m)) l (as @ n # bs)"
proof -
  have l: "l \<noteq> NULL" and r: "dll_rep m l (as @ bs)"
    using assms(1) by (auto simp: list_rep_def dll_rep_def)
  note E = listInsert_eq [OF l assms(2), of "last (NULL # as)" m]
  have "dll_rep (snd (listInsert l (last (NULL # as)) n m)) l (as @ n # bs)"
    using dllInsert_rep [OF r assms(2,3)] E(1,2)
      dll_rep_frame [of "as @ n # bs" "snd (listInsert l (last (NULL # as)) n m)"] by metis
  with E(3) assms(1) show ?thesis by (simp add: list_rep_def del: last.simps)
qed

lemma listRemove_rep:
  assumes "list_rep m l (as @ n # bs)"
  shows "list_rep (snd (listRemove l n m)) l (as @ bs)"
proof -
  have r: "dll_rep m l (as @ n # bs)" using assms by (simp add: list_rep_def)
  then have l: "l \<noteq> NULL" "n \<noteq> NULL" and p: "DLL_PREV m n = last (NULL # as)" and "n \<notin> set as"
    by (auto simp: dll_rep_def dseg_append heap_simps)
  moreover have "last (NULL # as) = NULL \<or> last (NULL # as) \<in> set as" by simp
  ultimately have "DLL_PREV m n \<noteq> n" by metis
  note E = listRemove_eq [OF l this]
  have "dll_rep (snd (listRemove l n m)) l (as @ bs)"
    using dllRemove_rep [OF r] E(1,2) dll_rep_frame [of "as @ bs" "snd (listRemove l n m)"] by metis
  with E(3) assms show ?thesis by (simp add: list_rep_def)
qed

lemma listGet_eq_remove:
  assumes "list_rep m l (x # xs)"
  shows "listGet l m = (x, snd (listRemove l x m))"
  using assms
  by (auto simp: listGet_def listRemove_def Let_def store_defs list_rep_def dll_rep_def)

lemma listAdd_rep:
  assumes "list_rep m l xs" and "n \<noteq> NULL" "n \<notin> set xs"
  shows "\<exists>m'. listAdd l n m = Some (OK, m') \<and> list_rep m' l (xs @ [n])"
proof -
  have r: "dll_rep m l xs" using assms(1) by (simp add: list_rep_def)
  have "listAdd l n m = Some (OK, snd (listInsert l (last (NULL # xs)) n m))"
    using r assms(2) dll_rep_tail [OF r]
    by (auto simp: listAdd_def listInsert_def dll_rep_def Let_def)
  with listInsert_rep [of m l xs "[]" n] assms show ?thesis by simp
qed

lemma listCount_rep: "list_rep m l xs \<Longrightarrow> listCount l m = int (length xs)"
  by (auto simp: list_rep_def listCount_def dll_rep_def)

interpretation clist: node_list_remove list_rep
  "\<lambda>l n m. case listAdd l n m of None \<Rightarrow> m | Some r \<Rightarrow> snd r"
  "\<lambda>l n m. snd (listInsert l NULL n m)" listGet "\<lambda>l n m. snd (listRemove l n m)"
proof unfold_locales
  fix m :: "'a lmem_scheme" and l n x xs as bs
  show "list_rep m l xs \<Longrightarrow> distinct xs \<and> NULL \<notin> set xs"
    using dll.rep_nodes [of m l xs] by (simp add: list_rep_def)
  show "list_rep m l xs \<Longrightarrow> n \<noteq> NULL \<Longrightarrow> n \<notin> set xs \<Longrightarrow>
      list_rep (case listAdd l n m of None \<Rightarrow> m | Some r \<Rightarrow> snd r) l (xs @ [n])"
    using listAdd_rep [of m l xs n] by auto
  show "list_rep m l xs \<Longrightarrow> n \<noteq> NULL \<Longrightarrow> n \<notin> set xs \<Longrightarrow>
      list_rep (snd (listInsert l NULL n m)) l (n # xs)"
    using listInsert_rep [of m l "[]" xs n] by simp
  show "list_rep m l (x # xs) \<Longrightarrow> fst (listGet l m) = x \<and> list_rep (snd (listGet l m)) l xs"
    using listRemove_rep [of m l "[]" x xs] by (simp add: listGet_eq_remove)
  show "list_rep m l [] \<Longrightarrow> listGet l m = (NULL, m)"
    by (simp add: listGet_def list_rep_def dll_rep_def heap_simps)
  show "list_rep m l (as @ n # bs) \<Longrightarrow> list_rep (snd (listRemove l n m)) l (as @ bs)"
    by (rule listRemove_rep)
qed

subsection \<open>Properties\<close>

text \<open>The count of a counted list stays its length: after adding any nodes and taking \<open>k\<close> of them, they
  came out in the order they went in, and \<open>listCount\<close> is the number of the rest.\<close>

theorem list_count_kept:
  assumes "list_rep m l []" and "distinct ns" and "NULL \<notin> set ns" and "k \<le> length ns"
  shows "let m1 = fold (\<lambda>n m. case listAdd l n m of None \<Rightarrow> m | Some r \<Rightarrow> snd r) ns m;
      (out, m2) = drain (listGet l) k m1
    in out = take k ns \<and> listCount l m1 = int (length ns) \<and> listCount l m2 = int (length ns) - int k \<and>
      list_rep m2 l (drop k ns)"
proof -
  note f = clist.fill_rep [of m l "[]" ns, simplified, OF assms(1-3)]
  show ?thesis using clist.drain_rep [OF f assms(4)] listCount_rep [OF f] listCount_rep assms(4)
    by (fastforce simp: Let_def case_prod_beta)
qed

theorem list_count_kept_witness:
  "let m = \<lparr>dnodes = (\<lambda>n. \<lparr>dl_prev = 0, dl_next = 0\<rparr>), dlists = (\<lambda>l. \<lparr>dl_head = 0, dl_tail = 0\<rparr>),
      lcount = (\<lambda>l. 0)\<rparr>;
     m1 = fold (\<lambda>n m. case listAdd 1 n m of None \<Rightarrow> m | Some r \<Rightarrow> snd r) [5, 6, 7] m
   in listCount 1 (snd (drain (listGet 1) 2 m1)) = 1"
  using list_count_kept [of "\<lparr>dnodes = (\<lambda>n. \<lparr>dl_prev = 0, dl_next = 0\<rparr>),
      dlists = (\<lambda>l. \<lparr>dl_head = 0, dl_tail = 0\<rparr>), lcount = (\<lambda>l. 0)\<rparr>" 1 "[5, 6, 7]" 2]
  by (simp add: list_rep_def dll_rep_def Let_def case_prod_beta)

end
