(* ===== verification/RngLib.thy ===== *)
theory RngLib
  imports Fifo
begin

text \<open>
  Ring buffers: \<open>src/util/rngLib.c\<close>. A \<open>RING_ID\<close> is a \<open>RING option\<close>, \<open>None\<close> for \<open>NULL\<close>; a function
  that does not test its \<open>RING_ID\<close> takes the \<open>RING\<close>. Reading or writing outside a buffer, or a
  \<open>memcpy\<close> of a negative size, is undefined in C and gives \<open>None\<close>. \<open>rng_abs\<close> is the sequence of
  bytes stored; every operation is shown to act on it as on a queue of at most \<open>bufferSize - 1\<close> bytes.
\<close>

record RING =
  offsetToBuffer :: int
  offsetFromBuffer :: int
  bufferSize :: int
  buffer :: "u8 list"

type_synonym RING_ID = "RING option"

definition memcpy_at :: "u8 list \<Rightarrow> int \<Rightarrow> u8 list \<Rightarrow> int \<Rightarrow> int \<Rightarrow> u8 list option" where
  "memcpy_at dst d src s n =
     (if 0 \<le> n \<and> 0 \<le> d \<and> 0 \<le> s \<and> d + n \<le> int (length dst) \<and> s + n \<le> int (length src)
      then Some (take (nat d) dst @ take (nat n) (drop (nat s) src) @ drop (nat (d + n)) dst)
      else None)"

definition load_at :: "u8 list \<Rightarrow> int \<Rightarrow> u8 option" where
  "load_at b i = (if 0 \<le> i \<and> i < int (length b) then Some (b ! nat i) else None)"

definition store_at :: "u8 list \<Rightarrow> int \<Rightarrow> u8 \<Rightarrow> u8 list option" where
  "store_at b i c = (if 0 \<le> i \<and> i < int (length b) then Some (b[nat i := c]) else None)"

definition rngFlush :: "RING_ID \<Rightarrow> STATUS \<times> RING_ID" where
  "rngFlush ringId =
     (case ringId of
        None \<Rightarrow> (ERROR, None)
      | Some r \<Rightarrow> (OK, Some (r\<lparr>offsetToBuffer := 0, offsetFromBuffer := 0\<rparr>)))"

text \<open>
  \<open>mallocRing\<close> is the block the first \<open>malloc\<close> returns, with the indeterminate contents of a \<open>RING\<close>,
  \<open>mallocBuf n\<close> the \<open>n\<close> bytes the second one returns.
\<close>

definition rngCreate :: "RING option \<Rightarrow> (int \<Rightarrow> u8 list option) \<Rightarrow> int \<Rightarrow> RING_ID" where
  "rngCreate mallocRing mallocBuf size' =
     (case mallocRing of
        None \<Rightarrow> None
      | Some r \<Rightarrow>
          (let size' = size' + 1
           in case mallocBuf size' of
                None \<Rightarrow> None
              | Some b \<Rightarrow> snd (rngFlush (Some (r\<lparr>bufferSize := size', buffer := b\<rparr>)))))"

definition rngDelete :: "RING_ID \<Rightarrow> STATUS \<times> RING_ID" where
  "rngDelete ringId = (case ringId of None \<Rightarrow> (ERROR, None) | Some r \<Rightarrow> (OK, None))"

text \<open>The results are the return value, \<open>*pChar\<close>, \<open>*pOffsetFrom\<close> and the ring.\<close>

definition rngElemGet :: "RING \<Rightarrow> u8 \<Rightarrow> (bool \<times> u8 \<times> int \<times> RING) option" where
  "rngElemGet r pChar =
     (let offset = offsetFromBuffer r
      in if offsetToBuffer r = offset then Some (False, pChar, offset, r)
         else case load_at (buffer r) offset of
                None \<Rightarrow> None
              | Some c \<Rightarrow>
                  (let offset = offset + 1
                   in if offset = bufferSize r
                      then Some (True, c, offset, r\<lparr>offsetFromBuffer := 0\<rparr>)
                      else Some (True, c, offset, r\<lparr>offsetFromBuffer := offset\<rparr>)))"

definition rngElemPut :: "RING \<Rightarrow> u8 \<Rightarrow> (bool \<times> int \<times> RING) option" where
  "rngElemPut r c =
     (let offset = offsetToBuffer r
      in if offset = offsetFromBuffer r - 1 then Some (False, offset, r)
         else if offset = bufferSize r - 1
         then (if offsetFromBuffer r = 0 then Some (False, offset, r)
               else case store_at (buffer r) offset c of
                      None \<Rightarrow> None
                    | Some b \<Rightarrow> Some (True, offset, r\<lparr>buffer := b, offsetToBuffer := 0\<rparr>))
         else case store_at (buffer r) offset c of
                None \<Rightarrow> None
              | Some b \<Rightarrow> Some (True, offset, r\<lparr>buffer := b, offsetToBuffer := offset + 1\<rparr>))"

text \<open>The results are the byte count, the caller's buffer and the ring.\<close>

definition rngBufGet :: "RING_ID \<Rightarrow> u8 list \<Rightarrow> int \<Rightarrow> (int \<times> u8 list \<times> RING_ID) option" where
  "rngBufGet ringId buf nBytes =
     (case ringId of
        None \<Rightarrow> Some (0, buf, None)
      | Some r \<Rightarrow>
          (let to = offsetToBuffer r; frm = offsetFromBuffer r
           in if to \<ge> frm
              then (let bread = min nBytes (to - frm)
                    in case memcpy_at buf 0 (buffer r) frm bread of
                         None \<Rightarrow> None
                       | Some buf' \<Rightarrow> Some (bread, buf', Some (r\<lparr>offsetFromBuffer := frm + bread\<rparr>)))
              else (let bread = min nBytes (bufferSize r - frm)
                    in case memcpy_at buf 0 (buffer r) frm bread of
                         None \<Rightarrow> None
                       | Some buf' \<Rightarrow>
                           (let offsetTmp = frm + bread
                            in if offsetTmp = bufferSize r
                               then (let bytes = min (nBytes - bread) to
                                     in case memcpy_at buf' bread (buffer r) 0 bytes of
                                          None \<Rightarrow> None
                                        | Some buf'' \<Rightarrow>
                                            Some (bread + bytes, buf'', Some (r\<lparr>offsetFromBuffer := bytes\<rparr>)))
                               else Some (bread, buf', Some (r\<lparr>offsetFromBuffer := offsetTmp\<rparr>))))))"

text \<open>\<open>None\<close> as the caller's buffer is \<open>NULL\<close>.\<close>

definition rngBufPut :: "RING_ID \<Rightarrow> u8 list option \<Rightarrow> int \<Rightarrow> (int \<times> RING_ID) option" where
  "rngBufPut ringId buf nBytes =
     (case (ringId, buf) of
        (Some r, Some src) \<Rightarrow>
          (let to = offsetToBuffer r; frm = offsetFromBuffer r
           in if frm > to
              then (let bwrote = min nBytes (frm - to - 1)
                    in case memcpy_at (buffer r) to src 0 bwrote of
                         None \<Rightarrow> None
                       | Some b \<Rightarrow> Some (bwrote, Some (r\<lparr>buffer := b, offsetToBuffer := to + bwrote\<rparr>)))
              else if frm = 0
              then (let bwrote = min nBytes (bufferSize r - to - 1)
                    in case memcpy_at (buffer r) to src 0 bwrote of
                         None \<Rightarrow> None
                       | Some b \<Rightarrow> Some (bwrote, Some (r\<lparr>buffer := b, offsetToBuffer := to + bwrote\<rparr>)))
              else (let bwrote = min nBytes (bufferSize r - to)
                    in case memcpy_at (buffer r) to src 0 bwrote of
                         None \<Rightarrow> None
                       | Some b \<Rightarrow>
                           (let offsetTmp = to + bwrote
                            in if offsetTmp = bufferSize r
                               then (let bytes = min (nBytes - bwrote) (frm - 1)
                                     in case memcpy_at b 0 src bwrote bytes of
                                          None \<Rightarrow> None
                                        | Some b' \<Rightarrow>
                                            Some (bwrote + bytes,
                                                  Some (r\<lparr>buffer := b', offsetToBuffer := bytes\<rparr>)))
                               else Some (bwrote, Some (r\<lparr>buffer := b, offsetToBuffer := offsetTmp\<rparr>)))))
      | _ \<Rightarrow> Some (0, ringId))"

definition rngIsEmpty :: "RING_ID \<Rightarrow> bool" where
  "rngIsEmpty ringId =
     (case ringId of None \<Rightarrow> True | Some r \<Rightarrow> offsetToBuffer r = offsetFromBuffer r)"

definition rngIsFull :: "RING_ID \<Rightarrow> bool" where
  "rngIsFull ringId =
     (case ringId of
        None \<Rightarrow> False
      | Some r \<Rightarrow> (let n = offsetToBuffer r - offsetFromBuffer r + 1 in n = 0 \<or> n = bufferSize r))"

definition rngFreeBytes :: "RING_ID \<Rightarrow> int" where
  "rngFreeBytes ringId =
     (case ringId of
        None \<Rightarrow> 0
      | Some r \<Rightarrow>
          (let n = offsetFromBuffer r - offsetToBuffer r - 1
           in if n < 0 then n + bufferSize r else n))"

definition rngNBytes :: "RING_ID \<Rightarrow> int" where
  "rngNBytes ringId =
     (case ringId of
        None \<Rightarrow> 0
      | Some r \<Rightarrow>
          (let n = offsetToBuffer r - offsetFromBuffer r
           in if n < 0 then n + bufferSize r else n))"

definition rngPutAhead :: "RING_ID \<Rightarrow> u8 \<Rightarrow> int \<Rightarrow> (STATUS \<times> RING_ID) option" where
  "rngPutAhead ringId c offset =
     (case ringId of
        None \<Rightarrow> Some (ERROR, None)
      | Some r \<Rightarrow>
          (let n = offsetToBuffer r + offset;
               n = (if n \<ge> bufferSize r then n - bufferSize r else n)
           in case store_at (buffer r) n c of
                None \<Rightarrow> None
              | Some b \<Rightarrow> Some (OK, Some (r\<lparr>buffer := b\<rparr>))))"

definition rngMoveAhead :: "RING_ID \<Rightarrow> int \<Rightarrow> STATUS \<times> RING_ID" where
  "rngMoveAhead ringId offset =
     (case ringId of
        None \<Rightarrow> (ERROR, None)
      | Some r \<Rightarrow>
          (let offset = offset + offsetToBuffer r;
               offset = (if offset \<ge> bufferSize r then offset - bufferSize r else offset)
           in (OK, Some (r\<lparr>offsetToBuffer := offset\<rparr>))))"


subsection \<open>The stored bytes\<close>

definition rng_wf :: "RING \<Rightarrow> bool" where
  "rng_wf r \<longleftrightarrow> bufferSize r = int (length (buffer r)) \<and>
     0 \<le> offsetToBuffer r \<and> offsetToBuffer r < bufferSize r \<and>
     0 \<le> offsetFromBuffer r \<and> offsetFromBuffer r < bufferSize r"

text \<open>The bytes from \<open>f\<close> up to \<open>t\<close>, around the end of the buffer \<open>b\<close> if need be.\<close>

definition rng_seg :: "nat \<Rightarrow> nat \<Rightarrow> u8 list \<Rightarrow> u8 list" where
  "rng_seg f t b = (if f \<le> t then take (t - f) (drop f b) else drop f b @ take t b)"

definition rng_abs :: "RING \<Rightarrow> u8 list" where
  "rng_abs r = rng_seg (nat (offsetFromBuffer r)) (nat (offsetToBuffer r)) (buffer r)"

definition rng_rep :: "RING \<Rightarrow> u8 list \<Rightarrow> bool" where
  "rng_rep r xs \<longleftrightarrow> rng_wf r \<and> rng_abs r = xs"

definition rng_cap :: "RING \<Rightarrow> nat" where
  "rng_cap r = nat (bufferSize r - 1)"

definition rng_view :: "RING \<Rightarrow> nat \<Rightarrow> nat \<Rightarrow> u8 list \<Rightarrow> bool" where
  "rng_view r f t b \<longleftrightarrow> offsetFromBuffer r = int f \<and> offsetToBuffer r = int t \<and>
     bufferSize r = int (length b) \<and> buffer r = b \<and> f < length b \<and> t < length b"

lemma rng_rep_iff: "rng_rep r xs \<longleftrightarrow> (\<exists>f t b. rng_view r f t b \<and> xs = rng_seg f t b)"
proof
  assume "rng_rep r xs"
  then have "rng_view r (nat (offsetFromBuffer r)) (nat (offsetToBuffer r)) (buffer r) \<and>
      xs = rng_seg (nat (offsetFromBuffer r)) (nat (offsetToBuffer r)) (buffer r)"
    by (auto simp: rng_rep_def rng_wf_def rng_abs_def rng_view_def)
  then show "\<exists>f t b. rng_view r f t b \<and> xs = rng_seg f t b" by blast
next
  assume "\<exists>f t b. rng_view r f t b \<and> xs = rng_seg f t b"
  then show "rng_rep r xs"
    by (auto simp: rng_rep_def rng_wf_def rng_abs_def rng_view_def)
qed

lemma rng_repI: "rng_view r f t b \<Longrightarrow> rng_seg f t b = xs \<Longrightarrow> rng_rep r xs"
  by (auto simp: rng_rep_iff)

lemma length_rng_seg:
  "f < length b \<Longrightarrow> t < length b \<Longrightarrow>
   length (rng_seg f t b) = (if f \<le> t then t - f else length b - f + t)"
  by (simp add: rng_seg_def)

lemma rng_rep_length:
  assumes "rng_rep r xs"
  shows "length xs \<le> rng_cap r"
  using assms by (auto simp: rng_rep_iff rng_view_def length_rng_seg rng_cap_def)

lemma rng_count_rep:
  assumes "rng_rep r xs"
  shows "rngNBytes (Some r) = int (length xs)"
    and "rngFreeBytes (Some r) = int (rng_cap r) - int (length xs)"
    and "rngIsEmpty (Some r) \<longleftrightarrow> xs = []"
    and "rngIsFull (Some r) \<longleftrightarrow> length xs = rng_cap r"
proof -
  obtain f t b where v: "rng_view r f t b" and xs: "xs = rng_seg f t b"
    using assms(1) by (auto simp: rng_rep_iff)
  have len: "length xs = (if f \<le> t then t - f else length b - f + t)"
    using v by (simp add: xs rng_view_def length_rng_seg)
  show "rngNBytes (Some r) = int (length xs)"
    "rngFreeBytes (Some r) = int (rng_cap r) - int (length xs)"
    "rngIsEmpty (Some r) \<longleftrightarrow> xs = []"
    "rngIsFull (Some r) \<longleftrightarrow> length xs = rng_cap r"
    unfolding length_0_conv [symmetric] len using v
    by (auto simp: rng_view_def rng_cap_def rngNBytes_def rngFreeBytes_def
        rngIsEmpty_def rngIsFull_def Let_def)
qed

subsection \<open>Writing and reading a run of bytes\<close>

definition rng_write :: "u8 list \<Rightarrow> nat \<Rightarrow> u8 list \<Rightarrow> u8 list" where
  "rng_write b t cs = take t b @ cs @ drop (t + length cs) b"

lemma length_rng_write: "t + length cs \<le> length b \<Longrightarrow> length (rng_write b t cs) = length b"
  by (simp add: rng_write_def)

lemma rng_write_single: "t < length b \<Longrightarrow> b[t := c] = rng_write b t [c]"
  by (simp add: rng_write_def upd_conv_take_nth_drop)

lemma memcpy_at_write:
  "d + n \<le> length dst \<Longrightarrow> s + n \<le> length src \<Longrightarrow>
   memcpy_at dst (int d) src (int s) (int n) = Some (rng_write dst d (take n (drop s src)))"
  by (simp add: memcpy_at_def rng_write_def nat_add_distrib)

text \<open>Without reaching the end of the buffer.\<close>

lemma rng_seg_write:
  assumes "f < length b" "t + length cs < length b" "t < f \<Longrightarrow> t + length cs < f"
  shows "rng_seg f (t + length cs) (rng_write b t cs) = rng_seg f t b @ cs"
proof (cases "f \<le> t")
  case True
  then have "t + length cs - f = (t - f) + length cs" by simp
  then show ?thesis using assms True
    by (simp add: rng_seg_def rng_write_def drop_take min_absorb1 min_absorb2)
qed (use assms in \<open>simp add: rng_seg_def rng_write_def min_absorb2\<close>)

text \<open>Up to the end of the buffer and, with \<open>ds\<close>, again from its start.\<close>

lemma rng_seg_write_wrap:
  assumes "0 < f" "f \<le> t" "t < length b" "t + length cs = length b" "length ds < f"
  shows "rng_seg f (length ds) (rng_write (rng_write b t cs) 0 ds) = rng_seg f t b @ cs @ ds"
  using assms by (auto simp: rng_seg_def rng_write_def min_def drop_take)

lemma rng_seg_read:
  assumes "f < length b" "t < length b" "f \<le> t \<Longrightarrow> f + n \<le> t" "t < f \<Longrightarrow> f + n < length b"
  shows "rng_seg (f + n) t b = drop n (rng_seg f t b)"
    and "take n (drop f b) = take n (rng_seg f t b)"
  using assms by (auto simp: rng_seg_def drop_take min_absorb1 ac_simps)

lemma rng_seg_read_wrap:
  assumes "f < length b" "t < f" "n \<le> t"
  shows "rng_seg n t b = drop (length b - f + n) (rng_seg f t b)"
    and "take (length b - f) (drop f b) @ take n b = take (length b - f + n) (rng_seg f t b)"
  using assms by (auto simp: rng_seg_def min_def drop_take)

subsection \<open>Single elements\<close>

lemma rngElemPut_rep:
  assumes "rng_rep r xs" and "length xs < rng_cap r"
  shows "\<exists>r'. rngElemPut r c = Some (True, offsetToBuffer r, r') \<and> rng_rep r' (xs @ [c]) \<and>
    rng_cap r' = rng_cap r"
proof -
  obtain f t b where v: "rng_view r f t b" and xs: "xs = rng_seg f t b"
    using assms(1) by (auto simp: rng_rep_iff)
  have free: "t < f \<Longrightarrow> t + 1 < f" "Suc t = length b \<Longrightarrow> 0 < f \<and> f \<le> t"
    using assms(2) v by (auto simp: xs rng_view_def rng_cap_def length_rng_seg split: if_splits)
  show ?thesis
  proof (cases "Suc t = length b")
    case True
    have "rng_seg f 0 (rng_write b t [c]) = xs @ [c]"
      using rng_seg_write_wrap [of f t b "[c]" "[]"] free True xs by (simp add: rng_write_def)
    then show ?thesis using v free True
      by (auto simp: rngElemPut_def Let_def rng_view_def store_at_def rng_rep_iff rng_cap_def
          rng_write_single length_rng_write intro!: exI [of _ f] exI [of _ 0])
  next
    case False
    have "rng_seg f (Suc t) (rng_write b t [c]) = xs @ [c]"
      using rng_seg_write [of f b t "[c]"] free False xs v by (simp add: rng_view_def)
    then show ?thesis using v free False
      by (auto simp: rngElemPut_def Let_def rng_view_def store_at_def rng_rep_iff rng_cap_def
          rng_write_single length_rng_write nat_add_distrib intro!: exI [of _ f] exI [of _ "Suc t"])
  qed
qed

lemma rngElemPut_full:
  assumes "rng_rep r xs" and "rng_cap r \<le> length xs"
  shows "rngElemPut r c = Some (False, offsetToBuffer r, r)"
  using assms by (auto simp: rng_rep_iff rng_view_def rng_cap_def length_rng_seg rngElemPut_def
      Let_def split: if_splits)

lemma rngElemGet_rep:
  assumes "rng_rep r (x # xs)"
  shows "\<exists>r' off. rngElemGet r c = Some (True, x, off, r') \<and> rng_rep r' xs \<and> rng_cap r' = rng_cap r"
proof -
  obtain f t b where v: "rng_view r f t b" and xs: "x # xs = rng_seg f t b"
    using assms(1) by (auto simp: rng_rep_iff)
  have ne: "f \<noteq> t" using xs by (auto simp: rng_seg_def)
  have x: "b ! f = x"
    using arg_cong [OF xs, of hd] v ne by (auto simp: rng_view_def rng_seg_def hd_drop_conv_nth split: if_splits)
  show ?thesis
  proof (cases "Suc f = length b")
    case True
    have "rng_seg 0 t b = xs"
    proof -
      have "length b - f = 1" "t < f" using True ne v by (auto simp: rng_view_def)
      then show ?thesis
        using rng_seg_read_wrap(1) [of f b t 0] v xs [symmetric] by (simp add: rng_view_def)
    qed
    then show ?thesis using v True ne x
      by (auto simp: rngElemGet_def Let_def rng_view_def load_at_def rng_rep_iff rng_cap_def
          intro!: exI [of _ 0] exI [of _ t])
  next
    case False
    have "rng_seg (Suc f) t b = xs"
      using rng_seg_read(1) [of f b t 1] False ne v arg_cong [OF xs, of tl]
      by (simp add: rng_view_def drop_Suc)
    then have "rng_rep (r\<lparr>offsetFromBuffer := int f + 1\<rparr>) xs"
      using v False by (intro rng_repI [of _ "Suc f" t b]) (auto simp: rng_view_def)
    then show ?thesis using v False ne x
      by (auto simp: rngElemGet_def Let_def rng_view_def load_at_def rng_cap_def)
  qed
qed

lemma rngElemGet_empty:
  assumes "rng_rep r []"
  shows "rngElemGet r c = Some (False, c, offsetFromBuffer r, r)"
  using assms rng_count_rep(3) [OF assms] by (simp add: rngElemGet_def rngIsEmpty_def)


interpretation rng: bounded_fifo rng_rep rng_cap
    "\<lambda>c r. case rngElemPut r c of Some (True, _, r') \<Rightarrow> Some r' | _ \<Rightarrow> None"
    "\<lambda>r. case rngElemGet r 0 of Some (True, c, _, r') \<Rightarrow> Some (c, r') | _ \<Rightarrow> None"
proof
  fix r xs c
  show "rng_rep r xs \<Longrightarrow> length xs \<le> rng_cap r" by (rule rng_rep_length)
  show "\<exists>r'. (case rngElemPut r c of Some (True, _, r') \<Rightarrow> Some r' | _ \<Rightarrow> None) = Some r' \<and>
      rng_rep r' (xs @ [c]) \<and> rng_cap r' = rng_cap r"
    if "rng_rep r xs" "length xs < rng_cap r" using rngElemPut_rep [OF that, of c] by auto
  show "(case rngElemPut r c of Some (True, _, r') \<Rightarrow> Some r' | _ \<Rightarrow> None) = None"
    if "rng_rep r xs" "rng_cap r \<le> length xs" using rngElemPut_full [OF that] by simp
  show "\<exists>r'. (case rngElemGet r 0 of Some (True, c, _, r') \<Rightarrow> Some (c, r') | _ \<Rightarrow> None) = Some (c, r') \<and>
      rng_rep r' xs \<and> rng_cap r' = rng_cap r"
    if "rng_rep r (c # xs)" using rngElemGet_rep [OF that, of 0] by auto
  show "(case rngElemGet r 0 of Some (True, c, _, r') \<Rightarrow> Some (c, r') | _ \<Rightarrow> None) = None"
    if "rng_rep r []" using rngElemGet_empty [OF that] by simp
qed

subsection \<open>Blocks of bytes\<close>

lemma rngBufPut_rep:
  assumes "rng_rep r xs" and "n \<le> length src"
  defines "k \<equiv> min n (rng_cap r - length xs)"
  shows "\<exists>r'. rngBufPut (Some r) (Some src) (int n) = Some (int k, Some r') \<and>
    rng_rep r' (xs @ take k src) \<and> rng_cap r' = rng_cap r"
proof -
  obtain f t b where v: "rng_view r f t b" and xs: "xs = rng_seg f t b"
    using assms(1) by (auto simp: rng_rep_iff)
  have ft: "f < length b" "t < length b" using v by (auto simp: rng_view_def)
  have cap: "rng_cap r = length b - 1" using v by (simp add: rng_view_def rng_cap_def)
  have len: "length xs = (if f \<le> t then t - f else length b - f + t)"
    using ft by (simp add: xs length_rng_seg)
  have fields: "offsetFromBuffer r = int f" "offsetToBuffer r = int t"
      "bufferSize r = int (length b)" "buffer r = b" using v by (auto simp: rng_view_def)
  have copy: "memcpy_at b (int t) src 0 (int m) = Some (rng_write b t (take m src))"
    if "t + m \<le> length b" "m \<le> n" for m
    using memcpy_at_write [of t m b 0 src] that assms(2) by simp
  define straight where "straight m = r\<lparr>buffer := rng_write b t (take m src),
      offsetToBuffer := int (t + m)\<rparr>" for m
  have straight: "rng_rep (straight m) (xs @ take m src) \<and> rng_cap (straight m) = rng_cap r"
    if "t + m < length b" "t < f \<Longrightarrow> t + m < f" "m \<le> n" for m
    using that ft assms(2) rng_seg_write [of f b t "take m src"]
    by (auto intro!: rng_repI [of _ f "t + m" "rng_write b t (take m src)"]
        simp: straight_def rng_cap_def rng_view_def fields length_rng_write xs min_absorb2)
  consider "t < f" | "f = 0" | "f \<noteq> 0" "f \<le> t" "t + n < length b"
    | "f \<noteq> 0" "f \<le> t" "length b \<le> t + n" by linarith
  then show ?thesis
  proof cases
    case 1
    then have k: "k = min n (f - t - 1)" using ft by (simp add: k_def cap len)
    have "min (int n) (int f - int t - 1) = int k" using 1 by (simp add: k of_nat_diff)
    then have "rngBufPut (Some r) (Some src) (int n) = Some (int k, Some (straight k))"
      using 1 ft k copy [of k] by (simp add: rngBufPut_def Let_def fields straight_def)
    then show ?thesis using straight [of k] 1 k ft by simp
  next
    case 2
    then have k: "k = min n (length b - t - 1)" by (simp add: k_def cap len)
    have "min (int n) (int (length b) - int t - 1) = int k" using ft by (simp add: k of_nat_diff)
    then have "rngBufPut (Some r) (Some src) (int n) = Some (int k, Some (straight k))"
      using 2 ft k copy [of k] by (simp add: rngBufPut_def Let_def fields straight_def)
    then show ?thesis using straight [of k] 2 k ft by simp
  next
    case 3
    then have k: "k = n" by (simp add: k_def cap len)
    have "min (int n) (int (length b) - int t) = int k" using 3 by (simp add: k)
    then have "rngBufPut (Some r) (Some src) (int n) = Some (int k, Some (straight k))"
      using 3 ft k copy [of k] by (simp add: rngBufPut_def Let_def fields straight_def)
    then show ?thesis using straight [of k] 3 k ft by simp
  next
    case 4
    define m where "m = length b - t"
    define l where "l = min (n - m) (f - 1)"
    have m: "m \<le> n" "t + m = length b" using 4 ft by (simp_all add: m_def)
    have k: "k = m + l" using 4 m by (simp add: k_def cap len l_def m_def)
    have mn: "min (int n) (int (length b) - int t) = int m"
      "min (int n - int m) (int f - 1) = int l" using 4 m by (simp_all add: l_def of_nat_diff)
    have tm: "int (length b) - int t = int m" "int t + int m = int (length b)" using m by simp_all
    define b1 where "b1 = rng_write b t (take m src)"
    have lb1: "length b1 = length b" using m assms(2) by (simp add: b1_def length_rng_write)
    have c2: "memcpy_at b1 0 src (int m) (int l) = Some (rng_write b1 0 (take l (drop m src)))"
      using memcpy_at_write [of 0 l b1 m src] assms(2) m ft lb1 by (simp add: l_def)
    define b2 where "b2 = rng_write b1 0 (take l (drop m src))"
    have ll: "length (take l (drop m src)) = l" using assms(2) by (simp add: l_def)
    have lf: "l < f" using 4 by (simp add: l_def)
    have lb2: "length b2 = length b" using lf ft lb1 ll by (simp add: b2_def length_rng_write)
    have "rngBufPut (Some r) (Some src) (int n) = Some (int k, Some (r\<lparr>
        buffer := b2, offsetToBuffer := int l\<rparr>))"
      using 4 ft m copy [of m] c2 mn
      by (simp add: rngBufPut_def Let_def fields k b1_def b2_def tm)
    moreover have "rng_rep (r\<lparr>buffer := b2, offsetToBuffer := int l\<rparr>) (xs @ take k src)"
    proof (rule rng_repI [of _ f l b2])
      show "rng_view (r\<lparr>buffer := b2, offsetToBuffer := int l\<rparr>) f l b2"
        using lf ft lb2 by (simp add: rng_view_def fields)
      show "rng_seg f l b2 = xs @ take k src"
        using rng_seg_write_wrap [of f t b "take m src" "take l (drop m src)"] 4 ft m lf ll assms(2)
        by (simp add: b2_def b1_def xs k take_add min_absorb2)
    qed
    ultimately show ?thesis by (auto simp: rng_cap_def)
  qed
qed


lemma rngBufGet_rep:
  assumes "rng_rep r xs" and "n \<le> length dst"
  defines "k \<equiv> min n (length xs)"
  shows "\<exists>r'. rngBufGet (Some r) dst (int n) = Some (int k, take k xs @ drop k dst, Some r') \<and>
    rng_rep r' (drop k xs) \<and> rng_cap r' = rng_cap r"
proof -
  obtain f t b where v: "rng_view r f t b" and xs: "xs = rng_seg f t b"
    using assms(1) by (auto simp: rng_rep_iff)
  have ft: "f < length b" "t < length b" using v by (auto simp: rng_view_def)
  have len: "length xs = (if f \<le> t then t - f else length b - f + t)"
    using ft by (simp add: xs length_rng_seg)
  have fields: "offsetFromBuffer r = int f" "offsetToBuffer r = int t"
      "bufferSize r = int (length b)" "buffer r = b" using v by (auto simp: rng_view_def)
  have copy: "memcpy_at dst 0 b (int f) (int m) = Some (rng_write dst 0 (take m (drop f b)))"
    if "f + m \<le> length b" "m \<le> n" for m
    using memcpy_at_write [of 0 m dst f b] that assms(2) by simp
  define straight where "straight m = r\<lparr>offsetFromBuffer := int (f + m)\<rparr>" for m
  have straight: "rng_rep (straight m) (drop m xs) \<and> rng_cap (straight m) = rng_cap r"
    if "f \<le> t \<Longrightarrow> f + m \<le> t" "t < f \<Longrightarrow> f + m < length b" "m \<le> n" for m
    using that ft rng_seg_read [of f b t m]
    by (cases "f \<le> t"; auto intro!: rng_repI [of _ "f + m" t b] simp: straight_def rng_cap_def rng_view_def fields
        xs rng_write_def length_rng_seg min_absorb2)
  have copied: "rng_write dst 0 (take m (drop f b)) = take m xs @ drop m dst"
    if "f \<le> t \<Longrightarrow> f + m \<le> t" "t < f \<Longrightarrow> f + m < length b" for m
    using that ft rng_seg_read(2) [of f b t m]
    by (cases "f \<le> t") (simp_all add: xs rng_write_def length_rng_seg min_absorb2)
  consider "f \<le> t" | "t < f" "f + n < length b" | "t < f" "length b \<le> f + n" by linarith
  then show ?thesis
  proof cases
    case 1
    then have k: "k = min n (t - f)" by (simp add: k_def len)
    have "min (int n) (int t - int f) = int k" using 1 by (simp add: k of_nat_diff)
    then have "rngBufGet (Some r) dst (int n) =
        Some (int k, rng_write dst 0 (take k (drop f b)), Some (straight k))"
      using 1 ft k copy [of k] by (simp add: rngBufGet_def Let_def fields straight_def)
    then show ?thesis using straight [of k] copied [of k] 1 k by simp
  next
    case 2
    then have k: "k = n" by (simp add: k_def len)
    have "min (int n) (int (length b) - int f) = int k" using 2 by (simp add: k)
    then have "rngBufGet (Some r) dst (int n) =
        Some (int k, rng_write dst 0 (take k (drop f b)), Some (straight k))"
      using 2 ft k copy [of k] by (simp add: rngBufGet_def Let_def fields straight_def)
    then show ?thesis using straight [of k] copied [of k] 2 k by simp
  next
    case 3
    define m where "m = length b - f"
    define l where "l = min (n - m) t"
    have m: "m \<le> n" "f + m = length b" using 3 ft by (simp_all add: m_def)
    have fm: "int (length b) - int f = int m" "int f + int m = int (length b)" using m by simp_all
    have k: "k = m + l" using 3 m by (simp add: k_def len l_def m_def)
    have mn: "min (int n - int m) (int t) = int l" using m by (simp add: l_def of_nat_diff)
    define d1 where "d1 = rng_write dst 0 (take m (drop f b))"
    have ld1: "length d1 = length dst" using m assms(2) by (simp add: d1_def length_rng_write)
    have "memcpy_at d1 (int m) b 0 (int l) = Some (rng_write d1 m (take l b))"
      using memcpy_at_write [of m l d1 0 b] assms(2) m ft ld1 3 by (simp add: l_def)
    then have "rngBufGet (Some r) dst (int n) =
        Some (int k, rng_write d1 m (take l b), Some (r\<lparr>offsetFromBuffer := int l\<rparr>))"
      using 3 ft m copy [of m] mn by (simp add: rngBufGet_def Let_def fields k d1_def fm)
    moreover have "rng_write d1 m (take l b) = take k xs @ drop k dst"
      using rng_seg_read_wrap(2) [of f b t l] ft 3 assms(2) m
      by (simp add: k d1_def rng_write_def l_def xs m_def min_absorb2 add.commute)
    moreover have "rng_rep (r\<lparr>offsetFromBuffer := int l\<rparr>) (drop k xs)"
      using rng_seg_read_wrap(1) [of f b t l] ft 3
      by (intro rng_repI [of _ l t b]) (auto simp: rng_view_def fields xs k m_def l_def)
    ultimately show ?thesis by (auto simp: rng_cap_def)
  qed
qed

subsection \<open>Putting ahead\<close>

text \<open>The \<open>k\<close> bytes that lie ahead of the put offset, not yet part of the contents.\<close>

definition rng_ahead :: "RING \<Rightarrow> nat \<Rightarrow> u8 list" where
  "rng_ahead r k = map (\<lambda>j. buffer r ! ((nat (offsetToBuffer r) + j) mod length (buffer r))) [0..<k]"

lemma rng_seg_nth:
  assumes "f < length b" "t < length b" "j < length (rng_seg f t b)"
  shows "rng_seg f t b ! j = b ! ((f + j) mod length b)"
proof (cases "f + j < length b")
  case True then show ?thesis using assms by (auto simp: rng_seg_def nth_append)
next
  case False
  then have "(f + j) mod length b = f + j - length b"
    using assms by (subst le_mod_geq) (auto simp: length_rng_seg split: if_splits)
  then show ?thesis using assms False by (auto simp: rng_seg_def nth_append length_rng_seg ac_simps split: if_splits)
qed


lemma rngPutAhead_rep:
  assumes "rng_rep r xs" and "length xs + k < rng_cap r"
  shows "\<exists>r'. rngPutAhead (Some r) c (int k) = Some (OK, Some r') \<and> rng_rep r' xs \<and>
    rng_cap r' = rng_cap r \<and> rng_ahead r' (Suc k) = rng_ahead r k @ [c]"
proof -
  obtain f t b where v: "rng_view r f t b" and xs: "xs = rng_seg f t b"
    using assms(1) by (auto simp: rng_rep_iff)
  have ft: "f < length b" "t < length b" using v by (auto simp: rng_view_def)
  have fields: "offsetFromBuffer r = int f" "offsetToBuffer r = int t"
      "bufferSize r = int (length b)" "buffer r = b" using v by (auto simp: rng_view_def)
  define n where "n = (t + k) mod length b"
  have free: "(if f \<le> t then t - f else length b - f + t) + k < length b - 1"
    using assms(2) ft by (simp add: xs length_rng_seg rng_cap_def fields)
  then have n: "n = (if t + k < length b then t + k else t + k - length b)"
    using ft by (auto simp: n_def le_mod_geq split: if_splits)
  have nb: "n < length b" unfolding n_def using ft by (intro mod_less_divisor) linarith
  have put: "rngPutAhead (Some r) c (int k) = Some (OK, Some (r\<lparr>buffer := b[n := c]\<rparr>))"
  proof -
    have "(if int t + int k \<ge> int (length b) then int t + int k - int (length b) else int t + int k) = int n"
      by (simp add: n)
    then show ?thesis using nb
      by (simp only: rngPutAhead_def Let_def fields option.case) (simp add: store_at_def)
  qed
  have "rng_seg f t (b[n := c]) = rng_seg f t b"
    using free ft by (auto simp: rng_seg_def n drop_update_cancel drop_update_swap)
  then have "rng_rep (r\<lparr>buffer := b[n := c]\<rparr>) xs"
    using ft by (intro rng_repI [of _ f t "b[n := c]"]) (auto simp: rng_view_def fields xs)
  moreover have "rng_ahead (r\<lparr>buffer := b[n := c]\<rparr>) (Suc k) = rng_ahead r k @ [c]"
  proof -
    have "n \<noteq> (t + j) mod length b" if "j < k" for j
    proof -
      have "(t + j) mod length b = (if t + j < length b then t + j else t + j - length b)"
        using ft free that by (auto simp: le_mod_geq split: if_splits)
      then show ?thesis using that free ft by (auto simp: n split: if_splits)
    qed
    then show ?thesis using nb by (auto simp: rng_ahead_def fields n_def [symmetric])
  qed
  ultimately show ?thesis using put by (auto simp: rng_cap_def)
qed

lemma rngMoveAhead_rep:
  assumes "rng_rep r xs" and "length xs + k \<le> rng_cap r"
  shows "\<exists>r'. rngMoveAhead (Some r) (int k) = (OK, Some r') \<and> rng_rep r' (xs @ rng_ahead r k) \<and>
    rng_cap r' = rng_cap r"
proof -
  obtain f t b where v: "rng_view r f t b" and xs: "xs = rng_seg f t b"
    using assms(1) by (auto simp: rng_rep_iff)
  have ft: "f < length b" "t < length b" using v by (auto simp: rng_view_def)
  have fields: "offsetFromBuffer r = int f" "offsetToBuffer r = int t"
      "bufferSize r = int (length b)" "buffer r = b" using v by (auto simp: rng_view_def)
  have free: "(if f \<le> t then t - f else length b - f + t) + k \<le> length b - 1"
    using assms(2) ft by (simp add: xs length_rng_seg rng_cap_def fields)
  define t' where "t' = (if t + k < length b then t + k else t + k - length b)"
  have t': "t' < length b" using ft free by (auto simp: t'_def split: if_splits)
  have len: "length (rng_seg f t' b) = length (rng_seg f t b) + k"
    using ft t' free by (auto simp: length_rng_seg t'_def split: if_splits)
  have "rng_seg f t' b = rng_seg f t b @ rng_ahead r k"
  proof (rule nth_equalityI)
    fix j assume j: "j < length (rng_seg f t' b)"
    show "rng_seg f t' b ! j = (rng_seg f t b @ rng_ahead r k) ! j"
    proof (cases "j < length (rng_seg f t b)")
      case True then show ?thesis using j ft t' by (simp add: rng_seg_nth nth_append)
    next
      case False
      define i where "i = j - length (rng_seg f t b)"
      have i: "i < k" "j = length (rng_seg f t b) + i" using False j len by (auto simp: i_def)
      have "(f + j) mod length b = (t + i) mod length b"
        using i(2) ft by (auto simp: length_rng_seg add.assoc)
      then show ?thesis using i j ft t' by (simp add: rng_seg_nth nth_append rng_ahead_def fields)
    qed
  qed (simp add: len rng_ahead_def)
  moreover have "rngMoveAhead (Some r) (int k) = (OK, Some (r\<lparr>offsetToBuffer := int t'\<rparr>))"
    by (auto simp: rngMoveAhead_def Let_def fields t'_def of_nat_diff add.commute)
  ultimately show ?thesis using ft t'
    by (auto intro!: rng_repI [of _ f t' b] simp: rng_view_def fields rng_cap_def xs)
qed

subsection \<open>Properties\<close>

text \<open>C28. A ring buffer is a first-in first-out buffer: after any sequence of single-byte puts and gets, the
  bytes read followed by the bytes still stored are the bytes stored at the start followed by those that
  were accepted, in order; and the capacity is unchanged.\<close>

theorem rng_fifo_order:
  assumes "rng_rep r xs"
  shows "case fifo_run (\<lambda>c r. case rngElemPut r c of Some (True, _, r') \<Rightarrow> Some r' | _ \<Rightarrow> None)
      (\<lambda>r. case rngElemGet r 0 of Some (True, c, _, r') \<Rightarrow> Some (c, r') | _ \<Rightarrow> None) cs r of
    (ins, outs, t) \<Rightarrow> \<exists>ys. rng_rep t ys \<and> xs @ ins = outs @ ys \<and> rng_cap t = rng_cap r"
  by (rule rng.run_order [OF assms])

theorem rng_fifo_order_witness:
  "case fifo_run (\<lambda>c r. case rngElemPut r c of Some (True, _, r') \<Rightarrow> Some r' | _ \<Rightarrow> None)
      (\<lambda>r. case rngElemGet r 0 of Some (True, c, _, r') \<Rightarrow> Some (c, r') | _ \<Rightarrow> None)
      [FPut 1, FPut 2, FPut 3, FGet]
      \<lparr>offsetToBuffer = 2, offsetFromBuffer = 2, bufferSize = 3, buffer = [0, 0, 0]\<rparr> of
    (ins, outs, t) \<Rightarrow> \<exists>ys. rng_rep t ys \<and> ins = outs @ ys \<and> rng_cap t = 2"
proof -
  let ?r = "\<lparr>offsetToBuffer = 2, offsetFromBuffer = 2, bufferSize = 3, buffer = [0, 0, 0]\<rparr>"
  have "rng_rep ?r []" "rng_cap ?r = 2"
    by (simp_all add: rng_rep_def rng_wf_def rng_abs_def rng_seg_def rng_cap_def)
  then show ?thesis using rng_fifo_order [of ?r "[]" "[FPut 1, FPut 2, FPut 3, FGet]"]
    by (simp only: append_Nil)
qed

text \<open>\<open>rngBufPut\<close> stores as many bytes as fit and \<open>rngBufGet\<close> returns as many as there are, whether or not
  the transfer passes the end of the buffer: put then get of the same buffer hands over a prefix of the
  stored bytes followed by the new ones, and leaves the rest.\<close>

theorem rng_buf_transfer:
  assumes "rng_rep r xs" and "n \<le> length src" and "k \<le> length dst"
  shows "\<exists>r1 r2. rngBufPut (Some r) (Some src) (int n) = Some (int (min n (rng_cap r - length xs)), Some r1) \<and>
    (let ys = xs @ take (min n (rng_cap r - length xs)) src; j = min k (length ys)
     in rngNBytes (Some r1) = int (length ys) \<and>
        rngBufGet (Some r1) dst (int k) = Some (int j, take j ys @ drop j dst, Some r2) \<and>
        rng_rep r2 (drop j ys))"
proof -
  define ys where "ys = xs @ take (min n (rng_cap r - length xs)) src"
  obtain r1 where r1: "rngBufPut (Some r) (Some src) (int n) =
        Some (int (min n (rng_cap r - length xs)), Some r1)" "rng_rep r1 ys"
    using rngBufPut_rep [OF assms(1,2)] unfolding ys_def by blast
  obtain r2 where r2: "rngBufGet (Some r1) dst (int k) = Some (int (min k (length ys)),
        take (min k (length ys)) ys @ drop (min k (length ys)) dst, Some r2)"
      "rng_rep r2 (drop (min k (length ys)) ys)"
    using rngBufGet_rep [OF r1(2) assms(3)] by blast
  show ?thesis unfolding ys_def [symmetric] Let_def
    using r1(1) rng_count_rep(1) [OF r1(2)] r2 by blast
qed

theorem rng_buf_transfer_witness:
  "\<exists>r1 r2. rngBufPut (Some \<lparr>offsetToBuffer = 2, offsetFromBuffer = 1, bufferSize = 4, buffer = [9, 8, 7, 6]\<rparr>)
      (Some [1, 2, 3]) 3 = Some (2, Some r1) \<and>
    rngBufGet (Some r1) [0, 0] 2 = Some (2, [8, 1], Some r2) \<and> rng_rep r2 [2]"
proof -
  let ?r = "\<lparr>offsetToBuffer = 2, offsetFromBuffer = 1, bufferSize = 4, buffer = [9, 8, 7, 6]\<rparr>"
  have "rng_rep ?r [8]" and "rng_cap ?r = 3"
    by (simp_all add: rng_rep_def rng_wf_def rng_abs_def rng_seg_def rng_cap_def)
  with rng_buf_transfer [of ?r "[8]" 3 "[1, 2, 3]" 2 "[0, 0]"] show ?thesis
    by (simp add: Let_def) blast
qed

text \<open>Bytes put ahead one after the other.\<close>

primrec rng_put_ahead_all :: "u8 list \<Rightarrow> nat \<Rightarrow> RING \<Rightarrow> RING option" where
  "rng_put_ahead_all [] k r = Some r"
| "rng_put_ahead_all (c # cs) k r =
     (case rngPutAhead (Some r) c (int k) of
        Some (_, Some r') \<Rightarrow> rng_put_ahead_all cs (Suc k) r'
      | _ \<Rightarrow> None)"

lemma rng_put_ahead_all_rep:
  assumes "rng_rep r xs" and "length xs + k + length cs \<le> rng_cap r"
  shows "\<exists>r'. rng_put_ahead_all cs k r = Some r' \<and> rng_rep r' xs \<and> rng_cap r' = rng_cap r \<and>
    rng_ahead r' (k + length cs) = rng_ahead r k @ cs"
  using assms
proof (induction cs arbitrary: r k)
  case (Cons c cs)
  obtain r' where r': "rngPutAhead (Some r) c (int k) = Some (OK, Some r')" "rng_rep r' xs"
      "rng_cap r' = rng_cap r" "rng_ahead r' (Suc k) = rng_ahead r k @ [c]"
    using rngPutAhead_rep [of r xs k c] Cons.prems by auto
  then show ?case using Cons.IH [of r' "Suc k"] Cons.prems(2) by auto
qed simp

text \<open>Putting bytes ahead one by one does not change the contents, and \<open>rngMoveAhead\<close> then makes all of
  them readable at once, in order: the two steps are one put of the whole sequence.\<close>

theorem rng_put_ahead_commit:
  assumes "rng_rep r xs" and "length xs + length cs \<le> rng_cap r"
  shows "\<exists>r1 r2. rng_put_ahead_all cs 0 r = Some r1 \<and> rng_rep r1 xs \<and>
    rngMoveAhead (Some r1) (int (length cs)) = (OK, Some r2) \<and> rng_rep r2 (xs @ cs)"
proof -
  obtain r1 where r1: "rng_put_ahead_all cs 0 r = Some r1" "rng_rep r1 xs" "rng_cap r1 = rng_cap r"
      "rng_ahead r1 (length cs) = cs"
    using rng_put_ahead_all_rep [of r xs 0 cs] assms by (auto simp: rng_ahead_def)
  then show ?thesis using rngMoveAhead_rep [OF r1(2), of "length cs"] assms(2) by auto
qed

theorem rng_put_ahead_commit_witness:
  "\<exists>r1 r2. rng_put_ahead_all [1, 2]  0
      \<lparr>offsetToBuffer = 2, offsetFromBuffer = 2, bufferSize = 3, buffer = [9, 8, 7]\<rparr> = Some r1 \<and>
    rngMoveAhead (Some r1) 2 = (OK, Some r2) \<and> rng_rep r2 [1, 2]"
proof -
  let ?r = "\<lparr>offsetToBuffer = 2, offsetFromBuffer = 2, bufferSize = 3, buffer = [9, 8, 7]\<rparr>"
  have "rng_rep ?r []" "length [] + length [1, 2 :: u8] \<le> rng_cap ?r"
    by (simp_all add: rng_rep_def rng_wf_def rng_abs_def rng_seg_def rng_cap_def)
  from rng_put_ahead_commit [OF this] show ?thesis by auto
qed

end
