(* ===== verification/CksumLib.thy ===== *)
theory CksumLib
  imports Prelude
begin

text \<open>
  The Internet checksum: \<open>src/util/cksumLib.c\<close>, for the little-endian i386 port. The block is the list
  of the bytes that \<open>addr\<close> points at; reading beyond it and overflowing the signed accumulator \<open>sum\<close>
  are undefined in C and give \<open>None\<close>. The lemmas show that the result is the complement of the
  one's-complement sum of the 16-bit words, whatever the block.
\<close>

definition INT_MAX :: int where "INT_MAX = 0x7fffffff"

text \<open>\<open>*w\<close>: the 16-bit word that starts at the first of two bytes.\<close>

definition load16 :: "u8 \<Rightarrow> u8 \<Rightarrow> int" where
  "load16 b0 b1 = uint b0 + 256 * uint b1"

fun checksum_loop :: "u8 list \<Rightarrow> int \<Rightarrow> int \<Rightarrow> (u8 list \<times> int \<times> int) option" where
  "checksum_loop w nLeft acc =
     (if nLeft > 1
      then (case w of
              b0 # b1 # w' \<Rightarrow>
                (let acc' = acc + load16 b0 b1
                 in if acc' \<le> INT_MAX then checksum_loop w' (nLeft - 2) acc' else None)
            | _ \<Rightarrow> None)
      else Some (w, nLeft, acc))"

declare checksum_loop.simps [simp del]

definition checksum_fold :: "int \<Rightarrow> u16" where
  "checksum_fold acc =
     (let acc1 = acc div 65536 + acc mod 65536;
          acc2 = acc1 + acc1 div 65536;
          result = (word_of_int acc2 :: u16)
      in NOT result AND 0xffff)"

definition checksum :: "u8 list \<Rightarrow> int \<Rightarrow> u16 option" where
  "checksum addr len =
     (case checksum_loop addr len 0 of
        None \<Rightarrow> None
      | Some (w, nLeft, acc) \<Rightarrow>
          if nLeft = 1
          then (case w of
                  [] \<Rightarrow> None
                | b # _ \<Rightarrow> if acc + uint b \<le> INT_MAX then Some (checksum_fold (acc + uint b))
                           else None)
          else Some (checksum_fold acc))"

subsection \<open>The accumulated sum\<close>

fun le_words_sum :: "u8 list \<Rightarrow> int" where
  "le_words_sum [] = 0"
| "le_words_sum [b] = uint b"
| "le_words_sum (b0 # b1 # bs) = load16 b0 b1 + le_words_sum bs"

lemma load16_bounds: "0 \<le> load16 b0 b1" "load16 b0 b1 \<le> 65535"
  using uint_range_size [of b0] uint_range_size [of b1]
  by (simp_all add: load16_def word_size)

lemma le_words_sum_bounds:
  "0 \<le> le_words_sum bs" "le_words_sum bs \<le> 65535 * ((int (length bs) + 1) div 2)"
proof (induction bs rule: le_words_sum.induct)
  case (2 b)
  { case 1 show ?case by simp
  next case 2 show ?case using uint_range_size [of b] by (simp add: word_size) }
next
  case (3 b0 b1 bs)
  { case 1 show ?case using 3 load16_bounds [of b0 b1] by simp
  next case 2
    have "(int (length (b0 # b1 # bs)) + 1) div 2 = (int (length bs) + 1) div 2 + 1" by simp
    then show ?case using 3 load16_bounds [of b0 b1] by simp }
qed simp_all

lemma checksum_sum:
  assumes "0 \<le> s" and "s + le_words_sum bs \<le> INT_MAX"
  shows "\<exists>w n t. checksum_loop bs (int (length bs)) s = Some (w, n, t) \<and>
    (if n = 1 then \<exists>b. w = [b] \<and> t + uint b = s + le_words_sum bs
     else t = s + le_words_sum bs)"
  using assms
proof (induction bs arbitrary: s rule: le_words_sum.induct)
  case (3 b0 b1 bs)
  have le: "s + load16 b0 b1 \<le> INT_MAX"
    using 3(3) le_words_sum_bounds(1) [of bs] by simp
  have "checksum_loop (b0 # b1 # bs) (int (length (b0 # b1 # bs))) s =
    checksum_loop bs (int (length bs)) (s + load16 b0 b1)"
    using le by (subst checksum_loop.simps) (simp add: Let_def)
  moreover have "s + le_words_sum (b0 # b1 # bs) = s + load16 b0 b1 + le_words_sum bs" by simp
  ultimately show ?case
    using 3 load16_bounds(1) [of b0 b1] by (simp only: add_nonneg_nonneg)
qed (simp_all add: checksum_loop.simps)

lemma checksum_eq_fold:
  assumes "le_words_sum bs \<le> INT_MAX"
  shows "checksum bs (int (length bs)) = Some (checksum_fold (le_words_sum bs))"
  using checksum_sum [of 0 bs] assms
  by (auto simp: checksum_def split: if_splits)

subsection \<open>Folding the carries\<close>

text \<open>The one's-complement sum of 16-bit words whose arithmetic sum is \<open>s\<close>.\<close>

definition ones_sum :: "int \<Rightarrow> int" where
  "ones_sum s = (if s = 0 then 0 else (s - 1) mod 65535 + 1)"

lemma ones_sum_bounds: "0 \<le> ones_sum s" "ones_sum s \<le> 65535"
  using pos_mod_bound [of 65535 "s - 1"] pos_mod_sign [of 65535 "s - 1"]
  by (auto simp: ones_sum_def)

lemma ones_sum_unique:
  assumes "0 < r" "r \<le> 65535" "r mod 65535 = s mod 65535" "0 < s"
  shows "ones_sum s = r"
proof -
  have "(s - 1) mod 65535 = (r - 1) mod 65535" using assms(3) by (metis mod_diff_left_eq)
  also have "\<dots> = r - 1" using assms(1,2) by simp
  finally show ?thesis using assms(4) by (simp add: ones_sum_def)
qed

lemma fold_carries:
  assumes "0 \<le> s" "s \<le> INT_MAX"
  defines "s1 \<equiv> s div 65536 + s mod 65536"
  shows "(s1 + s1 div 65536) mod 65536 = ones_sum s"
proof (cases "s = 0")
  case True then show ?thesis by (simp add: s1_def ones_sum_def)
next
  case False
  have s: "s = 65536 * (s div 65536) + s mod 65536" by simp
  have hi: "0 \<le> s div 65536" "s div 65536 \<le> 32767" using assms by (simp_all add: INT_MAX_def)
  have lo: "0 \<le> s mod 65536" "s mod 65536 \<le> 65535" by simp_all
  have c1: "s1 mod 65535 = s mod 65535"
  proof -
    have "s = s1 + 65535 * (s div 65536)" using s by (simp add: s1_def)
    then show ?thesis by (metis mod_mult_self2)
  qed
  have pos: "0 < s1" using False assms(1) s hi lo unfolding s1_def by linarith
  have ub: "s1 \<le> 98302" using hi lo by (simp add: s1_def)
  have sp: "0 < s" using False assms(1) by simp
  show ?thesis
  proof (cases "s1 < 65536")
    case True
    then have "ones_sum s = s1" using pos sp c1 by (intro ones_sum_unique) simp_all
    then show ?thesis using True pos by simp
  next
    case big: False
    have d: "s1 div 65536 = 1" using big ub by linarith
    have "ones_sum s = s1 - 65535"
      using big ub sp c1 by (intro ones_sum_unique) simp_all
    moreover have "(s1 + 1) mod 65536 = (s1 - 65535) mod 65536" by (simp add: mod_eq_dvd_iff)
    moreover have "(s1 - 65535) mod 65536 = s1 - 65535"
      using big ub by (intro mod_pos_pos_trivial) simp_all
    ultimately show ?thesis unfolding d by simp
  qed
qed

lemma checksum_fold_ones:
  assumes "0 \<le> s" "s \<le> INT_MAX"
  shows "uint (checksum_fold s) = 65535 - ones_sum s"
proof -
  define s2 where "s2 = (let s1 = s div 65536 + s mod 65536 in s1 + s1 div 65536)"
  have m: "s2 mod 65536 = ones_sum s" using fold_carries [OF assms] by (simp add: s2_def Let_def)
  have low: "(0xffff :: u16) = - 1" by (simp add: word_eq_iff_unsigned)
  have "checksum_fold s = NOT (word_of_int s2)"
    by (simp only: checksum_fold_def s2_def Let_def low bit.conj_one_right)
  also have "\<dots> = word_of_int (- s2 - 1)" by (simp add: not_eq_complement)
  also have "\<dots> = word_of_int (65535 - s2 mod 65536)"
  proof -
    have "- s2 - 1 = 65535 - s2 mod 65536 + 65536 * (- (s2 div 65536) - 1)"
      using div_mult_mod_eq [of s2 65536] by (simp add: algebra_simps)
    then have "(- s2 - 1) mod 65536 = (65535 - s2 mod 65536) mod 65536"
      by (metis mod_mult_self2)
    then show ?thesis by (simp only: word_of_int_eq_iff take_bit_eq_mod) simp
  qed
  finally have "checksum_fold s = word_of_int (65535 - ones_sum s)" unfolding m .
  moreover have "(65535 - ones_sum s) mod 65536 = 65535 - ones_sum s"
    using ones_sum_bounds [of s] by (intro mod_pos_pos_trivial) simp_all
  ultimately show ?thesis by (simp only: uint_word_of_int) simp
qed

subsection \<open>The checksum of a block\<close>

lemma checksum_ones:
  assumes "length bs \<le> 65536"
  shows "\<exists>r. checksum bs (int (length bs)) = Some r \<and>
    uint r = 65535 - ones_sum (le_words_sum bs)"
proof -
  have "(int (length bs) + 1) div 2 \<le> 32768" using assms by simp
  then have "le_words_sum bs \<le> INT_MAX"
    using le_words_sum_bounds(2) [of bs] by (simp add: INT_MAX_def)
  then show ?thesis
    using checksum_eq_fold checksum_fold_ones le_words_sum_bounds(1) by blast
qed

lemma le_words_sum_append:
  "even (length as) \<Longrightarrow> le_words_sum (as @ bs) = le_words_sum as + le_words_sum bs"
  by (induction as rule: le_words_sum.induct) simp_all

definition store16 :: "u16 \<Rightarrow> u8 list" where
  "store16 v = [ucast v, ucast (drop_bit 8 v)]"

lemma le_words_sum_store16: "le_words_sum (store16 v) = uint v"
proof -
  have b: "0 \<le> uint v" "uint v < 65536" using uint_range_size [of v] by (simp_all add: word_size)
  have "uint (ucast v :: u8) = uint v mod 256"
    by (simp add: unsigned_ucast_eq take_bit_eq_mod)
  moreover have "uint v div 256 mod 256 = uint v div 256"
    using b by (intro mod_pos_pos_trivial; linarith)
  then have "uint (ucast (drop_bit 8 v) :: u8) = uint v div 256"
    by (simp add: unsigned_ucast_eq take_bit_eq_mod drop_bit_eq_div uint_div)
  ultimately show ?thesis by (simp add: store16_def load16_def)
qed

lemma checksum_of_checked:
  assumes "even (length bs)" and "length bs \<le> 65534"
    and "checksum bs (int (length bs)) = Some r"
  shows "checksum (bs @ store16 r) (int (length bs) + 2) = Some 0"
proof -
  define S where "S = le_words_sum bs"
  have S: "0 \<le> S" unfolding S_def by (rule le_words_sum_bounds)
  have r: "uint r = 65535 - ones_sum S"
    using checksum_ones [of bs] assms(2,3) by (auto simp: S_def)
  have sum: "le_words_sum (bs @ store16 r) = S + (65535 - ones_sum S)"
    using assms(1) by (simp add: le_words_sum_append le_words_sum_store16 S_def r)
  have len: "length (bs @ store16 r) \<le> 65536" using assms(2) by (simp add: store16_def)
  have "ones_sum (S + (65535 - ones_sum S)) = 65535"
  proof (rule ones_sum_unique)
    show "0 < S + (65535 - ones_sum S)"
      using S ones_sum_bounds [of S] by (cases "S = 0") (simp_all add: ones_sum_def)
    have "(S - ones_sum S) mod 65535 = 0"
    proof (cases "S = 0")
      case False
      have "(S - 1) - (S - 1) mod 65535 = 65535 * ((S - 1) div 65535)"
        by (simp add: minus_mod_eq_mult_div)
      then have "S - ones_sum S = 65535 * ((S - 1) div 65535)" using False by (simp add: ones_sum_def)
      then show ?thesis by simp
    qed (simp add: ones_sum_def)
    then show "65535 mod 65535 = (S + (65535 - ones_sum S)) mod 65535"
      by (metis add_diff_eq diff_add_eq mod_add_self2 mod_self)
  qed simp_all
  then obtain q where "checksum (bs @ store16 r) (int (length (bs @ store16 r))) = Some q"
    and "uint q = 0"
    using checksum_ones [OF len] by (auto simp: sum)
  moreover from this have "q = 0" by (simp add: word_eq_iff_unsigned [where 'a = int])
  ultimately show ?thesis by (simp add: store16_def add.commute)
qed

lemma checksum_loop_overflow:
  assumes "0 \<le> s" "s \<le> INT_MAX" "INT_MAX < s + 65535 * int k"
  shows "checksum_loop (replicate (2 * k) 0xff) (int (2 * k)) s = None"
  using assms
proof (induction k arbitrary: s)
  case (Suc k)
  have "replicate (2 * Suc k) (0xff :: u8) = 0xff # 0xff # replicate (2 * k) 0xff" by simp
  moreover have "int (2 * Suc k) - 2 = int (2 * k)" by simp
  moreover have "load16 0xff 0xff = 65535" by (simp add: load16_def)
  ultimately show ?case
    using Suc.IH [of "s + 65535"] Suc.prems
    by (subst checksum_loop.simps) (simp del: replicate.simps add: Let_def)
qed simp

lemma checksum_overflow:
  "32769 \<le> k \<Longrightarrow> checksum (replicate (2 * k) 0xff) (int (2 * k)) = None"
  using checksum_loop_overflow [of 0 k] by (simp add: checksum_def INT_MAX_def)

subsection \<open>Properties\<close>

text \<open>C29. For every block of at most 65536 bytes, of even or odd length, \<open>checksum\<close> runs without overflow
  and returns the complement of the one's-complement sum of its little-endian 16-bit words.\<close>

theorem checksum_correct:
  assumes "length bs \<le> 65536"
  shows "\<exists>r. checksum bs (int (length bs)) = Some r \<and> uint r = 65535 - ones_sum (le_words_sum bs)"
  by (rule checksum_ones [OF assms])

theorem checksum_correct_witness: "\<exists>r. checksum [0x45, 0, 7] 3 = Some r \<and> uint r = 0xffb3"
proof -
  have "le_words_sum [0x45, 0, 7] = 0x4c" by (simp add: load16_def)
  then show ?thesis using checksum_correct [of "[0x45, 0, 7]"] by (simp add: ones_sum_def)
qed

text \<open>The receiver's test: a block of even length followed by its own checksum has the checksum 0.\<close>

theorem checksum_verifies:
  assumes "even (length bs)" and "length bs \<le> 65534"
  shows "\<exists>r. checksum bs (int (length bs)) = Some r \<and>
    checksum (bs @ store16 r) (int (length bs) + 2) = Some 0"
proof -
  obtain r where "checksum bs (int (length bs)) = Some r" using checksum_ones [of bs] assms(2) by auto
  with checksum_of_checked [OF assms] show ?thesis by blast
qed

theorem checksum_verifies_witness:
  "\<exists>r. checksum [0x45, 0, 7, 1] 4 = Some r \<and> checksum ([0x45, 0, 7, 1] @ store16 r) 6 = Some 0"
  using checksum_verifies [of "[0x45, 0, 7, 1]"] by simp

end
