(* ===== verification/Spec2Isabelle.thy ===== *)
theory Spec2Isabelle
  imports VmxProps SchedOps SemProps WdLib MsgQProps MemPartProps SymProps PathProps TaskVarProps BootProps TaskRestart ListLib SllLib RngLib CksumLib
begin

text \<open>
  A verification library for the kernel and the utility libraries of Real VMX (i386 port).

  \<^bold>\<open>The program.\<close> The kernel (\<open>src/vmx\<close>) keeps every task in a ready queue, a tick queue and pend queues. Its
  routines (\<open>vmxLib.c\<close>) run with \<open>kernelState\<close> set; the libraries above them (tasks, semaphores, watchdogs, message
  queues) set it, call a routine and leave through \<open>vmxExit\<close> in \<open>vmxALib.s\<close>, which runs the deferred work and switches
  tasks. Interrupts that find the kernel busy put their calls in the work queue. The queues are the classes of
  \<open>src/util/qLib.c\<close> over intrusive lists. Beside the kernel stand the services of \<open>src/os\<close>: objects and classes,
  memory partitions, hash and symbol tables, the tables of the I/O system, path names, task hooks and variables.

  \<^bold>\<open>Theories, in the order they build on each other.\<close>
  \<^item> \<open>Prelude\<close>: pointers (natural numbers, \<open>NULL\<close> is 0), status codes, machine integers as words, shared lemmas.
  \<^item> Lists in a store: \<open>NodeList\<close> (the contract \<open>node_list\<close>), \<open>DllLib\<close> (\<open>dllLib.c\<close>), \<open>SllLib\<close> (\<open>sllLib.c\<close>), \<open>ListLib\<close>
    (\<open>listLib.c\<close>). A list head and its nodes are fields of one store, and \<open>dll_rep\<close>, \<open>sll_rep\<close>, \<open>list_rep\<close> say which
    list of nodes a head holds.
  \<^item> Queues: \<open>PrioQ\<close> (the contract \<open>prio_class\<close>), \<open>QFifoLib\<close>, \<open>QPrioLib\<close>, \<open>QPriBmpLib\<close> with \<open>FfsLib\<close>, and \<open>QLib\<close>, the
    dispatch of \<open>qLib.c\<close>. Rings: \<open>Fifo\<close> (the contract \<open>bounded_fifo\<close>), \<open>RngLib\<close>, \<open>WorkQLib\<close>. \<open>CksumLib\<close> is alone.
  \<^item> The kernel: \<open>Kernel\<close> holds its state, one record \<open>kstate\<close> of the global variables, TCBs and objects, with the
    queues as the abstract lists that the refinement of the queue classes justifies. \<open>VmxLib\<close> is \<open>vmxLib.c\<close>;
    \<open>VmxInv\<close> states the invariant \<open>kok\<close>, \<open>VmxOps\<close>, \<open>VmxTick\<close>, \<open>VmxCtl\<close> give the effect of each routine under it, \<open>VmxSafe\<close> makes one machine of
    them, \<open>VmxProps\<close> has the properties and \<open>VmxDemo\<close> the example they are run on.
  \<^item> Leaving the kernel: \<open>ObjLib\<close> (\<open>objLib.c\<close>, \<open>classLib.c\<close>, \<open>OBJ_VERIFY\<close>), \<open>Sched\<close> (\<open>vmxALib.s\<close> and the deferred calls),
    \<open>SchedOps\<close> (the work queue loop ends, the most urgent task runs).
  \<^item> Libraries: \<open>TaskLib\<close> (\<open>taskLib.c\<close>, \<open>taskInfo.c\<close>, \<open>tickLib.c\<close>), \<open>SemLib\<close> and \<open>SemProps\<close> (\<open>sem*Lib.c\<close>), \<open>WdLib\<close>
    (\<open>wdLib.c\<close>), \<open>MsgQLib\<close> and \<open>MsgQProps\<close> (\<open>qMsgLib.c\<close>, \<open>msgQLib.c\<close>), \<open>KernelInit\<close> and \<open>BootProps\<close> (\<open>kernelInit\<close>,
    \<open>usrKernelInit\<close>), \<open>TaskHookLib\<close> and \<open>TaskHookProps\<close> (\<open>taskHookLib.c\<close>), \<open>TaskVarLib\<close> and \<open>TaskVarProps\<close>
    (\<open>taskVarLib.c\<close>), \<open>TaskRestart\<close> (\<open>taskRestart\<close>, \<open>taskRegsGet\<close>).
  \<^item> Services: \<open>MemPartLib\<close> (\<open>memPartLib.c\<close>, \<open>memLib.c\<close>) with \<open>MemPartLayout\<close>, \<open>MemPartAlloc\<close>, \<open>MemPartFree\<close>,
    \<open>MemPartProps\<close>; \<open>HashLib\<close> and \<open>HashProps\<close> (\<open>hashLib.c\<close>), \<open>SymLib\<close> and \<open>SymProps\<close> (\<open>symLib.c\<close>); \<open>IosLib\<close> and
    \<open>IosProps\<close> (\<open>iosLib.c\<close>), \<open>PathLib\<close> and \<open>PathProps\<close> (\<open>pathLib.c\<close>).

  \<^bold>\<open>Contracts.\<close> A locale stands where several providers share a contract or a client relies on one: \<open>node_list\<close> and
  \<open>node_list_remove\<close> (interpreted as \<open>dll\<close>, \<open>sll\<close>, \<open>clist\<close>), \<open>prio_class\<close> (\<open>qprio\<close>, \<open>qpribmp\<close>, and \<open>qfront\<close> for the
  front end), \<open>bounded_fifo\<close> (\<open>rng\<close>, \<open>workq\<close>), \<open>semaphore_kind\<close> (\<open>semB\<close>, \<open>semC\<close>) and \<open>hash_functions\<close> (\<open>symf\<close>).

  \<^bold>\<open>What is shown.\<close> The kernel starts in its invariant and every sequence of legal calls of its
  routines is defined and keeps it; leaving the kernel runs each deferred job once, in order, and
  ends with the most urgent ready task; ticks wake exactly the tasks that
  are due. Semaphores, message queues, hash and symbol tables, the tables of open files, task variables and the queue
  classes refine short abstract machines over sequences of operations. Memory partitions lose no memory in any
  session of requests that are not huge. Where the code does not do what it means to do, a theorem states what it does
  instead, and the manifest lists it as a finding. The text before a property names every condition it has.

  \<^bold>\<open>Errors, loops and fuel.\<close> A function whose C behaviour is undefined, or that does not return, has the result \<open>None\<close>,
  so that a theorem that gives \<open>Some\<close> shows both that it returns and that it stays within its memory. Loops over
  lists in a store are \<open>partial_function (option)\<close>; the loops of the scheduler have fuel, one unit
  for each round. A round takes one job of the ring, which holds 255, so that four units more than there are jobs are
  enough to leave the kernel, and one unit when nothing is deferred and the caller goes on. A call that blocks is
  split at the point where its task is switched out; the second part is a step function of its own (\<open>_resume\<close>).

  \<^bold>\<open>Not modelled.\<close>
  \<^item> Registers in a task switch, stacks and their fill, the interrupt lock level, signals, standard files and the environment of a task:
    what the model keeps of a task switch is the current task, \<open>errno\<close> and the value a call comes back with.
  \<^item> The bytes of memory blocks and messages beyond what the properties speak of; addresses inside one block (a queue head
    in an object, a list node in a header) are names of their own in the store.
  \<^item> The two members of the union of a semaphore (\<open>owner\<close>, \<open>count\<close>) are kept apart, since each kind uses one of them.
  \<^item> The mutexes of partitions, symbol tables and the I/O system are an owner and a depth, or a flag, and not the
    semaphores of \<open>SemLib\<close>: the calls that hold them are single steps. Task hooks and variables extend the kernel's
    state by a record of their own; the hooks of the scheduler's model are a parameter, and the theory of task hooks
    gives the code that calls them.
  \<^item> Results of allocators, of the methods of drivers, compare functions and hooks that clients supply are parameters.
  \<^item> Printing (\<open>*Show.c\<close>); and, as subsystems apart from the kernel: \<open>ioLib.c\<close>, \<open>selectLib.c\<close>,
    \<open>sigLib.c\<close>, \<open>tyLib.c\<close>, \<open>pipeDrv.c\<close>, \<open>envLib.c\<close>, \<open>vmLib.c\<close>, the rest of \<open>src/arch\<close>, drivers, file systems, the network stack, the C library, graphics, the shell and the build.
\<close>

end
